(* ===== verification/N8n_Prelude.thy ===== *)
theory N8n_Prelude
  imports Main "HOL-Library.AList" "HOL-Library.Multiset"
begin

text \<open>
  The shared base of the development: the JavaScript containers the n8n sources use
  (insertion-ordered \<open>Map\<close>, plain objects with their own key order, \<open>Set\<close>),
  errors as values of a sum type, and generic facts about association lists, folds and
  reachability that the component theories share.

  A dictionary is an association list in enumeration order, read with \<^const>\<open>map_of\<close>.
  The two ways JavaScript writes one are \<^const>\<open>AList.update\<close> (\<open>Map.prototype.set\<close>:
  in place, or appended) and \<open>obj_set\<close> below (a property assignment on a plain object,
  which enumerates array-index keys first, ascending). Both satisfy the contract of the
  locale \<open>dict_writer\<close>, so what only depends on lookups is proved once.
\<close>

section \<open>Collections of facts\<close>

named_theorems js_simps \<open>evaluation of the container operations\<close>
named_theorems js_err \<open>case analysis of results that may be errors\<close>

section \<open>Types shared by all components\<close>

type_synonym ('k, 'v) dict = "('k \<times> 'v) list"

text \<open>What the sources throw: a failed \<open>assert.ok\<close>, a property access on
  \<open>undefined\<close>, and the error classes of \<open>n8n-workflow\<close> with their message.
  \<open>UndefinedValue\<close> is not thrown: it marks a run in which the source goes on with an
  \<open>undefined\<close> where the model has no value for it (a hole in an array of items, a stack entry
  without node), and stands for leaving the model.\<close>

datatype js_error =
    AssertionError
  | TypeError
  | UserError string
  | UnexpectedError string
  | OperationalError string
  | UndefinedValue

type_synonym 'a result = "js_error + 'a"

text \<open>JSON values as parameters and items carry them.\<close>

datatype json =
    JNull
  | JBool bool
  | JNum int
  | JStr string
  | JArr "json list"
  | JObj "(string \<times> json) list"

fun json_truthy :: "json \<Rightarrow> bool" where
  "json_truthy JNull = False"
| "json_truthy (JBool b) = b"
| "json_truthy (JNum n) = (n \<noteq> 0)"
| "json_truthy (JStr s) = (s \<noteq> [])"
| "json_truthy _ = True"

section \<open>Errors as values\<close>

fun res_bind :: "'e + 'a \<Rightarrow> ('a \<Rightarrow> 'e + 'b) \<Rightarrow> 'e + 'b" where
  "res_bind (Inl e) f = Inl e"
| "res_bind (Inr x) f = f x"

lemma res_bind_cong [fundef_cong]:
  "r = r' \<Longrightarrow> (\<And>x. r' = Inr x \<Longrightarrow> f x = f' x) \<Longrightarrow> res_bind r f = res_bind r' f'"
  by (cases r') simp_all

lemma res_bind_Inr_iff [js_err]:
  "res_bind r f = Inr y \<longleftrightarrow> (\<exists>x. r = Inr x \<and> f x = Inr y)"
  by (cases r) auto

lemma res_bind_Inl_iff [js_err]:
  "res_bind r f = Inl e \<longleftrightarrow> r = Inl e \<or> (\<exists>x. r = Inr x \<and> f x = Inl e)"
  by (cases r) auto

text \<open>A \<open>for\<close> loop over a list whose body may throw.\<close>

fun res_fold :: "('a \<Rightarrow> 's \<Rightarrow> 'e + 's) \<Rightarrow> 'a list \<Rightarrow> 's \<Rightarrow> 'e + 's" where
  "res_fold f [] s = Inr s"
| "res_fold f (x # xs) s = res_bind (f x s) (res_fold f xs)"

lemma res_fold_append:
  "res_fold f (xs @ ys) s = res_bind (res_fold f xs s) (res_fold f ys)"
proof (induction xs arbitrary: s)
  case Nil
  then show ?case by simp
next
  case (Cons x xs)
  then show ?case by (cases "f x s") simp_all
qed

lemma res_fold_invariant:
  assumes "res_fold f xs s = Inr s'" and "P s"
    and "\<And>x s s'. x \<in> set xs \<Longrightarrow> P s \<Longrightarrow> f x s = Inr s' \<Longrightarrow> P s'"
  shows "P s'"
  using assms
proof (induction xs arbitrary: s)
  case Nil
  then show ?case by simp
next
  case (Cons x xs)
  from Cons.prems(1) obtain t where "f x s = Inr t" and t: "res_fold f xs t = Inr s'"
    by (auto simp: res_bind_Inr_iff)
  with Cons.prems have "P t" by auto
  with t show ?case using Cons.prems(3) by (intro Cons.IH) auto
qed

lemma res_fold_Inr_if:
  assumes "P s" and "\<And>x s. x \<in> set xs \<Longrightarrow> P s \<Longrightarrow> \<exists>s'. f x s = Inr s' \<and> P s'"
  shows "\<exists>s'. res_fold f xs s = Inr s' \<and> P s'"
  using assms
proof (induction xs arbitrary: s)
  case Nil
  then show ?case by simp
next
  case (Cons x xs)
  from Cons.prems obtain t where t: "f x s = Inr t" "P t" by fastforce
  with Cons.prems(2) have "\<exists>s'. res_fold f xs t = Inr s' \<and> P s'" by (intro Cons.IH) auto
  with t show ?case by simp
qed

lemma res_fold_cong [fundef_cong]:
  assumes "xs = ys" and "s = t" and "\<And>x s. x \<in> set ys \<Longrightarrow> f x s = g x s"
  shows "res_fold f xs s = res_fold g ys t"
proof -
  have "res_fold f ys s = res_fold g ys s" using assms(3)
  proof (induction ys arbitrary: s)
    case Nil
    then show ?case by simp
  next
    case (Cons y ys)
    then show ?case by (cases "g y s") simp_all
  qed
  with assms(1,2) show ?thesis by simp
qed

text \<open>A loop in which every step adds to a set adds the union.\<close>

lemma res_fold_union:
  assumes "P s" and "\<And>x s. x \<in> set xs \<Longrightarrow> P s \<Longrightarrow> \<exists>s'. f x s = Inr s' \<and> P s' \<and> val s' = val s \<union> V x"
  shows "\<exists>s'. res_fold f xs s = Inr s' \<and> P s' \<and> val s' = val s \<union> (\<Union>x \<in> set xs. V x)"
  using assms
proof (induction xs arbitrary: s)
  case Nil
  then show ?case by simp
next
  case (Cons x xs)
  from Cons.prems(2) [of x s] Cons.prems(1) obtain t where t: "f x s = Inr t" "P t" "val t = val s \<union> V x" by auto
  from Cons.IH [OF t(2)] Cons.prems(2) obtain s' where
    "res_fold f xs t = Inr s' \<and> P s' \<and> val s' = val t \<union> (\<Union>x \<in> set xs. V x)" by auto
  with t show ?case by auto
qed

section \<open>Dictionaries\<close>

subsection \<open>The contract of a dictionary write\<close>

text \<open>
  A writer stores a value under a key and leaves every other key alone; it keeps the
  keys distinct and adds no key but its own. Everything a client proves from these laws
  holds of \<open>Map.set\<close> and of a property assignment alike.
\<close>

locale dict_writer =
  fixes put :: "'k \<Rightarrow> 'v \<Rightarrow> ('k \<times> 'v) list \<Rightarrow> ('k \<times> 'v) list"
  assumes lookup_put: "map_of (put k v m) = (map_of m)(k \<mapsto> v)"
    and keys_put: "fst ` set (put k v m) = insert k (fst ` set m)"
    and distinct_put: "distinct (map fst m) \<Longrightarrow> distinct (map fst (put k v m))"
begin

lemma lookup_put_same: "map_of (put k v m) k = Some v"
  by (simp add: lookup_put)

lemma lookup_put_other: "k' \<noteq> k \<Longrightarrow> map_of (put k v m) k' = map_of m k'"
  by (simp add: lookup_put)

lemma lookup_fold_put:
  "map_of (fold (\<lambda>x. put (f x) (g x)) xs m) k =
     (case find (\<lambda>x. f x = k) (rev xs) of Some x \<Rightarrow> Some (g x) | None \<Rightarrow> map_of m k)"
proof (induction xs rule: rev_induct)
  case Nil
  then show ?case by simp
next
  case (snoc x xs)
  then show ?case by (simp add: lookup_put)
qed

lemma distinct_fold_put:
  "distinct (map fst m) \<Longrightarrow> distinct (map fst (fold (\<lambda>x. put (f x) (g x)) xs m))"
  by (induction xs arbitrary: m) (simp_all add: distinct_put)

lemma keys_fold_put:
  "fst ` set (fold (\<lambda>x. put (f x) (g x)) xs m) = f ` set xs \<union> fst ` set m"
  by (induction xs arbitrary: m) (auto simp: keys_put)

end

text \<open>With distinct keys an entry is in the list exactly when lookup returns it.\<close>

lemma dict_entry_iff:
  "distinct (map fst m) \<Longrightarrow> (k, v) \<in> set m \<longleftrightarrow> map_of m k = Some v"
  by auto

subsection \<open>\<open>Map\<close>\<close>

lemma keys_update: "fst ` set (AList.update k v m) = insert k (fst ` set m)"
  by (induction m) auto

interpretation map_writer: dict_writer AList.update
  by unfold_locales (simp_all add: update_conv' keys_update distinct_update)

lemma map_of_delete [simp]: "map_of (AList.delete k m) = (map_of m)(k := None)"
  by (rule delete_conv')

lemma delete_fst_iff [simp]: "fst ` set (AList.delete k m) = fst ` set m - {k}"
  by (induction m) auto

lemma delete_subset: "set (AList.delete k m) \<subseteq> set m"
  by (induction m) auto

lemma update_fresh: "k \<notin> fst ` set m \<Longrightarrow> AList.update k v m = m @ [(k, v)]"
  by (induction m) auto

lemma fold_update_fresh:
  "distinct (map fst (acc @ m)) \<Longrightarrow> fold (\<lambda>p. AList.update (fst p) (snd p)) m acc = acc @ m"
proof (induction m arbitrary: acc)
  case Nil
  then show ?case by simp
next
  case (Cons p m)
  then show ?case by (simp add: update_fresh)
qed

text \<open>Writing a value under the key it already has changes nothing.\<close>

lemma set_update_iff:
  "distinct (map fst m) \<Longrightarrow>
   (k', v') \<in> set (AList.update k v m) \<longleftrightarrow> (if k' = k then v' = v else (k', v') \<in> set m)"
  by (induction m) (auto simp: rev_image_eqI)

subsection \<open>Plain objects\<close>

text \<open>
  Own string keys of a plain object enumerate with the canonical array indices first, in
  ascending order, and the other keys after them in insertion order. A node called
  ''7'' is therefore listed before a node called ''a'', whichever was stored first.
\<close>

definition digit :: "char \<Rightarrow> bool" where
  "digit c \<longleftrightarrow> c \<in> set ''0123456789''"

fun digits_val :: "nat \<Rightarrow> string \<Rightarrow> nat" where
  "digits_val acc [] = acc"
| "digits_val acc (c # cs) = digits_val (10 * acc + (of_char c - 48)) cs"

text \<open>A canonical array index: decimal, no leading zero, below \<open>2\<^sup>3\<^sup>2 - 1\<close>.\<close>

definition array_index :: "string \<Rightarrow> nat option" where
  "array_index s =
     (if s \<noteq> [] \<and> list_all digit s \<and> (hd s = CHR ''0'' \<longrightarrow> s = ''0'')
         \<and> digits_val 0 s < 4294967295
      then Some (digits_val 0 s) else None)"

definition key_before :: "string \<Rightarrow> string \<Rightarrow> bool" where
  "key_before k' k \<longleftrightarrow>
     (case array_index k of
        None \<Rightarrow> True
      | Some j \<Rightarrow> (case array_index k' of None \<Rightarrow> False | Some i \<Rightarrow> i < j))"

definition obj_set :: "string \<Rightarrow> 'v \<Rightarrow> (string, 'v) dict \<Rightarrow> (string, 'v) dict" where
  "obj_set k v m =
     (if k \<in> fst ` set m then AList.update k v m
      else takeWhile (\<lambda>p. key_before (fst p) k) m @ (k, v) #
             dropWhile (\<lambda>p. key_before (fst p) k) m)"

lemma obj_set_fresh_decomp:
  assumes "k \<notin> fst ` set m"
  obtains xs ys where "m = xs @ ys" and "obj_set k v m = xs @ (k, v) # ys"
proof
  show "m = takeWhile (\<lambda>p. key_before (fst p) k) m @ dropWhile (\<lambda>p. key_before (fst p) k) m"
    by simp
  show "obj_set k v m = takeWhile (\<lambda>p. key_before (fst p) k) m @ (k, v) #
      dropWhile (\<lambda>p. key_before (fst p) k) m"
    using assms by (simp only: obj_set_def if_False)
qed

lemma map_of_obj_set: "map_of (obj_set k v m) = (map_of m)(k \<mapsto> v)"
proof (cases "k \<in> fst ` set m")
  case True
  then show ?thesis by (simp add: obj_set_def update_conv')
next
  case False
  obtain xs ys where m: "m = xs @ ys" "obj_set k v m = xs @ (k, v) # ys"
    using False by (rule obj_set_fresh_decomp)
  with False have "map_of xs k = None" by (simp add: map_of_eq_None_iff image_Un)
  with m show ?thesis by (auto simp: fun_eq_iff map_add_def split: option.splits)
qed

lemma keys_obj_set: "fst ` set (obj_set k v m) = insert k (fst ` set m)"
proof (cases "k \<in> fst ` set m")
  case True
  then show ?thesis by (simp add: obj_set_def keys_update)
next
  case False
  then obtain xs ys where "m = xs @ ys" "obj_set k v m = xs @ (k, v) # ys"
    by (rule obj_set_fresh_decomp)
  then show ?thesis by auto
qed

lemma distinct_obj_set:
  assumes "distinct (map fst m)"
  shows "distinct (map fst (obj_set k v m))"
proof (cases "k \<in> fst ` set m")
  case True
  with assms show ?thesis by (simp add: obj_set_def distinct_update)
next
  case False
  then obtain xs ys where "m = xs @ ys" "obj_set k v m = xs @ (k, v) # ys"
    by (rule obj_set_fresh_decomp)
  with assms False show ?thesis by auto
qed

interpretation obj_writer: dict_writer obj_set
  by unfold_locales (simp_all add: map_of_obj_set keys_obj_set distinct_obj_set)

section \<open>Sets kept as lists in insertion order\<close>

definition set_add :: "'a \<Rightarrow> 'a list \<Rightarrow> 'a list" where
  "set_add x xs = (if x \<in> set xs then xs else xs @ [x])"

definition set_of_list :: "'a list \<Rightarrow> 'a list" where
  "set_of_list xs = fold set_add xs []"

lemma set_set_add [simp]: "set (set_add x xs) = insert x (set xs)"
  by (auto simp: set_add_def)

lemma distinct_set_add [simp]: "distinct xs \<Longrightarrow> distinct (set_add x xs)"
  by (simp add: set_add_def)

lemma set_fold_set_add [simp]: "set (fold set_add xs ys) = set xs \<union> set ys"
  by (induction xs arbitrary: ys) auto

lemma distinct_fold_set_add [simp]: "distinct ys \<Longrightarrow> distinct (fold set_add xs ys)"
  by (induction xs arbitrary: ys) auto

lemma set_set_of_list [simp]: "set (set_of_list xs) = set xs"
  by (simp add: set_of_list_def)

lemma distinct_set_of_list [simp]: "distinct (set_of_list xs)"
  by (simp add: set_of_list_def)

section \<open>Loops over a dictionary as one list\<close>

lemma filter_concat_dict:
  assumes "distinct (map fst m)" and "\<And>k v l. l \<in> set (f (k, v)) \<Longrightarrow> key l = k"
  shows "filter (\<lambda>l. key l = k \<and> Q l) (concat (map f m)) =
     (case map_of m k of None \<Rightarrow> [] | Some v \<Rightarrow> filter Q (f (k, v)))"
  using assms(1)
proof (induction m)
  case Nil
  then show ?case by simp
next
  case (Cons kv m)
  obtain k' v where kv: "kv = (k', v)" by (cases kv)
  have head: "filter (\<lambda>l. key l = k \<and> Q l) (f (k', v)) = (if k' = k then filter Q (f (k', v)) else [])"
    using assms(2) by (auto simp: filter_empty_conv intro: filter_cong)
  have "map_of m k' = None"
    using Cons.prems by (simp add: kv map_of_eq_None_iff)
  with Cons head show ?case by (auto simp: kv)
qed

lemma map_of_enumerate:
  "map_of (enumerate 0 xs) i = (if i < length xs then Some (xs ! i) else None)"
proof -
  have "map_of (enumerate n xs) i = (if n \<le> i \<and> i < n + length xs then Some (xs ! (i - n)) else None)" for n
  proof (induction xs arbitrary: n)
    case Nil
    then show ?case by simp
  next
    case (Cons x xs)
    show ?case
    proof (cases "i = n")
      case False
      then have "n \<le> i \<Longrightarrow> i - n = Suc (i - Suc n)" by arith
      with False Cons show ?thesis by auto
    qed simp
  qed
  from this [of 0] show ?thesis by simp
qed

lemma length_filter_eq_count:
  "(\<And>y. y \<in> set xs \<Longrightarrow> P y \<longleftrightarrow> y = x) \<Longrightarrow> length (filter P xs) = count_list xs x"
  by (induction xs) auto

lemma count_list_filter: "Q x \<Longrightarrow> count_list (filter Q xs) x = count_list xs x"
  by (induction xs) auto

section \<open>Reachability\<close>

text \<open>
  What a search promises: its result contains the successors of the start, is closed under
  successors and holds nothing else. The result is then the set of nodes that can be
  reached over one or more edges, whatever the order of the traversal.
\<close>

lemma relpow_converse_iff:
  fixes r :: "('a \<times> 'a) set"
  shows "(b, a) \<in> (r\<inverse>) ^^ k \<longleftrightarrow> (a, b) \<in> r ^^ k"
proof (induction k arbitrary: a b)
  case 0
  then show ?case by auto
next
  case (Suc k)
  have "(b, a) \<in> (r\<inverse>) ^^ Suc k \<longleftrightarrow> (\<exists>c. (b, c) \<in> (r\<inverse>) ^^ k \<and> (a, c) \<in> r)" by auto
  also have "\<dots> \<longleftrightarrow> (\<exists>c. (a, c) \<in> r \<and> (c, b) \<in> r ^^ k)" using Suc.IH by auto
  also have "\<dots> \<longleftrightarrow> (a, b) \<in> r ^^ Suc k" by (metis relpow_Suc_D2 relpow_Suc_I2)
  finally show ?case .
qed

lemma closed_Image_trancl:
  assumes "r `` {a} \<subseteq> S" and "r `` S \<subseteq> S" and "(a, b) \<in> r\<^sup>+"
  shows "b \<in> S"
  using assms(3)
proof (induction rule: trancl_induct)
  case (base y)
  with assms(1) show ?case by auto
next
  case (step y z)
  with assms(2) show ?case by auto
qed

lemma rtrancl_Image_insert: "r\<^sup>* `` insert a S = insert a (r\<^sup>* `` (r `` {a}) \<union> r\<^sup>* `` S)"
  by (auto elim: converse_rtranclE intro: converse_rtrancl_into_rtrancl)

locale graph_search =
  fixes ok :: "'g \<Rightarrow> 'a \<Rightarrow> bool"
    and first :: "'g \<Rightarrow> 'a \<Rightarrow> 'b set"
    and step :: "'g \<Rightarrow> ('b \<times> 'b) set"
    and run :: "'g \<Rightarrow> 'a \<Rightarrow> 'e + 'b list"
  assumes returns: "ok g a \<Longrightarrow> \<exists>r. run g a = Inr r"
    and starts: "ok g a \<Longrightarrow> run g a = Inr r \<Longrightarrow> first g a \<subseteq> set r"
    and closed: "ok g a \<Longrightarrow> run g a = Inr r \<Longrightarrow> step g `` set r \<subseteq> set r"
    and sound: "ok g a \<Longrightarrow> run g a = Inr r \<Longrightarrow> set r \<subseteq> (step g)\<^sup>* `` first g a"
begin

lemma found_eq:
  assumes "ok g a" and "run g a = Inr r"
  shows "set r = (step g)\<^sup>* `` first g a"
proof
  show "set r \<subseteq> (step g)\<^sup>* `` first g a" by (rule sound [OF assms])
  have "x \<in> set r" if "(y, x) \<in> (step g)\<^sup>*" "y \<in> first g a" for x y
    using that
  proof (induction rule: rtrancl_induct)
    case base
    then show ?case using starts [OF assms] by auto
  next
    case (step y z)
    then show ?case using closed [OF assms] by auto
  qed
  then show "(step g)\<^sup>* `` first g a \<subseteq> set r" by auto
qed

lemma search_total: "ok g a \<Longrightarrow> \<exists>r. run g a = Inr r \<and> set r = (step g)\<^sup>* `` first g a"
  using returns found_eq by blast

end

section \<open>Decimal text of a natural number\<close>

fun nat_str :: "nat \<Rightarrow> string" where
  "nat_str n = (if n < 10 then [char_of (48 + n)] else nat_str (n div 10) @ [char_of (48 + n mod 10)])"

declare nat_str.simps [simp del]

lemma digits_val_append: "digits_val acc (xs @ ys) = digits_val (digits_val acc xs) ys"
  by (induction xs arbitrary: acc) simp_all

lemma of_char_digit: "n < 10 \<Longrightarrow> of_char (char_of (48 + n)) = (48 + n :: nat)"
  by simp

lemma digits_val_nat_str: "digits_val 0 (nat_str n) = n"
proof (induction n rule: nat_str.induct)
  case (1 n)
  show ?case
  proof (cases "n < 10")
    case True
    then show ?thesis by (simp add: nat_str.simps [of n])
  next
    case False
    with 1 show ?thesis
      by (simp add: nat_str.simps [of n] digits_val_append)
  qed
qed

lemma nat_str_inject [simp]: "nat_str m = nat_str n \<longleftrightarrow> m = n"
  by (metis digits_val_nat_str)

lemma nat_str_digits: "c \<in> set (nat_str n) \<Longrightarrow> \<exists>d < 10. c = char_of (48 + d :: nat)"
proof (induction n rule: nat_str.induct)
  case (1 n)
  show ?case
  proof (cases "n < 10")
    case True
    with 1(2) show ?thesis by (auto simp: nat_str.simps [of n])
  next
    case False
    with 1 show ?thesis by (auto simp: nat_str.simps [of n] intro: exI [of _ "n mod 10"])
  qed
qed

lemma dash_notin_nat_str [simp]: "CHR ''-'' \<notin> set (nat_str n)"
proof
  assume "CHR ''-'' \<in> set (nat_str n)"
  then obtain d where d: "d < 10" "CHR ''-'' = char_of (48 + d :: nat)" by (auto dest: nat_str_digits)
  then have "of_char (CHR ''-'') = (48 + d :: nat)" by (simp only: of_char_digit)
  then show False by simp
qed

text \<open>A text splits at its first separator in one way only.\<close>

lemma append_sep_inject:
  "x \<notin> set xs \<Longrightarrow> x \<notin> set ys \<Longrightarrow> xs @ x # as = ys @ x # bs \<longleftrightarrow> xs = ys \<and> as = bs"
  by (auto simp: append_eq_append_conv2 append_eq_Cons_conv Cons_eq_append_conv)

section \<open>Sorting\<close>

text \<open>\<open>Array.prototype.sort\<close> with a comparison function, which is stable.\<close>

fun sort_insert :: "('a \<Rightarrow> 'a \<Rightarrow> int) \<Rightarrow> 'a \<Rightarrow> 'a list \<Rightarrow> 'a list" where
  "sort_insert cmp x [] = [x]"
| "sort_insert cmp x (y # ys) = (if cmp y x \<le> 0 then y # sort_insert cmp x ys else x # y # ys)"

definition js_sort :: "('a \<Rightarrow> 'a \<Rightarrow> int) \<Rightarrow> 'a list \<Rightarrow> 'a list" where
  "js_sort cmp xs = fold (sort_insert cmp) xs []"

lemma mset_sort_insert [simp]: "mset (sort_insert cmp x ys) = add_mset x (mset ys)"
  by (induction ys) auto

lemma mset_js_sort [simp]: "mset (js_sort cmp xs) = mset xs"
proof -
  have "mset (fold (sort_insert cmp) xs acc) = mset xs + mset acc" for acc
    by (induction xs arbitrary: acc) auto
  then show ?thesis by (simp add: js_sort_def)
qed

lemma set_js_sort [simp]: "set (js_sort cmp xs) = set xs"
  by (metis mset_js_sort set_mset_mset)

text \<open>The order of texts by their code units, which \<open>sort()\<close> without argument uses.\<close>

fun str_le :: "string \<Rightarrow> string \<Rightarrow> bool" where
  "str_le [] ys = True"
| "str_le (x # xs) [] = False"
| "str_le (x # xs) (y # ys) = (of_char x < (of_char y :: nat) \<or> x = y \<and> str_le xs ys)"

definition str_cmp :: "string \<Rightarrow> string \<Rightarrow> int" where
  "str_cmp x y = (if x = y then 0 else if str_le x y then - 1 else 1)"

end
