(* ===== verification/N8n_Types.thy ===== *)
theory N8n_Types
  imports N8n_Prelude
begin

text \<open>
  The data of a workflow, from \<open>packages/workflow/src/interfaces.ts\<close>: nodes, connections,
  items, the data a node run leaves behind, and the entries of the execution stack.

  Node objects are compared by reference in the engine (\<open>===\<close>). The field \<open>n_ref\<close> is the
  object's identity, so that two different objects are two different values even where all
  their properties agree, and equality of the records is the source's reference equality.
  A property that is optional in the interface is an \<open>option\<close>, with \<open>None\<close> for
  \<open>undefined\<close>; a property the engine only carries along is kept as a JSON value. The
  numbers that count or index (input and output indices, run indices) are naturals.
\<close>

section \<open>Connections\<close>

record IConnection =
  c_node :: string
  c_type :: string
  c_index :: nat

type_synonym NodeInputConnections = "IConnection list option list"
type_synonym INodeConnections = "(string, NodeInputConnections) dict"
type_synonym IConnections = "(string, INodeConnections) dict"

abbreviation Main :: string where "Main \<equiv> ''main''"
abbreviation AiTool :: string where "AiTool \<equiv> ''ai_tool''"

text \<open>A connection list is an array slot that may be \<open>null\<close> or a hole: \<open>conns ?? []\<close>.\<close>

definition or_empty :: "'a list option \<Rightarrow> 'a list" where
  "or_empty g = (case g of None \<Rightarrow> [] | Some cs \<Rightarrow> cs)"

lemma or_empty_simps [simp]: "or_empty None = []" "or_empty (Some cs) = cs"
  by (simp_all add: or_empty_def)

section \<open>Nodes\<close>

record INode =
  n_ref :: nat
  n_id :: string
  n_name :: string
  n_type :: string
  n_typeVersion :: nat
  n_position :: "int \<times> int"
  n_disabled :: "bool option"
  n_retryOnFail :: "bool option"
  n_maxTries :: "int option"
  n_waitBetweenTries :: "int option"
  n_alwaysOutputData :: "bool option"
  n_executeOnce :: "bool option"
  n_onError :: "string option"
  n_continueOnFail :: "bool option"
  n_parameters :: json
  n_rewireOutputLogTo :: "string option"

text \<open>\<open>node.disabled\<close> as a condition.\<close>

definition is_disabled :: "INode \<Rightarrow> bool" where
  "is_disabled n \<longleftrightarrow> n_disabled n = Some True"

text \<open>A node with the given identity, name and type and every optional property unset.\<close>

definition plain_node :: "nat \<Rightarrow> string \<Rightarrow> string \<Rightarrow> INode" where
  "plain_node r nm ty =
     \<lparr>n_ref = r, n_id = [], n_name = nm, n_type = ty, n_typeVersion = 1, n_position = (0, 0),
      n_disabled = None, n_retryOnFail = None, n_maxTries = None, n_waitBetweenTries = None,
      n_alwaysOutputData = None, n_executeOnce = None, n_onError = None,
      n_continueOnFail = None, n_parameters = JObj [], n_rewireOutputLogTo = None\<rparr>"

section \<open>Items and run data\<close>

record ISourceData =
  previousNode :: string
  previousNodeOutput :: "nat option"
  previousNodeRun :: "nat option"

record IPairedItemData =
  pi_item :: nat
  pi_input :: "nat option"
  pi_sourceOverwrite :: "ISourceData option"

datatype pairedItem = PairedOne IPairedItemData | PairedMany "IPairedItemData list" | PairedNumber nat

record INodeExecutionData =
  i_json :: "(string, json) dict"
  i_error :: "json option"
  i_pairedItem :: "pairedItem option"

type_synonym IPinData = "(string, INodeExecutionData list) dict"
type_synonym ITaskDataConnections = "(string, INodeExecutionData list option list) dict"
type_synonym ITaskDataConnectionsSource = "(string, ISourceData option list) dict"

record ITaskData =
  t_executionIndex :: "nat option"
  t_source :: "ISourceData option list"
  t_executionStatus :: "string option"
  t_data :: "ITaskDataConnections option"
  t_error :: "json option"
  t_metadata :: "(string, json) dict"

type_synonym IRunData = "(string, ITaskData list) dict"

record IExecuteData =
  e_node :: INode
  e_data :: ITaskDataConnections
  e_source :: "ITaskDataConnectionsSource option"
  e_runIndex :: "nat option"
  e_metadata :: "(string, json) dict option"

text \<open>Waiting entries are keyed by run index; the keys of such an object are array indices,
  so it enumerates them in ascending order.\<close>

type_synonym IWaitingForExecution = "(string, (nat, ITaskDataConnections) dict) dict"
type_synonym IWaitingForExecutionSource = "(string, (nat, ITaskDataConnectionsSource) dict) dict"

text \<open>The item \<open>{ json: {} }\<close> and the \<open>main\<close> data made of it.\<close>

definition emptyItem :: INodeExecutionData where
  "emptyItem = \<lparr>i_json = [], i_error = None, i_pairedItem = None\<rparr>"

definition emptyItemData :: ITaskDataConnections where
  "emptyItemData = [(Main, [Some [emptyItem]])]"

end
