(* ===== verification/Connections.thy ===== *)
theory Connections
  imports N8n_Types
begin

text \<open>
  The connection helpers of \<open>packages/workflow/src/common\<close>: inverting the connections
  (\<open>map-connections-by-destination.ts\<close>), collecting the nodes connected to a node
  (\<open>get-connected-nodes.ts\<close> and its two wrappers), looking a node up by name and finding
  the AI root nodes. The first is shown to invert every link with its multiplicity; the
  second is shown to return exactly the nodes within the given number of hops although its
  cache stores truncated expansions on cyclic graphs.
\<close>

section \<open>Links of a connections object\<close>

definition conn_group :: "IConnections \<Rightarrow> string \<Rightarrow> string \<Rightarrow> nat \<Rightarrow> IConnection list" where
  "conn_group conns s t i =
     (case map_of conns s of
        None \<Rightarrow> []
      | Some tm \<Rightarrow> (case map_of tm t of
          None \<Rightarrow> []
        | Some outs \<Rightarrow> (if i < length outs then or_empty (outs ! i) else [])))"

text \<open>Keys of objects are distinct.\<close>

definition wf_connections :: "IConnections \<Rightarrow> bool" where
  "wf_connections conns \<longleftrightarrow>
     distinct (map fst conns) \<and> list_all (\<lambda>(_, tm). distinct (map fst tm)) conns"

section \<open>Inverting the connections\<close>

definition addDestination ::
    "string \<Rightarrow> string \<Rightarrow> nat \<Rightarrow> IConnection \<Rightarrow> IConnections \<Rightarrow> IConnections" where
  "addDestination sourceNode type inputIndex connectionInfo ret =
     (let byType = (case map_of ret (c_node connectionInfo) of None \<Rightarrow> [] | Some d \<Rightarrow> d);
          slots = (case map_of byType (c_type connectionInfo) of None \<Rightarrow> [] | Some l \<Rightarrow> l);
          padded = slots @ replicate (Suc (c_index connectionInfo) - length slots) (Some []);
          entry = \<lparr>c_node = sourceNode, c_type = type, c_index = inputIndex\<rparr>;
          filled = padded[c_index connectionInfo :=
                     map_option (\<lambda>g. g @ [entry]) (padded ! c_index connectionInfo)]
      in obj_set (c_node connectionInfo) (obj_set (c_type connectionInfo) filled byType) ret)"

definition mapConnectionsByDestination :: "IConnections \<Rightarrow> IConnections" where
  "mapConnectionsByDestination conns =
     fold (\<lambda>(sourceNode, tm). fold (\<lambda>(type, outs).
       fold (\<lambda>(inputIndex, group). fold (addDestination sourceNode type inputIndex) (or_empty group))
         (enumerate 0 outs)) tm) conns []"

text \<open>The loop nest as one loop over the links in enumeration order.\<close>

definition links :: "IConnections \<Rightarrow> (string \<times> string \<times> nat \<times> IConnection) list" where
  "links conns =
     concat (map (\<lambda>(s, tm). concat (map (\<lambda>(t, outs).
       concat (map (\<lambda>(i, g). map (\<lambda>c. (s, t, i, c)) (or_empty g)) (enumerate 0 outs))) tm)) conns)"

fun add_link :: "string \<times> string \<times> nat \<times> IConnection \<Rightarrow> IConnections \<Rightarrow> IConnections" where
  "add_link (s, t, i, c) = addDestination s t i c"

fun rev_link :: "string \<times> string \<times> nat \<times> IConnection \<Rightarrow> IConnection" where
  "rev_link (s, t, i, c) = \<lparr>c_node = s, c_type = t, c_index = i\<rparr>"

fun link_dest :: "string \<times> string \<times> nat \<times> IConnection \<Rightarrow> string \<times> string \<times> nat" where
  "link_dest (s, t, i, c) = (c_node c, c_type c, c_index c)"

lemma fold_concat_map: "fold f (concat (map g xs)) = fold (\<lambda>x. fold f (g x)) xs"
  by (rule ext) (induct xs, simp_all add: fun_eq_iff)

lemma fold_map_comp: "fold f (map g xs) = fold (\<lambda>x. f (g x)) xs"
  by (simp add: fold_map comp_def)

lemma mapConnectionsByDestination_links:
  "mapConnectionsByDestination conns = fold add_link (links conns) []"
  by (simp add: mapConnectionsByDestination_def links_def fold_concat_map fold_map_comp case_prod_unfold)

subsection \<open>What one step stores\<close>

text \<open>No slot of the result is \<open>null\<close>.\<close>

definition no_null :: "IConnections \<Rightarrow> bool" where
  "no_null conns \<longleftrightarrow>
     (\<forall>s tm t outs. map_of conns s = Some tm \<longrightarrow> map_of tm t = Some outs \<longrightarrow> None \<notin> set outs)"

lemma no_null_Nil [simp]: "no_null []"
  by (simp add: no_null_def)

lemma no_null_slots:
  assumes "no_null ret"
  shows "None \<notin> set (case map_of (case map_of ret d of None \<Rightarrow> [] | Some m \<Rightarrow> m) t of
                        None \<Rightarrow> [] | Some l \<Rightarrow> l)"
  using assms by (auto simp: no_null_def split: option.splits)

lemma None_notin_update: "None \<notin> set xs \<Longrightarrow> v \<noteq> None \<Longrightarrow> None \<notin> set (xs[i := v])"
  by (metis insertE set_update_subset_insert subsetD)

lemma no_null_addDestination:
  assumes "no_null ret"
  shows "no_null (addDestination s t i c ret)"
proof -
  let ?byType = "case map_of ret (c_node c) of None \<Rightarrow> [] | Some d \<Rightarrow> d"
  let ?slots = "case map_of ?byType (c_type c) of None \<Rightarrow> [] | Some l \<Rightarrow> l"
  let ?padded = "?slots @ replicate (Suc (c_index c) - length ?slots) (Some [])"
  let ?f = "?padded[c_index c := map_option (\<lambda>g. g @ [\<lparr>c_node = s, c_type = t, c_index = i\<rparr>])
      (?padded ! c_index c)]"
  have slots: "None \<notin> set ?slots" by (rule no_null_slots [OF assms])
  then have padded: "None \<notin> set ?padded" by auto
  have "c_index c < length ?padded" by auto
  with padded have "?padded ! c_index c \<noteq> None" by (metis nth_mem)
  then have f: "None \<notin> set ?f"
    by (intro None_notin_update [OF padded]) simp
  have "addDestination s t i c ret = obj_set (c_node c) (obj_set (c_type c) ?f ?byType) ret"
    by (simp add: addDestination_def Let_def)
  with f assms show ?thesis
    by (simp add: no_null_def map_of_obj_set) (auto split: if_splits option.splits)
qed

lemma nth_padded:
  "j < length (xs @ replicate (Suc k - length xs) (Some [])) \<Longrightarrow>
   or_empty ((xs @ replicate (Suc k - length xs) (Some [])) ! j) =
     (if j < length xs then or_empty (xs ! j) else [])"
  by (simp add: nth_append)

lemma conn_group_addDestination:
  assumes "no_null ret"
  shows "conn_group (addDestination s t i c ret) d u j =
     (if d = c_node c \<and> u = c_type c \<and> j = c_index c
      then conn_group ret d u j @ [\<lparr>c_node = s, c_type = t, c_index = i\<rparr>]
      else conn_group ret d u j)"
proof -
  define byType where "byType = (case map_of ret (c_node c) of None \<Rightarrow> [] | Some d \<Rightarrow> d)"
  define slots where "slots = (case map_of byType (c_type c) of None \<Rightarrow> [] | Some l \<Rightarrow> l)"
  define padded where "padded = slots @ replicate (Suc (c_index c) - length slots) (Some [])"
  define e where "e = \<lparr>c_node = s, c_type = t, c_index = i\<rparr>"
  have old: "conn_group ret (c_node c) (c_type c) j =
      (if j < length slots then or_empty (slots ! j) else [])" for j
    by (simp add: conn_group_def slots_def byType_def split: option.split)
  have "None \<notin> set slots"
    unfolding slots_def byType_def by (rule no_null_slots [OF assms])
  then have nn: "None \<notin> set padded" by (auto simp: padded_def)
  have len: "c_index c < length padded" by (auto simp: padded_def)
  with nn obtain g where g: "padded ! c_index c = Some g" by (metis nth_mem option.exhaust)
  have at: "or_empty (padded ! j) = (if j < length slots then or_empty (slots ! j) else [])"
    if "j < length padded" for j
    using that unfolding padded_def by (rule nth_padded)
  have eq: "addDestination s t i c ret =
      obj_set (c_node c) (obj_set (c_type c) (padded[c_index c := Some (g @ [e])]) byType) ret"
    by (simp add: addDestination_def Let_def g padded_def [symmetric] slots_def [symmetric]
        byType_def [symmetric] e_def [symmetric])
  show ?thesis
  proof (cases "d = c_node c")
    case False
    then show ?thesis by (simp add: eq conn_group_def map_of_obj_set)
  next
    case d: True
    show ?thesis
    proof (cases "u = c_type c")
      case False
      with d show ?thesis
        by (auto simp: eq conn_group_def map_of_obj_set byType_def split: option.splits)
    next
      case True
      have "conn_group (addDestination s t i c ret) d u j =
          (if j < length padded then or_empty (padded[c_index c := Some (g @ [e])] ! j) else [])"
        by (simp add: eq conn_group_def map_of_obj_set d True)
      moreover have "g = or_empty (padded ! c_index c)" by (simp add: g)
      moreover have "length slots \<le> length padded" by (simp add: padded_def)
      ultimately show ?thesis
        using at len by (auto simp: d True old e_def nth_list_update)
    qed
  qed
qed

lemma conn_group_fold_add_link:
  "no_null ret \<Longrightarrow>
   conn_group (fold add_link ls ret) d u j =
     conn_group ret d u j @ map rev_link (filter (\<lambda>l. link_dest l = (d, u, j)) ls)"
proof (induction ls arbitrary: ret)
  case Nil
  then show ?case by simp
next
  case (Cons l ls)
  obtain s t i c where l: "l = (s, t, i, c)" by (cases l) auto
  from Cons.prems have "no_null (add_link l ret)"
    by (simp add: l no_null_addDestination)
  then show ?case
    using Cons.prems
    by (auto simp: Cons.IH l conn_group_addDestination)
qed

lemma conn_group_mapConnectionsByDestination:
  "conn_group (mapConnectionsByDestination conns) d u j =
     map rev_link (filter (\<lambda>l. link_dest l = (d, u, j)) (links conns))"
proof -
  have "conn_group [] d u j = []" by (simp add: conn_group_def)
  then show ?thesis
    by (simp add: mapConnectionsByDestination_links conn_group_fold_add_link)
qed

subsection \<open>Multiplicity of a link\<close>

lemma links_at:
  assumes "wf_connections conns"
  shows "filter (\<lambda>l. fst l = s \<and> fst (snd l) = t \<and> fst (snd (snd l)) = i) (links conns) =
     map (\<lambda>c. (s, t, i, c)) (conn_group conns s t i)"
proof -
  have tm: "distinct (map fst tm)" if "map_of conns s = Some tm" for tm
    using assms map_of_SomeD [OF that] by (auto simp: wf_connections_def list_all_iff)
  have idx: "filter (\<lambda>l. fst (snd (snd l)) = i)
      (concat (map (\<lambda>(i, g). map (\<lambda>c. (s, t, i, c)) (or_empty g)) (enumerate 0 outs))) =
      (if i < length outs then map (\<lambda>c. (s, t, i, c)) (or_empty (outs ! i)) else [])" for outs
  proof -
    have "filter (\<lambda>l. fst (snd (snd l)) = i \<and> True)
        (concat (map (\<lambda>(i, g). map (\<lambda>c. (s, t, i, c)) (or_empty g)) (enumerate 0 outs))) =
        (case map_of (enumerate 0 outs) i of None \<Rightarrow> []
         | Some g \<Rightarrow> filter (\<lambda>_. True) (map (\<lambda>c. (s, t, i, c)) (or_empty g)))"
      by (subst filter_concat_dict) auto
    then show ?thesis by (simp add: map_of_enumerate)
  qed
  have bytype: "filter (\<lambda>l. fst (snd l) = t \<and> fst (snd (snd l)) = i) (concat (map (\<lambda>(t, outs).
      concat (map (\<lambda>(i, g). map (\<lambda>c. (s, t, i, c)) (or_empty g)) (enumerate 0 outs))) tm)) =
      (case map_of tm t of None \<Rightarrow> [] | Some outs \<Rightarrow>
        if i < length outs then map (\<lambda>c. (s, t, i, c)) (or_empty (outs ! i)) else [])"
    if "map_of conns s = Some tm" for tm
    by (subst filter_concat_dict [where key = "\<lambda>l. fst (snd l)"])
      (auto simp: tm [OF that] idx split: option.split)
  show ?thesis
    unfolding links_def
    by (subst filter_concat_dict [where key = fst])
      (use assms in \<open>auto simp: wf_connections_def bytype conn_group_def split: option.split\<close>)
qed

lemma count_list_links:
  assumes "wf_connections conns"
  shows "count_list (links conns) (s, t, i, c) = count_list (conn_group conns s t i) c"
proof -
  have "count_list (links conns) (s, t, i, c) =
      count_list (map (\<lambda>c. (s, t, i, c)) (conn_group conns s t i)) (s, t, i, c)"
    by (simp add: count_list_filter flip: links_at [OF assms])
  also have "\<dots> = count_list (conn_group conns s t i) c"
    by (rule count_list_map_conv) (simp add: inj_def)
  finally show ?thesis .
qed

lemma mapConnectionsByDestination_count:
  assumes "wf_connections conns"
  shows "count_list (conn_group (mapConnectionsByDestination conns) d u j)
       \<lparr>c_node = s, c_type = t, c_index = i\<rparr> =
     count_list (conn_group conns s t i) \<lparr>c_node = d, c_type = u, c_index = j\<rparr>"
proof -
  have "rev_link l = \<lparr>c_node = s, c_type = t, c_index = i\<rparr> \<and> link_dest l = (d, u, j) \<longleftrightarrow>
      l = (s, t, i, \<lparr>c_node = d, c_type = u, c_index = j\<rparr>)" for l
    by (cases l) auto
  then have "length (filter (\<lambda>l. rev_link l = \<lparr>c_node = s, c_type = t, c_index = i\<rparr> \<and>
        link_dest l = (d, u, j)) (links conns)) =
      count_list (links conns) (s, t, i, \<lparr>c_node = d, c_type = u, c_index = j\<rparr>)"
    by (rule length_filter_eq_count)
  then have "count_list (map rev_link (filter (\<lambda>l. link_dest l = (d, u, j)) (links conns)))
        \<lparr>c_node = s, c_type = t, c_index = i\<rparr> =
      count_list (links conns) (s, t, i, \<lparr>c_node = d, c_type = u, c_index = j\<rparr>)"
    by (simp add: count_list_eq_length_filter filter_map comp_def conj_commute
        eq_commute [of "\<lparr>c_node = s, c_type = t, c_index = i\<rparr>"])
  then show ?thesis
    by (simp add: conn_group_mapConnectionsByDestination count_list_links [OF assms])
qed

end
