(* ===== verification/Connected_Nodes.thy ===== *)
theory Connected_Nodes
  imports Connections
begin

text \<open>
  \<open>getConnectedNodes\<close> of \<open>packages/workflow/src/common/get-connected-nodes.ts\<close> with its
  wrappers \<open>getChildNodes\<close> and \<open>getParentNodes\<close>: a depth-first collection with a path
  set that cuts cycles and a cache keyed by remaining depth and node. The cache stores
  expansions that were cut at the nodes of the path they were computed on; the theorems show
  that the result at the root is nevertheless exact for every depth.
\<close>

section \<open>The code\<close>

datatype conn_type = Type string | ALL_TYPES | ALL_NON_MAIN

definition types_of :: "conn_type \<Rightarrow> INodeConnections \<Rightarrow> string list" where
  "types_of connectionType tm =
     (case connectionType of
        ALL_TYPES \<Rightarrow> map fst tm
      | ALL_NON_MAIN \<Rightarrow> filter (\<lambda>type. type \<noteq> Main) (map fst tm)
      | Type type \<Rightarrow> [type])"

text \<open>The nodes the three nested \<open>forEach\<close> loops visit, in order.\<close>

definition targets :: "conn_type \<Rightarrow> INodeConnections \<Rightarrow> string list" where
  "targets connectionType tm =
     concat (map (\<lambda>type. case map_of tm type of
         None \<Rightarrow> []
       | Some outs \<Rightarrow> concat (map (\<lambda>connectionsByIndex. map c_node (or_empty connectionsByIndex)) outs))
       (types_of connectionType tm))"

text \<open>\<open>indexOf\<close>, \<open>splice\<close> and \<open>unshift\<close>: move a node to the front.\<close>

definition move_front :: "'a \<Rightarrow> 'a list \<Rightarrow> 'a list" where
  "move_front x xs = x # remove1 x xs"

definition newDepth :: "int \<Rightarrow> int" where
  "newDepth depth = (if depth = -1 then depth else depth - 1)"

type_synonym memo = "(int \<times> string, string list) dict"

function (sequential)
  collectConnectedNodes ::
    "IConnections \<Rightarrow> conn_type \<Rightarrow> int \<Rightarrow> string list \<Rightarrow> memo \<Rightarrow> string \<Rightarrow> string list \<times> memo" and
  collectLoop ::
    "IConnections \<Rightarrow> conn_type \<Rightarrow> int \<Rightarrow> string list \<Rightarrow> memo \<Rightarrow> string list \<Rightarrow> string list
       \<Rightarrow> string list \<times> memo"
where
  "collectConnectedNodes conns ct depth currentPath memo nodeName =
     (if depth = 0 then ([], memo)
      else case map_of conns nodeName of
        None \<Rightarrow> ([], memo)
      | Some tm \<Rightarrow> (case map_of memo (depth, nodeName) of
          Some cached \<Rightarrow> (cached, memo)
        | None \<Rightarrow>
            (let (returnNodes, memo') =
               collectLoop conns ct (newDepth depth) (nodeName # currentPath) memo (targets ct tm) []
             in (returnNodes, AList.update (depth, nodeName) returnNodes memo'))))"
| "collectLoop conns ct depth currentPath memo [] returnNodes = (returnNodes, memo)"
| "collectLoop conns ct depth currentPath memo (node # nodes) returnNodes =
     (if node \<in> set currentPath
      then collectLoop conns ct depth currentPath memo nodes returnNodes
      else let (addNodes, memo') = collectConnectedNodes conns ct depth currentPath memo node
           in collectLoop conns ct depth currentPath memo' nodes
                (foldr move_front addNodes (move_front node returnNodes)))"
  by pat_completeness auto

text \<open>
  Each expansion of a node with connections puts one more key on the path; a call for a node
  without connections returns at once.
\<close>

definition unvisited :: "IConnections \<Rightarrow> string list \<Rightarrow> nat" where
  "unvisited conns path = card (fst ` set conns - set path)"

lemma unvisited_less:
  "n \<in> fst ` set conns \<Longrightarrow> n \<notin> set path \<Longrightarrow> unvisited conns (n # path) < unvisited conns path"
  unfolding unvisited_def by (rule psubset_card_mono) auto

termination collectConnectedNodes
proof (relation "measures
    [\<lambda>x. case x of Inl (conns, ct, d, path, memo, n) \<Rightarrow>
             if n \<in> fst ` set conns then unvisited conns (n # path) else 0
           | Inr (conns, ct, d, path, memo, ns, ret) \<Rightarrow> unvisited conns path,
     \<lambda>x. case x of Inl (conns, ct, d, path, memo, n) \<Rightarrow> if n \<in> fst ` set conns then 1 else 0
           | Inr _ \<Rightarrow> 0,
     \<lambda>x. case x of Inl _ \<Rightarrow> 0 | Inr (conns, ct, d, path, memo, ns, ret) \<Rightarrow> Suc (length ns)]",
    goal_cases)
  case 1
  show ?case by simp
next
  case (2 conns ct depth path memo n tm)
  then have "n \<in> fst ` set conns" by (force dest: map_of_SomeD)
  then show ?case by simp
next
  case (3 conns ct depth path memo n ns ret)
  then show ?case by simp
next
  case (4 conns ct depth path memo n ns ret)
  then show ?case using unvisited_less [of n conns path] by auto
next
  case (5 conns ct depth path memo n ns ret x y)
  then show ?case by simp
qed

declare collectConnectedNodes.simps [simp del]

lemma collect_zero: "collectConnectedNodes conns ct 0 path memo n = ([], memo)"
  by (simp add: collectConnectedNodes.simps)

lemma collect_unconnected:
  "map_of conns n = None \<Longrightarrow> collectConnectedNodes conns ct depth path memo n = ([], memo)"
  by (simp add: collectConnectedNodes.simps)

lemma collect_cached:
  "depth \<noteq> 0 \<Longrightarrow> map_of conns n = Some tm \<Longrightarrow> map_of memo (depth, n) = Some r \<Longrightarrow>
   collectConnectedNodes conns ct depth path memo n = (r, memo)"
  by (simp add: collectConnectedNodes.simps)

lemma collect_expand:
  "depth \<noteq> 0 \<Longrightarrow> map_of conns n = Some tm \<Longrightarrow> map_of memo (depth, n) = None \<Longrightarrow>
   collectLoop conns ct (newDepth depth) (n # path) memo (targets ct tm) [] = (r, memo') \<Longrightarrow>
   collectConnectedNodes conns ct depth path memo n = (r, AList.update (depth, n) r memo')"
  by (simp add: collectConnectedNodes.simps)

text \<open>The four ways a call ends.\<close>

lemma collect_cases:
  obtains (zero) "depth = 0" | (unconnected) "map_of conns n = None"
    | (cached) tm r where "depth \<noteq> 0" "map_of conns n = Some tm" "map_of memo (depth, n) = Some r"
    | (expand) tm r m where "depth \<noteq> 0" "map_of conns n = Some tm" "map_of memo (depth, n) = None"
        "collectLoop conns ct (newDepth depth) (n # path) memo (targets ct tm) [] = (r, m)"
  by (meson not_None_eq surj_pair)

lemmas collect_eqs = collect_zero collect_unconnected collect_cached collect_expand

definition getConnectedNodes :: "IConnections \<Rightarrow> string \<Rightarrow> conn_type \<Rightarrow> int \<Rightarrow> string list" where
  "getConnectedNodes conns nodeName connectionType depth =
     fst (collectConnectedNodes conns connectionType depth [] [] nodeName)"

definition getChildNodes :: "IConnections \<Rightarrow> string \<Rightarrow> conn_type \<Rightarrow> int \<Rightarrow> string list" where
  "getChildNodes connectionsBySourceNode nodeName type depth =
     getConnectedNodes connectionsBySourceNode nodeName type depth"

definition getParentNodes :: "IConnections \<Rightarrow> string \<Rightarrow> conn_type \<Rightarrow> int \<Rightarrow> string list" where
  "getParentNodes connectionsByDestinationNode nodeName type depth =
     getConnectedNodes connectionsByDestinationNode nodeName type depth"

section \<open>The relation the code follows\<close>

definition conn_rel :: "IConnections \<Rightarrow> conn_type \<Rightarrow> (string \<times> string) set" where
  "conn_rel conns ct = {(a, b). \<exists>tm. map_of conns a = Some tm \<and> b \<in> set (targets ct tm)}"

text \<open>Reachable over at least one and at most \<open>depth\<close> hops, any number for \<open>-1\<close>.\<close>

definition within :: "IConnections \<Rightarrow> conn_type \<Rightarrow> int \<Rightarrow> string \<Rightarrow> string set" where
  "within conns ct depth a = {b. \<exists>k. 0 < k \<and> (depth = -1 \<or> int k \<le> depth) \<and> (a, b) \<in> conn_rel conns ct ^^ k}"

lemma withinI1: "(a, b) \<in> conn_rel conns ct \<Longrightarrow> depth \<noteq> 0 \<Longrightarrow> -1 \<le> depth \<Longrightarrow> b \<in> within conns ct depth a"
  unfolding within_def by (auto intro!: exI [of _ "Suc 0"])

lemma within_step:
  assumes "(a, b) \<in> conn_rel conns ct" and "c \<in> within conns ct (newDepth depth) b"
    and "-1 \<le> depth" and "depth \<noteq> 0"
  shows "c \<in> within conns ct depth a"
proof -
  from assms(2) obtain k where k: "0 < k" "newDepth depth = -1 \<or> int k \<le> newDepth depth"
    and c: "(b, c) \<in> conn_rel conns ct ^^ k"
    by (auto simp: within_def)
  have "(a, c) \<in> conn_rel conns ct ^^ Suc k"
    using assms(1) c by (rule relpow_Suc_I2)
  moreover have "depth = -1 \<or> int (Suc k) \<le> depth"
    using k assms(3,4) by (auto simp: newDepth_def split: if_splits)
  ultimately show ?thesis unfolding within_def by blast
qed

section \<open>Soundness: nothing else is collected\<close>

lemma set_move_front [simp]: "distinct xs \<Longrightarrow> set (move_front x xs) = insert x (set xs)"
  by (auto simp: move_front_def)

lemma distinct_move_front [simp]: "distinct xs \<Longrightarrow> distinct (move_front x xs)"
  by (simp add: move_front_def)

lemma distinct_foldr_move_front [simp]: "distinct xs \<Longrightarrow> distinct (foldr move_front ys xs)"
  by (induction ys) simp_all

lemma set_foldr_move_front [simp]:
  "distinct xs \<Longrightarrow> set (foldr move_front ys xs) = set ys \<union> set xs"
  by (induction ys) auto

text \<open>A cache whose entries hold nodes within their depth and avoid a fixed node.\<close>

definition memo_sound :: "IConnections \<Rightarrow> conn_type \<Rightarrow> string \<Rightarrow> memo \<Rightarrow> bool" where
  "memo_sound conns ct root memo \<longleftrightarrow>
     (\<forall>d n r. map_of memo (d, n) = Some r \<longrightarrow>
        set r \<subseteq> within conns ct d n \<and> root \<notin> set r \<and> distinct r)"

lemma memo_sound_update:
  "memo_sound conns ct root memo \<Longrightarrow> set r \<subseteq> within conns ct d n \<Longrightarrow> root \<notin> set r \<Longrightarrow> distinct r \<Longrightarrow>
   memo_sound conns ct root (AList.update (d, n) r memo)"
  by (auto simp: memo_sound_def update_conv' split: if_splits)

lemma collect_sound:
  shows "\<lbrakk>-1 \<le> depth; memo_sound conns ct root memo; root = nodeName \<or> root \<in> set path;
      collectConnectedNodes conns ct depth path memo nodeName = (r, memo')\<rbrakk> \<Longrightarrow>
    set r \<subseteq> within conns ct depth nodeName \<and> root \<notin> set r \<and> distinct r \<and> memo_sound conns ct root memo'"
    and "\<lbrakk>-1 \<le> depth; memo_sound conns ct root memo; root \<in> set path; distinct ret; root \<notin> set ret;
      collectLoop conns ct depth path memo nodes ret = (r, memo')\<rbrakk> \<Longrightarrow>
    set r \<subseteq> set ret \<union> set nodes \<union> (\<Union>n \<in> set nodes. within conns ct depth n) \<and>
    root \<notin> set r \<and> distinct r \<and> memo_sound conns ct root memo'"
proof (induction conns ct depth path memo nodeName and conns ct depth path memo nodes ret
    arbitrary: r memo' and r memo' rule: collectConnectedNodes_collectLoop.induct)
  case (1 conns ct depth path memo n)
  show ?case
  proof (cases rule: collect_cases [where depth = depth and conns = conns and n = n and memo = memo and ct = ct and path = path])
    case zero
    with 1(3,5) show ?thesis by (simp add: collect_eqs)
  next
    case unconnected
    with 1(3,5) show ?thesis by (simp add: collect_eqs)
  next
    case cached
    with 1(3,5) show ?thesis by (auto simp: collect_eqs memo_sound_def)
  next
    case (expand tm r0 m0)
    note d = expand(1,3) and tm = expand(2) and loop = expand(4)
    from 1(5) expand have r: "r = r0" "memo' = AList.update (depth, n) r0 m0"
      by (auto simp: collect_eqs)
    have "-1 \<le> newDepth depth" using 1(2) d by (auto simp: newDepth_def)
    with 1(1) [OF d(1) tm d(2) _ 1(3) _ _ _ loop] 1(4)
    have IH: "set r0 \<subseteq> set (targets ct tm) \<union> (\<Union>m \<in> set (targets ct tm). within conns ct (newDepth depth) m)"
        "root \<notin> set r0" "distinct r0" "memo_sound conns ct root m0"
      by auto
    have "(n, m) \<in> conn_rel conns ct" if "m \<in> set (targets ct tm)" for m
      using that tm by (auto simp: conn_rel_def)
    with IH(1) 1(2) d(1) have "set r0 \<subseteq> within conns ct depth n"
      by (blast intro: withinI1 within_step)
    with IH r show ?thesis by (simp add: memo_sound_update)
  qed
next
  case (2 conns ct depth path memo ret)
  then show ?case by auto
next
  case (3 conns ct depth path memo n ns ret)
  show ?case
  proof (cases "n \<in> set path")
    case True
    then have "collectLoop conns ct depth path memo ns ret = (r, memo')" using 3(9) by simp
    from 3(1) [OF True 3(4-8) this] show ?thesis by (simp, blast)
  next
    case False
    obtain a m where call: "collectConnectedNodes conns ct depth path memo n = (a, m)"
      by (cases "collectConnectedNodes conns ct depth path memo n")
    with 3(2) [OF False 3(4,5) _ call] 3(6) have a: "set a \<subseteq> within conns ct depth n" "root \<notin> set a" "memo_sound conns ct root m"
      by auto
    let ?ret = "foldr move_front a (move_front n ret)"
    have ret: "distinct ?ret" "set ?ret = set a \<union> insert n (set ret)" "root \<notin> set ?ret"
      using 3(6-8) a(2) False by auto
    have rest: "collectLoop conns ct depth path m ns ?ret = (r, memo')"
      using 3(9) False call by simp
    from 3(3) [OF False call [symmetric] refl 3(4) a(3) 3(6) ret(1,3) rest]
    have IH: "set r \<subseteq> set ?ret \<union> set ns \<union> (\<Union>n \<in> set ns. within conns ct depth n)"
      "root \<notin> set r" "distinct r" "memo_sound conns ct root memo'" by simp_all
    from IH(1) a(1) have "set r \<subseteq> set ret \<union> set (n # ns) \<union> (\<Union>n \<in> set (n # ns). within conns ct depth n)"
      unfolding ret(2) by (simp, blast)
    with IH(2-) show ?thesis by blast
  qed
qed

section \<open>Completeness: the cut expansions add up\<close>

text \<open>
  A cached expansion may miss what lies behind the nodes of the path it was computed on. Each
  of those nodes is expanded itself, with at least as much depth left, and what it collects
  ends up in the same final list. \<open>covered\<close> states that a node has been expanded with at
  least the given depth.
\<close>

definition deeper :: "int \<Rightarrow> int \<Rightarrow> bool" where
  "deeper j d \<longleftrightarrow> d = -1 \<or> (0 \<le> j \<and> j \<le> d)"

definition covered :: "IConnections \<Rightarrow> memo \<Rightarrow> int \<Rightarrow> string \<Rightarrow> bool" where
  "covered conns memo j t \<longleftrightarrow>
     j = 0 \<or> map_of conns t = None \<or> (\<exists>d. deeper j d \<and> (d, t) \<in> fst ` set memo)"

definition closed_new ::
    "IConnections \<Rightarrow> conn_type \<Rightarrow> string set \<Rightarrow> int \<Rightarrow> string set \<Rightarrow> memo \<Rightarrow> memo \<Rightarrow> bool" where
  "closed_new conns ct path depth ret memo memo' \<longleftrightarrow>
     (\<forall>d x. (d, x) \<in> fst ` set memo' - fst ` set memo \<longrightarrow>
        d \<noteq> 0 \<and> deeper d depth \<and>
        (\<forall>t. (x, t) \<in> conn_rel conns ct \<longrightarrow>
           t \<in> path \<or> (t \<in> ret \<and> covered conns memo' (newDepth d) t)))"

lemma covered_mono:
  "covered conns memo j t \<Longrightarrow> fst ` set memo \<subseteq> fst ` set memo' \<Longrightarrow> covered conns memo' j t"
  unfolding covered_def by blast

lemma deeper_newDepth: "-1 \<le> depth \<Longrightarrow> depth \<noteq> 0 \<Longrightarrow> deeper d (newDepth depth) \<Longrightarrow> deeper d depth"
  by (auto simp: deeper_def newDepth_def split: if_splits)

lemma newDepth_deeper: "d \<noteq> 0 \<Longrightarrow> deeper d depth \<Longrightarrow> deeper (newDepth d) depth"
  by (auto simp: deeper_def newDepth_def split: if_splits)

lemma covered_deeper: "covered conns memo j t \<Longrightarrow> deeper i j \<Longrightarrow> covered conns memo i t"
proof -
  assume c: "covered conns memo j t" and i: "deeper i j"
  have trans: "deeper i d" if "deeper j d" for d using i that by (auto simp: deeper_def)
  have "i = 0" if "j = 0" using i that by (auto simp: deeper_def)
  with c trans show ?thesis unfolding covered_def by blast
qed

lemma deeper_refl: "-1 \<le> depth \<Longrightarrow> deeper depth depth"
  by (auto simp: deeper_def)

lemma closed_new_refl [simp]: "closed_new conns ct path depth ret memo memo"
  by (simp add: closed_new_def)

lemma closed_new_trans:
  assumes "closed_new conns ct path depth ret1 memo memo1" and "ret1 \<subseteq> ret2"
    and "fst ` set memo1 \<subseteq> fst ` set memo2" and "closed_new conns ct path depth ret2 memo1 memo2"
  shows "closed_new conns ct path depth ret2 memo memo2"
  unfolding closed_new_def
proof (intro allI impI)
  fix d x
  assume dx: "(d, x) \<in> fst ` set memo2 - fst ` set memo"
  show "d \<noteq> 0 \<and> deeper d depth \<and> (\<forall>t. (x, t) \<in> conn_rel conns ct \<longrightarrow>
      t \<in> path \<or> (t \<in> ret2 \<and> covered conns memo2 (newDepth d) t))"
  proof (cases "(d, x) \<in> fst ` set memo1")
    case True
    with dx assms(1) have "d \<noteq> 0 \<and> deeper d depth \<and> (\<forall>t. (x, t) \<in> conn_rel conns ct \<longrightarrow>
        t \<in> path \<or> (t \<in> ret1 \<and> covered conns memo1 (newDepth d) t))"
      unfolding closed_new_def by blast
    with assms(2,3) show ?thesis by (meson covered_mono subsetD)
  next
    case False
    with dx assms(4) show ?thesis unfolding closed_new_def by blast
  qed
qed

lemma closed_new_expand:
  assumes loop: "closed_new conns ct (insert n path) (newDepth depth) ret memo m"
    and kids: "\<And>t. (n, t) \<in> conn_rel conns ct \<Longrightarrow>
      t \<in> insert n path \<or> (t \<in> ret \<and> covered conns m (newDepth depth) t)"
    and d: "-1 \<le> depth" "depth \<noteq> 0"
  shows "closed_new conns ct path depth (insert n ret) memo (AList.update (depth, n) r m)"
  unfolding closed_new_def
proof (intro allI impI)
  fix e x
  let ?m = "AList.update (depth, n) r m"
  have mono: "fst ` set m \<subseteq> fst ` set ?m" by (auto simp: keys_update)
  have n: "covered conns ?m j n" if "deeper j depth" for j
    using that by (auto simp: covered_def keys_update)
  assume "(e, x) \<in> fst ` set ?m - fst ` set memo"
  then consider "e = depth" "x = n" | "(e, x) \<in> fst ` set m - fst ` set memo"
    by (auto simp: keys_update)
  then show "e \<noteq> 0 \<and> deeper e depth \<and> (\<forall>t. (x, t) \<in> conn_rel conns ct \<longrightarrow>
      t \<in> path \<or> (t \<in> insert n ret \<and> covered conns ?m (newDepth e) t))"
  proof cases
    case 1
    then show ?thesis
      using d kids n [OF newDepth_deeper [OF d(2) deeper_refl [OF d(1)]]] covered_mono [OF _ mono]
      by (auto simp: deeper_refl)
  next
    case 2
    with loop have e: "e \<noteq> 0" "deeper e (newDepth depth)"
      and t: "\<And>t. (x, t) \<in> conn_rel conns ct \<Longrightarrow>
        t \<in> insert n path \<or> (t \<in> ret \<and> covered conns m (newDepth e) t)"
      by (simp_all add: closed_new_def)
    have "deeper e depth" using d e(2) by (rule deeper_newDepth)
    with t n [OF newDepth_deeper [OF e(1)]] covered_mono [OF _ mono] e(1) show ?thesis by blast
  qed
qed

lemma collect_complete:
  shows "\<lbrakk>-1 \<le> depth; n \<notin> set path;
      collectConnectedNodes conns ct depth path memo n = (r, memo')\<rbrakk> \<Longrightarrow>
    fst ` set memo \<subseteq> fst ` set memo' \<and> covered conns memo' depth n \<and>
    closed_new conns ct (set path) depth (insert n (set r)) memo memo'"
    and "\<lbrakk>-1 \<le> depth; distinct ret;
      collectLoop conns ct depth path memo nodes ret = (r, memo')\<rbrakk> \<Longrightarrow>
    fst ` set memo \<subseteq> fst ` set memo' \<and> set ret \<subseteq> set r \<and>
    (\<forall>t \<in> set nodes. t \<in> set path \<or> (t \<in> set r \<and> covered conns memo' depth t)) \<and>
    closed_new conns ct (set path) depth (set r) memo memo'"
proof (induction conns ct depth path memo n and conns ct depth path memo nodes ret
    arbitrary: r memo' and r memo' rule: collectConnectedNodes_collectLoop.induct)
  case (1 conns ct depth path memo n)
  show ?case
  proof (cases rule: collect_cases [where depth = depth and conns = conns and n = n and memo = memo and ct = ct and path = path])
    case zero
    with 1(4) show ?thesis by (auto simp: collect_eqs covered_def)
  next
    case unconnected
    with 1(4) show ?thesis by (auto simp: collect_eqs covered_def)
  next
    case (cached tm r0)
    have "(depth, n) \<in> fst ` set memo" using map_of_SomeD [OF cached(3)] by force
    with cached 1(2,4) show ?thesis
      by (auto simp: collect_eqs covered_def intro: deeper_refl)
  next
    case (expand tm r0 m)
    from 1(4) expand have r: "r = r0" "memo' = AList.update (depth, n) r0 m"
      by (auto simp: collect_eqs)
    have "-1 \<le> newDepth depth" using 1(2) expand(1) by (auto simp: newDepth_def)
    from 1(1) [OF expand(1-3) this _ expand(4)]
    have IH: "fst ` set memo \<subseteq> fst ` set m"
      "\<forall>t \<in> set (targets ct tm). t \<in> insert n (set path) \<or> (t \<in> set r0 \<and> covered conns m (newDepth depth) t)"
      "closed_new conns ct (insert n (set path)) (newDepth depth) (set r0) memo m"
      by auto
    have "\<And>t. (n, t) \<in> conn_rel conns ct \<Longrightarrow>
        t \<in> insert n (set path) \<or> (t \<in> set r0 \<and> covered conns m (newDepth depth) t)"
      using IH(2) expand(2) by (auto simp: conn_rel_def)
    from closed_new_expand [OF IH(3) this 1(2) expand(1)] IH(1) 1(2)
    show ?thesis by (auto simp: r keys_update covered_def intro: deeper_refl)
  qed
next
  case (2 conns ct depth path memo ret)
  then show ?case by auto
next
  case (3 conns ct depth path memo n ns ret)
  show ?case
  proof (cases "n \<in> set path")
    case True
    with 3(1) [OF True 3(4,5)] 3(6) show ?thesis by auto
  next
    case False
    obtain a m where call: "collectConnectedNodes conns ct depth path memo n = (a, m)"
      by (cases "collectConnectedNodes conns ct depth path memo n")
    let ?ret = "foldr move_front a (move_front n ret)"
    have ret: "distinct ?ret" "set ?ret = insert n (set a) \<union> set ret" using 3(5) by auto
    have rest: "collectLoop conns ct depth path m ns ?ret = (r, memo')"
      using 3(6) False call by simp
    from 3(2) [OF False 3(4) False call]
    have A: "fst ` set memo \<subseteq> fst ` set m" "covered conns m depth n"
      "closed_new conns ct (set path) depth (insert n (set a)) memo m" by simp_all
    from 3(3) [OF False call [symmetric] refl 3(4) ret(1) rest]
    have B: "fst ` set m \<subseteq> fst ` set memo'" "set ?ret \<subseteq> set r"
      "\<forall>t \<in> set ns. t \<in> set path \<or> (t \<in> set r \<and> covered conns memo' depth t)"
      "closed_new conns ct (set path) depth (set r) m memo'" by simp_all
    from B(2) ret(2) have sub: "insert n (set a) \<subseteq> set r" "set ret \<subseteq> set r" by auto
    with closed_new_trans [OF A(3) sub(1) B(1,4)] A(1) B(1,3) covered_mono [OF A(2) B(1)]
    show ?thesis by auto
  qed
qed

section \<open>The result at the root\<close>

lemma hops_collected:
  assumes closed: "closed_new conns ct {} depth (insert root (set r)) [] memo"
    and root: "covered conns memo depth root"
    and "(root, b) \<in> conn_rel conns ct ^^ k" and "depth = -1 \<or> int k \<le> depth" and "-1 \<le> depth"
  shows "b \<in> insert root (set r) \<and> covered conns memo (if depth = -1 then -1 else depth - int k) b"
  using assms(3,4)
proof (induction k arbitrary: b)
  case 0
  with root show ?case by auto
next
  case (Suc k)
  from Suc.prems(1) obtain a where a: "(root, a) \<in> conn_rel conns ct ^^ k" and ab: "(a, b) \<in> conn_rel conns ct"
    by (auto elim: relpow_Suc_E)
  let ?j = "if depth = -1 then -1 else depth - int k"
  from Suc.prems(2) have "covered conns memo ?j a" by (intro Suc.IH [OF a, THEN conjunct2]) auto
  moreover have "?j \<noteq> 0" using Suc.prems(2) by auto
  moreover have "map_of conns a \<noteq> None" using ab by (auto simp: conn_rel_def)
  ultimately obtain d where d: "deeper ?j d" "(d, a) \<in> fst ` set memo"
    by (auto simp: covered_def)
  with closed ab have b: "b \<in> insert root (set r)" "covered conns memo (newDepth d) b" and "d \<noteq> 0"
    by (auto simp: closed_new_def)
  have "deeper (if depth = -1 then -1 else depth - int (Suc k)) (newDepth d)"
    using d(1) Suc.prems(2) \<open>d \<noteq> 0\<close> by (auto simp: deeper_def newDepth_def split: if_splits)
  with b(2) have "covered conns memo (if depth = -1 then -1 else depth - int (Suc k)) b"
    by (rule covered_deeper)
  with b(1) show ?case by simp
qed

lemma getConnectedNodes_within:
  assumes "-1 \<le> depth"
  shows "set (getConnectedNodes conns nodeName ct depth) = within conns ct depth nodeName - {nodeName}"
    and "distinct (getConnectedNodes conns nodeName ct depth)"
proof -
  obtain r memo where c: "collectConnectedNodes conns ct depth [] [] nodeName = (r, memo)"
    by (cases "collectConnectedNodes conns ct depth [] [] nodeName")
  have "memo_sound conns ct nodeName []" by (simp add: memo_sound_def)
  from collect_sound(1) [OF assms this _ c]
  have sound: "set r \<subseteq> within conns ct depth nodeName" "nodeName \<notin> set r" "distinct r" by simp_all
  from collect_complete(1) [OF assms _ c]
  have "covered conns memo depth nodeName" "closed_new conns ct {} depth (insert nodeName (set r)) [] memo"
    by simp_all
  from hops_collected [OF this(2,1) _ _ assms]
  have "within conns ct depth nodeName \<subseteq> insert nodeName (set r)"
    unfolding within_def by blast
  with sound c show "set (getConnectedNodes conns nodeName ct depth) = within conns ct depth nodeName - {nodeName}"
    and "distinct (getConnectedNodes conns nodeName ct depth)"
    by (auto simp: getConnectedNodes_def)
qed

section \<open>Children and parents are dual\<close>

lemma in_conn_group_iff:
  "c \<in> set (conn_group conns a t i) \<longleftrightarrow>
     (\<exists>tm outs cs. map_of conns a = Some tm \<and> map_of tm t = Some outs \<and> i < length outs \<and>
        outs ! i = Some cs \<and> c \<in> set cs)"
proof (cases "map_of conns a")
  case None
  then show ?thesis by (simp add: conn_group_def)
next
  case tm: (Some tm)
  show ?thesis
  proof (cases "map_of tm t")
    case None
    with tm show ?thesis by (simp add: conn_group_def)
  next
    case (Some outs)
    with tm show ?thesis by (cases "outs ! i") (simp_all add: conn_group_def)
  qed
qed

text \<open>The types a call with the given argument follows.\<close>

fun follows :: "conn_type \<Rightarrow> string \<Rightarrow> bool" where
  "follows (Type t) u = (u = t)"
| "follows ALL_TYPES u = True"
| "follows ALL_NON_MAIN u = (u \<noteq> Main)"

lemma in_types_of: "map_of tm t = Some outs \<Longrightarrow> t \<in> set (types_of ct tm) \<longleftrightarrow> follows ct t"
  by (cases ct) (force simp: types_of_def dest: map_of_SomeD)+

lemma conn_rel_iff:
  "(a, b) \<in> conn_rel conns ct \<longleftrightarrow>
     (\<exists>t i c. follows ct t \<and> c \<in> set (conn_group conns a t i) \<and> c_node c = b)"
proof
  assume "(a, b) \<in> conn_rel conns ct"
  then obtain tm t where tm: "map_of conns a = Some tm" "t \<in> set (types_of ct tm)"
    and b: "b \<in> set (case map_of tm t of None \<Rightarrow> []
        | Some outs \<Rightarrow> concat (map (\<lambda>g. map c_node (or_empty g)) outs))"
    unfolding conn_rel_def targets_def by fastforce
  from b obtain outs where "map_of tm t = Some outs" by (cases "map_of tm t") auto
  moreover from this b obtain g where "g \<in> set outs" "b \<in> c_node ` set (or_empty g)" by auto
  moreover from \<open>g \<in> set outs\<close> obtain i where "i < length outs" "outs ! i = g"
    by (auto simp: in_set_conv_nth)
  ultimately show "\<exists>t i c. follows ct t \<and> c \<in> set (conn_group conns a t i) \<and> c_node c = b"
    using tm by (cases g) (auto simp: in_conn_group_iff in_types_of intro!: exI [of _ t] exI [of _ i])
next
  assume "\<exists>t i c. follows ct t \<and> c \<in> set (conn_group conns a t i) \<and> c_node c = b"
  then obtain t i c where 1: "follows ct t" "c \<in> set (conn_group conns a t i)" "c_node c = b"
    by blast
  from 1(2) obtain tm outs cs where 2: "map_of conns a = Some tm"
    "map_of tm t = Some outs" "i < length outs" "outs ! i = Some cs" "c \<in> set cs"
    unfolding in_conn_group_iff by blast
  note * = 1(1,3) 2
  then have "Some cs \<in> set outs" "t \<in> set (types_of ct tm)"
    by (metis nth_mem) (use * in \<open>simp add: in_types_of\<close>)
  with * show "(a, b) \<in> conn_rel conns ct"
    by (force simp: conn_rel_def targets_def)
qed

text \<open>Every connection enters its node on the type it left the source node on.\<close>

definition uniform_types :: "IConnections \<Rightarrow> bool" where
  "uniform_types conns \<longleftrightarrow> list_all (\<lambda>(_, tm). list_all (\<lambda>(t, outs).
     list_all (\<lambda>g. list_all (\<lambda>c. c_type c = t) (or_empty g)) outs) tm) conns"

lemma uniform_typesD:
  assumes "uniform_types conns" and "c \<in> set (conn_group conns a t i)"
  shows "c_type c = t"
proof -
  from assms(2) obtain tm outs cs where "(a, tm) \<in> set conns" "(t, outs) \<in> set tm"
    "Some cs \<in> set outs" "c \<in> set cs"
    unfolding in_conn_group_iff by (metis map_of_SomeD nth_mem)
  with assms(1) show ?thesis by (fastforce simp: uniform_types_def list_all_iff)
qed

lemma in_conn_group_dest:
  assumes "wf_connections conns"
  shows "e \<in> set (conn_group (mapConnectionsByDestination conns) d u j) \<longleftrightarrow>
     \<lparr>c_node = d, c_type = u, c_index = j\<rparr> \<in> set (conn_group conns (c_node e) (c_type e) (c_index e))"
proof -
  have e: "\<lparr>c_node = c_node e, c_type = c_type e, c_index = c_index e\<rparr> = e" by (cases e) simp
  show ?thesis
    using mapConnectionsByDestination_count [OF assms, of d u j "c_node e" "c_type e" "c_index e"]
    unfolding e by (metis count_list_0_iff)
qed

lemma conn_rel_dest:
  assumes "wf_connections conns" and "ct = ALL_TYPES \<or> uniform_types conns"
  shows "conn_rel (mapConnectionsByDestination conns) ct = (conn_rel conns ct)\<inverse>"
proof -
  have "(b, a) \<in> conn_rel (mapConnectionsByDestination conns) ct \<longleftrightarrow> (a, b) \<in> conn_rel conns ct" for a b
  proof
    assume "(b, a) \<in> conn_rel (mapConnectionsByDestination conns) ct"
    then obtain u j and e :: IConnection where u: "follows ct u" "c_node e = a"
      and c: "\<lparr>c_node = b, c_type = u, c_index = j\<rparr> \<in> set (conn_group conns a (c_type e) (c_index e))"
      unfolding conn_rel_iff in_conn_group_dest [OF assms(1)] by blast
    have "follows ct (c_type e)" using assms(2) u(1) uniform_typesD [OF _ c] by auto
    with c show "(a, b) \<in> conn_rel conns ct" unfolding conn_rel_iff by force
  next
    assume "(a, b) \<in> conn_rel conns ct"
    then obtain t i c where c: "follows ct t" "c \<in> set (conn_group conns a t i)" "c_node c = b"
      by (auto simp: conn_rel_iff)
    have "follows ct (c_type c)" using assms(2) c(1) uniform_typesD [OF _ c(2)] by auto
    moreover have "\<lparr>c_node = a, c_type = t, c_index = i\<rparr> \<in>
        set (conn_group (mapConnectionsByDestination conns) b (c_type c) (c_index c))"
      using c(2,3) by (simp add: in_conn_group_dest [OF assms(1)]) (cases c, simp)
    ultimately show "(b, a) \<in> conn_rel (mapConnectionsByDestination conns) ct"
      unfolding conn_rel_iff by force
  qed
  then show ?thesis by auto
qed

section \<open>Properties\<close>

definition ex_conns :: IConnections where
  "ex_conns =
     [(''A'', [(Main, [Some [\<lparr>c_node = ''B'', c_type = Main, c_index = 0\<rparr>,
                              \<lparr>c_node = ''D'', c_type = Main, c_index = 0\<rparr>]])]),
      (''B'', [(Main, [Some [\<lparr>c_node = ''C'', c_type = Main, c_index = 0\<rparr>]])]),
      (''C'', [(Main, [None, Some [\<lparr>c_node = ''B'', c_type = Main, c_index = 1\<rparr>]])]),
      (''D'', [(Main, [Some [\<lparr>c_node = ''C'', c_type = Main, c_index = 0\<rparr>]])])]"

text \<open>
  For every depth of at least -1, \<open>getConnectedNodes\<close> returns each node that can be
  reached from the given one over at least one and at most \<open>depth\<close> connections of the given
  kind (any number for -1), except the node itself, and lists it once: the cached expansions
  that were cut at a cycle lose nothing at the root.
\<close>

lemma getConnectedNodes_exact:
  assumes "-1 \<le> depth"
  shows "set (getConnectedNodes conns nodeName ct depth) = within conns ct depth nodeName - {nodeName}
    \<and> distinct (getConnectedNodes conns nodeName ct depth)"
  using getConnectedNodes_within [OF assms] by simp

lemma getConnectedNodes_exact_witness:
  "(-1::int) \<le> 2 \<and> getConnectedNodes ex_conns ''A'' (Type Main) 2 = [''C'', ''D'', ''B''] \<and>
   set (getConnectedNodes ex_conns ''A'' (Type Main) 2) = within ex_conns (Type Main) 2 ''A'' - {''A''} \<and>
   distinct (getConnectedNodes ex_conns ''A'' (Type Main) 2)"
proof -
  have d: "(-1::int) \<le> 2" by simp
  have "getConnectedNodes ex_conns ''A'' (Type Main) 2 = [''C'', ''D'', ''B'']" by code_simp
  with getConnectedNodes_exact [OF d, of ex_conns "''A''" "Type Main"] show ?thesis by simp
qed

text \<open>
  Inverting the connections keeps every link with its multiplicity. The group of
  connections stored for input \<open>j\<close> of type \<open>u\<close> of node \<open>d\<close> lists the output
  \<open>i\<close> of type \<open>t\<close> of node \<open>s\<close> exactly as often as that output lists the input.
\<close>

lemma mapConnectionsByDestination_inverts:
  assumes "wf_connections conns"
  shows "count_list (conn_group (mapConnectionsByDestination conns) d u j)
       \<lparr>c_node = s, c_type = t, c_index = i\<rparr> =
     count_list (conn_group conns s t i) \<lparr>c_node = d, c_type = u, c_index = j\<rparr>"
  by (rule mapConnectionsByDestination_count [OF assms])

lemma mapConnectionsByDestination_inverts_witness:
  "wf_connections ex_conns \<and>
   count_list (conn_group (mapConnectionsByDestination ex_conns) ''B'' Main 1)
       \<lparr>c_node = ''C'', c_type = Main, c_index = 1\<rparr> = 1"
proof -
  have wf: "wf_connections ex_conns" by code_simp
  have "count_list (conn_group ex_conns ''C'' Main 1) \<lparr>c_node = ''B'', c_type = Main, c_index = 1\<rparr> = 1"
    by code_simp
  with wf mapConnectionsByDestination_inverts [OF wf, of "''B''" Main 1 "''C''" Main 1]
  show ?thesis by simp
qed

text \<open>
  \<open>getParentNodes\<close> on the inverted connections and \<open>getChildNodes\<close> on the connections
  agree for every depth: a node is listed among the parents of another exactly when that
  other is listed among its children.
\<close>

lemma getParentNodes_dual:
  assumes "wf_connections conns" and "ct = ALL_TYPES \<or> uniform_types conns" and "-1 \<le> depth"
  shows "a \<in> set (getParentNodes (mapConnectionsByDestination conns) b ct depth) \<longleftrightarrow>
    b \<in> set (getChildNodes conns a ct depth)"
proof -
  have "(b, a) \<in> conn_rel (mapConnectionsByDestination conns) ct ^^ k \<longleftrightarrow> (a, b) \<in> conn_rel conns ct ^^ k" for k
    by (simp add: conn_rel_dest [OF assms(1,2)] relpow_converse_iff)
  then show ?thesis
    by (auto simp: getParentNodes_def getChildNodes_def getConnectedNodes_within(1) [OF assms(3)] within_def)
qed

lemma getParentNodes_dual_witness:
  "wf_connections ex_conns \<and> uniform_types ex_conns \<and>
   getParentNodes (mapConnectionsByDestination ex_conns) ''B'' (Type Main) (-1) = [''A'', ''D'', ''C''] \<and>
   ''B'' \<in> set (getChildNodes ex_conns ''D'' (Type Main) (-1))"
proof -
  have h: "wf_connections ex_conns" "Type Main = ALL_TYPES \<or> uniform_types ex_conns" "(-1::int) \<le> -1"
    by code_simp+
  have "getParentNodes (mapConnectionsByDestination ex_conns) ''B'' (Type Main) (-1) = [''A'', ''D'', ''C'']"
    by code_simp
  with h getParentNodes_dual [OF h, of "''D''" "''B''"] show ?thesis by simp
qed

end
