(* ===== verification/Concurrency.thy ===== *)
theory Concurrency
  imports N8n_Prelude
begin

text \<open>
  The limit on concurrent executions: \<open>ConcurrencyQueue\<close>, \<open>ConcurrencyControlService\<close> and
  \<open>ConcurrencyCapacityReservation\<close> of \<open>packages/cli/src/concurrency\<close>, with the evaluation limit of
  \<open>evaluation-concurrency.helper.ts\<close>.

  An execution waits on a promise; the queue holds its id in the place of the promise, so resolving the
  promise of an entry is to return its id. An operation that gives up capacity returns the execution it
  lets through, if any. Events for logs and telemetry are left out.
\<close>

section \<open>The queue\<close>

record ConcurrencyQueue =
  q_capacity :: int
  q_queue :: "string list"

definition resolveNext :: "ConcurrencyQueue \<Rightarrow> ConcurrencyQueue \<times> string option" where
  "resolveNext q = (case q_queue q of [] \<Rightarrow> (q, None) | item # rest \<Rightarrow> (q\<lparr>q_queue := rest\<rparr>, Some item))"

text \<open>The second component tells whether the execution may start at once.\<close>

definition queueEnqueue :: "string \<Rightarrow> ConcurrencyQueue \<Rightarrow> ConcurrencyQueue \<times> bool" where
  "queueEnqueue executionId q =
     (let q' = q\<lparr>q_capacity := q_capacity q - 1\<rparr>
      in if q_capacity q' < 0 then (q'\<lparr>q_queue := q_queue q' @ [executionId]\<rparr>, False) else (q', True))"

definition queueDequeue :: "ConcurrencyQueue \<Rightarrow> ConcurrencyQueue \<times> string option" where
  "queueDequeue q = resolveNext (q\<lparr>q_capacity := q_capacity q + 1\<rparr>)"

definition queueHas :: "string \<Rightarrow> ConcurrencyQueue \<Rightarrow> bool" where
  "queueHas executionId q = list_ex (\<lambda>item. item = executionId) (q_queue q)"

definition queueRemove :: "string \<Rightarrow> ConcurrencyQueue \<Rightarrow> ConcurrencyQueue \<times> string option" where
  "queueRemove executionId q =
     (if queueHas executionId q
      then resolveNext (q\<lparr>q_queue := remove1 executionId (q_queue q), q_capacity := q_capacity q + 1\<rparr>)
      else (q, None))"

text \<open>\<open>new Set(...)\<close>: each id once, in the order of its first entry.\<close>

definition queueGetAll :: "ConcurrencyQueue \<Rightarrow> string list" where
  "queueGetAll q = rev (remdups (rev (q_queue q)))"

section \<open>Limits\<close>

datatype concurrency_error =
    InvalidConcurrencyLimitError int
  | UnknownExecutionModeError string
  | CapacityAlreadyReserved

datatype ConcurrencyQueueType = Production | Evaluation

record License =
  li_quota :: "int option"
  li_planName :: string

record ConcurrencyConfig =
  cf_productionLimit :: int
  cf_evaluationLimit :: int
  cf_queueMode :: bool
  cf_evaluationEnvSet :: bool

definition tierDefault :: "string \<Rightarrow> int" where
  "tierDefault planName =
     (if planName = ''Community'' then 1 else if planName = ''Pro'' then 1
      else if planName = ''Business'' then 3 else if planName = ''Enterprise'' then 5 else 1)"

definition readLicenseQuota :: "License \<Rightarrow> int option" where
  "readLicenseQuota license =
     (case li_quota license of None \<Rightarrow> None | Some raw \<Rightarrow> if raw = 0 then None else Some raw)"

definition resolveEvaluationConcurrencyLimit :: "ConcurrencyConfig \<Rightarrow> License \<Rightarrow> int" where
  "resolveEvaluationConcurrencyLimit config license =
     (if cf_evaluationEnvSet config then cf_evaluationLimit config
      else case readLicenseQuota license of Some n \<Rightarrow> n | None \<Rightarrow> tierDefault (li_planName license))"

definition normaliseLimit :: "int \<Rightarrow> concurrency_error + int" where
  "normaliseLimit limit =
     (if limit = 0 then Inl (InvalidConcurrencyLimitError 0) else Inr (if limit < -1 then -1 else limit))"

section \<open>The service\<close>

text \<open>In queue mode the source leaves \<open>queues\<close> unset; it is not read there, since the service is disabled.\<close>

record ConcurrencyControl =
  cc_isEnabled :: bool
  cc_limits :: "(ConcurrencyQueueType, int) dict"
  cc_queues :: "(ConcurrencyQueueType, ConcurrencyQueue) dict"
  cc_evalQueueResolved :: bool

definition addQueue :: "ConcurrencyQueueType \<Rightarrow> int \<Rightarrow> (ConcurrencyQueueType, ConcurrencyQueue) dict
    \<Rightarrow> (ConcurrencyQueueType, ConcurrencyQueue) dict" where
  "addQueue type limit queues =
     (if limit > 0 then AList.update type \<lparr>q_capacity = limit, q_queue = []\<rparr> queues else queues)"

definition newConcurrencyControl :: "ConcurrencyConfig \<Rightarrow> concurrency_error + ConcurrencyControl" where
  "newConcurrencyControl config =
     res_bind (normaliseLimit (cf_productionLimit config)) (\<lambda>production.
     res_bind (normaliseLimit (cf_evaluationLimit config)) (\<lambda>evaluation.
       let limits = [(Production, production), (Evaluation, evaluation)];
           queues = addQueue Evaluation evaluation (addQueue Production production [])
       in Inr (if cf_queueMode config
               then \<lparr>cc_isEnabled = False, cc_limits = limits, cc_queues = [], cc_evalQueueResolved = False\<rparr>
               else \<lparr>cc_isEnabled = queues \<noteq> [], cc_limits = limits, cc_queues = queues, cc_evalQueueResolved = evaluation > 0\<rparr>)))"

definition ensureEvalQueueResolved ::
    "ConcurrencyConfig \<Rightarrow> License \<Rightarrow> ConcurrencyControl \<Rightarrow> concurrency_error + ConcurrencyControl" where
  "ensureEvalQueueResolved config license c =
     (if cc_evalQueueResolved c then Inr c
      else if cf_queueMode config then Inr (c\<lparr>cc_evalQueueResolved := True\<rparr>)
      else res_bind (normaliseLimit (resolveEvaluationConcurrencyLimit config license)) (\<lambda>normalised.
        Inr (c\<lparr>cc_evalQueueResolved := True,
               cc_limits := AList.update Evaluation normalised (cc_limits c),
               cc_queues := addQueue Evaluation normalised (cc_queues c),
               cc_isEnabled := (normalised > 0 \<or> cc_isEnabled c)\<rparr>)))"

text \<open>The queue of an execution mode; \<open>None\<close> for modes that are never limited.\<close>

definition queueTypeOf :: "string \<Rightarrow> concurrency_error + ConcurrencyQueueType option" where
  "queueTypeOf mode =
     (if mode \<in> {''error'', ''integrated'', ''cli'', ''internal'', ''manual'', ''retry''} then Inr None
      else if mode \<in> {''webhook'', ''trigger'', ''chat''} then Inr (Some Production)
      else if mode = ''evaluation'' then Inr (Some Evaluation)
      else Inl (UnknownExecutionModeError mode))"

text \<open>The common part of \<open>throttle\<close>, \<open>release\<close> and \<open>remove\<close>: find the queue, if there is one to use, and change it.\<close>

definition withQueue ::
    "ConcurrencyConfig \<Rightarrow> License \<Rightarrow> string \<Rightarrow> (ConcurrencyQueue \<Rightarrow> ConcurrencyQueue \<times> 'r) \<Rightarrow> 'r \<Rightarrow> ConcurrencyControl
       \<Rightarrow> concurrency_error + ConcurrencyControl \<times> 'r" where
  "withQueue config license mode operation unlimited c =
     res_bind (if mode = ''evaluation'' then ensureEvalQueueResolved config license c else Inr c) (\<lambda>c'.
       if \<not> cc_isEnabled c' then Inr (c', unlimited)
       else res_bind (queueTypeOf mode) (\<lambda>type.
         case type of None \<Rightarrow> Inr (c', unlimited)
         | Some ty \<Rightarrow> (case map_of (cc_queues c') ty of None \<Rightarrow> Inr (c', unlimited)
             | Some q \<Rightarrow> Inr (c'\<lparr>cc_queues := AList.update ty (fst (operation q)) (cc_queues c')\<rparr>, snd (operation q)))))"

definition throttle ::
    "ConcurrencyConfig \<Rightarrow> License \<Rightarrow> string \<Rightarrow> string \<Rightarrow> ConcurrencyControl \<Rightarrow> concurrency_error + ConcurrencyControl \<times> bool" where
  "throttle config license mode executionId = withQueue config license mode (queueEnqueue executionId) True"

definition release ::
    "ConcurrencyConfig \<Rightarrow> License \<Rightarrow> string \<Rightarrow> ConcurrencyControl \<Rightarrow> concurrency_error + ConcurrencyControl \<times> string option" where
  "release config license mode = withQueue config license mode queueDequeue None"

definition removeExecution ::
    "ConcurrencyConfig \<Rightarrow> License \<Rightarrow> string \<Rightarrow> string \<Rightarrow> ConcurrencyControl
       \<Rightarrow> concurrency_error + ConcurrencyControl \<times> string option" where
  "removeExecution config license mode executionId = withQueue config license mode (queueRemove executionId) None"

definition hasExecution :: "string \<Rightarrow> ConcurrencyControl \<Rightarrow> bool" where
  "hasExecution executionId c \<longleftrightarrow> cc_isEnabled c \<and> list_ex (\<lambda>p. queueHas executionId (snd p)) (cc_queues c)"

text \<open>The executions that are let through while a queue is emptied, in order.\<close>

fun removeIds :: "string list \<Rightarrow> ConcurrencyQueue \<Rightarrow> ConcurrencyQueue \<times> string list" where
  "removeIds [] q = (q, [])"
| "removeIds (executionId # ids) q =
     (let r = queueRemove executionId q; rest = removeIds ids (fst r)
      in (fst rest, (case snd r of None \<Rightarrow> [] | Some e \<Rightarrow> [e]) @ snd rest))"

definition removeAllExecutions :: "ConcurrencyControl \<Rightarrow> ConcurrencyControl \<times> string list" where
  "removeAllExecutions c =
     (if \<not> cc_isEnabled c then (c, [])
      else (c\<lparr>cc_queues := map (\<lambda>p. (fst p, fst (removeIds (queueGetAll (snd p)) (snd p)))) (cc_queues c)\<rparr>,
            concat (map (\<lambda>p. snd (removeIds (queueGetAll (snd p)) (snd p))) (cc_queues c))))"

definition disable :: "ConcurrencyControl \<Rightarrow> ConcurrencyControl" where
  "disable c = c\<lparr>cc_isEnabled := False\<rparr>"

section \<open>Reservations\<close>

text \<open>A reservation holds the mode and id it was made for. One that has to wait is granted later, when its
  execution is let through.\<close>

type_synonym CapacityTarget = "string \<times> string"

definition reserve ::
    "ConcurrencyConfig \<Rightarrow> License \<Rightarrow> CapacityTarget \<Rightarrow> CapacityTarget option \<Rightarrow> ConcurrencyControl
       \<Rightarrow> concurrency_error + ConcurrencyControl \<times> CapacityTarget option" where
  "reserve config license capacityFor acquired c =
     (if acquired \<noteq> None then Inl CapacityAlreadyReserved
      else res_bind (throttle config license (fst capacityFor) (snd capacityFor) c) (\<lambda>r.
        Inr (fst r, if snd r then Some capacityFor else None)))"

definition releaseReservation ::
    "ConcurrencyConfig \<Rightarrow> License \<Rightarrow> CapacityTarget option \<Rightarrow> ConcurrencyControl
       \<Rightarrow> concurrency_error + ConcurrencyControl \<times> CapacityTarget option \<times> string option" where
  "releaseReservation config license acquired c =
     (case acquired of None \<Rightarrow> Inr (c, None, None)
      | Some target \<Rightarrow> res_bind (release config license (fst target) c) (\<lambda>r. Inr (fst r, None, snd r)))"

section \<open>The contract of a queue\<close>

text \<open>
  What the service relies on. \<open>free q\<close> is the capacity that is left, negative by the number of waiting
  executions; \<open>balanced\<close> says that the limit is split between what is free, what runs and what waits,
  and that executions wait only when nothing is free.
\<close>

definition balanced :: "int \<Rightarrow> int \<Rightarrow> nat \<Rightarrow> nat \<Rightarrow> bool" where
  "balanced limit free running waiting \<longleftrightarrow> free + int running + int waiting = limit \<and> waiting = nat (- free)"

lemma balanced_bound:
  "balanced limit free running waiting \<Longrightarrow> limit \<ge> 0 \<Longrightarrow> int running \<le> limit \<and> (waiting > 0 \<longrightarrow> int running = limit)"
  by (auto simp: balanced_def)

locale capacity_queue =
  fixes enq :: "'e \<Rightarrow> 'q \<Rightarrow> 'q \<times> bool"
    and deq :: "'q \<Rightarrow> 'q \<times> 'e option"
    and free :: "'q \<Rightarrow> int"
    and waiting :: "'q \<Rightarrow> 'e list"
  assumes free_enq: "free (fst (enq e q)) = free q - 1"
    and waiting_enq: "waiting (fst (enq e q)) = (if free q > 0 then waiting q else waiting q @ [e])"
    and admitted_enq: "snd (enq e q) \<longleftrightarrow> free q > 0"
    and free_deq: "free (fst (deq q)) = free q + 1"
    and waiting_deq: "waiting (fst (deq q)) = tl (waiting q)"
    and released_deq: "snd (deq q) = (case waiting q of [] \<Rightarrow> None | e # _ \<Rightarrow> Some e)"
begin

lemma enq_balanced:
  assumes "balanced limit (free q) running (length (waiting q))"
  shows "balanced limit (free (fst (enq e q))) (if snd (enq e q) then running + 1 else running) (length (waiting (fst (enq e q))))"
  using assms by (auto simp: balanced_def free_enq waiting_enq admitted_enq)

lemma deq_balanced:
  assumes "balanced limit (free q) running (length (waiting q))" and "running > 0"
  shows "balanced limit (free (fst (deq q))) (if snd (deq q) = None then running - 1 else running) (length (waiting (fst (deq q))))"
  using assms by (cases "waiting q") (auto simp: balanced_def free_deq waiting_deq released_deq)

text \<open>Executions are let through in the order in which they came.\<close>

lemma deq_first_in_first_out: "waiting q = e # es \<Longrightarrow> snd (deq q) = Some e \<and> waiting (fst (deq q)) = es"
  by (simp add: waiting_deq released_deq)

end

lemma resolveNext_simps [simp]:
  "q_capacity (fst (resolveNext q)) = q_capacity q" "q_queue (fst (resolveNext q)) = tl (q_queue q)"
  "snd (resolveNext q) = (case q_queue q of [] \<Rightarrow> None | e # _ \<Rightarrow> Some e)"
  by (cases "q_queue q"; simp add: resolveNext_def)+

interpretation execution_queue: capacity_queue queueEnqueue queueDequeue q_capacity q_queue
  by unfold_locales (auto simp: queueEnqueue_def queueDequeue_def Let_def)

section \<open>The limit holds\<close>

text \<open>
  Executions come and go: one that arrives is throttled and runs at once or waits; one that runs ends and
  gives its capacity back, which may let a waiting one through. \<open>running\<close> lists the executions that went
  through a queue, with the type of the queue.
\<close>

definition counted :: "ConcurrencyControl \<Rightarrow> string \<Rightarrow> ConcurrencyQueueType option" where
  "counted c mode = (case queueTypeOf mode of Inr (Some ty) \<Rightarrow> if map_of (cc_queues c) ty = None then None else Some ty | _ \<Rightarrow> None)"

inductive concurrency_reaches ::
    "ConcurrencyConfig \<Rightarrow> License \<Rightarrow> ConcurrencyControl \<Rightarrow> (ConcurrencyQueueType \<times> string) list \<Rightarrow> bool"
  for config :: ConcurrencyConfig and license :: License where
  start: "newConcurrencyControl config = Inr c \<Longrightarrow> concurrency_reaches config license c []"
| arrive: "concurrency_reaches config license c running \<Longrightarrow>
    throttle config license mode executionId c = Inr (c', admitted) \<Longrightarrow>
    running' = (case counted c' mode of Some ty \<Rightarrow> if admitted then (ty, executionId) # running else running | None \<Rightarrow> running) \<Longrightarrow>
    concurrency_reaches config license c' running'"
| finish: "concurrency_reaches config license c running \<Longrightarrow> counted c mode = Some ty \<Longrightarrow> (ty, executionId) \<in> set running \<Longrightarrow>
    release config license mode c = Inr (c', released) \<Longrightarrow>
    running' = (case released of Some e \<Rightarrow> [(ty, e)] | None \<Rightarrow> []) @ remove1 (ty, executionId) running \<Longrightarrow>
    concurrency_reaches config license c' running'"

definition running_count :: "(ConcurrencyQueueType \<times> string) list \<Rightarrow> ConcurrencyQueueType \<Rightarrow> nat" where
  "running_count running ty = length (filter (\<lambda>p. fst p = ty) running)"

lemma running_count_simps [simp]:
  "running_count [] ty = 0"
  "running_count ((ty', e) # running) ty = (if ty' = ty then running_count running ty + 1 else running_count running ty)"
  by (simp_all add: running_count_def)

lemma running_count_remove1:
  "(ty', e) \<in> set running \<Longrightarrow>
   running_count running ty = running_count (remove1 (ty', e) running) ty + (if ty' = ty then 1 else 0)"
  by (induction running) (auto simp: running_count_def)

lemma running_count_pos: "(ty, e) \<in> set running \<Longrightarrow> running_count running ty > 0"
  by (force simp: running_count_def filter_empty_conv)

text \<open>The invariant of the service: every queue is balanced, and the service is enabled if it has a queue.\<close>

definition limit_of :: "ConcurrencyControl \<Rightarrow> ConcurrencyQueueType \<Rightarrow> int" where
  "limit_of c ty = (case map_of (cc_limits c) ty of None \<Rightarrow> 0 | Some limit \<Rightarrow> limit)"

definition control_ok :: "ConcurrencyControl \<Rightarrow> (ConcurrencyQueueType \<times> string) list \<Rightarrow> bool" where
  "control_ok c running \<longleftrightarrow> (cc_isEnabled c \<longleftrightarrow> cc_queues c \<noteq> []) \<and>
     (\<forall>ty q. map_of (cc_queues c) ty = Some q \<longrightarrow> limit_of c ty \<ge> 0 \<and>
        balanced (limit_of c ty) (q_capacity q) (running_count running ty) (length (q_queue q))) \<and>
     (\<forall>ty. map_of (cc_queues c) ty = None \<longrightarrow> running_count running ty = 0) \<and>
     (\<not> cc_evalQueueResolved c \<longrightarrow> map_of (cc_queues c) Evaluation = None)"

lemma control_okD:
  assumes "control_ok c running"
  shows "cc_isEnabled c \<longleftrightarrow> cc_queues c \<noteq> []"
    and "map_of (cc_queues c) ty = Some q \<Longrightarrow>
      limit_of c ty \<ge> 0 \<and> balanced (limit_of c ty) (q_capacity q) (running_count running ty) (length (q_queue q))"
    and "map_of (cc_queues c) ty = None \<Longrightarrow> running_count running ty = 0"
    and "\<not> cc_evalQueueResolved c \<Longrightarrow> map_of (cc_queues c) Evaluation = None"
  using assms unfolding control_ok_def by blast+

lemma limit_of_update: "cc_limits c' = AList.update ty' n (cc_limits c) \<Longrightarrow> limit_of c' ty = (if ty = ty' then n else limit_of c ty)"
  by (simp add: limit_of_def update_conv')

lemma map_of_addQueue:
  "map_of (addQueue ty' n queues) ty =
     (if n > 0 \<and> ty = ty' then Some \<lparr>q_capacity = n, q_queue = []\<rparr> else map_of queues ty)"
  by (simp add: addQueue_def update_conv')

lemma addQueue_Nil: "addQueue ty n queues = [] \<longleftrightarrow> n \<le> 0 \<and> queues = []"
  using keys_update [of ty "\<lparr>q_capacity = n, q_queue = []\<rparr>" queues] by (auto simp: addQueue_def)

lemma ensureEval_ok:
  assumes ok: "control_ok c running" and e: "ensureEvalQueueResolved config license c = Inr c'"
  shows "control_ok c' running"
proof (cases "cc_evalQueueResolved c \<or> cf_queueMode config")
  case True
  with e ok show ?thesis by (auto simp: ensureEvalQueueResolved_def control_ok_def limit_of_def split: if_splits)
next
  case False
  with e obtain n where n: "c' = c\<lparr>cc_evalQueueResolved := True, cc_limits := AList.update Evaluation n (cc_limits c),
      cc_queues := addQueue Evaluation n (cc_queues c), cc_isEnabled := (n > 0 \<or> cc_isEnabled c)\<rparr>"
    by (cases "normaliseLimit (resolveEvaluationConcurrencyLimit config license)") (auto simp: ensureEvalQueueResolved_def)
  have none: "map_of (cc_queues c) Evaluation = None" using control_okD(4) [OF ok] False by simp
  have limits: "limit_of c' ty = (if ty = Evaluation then n else limit_of c ty)" for ty
    by (rule limit_of_update) (simp add: n)
  have queues: "map_of (cc_queues c') ty = (if n > 0 \<and> ty = Evaluation then Some \<lparr>q_capacity = n, q_queue = []\<rparr> else map_of (cc_queues c) ty)" for ty
    by (simp add: n map_of_addQueue)
  have enabled: "cc_isEnabled c' \<longleftrightarrow> cc_queues c' \<noteq> []" using control_okD(1) [OF ok] by (auto simp: n addQueue_Nil)
  have zero: "running_count running Evaluation = 0" by (rule control_okD(3) [OF ok none])
  show ?thesis
    unfolding control_ok_def
  proof (intro conjI allI impI)
    fix ty q assume q: "map_of (cc_queues c') ty = Some q"
    show "0 \<le> limit_of c' ty" "balanced (limit_of c' ty) (q_capacity q) (running_count running ty) (length (q_queue q))"
      using q none zero control_okD(2) [OF ok, of ty q] by (auto simp: queues limits balanced_def split: if_splits)
  next
    fix ty assume "map_of (cc_queues c') ty = None"
    then show "running_count running ty = 0" using control_okD(3) [OF ok, of ty] by (auto simp: queues split: if_splits)
  qed (use enabled n in simp_all)
qed

text \<open>An operation on a queue that keeps its balance keeps the invariant.\<close>

lemma withQueue_ok:
  assumes ok: "control_ok c running" and run: "withQueue config license mode operation unlimited c = Inr (c', r)"
    and op: "\<And>ty q limit. counted c' mode = Some ty \<Longrightarrow> balanced limit (q_capacity q) (running_count running ty) (length (q_queue q)) \<Longrightarrow>
        r = snd (operation q) \<Longrightarrow>
        balanced limit (q_capacity (fst (operation q))) (running_count running' ty) (length (q_queue (fst (operation q))))"
    and other: "\<And>ty. counted c' mode \<noteq> Some ty \<Longrightarrow> running_count running' ty = running_count running ty"
  shows "control_ok c' running'"
proof -
  obtain c1 where c1: "(if mode = ''evaluation'' then ensureEvalQueueResolved config license c else Inr c) = Inr c1"
    using run by (cases "if mode = ''evaluation'' then ensureEvalQueueResolved config license c else Inr c") (simp_all add: withQueue_def)
  have ok1: "control_ok c1 running" using ensureEval_ok [OF ok] c1 ok by (auto split: if_splits)
  have rest: "(if \<not> cc_isEnabled c1 then Inr (c1, unlimited) else res_bind (queueTypeOf mode) (\<lambda>type.
      case type of None \<Rightarrow> Inr (c1, unlimited)
      | Some ty \<Rightarrow> (case map_of (cc_queues c1) ty of None \<Rightarrow> Inr (c1, unlimited)
          | Some q \<Rightarrow> Inr (c1\<lparr>cc_queues := AList.update ty (fst (operation q)) (cc_queues c1)\<rparr>, snd (operation q))))) = Inr (c', r)"
    using run c1 by (simp only: withQueue_def res_bind.simps)
  consider "c' = c1" "counted c1 mode = None"
    | ty q where "queueTypeOf mode = Inr (Some ty)" "map_of (cc_queues c1) ty = Some q"
      "c' = c1\<lparr>cc_queues := AList.update ty (fst (operation q)) (cc_queues c1)\<rparr>" "r = snd (operation q)"
  proof (cases "\<exists>ty. counted c1 mode = Some ty")
    case True
    then obtain ty q where t: "queueTypeOf mode = Inr (Some ty)" and q: "map_of (cc_queues c1) ty = Some q"
      by (auto simp: counted_def split: sum.splits option.splits if_splits)
    then have "cc_queues c1 \<noteq> []" by auto
    then have "cc_isEnabled c1" using control_okD(1) [OF ok1] by simp
    with rest t q show thesis by (intro that(2) [OF t q]) simp_all
  next
    case False
    then have none: "counted c1 mode = None" by simp
    with rest have "c' = c1"
      by (cases "queueTypeOf mode") (auto simp: counted_def split: if_splits option.splits)
    then show thesis using none by (rule that(1))
  qed
  then show ?thesis
  proof cases
    case 1
    then have "running_count running' ty = running_count running ty" for ty using other [of ty] by simp
    with ok1 1(1) show ?thesis by (simp add: control_ok_def)
  next
    case 2
    have counted: "counted c' mode = Some ty" using 2 by (simp add: counted_def update_conv')
    have q': "map_of (cc_queues c') ty' = (if ty' = ty then Some (fst (operation q)) else map_of (cc_queues c1) ty')" for ty'
      by (simp add: 2(3) update_conv')
    have ne: "cc_queues c' \<noteq> []" "cc_queues c1 \<noteq> []"
      using q' [of ty] 2(2) by auto
    have limits: "limit_of c' = limit_of c1" by (simp add: 2(3) limit_of_def fun_eq_iff)
    have bal: "balanced (limit_of c1 ty) (q_capacity (fst (operation q))) (running_count running' ty) (length (q_queue (fst (operation q))))"
      using op [OF counted _ 2(4)] control_okD(2) [OF ok1 2(2)] by blast
    have same: "running_count running' ty' = running_count running ty'" if "ty' \<noteq> ty" for ty' using other [of ty'] counted that by simp
    show ?thesis
      unfolding control_ok_def
    proof (intro conjI allI impI)
      fix ty' u assume u: "map_of (cc_queues c') ty' = Some u"
      show "0 \<le> limit_of c' ty'" "balanced (limit_of c' ty') (q_capacity u) (running_count running' ty') (length (q_queue u))"
        using u bal control_okD(2) [OF ok1 2(2)] control_okD(2) [OF ok1, of ty' u] same [of ty']
        by (auto simp: q' limits split: if_splits)
    next
      fix ty' assume "map_of (cc_queues c') ty' = None"
      then show "running_count running' ty' = 0" using control_okD(3) [OF ok1, of ty'] same [of ty'] by (auto simp: q' split: if_splits)
    next
      assume "\<not> cc_evalQueueResolved c'"
      then have "\<not> cc_evalQueueResolved c1" by (simp add: 2(3))
      then show "map_of (cc_queues c') Evaluation = None" using control_okD(4) [OF ok1] 2(2) by (auto simp: q' split: if_splits)
    qed (use ne control_okD(1) [OF ok1] 2(3) in simp_all)
  qed
qed

text \<open>Queues are never dropped.\<close>

lemma withQueue_counted:
  assumes "withQueue config license mode operation unlimited c = Inr (c', r)" and "counted c mode = Some ty"
  shows "counted c' mode = Some ty"
proof -
  obtain c1 where c1: "(if mode = ''evaluation'' then ensureEvalQueueResolved config license c else Inr c) = Inr c1"
    using assms(1) by (cases "if mode = ''evaluation'' then ensureEvalQueueResolved config license c else Inr c") (simp_all add: withQueue_def)
  have "map_of (cc_queues c) ty' \<noteq> None \<Longrightarrow> map_of (cc_queues c1) ty' \<noteq> None" for ty'
    using c1 by (auto simp: ensureEvalQueueResolved_def res_bind_Inr_iff map_of_addQueue split: if_splits)
  moreover have "map_of (cc_queues c1) ty' \<noteq> None \<Longrightarrow> map_of (cc_queues c') ty' \<noteq> None" for ty'
    using assms(1) c1 by (auto simp: withQueue_def res_bind_Inr_iff update_conv' split: if_splits option.splits)
  moreover from assms(2) have "queueTypeOf mode = Inr (Some ty)" "map_of (cc_queues c) ty \<noteq> None"
    by (auto simp: counted_def split: sum.splits option.splits if_splits)
  ultimately show ?thesis by (simp add: counted_def)
qed

lemma newControl_ok: "newConcurrencyControl config = Inr c \<Longrightarrow> control_ok c []"
  by (cases "normaliseLimit (cf_productionLimit config)"; cases "normaliseLimit (cf_evaluationLimit config)")
    (auto simp: newConcurrencyControl_def control_ok_def limit_of_def map_of_addQueue addQueue_Nil balanced_def Let_def
       split: if_splits)

lemma reachable_control_ok: "concurrency_reaches config license c running \<Longrightarrow> control_ok c running"
proof (induction rule: concurrency_reaches.induct)
  case (start c)
  then show ?case by (rule newControl_ok)
next
  case (arrive c running mode e c' admitted running')
  from arrive.IH arrive.hyps(2) [unfolded throttle_def] show ?case
  proof (rule withQueue_ok)
    fix ty q limit assume "counted c' mode = Some ty" and b: "balanced limit (q_capacity q) (running_count running ty) (length (q_queue q))"
      and "admitted = snd (queueEnqueue e q)"
    with execution_queue.enq_balanced [OF b, of e] arrive.hyps(3)
    show "balanced limit (q_capacity (fst (queueEnqueue e q))) (running_count running' ty) (length (q_queue (fst (queueEnqueue e q))))"
      by (auto split: if_splits)
  next
    fix ty assume "counted c' mode \<noteq> Some ty"
    with arrive.hyps(3) show "running_count running' ty = running_count running ty" by (auto split: option.splits)
  qed
next
  case (finish c running mode ty e c' released running')
  have c': "counted c' mode = Some ty" by (rule withQueue_counted [OF finish.hyps(4) [unfolded release_def] finish.hyps(2)])
  from finish.IH finish.hyps(4) [unfolded release_def] show ?case
  proof (rule withQueue_ok)
    fix ty' q limit assume "counted c' mode = Some ty'" and b: "balanced limit (q_capacity q) (running_count running ty') (length (q_queue q))"
      and r: "released = snd (queueDequeue q)"
    with c' have [simp]: "ty' = ty" by auto
    have pos: "running_count running ty > 0" by (rule running_count_pos [OF finish.hyps(3)])
    show "balanced limit (q_capacity (fst (queueDequeue q))) (running_count running' ty') (length (q_queue (fst (queueDequeue q))))"
      using execution_queue.deq_balanced [OF b] pos finish.hyps(5) r running_count_remove1 [OF finish.hyps(3), of ty]
      by (cases "snd (queueDequeue q)") simp_all
  next
    fix ty' assume "counted c' mode \<noteq> Some ty'"
    with c' finish.hyps(5) show "running_count running' ty' = running_count running ty'"
      using running_count_remove1 [OF finish.hyps(3), of ty'] by (auto split: option.splits)
  qed
qed

text \<open>
  C7: as long as executions only arrive and finish, no more executions of a kind run at the same time
  than its limit, and executions wait only while as many run as the limit allows.
\<close>

theorem concurrency_limit:
  assumes "concurrency_reaches config license c running" and "map_of (cc_queues c) ty = Some q"
  shows "int (running_count running ty) \<le> limit_of c ty \<and>
    (q_queue q \<noteq> [] \<longrightarrow> int (running_count running ty) = limit_of c ty)"
  using control_okD(2) [OF reachable_control_ok [OF assms(1)] assms(2)] balanced_bound by auto

text \<open>A service with a production limit of one, where one execution runs and two wait.\<close>

definition ex_config :: ConcurrencyConfig where
  "ex_config = \<lparr>cf_productionLimit = 1, cf_evaluationLimit = -1, cf_queueMode = False, cf_evaluationEnvSet = False\<rparr>"

definition ex_license :: License where
  "ex_license = \<lparr>li_quota = None, li_planName = ''Community''\<rparr>"

definition ex_control :: "int \<Rightarrow> string list \<Rightarrow> ConcurrencyControl" where
  "ex_control capacity ids =
     \<lparr>cc_isEnabled = True, cc_limits = [(Production, 1), (Evaluation, -1)],
      cc_queues = [(Production, \<lparr>q_capacity = capacity, q_queue = ids\<rparr>)], cc_evalQueueResolved = False\<rparr>"

lemma ex_busy: "concurrency_reaches ex_config ex_license (ex_control (-2) [''b'', ''c'']) [(Production, ''a'')]"
proof -
  have "newConcurrencyControl ex_config = Inr (ex_control 1 [])"
    "throttle ex_config ex_license ''webhook'' ''a'' (ex_control 1 []) = Inr (ex_control 0 [], True)"
    "throttle ex_config ex_license ''trigger'' ''b'' (ex_control 0 []) = Inr (ex_control (-1) [''b''], False)"
    "throttle ex_config ex_license ''webhook'' ''c'' (ex_control (-1) [''b'']) = Inr (ex_control (-2) [''b'', ''c''], False)"
    by code_simp+
  moreover have "counted (ex_control n ids) ''webhook'' = Some Production" "counted (ex_control n ids) ''trigger'' = Some Production" for n ids
    by (simp_all add: counted_def queueTypeOf_def ex_control_def)
  ultimately show ?thesis by (intro concurrency_reaches.arrive [OF concurrency_reaches.arrive [OF concurrency_reaches.arrive
    [OF concurrency_reaches.start]]]) auto
qed

theorem concurrency_limit_witness:
  "running_count [(Production, ''a'')] Production = 1 \<and> limit_of (ex_control (-2) [''b'', ''c'']) Production = 1"
  using concurrency_limit [OF ex_busy, of Production "\<lparr>q_capacity = -2, q_queue = [''b'', ''c'']\<rparr>"]
  by (simp add: ex_control_def limit_of_def)

text \<open>
  C27: removing an execution that waits lets the next one through although no execution has ended, so
  that more executions run than the limit allows.
\<close>

theorem remove_exceeds_limit:
  assumes "concurrency_reaches config license c running" and "map_of (cc_queues c) Production = Some q"
    and "executionId \<in> set (q_queue q)" and "length (q_queue q) > 1"
  shows "\<exists>c' e. removeExecution config license ''webhook'' executionId c = Inr (c', Some e) \<and>
    int (running_count ((Production, e) # running) Production) = limit_of c Production + 1"
proof -
  note ok = reachable_control_ok [OF assms(1)]
  have "q_queue q \<noteq> []" using assms(4) by auto
  then have full: "int (running_count running Production) = limit_of c Production"
    using control_okD(2) [OF ok assms(2)] balanced_bound by auto
  have enabled: "cc_isEnabled c" using control_okD(1) [OF ok] assms(2) by auto
  have "length (remove1 executionId (q_queue q)) > 0" using assms(3,4) by (simp add: length_remove1)
  then obtain e rest where "remove1 executionId (q_queue q) = e # rest" by (cases "remove1 executionId (q_queue q)") auto
  then have "snd (queueRemove executionId q) = Some e" using assms(3) by (simp add: queueRemove_def queueHas_def list_ex_iff)
  with enabled assms(2) full show ?thesis by (simp add: removeExecution_def withQueue_def queueTypeOf_def)
qed

theorem remove_exceeds_limit_witness:
  "\<exists>c' e. removeExecution ex_config ex_license ''webhook'' ''b'' (ex_control (-2) [''b'', ''c'']) = Inr (c', Some e) \<and>
    int (running_count [(Production, e), (Production, ''a'')] Production) = limit_of (ex_control (-2) [''b'', ''c'']) Production + 1"
  using remove_exceeds_limit [OF ex_busy, of "\<lparr>q_capacity = -2, q_queue = [''b'', ''c'']\<rparr>" "''b''"]
  by (simp add: ex_control_def)

text \<open>Emptying the queues lets every second waiting execution through instead of dropping it.\<close>

lemma removeAll_lets_through: "snd (removeAllExecutions (ex_control (-4) [''b'', ''c'', ''d'', ''e''])) = [''c'', ''e'']"
  by code_simp

text \<open>Reserving capacity and releasing the reservation again leaves a service as it was when capacity was free.\<close>

lemma reserve_release:
  assumes "cc_isEnabled c" and "map_of (cc_queues c) Production = Some q" and "q_capacity q > 0" and "q_queue q = []"
  shows "\<exists>c1 c2. reserve config license (''webhook'', e) None c = Inr (c1, Some (''webhook'', e)) \<and>
    releaseReservation config license (Some (''webhook'', e)) c1 = Inr (c2, None, None) \<and>
    map_of (cc_queues c2) = map_of (cc_queues c)"
  using assms
  by (auto simp: reserve_def releaseReservation_def throttle_def release_def withQueue_def queueTypeOf_def queueEnqueue_def
      queueDequeue_def resolveNext_def Let_def update_conv' fun_eq_iff)

end
