(* ===== verification/Task_Broker.thy ===== *)
theory Task_Broker
  imports N8n_Prelude
begin

text \<open>
  The task broker of \<open>packages/cli/src/task-runners/task-broker/task-broker.service.ts\<close>: runners offer to
  run tasks of a type, requesters ask for a task of a type, and the broker matches the two, waits until
  both sides have accepted, and relays what they send each other.

  One event is handled at a time, as in the event loop of the source; what the source does after an
  \<open>await\<close> on a promise of its own is done when the promise is settled. \<open>b_sent\<close> is the list of messages
  sent so far. Ids come from \<open>nanoid\<close>, a function of the number of ids drawn before; the clock is
  an argument. A timer is the flag of the object that holds it: the timer may fire while the flag is set.
  An object that is changed after it was passed on (a request) is identified by \<open>rq_ref\<close>.
  Log messages are left out.
\<close>

section \<open>State\<close>

record TaskRunner =
  ru_id :: string
  ru_taskTypes :: "string list"

record Task =
  ta_id :: string
  ta_runnerId :: string
  ta_requesterId :: string
  ta_taskType :: string
  ta_timeout :: bool

record TaskOffer =
  of_offerId :: string
  of_runnerId :: string
  of_taskType :: string
  of_validFor :: int
  of_validUntil :: int

record TaskRequest =
  rq_ref :: nat
  rq_requestId :: string
  rq_requesterId :: string
  rq_taskType :: string
  rq_timeout :: bool
  rq_acceptInProgress :: bool

datatype task_error = Disconnected string | RunnerNotFound string | ExecutionTimeout | TaskFailed json

datatype to_runner =
    RunnerRegistered
  | TaskOfferAccept string string
  | TaskCancel string string
  | TaskSettings string json
  | TaskDataResponse string string json
  | NodeTypesResponse string string json
  | RpcResponse string string string json

datatype to_requester =
    TaskReady string string
  | RequestExpired string string
  | TaskError string task_error
  | TaskDone string json
  | TaskDataRequest string string json
  | NodeTypesRequest string string json
  | Rpc string string string json

datatype broker_output = ToRunner string to_runner | ToRequester string to_requester | RunnerTimedOutDuringTask

text \<open>An entry of \<open>runnerAcceptRejects\<close> belongs to a call of \<open>acceptOffer\<close> that waits for the runner; the flag
  says that its promise was settled by the timer, which leaves the entry in the map. The entries of
  \<open>requesterAcceptRejects\<close> are the same for the requester.\<close>

record Broker =
  b_knownRunners :: "(string, TaskRunner) dict"
  b_requesters :: "string list"
  b_tasks :: "(string, Task) dict"
  b_isDraining :: bool
  b_runnerAcceptRejects :: "(string, TaskOffer \<times> TaskRequest \<times> bool) dict"
  b_requesterAcceptRejects :: "(string, bool) dict"
  b_pendingTaskOffers :: "TaskOffer list"
  b_pendingTaskRequests :: "TaskRequest list"
  b_mismatchWarned :: "string list"
  b_drawnIds :: nat
  b_nextRef :: nat
  b_sent :: "broker_output list"

definition newBroker :: Broker where
  "newBroker = \<lparr>b_knownRunners = [], b_requesters = [], b_tasks = [], b_isDraining = False, b_runnerAcceptRejects = [],
     b_requesterAcceptRejects = [], b_pendingTaskOffers = [], b_pendingTaskRequests = [], b_mismatchWarned = [],
     b_drawnIds = 0, b_nextRef = 0, b_sent = []\<rparr>"

definition sends :: "broker_output \<Rightarrow> Broker \<Rightarrow> Broker" where
  "sends m b = b\<lparr>b_sent := b_sent b @ [m]\<rparr>"

definition messageRunner :: "string \<Rightarrow> to_runner \<Rightarrow> Broker \<Rightarrow> Broker" where
  "messageRunner runnerId message b =
     (if map_of (b_knownRunners b) runnerId = None then b else sends (ToRunner runnerId message) b)"

definition messageRequester :: "string \<Rightarrow> to_requester \<Rightarrow> Broker \<Rightarrow> Broker" where
  "messageRequester requesterId message b =
     (if requesterId \<in> set (b_requesters b) then sends (ToRequester requesterId message) b else b)"

text \<open>An assignment to a property of a request object; it is seen where the object is still pending.\<close>

definition changeRequest :: "TaskRequest \<Rightarrow> (TaskRequest \<Rightarrow> TaskRequest) \<Rightarrow> Broker \<Rightarrow> Broker" where
  "changeRequest request f b =
     b\<lparr>b_pendingTaskRequests := map (\<lambda>r. if rq_ref r = rq_ref request then f r else r) (b_pendingTaskRequests b)\<rparr>"

text \<open>\<open>findIndex\<close> and \<open>splice\<close>: the first request with the id is taken out.\<close>

fun takeRequest :: "string \<Rightarrow> TaskRequest list \<Rightarrow> (TaskRequest \<times> TaskRequest list) option" where
  "takeRequest requestId [] = None"
| "takeRequest requestId (r # rs) =
     (if rq_requestId r = requestId then Some (r, rs)
      else case takeRequest requestId rs of None \<Rightarrow> None | Some (t, rest) \<Rightarrow> Some (t, r # rest))"

fun takeOffer :: "string \<Rightarrow> TaskOffer list \<Rightarrow> (TaskOffer \<times> TaskOffer list) option" where
  "takeOffer taskType [] = None"
| "takeOffer taskType (t # ts) =
     (if of_taskType t = taskType then Some (t, ts)
      else case takeOffer taskType ts of None \<Rightarrow> None | Some (u, rest) \<Rightarrow> Some (u, t # rest))"

section \<open>Runners and requesters\<close>

definition handleRequestTimeout :: "string \<Rightarrow> Broker \<Rightarrow> Broker" where
  "handleRequestTimeout requestId b =
     (case takeRequest requestId (b_pendingTaskRequests b) of None \<Rightarrow> b
      | Some (request, rest) \<Rightarrow>
          messageRequester (rq_requesterId request) (RequestExpired (rq_requestId request) ''timeout'')
            (b\<lparr>b_pendingTaskRequests := rest, b_mismatchWarned := removeAll requestId (b_mismatchWarned b)\<rparr>))"

definition expireTasks :: "int \<Rightarrow> Broker \<Rightarrow> Broker" where
  "expireTasks now b =
     b\<lparr>b_pendingTaskOffers := filter (\<lambda>t. of_validFor t = -1 \<or> \<not> of_validUntil t < now) (b_pendingTaskOffers b)\<rparr>"

definition registerRunner :: "TaskRunner \<Rightarrow> Broker \<Rightarrow> Broker" where
  "registerRunner runner b =
     messageRunner (ru_id runner) RunnerRegistered (b\<lparr>b_knownRunners := AList.update (ru_id runner) runner (b_knownRunners b)\<rparr>)"

definition registerRequester :: "string \<Rightarrow> Broker \<Rightarrow> Broker" where
  "registerRequester requesterId b = b\<lparr>b_requesters := List.insert requesterId (b_requesters b)\<rparr>"

definition deregisterRequester :: "string \<Rightarrow> Broker \<Rightarrow> Broker" where
  "deregisterRequester requesterId b = b\<lparr>b_requesters := removeAll requesterId (b_requesters b)\<rparr>"

definition cancelTask :: "string \<Rightarrow> string \<Rightarrow> Broker \<Rightarrow> Broker" where
  "cancelTask taskId reason b =
     (case map_of (b_tasks b) taskId of None \<Rightarrow> b
      | Some task \<Rightarrow> messageRunner (ta_runnerId task) (TaskCancel taskId reason) (b\<lparr>b_tasks := AList.delete taskId (b_tasks b)\<rparr>))"

definition failTask :: "string \<Rightarrow> task_error \<Rightarrow> Broker \<Rightarrow> Broker" where
  "failTask taskId err b =
     (case map_of (b_tasks b) taskId of None \<Rightarrow> b
      | Some task \<Rightarrow> messageRequester (ta_requesterId task) (TaskError taskId err) (b\<lparr>b_tasks := AList.delete taskId (b_tasks b)\<rparr>))"

text \<open>The second component is \<open>None\<close> where the source throws.\<close>

definition getRunnerOrFailTask :: "string \<Rightarrow> Broker \<Rightarrow> Broker \<times> TaskRunner option" where
  "getRunnerOrFailTask taskId b =
     (case map_of (b_tasks b) taskId of None \<Rightarrow> (b, None)
      | Some task \<Rightarrow>
         (case map_of (b_knownRunners b) (ta_runnerId task) of
            None \<Rightarrow> (failTask taskId (RunnerNotFound (ta_runnerId task)) b, None)
          | Some runner \<Rightarrow> (b, Some runner)))"

section \<open>The handshake\<close>

text \<open>What \<open>acceptOffer\<close> does up to its first \<open>await\<close>.\<close>

definition acceptOffer :: "(nat \<Rightarrow> string) \<Rightarrow> TaskOffer \<Rightarrow> TaskRequest \<Rightarrow> Broker \<Rightarrow> Broker" where
  "acceptOffer nanoid offer request b =
     (let taskId = nanoid (b_drawnIds b)
      in messageRunner (of_runnerId offer) (TaskOfferAccept (of_offerId offer) taskId)
           (b\<lparr>b_drawnIds := b_drawnIds b + 1,
              b_runnerAcceptRejects := AList.update taskId (offer, request, False) (b_runnerAcceptRejects b)\<rparr>))"

text \<open>The runner did not take the task: it rejected it, asked to try later, or did not answer in time.\<close>

datatype refusal = TaskRejected | TaskDeferred | AcceptTimeout

definition runnerRefused :: "refusal \<Rightarrow> TaskRequest \<Rightarrow> Broker \<Rightarrow> Broker" where
  "runnerRefused why request =
     changeRequest request (\<lambda>r. r\<lparr>rq_acceptInProgress := False, rq_timeout := (why = TaskDeferred \<or> rq_timeout r)\<rparr>)"

text \<open>The runner took the task: \<open>acceptOffer\<close> goes on to its second \<open>await\<close>.\<close>

definition runnerAccepted :: "string \<Rightarrow> TaskOffer \<Rightarrow> TaskRequest \<Rightarrow> Broker \<Rightarrow> Broker" where
  "runnerAccepted taskId offer request b =
     (let task = \<lparr>ta_id = taskId, ta_runnerId = of_runnerId offer, ta_requesterId = rq_requesterId request,
                  ta_taskType = of_taskType offer, ta_timeout = False\<rparr>;
          cleared = changeRequest request (\<lambda>r. r\<lparr>rq_timeout := False\<rparr>) b;
          b' = cleared\<lparr>b_tasks := AList.update taskId task (b_tasks cleared)\<rparr>
      in case takeRequest (rq_requestId request) (b_pendingTaskRequests b') of
           None \<Rightarrow> b'
         | Some (_, rest) \<Rightarrow>
             messageRequester (rq_requesterId request) (TaskReady (rq_requestId request) taskId)
               (b'\<lparr>b_pendingTaskRequests := rest,
                   b_requesterAcceptRejects := AList.update taskId False (b_requesterAcceptRejects b')\<rparr>))"

text \<open>Settling the promise that waits for the runner; a promise that the timer settled stays as it is.\<close>

definition settleRunner :: "string \<Rightarrow> (TaskOffer \<Rightarrow> TaskRequest \<Rightarrow> Broker \<Rightarrow> Broker) \<Rightarrow> Broker \<Rightarrow> Broker" where
  "settleRunner taskId continue b =
     (case map_of (b_runnerAcceptRejects b) taskId of None \<Rightarrow> b
      | Some (offer, request, settled) \<Rightarrow>
          (let b' = b\<lparr>b_runnerAcceptRejects := AList.delete taskId (b_runnerAcceptRejects b)\<rparr>
           in if settled then b' else continue offer request b'))"

definition handleRunnerAccept :: "string \<Rightarrow> Broker \<Rightarrow> Broker" where
  "handleRunnerAccept taskId = settleRunner taskId (runnerAccepted taskId)"

definition handleRunnerReject :: "string \<Rightarrow> Broker \<Rightarrow> Broker" where
  "handleRunnerReject taskId = settleRunner taskId (\<lambda>offer. runnerRefused TaskRejected)"

definition handleRunnerDeferred :: "string \<Rightarrow> Broker \<Rightarrow> Broker" where
  "handleRunnerDeferred taskId = settleRunner taskId (\<lambda>offer. runnerRefused TaskDeferred)"

text \<open>The timer of two seconds: the entry stays in the map.\<close>

definition runnerAcceptTimeout :: "string \<Rightarrow> Broker \<Rightarrow> Broker" where
  "runnerAcceptTimeout taskId b =
     (case map_of (b_runnerAcceptRejects b) taskId of
        Some (offer, request, False) \<Rightarrow>
          runnerRefused AcceptTimeout request
            (b\<lparr>b_runnerAcceptRejects := AList.update taskId (offer, request, True) (b_runnerAcceptRejects b)\<rparr>)
      | _ \<Rightarrow> b)"

definition deregisterRunner :: "string \<Rightarrow> string \<Rightarrow> Broker \<Rightarrow> Broker" where
  "deregisterRunner runnerId err b =
     fold (\<lambda>task b. handleRunnerReject (ta_id task) (failTask (ta_id task) (Disconnected err) b))
       (filter (\<lambda>task. ta_runnerId task = runnerId) (map snd (b_tasks b)))
       (b\<lparr>b_knownRunners := AList.delete runnerId (b_knownRunners b),
          b_pendingTaskOffers := filter (\<lambda>t. of_runnerId t \<noteq> runnerId) (b_pendingTaskOffers b)\<rparr>)"

definition sendTaskSettings :: "string \<Rightarrow> json \<Rightarrow> Broker \<Rightarrow> Broker \<times> bool" where
  "sendTaskSettings taskId settings b =
     (if map_of (b_tasks b) taskId = None then (b, True)
      else let r = getRunnerOrFailTask taskId b
           in case snd r of None \<Rightarrow> (fst r, False)
              | Some runner \<Rightarrow>
                  (messageRunner (ru_id runner) (TaskSettings taskId settings)
                     ((fst r)\<lparr>b_tasks := map (\<lambda>p. if fst p = taskId then (taskId, (snd p)\<lparr>ta_timeout := True\<rparr>) else p) (b_tasks (fst r))\<rparr>), True))"

definition settleRequester :: "string \<Rightarrow> (Broker \<Rightarrow> Broker) \<Rightarrow> Broker \<Rightarrow> Broker" where
  "settleRequester taskId continue b =
     (case map_of (b_requesterAcceptRejects b) taskId of None \<Rightarrow> b
      | Some settled \<Rightarrow>
          (let b' = b\<lparr>b_requesterAcceptRejects := AList.delete taskId (b_requesterAcceptRejects b)\<rparr>
           in if settled then b' else continue b'))"

definition handleRequesterAccept :: "string \<Rightarrow> json \<Rightarrow> Broker \<Rightarrow> Broker" where
  "handleRequesterAccept taskId settings =
     settleRequester taskId (\<lambda>b. let r = sendTaskSettings taskId settings b
        in if snd r then fst r else cancelTask taskId ''Unknown reason'' (fst r))"

definition handleRequesterReject :: "string \<Rightarrow> string \<Rightarrow> Broker \<Rightarrow> Broker" where
  "handleRequesterReject taskId reason = settleRequester taskId (cancelTask taskId reason)"

definition requesterAcceptTimeout :: "string \<Rightarrow> Broker \<Rightarrow> Broker" where
  "requesterAcceptTimeout taskId b =
     (if map_of (b_requesterAcceptRejects b) taskId = Some False
      then cancelTask taskId ''Unknown reason''
             (b\<lparr>b_requesterAcceptRejects := AList.update taskId True (b_requesterAcceptRejects b)\<rparr>)
      else b)"

section \<open>Matching\<close>

definition warnOnTaskTypeMismatch :: "TaskRequest \<Rightarrow> Broker \<Rightarrow> Broker" where
  "warnOnTaskTypeMismatch request b =
     (if b_pendingTaskOffers b = [] \<or> rq_requestId request \<in> set (b_mismatchWarned b) then b
      else b\<lparr>b_mismatchWarned := b_mismatchWarned b @ [rq_requestId request]\<rparr>)"

definition settleRequest :: "(nat \<Rightarrow> string) \<Rightarrow> TaskRequest \<Rightarrow> Broker \<Rightarrow> Broker" where
  "settleRequest nanoid request b =
     (if rq_acceptInProgress request then b
      else case takeOffer (rq_taskType request) (b_pendingTaskOffers b) of
        None \<Rightarrow> warnOnTaskTypeMismatch request b
      | Some (offer, rest) \<Rightarrow>
          acceptOffer nanoid offer request
            ((changeRequest request (\<lambda>r. r\<lparr>rq_acceptInProgress := True\<rparr>) b)
              \<lparr>b_pendingTaskOffers := rest, b_mismatchWarned := removeAll (rq_requestId request) (b_mismatchWarned b)\<rparr>))"

definition settleTasks :: "(nat \<Rightarrow> string) \<Rightarrow> int \<Rightarrow> Broker \<Rightarrow> Broker" where
  "settleTasks nanoid now b =
     (let b' = expireTasks now b in fold (settleRequest nanoid) (b_pendingTaskRequests b') b')"

definition taskRequested :: "(nat \<Rightarrow> string) \<Rightarrow> int \<Rightarrow> TaskRequest \<Rightarrow> Broker \<Rightarrow> Broker" where
  "taskRequested nanoid now request b =
     (if b_isDraining b
      then messageRequester (rq_requesterId request) (RequestExpired (rq_requestId request) ''draining'') b
      else settleTasks nanoid now (b\<lparr>b_pendingTaskRequests := b_pendingTaskRequests b @ [request]\<rparr>))"

definition taskOffered :: "(nat \<Rightarrow> string) \<Rightarrow> int \<Rightarrow> TaskOffer \<Rightarrow> Broker \<Rightarrow> Broker" where
  "taskOffered nanoid now offer b =
     settleTasks nanoid now (b\<lparr>b_pendingTaskOffers := b_pendingTaskOffers b @ [offer]\<rparr>)"

definition startDraining :: "Broker \<Rightarrow> Broker" where
  "startDraining b = b\<lparr>b_isDraining := True\<rparr>"

definition hasActiveTasks :: "Broker \<Rightarrow> bool" where
  "hasActiveTasks b \<longleftrightarrow> length (b_tasks b) > 0"

section \<open>Running tasks\<close>

definition endTask :: "string \<Rightarrow> to_requester \<Rightarrow> Broker \<Rightarrow> Broker" where
  "endTask taskId message b =
     (case map_of (b_tasks b) taskId of None \<Rightarrow> b
      | Some task \<Rightarrow>
          (let b' = messageRequester (ta_requesterId task) message b
           in b'\<lparr>b_tasks := AList.delete (ta_id task) (b_tasks b')\<rparr>))"

definition taskDoneHandler :: "string \<Rightarrow> json \<Rightarrow> Broker \<Rightarrow> Broker" where
  "taskDoneHandler taskId data = endTask taskId (TaskDone taskId data)"

definition taskErrorHandler :: "string \<Rightarrow> task_error \<Rightarrow> Broker \<Rightarrow> Broker" where
  "taskErrorHandler taskId err = endTask taskId (TaskError taskId err)"

text \<open>\<open>mode\<close> is the configured mode of the task runners.\<close>

definition handleTaskTimeout :: "string \<Rightarrow> string \<Rightarrow> Broker \<Rightarrow> Broker" where
  "handleTaskTimeout mode taskId b =
     (case map_of (b_tasks b) taskId of None \<Rightarrow> b
      | Some task \<Rightarrow>
          taskErrorHandler taskId ExecutionTimeout
            (if mode = ''internal'' then sends RunnerTimedOutDuringTask b
             else if mode = ''external'' then messageRunner (ta_runnerId task) (TaskCancel taskId ''Task execution timed out'') b
             else b))"

text \<open>Messages that are passed on to the requester of a task, or to its runner.\<close>

definition relayToRequester :: "string \<Rightarrow> to_requester \<Rightarrow> Broker \<Rightarrow> Broker" where
  "relayToRequester taskId message b =
     (case map_of (b_tasks b) taskId of None \<Rightarrow> b | Some task \<Rightarrow> messageRequester (ta_requesterId task) message b)"

definition handleRpcRequest :: "string \<Rightarrow> string \<Rightarrow> string \<Rightarrow> json \<Rightarrow> Broker \<Rightarrow> Broker" where
  "handleRpcRequest taskId callId name params = relayToRequester taskId (Rpc taskId callId name params)"

definition handleDataRequest :: "string \<Rightarrow> string \<Rightarrow> json \<Rightarrow> Broker \<Rightarrow> Broker" where
  "handleDataRequest taskId requestId requestParams = relayToRequester taskId (TaskDataRequest taskId requestId requestParams)"

definition handleNodeTypesRequest :: "string \<Rightarrow> string \<Rightarrow> json \<Rightarrow> Broker \<Rightarrow> Broker" where
  "handleNodeTypesRequest taskId requestId requestParams = relayToRequester taskId (NodeTypesRequest taskId requestId requestParams)"

text \<open>Nothing calls \<open>handleResponse\<close>; it looks for the requester among the runners.\<close>

definition handleResponse :: "string \<Rightarrow> string \<Rightarrow> json \<Rightarrow> Broker \<Rightarrow> Broker" where
  "handleResponse taskId requestId data b =
     (case map_of (b_tasks b) taskId of None \<Rightarrow> b
      | Some task \<Rightarrow> messageRunner (ta_requesterId task) (TaskDataResponse taskId requestId data) b)"

definition relayToRunner :: "string \<Rightarrow> to_runner \<Rightarrow> Broker \<Rightarrow> Broker" where
  "relayToRunner taskId message b =
     (if map_of (b_tasks b) taskId = None then b
      else let r = getRunnerOrFailTask taskId b
           in case snd r of None \<Rightarrow> fst r | Some runner \<Rightarrow> messageRunner (ru_id runner) message (fst r))"

definition handleRequesterRpcResponse :: "string \<Rightarrow> string \<Rightarrow> string \<Rightarrow> json \<Rightarrow> Broker \<Rightarrow> Broker" where
  "handleRequesterRpcResponse taskId callId status data = relayToRunner taskId (RpcResponse taskId callId status data)"

definition handleRequesterDataResponse :: "string \<Rightarrow> string \<Rightarrow> json \<Rightarrow> Broker \<Rightarrow> Broker" where
  "handleRequesterDataResponse taskId requestId data = relayToRunner taskId (TaskDataResponse taskId requestId data)"

definition handleRequesterNodeTypesResponse :: "string \<Rightarrow> string \<Rightarrow> json \<Rightarrow> Broker \<Rightarrow> Broker" where
  "handleRequesterNodeTypesResponse taskId requestId nodeTypes = relayToRunner taskId (NodeTypesResponse taskId requestId nodeTypes)"

section \<open>Messages\<close>

datatype runner_message =
    RunnerTaskAccepted string
  | RunnerTaskRejected string string
  | RunnerTaskDeferred string
  | RunnerTaskOffer string string int
  | RunnerTaskDone string json
  | RunnerTaskError string json
  | RunnerTaskDataRequest string string json
  | RunnerNodeTypesRequest string string json
  | RunnerRpc string string string json
  | RunnerInfo

definition onRunnerMessage :: "(nat \<Rightarrow> string) \<Rightarrow> int \<Rightarrow> string \<Rightarrow> runner_message \<Rightarrow> Broker \<Rightarrow> Broker" where
  "onRunnerMessage nanoid now runnerId message b =
     (if map_of (b_knownRunners b) runnerId = None then b
      else case message of
        RunnerTaskAccepted taskId \<Rightarrow> handleRunnerAccept taskId b
      | RunnerTaskRejected taskId reason \<Rightarrow> handleRunnerReject taskId b
      | RunnerTaskDeferred taskId \<Rightarrow> handleRunnerDeferred taskId b
      | RunnerTaskOffer taskType offerId validFor \<Rightarrow>
          taskOffered nanoid now
            \<lparr>of_offerId = offerId, of_runnerId = runnerId, of_taskType = taskType, of_validFor = validFor,
             of_validUntil = (if validFor = -1 then 0 else now + validFor * 1000000)\<rparr> b
      | RunnerTaskDone taskId data \<Rightarrow> taskDoneHandler taskId data b
      | RunnerTaskError taskId err \<Rightarrow> taskErrorHandler taskId (TaskFailed err) b
      | RunnerTaskDataRequest taskId requestId requestParams \<Rightarrow> handleDataRequest taskId requestId requestParams b
      | RunnerNodeTypesRequest taskId requestId requestParams \<Rightarrow> handleNodeTypesRequest taskId requestId requestParams b
      | RunnerRpc taskId callId name params \<Rightarrow> handleRpcRequest taskId callId name params b
      | RunnerInfo \<Rightarrow> b)"

datatype requester_message =
    RequesterTaskSettings string json
  | RequesterTaskCancel string string
  | RequesterTaskRequest string string
  | RequesterTaskDataResponse string string json
  | RequesterNodeTypesResponse string string json
  | RequesterRpcResponse string string string json

definition onRequesterMessage :: "(nat \<Rightarrow> string) \<Rightarrow> int \<Rightarrow> string \<Rightarrow> requester_message \<Rightarrow> Broker \<Rightarrow> Broker" where
  "onRequesterMessage nanoid now requesterId message b =
     (case message of
        RequesterTaskSettings taskId settings \<Rightarrow> handleRequesterAccept taskId settings b
      | RequesterTaskCancel taskId reason \<Rightarrow> cancelTask taskId reason b
      | RequesterTaskRequest taskType requestId \<Rightarrow>
          taskRequested nanoid now
            \<lparr>rq_ref = b_nextRef b, rq_requestId = requestId, rq_requesterId = requesterId, rq_taskType = taskType,
             rq_timeout = True, rq_acceptInProgress = False\<rparr> (b\<lparr>b_nextRef := b_nextRef b + 1\<rparr>)
      | RequesterTaskDataResponse taskId requestId data \<Rightarrow> handleRequesterDataResponse taskId requestId data b
      | RequesterNodeTypesResponse taskId requestId nodeTypes \<Rightarrow> handleRequesterNodeTypesResponse taskId requestId nodeTypes b
      | RequesterRpcResponse taskId callId status data \<Rightarrow> handleRequesterRpcResponse taskId callId status data b)"

section \<open>Runs of the broker\<close>

text \<open>What can happen to the broker, and when: a timer fires only while it is set.\<close>

datatype broker_event =
    RegisterRunner TaskRunner
  | DeregisterRunner string string
  | RegisterRequester string
  | DeregisterRequester string
  | RunnerMessage int string runner_message
  | RequesterMessage int string requester_message
  | RequestTimeout string
  | RunnerAcceptTimeout string
  | RequesterAcceptTimeout string
  | TaskTimeout string
  | StartDraining

definition event_enabled :: "broker_event \<Rightarrow> Broker \<Rightarrow> bool" where
  "event_enabled ev b =
     (case ev of
        RequestTimeout requestId \<Rightarrow> list_ex (\<lambda>r. rq_requestId r = requestId \<and> rq_timeout r) (b_pendingTaskRequests b)
      | RunnerAcceptTimeout taskId \<Rightarrow> map_of (b_runnerAcceptRejects b) taskId \<noteq> None
      | RequesterAcceptTimeout taskId \<Rightarrow> map_of (b_requesterAcceptRejects b) taskId \<noteq> None
      | TaskTimeout taskId \<Rightarrow> (case map_of (b_tasks b) taskId of None \<Rightarrow> False | Some task \<Rightarrow> ta_timeout task)
      | _ \<Rightarrow> True)"

definition broker_handle :: "(nat \<Rightarrow> string) \<Rightarrow> string \<Rightarrow> broker_event \<Rightarrow> Broker \<Rightarrow> Broker" where
  "broker_handle nanoid mode ev =
     (case ev of
        RegisterRunner runner \<Rightarrow> registerRunner runner
      | DeregisterRunner runnerId err \<Rightarrow> deregisterRunner runnerId err
      | RegisterRequester requesterId \<Rightarrow> registerRequester requesterId
      | DeregisterRequester requesterId \<Rightarrow> deregisterRequester requesterId
      | RunnerMessage now runnerId message \<Rightarrow> onRunnerMessage nanoid now runnerId message
      | RequesterMessage now requesterId message \<Rightarrow> onRequesterMessage nanoid now requesterId message
      | RequestTimeout requestId \<Rightarrow> handleRequestTimeout requestId
      | RunnerAcceptTimeout taskId \<Rightarrow> runnerAcceptTimeout taskId
      | RequesterAcceptTimeout taskId \<Rightarrow> requesterAcceptTimeout taskId
      | TaskTimeout taskId \<Rightarrow> handleTaskTimeout mode taskId
      | StartDraining \<Rightarrow> startDraining)"

inductive broker_reaches :: "(nat \<Rightarrow> string) \<Rightarrow> string \<Rightarrow> broker_event list \<Rightarrow> Broker \<Rightarrow> bool"
  for nanoid :: "nat \<Rightarrow> string" and mode :: string where
  start: "broker_reaches nanoid mode [] newBroker"
| step: "broker_reaches nanoid mode evs b \<Longrightarrow> event_enabled ev b \<Longrightarrow>
    broker_reaches nanoid mode (evs @ [ev]) (broker_handle nanoid mode ev b)"

end
