(* ===== verification/Broker_Matching.thy ===== *)
theory Broker_Matching
  imports Task_Broker
begin

text \<open>
  Correctness of the task broker over all runs: requests and offers are used at most once, and matching
  leaves no request without the offer it could have.
\<close>

lemma count_list_filter_le: "count_list (map f (filter P xs)) y \<le> count_list (map f xs) y"
  by (induction xs) auto

section \<open>Answers to requests, uses of offers\<close>

fun answer_to :: "broker_output \<Rightarrow> string option" where
  "answer_to (ToRequester _ (TaskReady requestId _)) = Some requestId"
| "answer_to (ToRequester _ (RequestExpired requestId _)) = Some requestId"
| "answer_to _ = None"

fun use_of :: "broker_output \<Rightarrow> string option" where
  "use_of (ToRunner _ (TaskOfferAccept offerId _)) = Some offerId"
| "use_of _ = None"

definition answers :: "string \<Rightarrow> Broker \<Rightarrow> nat" where
  "answers r b = length (filter (\<lambda>m. answer_to m = Some r) (b_sent b))"

definition uses :: "string \<Rightarrow> Broker \<Rightarrow> nat" where
  "uses t b = length (filter (\<lambda>m. use_of m = Some t) (b_sent b))"

definition requests :: "string \<Rightarrow> TaskRequest list \<Rightarrow> nat" where
  "requests r rs = count_list (map rq_requestId rs) r"

definition offers :: "string \<Rightarrow> TaskOffer list \<Rightarrow> nat" where
  "offers t ts = count_list (map of_offerId ts) t"

text \<open>What the events brought in.\<close>

fun request_in :: "broker_event \<Rightarrow> string option" where
  "request_in (RequesterMessage _ _ (RequesterTaskRequest _ requestId)) = Some requestId"
| "request_in _ = None"

fun offer_in :: "broker_event \<Rightarrow> string option" where
  "offer_in (RunnerMessage _ _ (RunnerTaskOffer _ offerId _)) = Some offerId"
| "offer_in _ = None"

definition requested :: "string \<Rightarrow> broker_event list \<Rightarrow> nat" where
  "requested r evs = length (filter (\<lambda>ev. request_in ev = Some r) evs)"

definition offered :: "string \<Rightarrow> broker_event list \<Rightarrow> nat" where
  "offered t evs = length (filter (\<lambda>ev. offer_in ev = Some t) evs)"

text \<open>Answered and pending requests, used and pending offers; a step is \<open>calm\<close> if it adds none of either.\<close>

definition request_load :: "string \<Rightarrow> Broker \<Rightarrow> nat" where
  "request_load r b = answers r b + requests r (b_pendingTaskRequests b)"

definition offer_load :: "string \<Rightarrow> Broker \<Rightarrow> nat" where
  "offer_load t b = uses t b + offers t (b_pendingTaskOffers b)"

definition calm :: "Broker \<Rightarrow> Broker \<Rightarrow> bool" where
  "calm b b' \<longleftrightarrow> (\<forall>r. request_load r b' \<le> request_load r b) \<and> (\<forall>t. offer_load t b' \<le> offer_load t b)"

named_theorems calms \<open>operations of the broker that are calm\<close>

lemma calm_refl [calms]: "calm b b"
  by (simp add: calm_def)

lemma calm_trans: "calm b b1 \<Longrightarrow> calm b1 b2 \<Longrightarrow> calm b b2"
  unfolding calm_def by (meson order_trans)

lemma calm_fold: "(\<And>x b. x \<in> set xs \<Longrightarrow> calm b (f x b)) \<Longrightarrow> calm b (fold f xs b)"
proof (induction xs arbitrary: b)
  case (Cons x xs)
  have "calm b (f x b)" "calm (f x b) (fold f xs (f x b))" using Cons by simp_all
  then show ?case by (simp add: calm_trans)
qed (simp add: calm_refl)

text \<open>Only the messages and the two lists matter.\<close>

lemma calm_cong:
  assumes "b_sent b' = b_sent b" and "map rq_requestId (b_pendingTaskRequests b') = map rq_requestId (b_pendingTaskRequests b)"
    and "b_pendingTaskOffers b' = b_pendingTaskOffers b"
  shows "calm b b'"
  using assms by (simp add: calm_def request_load_def offer_load_def answers_def uses_def requests_def)

lemma sends_fields [simp]:
  "b_pendingTaskRequests (sends m b) = b_pendingTaskRequests b" "b_pendingTaskOffers (sends m b) = b_pendingTaskOffers b"
  "b_tasks (sends m b) = b_tasks b" "b_sent (sends m b) = b_sent b @ [m]"
  by (simp_all add: sends_def)

lemma message_fields [simp]:
  "b_pendingTaskRequests (messageRunner x m b) = b_pendingTaskRequests b"
  "b_pendingTaskOffers (messageRunner x m b) = b_pendingTaskOffers b"
  "b_tasks (messageRunner x m b) = b_tasks b"
  "b_pendingTaskRequests (messageRequester y n b) = b_pendingTaskRequests b"
  "b_pendingTaskOffers (messageRequester y n b) = b_pendingTaskOffers b"
  "b_tasks (messageRequester y n b) = b_tasks b"
  by (simp_all add: messageRunner_def messageRequester_def)

lemma load_sends:
  "request_load r (sends m b) = request_load r b + (if answer_to m = Some r then 1 else 0)"
  "offer_load t (sends m b) = offer_load t b + (if use_of m = Some t then 1 else 0)"
  by (simp_all add: request_load_def offer_load_def answers_def uses_def)

lemma load_messageRunner:
  "request_load r (messageRunner x m b) = request_load r b"
  "offer_load t (messageRunner x m b) \<le> offer_load t b + (if use_of (ToRunner x m) = Some t then 1 else 0)"
  by (auto simp: messageRunner_def load_sends)

lemma load_messageRequester:
  "request_load r (messageRequester x m b) \<le> request_load r b + (if answer_to (ToRequester x m) = Some r then 1 else 0)"
  "offer_load t (messageRequester x m b) = offer_load t b"
  by (auto simp: messageRequester_def load_sends)

lemma calm_messageRunner: "use_of (ToRunner x m) = None \<Longrightarrow> calm b (messageRunner x m b)"
  using load_messageRunner(2) [of _ x m b] by (simp add: calm_def load_messageRunner(1))

lemma calm_messageRequester: "answer_to (ToRequester x m) = None \<Longrightarrow> calm b (messageRequester x m b)"
  using load_messageRequester(1) [of _ x m b] by (simp add: calm_def load_messageRequester(2))

lemma takeRequest_Some:
  "takeRequest i rs = Some (q, rest) \<Longrightarrow> rq_requestId q = i \<and> requests r rs = requests r rest + (if r = i then 1 else 0)"
  by (induction rs arbitrary: q rest) (auto simp: requests_def split: if_splits option.splits)

lemma takeOffer_Some:
  "takeOffer ty ts = Some (u, rest) \<Longrightarrow>
     of_taskType u = ty \<and> u \<in> set ts \<and> set rest \<subseteq> set ts \<and> offers t ts = offers t rest + (if of_offerId u = t then 1 else 0)"
  by (induction ts arbitrary: u rest) (auto simp: offers_def split: if_splits option.splits)

lemma takeOffer_None: "takeOffer ty ts = None \<longleftrightarrow> (\<forall>u \<in> set ts. of_taskType u \<noteq> ty)"
  by (induction ts) (auto split: option.splits)

lemma changeRequest_simps [simp]:
  "b_sent (changeRequest q f b) = b_sent b" "b_pendingTaskOffers (changeRequest q f b) = b_pendingTaskOffers b"
  "b_tasks (changeRequest q f b) = b_tasks b"
  "b_pendingTaskRequests (changeRequest q f b) = map (\<lambda>r. if rq_ref r = rq_ref q then f r else r) (b_pendingTaskRequests b)"
  by (simp_all add: changeRequest_def)

lemma calm_changeRequest: "(\<And>r. rq_requestId (f r) = rq_requestId r) \<Longrightarrow> calm b (changeRequest q f b)"
  by (rule calm_cong) simp_all

text \<open>A request that is answered is taken from the pending ones, and an offer that is used as well.\<close>

lemma calm_answer:
  assumes "takeRequest i (b_pendingTaskRequests b) = Some (u, rest)" and "answer_to (ToRequester x m) = Some i"
    and "b_sent b1 = b_sent b" and "b_pendingTaskRequests b1 = rest" and "b_pendingTaskOffers b1 = b_pendingTaskOffers b"
  shows "calm b (messageRequester x m b1)"
proof -
  have "request_load r (messageRequester x m b1) \<le> request_load r b" for r
    using load_messageRequester(1) [of r x m b1] takeRequest_Some [OF assms(1), of r] assms(2-4)
    by (auto simp: request_load_def answers_def split: if_splits)
  moreover have "offer_load t (messageRequester x m b1) = offer_load t b" for t
    using assms(3,5) by (simp add: load_messageRequester(2)) (simp add: offer_load_def uses_def)
  ultimately show ?thesis by (simp add: calm_def)
qed

lemma calm_use:
  assumes "takeOffer ty (b_pendingTaskOffers b) = Some (u, rest)" and "use_of (ToRunner x m) = Some (of_offerId u)"
    and "b_sent b1 = b_sent b" and "b_pendingTaskOffers b1 = rest"
    and "map rq_requestId (b_pendingTaskRequests b1) = map rq_requestId (b_pendingTaskRequests b)"
  shows "calm b (messageRunner x m b1)"
proof -
  have "offer_load t (messageRunner x m b1) \<le> offer_load t b" for t
    using load_messageRunner(2) [of t x m b1] takeOffer_Some [OF assms(1), of t] assms(2-4)
    by (auto simp: offer_load_def uses_def split: if_splits)
  moreover have "request_load r (messageRunner x m b1) = request_load r b" for r
    using assms(3,5) by (simp add: load_messageRunner(1)) (simp add: request_load_def answers_def requests_def)
  ultimately show ?thesis by (simp add: calm_def)
qed

section \<open>The operations are calm\<close>

lemma calm_cancelTask [calms]: "calm b (cancelTask taskId reason b)"
proof (cases "map_of (b_tasks b) taskId")
  case (Some task)
  have "calm b (b\<lparr>b_tasks := AList.delete taskId (b_tasks b)\<rparr>)" by (rule calm_cong) simp_all
  from calm_trans [OF this calm_messageRunner] Some show ?thesis by (simp add: cancelTask_def)
qed (simp add: cancelTask_def calm_refl)

lemma calm_failTask [calms]: "calm b (failTask taskId err b)"
proof (cases "map_of (b_tasks b) taskId")
  case (Some task)
  have "calm b (b\<lparr>b_tasks := AList.delete taskId (b_tasks b)\<rparr>)" by (rule calm_cong) simp_all
  from calm_trans [OF this calm_messageRequester] Some show ?thesis by (simp add: failTask_def)
qed (simp add: failTask_def calm_refl)

lemma calm_getRunner [calms]: "calm b (fst (getRunnerOrFailTask taskId b))"
  by (simp add: getRunnerOrFailTask_def calms split: option.splits)

lemma calm_runnerRefused: "calm b (runnerRefused why q b)"
  unfolding runnerRefused_def by (rule calm_changeRequest) simp

lemma calm_runnerAccepted: "calm b (runnerAccepted taskId offer q b)"
proof -
  define b' where "b' = (let cleared = changeRequest q (\<lambda>r. r\<lparr>rq_timeout := False\<rparr>) b
    in cleared\<lparr>b_tasks := AList.update taskId \<lparr>ta_id = taskId, ta_runnerId = of_runnerId offer, ta_requesterId = rq_requesterId q,
                  ta_taskType = of_taskType offer, ta_timeout = False\<rparr> (b_tasks cleared)\<rparr>)"
  have b': "calm b b'" by (rule calm_cong) (simp_all add: b'_def Let_def)
  have eq: "runnerAccepted taskId offer q b = (case takeRequest (rq_requestId q) (b_pendingTaskRequests b') of
      None \<Rightarrow> b'
    | Some (_, rest) \<Rightarrow> messageRequester (rq_requesterId q) (TaskReady (rq_requestId q) taskId)
        (b'\<lparr>b_pendingTaskRequests := rest, b_requesterAcceptRejects := AList.update taskId False (b_requesterAcceptRejects b')\<rparr>))"
    by (simp only: runnerAccepted_def b'_def Let_def)
  show ?thesis
  proof (cases "takeRequest (rq_requestId q) (b_pendingTaskRequests b')")
    case None
    with b' eq show ?thesis by simp
  next
    case (Some p)
    obtain u rest where p: "p = (u, rest)" by (cases p)
    have "calm b' (messageRequester (rq_requesterId q) (TaskReady (rq_requestId q) taskId)
        (b'\<lparr>b_pendingTaskRequests := rest, b_requesterAcceptRejects := AList.update taskId False (b_requesterAcceptRejects b')\<rparr>))"
      by (rule calm_answer [OF Some [unfolded p]]) simp_all
    from calm_trans [OF b' this] eq Some p show ?thesis by simp
  qed
qed

text \<open>Settling a promise.\<close>

lemma calm_settleRunner:
  assumes "\<And>offer q b. calm b (continue offer q b)"
  shows "calm b (settleRunner taskId continue b)"
proof (cases "map_of (b_runnerAcceptRejects b) taskId")
  case (Some p)
  obtain offer q settled where p: "p = (offer, q, settled)" by (cases p)
  have "calm b (b\<lparr>b_runnerAcceptRejects := AList.delete taskId (b_runnerAcceptRejects b)\<rparr>)" by (rule calm_cong) simp_all
  from this calm_trans [OF this assms] Some p show ?thesis by (simp add: settleRunner_def Let_def)
qed (simp add: settleRunner_def calm_refl)

lemma calm_settleRequester:
  assumes "\<And>b. calm b (continue b)"
  shows "calm b (settleRequester taskId continue b)"
proof (cases "map_of (b_requesterAcceptRejects b) taskId")
  case (Some settled)
  have "calm b (b\<lparr>b_requesterAcceptRejects := AList.delete taskId (b_requesterAcceptRejects b)\<rparr>)" by (rule calm_cong) simp_all
  from this calm_trans [OF this assms] Some show ?thesis by (simp add: settleRequester_def Let_def)
qed (simp add: settleRequester_def calm_refl)

lemma calm_handshake [calms]:
  "calm b (handleRunnerAccept taskId b)" "calm b (handleRunnerReject taskId b)" "calm b (handleRunnerDeferred taskId b)"
  unfolding handleRunnerAccept_def handleRunnerReject_def handleRunnerDeferred_def
  by (intro calm_settleRunner calm_runnerAccepted calm_runnerRefused)+

lemma calm_runnerAcceptTimeout [calms]: "calm b (runnerAcceptTimeout taskId b)"
proof -
  have "calm b (b\<lparr>b_runnerAcceptRejects := m\<rparr>)" for m by (rule calm_cong) simp_all
  from calm_trans [OF this calm_runnerRefused] show ?thesis
    by (simp add: runnerAcceptTimeout_def calm_refl split: option.splits bool.splits)
qed

lemma calm_sendTaskSettings: "calm b (fst (sendTaskSettings taskId settings b))"
proof -
  let ?r = "getRunnerOrFailTask taskId b"
  have "calm (fst ?r) ((fst ?r)\<lparr>b_tasks := m\<rparr>)" for m by (rule calm_cong) simp_all
  from calm_trans [OF this calm_messageRunner]
  have "calm (fst ?r) (messageRunner x (TaskSettings taskId settings) ((fst ?r)\<lparr>b_tasks := m\<rparr>))" for x m by simp
  from calm_trans [OF calm_getRunner this] show ?thesis
    by (simp add: sendTaskSettings_def Let_def calms split: option.splits)
qed

lemma calm_requester [calms]:
  "calm b (handleRequesterAccept taskId settings b)" "calm b (handleRequesterReject taskId reason b)"
  unfolding handleRequesterAccept_def handleRequesterReject_def
  by (intro calm_settleRequester; simp add: Let_def calm_sendTaskSettings calm_trans [OF calm_sendTaskSettings calm_cancelTask] calms)+

lemma calm_requesterAcceptTimeout [calms]: "calm b (requesterAcceptTimeout taskId b)"
proof -
  have "calm b (b\<lparr>b_requesterAcceptRejects := m\<rparr>)" for m by (rule calm_cong) simp_all
  from calm_trans [OF this calm_cancelTask] show ?thesis by (simp add: requesterAcceptTimeout_def calm_refl)
qed

lemma calm_endTask: "(\<And>x. answer_to (ToRequester x m) = None) \<Longrightarrow> calm b (endTask taskId m b)"
proof (cases "map_of (b_tasks b) taskId")
  case (Some task)
  assume m: "\<And>x. answer_to (ToRequester x m) = None"
  let ?b = "messageRequester (ta_requesterId task) m b"
  have "calm ?b (?b\<lparr>b_tasks := AList.delete (ta_id task) (b_tasks ?b)\<rparr>)" by (rule calm_cong) simp_all
  from calm_trans [OF calm_messageRequester [OF m] this] Some show ?thesis by (simp add: endTask_def Let_def)
qed (simp add: endTask_def calm_refl)

lemma calm_taskHandlers [calms]:
  "calm b (taskDoneHandler taskId data b)" "calm b (taskErrorHandler taskId err b)"
  unfolding taskDoneHandler_def taskErrorHandler_def by (intro calm_endTask; simp)+

lemma calm_handleTaskTimeout [calms]: "calm b (handleTaskTimeout mode taskId b)"
proof -
  have "calm b (sends RunnerTimedOutDuringTask b)" by (simp add: calm_def load_sends)
  moreover have "calm b (messageRunner x (TaskCancel taskId reason) b)" for x reason by (simp add: calm_messageRunner)
  ultimately show ?thesis
    by (auto simp: handleTaskTimeout_def calm_refl split: option.splits intro: calm_trans [OF _ calm_taskHandlers(2)])
qed

lemma calm_relayToRequester: "(\<And>x. answer_to (ToRequester x m) = None) \<Longrightarrow> calm b (relayToRequester taskId m b)"
  by (simp add: relayToRequester_def calm_refl calm_messageRequester split: option.splits)

lemma calm_relayToRunner: "(\<And>x. use_of (ToRunner x m) = None) \<Longrightarrow> calm b (relayToRunner taskId m b)"
  using calm_trans [OF calm_getRunner calm_messageRunner, of _ m b taskId]
  by (simp add: relayToRunner_def Let_def calms split: option.splits)

lemma calm_relays [calms]:
  "calm b (handleRpcRequest taskId callId name params b)" "calm b (handleDataRequest taskId i d b)"
  "calm b (handleNodeTypesRequest taskId i d b)" "calm b (handleRequesterRpcResponse taskId callId status d b)"
  "calm b (handleRequesterDataResponse taskId i d b)" "calm b (handleRequesterNodeTypesResponse taskId i d b)"
  unfolding handleRpcRequest_def handleDataRequest_def handleNodeTypesRequest_def handleRequesterRpcResponse_def
    handleRequesterDataResponse_def handleRequesterNodeTypesResponse_def
  by (simp_all add: calm_relayToRequester calm_relayToRunner)

lemma calm_handleRequestTimeout [calms]: "calm b (handleRequestTimeout requestId b)"
proof (cases "takeRequest requestId (b_pendingTaskRequests b)")
  case (Some p)
  obtain u rest where p: "p = (u, rest)" by (cases p)
  with Some takeRequest_Some have "rq_requestId u = requestId" by blast
  then show ?thesis using Some p
    by (auto simp: handleRequestTimeout_def intro!: calm_answer [where i = requestId and u = u and rest = rest])
qed (simp add: handleRequestTimeout_def calm_refl)

lemma calm_deregisterRunner [calms]: "calm b (deregisterRunner runnerId err b)"
proof -
  have "calm b (b\<lparr>b_knownRunners := m, b_pendingTaskOffers := filter P (b_pendingTaskOffers b)\<rparr>)" for m P
    by (simp add: calm_def request_load_def offer_load_def answers_def uses_def offers_def)
      (meson count_list_filter_le)
  moreover have "calm b' (handleRunnerReject (ta_id task) (failTask (ta_id task) (Disconnected err) b'))" for task b'
    by (rule calm_trans [OF calm_failTask calm_handshake(2)])
  ultimately show ?thesis unfolding deregisterRunner_def by (intro calm_trans [OF _ calm_fold])
qed

lemma calm_register [calms]:
  "calm b (registerRunner runner b)" "calm b (registerRequester x b)" "calm b (deregisterRequester x b)" "calm b (startDraining b)"
proof -
  have "calm b (b\<lparr>b_knownRunners := m\<rparr>)" for m by (rule calm_cong) simp_all
  from calm_trans [OF this calm_messageRunner] show "calm b (registerRunner runner b)" by (simp add: registerRunner_def)
qed (simp_all add: registerRequester_def deregisterRequester_def startDraining_def calm_cong)

section \<open>Matching is calm\<close>

lemma calm_settleRequest: "calm b (settleRequest nanoid q b)"
proof (cases "rq_acceptInProgress q")
  case False
  show ?thesis
  proof (cases "takeOffer (rq_taskType q) (b_pendingTaskOffers b)")
    case None
    with False show ?thesis by (simp add: settleRequest_def warnOnTaskTypeMismatch_def calm_refl calm_cong)
  next
    case (Some p)
    obtain u rest where "p = (u, rest)" by (cases p)
    with Some False show ?thesis
      unfolding settleRequest_def acceptOffer_def Let_def
      by (auto intro!: calm_use [where ty = "rq_taskType q" and u = u and rest = rest])
  qed
qed (simp add: settleRequest_def calm_refl)

lemma calm_settleTasks: "calm b (settleTasks nanoid now b)"
proof -
  have "calm b (expireTasks now b)"
    by (simp add: expireTasks_def calm_def request_load_def offer_load_def answers_def uses_def offers_def)
      (meson count_list_filter_le)
  then show ?thesis unfolding settleTasks_def Let_def by (rule calm_trans [OF _ calm_fold]) (rule calm_settleRequest)
qed

text \<open>Every event but a new request or a new offer is calm; those add one.\<close>

lemma handle_load:
  "request_load r (broker_handle nanoid mode ev b) \<le> request_load r b + (if request_in ev = Some r then 1 else 0) \<and>
   offer_load t (broker_handle nanoid mode ev b) \<le> offer_load t b + (if offer_in ev = Some t then 1 else 0)"
proof -
  have step: "request_load r b' \<le> request_load r b \<and> offer_load t b' \<le> offer_load t b" if "calm b b'" for b b'
    using that by (simp add: calm_def)
  consider now x ty i where "ev = RequesterMessage now x (RequesterTaskRequest ty i)"
    | now x ty i v where "ev = RunnerMessage now x (RunnerTaskOffer ty i v)"
    | "calm b (broker_handle nanoid mode ev b)"
  proof (cases ev)
    case (RunnerMessage now x m)
    then show thesis using that(2) by (cases m) (auto intro!: that(3) simp: broker_handle_def onRunnerMessage_def calms)
  next
    case (RequesterMessage now x m)
    then show thesis using that(1) by (cases m) (auto intro!: that(3) simp: broker_handle_def onRequesterMessage_def calms)
  qed (auto intro!: that(3) simp: broker_handle_def calms)
  then show ?thesis
  proof cases
    case 1
    let ?q = "\<lparr>rq_ref = b_nextRef b, rq_requestId = i, rq_requesterId = x, rq_taskType = ty, rq_timeout = True, rq_acceptInProgress = False\<rparr>"
    let ?b = "b\<lparr>b_nextRef := b_nextRef b + 1\<rparr>"
    have b: "request_load r ?b = request_load r b" "offer_load t ?b = offer_load t b"
      by (simp_all add: request_load_def offer_load_def answers_def uses_def)
    have new: "request_load r (?b\<lparr>b_pendingTaskRequests := b_pendingTaskRequests ?b @ [?q]\<rparr>) = request_load r b + (if i = r then 1 else 0)"
      "offer_load t (?b\<lparr>b_pendingTaskRequests := b_pendingTaskRequests ?b @ [?q]\<rparr>) = offer_load t b"
      by (simp_all add: request_load_def offer_load_def answers_def uses_def requests_def)
    show ?thesis
      using load_messageRequester(1) [of r x "RequestExpired i ''draining''" ?b]
        load_messageRequester(2) [of t x "RequestExpired i ''draining''" ?b] b new
        step [OF calm_settleTasks [where b = "?b\<lparr>b_pendingTaskRequests := b_pendingTaskRequests ?b @ [?q]\<rparr>" and nanoid = nanoid and now = now]]
      by (auto simp: 1 broker_handle_def onRequesterMessage_def taskRequested_def)
  next
    case 2
    let ?b = "\<lambda>u. b\<lparr>b_pendingTaskOffers := b_pendingTaskOffers b @ [u]\<rparr>"
    have new: "offer_load t (?b u) = offer_load t b + (if of_offerId u = t then 1 else 0)" "request_load r (?b u) = request_load r b" for u
      by (simp_all add: request_load_def offer_load_def answers_def uses_def offers_def)
    show ?thesis
      using step [OF calm_settleTasks [where b = "?b \<lparr>of_offerId = i, of_runnerId = x, of_taskType = ty, of_validFor = v,
          of_validUntil = if v = -1 then 0 else now + v * 1000000\<rparr>" and nanoid = nanoid and now = now]] new
      by (auto simp: 2 broker_handle_def onRunnerMessage_def taskOffered_def)
  next
    case 3
    from step [OF this] show ?thesis by auto
  qed
qed

lemma broker_load:
  "broker_reaches nanoid mode evs b \<Longrightarrow> request_load r b \<le> requested r evs \<and> offer_load t b \<le> offered t evs"
proof (induction rule: broker_reaches.induct)
  case start
  then show ?case
    by (simp add: request_load_def offer_load_def answers_def uses_def requests_def offers_def newBroker_def)
next
  case (step evs b ev)
  with handle_load [of r nanoid mode ev b t] show ?case by (auto simp: requested_def offered_def)
qed

text \<open>
  C6: in every run of the broker, a request is answered at most as often as it was made, be it with a
  task that is ready or with the news that it expired, and an offer is accepted at most as often as it was
  made. What is still pending counts too: a request that waits has an answer left.
\<close>

theorem broker_answers_once:
  assumes "broker_reaches nanoid mode evs b"
  shows "answers r b + requests r (b_pendingTaskRequests b) \<le> requested r evs \<and>
    uses t b + offers t (b_pendingTaskOffers b) \<le> offered t evs"
  using broker_load [OF assms] by (simp add: request_load_def offer_load_def)

section \<open>Matching leaves nothing to match\<close>

lemma acceptOffer_fields [simp]:
  "b_pendingTaskRequests (acceptOffer nanoid u q b) = b_pendingTaskRequests b"
  "b_pendingTaskOffers (acceptOffer nanoid u q b) = b_pendingTaskOffers b"
  by (simp_all add: acceptOffer_def Let_def)

text \<open>The pending requests after a step of the matching: some of them are marked.\<close>

definition marks :: "TaskRequest list \<Rightarrow> TaskRequest list \<Rightarrow> bool" where
  "marks = list_all2 (\<lambda>q q'. q' = q \<or> q' = q\<lparr>rq_acceptInProgress := True\<rparr>)"

lemma marks_refl [simp]: "marks qs qs"
  by (simp add: marks_def list_all2_same)

lemma marks_trans: "marks ps qs \<Longrightarrow> marks qs rs \<Longrightarrow> marks ps rs"
  unfolding marks_def by (rule list_all2_trans) auto

lemma marks_map: "marks qs (map (\<lambda>q. if P q then q\<lparr>rq_acceptInProgress := True\<rparr> else q) qs)"
  by (simp add: marks_def list_all2_map2 list_all2_same)

lemma settleRequest_step:
  "marks (b_pendingTaskRequests b) (b_pendingTaskRequests (settleRequest nanoid q b)) \<and>
   set (b_pendingTaskOffers (settleRequest nanoid q b)) \<subseteq> set (b_pendingTaskOffers b) \<and>
   (rq_acceptInProgress q \<or>
    (\<forall>p \<in> set (b_pendingTaskRequests (settleRequest nanoid q b)). rq_ref p = rq_ref q \<longrightarrow> rq_acceptInProgress p) \<or>
    (\<forall>u \<in> set (b_pendingTaskOffers (settleRequest nanoid q b)). of_taskType u \<noteq> rq_taskType q))"
proof (cases "takeOffer (rq_taskType q) (b_pendingTaskOffers b)")
  case None
  with takeOffer_None [of "rq_taskType q" "b_pendingTaskOffers b"] show ?thesis by (simp add: settleRequest_def warnOnTaskTypeMismatch_def)
next
  case (Some p)
  obtain u rest where "p = (u, rest)" by (cases p)
  with Some takeOffer_Some [of "rq_taskType q" "b_pendingTaskOffers b" u rest] show ?thesis
    by (auto simp: settleRequest_def marks_map)
qed

lemma marks_progress: "marks qs qs' \<Longrightarrow> (\<forall>q \<in> set qs. rq_ref q = i \<longrightarrow> rq_acceptInProgress q) \<Longrightarrow>
    (\<forall>q \<in> set qs'. rq_ref q = i \<longrightarrow> rq_acceptInProgress q)"
  unfolding marks_def by (induction rule: list_all2_induct) auto

lemma settle_fold:
  "let b' = fold (settleRequest nanoid) qs b
   in marks (b_pendingTaskRequests b) (b_pendingTaskRequests b') \<and> set (b_pendingTaskOffers b') \<subseteq> set (b_pendingTaskOffers b) \<and>
      (\<forall>q \<in> set qs. rq_acceptInProgress q \<or>
         (\<forall>p \<in> set (b_pendingTaskRequests b'). rq_ref p = rq_ref q \<longrightarrow> rq_acceptInProgress p) \<or>
         (\<forall>u \<in> set (b_pendingTaskOffers b'). of_taskType u \<noteq> rq_taskType q))"
proof (induction qs arbitrary: b)
  case (Cons q qs)
  let ?b = "settleRequest nanoid q b"
  note s = settleRequest_step [of b nanoid q]
  note t = Cons.IH [of ?b, unfolded Let_def]
  from s t have "marks (b_pendingTaskRequests b) (b_pendingTaskRequests (fold (settleRequest nanoid) qs ?b))"
    using marks_trans by blast
  moreover from s t have "set (b_pendingTaskOffers (fold (settleRequest nanoid) qs ?b)) \<subseteq> set (b_pendingTaskOffers b)" by blast
  moreover from s t marks_progress [of "b_pendingTaskRequests ?b" "b_pendingTaskRequests (fold (settleRequest nanoid) qs ?b)" "rq_ref q"]
  have "rq_acceptInProgress q \<or>
      (\<forall>p \<in> set (b_pendingTaskRequests (fold (settleRequest nanoid) qs ?b)). rq_ref p = rq_ref q \<longrightarrow> rq_acceptInProgress p) \<or>
      (\<forall>u \<in> set (b_pendingTaskOffers (fold (settleRequest nanoid) qs ?b)). of_taskType u \<noteq> rq_taskType q)" by blast
  ultimately show ?case using t by (simp add: Let_def)
qed simp

lemma marks_member: "marks qs qs' \<Longrightarrow> q' \<in> set qs' \<Longrightarrow> \<exists>q \<in> set qs. q' = q \<or> q' = q\<lparr>rq_acceptInProgress := True\<rparr>"
  unfolding marks_def by (induction rule: list_all2_induct) auto

lemma marks_ids: "marks qs qs' \<Longrightarrow> map rq_requestId qs' = map rq_requestId qs"
  unfolding marks_def by (induction rule: list_all2_induct) auto

text \<open>
  C21: after the matching, no pending request that is free has a pending offer of its type; the
  requests stay in their order, and no expired offer is left or was used.
\<close>

theorem settleTasks_maximal:
  assumes "b' = settleTasks nanoid now b"
  shows "(\<forall>q u. q \<in> set (b_pendingTaskRequests b') \<and> u \<in> set (b_pendingTaskOffers b') \<and> of_taskType u = rq_taskType q
      \<longrightarrow> rq_acceptInProgress q) \<and>
    map rq_requestId (b_pendingTaskRequests b') = map rq_requestId (b_pendingTaskRequests b) \<and>
    set (b_pendingTaskOffers b') \<subseteq> {u \<in> set (b_pendingTaskOffers b). of_validFor u = -1 \<or> now \<le> of_validUntil u}"
proof -
  let ?e = "expireTasks now b"
  have b': "b' = fold (settleRequest nanoid) (b_pendingTaskRequests ?e) ?e" using assms by (simp add: settleTasks_def Let_def)
  note s = settle_fold [of nanoid "b_pendingTaskRequests ?e" ?e, unfolded Let_def, folded b']
  have e: "b_pendingTaskRequests ?e = b_pendingTaskRequests b"
    "set (b_pendingTaskOffers ?e) \<subseteq> {u \<in> set (b_pendingTaskOffers b). of_validFor u = -1 \<or> now \<le> of_validUntil u}"
    by (auto simp: expireTasks_def)
  have "rq_acceptInProgress q" if q: "q \<in> set (b_pendingTaskRequests b')" "u \<in> set (b_pendingTaskOffers b')" "of_taskType u = rq_taskType q" for q u
  proof -
    obtain p where p: "p \<in> set (b_pendingTaskRequests ?e)" "q = p \<or> q = p\<lparr>rq_acceptInProgress := True\<rparr>"
      using marks_member [of _ "b_pendingTaskRequests b'" q] s q(1) by blast
    then have same: "rq_ref q = rq_ref p" "rq_taskType q = rq_taskType p" "rq_acceptInProgress p \<Longrightarrow> rq_acceptInProgress q" by auto
    from s p(1) have "rq_acceptInProgress p \<or>
        (\<forall>p' \<in> set (b_pendingTaskRequests b'). rq_ref p' = rq_ref p \<longrightarrow> rq_acceptInProgress p') \<or>
        (\<forall>u \<in> set (b_pendingTaskOffers b'). of_taskType u \<noteq> rq_taskType p)" by blast
    then show ?thesis using q same by auto
  qed
  then show ?thesis using s e marks_ids [of "b_pendingTaskRequests b" "b_pendingTaskRequests b'"] by auto
qed

section \<open>A run of the broker\<close>

text \<open>A runner offers, a requester asks, the request expires while the runner is asked, and then the runner accepts.\<close>

fun handle_all :: "(nat \<Rightarrow> string) \<Rightarrow> string \<Rightarrow> broker_event list \<Rightarrow> Broker \<Rightarrow> Broker option" where
  "handle_all nanoid mode [] b = Some b"
| "handle_all nanoid mode (ev # evs) b =
     (if event_enabled ev b then handle_all nanoid mode evs (broker_handle nanoid mode ev b) else None)"

lemma handle_all_reaches:
  assumes "broker_reaches nanoid mode evs b" and "handle_all nanoid mode evs' b = Some b'"
  shows "broker_reaches nanoid mode (evs @ evs') b'"
  using assms
proof (induction evs' arbitrary: evs b)
  case (Cons ev evs')
  then have "event_enabled ev b" and r: "handle_all nanoid mode evs' (broker_handle nanoid mode ev b) = Some b'"
    by (auto split: if_splits)
  with Cons.prems(1) have "broker_reaches nanoid mode (evs @ [ev]) (broker_handle nanoid mode ev b)" by (simp add: broker_reaches.step)
  from Cons.IH [OF this r] show ?case by simp
qed simp

definition ex_asked :: "broker_event list" where
  "ex_asked =
     [RegisterRunner \<lparr>ru_id = ''R'', ru_taskTypes = [''js'']\<rparr>, RegisterRequester ''Q'',
      RunnerMessage 0 ''R'' (RunnerTaskOffer ''js'' ''o'' 5000), RequesterMessage 1 ''Q'' (RequesterTaskRequest ''js'' ''r'')]"

definition ex_broker :: "broker_event list \<Rightarrow> Broker" where
  "ex_broker evs = the (handle_all nat_str ''internal'' evs newBroker)"

lemma ex_broker_reaches:
  assumes "handle_all nat_str ''internal'' evs newBroker \<noteq> None"
  shows "broker_reaches nat_str ''internal'' evs (ex_broker evs)"
  using handle_all_reaches [OF broker_reaches.start, of nat_str "''internal''" evs "ex_broker evs"] assms by (auto simp: ex_broker_def)

theorem broker_answers_once_witness:
  "answers ''r'' (ex_broker (ex_asked @ [RequestTimeout ''r''])) = 1 \<and> uses ''o'' (ex_broker (ex_asked @ [RequestTimeout ''r''])) = 1"
proof -
  have run: "handle_all nat_str ''internal'' (ex_asked @ [RequestTimeout ''r'']) newBroker \<noteq> None" by code_simp
  have counts: "requested ''r'' (ex_asked @ [RequestTimeout ''r'']) = 1" "offered ''o'' (ex_asked @ [RequestTimeout ''r'']) = 1" by code_simp+
  have "answers ''r'' (ex_broker (ex_asked @ [RequestTimeout ''r''])) \<ge> 1" "uses ''o'' (ex_broker (ex_asked @ [RequestTimeout ''r''])) \<ge> 1"
    by code_simp+
  then show ?thesis using broker_answers_once [OF ex_broker_reaches [OF run], of "''r''" "''o''"] counts by linarith
qed

theorem settleTasks_maximal_witness:
  "map rq_requestId (b_pendingTaskRequests (settleTasks nat_str 5 (ex_broker ex_asked))) = [''r'']"
proof -
  have "map rq_requestId (b_pendingTaskRequests (ex_broker ex_asked)) = [''r'']" by code_simp
  then show ?thesis using settleTasks_maximal [OF refl, of nat_str 5 "ex_broker ex_asked"] by simp
qed

text \<open>
  C28: a runner that accepts a task after its request has expired leaves a task behind that nobody waits
  for: it is kept among the active tasks, neither side is told, and no timer is set to end it.
\<close>

theorem late_accept_leaks_task:
  assumes "map_of (b_runnerAcceptRejects b) taskId = Some (offer, request, False)"
    and "takeRequest (rq_requestId request) (b_pendingTaskRequests b) = None"
    and "b' = handleRunnerAccept taskId b"
  shows "(\<exists>task. map_of (b_tasks b') taskId = Some task \<and> \<not> ta_timeout task) \<and> hasActiveTasks b' \<and>
    b_sent b' = b_sent b \<and> map_of (b_runnerAcceptRejects b') taskId = None \<and>
    b_requesterAcceptRejects b' = b_requesterAcceptRejects b"
proof -
  have none: "takeRequest i (map (\<lambda>r. if P r then r\<lparr>rq_timeout := False\<rparr> else r) rs) = None" if "takeRequest i rs = None" for i P rs
    using that by (induction rs) (auto split: if_splits option.splits)
  show ?thesis
    using assms none [OF assms(2), of "\<lambda>r. rq_ref r = rq_ref request"]
    by (auto simp: handleRunnerAccept_def settleRunner_def runnerAccepted_def Let_def changeRequest_def update_conv' hasActiveTasks_def)
qed

theorem late_accept_leaks_task_witness:
  "hasActiveTasks (handleRunnerAccept ''0'' (ex_broker (ex_asked @ [RequestTimeout ''r'']))) \<and>
   b_sent (handleRunnerAccept ''0'' (ex_broker (ex_asked @ [RequestTimeout ''r'']))) =
     b_sent (ex_broker (ex_asked @ [RequestTimeout ''r'']))"
proof -
  let ?b = "ex_broker (ex_asked @ [RequestTimeout ''r''])"
  let ?p = "the (map_of (b_runnerAcceptRejects ?b) ''0'')"
  have "map_of (b_runnerAcceptRejects ?b) ''0'' = Some (fst ?p, fst (snd ?p), False)"
    "takeRequest (rq_requestId (fst (snd ?p))) (b_pendingTaskRequests ?b) = None" by code_simp+
  from late_accept_leaks_task [OF this refl] show ?thesis by simp
qed

text \<open>A runner that refuses leaves its request free; although another runner has offered a task of that type, the
  two are not matched before something else happens.\<close>

lemma refused_request_waits:
  "let b = ex_broker ([RegisterRunner \<lparr>ru_id = ''S'', ru_taskTypes = [''js'']\<rparr>] @ ex_asked @
        [RunnerMessage 2 ''S'' (RunnerTaskOffer ''js'' ''p'' (-1)), RunnerMessage 3 ''R'' (RunnerTaskRejected ''0'' ''busy'')])
   in map (\<lambda>q. (rq_taskType q, rq_acceptInProgress q)) (b_pendingTaskRequests b) = [(''js'', False)] \<and>
      map of_taskType (b_pendingTaskOffers b) = [''js'']"
  by code_simp

end
