(* ===== verification/Directed_Graph.thy ===== *)
theory Directed_Graph
  imports N8n_Types
begin

text \<open>
  The class \<open>DirectedGraph\<close> of
  \<open>packages/core/src/execution-engine/partial-execution-utils/directed-graph.ts\<close>: its two
  maps, every method that reads or changes them, and the well-formedness the other parts of
  partial execution rely on (a connection is stored under its own key and joins two nodes
  of the graph). The strongly connected components are in \<open>Strong_Components\<close>.
\<close>

section \<open>The state\<close>

record GraphConnection =
  gc_from :: INode
  gc_to :: INode
  gc_type :: string
  gc_outputIndex :: nat
  gc_inputIndex :: nat

record DirectedGraph =
  dg_nodes :: "(string, INode) dict"
  dg_connections :: "(string, GraphConnection) dict"

definition new_graph :: DirectedGraph where
  "new_graph = \<lparr>dg_nodes = [], dg_connections = []\<rparr>"

definition makeKey :: "GraphConnection \<Rightarrow> string" where
  "makeKey c = n_name (gc_from c) @ CHR ''-'' # gc_type c @ CHR ''-'' # nat_str (gc_outputIndex c)
     @ CHR ''-'' # nat_str (gc_inputIndex c) @ CHR ''-'' # n_name (gc_to c)"

section \<open>Queries and updates\<close>

definition hasNode :: "DirectedGraph \<Rightarrow> string \<Rightarrow> bool" where
  "hasNode g nodeName \<longleftrightarrow> map_of (dg_nodes g) nodeName \<noteq> None"

definition getNodes :: "DirectedGraph \<Rightarrow> (string, INode) dict" where
  "getNodes g = dg_nodes g"

definition getNodesByNames :: "DirectedGraph \<Rightarrow> string list \<Rightarrow> INode list" where
  "getNodesByNames g names =
     fold (\<lambda>nm nodes. case map_of (dg_nodes g) nm of None \<Rightarrow> nodes | Some node \<Rightarrow> set_add node nodes)
       names []"

definition getConnections :: "DirectedGraph \<Rightarrow> INode option \<Rightarrow> GraphConnection list" where
  "getConnections g to =
     filter (\<lambda>c. case to of None \<Rightarrow> True | Some n \<Rightarrow> gc_to c = n) (map snd (dg_connections g))"

definition addNode :: "INode \<Rightarrow> DirectedGraph \<Rightarrow> DirectedGraph" where
  "addNode node g = g\<lparr>dg_nodes := AList.update (n_name node) node (dg_nodes g)\<rparr>"

definition addNodes :: "INode list \<Rightarrow> DirectedGraph \<Rightarrow> DirectedGraph" where
  "addNodes nodes g = fold addNode nodes g"

text \<open>\<open>this.nodes.get(node.name) === node\<close>\<close>

definition nodeExists :: "DirectedGraph \<Rightarrow> INode \<Rightarrow> bool" where
  "nodeExists g node \<longleftrightarrow> map_of (dg_nodes g) (n_name node) = Some node"

record ConnectionInput =
  ci_from :: INode
  ci_to :: INode
  ci_type :: "string option"
  ci_outputIndex :: "nat option"
  ci_inputIndex :: "nat option"

definition or_default :: "'a \<Rightarrow> 'a option \<Rightarrow> 'a" where
  "or_default d x = (case x of None \<Rightarrow> d | Some v \<Rightarrow> v)"

definition addConnection :: "ConnectionInput \<Rightarrow> DirectedGraph \<Rightarrow> DirectedGraph result" where
  "addConnection ci g =
     (if \<not> nodeExists g (ci_from ci) then Inl AssertionError
      else if \<not> nodeExists g (ci_to ci) then Inl AssertionError
      else let connection = \<lparr>gc_from = ci_from ci, gc_to = ci_to ci,
                 gc_type = or_default Main (ci_type ci),
                 gc_outputIndex = or_default 0 (ci_outputIndex ci),
                 gc_inputIndex = or_default 0 (ci_inputIndex ci)\<rparr>
           in Inr (g\<lparr>dg_connections :=
                AList.update (makeKey connection) connection (dg_connections g)\<rparr>))"

definition addConnections :: "ConnectionInput list \<Rightarrow> DirectedGraph \<Rightarrow> DirectedGraph result" where
  "addConnections cis g = res_fold addConnection cis g"

text \<open>A stored connection passed back to \<open>addConnection\<close>.\<close>

definition as_input :: "GraphConnection \<Rightarrow> ConnectionInput" where
  "as_input c = \<lparr>ci_from = gc_from c, ci_to = gc_to c, ci_type = Some (gc_type c),
     ci_outputIndex = Some (gc_outputIndex c), ci_inputIndex = Some (gc_inputIndex c)\<rparr>"

definition getDirectChildConnections :: "DirectedGraph \<Rightarrow> INode \<Rightarrow> GraphConnection list result" where
  "getDirectChildConnections g node =
     (if nodeExists g node then Inr (filter (\<lambda>c. gc_from c = node) (map snd (dg_connections g)))
      else Inl AssertionError)"

definition getDirectParentConnections :: "DirectedGraph \<Rightarrow> INode \<Rightarrow> GraphConnection list result" where
  "getDirectParentConnections g node =
     (if nodeExists g node then Inr (filter (\<lambda>c. gc_to c = node) (map snd (dg_connections g)))
      else Inl AssertionError)"

definition getConnection ::
    "DirectedGraph \<Rightarrow> INode \<Rightarrow> nat \<Rightarrow> string \<Rightarrow> nat \<Rightarrow> INode \<Rightarrow> GraphConnection option" where
  "getConnection g from outputIndex type inputIndex to =
     map_of (dg_connections g)
       (makeKey \<lparr>gc_from = from, gc_to = to, gc_type = type, gc_outputIndex = outputIndex,
                 gc_inputIndex = inputIndex\<rparr>)"

text \<open>
  \<open>removeNode\<close>: the first component is the list of new connections when they were asked
  for. \<open>skip\<close> is \<open>options.skipConnectionFn\<close>, constantly false when it is absent.
\<close>

definition reconnected ::
    "(GraphConnection \<Rightarrow> bool) \<Rightarrow> GraphConnection list \<Rightarrow> GraphConnection list \<Rightarrow> GraphConnection list" where
  "reconnected skip incoming outgoing =
     concat (map (\<lambda>i. if skip i then [] else
       concat (map (\<lambda>out. if skip out then [] else
         [i\<lparr>gc_to := gc_to out, gc_inputIndex := gc_inputIndex out\<rparr>]) outgoing)) incoming)"

definition drop_node :: "INode \<Rightarrow> (string, GraphConnection) dict \<Rightarrow> (string, GraphConnection) dict" where
  "drop_node node conns = filter (\<lambda>(_, c). \<not> (gc_to c = node \<or> gc_from c = node)) conns"

definition removeNode ::
    "INode \<Rightarrow> bool \<Rightarrow> (GraphConnection \<Rightarrow> bool) \<Rightarrow> DirectedGraph
       \<Rightarrow> (GraphConnection list option \<times> DirectedGraph) result" where
  "removeNode node reconnectConnections skip g =
     (if reconnectConnections then
        res_bind (getDirectParentConnections g node) (\<lambda>incoming.
        res_bind (getDirectChildConnections g node) (\<lambda>outgoing.
          let newConnections = reconnected skip incoming outgoing in
          Inr (Some newConnections,
            g\<lparr>dg_connections := fold (\<lambda>c. AList.update (makeKey c) c) newConnections
                 (drop_node node (dg_connections g)),
              dg_nodes := AList.delete (n_name node) (dg_nodes g)\<rparr>)))
      else Inr (None, g\<lparr>dg_connections := drop_node node (dg_connections g),
                        dg_nodes := AList.delete (n_name node) (dg_nodes g)\<rparr>))"

definition clone :: "DirectedGraph \<Rightarrow> DirectedGraph result" where
  "clone g = addConnections (map as_input (getConnections g None))
     (addNodes (map snd (getNodes g)) new_graph)"

section \<open>Well-formedness\<close>

definition wf_graph :: "DirectedGraph \<Rightarrow> bool" where
  "wf_graph g \<longleftrightarrow>
     distinct (map fst (dg_nodes g)) \<and> list_all (\<lambda>(k, n). k = n_name n) (dg_nodes g) \<and>
     distinct (map fst (dg_connections g)) \<and>
     list_all (\<lambda>(k, c). k = makeKey c \<and> nodeExists g (gc_from c) \<and> nodeExists g (gc_to c)) (dg_connections g)"

text \<open>The connections of a graph and the edges they stand for.\<close>

definition conns_of :: "DirectedGraph \<Rightarrow> GraphConnection set" where
  "conns_of g = snd ` set (dg_connections g)"

definition edges :: "DirectedGraph \<Rightarrow> (INode \<times> INode) set" where
  "edges g = (\<lambda>c. (gc_from c, gc_to c)) ` conns_of g"

definition main_edges :: "DirectedGraph \<Rightarrow> (INode \<times> INode) set" where
  "main_edges g = (\<lambda>c. (gc_from c, gc_to c)) ` {c \<in> conns_of g. gc_type c = Main}"

lemma edges_code [code]:
  "edges g = set (map (\<lambda>(_, c). (gc_from c, gc_to c)) (dg_connections g))"
  "main_edges g = set (map (\<lambda>(_, c). (gc_from c, gc_to c)) (filter (\<lambda>(_, c). gc_type c = Main) (dg_connections g)))"
  by (force simp: edges_def main_edges_def conns_of_def)+

lemma wf_graphD:
  assumes "wf_graph g"
  shows "distinct (map fst (dg_nodes g))" "distinct (map fst (dg_connections g))"
    and "(k, n) \<in> set (dg_nodes g) \<Longrightarrow> k = n_name n"
    and "(k, c) \<in> set (dg_connections g) \<Longrightarrow> k = makeKey c"
    and "c \<in> conns_of g \<Longrightarrow> nodeExists g (gc_from c)"
    and "c \<in> conns_of g \<Longrightarrow> nodeExists g (gc_to c)"
  using assms by (auto simp: wf_graph_def list_all_iff conns_of_def)

lemma nodeExists_iff: "wf_graph g \<Longrightarrow> nodeExists g n \<longleftrightarrow> n \<in> snd ` set (dg_nodes g)"
  by (force simp: nodeExists_def dict_entry_iff [symmetric] wf_graph_def list_all_iff)

lemma nodeExists_inject: "nodeExists g a \<Longrightarrow> nodeExists g b \<Longrightarrow> n_name a = n_name b \<Longrightarrow> a = b"
  by (simp add: nodeExists_def)

lemma child_connections_Inr [js_err]:
  "getDirectChildConnections g n = Inr cs \<longleftrightarrow>
     nodeExists g n \<and> cs = filter (\<lambda>c. gc_from c = n) (map snd (dg_connections g))"
  by (auto simp: getDirectChildConnections_def)

lemma parent_connections_Inr [js_err]:
  "getDirectParentConnections g n = Inr cs \<longleftrightarrow>
     nodeExists g n \<and> cs = filter (\<lambda>c. gc_to c = n) (map snd (dg_connections g))"
  by (auto simp: getDirectParentConnections_def)

lemma set_child_connections:
  "getDirectChildConnections g n = Inr cs \<Longrightarrow> set cs = {c \<in> conns_of g. gc_from c = n}"
  by (auto simp: child_connections_Inr conns_of_def)

lemma set_parent_connections:
  "getDirectParentConnections g n = Inr cs \<Longrightarrow> set cs = {c \<in> conns_of g. gc_to c = n}"
  by (auto simp: parent_connections_Inr conns_of_def)

subsection \<open>Keys\<close>

definition dash_free :: "string \<Rightarrow> bool" where
  "dash_free s \<longleftrightarrow> CHR ''-'' \<notin> set s"

lemma makeKey_inject:
  assumes "makeKey c = makeKey d"
    and "dash_free (n_name (gc_from c))" "dash_free (n_name (gc_from d))"
    and "dash_free (gc_type c)" "dash_free (gc_type d)"
  shows "n_name (gc_from c) = n_name (gc_from d) \<and> gc_type c = gc_type d \<and>
    gc_outputIndex c = gc_outputIndex d \<and> gc_inputIndex c = gc_inputIndex d \<and>
    n_name (gc_to c) = n_name (gc_to d)"
  using assms by (simp add: makeKey_def dash_free_def append_sep_inject)

subsection \<open>What the operations keep\<close>

lemma wf_new_graph [simp]: "wf_graph new_graph"
  by (simp add: wf_graph_def new_graph_def)

lemma nodeExists_addNode:
  "nodeExists (addNode n g) m \<longleftrightarrow> (if n_name m = n_name n then m = n else nodeExists g m)"
  by (auto simp: nodeExists_def addNode_def update_conv')

lemma conns_of_addNode [simp]: "conns_of (addNode n g) = conns_of g"
  by (simp add: conns_of_def addNode_def)

text \<open>Adding a node keeps the graph well-formed unless it replaces another object of that name.\<close>

lemma wf_addNode:
  assumes "wf_graph g" and "\<And>m. nodeExists g m \<Longrightarrow> n_name m = n_name n \<Longrightarrow> m = n"
  shows "wf_graph (addNode n g)"
proof -
  have keep: "nodeExists (addNode n g) m" if "nodeExists g m" for m
    using that assms(2) by (auto simp: nodeExists_addNode)
  have "list_all (\<lambda>(k, n). k = n_name n) (AList.update (n_name n) n (dg_nodes g))"
    using assms(1) by (auto simp: wf_graph_def list_all_iff set_update_iff split: if_splits)
  with assms(1) keep show ?thesis
    unfolding wf_graph_def
    by (auto simp: addNode_def distinct_update list_all_iff)
qed

lemma addConnection_Inr:
  "addConnection ci g = Inr g' \<longleftrightarrow> nodeExists g (ci_from ci) \<and> nodeExists g (ci_to ci) \<and>
     (let c = \<lparr>gc_from = ci_from ci, gc_to = ci_to ci, gc_type = or_default Main (ci_type ci),
        gc_outputIndex = or_default 0 (ci_outputIndex ci), gc_inputIndex = or_default 0 (ci_inputIndex ci)\<rparr>
      in g' = g\<lparr>dg_connections := AList.update (makeKey c) c (dg_connections g)\<rparr>)"
  by (auto simp: addConnection_def Let_def)

lemma wf_put_connection:
  assumes "wf_graph g" and "nodeExists g (gc_from c)" and "nodeExists g (gc_to c)"
  shows "wf_graph (g\<lparr>dg_connections := AList.update (makeKey c) c (dg_connections g)\<rparr>)"
  using assms unfolding wf_graph_def
  by (auto simp: distinct_update list_all_iff nodeExists_def set_update_iff split: if_splits)

lemma wf_addConnection: "wf_graph g \<Longrightarrow> addConnection ci g = Inr g' \<Longrightarrow> wf_graph g'"
  by (auto simp: addConnection_Inr Let_def intro!: wf_put_connection)

lemma nodeExists_addConnection: "addConnection ci g = Inr g' \<Longrightarrow> nodeExists g' n \<longleftrightarrow> nodeExists g n"
  by (auto simp: addConnection_Inr Let_def nodeExists_def)

lemma addConnection_as_input:
  "nodeExists g (gc_from c) \<Longrightarrow> nodeExists g (gc_to c) \<Longrightarrow>
   addConnection (as_input c) g = Inr (g\<lparr>dg_connections := AList.update (makeKey c) c (dg_connections g)\<rparr>)"
  by (cases c) (simp add: addConnection_def as_input_def or_default_def Let_def)

subsection \<open>Cloning\<close>

lemma addNodes_nodes:
  "dg_nodes (addNodes ns g) = fold (\<lambda>n. AList.update (n_name n) n) ns (dg_nodes g)"
  "dg_connections (addNodes ns g) = dg_connections g"
  unfolding addNodes_def
  by (induction ns arbitrary: g) (simp_all add: addNode_def)

lemma addConnections_as_input:
  assumes "\<And>c. c \<in> set cs \<Longrightarrow> nodeExists g (gc_from c) \<and> nodeExists g (gc_to c)"
  shows "addConnections (map as_input cs) g =
    Inr (g\<lparr>dg_connections := fold (\<lambda>c. AList.update (makeKey c) c) cs (dg_connections g)\<rparr>)"
  using assms unfolding addConnections_def
proof (induction cs arbitrary: g)
  case Nil
  then show ?case by simp
next
  case (Cons c cs)
  let ?g = "g\<lparr>dg_connections := AList.update (makeKey c) c (dg_connections g)\<rparr>"
  have "nodeExists ?g n \<longleftrightarrow> nodeExists g n" for n by (simp add: nodeExists_def)
  with Cons show ?case by (simp add: addConnection_as_input)
qed

lemma nodes_refold:
  assumes "wf_graph g"
  shows "fold (\<lambda>n. AList.update (n_name n) n) (map snd (dg_nodes g)) [] = dg_nodes g"
proof -
  have "fold (\<lambda>n. AList.update (n_name n) n) (map snd (dg_nodes g)) [] =
      fold (\<lambda>p. AList.update (fst p) (snd p)) (dg_nodes g) []"
    using wf_graphD(3) [OF assms] by (auto simp: fold_map comp_def intro!: fold_cong)
  then show ?thesis using fold_update_fresh [of "[]" "dg_nodes g"] wf_graphD(1) [OF assms] by simp
qed

lemma clone_wf:
  assumes "wf_graph g"
  shows "clone g = Inr g"
proof -
  note n = nodes_refold [OF assms]
  have c: "fold (\<lambda>c. AList.update (makeKey c) c) (map snd (dg_connections g)) [] = dg_connections g"
  proof -
    have "fold (\<lambda>c. AList.update (makeKey c) c) (map snd (dg_connections g)) [] =
        fold (\<lambda>p. AList.update (fst p) (snd p)) (dg_connections g) []"
      using wf_graphD(4) [OF assms] by (auto simp: fold_map comp_def intro!: fold_cong)
    then show ?thesis using fold_update_fresh [of "[]" "dg_connections g"] wf_graphD(2) [OF assms] by simp
  qed
  let ?h = "addNodes (map snd (dg_nodes g)) new_graph"
  have h: "dg_nodes ?h = dg_nodes g" "dg_connections ?h = []"
    using n by (simp_all add: addNodes_nodes new_graph_def)
  have e: "nodeExists ?h m \<longleftrightarrow> nodeExists g m" for m by (simp add: nodeExists_def h)
  have "addConnections (map as_input (map snd (dg_connections g))) ?h =
      Inr (?h\<lparr>dg_connections := fold (\<lambda>c. AList.update (makeKey c) c)
        (map snd (dg_connections g)) (dg_connections ?h)\<rparr>)"
    by (rule addConnections_as_input)
      (use wf_graphD(5,6) [OF assms] in \<open>auto simp: e conns_of_def\<close>)
  then have "clone g = Inr (?h\<lparr>dg_connections := dg_connections g\<rparr>)"
    by (simp add: clone_def getNodes_def getConnections_def h c)
  then show ?thesis using h by simp
qed

section \<open>Searches\<close>

subsection \<open>Children\<close>

function getChildrenLoop :: "DirectedGraph \<Rightarrow> GraphConnection list \<Rightarrow> INode list \<Rightarrow> INode list result" where
  "getChildrenLoop g [] children = Inr children"
| "getChildrenLoop g (directChild # rest) children =
     (if gc_to directChild \<in> set children then getChildrenLoop g rest children
      else res_bind (getDirectChildConnections g (gc_to directChild)) (\<lambda>directChildren.
           res_bind (getChildrenLoop g directChildren (children @ [gc_to directChild])) (\<lambda>children'.
             getChildrenLoop g rest children')))"
  by pat_completeness auto

lemma getChildrenLoop_mono:
  "getChildrenLoop_dom (g, cs, ch) \<Longrightarrow> getChildrenLoop g cs ch = Inr ch' \<Longrightarrow> set ch \<subseteq> set ch'"
proof (induction g cs ch arbitrary: ch' rule: getChildrenLoop.pinduct)
  case (1 g children)
  then show ?case by (simp add: getChildrenLoop.psimps)
next
  case (2 g c cs ch)
  show ?case
  proof (cases "gc_to c \<in> set ch")
    case True
    with 2 show ?thesis by (simp add: getChildrenLoop.psimps)
  next
    case False
    with 2(1,5) obtain ds ch1 where ds: "getDirectChildConnections g (gc_to c) = Inr ds"
      and ch1: "getChildrenLoop g ds (ch @ [gc_to c]) = Inr ch1" and rest: "getChildrenLoop g cs ch1 = Inr ch'"
      by (auto simp: getChildrenLoop.psimps res_bind_Inr_iff)
    from 2(3) [OF False ds ch1] 2(4) [OF False ds ch1 rest] show ?thesis by auto
  qed
qed

text \<open>The nodes of the graph that are not yet in the result.\<close>

definition nodes_left :: "DirectedGraph \<Rightarrow> INode list \<Rightarrow> nat" where
  "nodes_left g seen = card (snd ` set (dg_nodes g) - set seen)"

lemma nodes_left_mono: "set xs \<subseteq> set ys \<Longrightarrow> nodes_left g ys \<le> nodes_left g xs"
  unfolding nodes_left_def by (rule card_mono) auto

lemma nodes_left_less:
  assumes "nodeExists g n" and "n \<notin> set seen" and "insert n (set seen) \<subseteq> set seen'"
  shows "nodes_left g seen' < nodes_left g seen"
proof -
  have "n \<in> snd ` set (dg_nodes g)"
    using assms(1) map_of_SomeD by (force simp: nodeExists_def)
  with assms(2,3) show ?thesis unfolding nodes_left_def by (intro psubset_card_mono) auto
qed

termination getChildrenLoop
proof (relation "measures [\<lambda>(g, cs, ch). nodes_left g ch, \<lambda>(g, cs, ch). length cs]", goal_cases)
  case 1
  show ?case by simp
next
  case (2 g c cs ch)
  then show ?case by simp
next
  case (3 g c cs ch ds)
  then show ?case
    using nodes_left_less [of g "gc_to c" ch "ch @ [gc_to c]"] by (simp add: child_connections_Inr)
next
  case (4 g c cs ch ds ch')
  then have "nodes_left g ch' \<le> nodes_left g ch"
    using getChildrenLoop_mono [OF 4(4)] by (intro nodes_left_mono) auto
  then show ?case by auto
qed

definition getChildrenRecursive :: "DirectedGraph \<Rightarrow> INode \<Rightarrow> INode list \<Rightarrow> INode list result" where
  "getChildrenRecursive g node children =
     res_bind (getDirectChildConnections g node) (\<lambda>directChildren. getChildrenLoop g directChildren children)"

definition getChildren :: "DirectedGraph \<Rightarrow> INode \<Rightarrow> INode list result" where
  "getChildren g node = getChildrenRecursive g node []"

lemma edges_to_exists: "wf_graph g \<Longrightarrow> (a, b) \<in> edges g \<Longrightarrow> nodeExists g a \<and> nodeExists g b"
  by (auto simp: edges_def wf_graphD)

lemma edge_of_conn: "c \<in> conns_of g \<Longrightarrow> (gc_from c, gc_to c) \<in> edges g"
  by (auto simp: edges_def)

lemma child_targets:
  "getDirectChildConnections g n = Inr cs \<Longrightarrow> gc_to ` set cs = edges g `` {n}"
  by (force simp: set_child_connections edges_def)

lemma getChildrenLoop_returns:
  "wf_graph g \<Longrightarrow> set cs \<subseteq> conns_of g \<Longrightarrow> \<exists>ch'. getChildrenLoop g cs ch = Inr ch'"
proof (induction g cs ch rule: getChildrenLoop.induct)
  case (1 g ch)
  then show ?case by simp
next
  case (2 g c cs ch)
  show ?case
  proof (cases "gc_to c \<in> set ch")
    case True
    with 2 show ?thesis by simp
  next
    case False
    from 2(4,5) obtain ds where ds: "getDirectChildConnections g (gc_to c) = Inr ds"
      by (auto simp: getDirectChildConnections_def wf_graphD)
    then have "set ds \<subseteq> conns_of g" by (auto simp: set_child_connections)
    with 2(2) [OF False ds 2(4)] obtain ch1 where "getChildrenLoop g ds (ch @ [gc_to c]) = Inr ch1" by blast
    with 2(3) [OF False ds this 2(4)] 2(5) False ds show ?thesis by auto
  qed
qed

lemma getChildrenLoop_correct:
  "getChildrenLoop g cs ch = Inr ch' \<Longrightarrow>
     set ch \<subseteq> set ch' \<and> gc_to ` set cs \<subseteq> set ch' \<and>
     (\<forall>x \<in> set ch' - set ch. edges g `` {x} \<subseteq> set ch') \<and>
     set ch' \<subseteq> set ch \<union> (edges g)\<^sup>* `` (gc_to ` set cs) \<and> (distinct ch \<longrightarrow> distinct ch')"
proof (induction g cs ch arbitrary: ch' rule: getChildrenLoop.induct)
  case (1 g ch)
  then show ?case by auto
next
  case (2 g c cs ch)
  show ?case
  proof (cases "gc_to c \<in> set ch")
    case True
    then have "getChildrenLoop g cs ch = Inr ch'" using 2(4) by simp
    from 2(1) [OF True this] True show ?thesis by (auto simp: rtrancl_Image_insert)
  next
    case False
    with 2(4) obtain ds ch1 where ds: "getDirectChildConnections g (gc_to c) = Inr ds"
      and ch1: "getChildrenLoop g ds (ch @ [gc_to c]) = Inr ch1" and rest: "getChildrenLoop g cs ch1 = Inr ch'"
      by (auto simp: res_bind_Inr_iff)
    from 2(2) [OF False ds ch1]
    have A: "set ch \<subseteq> set ch1" "gc_to c \<in> set ch1" "edges g `` {gc_to c} \<subseteq> set ch1"
      "\<forall>x \<in> set ch1 - insert (gc_to c) (set ch). edges g `` {x} \<subseteq> set ch1"
      "set ch1 \<subseteq> insert (gc_to c) (set ch) \<union> (edges g)\<^sup>* `` (edges g `` {gc_to c})"
      "distinct ch \<longrightarrow> distinct ch1"
      unfolding child_targets [OF ds] using False by auto
    from 2(3) [OF False ds ch1 rest]
    have B: "set ch1 \<subseteq> set ch'" "gc_to ` set cs \<subseteq> set ch'"
      "\<forall>x \<in> set ch' - set ch1. edges g `` {x} \<subseteq> set ch'"
      "set ch' \<subseteq> set ch1 \<union> (edges g)\<^sup>* `` (gc_to ` set cs)" "distinct ch1 \<longrightarrow> distinct ch'"
      by auto
    from A(5) B(4) have "set ch' \<subseteq> set ch \<union> (edges g)\<^sup>* `` (gc_to ` set (c # cs))"
      by (simp add: rtrancl_Image_insert) blast
    moreover have "\<forall>x \<in> set ch' - set ch. edges g `` {x} \<subseteq> set ch'"
      using A(3,4) B(1,3) by blast
    ultimately show ?thesis using A B by auto
  qed
qed

interpretation children_search: graph_search
  "\<lambda>g n. wf_graph g \<and> nodeExists g n" "\<lambda>g n. edges g `` {n}" edges getChildren
proof unfold_locales
  fix g :: DirectedGraph and n
  assume ok: "wf_graph g \<and> nodeExists g n"
  then obtain cs where cs: "getDirectChildConnections g n = Inr cs"
    by (auto simp: getDirectChildConnections_def)
  have run: "getChildren g n = getChildrenLoop g cs []"
    by (simp add: getChildren_def getChildrenRecursive_def cs)
  show "\<exists>r. getChildren g n = Inr r"
    using ok cs by (auto simp: run set_child_connections intro!: getChildrenLoop_returns)
  fix r
  assume "getChildren g n = Inr r"
  from getChildrenLoop_correct [OF this [unfolded run]]
  have "edges g `` {n} \<subseteq> set r \<and> (\<forall>x \<in> set r. edges g `` {x} \<subseteq> set r) \<and> set r \<subseteq> (edges g)\<^sup>* `` (edges g `` {n})"
    by (simp add: child_targets [OF cs])
  then show "edges g `` {n} \<subseteq> set r" "edges g `` set r \<subseteq> set r" "set r \<subseteq> (edges g)\<^sup>* `` (edges g `` {n})"
    by auto
qed

subsection \<open>Parent connections\<close>

function getParentConnectionsLoop ::
    "DirectedGraph \<Rightarrow> GraphConnection list \<Rightarrow> GraphConnection list \<Rightarrow> GraphConnection list result" where
  "getParentConnectionsLoop g [] connections = Inr connections"
| "getParentConnectionsLoop g (connection # rest) connections =
     (if connection \<in> set connections then getParentConnectionsLoop g rest connections
      else res_bind (getDirectParentConnections g (gc_from connection)) (\<lambda>parentConnections.
           res_bind (getParentConnectionsLoop g parentConnections (connections @ [connection])) (\<lambda>connections'.
             getParentConnectionsLoop g rest connections')))"
  by pat_completeness auto

lemma getParentConnectionsLoop_mono:
  "getParentConnectionsLoop_dom (g, cs, acc) \<Longrightarrow> getParentConnectionsLoop g cs acc = Inr acc' \<Longrightarrow>
   set acc \<subseteq> set acc'"
proof (induction g cs acc arbitrary: acc' rule: getParentConnectionsLoop.pinduct)
  case (1 g acc)
  then show ?case by (simp add: getParentConnectionsLoop.psimps)
next
  case (2 g c cs acc)
  show ?case
  proof (cases "c \<in> set acc")
    case True
    with 2 show ?thesis by (simp add: getParentConnectionsLoop.psimps)
  next
    case False
    with 2(1,5) obtain ds acc1 where ds: "getDirectParentConnections g (gc_from c) = Inr ds"
      and acc1: "getParentConnectionsLoop g ds (acc @ [c]) = Inr acc1"
      and rest: "getParentConnectionsLoop g cs acc1 = Inr acc'"
      by (auto simp: getParentConnectionsLoop.psimps res_bind_Inr_iff)
    from 2(3) [OF False ds acc1] 2(4) [OF False ds acc1 rest] show ?thesis by auto
  qed
qed

definition conns_left :: "DirectedGraph \<Rightarrow> GraphConnection list \<Rightarrow> GraphConnection list \<Rightarrow> nat" where
  "conns_left g cs acc = card ((conns_of g \<union> set cs) - set acc)"

lemma finite_conns_of [simp]: "finite (conns_of g)"
  by (simp add: conns_of_def)

termination getParentConnectionsLoop
proof (relation "measures [\<lambda>(g, cs, acc). conns_left g cs acc, \<lambda>(g, cs, acc). length cs]", goal_cases)
  case 1
  show ?case by simp
next
  case (2 g c cs acc)
  then have "conns_left g cs acc \<le> conns_left g (c # cs) acc"
    unfolding conns_left_def by (intro card_mono) auto
  then show ?case by auto
next
  case (3 g c cs acc ds)
  then have "conns_left g ds (acc @ [c]) < conns_left g (c # cs) acc"
    unfolding conns_left_def by (intro psubset_card_mono) (auto simp: set_parent_connections)
  then show ?case by simp
next
  case (4 g c cs acc ds acc')
  from getParentConnectionsLoop_mono [OF 4(4)] 4 have "insert c (set acc) \<subseteq> set acc'" by auto
  with 4 have "conns_left g cs acc' < conns_left g (c # cs) acc"
    unfolding conns_left_def by (intro psubset_card_mono) auto
  then show ?case by simp
qed

definition getParentConnectionsRecursive ::
    "DirectedGraph \<Rightarrow> INode \<Rightarrow> GraphConnection list \<Rightarrow> GraphConnection list result" where
  "getParentConnectionsRecursive g node connections =
     res_bind (getDirectParentConnections g node) (\<lambda>parentConnections.
       getParentConnectionsLoop g parentConnections connections)"

definition getParentConnections :: "DirectedGraph \<Rightarrow> INode \<Rightarrow> GraphConnection list result" where
  "getParentConnections g node = getParentConnectionsRecursive g node []"

text \<open>From a connection to the connections that enter its source node.\<close>

definition conn_step :: "DirectedGraph \<Rightarrow> (GraphConnection \<times> GraphConnection) set" where
  "conn_step g = {(c, d). d \<in> conns_of g \<and> gc_to d = gc_from c}"

lemma parent_step: "getDirectParentConnections g (gc_from c) = Inr ds \<Longrightarrow> set ds = conn_step g `` {c}"
  by (auto simp: set_parent_connections conn_step_def)

lemma getParentConnectionsLoop_returns:
  "wf_graph g \<Longrightarrow> set cs \<subseteq> conns_of g \<Longrightarrow> \<exists>acc'. getParentConnectionsLoop g cs acc = Inr acc'"
proof (induction g cs acc rule: getParentConnectionsLoop.induct)
  case (1 g acc)
  then show ?case by simp
next
  case (2 g c cs acc)
  show ?case
  proof (cases "c \<in> set acc")
    case True
    with 2 show ?thesis by simp
  next
    case False
    from 2(4,5) obtain ds where ds: "getDirectParentConnections g (gc_from c) = Inr ds"
      by (auto simp: getDirectParentConnections_def wf_graphD)
    then have "set ds \<subseteq> conns_of g" by (auto simp: set_parent_connections)
    with 2(2) [OF False ds 2(4)] obtain acc1 where "getParentConnectionsLoop g ds (acc @ [c]) = Inr acc1" by blast
    with 2(3) [OF False ds this 2(4)] 2(5) False ds show ?thesis by auto
  qed
qed

lemma getParentConnectionsLoop_correct:
  "getParentConnectionsLoop g cs acc = Inr acc' \<Longrightarrow>
     set acc \<subseteq> set acc' \<and> set cs \<subseteq> set acc' \<and>
     (\<forall>x \<in> set acc' - set acc. conn_step g `` {x} \<subseteq> set acc') \<and>
     set acc' \<subseteq> set acc \<union> (conn_step g)\<^sup>* `` set cs \<and> (distinct acc \<longrightarrow> distinct acc')"
proof (induction g cs acc arbitrary: acc' rule: getParentConnectionsLoop.induct)
  case (1 g acc)
  then show ?case by auto
next
  case (2 g c cs acc)
  show ?case
  proof (cases "c \<in> set acc")
    case True
    then have "getParentConnectionsLoop g cs acc = Inr acc'" using 2(4) by simp
    from 2(1) [OF True this] True show ?thesis by (auto simp: rtrancl_Image_insert)
  next
    case False
    with 2(4) obtain ds acc1 where ds: "getDirectParentConnections g (gc_from c) = Inr ds"
      and acc1: "getParentConnectionsLoop g ds (acc @ [c]) = Inr acc1"
      and rest: "getParentConnectionsLoop g cs acc1 = Inr acc'"
      by (auto simp: res_bind_Inr_iff)
    from 2(2) [OF False ds acc1]
    have A: "set acc \<subseteq> set acc1" "c \<in> set acc1" "conn_step g `` {c} \<subseteq> set acc1"
      "\<forall>x \<in> set acc1 - insert c (set acc). conn_step g `` {x} \<subseteq> set acc1"
      "set acc1 \<subseteq> insert c (set acc) \<union> (conn_step g)\<^sup>* `` (conn_step g `` {c})"
      "distinct acc \<longrightarrow> distinct acc1"
      unfolding parent_step [OF ds] using False by auto
    from 2(3) [OF False ds acc1 rest]
    have B: "set acc1 \<subseteq> set acc'" "set cs \<subseteq> set acc'"
      "\<forall>x \<in> set acc' - set acc1. conn_step g `` {x} \<subseteq> set acc'"
      "set acc' \<subseteq> set acc1 \<union> (conn_step g)\<^sup>* `` set cs" "distinct acc1 \<longrightarrow> distinct acc'"
      by auto
    from A(5) B(4) have "set acc' \<subseteq> set acc \<union> (conn_step g)\<^sup>* `` set (c # cs)"
      by (simp add: rtrancl_Image_insert) blast
    moreover have "\<forall>x \<in> set acc' - set acc. conn_step g `` {x} \<subseteq> set acc'"
      using A(3,4) B(1,3) by blast
    ultimately show ?thesis using A B by auto
  qed
qed

interpretation parents_search: graph_search
  "\<lambda>g n. wf_graph g \<and> nodeExists g n" "\<lambda>g n. {c \<in> conns_of g. gc_to c = n}" conn_step getParentConnections
proof unfold_locales
  fix g :: DirectedGraph and n
  assume ok: "wf_graph g \<and> nodeExists g n"
  then obtain cs where cs: "getDirectParentConnections g n = Inr cs"
    by (auto simp: getDirectParentConnections_def)
  have run: "getParentConnections g n = getParentConnectionsLoop g cs []"
    by (simp add: getParentConnections_def getParentConnectionsRecursive_def cs)
  show "\<exists>r. getParentConnections g n = Inr r"
    using ok cs by (auto simp: run set_parent_connections intro!: getParentConnectionsLoop_returns)
  fix r
  assume "getParentConnections g n = Inr r"
  from getParentConnectionsLoop_correct [OF this [unfolded run]]
  have "set cs \<subseteq> set r \<and> (\<forall>x \<in> set r. conn_step g `` {x} \<subseteq> set r) \<and> set r \<subseteq> (conn_step g)\<^sup>* `` set cs"
    by simp
  then show "{c \<in> conns_of g. gc_to c = n} \<subseteq> set r" "conn_step g `` set r \<subseteq> set r"
      "set r \<subseteq> (conn_step g)\<^sup>* `` {c \<in> conns_of g. gc_to c = n}"
    using set_parent_connections [OF cs] by auto
qed

end
