(* ===== verification/Graph_Edit.thy ===== *)
theory Graph_Edit
  imports Directed_Graph
begin

text \<open>
  Removing nodes: \<open>DirectedGraph.removeNode\<close> with \<open>reconnectConnections\<close>, and
  \<open>filterDisabledNodes\<close> (\<open>filter-disabled-nodes.ts\<close>), which uses it to bridge every
  disabled node. The main-connection paths between the remaining nodes stay exactly the same;
  the graph stays well-formed as long as no cycle consists of disabled nodes only.
\<close>

section \<open>Rewriting the connection map\<close>

lemma fold_update_keyed:
  assumes "distinct (map fst m)" and "\<And>k v. (k, v) \<in> set m \<Longrightarrow> k = f v"
    and "inj_on f (snd ` set m \<union> set vs)"
  shows "snd ` set (fold (\<lambda>v. AList.update (f v) v) vs m) = snd ` set m \<union> set vs \<and>
    distinct (map fst (fold (\<lambda>v. AList.update (f v) v) vs m)) \<and>
    (\<forall>(k, v) \<in> set (fold (\<lambda>v. AList.update (f v) v) vs m). k = f v)"
  using assms
proof (induction vs arbitrary: m)
  case Nil
  then show ?case by auto
next
  case (Cons v vs)
  let ?m = "AList.update (f v) v m"
  have mem: "(k, w) \<in> set ?m \<longleftrightarrow> (if k = f v then w = v else (k, w) \<in> set m)" for k w
    by (rule set_update_iff [OF Cons.prems(1)])
  have keep: "w \<in> snd ` set ?m" if "(k, w) \<in> set m" for k w
  proof (cases "k = f v")
    case True
    with Cons.prems(2) [OF that] have "f w = f v" by simp
    moreover have "w \<in> snd ` set m \<union> set (v # vs)" "v \<in> snd ` set m \<union> set (v # vs)" using that by force+
    ultimately have "w = v" by (rule inj_onD [OF Cons.prems(3)])
    moreover have "(f v, v) \<in> set ?m" by (simp add: mem)
    ultimately show ?thesis by force
  next
    case False
    with that have "(k, w) \<in> set ?m" by (simp add: mem)
    then show ?thesis by force
  qed
  have vals: "snd ` set ?m = insert v (snd ` set m)"
  proof
    show "snd ` set ?m \<subseteq> insert v (snd ` set m)"
    proof
      fix w
      assume "w \<in> snd ` set ?m"
      then obtain k where "(k, w) \<in> set ?m" by auto
      then show "w \<in> insert v (snd ` set m)" by (cases "k = f v") (force simp: mem)+
    qed
    have "(f v, v) \<in> set ?m" by (simp add: mem)
    with keep show "insert v (snd ` set m) \<subseteq> snd ` set ?m" by force
  qed
  have keyed: "k = f w" if "(k, w) \<in> set ?m" for k w
    using that Cons.prems(2) [of k w] unfolding mem by (simp split: if_splits)
  have union: "snd ` set ?m \<union> set vs = snd ` set m \<union> set (v # vs)" unfolding vals by simp
  have "inj_on f (snd ` set ?m \<union> set vs)" unfolding union by (rule Cons.prems(3))
  from Cons.IH [OF distinct_update [OF Cons.prems(1)] keyed this]
  show ?case unfolding union fold_simps .
qed

text \<open>Names and connection types without the separator of the keys.\<close>

definition keys_safe :: "DirectedGraph \<Rightarrow> bool" where
  "keys_safe g \<longleftrightarrow> list_all (\<lambda>(_, n). dash_free (n_name n)) (dg_nodes g) \<and>
     list_all (\<lambda>(_, c). dash_free (gc_type c)) (dg_connections g)"

lemma keys_safeD:
  assumes "keys_safe g"
  shows "nodeExists g n \<Longrightarrow> dash_free (n_name n)"
    and "c \<in> conns_of g \<Longrightarrow> dash_free (gc_type c)"
  using assms map_of_SomeD
  by (fastforce simp: keys_safe_def nodeExists_def conns_of_def list_all_iff)+

lemma makeKey_eqD:
  assumes "keys_safe g" and "makeKey c = makeKey d"
    and "nodeExists g (gc_from c)" "nodeExists g (gc_to c)" "nodeExists g (gc_from d)" "nodeExists g (gc_to d)"
    and "dash_free (gc_type c)" "dash_free (gc_type d)"
  shows "c = d"
  using makeKey_inject [OF assms(2)] assms keys_safeD(1) [OF assms(1)]
  by (cases c, cases d) (auto dest: nodeExists_inject)

section \<open>Removing a node\<close>

lemma set_reconnected:
  "set (reconnected skip ins outs) =
     {i\<lparr>gc_to := gc_to out, gc_inputIndex := gc_inputIndex out\<rparr> | i out.
        i \<in> set ins \<and> \<not> skip i \<and> out \<in> set outs \<and> \<not> skip out}"
  by (auto simp: reconnected_def split: if_splits)

definition bridged :: "(GraphConnection \<Rightarrow> bool) \<Rightarrow> DirectedGraph \<Rightarrow> INode \<Rightarrow> GraphConnection set" where
  "bridged skip g n = {i\<lparr>gc_to := gc_to out, gc_inputIndex := gc_inputIndex out\<rparr> | i out.
     i \<in> conns_of g \<and> gc_to i = n \<and> \<not> skip i \<and> out \<in> conns_of g \<and> gc_from out = n \<and> \<not> skip out}"

definition untouched :: "DirectedGraph \<Rightarrow> INode \<Rightarrow> GraphConnection set" where
  "untouched g n = {c \<in> conns_of g. gc_from c \<noteq> n \<and> gc_to c \<noteq> n}"

lemma snd_drop_node: "snd ` set (drop_node n (dg_connections g)) = untouched g n"
  by (force simp: drop_node_def untouched_def conns_of_def)

lemma drop_node_keyed:
  assumes "wf_graph g"
  shows "distinct (map fst (drop_node n (dg_connections g)))"
    and "(k, c) \<in> set (drop_node n (dg_connections g)) \<Longrightarrow> k = makeKey c"
  using wf_graphD(2,4) [OF assms]
  by (auto simp: drop_node_def distinct_map_filter)

lemma removeNode_reconnect:
  assumes "wf_graph g" and "keys_safe g" and "nodeExists g n"
  obtains new g' where "removeNode n True skip g = Inr (Some new, g')"
    and "dg_nodes g' = AList.delete (n_name n) (dg_nodes g)"
    and "conns_of g' = untouched g n \<union> bridged skip g n"
    and "distinct (map fst (dg_connections g'))"
    and "\<And>k c. (k, c) \<in> set (dg_connections g') \<Longrightarrow> k = makeKey c"
proof -
  obtain ins outs where io: "getDirectParentConnections g n = Inr ins" "getDirectChildConnections g n = Inr outs"
    using assms(3) by (simp add: getDirectParentConnections_def getDirectChildConnections_def)
  define new where "new = reconnected skip ins outs"
  define m where "m = drop_node n (dg_connections g)"
  define m' where "m' = fold (\<lambda>c. AList.update (makeKey c) c) new m"
  have new: "set new = bridged skip g n"
    unfolding new_def set_reconnected bridged_def
      set_parent_connections [OF io(1)] set_child_connections [OF io(2)] by blast
  have ends: "nodeExists g (gc_from c) \<and> nodeExists g (gc_to c) \<and> dash_free (gc_type c)"
    if "c \<in> untouched g n \<union> bridged skip g n" for c
    using that wf_graphD(5,6) [OF assms(1)] keys_safeD(2) [OF assms(2)]
    by (auto simp: untouched_def bridged_def)
  have "inj_on makeKey (snd ` set m \<union> set new)"
    unfolding m_def new snd_drop_node
    by (rule inj_onI) (use ends makeKey_eqD [OF assms(2)] in blast)
  from fold_update_keyed [OF _ _ this] drop_node_keyed [OF assms(1), where n = n]
  have m': "snd ` set m' = snd ` set m \<union> set new" "distinct (map fst m')"
    "\<And>k c. (k, c) \<in> set m' \<Longrightarrow> k = makeKey c"
    unfolding m'_def m_def by auto
  show ?thesis
  proof (rule that)
    show "removeNode n True skip g = Inr (Some new, g\<lparr>dg_connections := m', dg_nodes := AList.delete (n_name n) (dg_nodes g)\<rparr>)"
      by (simp add: removeNode_def io new_def m'_def m_def Let_def)
  qed (use m' in \<open>auto simp: conns_of_def new snd_drop_node m_def\<close>)
qed

lemma nodeExists_removed:
  assumes "nodeExists g n" and "dg_nodes g' = AList.delete (n_name n) (dg_nodes g)"
  shows "nodeExists g' m \<longleftrightarrow> nodeExists g m \<and> m \<noteq> n"
  using assms by (auto simp: nodeExists_def)

lemma wf_removed:
  assumes "wf_graph g" and "nodeExists g n" and "dg_nodes g' = AList.delete (n_name n) (dg_nodes g)"
    and "distinct (map fst (dg_connections g'))" and "\<And>k c. (k, c) \<in> set (dg_connections g') \<Longrightarrow> k = makeKey c"
    and "\<And>c. c \<in> conns_of g' \<Longrightarrow> nodeExists g (gc_from c) \<and> gc_from c \<noteq> n \<and> nodeExists g (gc_to c) \<and> gc_to c \<noteq> n"
  shows "wf_graph g'"
  unfolding wf_graph_def
proof (intro conjI)
  show "distinct (map fst (dg_nodes g'))"
    using wf_graphD(1) [OF assms(1)] by (simp add: assms(3) distinct_delete)
  show "list_all (\<lambda>(k, n). k = n_name n) (dg_nodes g')"
    using wf_graphD(3) [OF assms(1)] delete_subset [of "n_name n" "dg_nodes g"] assms(3)
    by (auto simp: list_all_iff)
  show "list_all (\<lambda>(k, c). k = makeKey c \<and> nodeExists g' (gc_from c) \<and> nodeExists g' (gc_to c)) (dg_connections g')"
    using assms(5,6) nodeExists_removed [OF assms(2,3)] by (force simp: list_all_iff conns_of_def)
qed (rule assms(4))

text \<open>\<open>removeNode\<close> without reconnecting always keeps the graph well-formed.\<close>

lemma wf_removeNode_plain:
  assumes "wf_graph g" and "nodeExists g n"
  shows "removeNode n False skip g = Inr (None, g\<lparr>dg_connections := drop_node n (dg_connections g),
      dg_nodes := AList.delete (n_name n) (dg_nodes g)\<rparr>)"
    and "wf_graph (g\<lparr>dg_connections := drop_node n (dg_connections g),
      dg_nodes := AList.delete (n_name n) (dg_nodes g)\<rparr>)"
proof -
  let ?g = "g\<lparr>dg_connections := drop_node n (dg_connections g), dg_nodes := AList.delete (n_name n) (dg_nodes g)\<rparr>"
  show "removeNode n False skip g = Inr (None, ?g)" by (simp add: removeNode_def)
  have "conns_of ?g = untouched g n" by (simp add: conns_of_def snd_drop_node)
  with wf_graphD(5,6) [OF assms(1)] drop_node_keyed [OF assms(1)] show "wf_graph ?g"
    by (intro wf_removed [OF assms]) (auto simp: untouched_def)
qed

subsection \<open>Paths\<close>

text \<open>The relation with the node bridged: its edges that avoid the node, and the edge from
  every predecessor to every successor.\<close>

definition bridge :: "'a \<Rightarrow> ('a \<times> 'a) set \<Rightarrow> ('a \<times> 'a) set" where
  "bridge n r = {(a, b). (a, b) \<in> r \<and> a \<noteq> n \<and> b \<noteq> n \<or> (a, n) \<in> r \<and> (n, b) \<in> r}"

lemma bridge_subset_trancl: "bridge n r \<subseteq> r\<^sup>+"
  by (auto simp: bridge_def intro: trancl_into_trancl)

lemma trancl_bridge:
  assumes "a \<noteq> n" and "b \<noteq> n"
  shows "(a, b) \<in> (bridge n r)\<^sup>+ \<longleftrightarrow> (a, b) \<in> r\<^sup>+"
proof
  assume "(a, b) \<in> (bridge n r)\<^sup>+"
  then have "(a, b) \<in> (r\<^sup>+)\<^sup>+" using bridge_subset_trancl [of n r] by (rule trancl_mono_subset [THEN subsetD, rotated])
  then show "(a, b) \<in> r\<^sup>+" by simp
next
  assume "(a, b) \<in> r\<^sup>+"
  then have "if b = n then \<exists>c. c \<noteq> n \<and> (a, c) \<in> (bridge n r)\<^sup>* \<and> (c, n) \<in> r else (a, b) \<in> (bridge n r)\<^sup>+"
  proof (induction rule: trancl_induct)
    case (base y)
    with assms(1) show ?case by (auto simp: bridge_def)
  next
    case (step y z)
    show ?case
    proof (cases "y = n")
      case True
      with step obtain c where c: "c \<noteq> n" "(a, c) \<in> (bridge n r)\<^sup>*" "(c, n) \<in> r" by auto
      show ?thesis
      proof (cases "z = n")
        case True
        with c show ?thesis by auto
      next
        case False
        have "(c, z) \<in> bridge n r" using c(3) step(2) \<open>y = n\<close> by (simp add: bridge_def)
        with c(2) False show ?thesis by auto
      qed
    next
      case False
      with step have y: "(a, y) \<in> (bridge n r)\<^sup>+" by simp
      show ?thesis
      proof (cases "z = n")
        case True
        with y False step(2) show ?thesis by (auto intro: trancl_into_rtrancl)
      next
        case z: False
        then have "(y, z) \<in> bridge n r" using False step(2) by (simp add: bridge_def)
        with y z show ?thesis by auto
      qed
    qed
  qed
  with assms(2) show "(a, b) \<in> (bridge n r)\<^sup>+" by simp
qed

definition not_main :: "GraphConnection \<Rightarrow> bool" where
  "not_main c \<longleftrightarrow> gc_type c \<noteq> Main"

lemma main_edge_of_conn: "c \<in> conns_of g \<Longrightarrow> gc_type c = Main \<Longrightarrow> (gc_from c, gc_to c) \<in> main_edges g"
  by (auto simp: main_edges_def)

lemma main_edges_bridged:
  assumes "conns_of g' = untouched g n \<union> bridged not_main g n"
  shows "main_edges g' = bridge n (main_edges g)"
proof
  have "(gc_from c, gc_to c) \<in> bridge n (main_edges g)"
    if "c \<in> untouched g n" "gc_type c = Main" for c
    using that by (auto simp: main_edges_def untouched_def bridge_def)
  moreover have "(gc_from c, gc_to c) \<in> bridge n (main_edges g)" if "c \<in> bridged not_main g n" for c
  proof -
    from that obtain i out where c: "c = i\<lparr>gc_to := gc_to out, gc_inputIndex := gc_inputIndex out\<rparr>"
      and io: "i \<in> conns_of g" "gc_to i = n" "gc_type i = Main" "out \<in> conns_of g" "gc_from out = n" "gc_type out = Main"
      by (auto simp: bridged_def not_main_def)
    from main_edge_of_conn [OF io(1,3)] main_edge_of_conn [OF io(4,6)]
    have "(gc_from i, n) \<in> main_edges g" "(n, gc_to out) \<in> main_edges g" by (simp_all add: io)
    then show ?thesis by (simp add: c bridge_def)
  qed
  ultimately show "main_edges g' \<subseteq> bridge n (main_edges g)"
    unfolding main_edges_def [of g'] assms by blast
  show "bridge n (main_edges g) \<subseteq> main_edges g'"
  proof (rule subrelI)
    fix a b
    assume "(a, b) \<in> bridge n (main_edges g)"
    then consider "(a, b) \<in> main_edges g" "a \<noteq> n" "b \<noteq> n" | "(a, n) \<in> main_edges g" "(n, b) \<in> main_edges g"
      by (auto simp: bridge_def)
    then show "(a, b) \<in> main_edges g'"
    proof cases
      case 1
      then show ?thesis by (auto simp: main_edges_def assms untouched_def)
    next
      case 2
      then obtain i out where io: "i \<in> conns_of g" "gc_from i = a" "gc_to i = n" "gc_type i = Main"
        "out \<in> conns_of g" "gc_from out = n" "gc_to out = b" "gc_type out = Main"
        by (auto simp: main_edges_def)
      let ?c = "i\<lparr>gc_to := gc_to out, gc_inputIndex := gc_inputIndex out\<rparr>"
      have "?c \<in> bridged not_main g n" unfolding bridged_def not_main_def using io by blast
      then have "?c \<in> {c \<in> conns_of g'. gc_type c = Main}" using io(4) by (simp add: assms)
      then have "(gc_from ?c, gc_to ?c) \<in> main_edges g'" unfolding main_edges_def by (rule imageI)
      with io show ?thesis by simp
    qed
  qed
qed


section \<open>Filtering disabled nodes\<close>

definition filterDisabledNodes :: "DirectedGraph \<Rightarrow> DirectedGraph result" where
  "filterDisabledNodes graph =
     res_bind (clone graph) (\<lambda>filteredGraph.
       res_fold (\<lambda>node fg.
           if is_disabled node
           then res_bind (removeNode node True not_main fg) (\<lambda>(_, fg'). Inr fg')
           else Inr fg)
         (map snd (getNodes filteredGraph)) filteredGraph)"

text \<open>The main connections between disabled nodes.\<close>

definition disabled_edges :: "DirectedGraph \<Rightarrow> (INode \<times> INode) set" where
  "disabled_edges g = {(a, b) \<in> main_edges g. is_disabled a \<and> is_disabled b}"

text \<open>What holds after the nodes of \<open>done\<close> have been visited.\<close>

definition filtered_upto :: "DirectedGraph \<Rightarrow> INode set \<Rightarrow> DirectedGraph \<Rightarrow> bool" where
  "filtered_upto g done fg \<longleftrightarrow> wf_graph fg \<and> keys_safe fg \<and>
     (\<forall>n. nodeExists fg n \<longleftrightarrow> nodeExists g n \<and> \<not> (is_disabled n \<and> n \<in> done)) \<and>
     (\<forall>a b. nodeExists fg a \<longrightarrow> nodeExists fg b \<longrightarrow>
        ((a, b) \<in> (main_edges fg)\<^sup>+ \<longleftrightarrow> (a, b) \<in> (main_edges g)\<^sup>+)) \<and>
     disabled_edges fg \<subseteq> (disabled_edges g)\<^sup>+"

lemma disabled_edges_bridge:
  assumes "main_edges g' = bridge n (main_edges g)" and "is_disabled n"
  shows "disabled_edges g' \<subseteq> (disabled_edges g)\<^sup>+"
proof (rule subrelI)
  fix a b
  assume "(a, b) \<in> disabled_edges g'"
  then consider "(a, b) \<in> disabled_edges g" | "(a, n) \<in> disabled_edges g" "(n, b) \<in> disabled_edges g"
    using assms by (auto simp: disabled_edges_def bridge_def)
  then show "(a, b) \<in> (disabled_edges g)\<^sup>+" by cases auto
qed

lemma ends_reconnected:
  assumes "wf_graph g" and "(n, n) \<notin> main_edges g" and "c \<in> untouched g n \<union> bridged not_main g n"
  shows "nodeExists g (gc_from c) \<and> gc_from c \<noteq> n \<and> nodeExists g (gc_to c) \<and> gc_to c \<noteq> n"
  using assms(3)
proof
  assume "c \<in> untouched g n"
  then show ?thesis using wf_graphD(5,6) [OF assms(1)] by (auto simp: untouched_def)
next
  assume "c \<in> bridged not_main g n"
  then obtain i out where c: "c = i\<lparr>gc_to := gc_to out, gc_inputIndex := gc_inputIndex out\<rparr>"
    and io: "i \<in> conns_of g" "gc_to i = n" "gc_type i = Main" "out \<in> conns_of g" "gc_from out = n" "gc_type out = Main"
    by (auto simp: bridged_def not_main_def)
  from main_edge_of_conn [OF io(1,3)] main_edge_of_conn [OF io(4,6)]
  have "(gc_from i, n) \<in> main_edges g" "(n, gc_to out) \<in> main_edges g" by (simp_all add: io)
  with assms(2) wf_graphD(5,6) [OF assms(1)] io(1,4) show ?thesis by (auto simp: c)
qed

lemma keys_safe_removed:
  assumes "keys_safe g" and "set (dg_nodes g') \<subseteq> set (dg_nodes g)"
    and "\<And>c. c \<in> conns_of g' \<Longrightarrow> \<exists>d \<in> conns_of g. gc_type c = gc_type d"
  shows "keys_safe g'"
  using assms unfolding keys_safe_def list_all_iff conns_of_def by fastforce

lemma filter_step:
  assumes I: "filtered_upto g done fg" and n: "nodeExists fg n" "is_disabled n"
    and acyc: "acyclic (disabled_edges g)"
  shows "\<exists>r fg'. removeNode n True not_main fg = Inr (r, fg') \<and> filtered_upto g (insert n done) fg'"
proof -
  from I have wf: "wf_graph fg" and safe: "keys_safe fg"
    and nodes: "\<And>m. nodeExists fg m \<longleftrightarrow> nodeExists g m \<and> \<not> (is_disabled m \<and> m \<in> done)"
    and paths: "\<And>a b. nodeExists fg a \<Longrightarrow> nodeExists fg b \<Longrightarrow>
      (a, b) \<in> (main_edges fg)\<^sup>+ \<longleftrightarrow> (a, b) \<in> (main_edges g)\<^sup>+"
    and dis: "disabled_edges fg \<subseteq> (disabled_edges g)\<^sup>+"
    by (auto simp: filtered_upto_def)
  from removeNode_reconnect [OF wf safe n(1)] obtain new fg' where
      run: "removeNode n True not_main fg = Inr (Some new, fg')"
    and nodes': "dg_nodes fg' = AList.delete (n_name n) (dg_nodes fg)"
    and conns': "conns_of fg' = untouched fg n \<union> bridged not_main fg n"
    and keyed: "distinct (map fst (dg_connections fg'))"
      "\<And>k c. (k, c) \<in> set (dg_connections fg') \<Longrightarrow> k = makeKey c"
    by metis
  have loop: "(n, n) \<notin> main_edges fg"
  proof
    assume "(n, n) \<in> main_edges fg"
    then have "(n, n) \<in> disabled_edges fg" using n(2) by (simp add: disabled_edges_def)
    with dis acyc show False by (auto simp: acyclic_def)
  qed
  note ends = ends_reconnected [OF wf loop, folded conns']
  note edges' = main_edges_bridged [OF conns']
  note exists' = nodeExists_removed [OF n(1) nodes']
  have "filtered_upto g (insert n done) fg'"
    unfolding filtered_upto_def
  proof (intro conjI allI impI)
    show "wf_graph fg'" by (rule wf_removed [OF wf n(1) nodes' keyed ends])
    show "keys_safe fg'"
      by (rule keys_safe_removed [OF safe])
        (use delete_subset [of "n_name n" "dg_nodes fg"] nodes' in \<open>auto simp: conns' untouched_def bridged_def\<close>)
    show "nodeExists fg' m \<longleftrightarrow> nodeExists g m \<and> \<not> (is_disabled m \<and> m \<in> insert n done)" for m
      using n by (auto simp: exists' nodes)
    show "(a, b) \<in> (main_edges fg')\<^sup>+ \<longleftrightarrow> (a, b) \<in> (main_edges g)\<^sup>+"
      if "nodeExists fg' a" "nodeExists fg' b" for a b
      using that paths by (simp add: exists' edges' trancl_bridge)
    show "disabled_edges fg' \<subseteq> (disabled_edges g)\<^sup>+"
      using disabled_edges_bridge [OF edges' n(2)] trancl_mono_subset [OF dis] by auto
  qed
  with run show ?thesis by blast
qed

lemma distinct_nodes:
  assumes "wf_graph g"
  shows "distinct (map snd (dg_nodes g))"
proof -
  have "map n_name (map snd (dg_nodes g)) = map fst (dg_nodes g)"
    using wf_graphD(3) [OF assms] by auto
  with wf_graphD(1) [OF assms] show ?thesis by (metis distinct_map)
qed

lemma filter_nodes:
  assumes acyc: "acyclic (disabled_edges g)"
  shows "filtered_upto g done fg \<Longrightarrow> distinct ns \<Longrightarrow> set ns \<inter> done = {} \<Longrightarrow> (\<And>n. n \<in> set ns \<Longrightarrow> nodeExists g n) \<Longrightarrow>
    \<exists>fg'. res_fold (\<lambda>node fg. if is_disabled node
           then res_bind (removeNode node True not_main fg) (\<lambda>(_, fg'). Inr fg') else Inr fg) ns fg = Inr fg' \<and>
      filtered_upto g (done \<union> set ns) fg'"
proof (induction ns arbitrary: "done" fg)
  case Nil
  then show ?case by simp
next
  case (Cons n ns)
  show ?case
  proof (cases "is_disabled n")
    case True
    have "nodeExists fg n" using Cons.prems by (auto simp: filtered_upto_def)
    from filter_step [OF Cons.prems(1) this True acyc] obtain r fg1 where
      "removeNode n True not_main fg = Inr (r, fg1)" "filtered_upto g (insert n done) fg1" by blast
    with Cons.IH [of "insert n done" fg1] Cons.prems(2-) True show ?thesis by auto
  next
    case False
    then have "filtered_upto g (insert n done) fg"
      using Cons.prems(1) unfolding filtered_upto_def by (metis insert_iff)
    with Cons.IH [of "insert n done" fg] Cons.prems(2-) False show ?thesis by auto
  qed
qed

text \<open>
  \<open>filterDisabledNodes\<close> returns a well-formed graph that holds exactly the enabled
  nodes, and between those nodes there is a path of main connections after the removal exactly
  when there was one before. It needs that no cycle of main connections consists of disabled
  nodes only, and that names and types are free of the separator of the connection keys.
\<close>

lemma filterDisabledNodes_correct:
  assumes "wf_graph g" and "keys_safe g" and "acyclic (disabled_edges g)"
  shows "\<exists>g'. filterDisabledNodes g = Inr g' \<and> wf_graph g' \<and>
    (\<forall>n. nodeExists g' n \<longleftrightarrow> nodeExists g n \<and> \<not> is_disabled n) \<and>
    (\<forall>a b. nodeExists g' a \<longrightarrow> nodeExists g' b \<longrightarrow>
       ((a, b) \<in> (main_edges g')\<^sup>+ \<longleftrightarrow> (a, b) \<in> (main_edges g)\<^sup>+))"
proof -
  let ?ns = "map snd (dg_nodes g)"
  have ns: "nodeExists g n \<longleftrightarrow> n \<in> set ?ns" for n using nodeExists_iff [OF assms(1)] by simp
  have "filtered_upto g {} g" using assms(1,2) by (auto simp: filtered_upto_def)
  then obtain g' where
      "filterDisabledNodes g = Inr g'" and g': "filtered_upto g (set ?ns) g'"
    using filter_nodes [OF assms(3), of "{}" g ?ns] ns distinct_nodes [OF assms(1)]
    by (auto simp: filterDisabledNodes_def clone_wf [OF assms(1)] getNodes_def)
  with ns show ?thesis unfolding filtered_upto_def by metis
qed

definition ex_node :: "nat \<Rightarrow> bool \<Rightarrow> string \<Rightarrow> INode" where
  "ex_node i dis nm = (plain_node i nm ''t'')\<lparr>n_disabled := (if dis then Some True else None)\<rparr>"

definition ex_conn :: "INode \<Rightarrow> INode \<Rightarrow> ConnectionInput" where
  "ex_conn a b = \<lparr>ci_from = a, ci_to = b, ci_type = None, ci_outputIndex = None, ci_inputIndex = None\<rparr>"

definition ex_graph :: "INode list \<Rightarrow> (nat \<times> nat) list \<Rightarrow> DirectedGraph" where
  "ex_graph ns es =
     (case addConnections (map (\<lambda>(i, j). ex_conn (ns ! i) (ns ! j)) es) (addNodes ns new_graph) of
        Inl _ \<Rightarrow> new_graph | Inr g \<Rightarrow> g)"

definition ex_disabled :: DirectedGraph where
  "ex_disabled = ex_graph [ex_node 0 False ''A'', ex_node 1 True ''B'', ex_node 2 False ''C''] [(0, 1), (1, 2)]"

lemma filterDisabledNodes_correct_witness:
  "wf_graph ex_disabled \<and> keys_safe ex_disabled \<and> acyclic (disabled_edges ex_disabled) \<and>
   (\<exists>g'. filterDisabledNodes ex_disabled = Inr g' \<and>
     (ex_node 0 False ''A'', ex_node 2 False ''C'') \<in> (main_edges g')\<^sup>+)"
proof -
  have wf: "wf_graph ex_disabled" by code_simp
  have safe: "keys_safe ex_disabled" by code_simp
  have "(\<forall>(a, b) \<in> main_edges ex_disabled. \<not> (is_disabled a \<and> is_disabled b))" by code_simp
  then have "disabled_edges ex_disabled = {}" by (auto simp: disabled_edges_def)
  then have ac: "acyclic (disabled_edges ex_disabled)" by (simp add: acyclic_def)
  have "(ex_node 0 False ''A'', ex_node 1 True ''B'') \<in> main_edges ex_disabled"
    "(ex_node 1 True ''B'', ex_node 2 False ''C'') \<in> main_edges ex_disabled"
    by code_simp+
  then have "(ex_node 0 False ''A'', ex_node 2 False ''C'') \<in> (main_edges ex_disabled)\<^sup>+"
    by (rule trancl.intros(2) [OF r_into_trancl])
  moreover have "nodeExists ex_disabled (ex_node 0 False ''A'')" "nodeExists ex_disabled (ex_node 2 False ''C'')"
    "\<not> is_disabled (ex_node 0 False ''A'')" "\<not> is_disabled (ex_node 2 False ''C'')"
    by code_simp+
  ultimately show ?thesis using filterDisabledNodes_correct [OF wf safe ac] wf safe ac by metis
qed

definition ex_disabled_loop :: DirectedGraph where
  "ex_disabled_loop = ex_graph [ex_node 0 False ''A'', ex_node 1 True ''B''] [(0, 1), (1, 1)]"

text \<open>
  Without the acyclicity the removal leaves dangling connections. A disabled node with a
  main connection to itself stays the target of a connection of the filtered graph, which is then
  not well-formed, and a search for the children of the node before it fails its assertion.
\<close>

lemma filterDisabledNodes_self_loop:
  "wf_graph ex_disabled_loop \<and> keys_safe ex_disabled_loop \<and>
   (case filterDisabledNodes ex_disabled_loop of Inl _ \<Rightarrow> False
    | Inr g' \<Rightarrow> \<not> wf_graph g' \<and> \<not> hasNode g' ''B'' \<and>
        getChildren g' (ex_node 0 False ''A'') = Inl AssertionError)"
  by code_simp

end
