(* ===== verification/Graph_Search.thy ===== *)
theory Graph_Search
  imports Graph_Edit
begin

text \<open>
  Searching a \<open>DirectedGraph\<close>: \<open>depthFirstSearch\<close>, and the exact results of
  \<open>getChildren\<close>, \<open>getParentConnections\<close>, \<open>clone\<close> and \<open>getConnection\<close>.
\<close>

section \<open>Depth-first search\<close>

text \<open>
  \<open>depthFirstSearchRecursive\<close> over the list of nodes that are still to be tried. The set
  \<open>seen\<close> is shared by all calls, so it is returned with the result.
\<close>

function depthFirstSearchLoop ::
    "DirectedGraph \<Rightarrow> (INode \<Rightarrow> bool) \<Rightarrow> INode list \<Rightarrow> INode list \<Rightarrow> (INode option \<times> INode list) result" where
  "depthFirstSearchLoop g fn [] seen = Inr (None, seen)"
| "depthFirstSearchLoop g fn (from # rest) seen =
     (if from \<in> set seen then depthFirstSearchLoop g fn rest seen
      else if fn from then Inr (Some from, seen @ [from])
      else res_bind (getDirectChildConnections g from) (\<lambda>childConnections.
           res_bind (depthFirstSearchLoop g fn (map gc_to childConnections) (seen @ [from])) (\<lambda>r.
             case fst r of
               Some found \<Rightarrow> Inr (Some found, snd r)
             | None \<Rightarrow> depthFirstSearchLoop g fn rest (snd r))))"
  by pat_completeness auto

lemma depthFirstSearchLoop_mono:
  "depthFirstSearchLoop_dom (g, fn, ns, seen) \<Longrightarrow> depthFirstSearchLoop g fn ns seen = Inr r \<Longrightarrow>
   set seen \<subseteq> set (snd r)"
proof (induction g fn ns seen arbitrary: r rule: depthFirstSearchLoop.pinduct)
  case (1 g fn seen)
  then show ?case by (auto simp: depthFirstSearchLoop.psimps)
next
  case (2 g fn n ns seen)
  show ?case
  proof (cases "n \<in> set seen \<or> fn n")
    case True
    with 2(1,2,5) show ?thesis by (auto simp: depthFirstSearchLoop.psimps split: if_splits)
  next
    case False
    with 2(1,5) obtain cs r1 where cs: "getDirectChildConnections g n = Inr cs"
      and r1: "depthFirstSearchLoop g fn (map gc_to cs) (seen @ [n]) = Inr r1"
      and rest: "(case fst r1 of Some found \<Rightarrow> Inr (Some found, snd r1)
        | None \<Rightarrow> depthFirstSearchLoop g fn ns (snd r1)) = Inr r"
      by (auto simp: depthFirstSearchLoop.psimps res_bind_Inr_iff)
    from False have f: "n \<notin> set seen" "\<not> fn n" by auto
    from 2(3) [OF f cs r1] have seen: "set seen \<subseteq> set (snd r1)" by simp
    show ?thesis
    proof (cases "fst r1")
      case None
      with rest have "depthFirstSearchLoop g fn ns (snd r1) = Inr r" by simp
      from 2(4) [OF f cs r1 None this] seen show ?thesis by blast
    next
      case (Some m)
      with rest have "snd r = snd r1" by auto
      with seen show ?thesis by simp
    qed
  qed
qed

termination depthFirstSearchLoop
proof (relation "measures [\<lambda>(g, fn, ns, seen). nodes_left g seen, \<lambda>(g, fn, ns, seen). length ns]", goal_cases)
  case 1
  show ?case by simp
next
  case (2 g fn n ns seen)
  then show ?case by simp
next
  case (3 g fn n ns seen cs)
  then show ?case
    using nodes_left_less [of g n seen "seen @ [n]"] by (simp add: child_connections_Inr)
next
  case (4 g fn n ns seen cs r)
  then have "nodes_left g (snd r) \<le> nodes_left g seen"
    using depthFirstSearchLoop_mono [OF 4(6)] by (intro nodes_left_mono) auto
  then show ?case by auto
qed

definition depthFirstSearchRecursive ::
    "DirectedGraph \<Rightarrow> INode \<Rightarrow> (INode \<Rightarrow> bool) \<Rightarrow> INode list \<Rightarrow> (INode option \<times> INode list) result" where
  "depthFirstSearchRecursive g from fn seen = depthFirstSearchLoop g fn [from] seen"

definition depthFirstSearch :: "DirectedGraph \<Rightarrow> INode \<Rightarrow> (INode \<Rightarrow> bool) \<Rightarrow> INode option result" where
  "depthFirstSearch g from fn =
     res_bind (depthFirstSearchRecursive g from fn []) (\<lambda>r. Inr (fst r))"

lemma depthFirstSearchLoop_returns:
  "wf_graph g \<Longrightarrow> (\<And>n. n \<in> set ns \<Longrightarrow> nodeExists g n) \<Longrightarrow> \<exists>r. depthFirstSearchLoop g fn ns seen = Inr r"
proof (induction g fn ns seen rule: depthFirstSearchLoop.induct)
  case (1 g fn seen)
  then show ?case by simp
next
  case (2 g fn n ns seen)
  show ?case
  proof (cases "n \<in> set seen \<or> fn n")
    case True
    with 2(1,4,5) show ?thesis by auto
  next
    case False
    then have f: "n \<notin> set seen" "\<not> fn n" by auto
    from 2(5) obtain cs where cs: "getDirectChildConnections g n = Inr cs"
      by (auto simp: getDirectChildConnections_def)
    have "nodeExists g m" if "m \<in> set (map gc_to cs)" for m
      using that wf_graphD(6) [OF 2(4)] by (auto simp: set_child_connections [OF cs])
    with 2(2) [OF f cs 2(4)] obtain r1 where r1: "depthFirstSearchLoop g fn (map gc_to cs) (seen @ [n]) = Inr r1"
      by blast
    with f cs 2(3) [OF f cs r1 _ 2(4)] 2(5) show ?thesis by (cases "fst r1") auto
  qed
qed

text \<open>Everything that was tried, when nothing was found, is closed under the edges.\<close>

lemma depthFirstSearchLoop_correct:
  "depthFirstSearchLoop g fn ns seen = Inr (found, seen') \<Longrightarrow>
     set seen \<subseteq> set seen' \<and>
     (case found of
        None \<Rightarrow> set ns \<subseteq> set seen' \<and> (\<forall>x \<in> set seen' - set seen. \<not> fn x \<and> edges g `` {x} \<subseteq> set seen')
      | Some m \<Rightarrow> fn m \<and> m \<in> (edges g)\<^sup>* `` set ns)"
proof (induction g fn ns seen arbitrary: found seen' rule: depthFirstSearchLoop.induct)
  case (1 g fn seen)
  then show ?case by auto
next
  case (2 g fn n ns seen)
  consider "n \<in> set seen" | "n \<notin> set seen" "fn n" | "n \<notin> set seen" "\<not> fn n" by blast
  then show ?case
  proof cases
    case 1
    then have "depthFirstSearchLoop g fn ns seen = Inr (found, seen')" using 2(4) by simp
    from 2(1) [OF 1 this] 1 show ?thesis by (cases found) auto
  next
    case 2
    with \<open>depthFirstSearchLoop g fn (n # ns) seen = _\<close> show ?thesis by auto
  next
    case f: 3
    with 2(4) obtain cs p where cs: "getDirectChildConnections g n = Inr cs"
      and p: "depthFirstSearchLoop g fn (map gc_to cs) (seen @ [n]) = Inr p"
      and rest0: "(case fst p of Some m \<Rightarrow> Inr (Some m, snd p) | None \<Rightarrow> depthFirstSearchLoop g fn ns (snd p)) = Inr (found, seen')"
      by (auto simp: res_bind_Inr_iff)
    obtain fnd1 seen1 where "p = (fnd1, seen1)" by (cases p)
    with p rest0 have r1: "depthFirstSearchLoop g fn (map gc_to cs) (seen @ [n]) = Inr (fnd1, seen1)"
      and rest: "(case fnd1 of Some m \<Rightarrow> Inr (Some m, seen1) | None \<Rightarrow> depthFirstSearchLoop g fn ns seen1) = Inr (found, seen')"
      by (auto split: option.splits)
    note A = 2(2) [OF f cs r1]
    have targets: "set (map gc_to cs) = edges g `` {n}" using child_targets [OF cs] by simp
    show ?thesis
    proof (cases fnd1)
      case None
      with rest have rest': "depthFirstSearchLoop g fn ns seen1 = Inr (found, seen')" by simp
      have B: "set seen1 \<subseteq> set seen' \<and> (case found of
          None \<Rightarrow> set ns \<subseteq> set seen' \<and> (\<forall>x \<in> set seen' - set seen1. \<not> fn x \<and> edges g `` {x} \<subseteq> set seen')
        | Some m \<Rightarrow> fn m \<and> m \<in> (edges g)\<^sup>* `` set ns)"
        using 2(3) [OF f cs r1, of found seen'] None rest' by (auto split: option.splits)
      from A None have A': "insert n (set seen) \<subseteq> set seen1" "edges g `` {n} \<subseteq> set seen1"
        "\<forall>x \<in> set seen1 - insert n (set seen). \<not> fn x \<and> edges g `` {x} \<subseteq> set seen1"
        unfolding targets by auto
      have "\<not> fn x \<and> edges g `` {x} \<subseteq> set seen1" if "x \<in> set seen1 - set seen" for x
        using that A' f by (cases "x = n") auto
      then have "\<not> fn x \<and> edges g `` {x} \<subseteq> set seen'" if "found = None" "x \<in> set seen' - set seen" for x
        using that B by (cases "x \<in> set seen1") auto
      with A' B show ?thesis by (cases found) auto
    next
      case (Some m)
      with rest have "found = Some m" "seen' = seen1" by auto
      moreover from A Some have "fn m" "m \<in> (edges g)\<^sup>* `` (edges g `` {n})" "set seen \<subseteq> set seen1"
        unfolding targets by auto
      ultimately show ?thesis by (auto simp: rtrancl_Image_insert)
    qed
  qed
qed

text \<open>
  \<open>depthFirstSearch\<close> returns without failing an assertion. A node it returns satisfies
  the predicate and can be reached from the start; when it returns \<open>undefined\<close>, no node that can
  be reached from the start, the start included, satisfies the predicate.
\<close>

lemma depthFirstSearch_correct:
  assumes "wf_graph g" and "nodeExists g n"
  shows "\<exists>found. depthFirstSearch g n fn = Inr found \<and>
    (\<forall>m. found = Some m \<longrightarrow> fn m \<and> (n, m) \<in> (edges g)\<^sup>*) \<and>
    (found = None \<longrightarrow> (\<forall>m. (n, m) \<in> (edges g)\<^sup>* \<longrightarrow> \<not> fn m))"
proof -
  obtain found seen where run: "depthFirstSearchLoop g fn [n] [] = Inr (found, seen)"
    using depthFirstSearchLoop_returns [OF assms(1), of "[n]" fn "[]"] assms(2) by auto
  note A = depthFirstSearchLoop_correct [OF run]
  have "\<not> fn m" if "(n, m) \<in> (edges g)\<^sup>*" "found = None" for m
  proof -
    from A that(2) have cl: "n \<in> set seen" "\<forall>x \<in> set seen. \<not> fn x \<and> edges g `` {x} \<subseteq> set seen" by auto
    from that(1) have "m \<in> set seen" by induction (use cl in auto)
    with cl show ?thesis by simp
  qed
  moreover have "fn m \<and> (n, m) \<in> (edges g)\<^sup>*" if "found = Some m" for m using A that by auto
  ultimately show ?thesis
    unfolding depthFirstSearch_def depthFirstSearchRecursive_def run by simp
qed

definition ex_cycle :: DirectedGraph where
  "ex_cycle = ex_graph [ex_node 0 False ''A'', ex_node 1 False ''B'', ex_node 2 False ''C'', ex_node 3 False ''D'']
     [(0, 1), (1, 2), (2, 1), (2, 3)]"

lemma depthFirstSearch_correct_witness:
  "wf_graph ex_cycle \<and> nodeExists ex_cycle (ex_node 0 False ''A'') \<and>
   depthFirstSearch ex_cycle (ex_node 0 False ''A'') (\<lambda>n. n_name n = ''D'') = Inr (Some (ex_node 3 False ''D'')) \<and>
   (ex_node 0 False ''A'', ex_node 3 False ''D'') \<in> (edges ex_cycle)\<^sup>*"
proof -
  have h: "wf_graph ex_cycle" "nodeExists ex_cycle (ex_node 0 False ''A'')" by code_simp+
  have "depthFirstSearch ex_cycle (ex_node 0 False ''A'') (\<lambda>n. n_name n = ''D'') = Inr (Some (ex_node 3 False ''D''))"
    by code_simp
  with h depthFirstSearch_correct [OF h, of "\<lambda>n. n_name n = ''D''"] show ?thesis by auto
qed

section \<open>Children, parents and keys\<close>

text \<open>
  \<open>getChildren\<close> returns exactly the nodes at the end of a non-empty path from the
  node; the node itself is among them exactly when it lies on a cycle.
\<close>

lemma getChildren_exact:
  assumes "wf_graph g" and "nodeExists g n"
  shows "\<exists>r. getChildren g n = Inr r \<and> set r = (edges g)\<^sup>+ `` {n}"
proof -
  obtain r where "getChildren g n = Inr r" "set r = (edges g)\<^sup>* `` (edges g `` {n})"
    using children_search.search_total assms by blast
  then show ?thesis by (auto simp: trancl_unfold_left relcomp_unfold)
qed

lemma getChildren_exact_witness:
  "wf_graph ex_cycle \<and> nodeExists ex_cycle (ex_node 1 False ''B'') \<and>
   ex_node 1 False ''B'' \<in> (edges ex_cycle)\<^sup>+ `` {ex_node 1 False ''B''}"
proof -
  have h: "wf_graph ex_cycle" "nodeExists ex_cycle (ex_node 1 False ''B'')" by code_simp+
  have "getChildren ex_cycle (ex_node 1 False ''B'') =
      Inr [ex_node 2 False ''C'', ex_node 1 False ''B'', ex_node 3 False ''D'']"
    by code_simp
  with h getChildren_exact [OF h] show ?thesis by auto
qed

lemma conn_step_reaches:
  assumes "d \<in> (conn_step g)\<^sup>* `` {c \<in> conns_of g. gc_to c = n}"
  shows "d \<in> conns_of g \<and> (gc_to d, n) \<in> (edges g)\<^sup>*"
proof -
  from assms obtain c where c: "(c, d) \<in> (conn_step g)\<^sup>*" "c \<in> conns_of g" "gc_to c = n" by auto
  from c(1) show ?thesis
  proof (induction rule: rtrancl_induct)
    case base
    with c show ?case by simp
  next
    case (step y z)
    then have "(gc_to z, gc_to y) \<in> edges g" by (auto simp: conn_step_def dest: edge_of_conn)
    with step show ?case by (auto simp: conn_step_def intro: converse_rtrancl_into_rtrancl)
  qed
qed

lemma reaches_conn_step:
  assumes "(x, n) \<in> (edges g)\<^sup>*" and "d \<in> conns_of g" and "gc_to d = x"
  shows "d \<in> (conn_step g)\<^sup>* `` {c \<in> conns_of g. gc_to c = n}"
  using assms
proof (induction arbitrary: d rule: converse_rtrancl_induct)
  case base
  then show ?case by auto
next
  case (step y z)
  from step.hyps(1) obtain c where c: "c \<in> conns_of g" "gc_from c = y" "gc_to c = z"
    by (auto simp: edges_def)
  from step.IH [OF c(1,3)] obtain b where b: "(b, c) \<in> (conn_step g)\<^sup>*" "b \<in> conns_of g" "gc_to b = n" by auto
  have "(c, d) \<in> conn_step g" using c step.prems by (simp add: conn_step_def)
  with b show ?case by (auto intro: rtrancl_into_rtrancl)
qed

text \<open>
  \<open>getParentConnections\<close> returns exactly the connections that end in the node or in a
  node from which it can be reached.
\<close>

lemma getParentConnections_exact:
  assumes "wf_graph g" and "nodeExists g n"
  shows "\<exists>r. getParentConnections g n = Inr r \<and> set r = {c \<in> conns_of g. (gc_to c, n) \<in> (edges g)\<^sup>*}"
proof -
  obtain r where "getParentConnections g n = Inr r" "set r = (conn_step g)\<^sup>* `` {c \<in> conns_of g. gc_to c = n}"
    using parents_search.search_total assms by blast
  moreover have "(conn_step g)\<^sup>* `` {c \<in> conns_of g. gc_to c = n} = {c \<in> conns_of g. (gc_to c, n) \<in> (edges g)\<^sup>*}"
    using conn_step_reaches reaches_conn_step by blast
  ultimately show ?thesis by simp
qed

lemma getParentConnections_exact_witness:
  "wf_graph ex_cycle \<and> nodeExists ex_cycle (ex_node 1 False ''B'') \<and>
   (\<exists>r. getParentConnections ex_cycle (ex_node 1 False ''B'') = Inr r \<and> length r = 3 \<and>
      set r = {c \<in> conns_of ex_cycle. (gc_to c, ex_node 1 False ''B'') \<in> (edges ex_cycle)\<^sup>*})"
proof -
  have h: "wf_graph ex_cycle" "nodeExists ex_cycle (ex_node 1 False ''B'')" by code_simp+
  have "(case getParentConnections ex_cycle (ex_node 1 False ''B'') of Inl _ \<Rightarrow> 0 | Inr r \<Rightarrow> length r) = 3" by code_simp
  with h getParentConnections_exact [OF h] show ?thesis by auto
qed

text \<open>
  A connection that was added is returned by \<open>getConnection\<close> under its end points, type
  and indices, and every other lookup stays the same, provided the names and types of the graph
  are free of the separator of the keys.
\<close>

lemma addConnection_getConnection:
  assumes "keys_safe g" and "dash_free t'" and "dash_free (or_default Main t)"
    and "addConnection \<lparr>ci_from = a, ci_to = b, ci_type = t, ci_outputIndex = Some k, ci_inputIndex = Some j\<rparr> g = Inr g'"
    and "nodeExists g a'" "nodeExists g b'"
  shows "getConnection g' a' k' t' j' b' =
    (if (a', k', t', j', b') = (a, k, or_default Main t, j, b)
     then Some \<lparr>gc_from = a, gc_to = b, gc_type = or_default Main t, gc_outputIndex = k, gc_inputIndex = j\<rparr>
     else getConnection g a' k' t' j' b')"
proof -
  let ?c = "\<lparr>gc_from = a, gc_to = b, gc_type = or_default Main t, gc_outputIndex = k, gc_inputIndex = j\<rparr>"
  let ?c' = "\<lparr>gc_from = a', gc_to = b', gc_type = t', gc_outputIndex = k', gc_inputIndex = j'\<rparr>"
  from assms(4) have g': "g' = g\<lparr>dg_connections := AList.update (makeKey ?c) ?c (dg_connections g)\<rparr>"
    and ends: "nodeExists g a" "nodeExists g b"
    by (auto simp: addConnection_Inr or_default_def Let_def)
  have "makeKey ?c' = makeKey ?c \<longleftrightarrow> ?c' = ?c"
    using makeKey_eqD [OF assms(1), of ?c' ?c] assms ends by auto
  then show ?thesis by (auto simp: getConnection_def g' update_conv')
qed

lemma addConnection_getConnection_witness:
  "keys_safe ex_cycle \<and>
   (\<exists>g'. addConnection \<lparr>ci_from = ex_node 3 False ''D'', ci_to = ex_node 0 False ''A'', ci_type = None,
      ci_outputIndex = Some 1, ci_inputIndex = Some 0\<rparr> ex_cycle = Inr g' \<and>
     getConnection g' (ex_node 3 False ''D'') 1 Main 0 (ex_node 0 False ''A'') \<noteq> None)"
proof -
  let ?D = "ex_node 3 False ''D''" let ?A = "ex_node 0 False ''A''"
  have h: "keys_safe ex_cycle" "dash_free Main" "dash_free (or_default Main None)"
    and e: "nodeExists ex_cycle ?D" "nodeExists ex_cycle ?A" by code_simp+
  obtain g' where g': "addConnection \<lparr>ci_from = ?D, ci_to = ?A, ci_type = None, ci_outputIndex = Some 1, ci_inputIndex = Some 0\<rparr> ex_cycle = Inr g'"
    using e by (simp add: addConnection_def Let_def)
  from addConnection_getConnection [OF h g' e, of 1 0] h g' show ?thesis by (auto simp: or_default_def)
qed

definition ex_dashes :: DirectedGraph where
  "ex_dashes = ex_graph [ex_node 0 False ''A'', ex_node 1 False ''B-main-0-0-C'',
     ex_node 2 False ''A-main-0-0-B'', ex_node 3 False ''C''] [(0, 1)]"

text \<open>
  Node names that contain the separator can give two connections the same key, and then
  adding the second connection replaces the first: one connection is left.
\<close>

lemma makeKey_collision:
  "let a = ex_node 0 False ''A''; b = ex_node 1 False ''B-main-0-0-C'';
       c = ex_node 2 False ''A-main-0-0-B''; d = ex_node 3 False ''C''
   in wf_graph ex_dashes \<and> getDirectChildConnections ex_dashes a \<noteq> Inr [] \<and>
      (case addConnection (ex_conn c d) ex_dashes of Inl _ \<Rightarrow> False
       | Inr g' \<Rightarrow> length (dg_connections g') = 1 \<and> getDirectChildConnections g' a = Inr [])"
  by code_simp

end
