(* ===== verification/Start_Nodes.thy ===== *)
theory Start_Nodes
  imports Graph_Search
begin

text \<open>
  Where a partial execution starts: reading the data a node left behind
  (\<open>get-incoming-data.ts\<close>), deciding whether a node has to be run again, and following the
  graph from the trigger to the first such nodes (\<open>find-start-nodes.ts\<close>).
\<close>

section \<open>Reading run data\<close>

text \<open>\<open>Array.prototype.at\<close>: a negative index counts from the end.\<close>

definition array_at :: "'a list \<Rightarrow> int \<Rightarrow> 'a option" where
  "array_at xs i =
     (let k = (if i < 0 then i + int (length xs) else i)
      in if 0 \<le> k \<and> k < int (length xs) then Some (xs ! nat k) else None)"

text \<open>\<open>data?.[connectionType].at(...)\<close> reads a property of \<open>undefined\<close> when the task has
  data but none of the given connection type.\<close>

definition getIncomingData ::
    "IRunData \<Rightarrow> string \<Rightarrow> int \<Rightarrow> string \<Rightarrow> nat \<Rightarrow> INodeExecutionData list option result" where
  "getIncomingData runData nodeName runIndex connectionType outputIndex =
     (case map_of runData nodeName of
        None \<Rightarrow> Inr None
      | Some tasks \<Rightarrow> (case array_at tasks runIndex of
          None \<Rightarrow> Inr None
        | Some task \<Rightarrow> (case t_data task of
            None \<Rightarrow> Inr None
          | Some data \<Rightarrow> (case map_of data connectionType of
              None \<Rightarrow> Inl TypeError
            | Some outputs \<Rightarrow> (case array_at outputs (int outputIndex) of
                None \<Rightarrow> Inr None
              | Some items \<Rightarrow> Inr items)))))"

definition getRunIndexLength :: "IRunData \<Rightarrow> string \<Rightarrow> nat" where
  "getRunIndexLength runData nodeName = (case map_of runData nodeName of None \<Rightarrow> 0 | Some tasks \<Rightarrow> length tasks)"

fun fromAnyRun :: "(nat \<Rightarrow> INodeExecutionData list option result) \<Rightarrow> nat list
    \<Rightarrow> (INodeExecutionData list \<times> nat) option result" where
  "fromAnyRun get [] = Inr None"
| "fromAnyRun get (runIndex # rest) =
     res_bind (get runIndex) (\<lambda>data.
       case data of
         None \<Rightarrow> fromAnyRun get rest
       | Some items \<Rightarrow> if items \<noteq> [] then Inr (Some (items, runIndex)) else fromAnyRun get rest)"

definition getIncomingDataFromAnyRun ::
    "IRunData \<Rightarrow> string \<Rightarrow> string \<Rightarrow> nat \<Rightarrow> (INodeExecutionData list \<times> nat) option result" where
  "getIncomingDataFromAnyRun runData nodeName connectionType outputIndex =
     fromAnyRun (\<lambda>runIndex. getIncomingData runData nodeName (int runIndex) connectionType outputIndex)
       [0 ..< getRunIndexLength runData nodeName]"

text \<open>Every task of the node that has data has data of the given type.\<close>

definition has_type :: "IRunData \<Rightarrow> string \<Rightarrow> string \<Rightarrow> bool" where
  "has_type runData nodeName t \<longleftrightarrow>
     (case map_of runData nodeName of None \<Rightarrow> True
      | Some tasks \<Rightarrow> list_all (\<lambda>task. case t_data task of None \<Rightarrow> True | Some d \<Rightarrow> map_of d t \<noteq> None) tasks)"

lemma array_at_in: "array_at xs i = Some x \<Longrightarrow> x \<in> set xs"
  by (auto simp: array_at_def Let_def split: if_splits)

lemma getIncomingData_returns:
  assumes "has_type rd nm t"
  shows "\<exists>r. getIncomingData rd nm i t k = Inr r"
proof -
  have "map_of d t \<noteq> None" if "map_of rd nm = Some tasks" "array_at tasks i = Some task" "t_data task = Some d" for tasks task d
    using assms that array_at_in [OF that(2)] by (auto simp: has_type_def list_all_iff)
  then show ?thesis unfolding getIncomingData_def by (fastforce split: option.splits)
qed

lemma fromAnyRun_returns:
  "(\<And>i. i \<in> set is \<Longrightarrow> \<exists>r. get i = Inr r) \<Longrightarrow> \<exists>r. fromAnyRun get is = Inr r"
proof (induction "is")
  case Nil
  then show ?case by simp
next
  case (Cons i "is")
  from Cons.prems [of i] obtain r where "get i = Inr r" by auto
  with Cons show ?case by (cases r) auto
qed

lemma getIncomingDataFromAnyRun_returns:
  "has_type rd nm t \<Longrightarrow> \<exists>r. getIncomingDataFromAnyRun rd nm t k = Inr r"
  unfolding getIncomingDataFromAnyRun_def by (intro fromAnyRun_returns getIncomingData_returns)

text \<open>The first run with items on the output.\<close>

lemma fromAnyRun_Some:
  "fromAnyRun get is = Inr (Some (items, i)) \<Longrightarrow>
   i \<in> set is \<and> get i = Inr (Some items) \<and> items \<noteq> []"
  by (induction "is") (auto simp: res_bind_Inr_iff split: option.splits if_splits)

lemma fromAnyRun_None:
  "fromAnyRun get is = Inr None \<Longrightarrow> i \<in> set is \<Longrightarrow> get i = Inr (Some items) \<Longrightarrow> items = []"
  by (induction "is") (auto simp: res_bind_Inr_iff split: option.splits if_splits)

section \<open>Dirty nodes\<close>

definition isDirty :: "INode \<Rightarrow> IRunData \<Rightarrow> IPinData \<Rightarrow> bool" where
  "isDirty node runData pinData =
     (let hasAnError = (case map_of runData (n_name node) of
            None \<Rightarrow> False | Some tasks \<Rightarrow> list_ex (\<lambda>taskData. t_error taskData \<noteq> None) tasks)
      in if hasAnError then True
         else if map_of pinData (n_name node) \<noteq> None then False
         else if map_of runData (n_name node) \<noteq> None then False
         else True)"

section \<open>Following the graph\<close>

definition isALoop :: "DirectedGraph \<Rightarrow> INode \<Rightarrow> bool result" where
  "isALoop graph node = res_bind (getChildren graph node) (\<lambda>children. Inr (node \<in> set children))"

text \<open>The loop node check: no items on the \<open>done\<close> output of the last run.\<close>

definition loopUnfinished :: "DirectedGraph \<Rightarrow> IRunData \<Rightarrow> INode \<Rightarrow> bool result" where
  "loopUnfinished graph runData current =
     (if n_type current = ''n8n-nodes-base.splitInBatches'' then
        res_bind (isALoop graph current) (\<lambda>loop.
        res_bind (getIncomingData runData (n_name current) (-1) Main (if loop then 0 else 1)) (\<lambda>nodeRunData.
          Inr (case nodeRunData of None \<Rightarrow> True | Some items \<Rightarrow> items = [])))
      else Inr False)"

text \<open>The check of one outgoing connection: its output has run data or its node has pinned data.\<close>

definition hasOutputData :: "IRunData \<Rightarrow> IPinData \<Rightarrow> GraphConnection \<Rightarrow> bool result" where
  "hasOutputData runData pinData c =
     res_bind (getIncomingDataFromAnyRun runData (n_name (gc_from c)) (gc_type c) (gc_outputIndex c)) (\<lambda>nodeRunData.
       let hasNoRunData = (case nodeRunData of None \<Rightarrow> True | Some (items, _) \<Rightarrow> items = []);
           hasNoPinnedData = (map_of pinData (n_name (gc_from c)) = None)
       in Inr (\<not> (hasNoRunData \<and> hasNoPinnedData)))"

function (sequential)
  findStartNodesRecursive ::
    "DirectedGraph \<Rightarrow> INode \<Rightarrow> IRunData \<Rightarrow> IPinData \<Rightarrow> INode list \<Rightarrow> INode \<Rightarrow> INode list \<Rightarrow> INode list result" and
  findStartNodesLoop ::
    "DirectedGraph \<Rightarrow> INode \<Rightarrow> IRunData \<Rightarrow> IPinData \<Rightarrow> INode list \<Rightarrow> GraphConnection list \<Rightarrow> INode list \<Rightarrow> INode list result"
where
  "findStartNodesRecursive graph destination runData pinData seen current startNodes =
     (if isDirty current runData pinData then Inr (set_add current startNodes)
      else if current = destination then Inr (set_add current startNodes)
      else res_bind (loopUnfinished graph runData current) (\<lambda>unfinished.
        if unfinished then Inr (set_add current startNodes)
        else if current \<in> set seen then Inr startNodes
        else res_bind (getDirectChildConnections graph current) (\<lambda>outGoingConnections.
          findStartNodesLoop graph destination runData pinData (seen @ [current]) outGoingConnections startNodes)))"
| "findStartNodesLoop graph destination runData pinData seen [] startNodes = Inr startNodes"
| "findStartNodesLoop graph destination runData pinData seen (c # rest) startNodes =
     res_bind (hasOutputData runData pinData c) (\<lambda>hasData.
       if \<not> hasData then findStartNodesLoop graph destination runData pinData seen rest startNodes
       else res_bind (findStartNodesRecursive graph destination runData pinData seen (gc_to c) startNodes) (\<lambda>startNodes'.
         findStartNodesLoop graph destination runData pinData seen rest startNodes'))"
  by pat_completeness auto

termination findStartNodesRecursive
proof (relation "measures
    [\<lambda>x. case x of Inl (g, d, rd, pd, seen, c, st) \<Rightarrow> nodes_left g seen | Inr (g, d, rd, pd, seen, cs, st) \<Rightarrow> nodes_left g seen,
     \<lambda>x. case x of Inl _ \<Rightarrow> 0 | Inr (g, d, rd, pd, seen, cs, st) \<Rightarrow> Suc (length cs)]", goal_cases)
  case 1
  show ?case by simp
next
  case (2 g d rd pd seen c st unfinished conns)
  then have "nodes_left g (seen @ [c]) < nodes_left g seen"
    by (intro nodes_left_less [of g c]) (auto simp: child_connections_Inr)
  then show ?case by simp
qed auto

definition findStartNodes :: "DirectedGraph \<Rightarrow> INode \<Rightarrow> INode \<Rightarrow> IPinData \<Rightarrow> IRunData \<Rightarrow> INode list result" where
  "findStartNodes graph trigger destination pinData runData =
     findStartNodesRecursive graph destination runData pinData [] trigger []"

section \<open>The start nodes\<close>

text \<open>Data of every connection's type, and \<open>main\<close> data for loop nodes.\<close>

definition typed_run_data :: "DirectedGraph \<Rightarrow> IRunData \<Rightarrow> bool" where
  "typed_run_data g rd \<longleftrightarrow>
     list_all (\<lambda>(_, c). has_type rd (n_name (gc_from c)) (gc_type c)) (dg_connections g) \<and>
     list_all (\<lambda>(_, n). n_type n = ''n8n-nodes-base.splitInBatches'' \<longrightarrow> has_type rd (n_name n) Main) (dg_nodes g)"

text \<open>A branch ends at a dirty node, at the destination and at an unfinished loop node.\<close>

definition stops_at :: "DirectedGraph \<Rightarrow> INode \<Rightarrow> IRunData \<Rightarrow> IPinData \<Rightarrow> INode \<Rightarrow> bool" where
  "stops_at g d rd pd n \<longleftrightarrow> isDirty n rd pd \<or> n = d \<or> loopUnfinished g rd n = Inr True"

definition follow_edges :: "DirectedGraph \<Rightarrow> INode \<Rightarrow> IRunData \<Rightarrow> IPinData \<Rightarrow> (INode \<times> INode) set" where
  "follow_edges g d rd pd = {(gc_from c, gc_to c) | c.
     c \<in> conns_of g \<and> hasOutputData rd pd c = Inr True \<and> \<not> stops_at g d rd pd (gc_from c)}"

definition avoiding :: "'a set \<Rightarrow> ('a \<times> 'a) set \<Rightarrow> ('a \<times> 'a) set" where
  "avoiding S r = {(a, b) \<in> r. a \<notin> S}"

lemma avoiding_empty [simp]: "avoiding {} r = r"
  by (auto simp: avoiding_def)

text \<open>The last departure from the first node of a path.\<close>

lemma last_departure:
  assumes "(a, n) \<in> (avoiding S r)\<^sup>*" and "a \<noteq> n"
  shows "\<exists>b. (a, b) \<in> avoiding S r \<and> (b, n) \<in> (avoiding (insert a S) r)\<^sup>*"
  using assms
proof (induction rule: rtrancl_induct)
  case base
  then show ?case by simp
next
  case (step y z)
  show ?case
  proof (cases "y = a")
    case True
    with step show ?thesis by blast
  next
    case False
    with step obtain b where b: "(a, b) \<in> avoiding S r" "(b, y) \<in> (avoiding (insert a S) r)\<^sup>*" by auto
    from step(2) False have "(y, z) \<in> avoiding (insert a S) r" by (auto simp: avoiding_def)
    with b show ?thesis by (meson rtrancl_into_rtrancl)
  qed
qed

lemma avoiding_mono: "S \<subseteq> T \<Longrightarrow> (avoiding T r)\<^sup>* \<subseteq> (avoiding S r)\<^sup>*"
  by (rule rtrancl_mono) (auto simp: avoiding_def)

lemma found_through:
  assumes "a \<notin> S" and "\<not> P a"
  shows "{n. P n \<and> (a, n) \<in> (avoiding S r)\<^sup>*} =
    (\<Union>b \<in> r `` {a}. {n. P n \<and> (b, n) \<in> (avoiding (insert a S) r)\<^sup>*})"
proof -
  have "(a, n) \<in> (avoiding S r)\<^sup>* \<longleftrightarrow> (\<exists>b. (a, b) \<in> r \<and> (b, n) \<in> (avoiding (insert a S) r)\<^sup>*)" if "P n" for n
  proof
    assume "(a, n) \<in> (avoiding S r)\<^sup>*"
    with that assms(2) last_departure [of a n S r] show "\<exists>b. (a, b) \<in> r \<and> (b, n) \<in> (avoiding (insert a S) r)\<^sup>*"
      by (auto simp: avoiding_def)
  next
    assume "\<exists>b. (a, b) \<in> r \<and> (b, n) \<in> (avoiding (insert a S) r)\<^sup>*"
    then obtain b where b: "(a, b) \<in> r" "(b, n) \<in> (avoiding (insert a S) r)\<^sup>*" by blast
    have "(a, b) \<in> avoiding S r" using b(1) assms(1) by (simp add: avoiding_def)
    moreover have "(b, n) \<in> (avoiding S r)\<^sup>*" using b(2) avoiding_mono [of S "insert a S" r] by auto
    ultimately show "(a, n) \<in> (avoiding S r)\<^sup>*" by (rule converse_rtrancl_into_rtrancl)
  qed
  then show ?thesis by auto
qed

lemma loopUnfinished_returns:
  assumes "wf_graph g" and "typed_run_data g rd" and "nodeExists g n"
  shows "\<exists>b. loopUnfinished g rd n = Inr b"
proof (cases "n_type n = ''n8n-nodes-base.splitInBatches''")
  case False
  then have "loopUnfinished g rd n = Inr False" by (simp add: loopUnfinished_def)
  then show ?thesis ..
next
  case True
  obtain ch where ch: "getChildren g n = Inr ch" using children_search.returns assms(1,3) by blast
  have "n \<in> snd ` set (dg_nodes g)" using nodeExists_iff [OF assms(1)] assms(3) by simp
  with assms(2) True have "has_type rd (n_name n) Main" by (auto simp: typed_run_data_def list_all_iff)
  from getIncomingData_returns [OF this] obtain r where
    "getIncomingData rd (n_name n) (-1) Main (if n \<in> set ch then 0 else 1) = Inr r" by blast
  with True ch show ?thesis by (simp add: loopUnfinished_def isALoop_def)
qed

lemma hasOutputData_returns:
  assumes "typed_run_data g rd" and "c \<in> conns_of g"
  shows "\<exists>b. hasOutputData rd pd c = Inr b"
proof -
  have "has_type rd (n_name (gc_from c)) (gc_type c)"
    using assms by (auto simp: typed_run_data_def list_all_iff conns_of_def)
  from getIncomingDataFromAnyRun_returns [OF this] obtain r where
    "getIncomingDataFromAnyRun rd (n_name (gc_from c)) (gc_type c) (gc_outputIndex c) = Inr r" by blast
  then show ?thesis by (simp add: hasOutputData_def Let_def)
qed

lemma findStartNodes_sets:
  shows "wf_graph g \<Longrightarrow> typed_run_data g rd \<Longrightarrow> nodeExists g cur \<Longrightarrow>
    \<exists>r. findStartNodesRecursive g d rd pd seen cur st = Inr r \<and>
      set r = set st \<union> {n. stops_at g d rd pd n \<and> (cur, n) \<in> (avoiding (set seen) (follow_edges g d rd pd))\<^sup>*}"
    and "wf_graph g \<Longrightarrow> typed_run_data g rd \<Longrightarrow> set cs \<subseteq> conns_of g \<Longrightarrow>
    \<exists>r. findStartNodesLoop g d rd pd seen cs st = Inr r \<and>
      set r = set st \<union> (\<Union>c \<in> {c \<in> set cs. hasOutputData rd pd c = Inr True}.
        {n. stops_at g d rd pd n \<and> (gc_to c, n) \<in> (avoiding (set seen) (follow_edges g d rd pd))\<^sup>*})"
proof (induction g d rd pd seen cur st and g d rd pd seen cs st rule: findStartNodesRecursive_findStartNodesLoop.induct)
  case (1 g d rd pd seen cur st)
  let ?R = "follow_edges g d rd pd"
  obtain u where u: "loopUnfinished g rd cur = Inr u" using loopUnfinished_returns "1.prems" by blast
  show ?case
  proof (cases "stops_at g d rd pd cur")
    case True
    then have "(cur, b) \<notin> ?R" for b by (auto simp: follow_edges_def)
    then have "(cur, n) \<in> (avoiding (set seen) ?R)\<^sup>* \<longleftrightarrow> n = cur" for n
      by (auto simp: avoiding_def elim: converse_rtranclE)
    with True u show ?thesis by (auto simp: stops_at_def)
  next
    case False
    then have no: "\<not> isDirty cur rd pd" "cur \<noteq> d" "\<not> u" using u by (auto simp: stops_at_def)
    show ?thesis
    proof (cases "cur \<in> set seen")
      case True
      then have "(cur, n) \<in> (avoiding (set seen) ?R)\<^sup>* \<longleftrightarrow> n = cur" for n
        by (auto simp: avoiding_def elim: converse_rtranclE)
      with True no u False show ?thesis by auto
    next
      case new: False
      obtain conns where conns: "getDirectChildConnections g cur = Inr conns"
        using "1.prems"(3) by (auto simp: getDirectChildConnections_def)
      have sc: "set conns = {c \<in> conns_of g. gc_from c = cur}" by (rule set_child_connections [OF conns])
      then have "set conns \<subseteq> conns_of g" by blast
      from "1.IH" [OF no(1,2) u no(3) new conns "1.prems"(1,2) this] obtain r where
        r: "findStartNodesLoop g d rd pd (seen @ [cur]) conns st = Inr r"
          "set r = set st \<union> (\<Union>c \<in> {c \<in> set conns. hasOutputData rd pd c = Inr True}.
             {n. stops_at g d rd pd n \<and> (gc_to c, n) \<in> (avoiding (set (seen @ [cur])) ?R)\<^sup>*})" by blast
      have step: "gc_to ` {c \<in> set conns. hasOutputData rd pd c = Inr True} = ?R `` {cur}"
        using False by (force simp: sc follow_edges_def)
      have "set r = set st \<union> (\<Union>b \<in> ?R `` {cur}. {n. stops_at g d rd pd n \<and> (b, n) \<in> (avoiding (insert cur (set seen)) ?R)\<^sup>*})"
        unfolding r(2) by (simp add: image_image flip: step)
      with found_through [OF new, of "stops_at g d rd pd" ?R] False r(1) u no new conns show ?thesis by simp
    qed
  qed
next
  case (2 g d rd pd seen st)
  then show ?case by simp
next
  case (3 g d rd pd seen c cs st)
  then have c: "c \<in> conns_of g" "set cs \<subseteq> conns_of g" by auto
  obtain b where b: "hasOutputData rd pd c = Inr b" using hasOutputData_returns "3.prems"(2) c(1) by blast
  show ?case
  proof (cases b)
    case False
    with "3.IH"(1) [OF b _ "3.prems"(1,2) c(2)] b show ?thesis by auto
  next
    case True
    have "nodeExists g (gc_to c)" by (rule wf_graphD(6) [OF "3.prems"(1) c(1)])
    with "3.IH"(2) [OF b _ "3.prems"(1,2)] True obtain r1 where
      r1: "findStartNodesRecursive g d rd pd seen (gc_to c) st = Inr r1"
        "set r1 = set st \<union> {n. stops_at g d rd pd n \<and> (gc_to c, n) \<in> (avoiding (set seen) (follow_edges g d rd pd))\<^sup>*}" by auto
    from "3.IH"(3) [OF b _ r1(1) "3.prems"(1,2) c(2)] True obtain r where
      r: "findStartNodesLoop g d rd pd seen cs r1 = Inr r"
        "set r = set r1 \<union> (\<Union>c \<in> {c \<in> set cs. hasOutputData rd pd c = Inr True}.
          {n. stops_at g d rd pd n \<and> (gc_to c, n) \<in> (avoiding (set seen) (follow_edges g d rd pd))\<^sup>*})" by auto
    have "{x \<in> set (c # cs). hasOutputData rd pd x = Inr True} = insert c {x \<in> set cs. hasOutputData rd pd x = Inr True}"
      using b True by auto
    with r r1 b True show ?thesis by auto
  qed
qed

text \<open>
  C34: \<open>findStartNodes\<close> returns exactly the nodes at which a branch ends: the dirty nodes, the
  destination and the unfinished loop nodes that can be reached from the trigger through
  connections whose output has run data or pinned data, without passing another such node.
\<close>

theorem findStartNodes_exact:
  assumes "wf_graph g" and "typed_run_data g rd" and "nodeExists g trigger"
  shows "\<exists>r. findStartNodes g trigger d pd rd = Inr r \<and>
    set r = {n. stops_at g d rd pd n \<and> (trigger, n) \<in> (follow_edges g d rd pd)\<^sup>*}"
  using findStartNodes_sets(1) [OF assms, of d pd "[]" "[]"] by (simp add: findStartNodes_def)

definition ex_task :: "ITaskDataConnections \<Rightarrow> ITaskData" where
  "ex_task d = \<lparr>t_executionIndex = Some 0, t_source = [], t_executionStatus = Some ''success'', t_data = Some d,
     t_error = None, t_metadata = []\<rparr>"

definition ex_run_data :: IRunData where
  "ex_run_data = [(''A'', [ex_task emptyItemData]), (''B'', [ex_task emptyItemData])]"

theorem findStartNodes_exact_witness:
  "wf_graph ex_cycle \<and> typed_run_data ex_cycle ex_run_data \<and> nodeExists ex_cycle (ex_node 0 False ''A'') \<and>
   findStartNodes ex_cycle (ex_node 0 False ''A'') (ex_node 3 False ''D'') [] ex_run_data = Inr [ex_node 2 False ''C''] \<and>
   stops_at ex_cycle (ex_node 3 False ''D'') ex_run_data [] (ex_node 2 False ''C'')"
proof -
  have h: "wf_graph ex_cycle" "typed_run_data ex_cycle ex_run_data" "nodeExists ex_cycle (ex_node 0 False ''A'')" by code_simp+
  have "findStartNodes ex_cycle (ex_node 0 False ''A'') (ex_node 3 False ''D'') [] ex_run_data = Inr [ex_node 2 False ''C'']"
    by code_simp
  with h findStartNodes_exact [OF h, of "ex_node 3 False ''D''" "[]"] show ?thesis by auto
qed

end
