(* ===== verification/Source_Groups.thy ===== *)
theory Source_Groups
  imports Start_Nodes "HOL-Library.Multiset"
begin

text \<open>
  \<open>get-source-data-groups.ts\<close>: the incoming connections of a node, grouped into sets that
  hold one connection per input. The order of node names is \<open>String.prototype.localeCompare\<close>
  of the runtime's locale and a parameter of the definitions.
\<close>

section \<open>Sorting\<close>

definition sortByInputIndexThenByName ::
    "(string \<Rightarrow> string \<Rightarrow> int) \<Rightarrow> GraphConnection \<Rightarrow> GraphConnection \<Rightarrow> int" where
  "sortByInputIndexThenByName localeCompare connection1 connection2 =
     (if gc_inputIndex connection1 = gc_inputIndex connection2
      then localeCompare (n_name (gc_from connection1)) (n_name (gc_from connection2))
      else int (gc_inputIndex connection1) - int (gc_inputIndex connection2))"

section \<open>Grouping\<close>

record SourceConnectionGroup =
  sg_complete :: bool
  sg_connections :: "GraphConnection list"

definition newGroup :: SourceConnectionGroup where
  "newGroup = \<lparr>sg_complete = True, sg_connections = []\<rparr>"

text \<open>One less than the smallest input index that is left; only used when one is left.\<close>

definition beforeFirstInput :: "GraphConnection list \<Rightarrow> GraphConnection list \<Rightarrow> int" where
  "beforeFirstInput withData withoutData =
     Min (set (map (\<lambda>c. int (gc_inputIndex c)) (withData @ withoutData))) - 1"

definition at_input :: "int \<Rightarrow> GraphConnection \<Rightarrow> bool" where
  "at_input i c \<longleftrightarrow> int (gc_inputIndex c) = i"

definition inputs_left :: "GraphConnection list \<Rightarrow> GraphConnection list \<Rightarrow> int \<Rightarrow> nat" where
  "inputs_left withData withoutData i =
     2 * (length withData + length withoutData) + (if list_ex (at_input (i + 1)) (withData @ withoutData) then 0 else 1)"

text \<open>The \<open>while\<close> loop. \<open>splice\<close> removes the connection that \<open>findIndex\<close> found.\<close>

function groupLoop ::
    "GraphConnection list \<Rightarrow> GraphConnection list \<Rightarrow> int \<Rightarrow> SourceConnectionGroup \<Rightarrow> SourceConnectionGroup list
       \<Rightarrow> SourceConnectionGroup list" where
  "groupLoop withData withoutData currentInputIndex currentGroup groups =
     (if withData = [] \<and> withoutData = [] then groups @ [currentGroup]
      else case find (at_input (currentInputIndex + 1)) withData of
        Some connection \<Rightarrow>
          groupLoop (remove1 connection withData) withoutData (currentInputIndex + 1)
            (currentGroup\<lparr>sg_connections := sg_connections currentGroup @ [connection]\<rparr>) groups
      | None \<Rightarrow> (case find (at_input (currentInputIndex + 1)) withoutData of
          Some connection \<Rightarrow>
            groupLoop withData (remove1 connection withoutData) (currentInputIndex + 1)
              (currentGroup\<lparr>sg_connections := sg_connections currentGroup @ [connection], sg_complete := False\<rparr>) groups
        | None \<Rightarrow>
            groupLoop withData withoutData (beforeFirstInput withData withoutData) newGroup (groups @ [currentGroup])))"
  by pat_completeness auto

lemma first_input_left:
  assumes "\<not> (A = [] \<and> B = [])"
  shows "list_ex (at_input (beforeFirstInput A B + 1)) (A @ B)"
proof -
  let ?S = "set (map (\<lambda>c. int (gc_inputIndex c)) (A @ B))"
  have "finite ?S" "?S \<noteq> {}" using assms by auto
  then have "Min ?S \<in> ?S" by (rule Min_in)
  then show ?thesis by (auto simp: beforeFirstInput_def at_input_def list_ex_iff)
qed

lemma find_SomeD: "find P xs = Some x \<Longrightarrow> x \<in> set xs \<and> P x"
  by (auto simp: find_Some_iff)

lemma remove1_length: "x \<in> set xs \<Longrightarrow> Suc (length (remove1 x xs)) = length xs"
  by (simp add: length_remove1 length_greater_0_conv [symmetric] del: length_greater_0_conv) (use length_pos_if_in_set in fastforce)

termination groupLoop
proof (relation "measure (\<lambda>(A, B, i, g, gs). inputs_left A B i)", goal_cases)
  case 1
  show ?case by simp
next
  case (2 A B i g gs)
  have "\<not> list_ex (at_input (i + 1)) (A @ B)" using 2(2,3) by (auto simp: find_None_iff list_ex_iff)
  with first_input_left [OF 2(1)] show ?case by (simp add: inputs_left_def)
next
  case (3 A B i g gs c)
  then have "Suc (length (remove1 c B)) = length B" by (auto dest!: find_SomeD intro: remove1_length)
  then show ?case by (simp add: inputs_left_def)
next
  case (4 A B i g gs c)
  then have "Suc (length (remove1 c A)) = length A" by (auto dest!: find_SomeD intro: remove1_length)
  then show ?case by (simp add: inputs_left_def)
qed

definition has_data :: "IRunData \<Rightarrow> IPinData \<Rightarrow> GraphConnection \<Rightarrow> bool" where
  "has_data runData pinnedData c \<longleftrightarrow>
     map_of runData (n_name (gc_from c)) \<noteq> None \<or> map_of pinnedData (n_name (gc_from c)) \<noteq> None"

definition getSourceDataGroups ::
    "(string \<Rightarrow> string \<Rightarrow> int) \<Rightarrow> DirectedGraph \<Rightarrow> INode \<Rightarrow> IRunData \<Rightarrow> IPinData \<Rightarrow> SourceConnectionGroup list" where
  "getSourceDataGroups localeCompare graph node runData pinnedData =
     (let connections = getConnections graph (Some node);
          withData = filter (has_data runData pinnedData) connections;
          withoutData = filter (\<lambda>c. \<not> has_data runData pinnedData c \<and> gc_type c = Main) connections
      in if withData = [] \<and> withoutData = [] then []
         else let sortedWith = js_sort (sortByInputIndexThenByName localeCompare) withData;
                  sortedWithout = js_sort (sortByInputIndexThenByName localeCompare) withoutData
              in groupLoop sortedWith sortedWithout (beforeFirstInput sortedWith sortedWithout) newGroup [])"

declare groupLoop.simps [simp del]

section \<open>What the groups hold\<close>

definition consecutive :: "nat list \<Rightarrow> bool" where
  "consecutive xs \<longleftrightarrow> xs = [hd xs ..< hd xs + length xs]"

definition group_ok :: "(GraphConnection \<Rightarrow> bool) \<Rightarrow> SourceConnectionGroup \<Rightarrow> bool" where
  "group_ok hasData g \<longleftrightarrow> sg_connections g \<noteq> [] \<and> consecutive (map gc_inputIndex (sg_connections g)) \<and>
     (sg_complete g \<longleftrightarrow> list_all hasData (sg_connections g))"

text \<open>The group that is being filled, before the input index is advanced.\<close>

definition filling :: "(GraphConnection \<Rightarrow> bool) \<Rightarrow> GraphConnection list \<Rightarrow> int \<Rightarrow> SourceConnectionGroup \<Rightarrow> bool" where
  "filling hasData left i g \<longleftrightarrow>
     (if sg_connections g = [] then sg_complete g \<and> list_ex (at_input (i + 1)) left
      else group_ok hasData g \<and> int (gc_inputIndex (last (sg_connections g))) = i)"

lemma consecutive_snoc:
  assumes "xs \<noteq> []" and "consecutive xs"
  shows "consecutive (xs @ [Suc (last xs)])"
proof -
  from assms have xs: "xs = [hd xs ..< hd xs + length xs]" by (simp add: consecutive_def)
  have "last xs = hd xs + length xs - 1"
    using assms(1) xs by (metis Nat.add_0_right add_diff_cancel_left' last_upt length_0_conv length_upt nat_neq_iff not_add_less1 zero_less_diff)
  with assms(1) have "Suc (last xs) = hd xs + length xs" by (cases xs) auto
  with xs assms(1) show ?thesis by (simp add: consecutive_def flip: upt_Suc_append)
qed

lemma filling_push:
  assumes "filling hasData left i g" and "at_input (i + 1) c"
    and "g' = g\<lparr>sg_connections := sg_connections g @ [c], sg_complete := sg_complete g \<and> hasData c\<rparr>"
  shows "filling hasData left' (i + 1) g'"
proof (cases "sg_connections g = []")
  case True
  with assms show ?thesis by (auto simp: filling_def group_ok_def consecutive_def at_input_def)
next
  case False
  with assms have g: "group_ok hasData g" "int (gc_inputIndex (last (sg_connections g))) = i" by (simp_all add: filling_def)
  then have "gc_inputIndex c = Suc (last (map gc_inputIndex (sg_connections g)))"
    using assms(2) False by (simp add: at_input_def last_map)
  with g(1) False have "consecutive (map gc_inputIndex (sg_connections g @ [c]))"
    using consecutive_snoc [of "map gc_inputIndex (sg_connections g)"] by (simp add: group_ok_def)
  with g False assms(2,3) show ?thesis by (auto simp: filling_def group_ok_def at_input_def)
qed

lemma groupLoop_correct:
  assumes "filling hasData (A @ B) i g" and "\<forall>x \<in> set gs. group_ok hasData x"
    and "\<forall>c \<in> set A. hasData c" and "\<forall>c \<in> set B. \<not> hasData c"
  shows "(\<forall>x \<in> set (groupLoop A B i g gs). group_ok hasData x) \<and>
    mset (concat (map sg_connections (groupLoop A B i g gs))) =
      mset A + mset B + mset (sg_connections g) + mset (concat (map sg_connections gs))"
  using assms
proof (induction A B i g gs rule: groupLoop.induct)
  case (1 A B i g gs)
  show ?case
  proof (cases "A = [] \<and> B = []")
    case True
    with "1.prems" show ?thesis by (auto simp: groupLoop.simps filling_def split: if_splits)
  next
    case False
    show ?thesis
    proof (cases "find (at_input (i + 1)) A")
      case (Some c)
      let ?g = "g\<lparr>sg_connections := sg_connections g @ [c]\<rparr>"
      from find_SomeD [OF Some] have c: "c \<in> set A" "at_input (i + 1) c" by auto
      have "?g = g\<lparr>sg_connections := sg_connections g @ [c], sg_complete := sg_complete g \<and> hasData c\<rparr>"
        using c "1.prems"(3) by simp
      from "1.IH"(3) [OF False Some filling_push [OF "1.prems"(1) c(2) this] "1.prems"(2)] "1.prems"(3,4)
      have IH: "(\<forall>x \<in> set (groupLoop (remove1 c A) B (i + 1) ?g gs). group_ok hasData x) \<and>
          mset (concat (map sg_connections (groupLoop (remove1 c A) B (i + 1) ?g gs))) =
            mset (remove1 c A) + mset B + mset (sg_connections ?g) + mset (concat (map sg_connections gs))"
        by (auto dest: notin_set_remove1)
      have "groupLoop A B i g gs = groupLoop (remove1 c A) B (i + 1) ?g gs"
        using False Some by (subst groupLoop.simps) auto
      with IH c(1) show ?thesis by simp
    next
      case None
      show ?thesis
      proof (cases "find (at_input (i + 1)) B")
        case (Some c)
        let ?g = "g\<lparr>sg_connections := sg_connections g @ [c], sg_complete := False\<rparr>"
        from find_SomeD [OF Some] have c: "c \<in> set B" "at_input (i + 1) c" by auto
        have "?g = g\<lparr>sg_connections := sg_connections g @ [c], sg_complete := sg_complete g \<and> hasData c\<rparr>"
          using c "1.prems"(4) by simp
        from "1.IH"(2) [OF False None Some filling_push [OF "1.prems"(1) c(2) this] "1.prems"(2)] "1.prems"(3,4)
        have IH: "(\<forall>x \<in> set (groupLoop A (remove1 c B) (i + 1) ?g gs). group_ok hasData x) \<and>
            mset (concat (map sg_connections (groupLoop A (remove1 c B) (i + 1) ?g gs))) =
              mset A + mset (remove1 c B) + mset (sg_connections ?g) + mset (concat (map sg_connections gs))"
          by (auto dest: notin_set_remove1)
        have "groupLoop A B i g gs = groupLoop A (remove1 c B) (i + 1) ?g gs"
          using False None Some by (subst groupLoop.simps) auto
        with IH c(1) show ?thesis by simp
      next
        case none: None
        have "\<not> list_ex (at_input (i + 1)) (A @ B)" using None none by (auto simp: find_None_iff list_ex_iff)
        with "1.prems"(1) have g: "group_ok hasData g" by (simp add: filling_def split: if_splits)
        have "filling hasData (A @ B) (beforeFirstInput A B) newGroup"
          using first_input_left [OF False] by (simp add: filling_def newGroup_def)
        note IH = "1.IH"(1) [OF False None none this _ "1.prems"(3,4)]
        have "groupLoop A B i g gs = groupLoop A B (beforeFirstInput A B) newGroup (gs @ [g])"
          using False None none by (subst groupLoop.simps) auto
        with IH "1.prems"(2) g show ?thesis by (simp add: newGroup_def)
      qed
    qed
  qed
qed

lemma groupLoop_sorted:
  assumes "\<not> (A = [] \<and> B = [])" and "\<forall>c \<in> set A. hasData c" and "\<forall>c \<in> set B. \<not> hasData c"
    and "SA = js_sort cmp A" and "SB = js_sort cmp B"
  shows "(\<forall>x \<in> set (groupLoop SA SB (beforeFirstInput SA SB) newGroup []). group_ok hasData x) \<and>
    mset (concat (map sg_connections (groupLoop SA SB (beforeFirstInput SA SB) newGroup []))) = mset A + mset B"
proof -
  have s: "mset SA = mset A" "mset SB = mset B" "set SA = set A" "set SB = set B" by (simp_all add: assms(4,5))
  have "SA \<noteq> [] \<or> SB \<noteq> []" using assms(1) s(3,4) by auto
  with first_input_left [of SA SB] have "filling hasData (SA @ SB) (beforeFirstInput SA SB) newGroup"
    by (simp add: filling_def newGroup_def)
  from groupLoop_correct [OF this, of "[]"] assms(2,3) show ?thesis by (simp add: s newGroup_def)
qed

lemma source_groups_ok:
  "(\<forall>x \<in> set (getSourceDataGroups localeCompare g n rd pd). group_ok (has_data rd pd) x) \<and>
    mset (concat (map sg_connections (getSourceDataGroups localeCompare g n rd pd))) =
      mset (filter (\<lambda>c. gc_to c = n \<and> (has_data rd pd c \<or> gc_type c = Main)) (map snd (dg_connections g)))"
proof -
  let ?has = "has_data rd pd"
  let ?cs = "getConnections g (Some n)"
  let ?A = "filter ?has ?cs" and ?B = "filter (\<lambda>c. \<not> ?has c \<and> gc_type c = Main) ?cs"
  let ?SA = "js_sort (sortByInputIndexThenByName localeCompare) ?A"
  let ?SB = "js_sort (sortByInputIndexThenByName localeCompare) ?B"
  have parts: "mset ?A + mset ?B = mset (filter (\<lambda>c. gc_to c = n \<and> (?has c \<or> gc_type c = Main)) (map snd (dg_connections g)))"
  proof -
    have "mset (filter P xs) + mset (filter (\<lambda>c. \<not> P c \<and> Q c) xs) = mset (filter (\<lambda>c. P c \<or> Q c) xs)"
      for P Q and xs :: "GraphConnection list" by (induction xs) auto
    from this [of ?has ?cs "\<lambda>c. gc_type c = Main"] show ?thesis
      unfolding getConnections_def option.case filter_filter by (simp add: conj_commute)
  qed
  have eq: "getSourceDataGroups localeCompare g n rd pd =
      (if ?A = [] \<and> ?B = [] then [] else groupLoop ?SA ?SB (beforeFirstInput ?SA ?SB) newGroup [])"
    by (simp add: getSourceDataGroups_def Let_def)
  show ?thesis
  proof (cases "?A = [] \<and> ?B = []")
    case True
    with parts show ?thesis unfolding eq by simp
  next
    case False
    have "(\<forall>x \<in> set (groupLoop ?SA ?SB (beforeFirstInput ?SA ?SB) newGroup []). group_ok ?has x) \<and>
        mset (concat (map sg_connections (groupLoop ?SA ?SB (beforeFirstInput ?SA ?SB) newGroup []))) = mset ?A + mset ?B"
      by (rule groupLoop_sorted [OF False _ _ refl refl]) simp_all
    moreover have "getSourceDataGroups localeCompare g n rd pd = groupLoop ?SA ?SB (beforeFirstInput ?SA ?SB) newGroup []"
      unfolding eq using False by (rule if_not_P)
    ultimately show ?thesis unfolding parts by simp
  qed
qed


definition ex_input :: "INode \<Rightarrow> INode \<Rightarrow> nat \<Rightarrow> ConnectionInput" where
  "ex_input a b i = (ex_conn a b)\<lparr>ci_inputIndex := Some i\<rparr>"

definition ex_merge :: DirectedGraph where
  "ex_merge = (let a = ex_node 0 False ''A''; b = ex_node 1 False ''B''; c = ex_node 2 False ''C''; m = ex_node 3 False ''M''
     in case addConnections [ex_input a m 0, ex_input b m 1, ex_input c m 1] (addNodes [a, b, c, m] new_graph) of
          Inl _ \<Rightarrow> new_graph | Inr g \<Rightarrow> g)"

text \<open>The names before another in code point order come first.\<close>

fun ex_compare :: "string \<Rightarrow> string \<Rightarrow> int" where
  "ex_compare [] [] = 0"
| "ex_compare [] (d # ds) = -1"
| "ex_compare (c # cs) [] = 1"
| "ex_compare (c # cs) (d # ds) = (if c = d then ex_compare cs ds else if of_char c < (of_char d :: nat) then -1 else 1)"


end
