(* ===== verification/Execution_Stack.thy ===== *)
theory Execution_Stack
  imports Source_Groups
begin

text \<open>
  \<open>recreate-node-execution-stack.ts\<close>: the execution stack and the waiting executions of a
  partial execution, rebuilt from the run data and the pinned data.
\<close>

section \<open>Waiting executions\<close>

text \<open>Assigning to an array element; the array grows with holes if it is too short. A hole and
  \<open>null\<close> are both \<open>None\<close>.\<close>

definition arr_assign :: "nat \<Rightarrow> 'a option \<Rightarrow> 'a option list \<Rightarrow> 'a option list" where
  "arr_assign i v xs = (xs @ replicate (Suc i - length xs) None)[i := v]"

text \<open>An object with numeric keys enumerates them in ascending order.\<close>

fun idx_set :: "nat \<Rightarrow> 'v \<Rightarrow> (nat, 'v) dict \<Rightarrow> (nat, 'v) dict" where
  "idx_set k v [] = [(k, v)]"
| "idx_set k v ((l, w) # m) =
     (if k < l then (k, v) # (l, w) # m else if k = l then (k, v) # m else (l, w) # idx_set k v m)"

text \<open>The nested assignment that both functions make; \<open>?? {}\<close> and \<open>?? []\<close> read an absent
  entry as empty.\<close>

type_synonym 'v waiting = "(string, (nat, (string, 'v option list) dict) dict) dict"

definition addWaiting :: "'v waiting \<Rightarrow> string \<Rightarrow> nat \<Rightarrow> string \<Rightarrow> nat \<Rightarrow> 'v option \<Rightarrow> 'v waiting" where
  "addWaiting waiting nodeName runIndex inputType inputIndex v =
     (let waitingObject = or_default [] (map_of waiting nodeName);
          taskData = or_default [] (map_of waitingObject runIndex);
          dataList = arr_assign inputIndex v (or_default [] (map_of taskData inputType))
      in obj_set nodeName (idx_set runIndex (obj_set inputType dataList taskData) waitingObject) waiting)"

definition addWaitingExecution ::
    "IWaitingForExecution \<Rightarrow> string \<Rightarrow> nat \<Rightarrow> string \<Rightarrow> nat \<Rightarrow> INodeExecutionData list option \<Rightarrow> IWaitingForExecution" where
  "addWaitingExecution = addWaiting"

definition addWaitingExecutionSource ::
    "IWaitingForExecutionSource \<Rightarrow> string \<Rightarrow> nat \<Rightarrow> string \<Rightarrow> nat \<Rightarrow> ISourceData option \<Rightarrow> IWaitingForExecutionSource" where
  "addWaitingExecutionSource = addWaiting"

section \<open>Recreating the stack\<close>

record recreated =
  r_nodeExecutionStack :: "IExecuteData list"
  r_waitingExecution :: IWaitingForExecution
  r_waitingExecutionSource :: IWaitingForExecutionSource

definition recreated_init :: recreated where
  "recreated_init = \<lparr>r_nodeExecutionStack = [], r_waitingExecution = [], r_waitingExecutionSource = []\<rparr>"

text \<open>The data and the source of one connection of a complete group.\<close>

definition completeInput ::
    "IRunData \<Rightarrow> IPinData \<Rightarrow> GraphConnection \<Rightarrow> INodeExecutionData list option list \<times> ISourceData option list
       \<Rightarrow> (INodeExecutionData list option list \<times> ISourceData option list) result" where
  "completeInput runData pinData c acc =
     (let name = n_name (gc_from c);
          src = (\<lambda>runIndex. Some \<lparr>previousNode = name, previousNodeOutput = Some (gc_outputIndex c), previousNodeRun = Some runIndex\<rparr>)
      in case map_of pinData name of
           Some items \<Rightarrow> Inr (fst acc @ [Some items], snd acc @ [src 0])
         | None \<Rightarrow>
             if map_of runData name = None then Inl AssertionError
             else res_bind (getIncomingDataFromAnyRun runData name (gc_type c) (gc_outputIndex c)) (\<lambda>found.
               case found of
                 Some (items, runIndex) \<Rightarrow> Inr (fst acc @ [Some items], snd acc @ [src runIndex])
               | None \<Rightarrow> Inr (fst acc, snd acc @ [src 0])))"

text \<open>One connection of an incomplete group.\<close>

definition incompleteInput ::
    "IRunData \<Rightarrow> string \<Rightarrow> nat \<Rightarrow> GraphConnection \<Rightarrow> recreated \<Rightarrow> recreated result" where
  "incompleteInput runData nodeName nextRunIndex c st =
     res_bind (getIncomingDataFromAnyRun runData (n_name (gc_from c)) (gc_type c) (gc_outputIndex c)) (\<lambda>found.
       case found of
         None \<Rightarrow> Inr st
       | Some (items, _) \<Rightarrow> Inr (st\<lparr>
           r_waitingExecution := addWaitingExecution (r_waitingExecution st) nodeName nextRunIndex
             (gc_type c) (gc_inputIndex c) (Some items),
           r_waitingExecutionSource := addWaitingExecutionSource (r_waitingExecutionSource st) nodeName nextRunIndex
             (gc_type c) (gc_inputIndex c)
             (Some \<lparr>previousNode = n_name (gc_from c), previousNodeOutput = Some (gc_outputIndex c),
                    previousNodeRun = Some nextRunIndex\<rparr>)\<rparr>))"

definition execute_entry :: "INode \<Rightarrow> INodeExecutionData list option list \<Rightarrow> ISourceData option list option \<Rightarrow> IExecuteData" where
  "execute_entry node inputs sources =
     \<lparr>e_node = node, e_data = [(Main, inputs)], e_source = map_option (\<lambda>s. [(Main, s)]) sources,
      e_runIndex = None, e_metadata = None\<rparr>"

definition recreateGroup ::
    "IRunData \<Rightarrow> IPinData \<Rightarrow> INode \<Rightarrow> SourceConnectionGroup \<Rightarrow> recreated \<Rightarrow> recreated result" where
  "recreateGroup runData pinData startNode sourceData st =
     (if sg_complete sourceData then
        res_bind (res_fold (completeInput runData pinData) (sg_connections sourceData) ([], [])) (\<lambda>(inputs, sources).
          Inr (st\<lparr>r_nodeExecutionStack := r_nodeExecutionStack st @ [execute_entry startNode inputs (Some sources)]\<rparr>))
      else
        let nextRunIndex = (case map_of (r_waitingExecution st) (n_name startNode) of None \<Rightarrow> 0 | Some runs \<Rightarrow> length runs)
        in res_fold (incompleteInput runData (n_name startNode) nextRunIndex) (sg_connections sourceData) st)"

definition recreateStartNode ::
    "(string \<Rightarrow> string \<Rightarrow> int) \<Rightarrow> DirectedGraph \<Rightarrow> IRunData \<Rightarrow> IPinData \<Rightarrow> INode \<Rightarrow> recreated \<Rightarrow> recreated result" where
  "recreateStartNode localeCompare graph runData pinData startNode st =
     res_bind (getDirectParentConnections graph startNode) (\<lambda>parents.
       if filter (\<lambda>c. gc_type c = Main) parents = []
       then Inr (st\<lparr>r_nodeExecutionStack := r_nodeExecutionStack st @ [execute_entry startNode [Some [emptyItem]] None]\<rparr>)
       else res_fold (recreateGroup runData pinData startNode)
              (getSourceDataGroups localeCompare graph startNode runData pinData) st)"

definition recreateNodeExecutionStack ::
    "(string \<Rightarrow> string \<Rightarrow> int) \<Rightarrow> DirectedGraph \<Rightarrow> INode list \<Rightarrow> IRunData \<Rightarrow> IPinData \<Rightarrow> recreated result" where
  "recreateNodeExecutionStack localeCompare graph startNodes runData pinData =
     (if list_ex (\<lambda>(_, node). n_disabled node = Some True) (getNodes graph) then Inl AssertionError
      else res_fold (recreateStartNode localeCompare graph runData pinData) startNodes recreated_init)"

section \<open>Run indices of the waiting executions\<close>

text \<open>The run indices of every node are \<open>0, 1, \<dots>\<close> without gaps.\<close>

definition gapless :: "'v waiting \<Rightarrow> bool" where
  "gapless w \<longleftrightarrow> (\<forall>nm runs. map_of w nm = Some runs \<longrightarrow> map fst runs = [0 ..< length runs])"

definition run_count :: "'v waiting \<Rightarrow> string \<Rightarrow> nat" where
  "run_count w nm = (case map_of w nm of None \<Rightarrow> 0 | Some runs \<Rightarrow> length runs)"

lemma idx_set_keys:
  "map fst m = [a ..< a + length m] \<Longrightarrow> a \<le> k \<Longrightarrow> k \<le> a + length m \<Longrightarrow>
   map fst (idx_set k v m) = [a ..< (if k = a + length m then Suc k else a + length m)]"
proof (induction m arbitrary: a)
  case Nil
  then show ?case by simp
next
  case (Cons p m)
  obtain l w where p: "p = (l, w)" by (cases p)
  have upt: "[a ..< a + length (p # m)] = a # [Suc a ..< Suc a + length m]" by (simp add: upt_rec [of a "Suc _"] del: upt_Suc)
  with Cons.prems(1) have "l # map fst m = a # [Suc a ..< Suc a + length m]" by (simp add: p)
  then have l: "l = a" and m: "map fst m = [Suc a ..< Suc a + length m]" by auto
  show ?case
  proof (cases "k = a")
    case True
    with l m upt show ?thesis by (simp add: p del: upt_Suc)
  next
    case False
    with Cons.prems(2,3) Cons.IH [OF m]
    have "map fst (idx_set k v m) = [Suc a ..< (if k = a + length (p # m) then Suc k else a + length (p # m))]"
      by (simp del: upt_Suc)
    with False Cons.prems(2) l show ?thesis by (simp add: p upt_conv_Cons del: upt_Suc)
  qed
qed

lemma addWaiting_counts:
  assumes "gapless w" and "k \<le> run_count w nm"
  shows "gapless (addWaiting w nm k t i v)"
    and "run_count (addWaiting w nm k t i v) nm' = (if nm' = nm then max (Suc k) (run_count w nm) else run_count w nm')"
proof -
  define runs where "runs = or_default [] (map_of w nm)"
  have len: "length runs = run_count w nm" by (simp add: runs_def run_count_def or_default_def split: option.split)
  have keys: "map fst runs = [0 ..< 0 + length runs]"
    using assms(1) by (auto simp: runs_def or_default_def gapless_def split: option.split)
  obtain tm where eq: "addWaiting w nm k t i v = obj_set nm (idx_set k tm runs) w"
    by (simp add: addWaiting_def Let_def runs_def)
  have k: "map fst (idx_set k tm runs) = [0 ..< max (Suc k) (length runs)]"
    using idx_set_keys [OF keys, of k tm] assms(2) by (auto simp: len max_def)
  then have l: "length (idx_set k tm runs) = max (Suc k) (length runs)" by (metis diff_zero length_map length_upt)
  show "gapless (addWaiting w nm k t i v)"
    using assms(1) k l by (auto simp: gapless_def eq map_of_obj_set)
  show "run_count (addWaiting w nm k t i v) nm' = (if nm' = nm then max (Suc k) (run_count w nm) else run_count w nm')"
    using l len by (simp add: run_count_def eq map_of_obj_set)
qed

text \<open>Both waiting structures are gapless and hold the same run indices.\<close>

definition waiting_inv :: "recreated \<Rightarrow> bool" where
  "waiting_inv st \<longleftrightarrow> gapless (r_waitingExecution st) \<and> gapless (r_waitingExecutionSource st) \<and>
     run_count (r_waitingExecution st) = run_count (r_waitingExecutionSource st)"

lemma incompleteInput_inv:
  assumes "has_type rd (n_name (gc_from c)) (gc_type c)" and "waiting_inv st" and "k \<le> run_count (r_waitingExecution st) nm"
  shows "\<exists>st'. incompleteInput rd nm k c st = Inr st' \<and> waiting_inv st' \<and> k \<le> run_count (r_waitingExecution st') nm \<and>
    r_nodeExecutionStack st' = r_nodeExecutionStack st"
proof -
  obtain found where "getIncomingDataFromAnyRun rd (n_name (gc_from c)) (gc_type c) (gc_outputIndex c) = Inr found"
    using getIncomingDataFromAnyRun_returns [OF assms(1)] by blast
  then show ?thesis
    using assms(2,3)
    by (cases found)
      (auto simp: incompleteInput_def waiting_inv_def addWaitingExecution_def addWaitingExecutionSource_def
        addWaiting_counts fun_eq_iff)
qed

lemma completeInput_returns:
  assumes "has_type rd (n_name (gc_from c)) (gc_type c)" and "has_data rd pd c"
  shows "\<exists>acc'. completeInput rd pd c acc = Inr acc'"
proof -
  obtain found where "getIncomingDataFromAnyRun rd (n_name (gc_from c)) (gc_type c) (gc_outputIndex c) = Inr found"
    using getIncomingDataFromAnyRun_returns [OF assms(1)] by blast
  with assms(2) show ?thesis
    by (cases found) (auto simp: completeInput_def has_data_def Let_def split: option.split)
qed

definition entries_of :: "INode \<Rightarrow> recreated \<Rightarrow> nat" where
  "entries_of n st = length (filter (\<lambda>e. e_node e = n) (r_nodeExecutionStack st))"

lemma recreateGroup_inv:
  assumes "\<forall>c \<in> set (sg_connections grp). has_type rd (n_name (gc_from c)) (gc_type c)"
    and "group_ok (has_data rd pd) grp" and "waiting_inv st"
  shows "\<exists>st'. recreateGroup rd pd s grp st = Inr st' \<and> waiting_inv st' \<and>
    (\<forall>n. entries_of n st' = entries_of n st + (if n = s \<and> sg_complete grp then 1 else 0))"
proof (cases "sg_complete grp")
  case True
  then have "\<forall>c \<in> set (sg_connections grp). has_data rd pd c" using assms(2) by (simp add: group_ok_def list_all_iff)
  with assms(1) have "\<exists>acc. res_fold (completeInput rd pd) (sg_connections grp) ([], []) = Inr acc \<and> True"
    by (intro res_fold_Inr_if) (use completeInput_returns in blast)+
  then obtain inputs sources where "res_fold (completeInput rd pd) (sg_connections grp) ([], []) = Inr (inputs, sources)" by auto
  with True assms(3) show ?thesis
    by (auto simp: recreateGroup_def waiting_inv_def entries_of_def execute_entry_def)
next
  case False
  let ?k = "run_count (r_waitingExecution st) (n_name s)"
  let ?P = "\<lambda>st'. waiting_inv st' \<and> ?k \<le> run_count (r_waitingExecution st') (n_name s) \<and>
    r_nodeExecutionStack st' = r_nodeExecutionStack st"
  have "\<exists>st'. res_fold (incompleteInput rd (n_name s) ?k) (sg_connections grp) st = Inr st' \<and> ?P st'"
    by (rule res_fold_Inr_if) (use assms incompleteInput_inv in force)+
  with False show ?thesis by (auto simp: recreateGroup_def Let_def entries_of_def run_count_def)
qed

definition complete_groups ::
    "(string \<Rightarrow> string \<Rightarrow> int) \<Rightarrow> DirectedGraph \<Rightarrow> IRunData \<Rightarrow> IPinData \<Rightarrow> INode \<Rightarrow> nat" where
  "complete_groups lc g rd pd s = length (filter sg_complete (getSourceDataGroups lc g s rd pd))"

lemma recreate_groups_inv:
  assumes "\<And>grp. grp \<in> set grps \<Longrightarrow> group_ok (has_data rd pd) grp \<and>
      (\<forall>c \<in> set (sg_connections grp). has_type rd (n_name (gc_from c)) (gc_type c))"
    and "waiting_inv st"
  shows "\<exists>st'. res_fold (recreateGroup rd pd s) grps st = Inr st' \<and> waiting_inv st' \<and>
    (\<forall>n. entries_of n st' = entries_of n st + (if n = s then length (filter sg_complete grps) else 0))"
  using assms
proof (induction grps arbitrary: st)
  case Nil
  then show ?case by simp
next
  case (Cons grp grps)
  from recreateGroup_inv [of grp rd pd st s] Cons.prems obtain st1 where st1: "recreateGroup rd pd s grp st = Inr st1" "waiting_inv st1"
    "\<forall>n. entries_of n st1 = entries_of n st + (if n = s \<and> sg_complete grp then 1 else 0)" by auto
  from Cons.IH [OF _ st1(2)] Cons.prems(1) obtain st2 where "res_fold (recreateGroup rd pd s) grps st1 = Inr st2" "waiting_inv st2"
    "\<forall>n. entries_of n st2 = entries_of n st1 + (if n = s then length (filter sg_complete grps) else 0)" by auto
  with st1 show ?case by auto
qed

definition has_main_parent :: "DirectedGraph \<Rightarrow> INode \<Rightarrow> bool" where
  "has_main_parent g n \<longleftrightarrow> list_ex (\<lambda>(_, c). gc_to c = n \<and> gc_type c = Main) (dg_connections g)"

lemma recreateStartNode_inv:
  assumes g: "typed_run_data g rd" "nodeExists g s" and st: "waiting_inv st"
  shows "\<exists>st'. recreateStartNode lc g rd pd s st = Inr st' \<and> waiting_inv st' \<and>
    (\<forall>n. entries_of n st' = entries_of n st +
      (if n = s then if has_main_parent g s then complete_groups lc g rd pd s else 1 else 0))"
proof -
  obtain pcs where pcs: "getDirectParentConnections g s = Inr pcs" using g(2) by (simp add: getDirectParentConnections_def)
  then have hm: "filter (\<lambda>c. gc_type c = Main) pcs = [] \<longleftrightarrow> \<not> has_main_parent g s"
    by (auto simp: parent_connections_Inr has_main_parent_def list_ex_iff filter_empty_conv)
  show ?thesis
  proof (cases "has_main_parent g s")
    case False
    with pcs hm st show ?thesis
      by (auto simp: recreateStartNode_def waiting_inv_def entries_of_def execute_entry_def)
  next
    case True
    let ?grps = "getSourceDataGroups lc g s rd pd"
    note ok = source_groups_ok [of lc g s rd pd]
    have "set (concat (map sg_connections ?grps)) \<subseteq> conns_of g"
      using conjunct2 [OF ok, THEN mset_eq_setD] by (auto simp: conns_of_def)
    then have "has_type rd (n_name (gc_from c)) (gc_type c)" if "grp \<in> set ?grps" "c \<in> set (sg_connections grp)" for grp c
      using that g(1) by (force simp: typed_run_data_def list_all_iff conns_of_def)
    with ok recreate_groups_inv [of ?grps rd pd st s] st obtain st' where
      "res_fold (recreateGroup rd pd s) ?grps st = Inr st'" "waiting_inv st'"
      "\<forall>n. entries_of n st' = entries_of n st + (if n = s then length (filter sg_complete ?grps) else 0)" by blast
    with True hm pcs show ?thesis by (auto simp: recreateStartNode_def complete_groups_def)
  qed
qed



text \<open>
  The data of a complete group is appended in the order of the connections and not stored under
  the input index of the connection. With two sources on input 1 and one on input 0, the second
  group holds one connection to input 1, and its items are passed to the node as input 0.
\<close>

lemma recreateNodeExecutionStack_shifts_input:
  "let m = ex_node 3 False ''M'';
       rd = (''C'', [ex_task emptyItemData]) # ex_run_data
   in map (map gc_inputIndex \<circ> sg_connections) (getSourceDataGroups ex_compare ex_merge m rd []) = [[0, 1], [1]] \<and>
      (case recreateNodeExecutionStack ex_compare ex_merge [m] rd [] of Inl _ \<Rightarrow> False
       | Inr st \<Rightarrow> map e_data (r_nodeExecutionStack st) =
           [[(Main, [Some [emptyItem], Some [emptyItem]])], [(Main, [Some [emptyItem]])]])"
  by code_simp

end
