(* ===== verification/Workflow.thy ===== *)
theory Workflow
  imports Connected_Nodes
begin

text \<open>
  The class \<open>Workflow\<close> of \<open>packages/workflow/src/workflow.ts\<close>: the nodes by name, the
  connections by source and by destination, and the queries and updates over them. Node types
  come from the \<open>INodeTypes\<close> service and are a function of name and version. The constructor's
  filling in of parameter defaults (\<open>NodeHelpers.getNodeParameters\<close>) and the rewriting of
  expressions (\<open>applyAccessPatterns\<close>) are functions passed to the definitions that use them.
\<close>

section \<open>The state\<close>

record INodeType =
  nt_name :: string
  nt_group :: "string list"
  nt_trigger :: bool
  nt_poll :: bool

type_synonym INodeTypes = "string \<Rightarrow> nat \<Rightarrow> INodeType option"

record Workflow =
  w_nodes :: "(string, INode) dict"
  w_connectionsBySourceNode :: IConnections
  w_connectionsByDestinationNode :: IConnections
  w_pinData :: "IPinData option"
  w_active :: bool

definition setNodes :: "INode list \<Rightarrow> Workflow \<Rightarrow> Workflow" where
  "setNodes nodes w = w\<lparr>w_nodes := fold (\<lambda>node. obj_set (n_name node) node) nodes []\<rparr>"

definition setConnections :: "IConnections \<Rightarrow> Workflow \<Rightarrow> Workflow" where
  "setConnections connections w =
     w\<lparr>w_connectionsBySourceNode := connections,
       w_connectionsByDestinationNode := mapConnectionsByDestination connections\<rparr>"

definition setPinData :: "IPinData option \<Rightarrow> Workflow \<Rightarrow> Workflow" where
  "setPinData pinData w = w\<lparr>w_pinData := pinData\<rparr>"

text \<open>The constructor; \<open>getNodeParameters\<close> returns the parameters with their defaults, or \<open>None\<close>
  for \<open>null\<close>.\<close>

definition withDefaults :: "INodeTypes \<Rightarrow> (INodeType \<Rightarrow> INode \<Rightarrow> json option) \<Rightarrow> INode \<Rightarrow> INode" where
  "withDefaults nodeTypes getNodeParameters node =
     (case nodeTypes (n_type node) (n_typeVersion node) of
        None \<Rightarrow> node
      | Some nodeType \<Rightarrow> node\<lparr>n_parameters :=
          (case getNodeParameters nodeType node of None \<Rightarrow> JObj [] | Some p \<Rightarrow> p)\<rparr>)"

definition newWorkflow ::
    "INodeTypes \<Rightarrow> (INodeType \<Rightarrow> INode \<Rightarrow> json option) \<Rightarrow> INode list \<Rightarrow> IConnections \<Rightarrow> bool \<Rightarrow> IPinData option \<Rightarrow> Workflow" where
  "newWorkflow nodeTypes getNodeParameters nodes connections active pinData =
     setPinData pinData (setConnections connections
       (setNodes (map (withDefaults nodeTypes getNodeParameters) nodes)
         \<lparr>w_nodes = [], w_connectionsBySourceNode = [], w_connectionsByDestinationNode = [],
          w_pinData = None, w_active = active\<rparr>))"

text \<open>A second copy of the inversion, kept as a static method.\<close>

definition getConnectionsByDestination :: "IConnections \<Rightarrow> IConnections" where
  "getConnectionsByDestination connections =
     fold (\<lambda>(sourceNode, tm) ret. fold (\<lambda>(type, outs) ret.
       fold (\<lambda>(inputIndex, group) ret.
         fold (\<lambda>connectionInfo ret. addDestination sourceNode type inputIndex connectionInfo ret) (or_empty group) ret)
         (enumerate 0 outs) ret) tm ret) connections []"

section \<open>Queries\<close>

definition queryNodes :: "INodeTypes \<Rightarrow> (INodeType \<Rightarrow> bool) \<Rightarrow> Workflow \<Rightarrow> INode list" where
  "queryNodes nodeTypes checkFunction w =
     filter (\<lambda>node. n_disabled node \<noteq> Some True \<and>
         (case nodeTypes (n_type node) (n_typeVersion node) of None \<Rightarrow> False | Some nodeType \<Rightarrow> checkFunction nodeType))
       (map snd (w_nodes w))"

definition getTriggerNodes :: "INodeTypes \<Rightarrow> Workflow \<Rightarrow> INode list" where
  "getTriggerNodes nodeTypes = queryNodes nodeTypes nt_trigger"

definition getPollNodes :: "INodeTypes \<Rightarrow> Workflow \<Rightarrow> INode list" where
  "getPollNodes nodeTypes = queryNodes nodeTypes nt_poll"

definition getNode :: "Workflow \<Rightarrow> string \<Rightarrow> INode option" where
  "getNode w nodeName = map_of (w_nodes w) nodeName"

definition getNodesOf :: "Workflow \<Rightarrow> string list \<Rightarrow> INode list" where
  "getNodesOf w nodeNames = List.map_filter (getNode w) nodeNames"

definition getPinDataOfNode :: "Workflow \<Rightarrow> string \<Rightarrow> INodeExecutionData list option" where
  "getPinDataOfNode w nodeName = (case w_pinData w of None \<Rightarrow> None | Some p \<Rightarrow> map_of p nodeName)"

definition wfGetChildNodes :: "Workflow \<Rightarrow> string \<Rightarrow> conn_type \<Rightarrow> int \<Rightarrow> string list" where
  "wfGetChildNodes w nodeName type depth = getChildNodes (w_connectionsBySourceNode w) nodeName type depth"

definition wfGetParentNodes :: "Workflow \<Rightarrow> string \<Rightarrow> conn_type \<Rightarrow> int \<Rightarrow> string list" where
  "wfGetParentNodes w nodeName type depth = getParentNodes (w_connectionsByDestinationNode w) nodeName type depth"

text \<open>The connections from one set of nodes to another, with both end points.\<close>

definition getConnectionsBetweenNodes ::
    "Workflow \<Rightarrow> string list \<Rightarrow> string list \<Rightarrow> (IConnection \<times> IConnection) list" where
  "getConnectionsBetweenNodes w sources targetNames =
     concat (map (\<lambda>source.
       concat (map (\<lambda>(type, outs).
         concat (map (\<lambda>(sourceIndex, group).
           concat (map (\<lambda>targetConnectionData.
             if c_node targetConnectionData \<in> set targetNames
             then [(\<lparr>c_node = source, c_type = type, c_index = sourceIndex\<rparr>, targetConnectionData)] else [])
             (or_empty group)))
           (enumerate 0 outs)))
         (case map_of (w_connectionsBySourceNode w) source of None \<Rightarrow> [] | Some tm \<Rightarrow> tm)))
       sources)"

section \<open>Renaming a node\<close>

text \<open>\<open>typeof null\<close> is \<open>object\<close>, and \<open>Object.keys(null || {})\<close> is empty.\<close>

fun renameNodeInParameterValue ::
    "(string \<Rightarrow> string \<Rightarrow> string \<Rightarrow> string) \<Rightarrow> string \<Rightarrow> string \<Rightarrow> bool \<Rightarrow> json \<Rightarrow> json" where
  "renameNodeInParameterValue applyAccessPatterns currentName newName hasRenamableContent (JStr s) =
     (if take 1 s = ''='' \<or> hasRenamableContent then JStr (applyAccessPatterns s currentName newName) else JStr s)"
| "renameNodeInParameterValue applyAccessPatterns currentName newName hasRenamableContent (JArr vs) =
     JArr (map (renameNodeInParameterValue applyAccessPatterns currentName newName False) vs)"
| "renameNodeInParameterValue applyAccessPatterns currentName newName hasRenamableContent (JObj ps) =
     JObj (map (\<lambda>(k, v). (k, renameNodeInParameterValue applyAccessPatterns currentName newName hasRenamableContent v)) ps)"
| "renameNodeInParameterValue applyAccessPatterns currentName newName hasRenamableContent JNull = JObj []"
| "renameNodeInParameterValue applyAccessPatterns currentName newName hasRenamableContent v = v"

text \<open>Assigning to a property that is present; an absent property is \<open>undefined\<close> and stays so.\<close>

definition update_prop :: "string \<Rightarrow> (json \<Rightarrow> json) \<Rightarrow> json \<Rightarrow> json" where
  "update_prop k f v = (case v of
     JObj ps \<Rightarrow> (case map_of ps k of None \<Rightarrow> v | Some x \<Rightarrow> JObj (AList.update k (f x) ps)) | _ \<Rightarrow> v)"

definition renameFormFields :: "(json \<Rightarrow> json) \<Rightarrow> json \<Rightarrow> json" where
  "renameFormFields renameField parameters =
     update_prop ''formFields'' (\<lambda>formFields.
       update_prop ''values'' (\<lambda>values.
         case values of
           JArr vs \<Rightarrow> JArr (map (\<lambda>v. case v of
               JObj ps \<Rightarrow> if map_of ps ''fieldType'' = Some (JStr ''html'') then update_prop ''html'' renameField v else v
             | _ \<Rightarrow> v) vs)
         | _ \<Rightarrow> values) formFields) parameters"

definition NODES_WITH_RENAMABLE_CONTENT :: "string list" where
  "NODES_WITH_RENAMABLE_CONTENT =
     [''n8n-nodes-base.code'', ''n8n-nodes-base.function'', ''n8n-nodes-base.functionItem'', ''n8n-nodes-base.aiTransform'']"

definition NODES_WITH_RENAMABLE_FORM_HTML_CONTENT :: "string list" where
  "NODES_WITH_RENAMABLE_FORM_HTML_CONTENT = [''n8n-nodes-base.form'']"

definition NODES_WITH_RENAMEABLE_TOPLEVEL_HTML_CONTENT :: "string list" where
  "NODES_WITH_RENAMEABLE_TOPLEVEL_HTML_CONTENT = [''n8n-nodes-base.mailgun'', ''n8n-nodes-base.html'']"

definition renameParameters :: "(string \<Rightarrow> string \<Rightarrow> string \<Rightarrow> string) \<Rightarrow> string \<Rightarrow> string \<Rightarrow> INode \<Rightarrow> INode" where
  "renameParameters applyAccessPatterns currentName newName node =
     (let rename = renameNodeInParameterValue applyAccessPatterns currentName newName;
          p0 = rename False (n_parameters node);
          p1 = (if n_type node \<in> set NODES_WITH_RENAMABLE_CONTENT then update_prop ''jsCode'' (rename True) p0 else p0);
          p2 = (if n_type node \<in> set NODES_WITH_RENAMEABLE_TOPLEVEL_HTML_CONTENT then update_prop ''html'' (rename True) p1 else p1);
          p3 = (if n_type node \<in> set NODES_WITH_RENAMABLE_FORM_HTML_CONTENT then renameFormFields (rename True) p2 else p2)
      in node\<lparr>n_parameters := p3\<rparr>)"

definition restrictedKeys :: "string list" where
  "restrictedKeys = [''hasownproperty'', ''isprototypeof'', ''propertyisenumerable'', ''tolocalestring'', ''tostring'',
     ''valueof'', ''constructor'', ''prototype'', ''__proto__'', ''__definegetter__'', ''__definesetter__'',
     ''__lookupgetter__'', ''__lookupsetter__'']"

text \<open>ASCII letters to lower case; a letter outside ASCII does not occur in the restricted names.\<close>

definition lower_char :: "char \<Rightarrow> char" where
  "lower_char c = (let n = (of_char c :: nat) in if 65 \<le> n \<and> n \<le> 90 then char_of (n + 32) else c)"

definition move_key :: "string \<Rightarrow> string \<Rightarrow> ('v \<Rightarrow> 'v) \<Rightarrow> (string, 'v) dict \<Rightarrow> (string, 'v) dict" where
  "move_key currentName newName f m =
     (case map_of m currentName of
        None \<Rightarrow> m
      | Some v \<Rightarrow> AList.delete currentName (obj_set newName (f v) m))"

definition renameTargets :: "string \<Rightarrow> string \<Rightarrow> IConnections \<Rightarrow> IConnections" where
  "renameTargets currentName newName =
     map (\<lambda>(s, tm). (s, map (\<lambda>(t, outs). (t, map (map_option (map (\<lambda>c.
       if c_node c = currentName then c\<lparr>c_node := newName\<rparr> else c))) outs)) tm))"

definition renameNode ::
    "(string \<Rightarrow> string \<Rightarrow> string \<Rightarrow> string) \<Rightarrow> string \<Rightarrow> string \<Rightarrow> Workflow \<Rightarrow> Workflow result" where
  "renameNode applyAccessPatterns currentName newName w =
     (if map lower_char newName \<in> set restrictedKeys then Inl (UserError newName)
      else Inr (w\<lparr>
        w_nodes := map (\<lambda>(k, node). (k, renameParameters applyAccessPatterns currentName newName node))
          (move_key currentName newName (\<lambda>node. node\<lparr>n_name := newName\<rparr>) (w_nodes w)),
        w_connectionsBySourceNode := renameTargets currentName newName
          (move_key currentName newName id (w_connectionsBySourceNode w))\<rparr>))"

subsection \<open>What renaming changes\<close>

definition rename_conn :: "string \<Rightarrow> string \<Rightarrow> IConnection \<Rightarrow> IConnection" where
  "rename_conn currentName newName c = (if c_node c = currentName then c\<lparr>c_node := newName\<rparr> else c)"

text \<open>The old name of what is stored under a name after the renaming.\<close>

definition old_name :: "string \<Rightarrow> string \<Rightarrow> string \<Rightarrow> string" where
  "old_name currentName newName s = (if s = newName then currentName else s)"

lemma map_of_map_values: "map_of (map (\<lambda>(k, v). (k, f v)) m) k = map_option f (map_of m k)"
  by (induction m) auto

lemma map_of_move_key:
  assumes "cur \<noteq> new" and "map_of m new = None"
  shows "map_of (move_key cur new f m) k =
    (if k = cur then None else if k = new then map_option f (map_of m cur) else map_of m k)"
  using assms by (cases "map_of m cur") (auto simp: move_key_def map_of_obj_set)

lemma map_of_move_key_same: "map_of (move_key nm nm f m) k = (if k = nm then None else map_of m k)"
  by (cases "map_of m nm") (auto simp: move_key_def map_of_obj_set)

lemma conn_group_renameTargets:
  "conn_group (renameTargets cur new conns) s t i = map (rename_conn cur new) (conn_group conns s t i)"
proof -
  let ?g = "\<lambda>c. if c_node c = cur then c\<lparr>c_node := new\<rparr> else c"
  have g: "?g = rename_conn cur new" by (simp add: rename_conn_def fun_eq_iff)
  have e: "or_empty (map_option (map h) x) = map h (or_empty x)" for h :: "IConnection \<Rightarrow> IConnection" and x
    by (cases x) simp_all
  show ?thesis
    unfolding conn_group_def renameTargets_def g
    by (auto simp: map_of_map_values e split: option.split)
qed

lemma conn_group_move_key:
  assumes "cur \<noteq> new" and "map_of conns new = None"
  shows "conn_group (move_key cur new id conns) s t i = (if s = cur then [] else conn_group conns (old_name cur new s) t i)"
  unfolding conn_group_def map_of_move_key [OF assms] using assms(1)
  by (auto simp: old_name_def option.map_id0)

text \<open>
  Renaming a node moves its outgoing connections to the new name and redirects every
  connection to it, and changes no other connection; the node is found under the new name with its
  name changed, no node is found under the old one, and every other node keeps its name and gets
  its parameters rewritten. The new name must not be in use.
\<close>

lemma renameNode_correct:
  assumes "renameNode ap cur new w = Inr w'" and "cur \<noteq> new"
    and "map_of (w_nodes w) new = None" and "map_of (w_connectionsBySourceNode w) new = None"
  shows "conn_group (w_connectionsBySourceNode w') s t i =
      (if s = cur then [] else map (rename_conn cur new) (conn_group (w_connectionsBySourceNode w) (old_name cur new s) t i)) \<and>
    getNode w' s = (if s = cur then None else
      map_option (\<lambda>n. renameParameters ap cur new (if s = new then n\<lparr>n_name := new\<rparr> else n)) (getNode w (old_name cur new s)))"
proof
  from assms(1) have nodes: "w_nodes w' = map (\<lambda>(k, node). (k, renameParameters ap cur new node))
        (move_key cur new (\<lambda>node. node\<lparr>n_name := new\<rparr>) (w_nodes w))"
    and conns: "w_connectionsBySourceNode w' = renameTargets cur new (move_key cur new id (w_connectionsBySourceNode w))"
    by (auto simp: renameNode_def split: if_splits)
  show "conn_group (w_connectionsBySourceNode w') s t i =
      (if s = cur then [] else map (rename_conn cur new) (conn_group (w_connectionsBySourceNode w) (old_name cur new s) t i))"
    by (simp add: conns conn_group_renameTargets conn_group_move_key [OF assms(2,4)])
  show "getNode w' s = (if s = cur then None else
      map_option (\<lambda>n. renameParameters ap cur new (if s = new then n\<lparr>n_name := new\<rparr> else n)) (getNode w (old_name cur new s)))"
    using assms(2)
    by (simp add: getNode_def nodes map_of_map_values map_of_move_key [OF assms(2,3)] old_name_def option.map_comp comp_def)
qed

definition ex_workflow :: Workflow where
  "ex_workflow = newWorkflow (\<lambda>_ _. None) (\<lambda>_ _. None) [plain_node 0 ''A'' ''t'', plain_node 1 ''B'' ''t'']
     [(''A'', [(Main, [Some [\<lparr>c_node = ''B'', c_type = Main, c_index = 0\<rparr>]])])] True None"

lemma renameNode_correct_witness:
  "\<exists>w'. renameNode (\<lambda>s _ _. s) ''B'' ''C'' ex_workflow = Inr w' \<and>
     conn_group (w_connectionsBySourceNode w') ''A'' Main 0 = [\<lparr>c_node = ''C'', c_type = Main, c_index = 0\<rparr>] \<and>
     getNode w' ''B'' = None"
proof -
  have c: "map lower_char ''C'' \<notin> set restrictedKeys" by code_simp
  then obtain w' where w': "renameNode (\<lambda>s _ _. s) ''B'' ''C'' ex_workflow = Inr w'" by (simp add: renameNode_def)
  have h: "''B'' \<noteq> ''C''" "map_of (w_nodes ex_workflow) ''C'' = None" "map_of (w_connectionsBySourceNode ex_workflow) ''C'' = None"
    by code_simp+
  have v: "map (rename_conn ''B'' ''C'') (conn_group (w_connectionsBySourceNode ex_workflow) (old_name ''B'' ''C'' ''A'') Main 0) =
      [\<lparr>c_node = ''C'', c_type = Main, c_index = 0\<rparr>]" by code_simp
  from renameNode_correct [OF w' h, of "''A''" Main 0] renameNode_correct [OF w' h, of "''B''" Main 0] v w'
  show ?thesis by simp
qed

text \<open>
  Renaming a node to the name it already has deletes the node and its outgoing connections.
\<close>

lemma renameNode_same_name:
  assumes "renameNode ap nm nm w = Inr w'"
  shows "getNode w' nm = None \<and> conn_group (w_connectionsBySourceNode w') nm t i = []"
  using assms
  by (auto simp: renameNode_def getNode_def map_of_map_values map_of_move_key_same conn_group_renameTargets
      conn_group_def [of "move_key nm nm id (w_connectionsBySourceNode w)"] split: if_splits)

lemma renameNode_same_name_witness:
  "getNode ex_workflow ''A'' \<noteq> None \<and>
   (\<exists>w'. renameNode (\<lambda>s _ _. s) ''A'' ''A'' ex_workflow = Inr w' \<and> getNode w' ''A'' = None)"
proof -
  have "map lower_char ''A'' \<notin> set restrictedKeys" by code_simp
  then obtain w' where w': "renameNode (\<lambda>s _ _. s) ''A'' ''A'' ex_workflow = Inr w'" by (simp add: renameNode_def)
  have "getNode ex_workflow ''A'' \<noteq> None" by code_simp
  with w' renameNode_same_name [OF w', of Main 0] show ?thesis by blast
qed

text \<open>
  Renaming leaves the connections by destination as they were, so the parents of a renamed node
  are not found under its new name until the connections are set again.
\<close>

lemma renameNode_loses_parents:
  assumes "renameNode ap cur new w = Inr w'" and "map_of (w_connectionsByDestinationNode w) new = None"
  shows "wfGetParentNodes w' new ct depth = []"
  using assms
  by (auto simp: renameNode_def wfGetParentNodes_def getParentNodes_def getConnectedNodes_def
      collectConnectedNodes.simps split: if_splits)

lemma renameNode_loses_parents_witness:
  "wfGetParentNodes ex_workflow ''B'' ALL_TYPES (-1) = [''A''] \<and>
   (\<exists>w'. renameNode (\<lambda>s _ _. s) ''B'' ''C'' ex_workflow = Inr w' \<and> wfGetParentNodes w' ''C'' ALL_TYPES (-1) = [])"
proof -
  have "map lower_char ''C'' \<notin> set restrictedKeys" by code_simp
  then obtain w' where w': "renameNode (\<lambda>s _ _. s) ''B'' ''C'' ex_workflow = Inr w'" by (simp add: renameNode_def)
  have "wfGetParentNodes ex_workflow ''B'' ALL_TYPES (-1) = [''A'']"
    and h: "map_of (w_connectionsByDestinationNode ex_workflow) ''C'' = None" by code_simp+
  with w' renameNode_loses_parents [OF w' h, of ALL_TYPES "-1"] show ?thesis by blast
qed

end
