(* ===== verification/Workflow_Search.thy ===== *)
theory Workflow_Search
  imports Workflow
begin

text \<open>
  The searches of the class \<open>Workflow\<close>: breadth-first search with depths, the indexes by which
  two nodes are connected, the highest parents of a node and the start node.
\<close>

section \<open>Breadth-first search\<close>

record IConnectedNode =
  cn_name :: string
  cn_indicies :: "nat list"
  cn_depth :: nat

text \<open>
  \<open>returnConns\<close> holds the objects that \<open>visited\<close> holds too, and their \<open>indicies\<close> may still
  change, so the names are kept and looked up at the end.
\<close>

record bfs_state =
  b_visited :: "(string, IConnectedNode) dict"
  b_return :: "string list"
  b_queue :: "IConnectedNode list"

definition main_targets :: "IConnections \<Rightarrow> string \<Rightarrow> IConnection list" where
  "main_targets connections name =
     (case map_of connections name of
        None \<Rightarrow> []
      | Some tm \<Rightarrow> (case map_of tm Main of None \<Rightarrow> [] | Some outs \<Rightarrow> concat (map or_empty outs)))"

definition bfsVisit :: "IConnections \<Rightarrow> string \<Rightarrow> nat \<Rightarrow> IConnectedNode \<Rightarrow> bfs_state \<Rightarrow> bfs_state" where
  "bfsVisit connections sourceNode depth cur st =
     (case map_of (b_visited st) (cn_name cur) of
        Some seen \<Rightarrow> st\<lparr>b_visited := AList.update (cn_name cur)
            (seen\<lparr>cn_indicies := set_of_list (cn_indicies seen @ cn_indicies cur)\<rparr>) (b_visited st)\<rparr>
      | None \<Rightarrow> st\<lparr>b_visited := AList.update (cn_name cur) cur (b_visited st),
            b_return := b_return st @ (if cn_name cur \<noteq> sourceNode then [cn_name cur] else []),
            b_queue := b_queue st @ map (\<lambda>connection. \<lparr>cn_name = c_node connection, cn_indicies = [c_index connection], cn_depth = depth\<rparr>)
              (main_targets connections (cn_name cur))\<rparr>)"

definition bfsLevel :: "IConnections \<Rightarrow> string \<Rightarrow> nat \<Rightarrow> bfs_state \<Rightarrow> bfs_state" where
  "bfsLevel connections sourceNode depth st =
     fold (bfsVisit connections sourceNode depth) (b_queue st) (st\<lparr>b_queue := []\<rparr>)"

subsection \<open>One level\<close>

abbreviation visited_names :: "bfs_state \<Rightarrow> string set" where
  "visited_names st \<equiv> fst ` set (b_visited st)"

definition main_rel :: "IConnections \<Rightarrow> (string \<times> string) set" where
  "main_rel connections = {(a, b). b \<in> c_node ` set (main_targets connections a)}"

lemma visited_None: "map_of (b_visited st) k = None \<longleftrightarrow> k \<notin> visited_names st"
  by (rule map_of_eq_None_iff)

definition depth_of :: "bfs_state \<Rightarrow> string \<Rightarrow> nat option" where
  "depth_of st k = map_option cn_depth (map_of (b_visited st) k)"

lemma bfsVisit_seen:
  assumes "cn_name cur \<in> visited_names st"
  shows "visited_names (bfsVisit conns s d cur st) = visited_names st"
    and "b_queue (bfsVisit conns s d cur st) = b_queue st"
    and "b_return (bfsVisit conns s d cur st) = b_return st"
    and "depth_of (bfsVisit conns s d cur st) k = depth_of st k"
proof -
  obtain seen where seen: "map_of (b_visited st) (cn_name cur) = Some seen"
    using assms visited_None [of st "cn_name cur"] by auto
  show "visited_names (bfsVisit conns s d cur st) = visited_names st"
    using assms by (simp add: bfsVisit_def seen keys_update insert_absorb)
  show "b_queue (bfsVisit conns s d cur st) = b_queue st" by (simp add: bfsVisit_def seen)
  show "b_return (bfsVisit conns s d cur st) = b_return st" by (simp add: bfsVisit_def seen)
  show "depth_of (bfsVisit conns s d cur st) k = depth_of st k"
    by (simp add: bfsVisit_def depth_of_def seen update_conv')
qed

lemma bfsVisit_new:
  assumes "cn_name cur \<notin> visited_names st"
  shows "visited_names (bfsVisit conns s d cur st) = insert (cn_name cur) (visited_names st)"
    and "cn_name ` set (b_queue (bfsVisit conns s d cur st)) = cn_name ` set (b_queue st) \<union> main_rel conns `` {cn_name cur}"
    and "b_return (bfsVisit conns s d cur st) = b_return st @ (if cn_name cur \<noteq> s then [cn_name cur] else [])"
    and "depth_of (bfsVisit conns s d cur st) k = (if k = cn_name cur then Some (cn_depth cur) else depth_of st k)"
    and "list_all (\<lambda>x. cn_depth x = d) (b_queue (bfsVisit conns s d cur st)) = list_all (\<lambda>x. cn_depth x = d) (b_queue st)"
proof -
  have none: "map_of (b_visited st) (cn_name cur) = None"
    using assms visited_None by blast
  show "visited_names (bfsVisit conns s d cur st) = insert (cn_name cur) (visited_names st)"
    by (simp add: bfsVisit_def none keys_update)
  show "cn_name ` set (b_queue (bfsVisit conns s d cur st)) = cn_name ` set (b_queue st) \<union> main_rel conns `` {cn_name cur}"
    by (simp add: bfsVisit_def none main_rel_def image_Un image_image Image_singleton)
  show "b_return (bfsVisit conns s d cur st) = b_return st @ (if cn_name cur \<noteq> s then [cn_name cur] else [])"
    by (simp add: bfsVisit_def none)
  show "depth_of (bfsVisit conns s d cur st) k = (if k = cn_name cur then Some (cn_depth cur) else depth_of st k)"
    by (simp add: bfsVisit_def depth_of_def none update_conv')
  show "list_all (\<lambda>x. cn_depth x = d) (b_queue (bfsVisit conns s d cur st)) = list_all (\<lambda>x. cn_depth x = d) (b_queue st)"
    by (simp add: bfsVisit_def none list_all_iff ball_Un)
qed

text \<open>A whole level: what the visits add to the visited nodes, to the results and to the next queue.\<close>

lemma bfsVisits_props:
  defines "names xs \<equiv> cn_name ` set xs"
  shows "visited_names (fold (bfsVisit conns s d) q st) = visited_names st \<union> names q"
    and "names (b_queue (fold (bfsVisit conns s d) q st)) = names (b_queue st) \<union> main_rel conns `` (names q - visited_names st)"
    and "set (b_return (fold (bfsVisit conns s d) q st)) = set (b_return st) \<union> (names q - visited_names st - {s})"
    and "distinct (b_return st) \<Longrightarrow> set (b_return st) \<subseteq> visited_names st \<Longrightarrow>
      distinct (b_return (fold (bfsVisit conns s d) q st))"
    and "list_all (\<lambda>x. cn_depth x = e) q \<Longrightarrow>
      depth_of (fold (bfsVisit conns s d) q st) k = (if k \<in> names q - visited_names st then Some e else depth_of st k)"
    and "list_all (\<lambda>x. cn_depth x = d) (b_queue (fold (bfsVisit conns s d) q st)) = list_all (\<lambda>x. cn_depth x = d) (b_queue st)"
proof -
  have "visited_names (fold (bfsVisit conns s d) q st) = visited_names st \<union> names q \<and>
    names (b_queue (fold (bfsVisit conns s d) q st)) = names (b_queue st) \<union> main_rel conns `` (names q - visited_names st) \<and>
    set (b_return (fold (bfsVisit conns s d) q st)) = set (b_return st) \<union> (names q - visited_names st - {s}) \<and>
    (distinct (b_return st) \<longrightarrow> set (b_return st) \<subseteq> visited_names st \<longrightarrow> distinct (b_return (fold (bfsVisit conns s d) q st))) \<and>
    (list_all (\<lambda>x. cn_depth x = e) q \<longrightarrow>
      depth_of (fold (bfsVisit conns s d) q st) k = (if k \<in> names q - visited_names st then Some e else depth_of st k)) \<and>
    list_all (\<lambda>x. cn_depth x = d) (b_queue (fold (bfsVisit conns s d) q st)) = list_all (\<lambda>x. cn_depth x = d) (b_queue st)"
  proof (induction q arbitrary: st)
    case Nil
    then show ?case by (simp add: names_def)
  next
    case (Cons c q)
    have n: "names (c # q) = insert (cn_name c) (names q)" by (simp add: names_def)
    let ?st = "bfsVisit conns s d c st"
    note IH = Cons.IH [of ?st]
    show ?case
    proof (cases "cn_name c \<in> visited_names st")
      case True
      note v = bfsVisit_seen [OF True]
      have a: "visited_names st \<union> insert (cn_name c) (names q) = visited_names st \<union> names q"
        "insert (cn_name c) (names q) - visited_names st = names q - visited_names st" using True by blast+
      show ?thesis using IH unfolding v n fold_simps comp_apply a by simp
    next
      case False
      note v = bfsVisit_new [OF False]
      have a: "insert (cn_name c) (visited_names st) \<union> names q = visited_names st \<union> insert (cn_name c) (names q)"
        "names (b_queue ?st) \<union> main_rel conns `` (names q - insert (cn_name c) (visited_names st)) =
          names (b_queue st) \<union> main_rel conns `` (insert (cn_name c) (names q) - visited_names st)"
        "set (b_return ?st) \<union> (names q - insert (cn_name c) (visited_names st) - {s}) =
          set (b_return st) \<union> (insert (cn_name c) (names q) - visited_names st - {s})"
        using False unfolding names_def v by (auto, force)
      have b: "(if k \<in> names q - insert (cn_name c) (visited_names st) then Some e else depth_of ?st k) =
          (if k \<in> insert (cn_name c) (names q) - visited_names st then Some e else depth_of st k)"
        if "cn_depth c = e" using False that unfolding v by simp
      have d: "distinct (b_return ?st)" "set (b_return ?st) \<subseteq> insert (cn_name c) (visited_names st)"
        if "distinct (b_return st)" "set (b_return st) \<subseteq> visited_names st"
        using that False unfolding v(3) by auto
      show ?thesis using IH d b unfolding v(1,5) n fold_simps comp_apply a list.pred_inject(2) by metis
    qed
  qed
  then show "visited_names (fold (bfsVisit conns s d) q st) = visited_names st \<union> names q"
    "names (b_queue (fold (bfsVisit conns s d) q st)) = names (b_queue st) \<union> main_rel conns `` (names q - visited_names st)"
    "set (b_return (fold (bfsVisit conns s d) q st)) = set (b_return st) \<union> (names q - visited_names st - {s})"
    "distinct (b_return st) \<Longrightarrow> set (b_return st) \<subseteq> visited_names st \<Longrightarrow>
      distinct (b_return (fold (bfsVisit conns s d) q st))"
    "list_all (\<lambda>x. cn_depth x = e) q \<Longrightarrow>
      depth_of (fold (bfsVisit conns s d) q st) k = (if k \<in> names q - visited_names st then Some e else depth_of st k)"
    "list_all (\<lambda>x. cn_depth x = d) (b_queue (fold (bfsVisit conns s d) q st)) = list_all (\<lambda>x. cn_depth x = d) (b_queue st)"
    by simp_all
qed

subsection \<open>The loop\<close>

lemma main_rel_key: "(a, b) \<in> main_rel connections \<Longrightarrow> a \<in> fst ` set connections"
  using map_of_eq_None_iff [of connections a]
  by (cases "map_of connections a") (auto simp: main_rel_def main_targets_def)

definition bfs_rank :: "IConnections \<Rightarrow> bfs_state \<Rightarrow> nat" where
  "bfs_rank connections st =
     2 * card (fst ` set connections - visited_names st) + (if b_queue st = [] then 0 else 1)"

lemma bfsLevel_visited:
  "visited_names (bfsLevel connections s d st) = visited_names st \<union> cn_name ` set (b_queue st)"
  "cn_name ` set (b_queue (bfsLevel connections s d st)) =
     main_rel connections `` (cn_name ` set (b_queue st) - visited_names st)"
  unfolding bfsLevel_def using bfsVisits_props(1,2) [of connections s d "b_queue st" "st\<lparr>b_queue := []\<rparr>"]
  by simp_all

lemma bfsLevel_rank:
  assumes "b_queue st \<noteq> []"
  shows "bfs_rank connections (bfsLevel connections s d st) < bfs_rank connections st"
proof -
  let ?st = "bfsLevel connections s d st" and ?K = "fst ` set connections"
  show ?thesis
  proof (cases "cn_name ` set (b_queue st) \<inter> ?K \<subseteq> visited_names st")
    case True
    have "(a, b) \<notin> main_rel connections" if "a \<in> cn_name ` set (b_queue st) - visited_names st" for a b
      using that True main_rel_key [of a b connections] by auto
    then have "main_rel connections `` (cn_name ` set (b_queue st) - visited_names st) = {}"
      unfolding Image_def by simp
    then have "b_queue ?st = []" using bfsLevel_visited(2) [of connections s d st] by simp
    moreover have "card (?K - visited_names ?st) \<le> card (?K - visited_names st)"
      unfolding bfsLevel_visited by (intro card_mono) auto
    ultimately show ?thesis using assms by (simp add: bfs_rank_def)
  next
    case False
    then have "?K - visited_names ?st \<subset> ?K - visited_names st"
      unfolding bfsLevel_visited by blast
    then have "card (?K - visited_names ?st) < card (?K - visited_names st)"
      by (intro psubset_card_mono) auto
    then show ?thesis using assms by (simp add: bfs_rank_def)
  qed
qed

function bfsLoop :: "IConnections \<Rightarrow> string \<Rightarrow> int \<Rightarrow> nat \<Rightarrow> bfs_state \<Rightarrow> bfs_state" where
  "bfsLoop connections sourceNode maxDepth depth st =
     (if b_queue st = [] then st
      else if maxDepth \<noteq> -1 \<and> int depth > maxDepth then st
      else bfsLoop connections sourceNode maxDepth (depth + 1)
             (bfsLevel connections sourceNode (depth + 1) st))"
  by pat_completeness auto

termination bfsLoop
  by (relation "measure (\<lambda>(connections, s, m, d, st). bfs_rank connections st)") (simp_all add: bfsLevel_rank)

declare bfsLoop.simps [simp del]

definition searchNodesBFS :: "IConnections \<Rightarrow> string \<Rightarrow> int \<Rightarrow> IConnectedNode list" where
  "searchNodesBFS connections sourceNode maxDepth =
     (let st = bfsLoop connections sourceNode maxDepth 0
            \<lparr>b_visited = [], b_return = [], b_queue = [\<lparr>cn_name = sourceNode, cn_indicies = [], cn_depth = 0\<rparr>]\<rparr>
      in map (\<lambda>nm. the (map_of (b_visited st) nm)) (b_return st))"

definition getParentNodesByDepth :: "Workflow \<Rightarrow> string \<Rightarrow> int \<Rightarrow> IConnectedNode list" where
  "getParentNodesByDepth w nodeName maxDepth = searchNodesBFS (w_connectionsByDestinationNode w) nodeName maxDepth"

subsection \<open>Depths are shortest distances\<close>

text \<open>The nodes whose shortest distance from the source is \<open>d\<close>.\<close>

definition at_distance :: "('a \<times> 'a) set \<Rightarrow> 'a \<Rightarrow> 'a \<Rightarrow> nat \<Rightarrow> bool" where
  "at_distance R s n d \<longleftrightarrow> (s, n) \<in> R ^^ d \<and> (\<forall>j<d. (s, n) \<notin> R ^^ j)"

definition bfs_inv :: "IConnections \<Rightarrow> string \<Rightarrow> int \<Rightarrow> nat \<Rightarrow> bfs_state \<Rightarrow> bool" where
  "bfs_inv conns s maxDepth k st \<longleftrightarrow>
     visited_names st = (\<Union>j<k. (main_rel conns ^^ j) `` {s}) \<and>
     cn_name ` set (b_queue st) \<subseteq> (main_rel conns ^^ k) `` {s} \<and>
     (main_rel conns ^^ k) `` {s} \<subseteq> cn_name ` set (b_queue st) \<union> visited_names st \<and>
     list_all (\<lambda>x. cn_depth x = k) (b_queue st) \<and>
     set (b_return st) = visited_names st - {s} \<and> distinct (b_return st) \<and>
     (\<forall>n d. depth_of st n = Some d \<longleftrightarrow> d < k \<and> at_distance (main_rel conns) s n d) \<and>
     (\<forall>d<k. maxDepth = -1 \<or> int d \<le> maxDepth)"

lemma bfs_invD:
  assumes "bfs_inv conns s m k st"
  shows "visited_names st = (\<Union>j<k. (main_rel conns ^^ j) `` {s})"
    and "cn_name ` set (b_queue st) \<subseteq> (main_rel conns ^^ k) `` {s}"
    and "(main_rel conns ^^ k) `` {s} \<subseteq> cn_name ` set (b_queue st) \<union> visited_names st"
    and "list_all (\<lambda>x. cn_depth x = k) (b_queue st)"
    and "set (b_return st) = visited_names st - {s}" and "distinct (b_return st)"
    and "\<forall>n d. depth_of st n = Some d \<longleftrightarrow> d < k \<and> at_distance (main_rel conns) s n d"
    and "\<forall>d<k. m = -1 \<or> int d \<le> m"
  using assms unfolding bfs_inv_def by - (elim conjE, assumption)+

lemma bfs_inv_step:
  assumes inv: "bfs_inv conns s m k st" and go: "maxDepth_ok = (m = -1 \<or> int k \<le> m)" "maxDepth_ok"
  shows "bfs_inv conns s m (Suc k) (bfsLevel conns s (Suc k) st)"
proof -
  let ?R = "main_rel conns" and ?q = "cn_name ` set (b_queue st)" and ?V = "visited_names st"
  let ?st = "bfsLevel conns s (Suc k) st" and ?init = "st\<lparr>b_queue := []\<rparr>"
  note i = bfs_invD [OF inv]
  note p = bfsVisits_props [where conns = conns and s = s and d = "Suc k" and q = "b_queue st" and st = ?init, folded bfsLevel_def]
  have V: "visited_names ?st = (\<Union>j<Suc k. (?R ^^ j) `` {s})"
  proof -
    have "?V \<union> ?q = (?R ^^ k) `` {s} \<union> ?V" using i(2,3) by blast
    then show ?thesis using bfsLevel_visited(1) [of conns s "Suc k" st] unfolding lessThan_Suc UN_insert i(1) by simp
  qed
  have S: "?R `` ?V \<subseteq> visited_names ?st"
    unfolding V i(1) by (auto simp: relpow_commute intro!: bexI [of _ "Suc _"] relcompI)
  have Q: "cn_name ` set (b_queue ?st) \<subseteq> (?R ^^ Suc k) `` {s}"
    unfolding bfsLevel_visited using i(2) by auto
  have Q': "(?R ^^ Suc k) `` {s} \<subseteq> cn_name ` set (b_queue ?st) \<union> visited_names ?st"
  proof
    fix x assume "x \<in> (?R ^^ Suc k) `` {s}"
    then obtain y where y: "(s, y) \<in> ?R ^^ k" "(y, x) \<in> ?R" by auto
    show "x \<in> cn_name ` set (b_queue ?st) \<union> visited_names ?st"
    proof (cases "y \<in> ?V")
      case True
      with y S show ?thesis by blast
    next
      case False
      with y i(3) have "y \<in> ?q - ?V" by auto
      with y(2) show ?thesis unfolding bfsLevel_visited(2) by blast
    qed
  qed
  have R: "set (b_return ?st) = visited_names ?st - {s}"
    using p(3) i(5) unfolding bfsLevel_visited(1) by auto
  have D: "distinct (b_return ?st)" using p(4) i(5,6) by (auto simp: bfsLevel_def)
  have nq: "n \<in> ?q - ?V \<longleftrightarrow> at_distance ?R s n k" for n
  proof -
    have "?q - ?V = (?R ^^ k) `` {s} - ?V" using i(2,3) by blast
    then show ?thesis unfolding at_distance_def i(1) by (simp add: Ball_def)
  qed
  have dep: "depth_of ?st n = Some d \<longleftrightarrow> d < Suc k \<and> at_distance ?R s n d" for n d
  proof -
    have *: "depth_of ?st n = (if n \<in> ?q - ?V then Some k else depth_of st n)"
      using p(5) [OF i(4)] by (simp add: bfsLevel_def depth_of_def)
    have uniq: "at_distance ?R s n d \<Longrightarrow> at_distance ?R s n k \<Longrightarrow> d = k"
      by (meson at_distance_def linorder_neqE_nat)
    show ?thesis unfolding * nq using i(7) uniq by (auto simp: less_Suc_eq)
  qed
  show ?thesis unfolding bfs_inv_def
    using V Q Q' R D dep i(8) go p(6) by (auto simp: less_Suc_eq bfsLevel_def)
qed

lemma bfsLoop_inv:
  assumes "bfs_inv conns s m k st"
  shows "\<exists>k'. bfs_inv conns s m k' (bfsLoop conns s m k st) \<and>
    (b_queue (bfsLoop conns s m k st) = [] \<or> m \<noteq> -1 \<and> int k' > m)"
  using assms
proof (induction conns s m k st rule: bfsLoop.induct)
  case (1 conns s m k st)
  show ?case
  proof (cases "b_queue st = [] \<or> m \<noteq> -1 \<and> int k > m")
    case True
    then have "bfsLoop conns s m k st = st" by (auto simp: bfsLoop.simps [of conns s m k st])
    with True 1(2) show ?thesis by auto
  next
    case False
    then have l: "bfsLoop conns s m k st = bfsLoop conns s m (k + 1) (bfsLevel conns s (k + 1) st)"
      by (subst bfsLoop.simps) auto
    have "bfs_inv conns s m (k + 1) (bfsLevel conns s (k + 1) st)"
      using bfs_inv_step [OF 1(2) refl] False by auto
    with 1(1) False show ?thesis unfolding l by auto
  qed
qed

lemma relpow_closed:
  assumes "R `` V \<subseteq> V" and "s \<in> V" shows "(s, n) \<in> R ^^ j \<Longrightarrow> n \<in> V"
  using assms by (induction j arbitrary: n) auto

lemma bfs_result:
  assumes inv: "bfs_inv conns s m k st" and stop: "b_queue st = [] \<or> m \<noteq> -1 \<and> int k > m"
  shows "(\<exists>d. depth_of st n = Some d \<and> d' = d) \<longleftrightarrow> at_distance (main_rel conns) s n d' \<and> (m = -1 \<or> int d' \<le> m)"
proof -
  let ?R = "main_rel conns"
  have dep: "depth_of st n = Some d' \<longleftrightarrow> d' < k \<and> at_distance ?R s n d'"
    and lim: "d' < k \<Longrightarrow> m = -1 \<or> int d' \<le> m"
    using bfs_invD(7,8) [OF inv] by simp_all
  have "d' < k" if at: "at_distance ?R s n d'" and "m = -1 \<or> int d' \<le> m"
  proof (cases "b_queue st = []")
    case True
    note V = bfs_invD(1) [OF inv]
    have V': "(?R ^^ k) `` {s} \<subseteq> visited_names st" using bfs_invD(3) [OF inv] True by simp
    have "?R `` visited_names st \<subseteq> visited_names st"
    proof
      fix x assume "x \<in> ?R `` visited_names st"
      then obtain j where "j < k" "(s, x) \<in> ?R ^^ Suc j" unfolding V by auto
      then have "Suc j = k \<or> Suc j < k" and x: "x \<in> (?R ^^ Suc j) `` {s}" by auto
      then show "x \<in> visited_names st" using V' x unfolding V by blast
    qed
    moreover have "s \<in> visited_names st" using V V' by (cases k) (auto intro!: bexI [of _ 0])
    ultimately have "n \<in> visited_names st" using at relpow_closed unfolding at_distance_def by metis
    then obtain j where "j < k" "(s, n) \<in> ?R ^^ j" unfolding V by auto
    with at show ?thesis unfolding at_distance_def by (meson linorder_not_le order_less_le_trans)
  next
    case False
    with stop that(2) show ?thesis by auto
  qed
  with dep lim show ?thesis by auto
qed

text \<open>The object stored under a name has that name.\<close>

definition names_ok :: "bfs_state \<Rightarrow> bool" where
  "names_ok st \<longleftrightarrow> (\<forall>k c. map_of (b_visited st) k = Some c \<longrightarrow> cn_name c = k)"

lemma bfsVisit_names_ok: "names_ok st \<Longrightarrow> names_ok (bfsVisit conns s d cur st)"
  by (cases "map_of (b_visited st) (cn_name cur)") (simp_all add: names_ok_def bfsVisit_def update_conv')

lemma bfsLevel_names_ok: "names_ok st \<Longrightarrow> names_ok (bfsLevel conns s d st)"
proof -
  have "names_ok st \<Longrightarrow> names_ok (fold (bfsVisit conns s d) q st)" for q st
    by (induction q arbitrary: st) (simp_all add: bfsVisit_names_ok)
  moreover assume "names_ok st"
  then have "names_ok (st\<lparr>b_queue := []\<rparr>)" by (simp add: names_ok_def)
  ultimately show ?thesis by (simp add: bfsLevel_def)
qed

lemma bfsLoop_names_ok: "names_ok st \<Longrightarrow> names_ok (bfsLoop conns s m k st)"
proof (induction conns s m k st rule: bfsLoop.induct)
  case (1 conns s m k st)
  then show ?case by (subst bfsLoop.simps) (simp add: bfsLevel_names_ok)
qed

lemma bfs_inv_start:
  "bfs_inv conns s m 0 \<lparr>b_visited = [], b_return = [], b_queue = [\<lparr>cn_name = s, cn_indicies = [], cn_depth = 0\<rparr>]\<rparr>"
  by (simp add: bfs_inv_def depth_of_def)

text \<open>
  The breadth-first search returns every node the source reaches over \<open>main\<close> connections
  except the source itself, each once, with its shortest distance as depth; with a maximal depth
  it returns exactly those within that distance, and \<open>-1\<close> means no limit.
\<close>

lemma searchNodesBFS_correct:
  "((n, d) \<in> set (map (\<lambda>c. (cn_name c, cn_depth c)) (searchNodesBFS connections s maxDepth)) \<longleftrightarrow>
      n \<noteq> s \<and> at_distance (main_rel connections) s n d \<and> (maxDepth = -1 \<or> int d \<le> maxDepth)) \<and>
   distinct (map cn_name (searchNodesBFS connections s maxDepth))"
proof -
  let ?st = "bfsLoop connections s maxDepth 0
    \<lparr>b_visited = [], b_return = [], b_queue = [\<lparr>cn_name = s, cn_indicies = [], cn_depth = 0\<rparr>]\<rparr>"
  let ?o = "\<lambda>nm. the (map_of (b_visited ?st) nm)"
  obtain k where inv: "bfs_inv connections s maxDepth k ?st"
    and stop: "b_queue ?st = [] \<or> maxDepth \<noteq> -1 \<and> int k > maxDepth"
    using bfsLoop_inv [OF bfs_inv_start] by blast
  have ok: "names_ok ?st" by (rule bfsLoop_names_ok) (simp add: names_ok_def)
  have ret: "nm \<in> set (b_return ?st) \<longleftrightarrow> nm \<noteq> s \<and> (\<exists>c. map_of (b_visited ?st) nm = Some c)" for nm
    using bfs_invD(5) [OF inv] visited_None [of ?st nm] by auto
  have nm: "map cn_name (map ?o (b_return ?st)) = b_return ?st"
    unfolding map_map by (rule map_idI) (use ret ok in \<open>auto simp: names_ok_def\<close>)
  have "(n, d) \<in> set (map (\<lambda>c. (cn_name c, cn_depth c)) (map ?o (b_return ?st))) \<longleftrightarrow> n \<noteq> s \<and> depth_of ?st n = Some d"
    using ret ok by (fastforce simp: names_ok_def depth_of_def image_iff)
  moreover have "depth_of ?st n = Some d \<longleftrightarrow> at_distance (main_rel connections) s n d \<and> (maxDepth = -1 \<or> int d \<le> maxDepth)"
    using bfs_result [OF inv stop, of n d] by simp
  ultimately show ?thesis
    using nm bfs_invD(6) [OF inv] unfolding searchNodesBFS_def Let_def by simp
qed

section \<open>How two nodes are connected\<close>

record INodeConnection =
  sourceIndex :: nat
  destinationIndex :: nat

definition typed_groups :: "IConnections \<Rightarrow> string \<Rightarrow> string \<Rightarrow> NodeInputConnections option" where
  "typed_groups connections type name =
     (case map_of connections name of None \<Rightarrow> None | Some tm \<Rightarrow> map_of tm type)"

text \<open>The two inner loops run over the connections of a node in order, each with its position in
  its group. They return the first connection to the parent, or the queue with the nodes that are
  not visited yet appended.\<close>

definition indexed_connections :: "NodeInputConnections \<Rightarrow> (nat \<times> IConnection) list" where
  "indexed_connections typeConnections = concat (map (\<lambda>g. enumerate 0 (or_empty g)) typeConnections)"

fun scanConnections ::
    "string \<Rightarrow> string list \<Rightarrow> (nat \<times> IConnection) list \<Rightarrow> string list \<Rightarrow> INodeConnection + string list" where
  "scanConnections parentNodeName visited [] queue = Inr queue"
| "scanConnections parentNodeName visited ((i, connection) # cs) queue =
     (if parentNodeName = c_node connection
      then Inl \<lparr>sourceIndex = c_index connection, destinationIndex = i\<rparr>
      else scanConnections parentNodeName visited cs
             (if c_node connection \<notin> set visited then queue @ [c_node connection] else queue))"

function indexesLoop :: "IConnections \<Rightarrow> string \<Rightarrow> string \<Rightarrow> string list \<Rightarrow> string list \<Rightarrow> INodeConnection option" where
  "indexesLoop connectionsByDest type parentNodeName visited [] = None"
| "indexesLoop connectionsByDest type parentNodeName visited (cur # queue) =
     (if cur \<in> set visited then indexesLoop connectionsByDest type parentNodeName visited queue
      else case typed_groups connectionsByDest type cur of
        None \<Rightarrow> indexesLoop connectionsByDest type parentNodeName (cur # visited) queue
      | Some typeConnections \<Rightarrow>
          (case scanConnections parentNodeName (cur # visited) (indexed_connections typeConnections) queue of
             Inl found \<Rightarrow> Some found
           | Inr queue' \<Rightarrow> indexesLoop connectionsByDest type parentNodeName (cur # visited) queue'))"
  by pat_completeness auto

lemma typed_groups_key: "typed_groups conns type a = Some g \<Longrightarrow> a \<in> fst ` set conns"
  using map_of_eq_None_iff [of conns a] by (cases "map_of conns a") (simp_all add: typed_groups_def)

termination indexesLoop
proof (relation "measures [\<lambda>(conns, t, p, visited, q). card (fst ` set conns - set visited), \<lambda>(conns, t, p, visited, q). length q]",
    goal_cases)
  case (3 conns t p visited c q)
  show ?case by (cases "c \<in> fst ` set conns") (auto intro: psubset_card_mono simp: Diff_insert2 [symmetric] card_Diff1_le
      le_neq_implies_less card_Diff_insert)
next
  case (4 conns t p visited c q g q')
  have "fst ` set conns - set (c # visited) \<subset> fst ` set conns - set visited"
    using 4(1) typed_groups_key [OF 4(2)] by auto
  then show ?case by (simp add: psubset_card_mono del: set_simps)
qed simp_all

definition getNodeConnectionIndexes :: "Workflow \<Rightarrow> string \<Rightarrow> string \<Rightarrow> string \<Rightarrow> INodeConnection option" where
  "getNodeConnectionIndexes w nodeName parentNodeName type =
     (if getNode w parentNodeName = None then None
      else indexesLoop (w_connectionsByDestinationNode w) type parentNodeName [] [nodeName])"

definition typed_rel :: "IConnections \<Rightarrow> string \<Rightarrow> (string \<times> string) set" where
  "typed_rel conns type =
     {(a, b). \<exists>g. typed_groups conns type a = Some g \<and> b \<in> c_node ` snd ` set (indexed_connections g)}"

text \<open>The connection that \<open>found\<close> describes leads from the node \<open>a\<close> to the parent.\<close>

definition connects :: "IConnections \<Rightarrow> string \<Rightarrow> string \<Rightarrow> INodeConnection \<Rightarrow> string \<Rightarrow> bool" where
  "connects conns type parent found a \<longleftrightarrow>
     (\<exists>g c. typed_groups conns type a = Some g \<and> (destinationIndex found, c) \<in> set (indexed_connections g) \<and>
        c_node c = parent \<and> c_index c = sourceIndex found)"

lemma scan_Inl:
  "scanConnections p vis cs q = Inl r \<Longrightarrow> \<exists>c. (destinationIndex r, c) \<in> set cs \<and> c_node c = p \<and> c_index c = sourceIndex r"
  by (induction p vis cs q rule: scanConnections.induct) (auto split: if_splits)

lemma scan_Inr:
  "scanConnections p vis cs q = Inr q' \<Longrightarrow>
     p \<notin> c_node ` snd ` set cs \<and> set q' = set q \<union> (c_node ` snd ` set cs - set vis)"
  by (induction p vis cs q rule: scanConnections.induct) (auto split: if_splits)

lemma indexesLoop_Some:
  assumes "indexesLoop conns t p vis q = Some r" and "\<forall>x \<in> set q. (s, x) \<in> (typed_rel conns t)\<^sup>*"
  shows "\<exists>a. (s, a) \<in> (typed_rel conns t)\<^sup>* \<and> connects conns t p r a"
  using assms
proof (induction conns t p vis q rule: indexesLoop.induct)
  case (2 conns t p vis cur q)
  show ?case
  proof (cases "cur \<in> set vis")
    case True
    with 2 show ?thesis by simp
  next
    case new: False
    show ?thesis
    proof (cases "typed_groups conns t cur")
      case None
      with 2 new show ?thesis by simp
    next
      case (Some g)
      show ?thesis
      proof (cases "scanConnections p (cur # vis) (indexed_connections g) q")
        case (Inl found)
        with 2(4) new Some have "found = r" by simp
        with scan_Inl [OF Inl] Some have "connects conns t p r cur" by (auto simp: connects_def)
        with 2(5) show ?thesis by auto
      next
        case (Inr q')
        have "(s, x) \<in> (typed_rel conns t)\<^sup>*" if "x \<in> set q'" for x
        proof (cases "x \<in> set q")
          case True
          with 2(5) show ?thesis by simp
        next
          case False
          with that scan_Inr [OF Inr] Some have "(cur, x) \<in> typed_rel conns t" by (auto simp: typed_rel_def)
          with 2(5) show ?thesis by (auto intro: rtrancl_into_rtrancl)
        qed
        with 2(3) [OF new Some Inr] 2(4) new Some Inr show ?thesis by simp
      qed
    qed
  qed
qed simp

lemma Image_set_Cons: "R `` set (x # xs) = R `` {x} \<union> R `` set xs"
  by auto

lemma indexesLoop_None:
  assumes "indexesLoop conns t p vis q = None"
    and "typed_rel conns t `` set vis \<subseteq> set vis \<union> set q" and "p \<notin> typed_rel conns t `` set vis"
  shows "\<exists>V. set vis \<union> set q \<subseteq> V \<and> typed_rel conns t `` V \<subseteq> V \<and> p \<notin> typed_rel conns t `` V"
  using assms
proof (induction conns t p vis q rule: indexesLoop.induct)
  case (1 conns t p vis)
  then show ?case by auto
next
  case (2 conns t p vis cur q)
  let ?R = "typed_rel conns t"
  show ?case
  proof (cases "cur \<in> set vis")
    case True
    with 2(1) 2(4-6) show ?thesis by (simp add: insert_absorb)
  next
    case new: False
    show ?thesis
    proof (cases "typed_groups conns t cur")
      case None
      then have "?R `` {cur} = {}" by (auto simp: typed_rel_def)
      then have "?R `` set (cur # vis) = ?R `` set vis" unfolding Image_set_Cons by simp
      moreover have "indexesLoop conns t p (cur # vis) q = None" using 2(4) new None by simp
      ultimately obtain V where "set (cur # vis) \<union> set q \<subseteq> V" "?R `` V \<subseteq> V" "p \<notin> ?R `` V"
        using 2(2) [OF new None] 2(5,6) by auto
      then show ?thesis by auto
    next
      case (Some g)
      then have R: "?R `` {cur} = c_node ` snd ` set (indexed_connections g)" by (auto simp: typed_rel_def)
      obtain q' where q': "scanConnections p (cur # vis) (indexed_connections g) q = Inr q'"
        using 2(4) new Some by (simp split: sum.splits)
      have l: "indexesLoop conns t p (cur # vis) q' = None" using 2(4) new Some q' by simp
      have v: "?R `` set (cur # vis) = ?R `` {cur} \<union> ?R `` set vis" unfolding Image_set_Cons by simp
      have s: "p \<notin> ?R `` {cur}" "set q' = set q \<union> (?R `` {cur} - set (cur # vis))"
        using scan_Inr [OF q'] unfolding R by auto
      have "?R `` set (cur # vis) \<subseteq> set (cur # vis) \<union> set q'" "p \<notin> ?R `` set (cur # vis)"
        unfolding v s(2) using 2(5,6) s(1) by auto
      from 2(3) [OF new Some q' l this] obtain V where
        "set (cur # vis) \<union> set q' \<subseteq> V" "?R `` V \<subseteq> V" "p \<notin> ?R `` V" by blast
      with s(2) show ?thesis by auto
    qed
  qed
qed

text \<open>
  two nodes are reported as connected exactly when the parent is a node of the workflow
  that the node depends on over one or more connections of the type; what is reported is then a
  connection into the parent from a node on the way, with its index and its position.
\<close>

lemma getNodeConnectionIndexes_correct:
  "(getNodeConnectionIndexes w n parent t \<noteq> None \<longleftrightarrow>
      getNode w parent \<noteq> None \<and> (n, parent) \<in> (typed_rel (w_connectionsByDestinationNode w) t)\<^sup>+) \<and>
   (getNodeConnectionIndexes w n parent t = Some r \<longrightarrow>
      (\<exists>a. (n, a) \<in> (typed_rel (w_connectionsByDestinationNode w) t)\<^sup>* \<and> connects (w_connectionsByDestinationNode w) t parent r a))"
proof -
  let ?C = "w_connectionsByDestinationNode w"
  let ?R = "typed_rel ?C t"
  have some: "\<exists>a. (n, a) \<in> ?R\<^sup>* \<and> connects ?C t parent r a" if "getNodeConnectionIndexes w n parent t = Some r" for r
    using that indexesLoop_Some [of ?C t parent "[]" "[n]" r n]
    by (simp add: getNodeConnectionIndexes_def split: if_splits)
  have step: "(a, parent) \<in> ?R" if "connects ?C t parent r a" for a r
    using that by (force simp: connects_def typed_rel_def)
  have none: "(n, parent) \<notin> ?R\<^sup>+" if "indexesLoop ?C t parent [] [n] = None"
  proof
    assume "(n, parent) \<in> ?R\<^sup>+"
    then obtain a where a: "(n, a) \<in> ?R\<^sup>*" "(a, parent) \<in> ?R" by (meson tranclD2)
    from indexesLoop_None [OF that] obtain V where V: "n \<in> V" "?R `` V \<subseteq> V" "parent \<notin> ?R `` V" by auto
    from a(1) V have "a \<in> V" by (induction rule: rtrancl_induct) auto
    with a(2) V(3) show False by blast
  qed
  have "getNodeConnectionIndexes w n parent t \<noteq> None \<longleftrightarrow> getNode w parent \<noteq> None \<and> (n, parent) \<in> ?R\<^sup>+"
  proof (cases "getNodeConnectionIndexes w n parent t")
    case None
    then show ?thesis using none by (auto simp: getNodeConnectionIndexes_def split: if_splits)
  next
    case (Some r)
    from some [OF Some] step have "(n, parent) \<in> ?R\<^sup>+" by (meson rtrancl_into_trancl1)
    with Some show ?thesis by (simp add: getNodeConnectionIndexes_def split: if_splits)
  qed
  with some show ?thesis by blast
qed

lemma getNodeConnectionIndexes_correct_witness:
  "getNodeConnectionIndexes ex_workflow ''B'' ''A'' Main = Some \<lparr>sourceIndex = 0, destinationIndex = 0\<rparr> \<and>
   (''B'', ''A'') \<in> (typed_rel (w_connectionsByDestinationNode ex_workflow) Main)\<^sup>+ \<and>
   (\<exists>a. connects (w_connectionsByDestinationNode ex_workflow) Main ''A'' \<lparr>sourceIndex = 0, destinationIndex = 0\<rparr> a)"
proof -
  have "getNodeConnectionIndexes ex_workflow ''B'' ''A'' Main = Some \<lparr>sourceIndex = 0, destinationIndex = 0\<rparr>"
    by code_simp
  then show ?thesis
    using getNodeConnectionIndexes_correct [of ex_workflow "''B''" "''A''" Main "\<lparr>sourceIndex = 0, destinationIndex = 0\<rparr>"]
    by auto
qed

end
