(* ===== verification/Workflow_Start.thy ===== *)
theory Workflow_Start
  imports Workflow_Search
begin

text \<open>
  The highest parents of a node and the node a workflow starts from
  (\<open>getHighestNode\<close>, \<open>__getStartNode\<close> and \<open>getStartNode\<close> of \<open>packages/workflow/src/workflow.ts\<close>).
\<close>

section \<open>The highest parents of a node\<close>

definition node_disabled :: "Workflow \<Rightarrow> string \<Rightarrow> bool option" where
  "node_disabled w name = (case getNode w name of None \<Rightarrow> None | Some node \<Rightarrow> n_disabled node)"

definition currentHighest :: "Workflow \<Rightarrow> string \<Rightarrow> string list" where
  "currentHighest w nodeName = (if node_disabled w nodeName = Some False then [nodeName] else [])"

definition orSelf :: "Workflow \<Rightarrow> string \<Rightarrow> string list \<Rightarrow> string list" where
  "orSelf w name addNodes = (if addNodes = [] \<and> node_disabled w name \<noteq> Some True then [name] else addNodes)"

abbreviation in_groups :: "Workflow \<Rightarrow> string \<Rightarrow> NodeInputConnections option" where
  "in_groups w name \<equiv> typed_groups (w_connectionsByDestinationNode w) Main name"

text \<open>
  The loop over the incoming connections, with the array \<open>checkedNodes\<close> that all calls share
  threaded through. The recursive call is unfolded in it; \<open>highestLoop_call\<close> below
  gives the loop back in terms of \<open>getHighestNode\<close>.
\<close>

function highestLoop :: "Workflow \<Rightarrow> IConnection list \<Rightarrow> string list \<Rightarrow> string list \<Rightarrow> string list \<times> string list" where
  "highestLoop w [] checkedNodes returnNodes = (returnNodes, checkedNodes)"
| "highestLoop w (connection # cs) checkedNodes returnNodes =
     (if c_node connection \<in> set checkedNodes \<or> getNode w (c_node connection) = None
      then highestLoop w cs checkedNodes returnNodes
      else case in_groups w (c_node connection) of
        None \<Rightarrow> highestLoop w cs checkedNodes
          (fold set_add (orSelf w (c_node connection) (currentHighest w (c_node connection))) returnNodes)
      | Some groups \<Rightarrow>
          (let r = highestLoop w (concat (map or_empty groups)) (checkedNodes @ [c_node connection]) []
           in highestLoop w cs (snd r) (fold set_add (orSelf w (c_node connection) (fst r)) returnNodes)))"
  by pat_completeness auto

lemma highestLoop_mono:
  "highestLoop_dom (w, cs, checked, ret) \<Longrightarrow> set checked \<subseteq> set (snd (highestLoop w cs checked ret))"
proof (induction w cs checked ret rule: highestLoop.pinduct)
  case (1 w checked ret)
  then show ?case by (simp add: highestLoop.psimps)
next
  case (2 w c cs checked ret)
  show ?case
  proof (cases "c_node c \<in> set checked \<or> getNode w (c_node c) = None")
    case True
    with 2(1) 2(2) [OF True] show ?thesis by (simp add: highestLoop.psimps)
  next
    case new: False
    show ?thesis
    proof (cases "in_groups w (c_node c)")
      case None
      with 2(1) 2(3) [OF new None] new show ?thesis by (auto simp: highestLoop.psimps)
    next
      case (Some groups)
      let ?r = "highestLoop w (concat (map or_empty groups)) (checked @ [c_node c]) []"
      have "highestLoop w (c # cs) checked ret =
          highestLoop w cs (snd ?r) (fold set_add (orSelf w (c_node c) (fst ?r)) ret)"
        using 2(1) new Some by (auto simp: highestLoop.psimps Let_def)
      with 2(4) [OF new Some] 2(5) [OF new Some refl] show ?thesis by auto
    qed
  qed
qed

definition not_checked :: "Workflow \<Rightarrow> string list \<Rightarrow> nat" where
  "not_checked w checked = card (fst ` set (w_nodes w) - set checked)"

lemma getNode_key: "getNode w n \<noteq> None \<Longrightarrow> n \<in> fst ` set (w_nodes w)"
  unfolding getNode_def map_of_eq_None_iff by simp

lemma not_checked_less:
  assumes "getNode w n \<noteq> None" and "n \<notin> set checked" and "insert n (set checked) \<subseteq> set checked'"
  shows "not_checked w checked' < not_checked w checked"
  unfolding not_checked_def using getNode_key [OF assms(1)] assms(2,3) by (intro psubset_card_mono) auto

termination highestLoop
proof (relation "measures [\<lambda>(w, cs, checked, ret). not_checked w checked, \<lambda>(w, cs, checked, ret). length cs]", goal_cases)
  case (4 w c cs checked ret groups)
  then show ?case using not_checked_less [of w "c_node c" checked "checked @ [c_node c]"] by simp
next
  case (5 w c cs checked ret groups r)
  have "set (checked @ [c_node c]) \<subseteq> set (snd r)" using highestLoop_mono [OF 5(4)] 5(3) by simp
  then show ?case using 5(1) not_checked_less [of w "c_node c" checked "snd r"] by simp
qed simp_all

declare highestLoop.simps [simp del]

text \<open>\<open>nodeConnectionIndex\<close> restricts the loop to one input.\<close>

definition chosen_groups :: "nat option \<Rightarrow> NodeInputConnections \<Rightarrow> NodeInputConnections" where
  "chosen_groups nodeConnectionIndex groups =
     (case nodeConnectionIndex of None \<Rightarrow> groups
      | Some i \<Rightarrow> map snd (filter (\<lambda>(connectionIndex, g). connectionIndex = i) (enumerate 0 groups)))"

definition getHighestNode :: "Workflow \<Rightarrow> string \<Rightarrow> nat option \<Rightarrow> string list \<Rightarrow> string list \<times> string list" where
  "getHighestNode w nodeName nodeConnectionIndex checkedNodes =
     (if getNode w nodeName = None then ([], checkedNodes)
      else case in_groups w nodeName of
        None \<Rightarrow> (currentHighest w nodeName, checkedNodes)
      | Some groups \<Rightarrow>
          (if nodeName \<in> set checkedNodes then (currentHighest w nodeName, checkedNodes)
           else highestLoop w (concat (map or_empty (chosen_groups nodeConnectionIndex groups)))
                  (checkedNodes @ [nodeName]) []))"

text \<open>The loop as the source writes it, with the recursive call.\<close>

lemma highestLoop_call:
  "highestLoop w (c # cs) checked ret =
     (if c_node c \<in> set checked then highestLoop w cs checked ret
      else if getNode w (c_node c) = None then highestLoop w cs checked ret
      else let r = getHighestNode w (c_node c) None checked
           in highestLoop w cs (snd r) (fold set_add (orSelf w (c_node c) (fst r)) ret))"
  by (subst highestLoop.simps) (simp add: getHighestNode_def chosen_groups_def Let_def split: option.split)

subsection \<open>What the search returns\<close>

abbreviation parent_rel :: "Workflow \<Rightarrow> (string \<times> string) set" where
  "parent_rel w \<equiv> main_rel (w_connectionsByDestinationNode w)"

lemma parent_rel_groups:
  "in_groups w a = Some groups \<Longrightarrow> (a, b) \<in> parent_rel w \<longleftrightarrow> b \<in> c_node ` set (concat (map or_empty groups))"
  by (auto simp: main_rel_def main_targets_def typed_groups_def split: option.splits)

text \<open>An enabled node above one of the connections.\<close>

definition enabled_above :: "Workflow \<Rightarrow> IConnection list \<Rightarrow> string set" where
  "enabled_above w cs = {n. getNode w n \<noteq> None \<and> node_disabled w n \<noteq> Some True \<and> n \<in> (parent_rel w)\<^sup>* `` (c_node ` set cs)}"

text \<open>A node that the search has dealt with: it is checked, or it has no inputs and is returned unless disabled.\<close>

definition dealt_with :: "Workflow \<Rightarrow> string list \<times> string list \<Rightarrow> string \<Rightarrow> bool" where
  "dealt_with w r b \<longleftrightarrow> getNode w b = None \<or> b \<in> set (snd r) \<or>
     in_groups w b = None \<and> (node_disabled w b \<noteq> Some True \<longrightarrow> b \<in> set (fst r))"

lemma dealt_with_mono:
  "dealt_with w r b \<Longrightarrow> set (fst r) \<subseteq> set (fst r') \<Longrightarrow> set (snd r) \<subseteq> set (snd r') \<Longrightarrow> dealt_with w r' b"
  by (auto simp: dealt_with_def)

lemma set_orSelf: "set xs \<subseteq> set (orSelf w n xs)"
  "getNode w n \<noteq> None \<Longrightarrow> set (orSelf w n xs) \<subseteq> set xs \<union> enabled_above w [\<lparr>c_node = n, c_type = t, c_index = i\<rparr>]"
  by (auto simp: orSelf_def enabled_above_def)

lemma above_Cons: "enabled_above w (c # cs) = enabled_above w [c] \<union> enabled_above w cs"
  by (auto simp: enabled_above_def)

lemma above_node: "c_node c = n \<Longrightarrow> enabled_above w [\<lparr>c_node = n, c_type = t, c_index = i\<rparr>] = enabled_above w [c]"
  by (simp add: enabled_above_def)

lemma above_step:
  assumes "in_groups w (c_node c) = Some groups"
  shows "enabled_above w (concat (map or_empty groups)) \<subseteq> enabled_above w [c]"
proof
  fix n assume "n \<in> enabled_above w (concat (map or_empty groups))"
  then obtain b where b: "b \<in> c_node ` set (concat (map or_empty groups))" "(b, n) \<in> (parent_rel w)\<^sup>*"
    and n: "getNode w n \<noteq> None" "node_disabled w n \<noteq> Some True" unfolding enabled_above_def by blast
  from b(1) have "(c_node c, b) \<in> parent_rel w" using parent_rel_groups [OF assms] by blast
  with b(2) n show "n \<in> enabled_above w [c]" by (auto simp: enabled_above_def intro: converse_rtrancl_into_rtrancl)
qed

definition highest_ok :: "Workflow \<Rightarrow> IConnection list \<Rightarrow> string list \<Rightarrow> string list \<Rightarrow> string list \<times> string list \<Rightarrow> bool" where
  "highest_ok w cs checked ret r \<longleftrightarrow>
     set ret \<subseteq> set (fst r) \<and> set (fst r) \<subseteq> set ret \<union> enabled_above w cs \<and> (distinct ret \<longrightarrow> distinct (fst r)) \<and>
     set checked \<subseteq> set (snd r) \<and>
     (\<forall>c \<in> set cs. dealt_with w r (c_node c)) \<and>
     (\<forall>a \<in> set (snd r) - set checked. in_groups w a \<noteq> None \<and> (\<forall>b. (a, b) \<in> parent_rel w \<longrightarrow> dealt_with w r b))"

lemma highest_okD:
  assumes "highest_ok w cs checked ret r"
  shows "set ret \<subseteq> set (fst r)" and "set (fst r) \<subseteq> set ret \<union> enabled_above w cs" and "distinct ret \<longrightarrow> distinct (fst r)"
    and "set checked \<subseteq> set (snd r)" and "\<forall>c \<in> set cs. dealt_with w r (c_node c)"
    and "\<forall>a \<in> set (snd r) - set checked. in_groups w a \<noteq> None \<and> (\<forall>b. (a, b) \<in> parent_rel w \<longrightarrow> dealt_with w r b)"
  using assms unfolding highest_ok_def by - (elim conjE, assumption)+

text \<open>One connection, after which the search has the state \<open>(ret', checked')\<close>.\<close>

lemma highest_ok_Cons:
  assumes rest: "highest_ok w cs checked' ret' r"
    and ret: "set ret \<subseteq> set ret'" "set ret' \<subseteq> set ret \<union> enabled_above w [c]" "distinct ret \<longrightarrow> distinct ret'"
    and checked: "set checked \<subseteq> set checked'" and c: "dealt_with w (ret', checked') (c_node c)"
    and new: "\<And>a b. a \<in> set checked' - set checked \<Longrightarrow>
      in_groups w a \<noteq> None \<and> ((a, b) \<in> parent_rel w \<longrightarrow> dealt_with w (ret', checked') b)"
  shows "highest_ok w (c # cs) checked ret r"
proof -
  note d = highest_okD [OF rest]
  have mono: "dealt_with w r b" if "dealt_with w (ret', checked') b" for b
    using dealt_with_mono [OF that] d(1,4) by simp
  show ?thesis unfolding highest_ok_def above_Cons [of w c cs]
  proof (intro conjI ballI allI impI)
    fix x assume "x \<in> set (c # cs)"
    then show "dealt_with w r (c_node x)" using mono [OF c] d(5) by auto
  next
    fix a assume a: "a \<in> set (snd r) - set checked"
    show "in_groups w a \<noteq> None" using a d(6) new by (cases "a \<in> set checked'") auto
    fix b assume "(a, b) \<in> parent_rel w"
    with a d(6) new mono show "dealt_with w r b" by (cases "a \<in> set checked'") auto
  qed (use d(1-4) ret checked in auto)
qed

lemma highestLoop_ok: "highest_ok w cs checked ret (highestLoop w cs checked ret)"
proof (induction w cs checked ret rule: highestLoop.induct)
  case (1 w checked ret)
  then show ?case by (simp add: highestLoop.simps highest_ok_def)
next
  case (2 w c cs checked ret)
  let ?n = "c_node c"
  show ?case
  proof (cases "?n \<in> set checked \<or> getNode w ?n = None")
    case True
    then have "dealt_with w (ret, checked) ?n" by (auto simp: dealt_with_def)
    then show ?thesis using highest_ok_Cons [OF 2(1) [OF True], of ret c checked] True by (simp add: highestLoop.simps)
  next
    case new: False
    note self = set_orSelf(2) [of w ?n, unfolded above_node [OF refl, of w c]]
    show ?thesis
    proof (cases "in_groups w ?n")
      case None
      let ?ret = "fold set_add (orSelf w ?n (currentHighest w ?n)) ret"
      have "dealt_with w (?ret, checked) ?n" using None by (auto simp: dealt_with_def orSelf_def currentHighest_def)
      moreover have "set (currentHighest w ?n) \<subseteq> enabled_above w [c]"
        using new by (auto simp: currentHighest_def enabled_above_def)
      then have "set ?ret \<subseteq> set ret \<union> enabled_above w [c]" using self [of "currentHighest w ?n"] new by auto
      moreover have "highestLoop w (c # cs) checked ret = highestLoop w cs checked ?ret"
        using new None by (subst highestLoop.simps) auto
      ultimately show ?thesis using highest_ok_Cons [OF 2(2) [OF new None], of ret c checked] by simp
    next
      case (Some groups)
      let ?r = "highestLoop w (concat (map or_empty groups)) (checked @ [?n]) []"
      let ?ret = "fold set_add (orSelf w ?n (fst ?r)) ret"
      note r = highest_okD [OF 2(3) [OF new Some]]
      have mono: "dealt_with w (?ret, snd ?r) b" if "dealt_with w ?r b" for b
        by (rule dealt_with_mono [OF that]) (use set_orSelf(1) [of "fst ?r" w ?n] in auto)
      have "set ?ret \<subseteq> set ret \<union> enabled_above w [c]"
        using self [of "fst ?r"] new r(2) above_step [OF Some] by auto
      moreover have "dealt_with w (?ret, snd ?r) ?n" using r(4) by (simp add: dealt_with_def)
      moreover have "in_groups w a \<noteq> None \<and> ((a, b) \<in> parent_rel w \<longrightarrow> dealt_with w (?ret, snd ?r) b)"
        if a: "a \<in> set (snd ?r) - set checked" for a b
      proof (cases "a = ?n")
        case True
        with Some r(5) parent_rel_groups [OF Some, of b] mono show ?thesis by auto
      next
        case False
        with a r(6) mono show ?thesis by auto
      qed
      moreover have "highestLoop w (c # cs) checked ret = highestLoop w cs (snd ?r) ?ret"
        using new Some by (subst highestLoop.simps) (auto simp: Let_def)
      moreover have "set checked \<subseteq> set (snd ?r)" using r(4) by simp
      ultimately show ?thesis using highest_ok_Cons [OF 2(4) [OF new Some refl], of ret c checked] by simp
    qed
  qed
qed

text \<open>The parents along nodes that are in the workflow.\<close>

definition present_rel :: "Workflow \<Rightarrow> (string \<times> string) set" where
  "present_rel w = {(a, b). (a, b) \<in> parent_rel w \<and> getNode w b \<noteq> None}"

text \<open>
  the highest parents of a node are enabled nodes of the workflow that the node depends on,
  each named once, and every enabled node without incoming connections that the node depends on
  through nodes of the workflow is among them.
\<close>

lemma getHighestNode_roots:
  assumes "in_groups w n = Some groups" and "getNode w n \<noteq> None"
  shows "set (fst (getHighestNode w n None [])) \<subseteq> {m. node_disabled w m \<noteq> Some True \<and> (n, m) \<in> (parent_rel w)\<^sup>+} \<and>
    {m. (n, m) \<in> (present_rel w)\<^sup>+ \<and> in_groups w m = None \<and> node_disabled w m \<noteq> Some True}
      \<subseteq> set (fst (getHighestNode w n None [])) \<and>
    distinct (fst (getHighestNode w n None []))"
proof -
  let ?cs = "concat (map or_empty groups)"
  define r where "r = highestLoop w ?cs [n] []"
  have g: "getHighestNode w n None [] = r"
    using assms by (auto simp: getHighestNode_def chosen_groups_def r_def)
  note d = highest_okD [OF highestLoop_ok [of w ?cs "[n]" "[]", folded r_def]]
  have sound: "m \<in> {m. node_disabled w m \<noteq> Some True \<and> (n, m) \<in> (parent_rel w)\<^sup>+}" if "m \<in> set (fst r)" for m
  proof -
    from that d(2) have "m \<in> enabled_above w ?cs" by auto
    then obtain b where b: "b \<in> c_node ` set ?cs" "(b, m) \<in> (parent_rel w)\<^sup>*" and m: "node_disabled w m \<noteq> Some True"
      unfolding enabled_above_def by blast
    from b(1) have "(n, b) \<in> parent_rel w" using parent_rel_groups [OF assms(1)] by blast
    with b(2) m show ?thesis by (auto intro: rtrancl_into_trancl2)
  qed
  have closed: "dealt_with w r b" if "a \<in> set (snd r)" "(a, b) \<in> parent_rel w" for a b
    using that d(5,6) parent_rel_groups [OF assms(1), of b] by (cases "a = n") auto
  have inner: "in_groups w a \<noteq> None" if "a \<in> set (snd r)" for a
    using that d(6) assms(1) by (cases "a = n") auto
  have "m \<in> set (snd r) \<or> in_groups w m = None \<and> (node_disabled w m \<noteq> Some True \<longrightarrow> m \<in> set (fst r))"
    if "(n, m) \<in> (present_rel w)\<^sup>+" for m
    using that
  proof (induction rule: trancl_induct)
    case (base b)
    then show ?case using closed [of n b] d(4) by (auto simp: dealt_with_def present_rel_def)
  next
    case (step a b)
    have "a \<in> set (snd r)"
      using step.IH step.hyps(2)
      by (auto simp: present_rel_def main_rel_def main_targets_def typed_groups_def split: option.splits)
    with step.hyps(2) closed [of a b] show ?case by (auto simp: dealt_with_def present_rel_def)
  qed
  with inner have "m \<in> set (fst r)"
    if "(n, m) \<in> (present_rel w)\<^sup>+" "in_groups w m = None" "node_disabled w m \<noteq> Some True" for m
    using that by blast
  with sound d(3) show ?thesis unfolding g by auto
qed

text \<open>A diamond: the trigger leads to \<open>A\<close>, which leads to \<open>B\<close> and \<open>C\<close>, which both lead to \<open>D\<close>.\<close>

definition ex_to :: "string \<Rightarrow> IConnection" where
  "ex_to n = \<lparr>c_node = n, c_type = Main, c_index = 0\<rparr>"

definition ex_diamond :: Workflow where
  "ex_diamond = newWorkflow (\<lambda>_ _. None) (\<lambda>_ _. None)
     [plain_node 0 ''T'' ''t'', plain_node 1 ''A'' ''t'', plain_node 2 ''B'' ''t'', plain_node 3 ''C'' ''t'', plain_node 4 ''D'' ''t'']
     [(''T'', [(Main, [Some [ex_to ''A'']])]), (''A'', [(Main, [Some [ex_to ''B'', ex_to ''C'']])]),
      (''B'', [(Main, [Some [ex_to ''D'']])]), (''C'', [(Main, [Some [ex_to ''D'']])])] True None"

lemma getHighestNode_roots_witness:
  "''T'' \<in> set (fst (getHighestNode ex_diamond ''A'' None [])) \<and> getNode ex_diamond ''A'' \<noteq> None"
proof -
  have g: "in_groups ex_diamond ''A'' = Some [Some [ex_to ''T'']]" and n: "getNode ex_diamond ''A'' \<noteq> None" 
    and t: "getNode ex_diamond ''T'' \<noteq> None" "in_groups ex_diamond ''T'' = None" "node_disabled ex_diamond ''T'' \<noteq> Some True"
    by code_simp+
  have "(''A'', ''T'') \<in> parent_rel ex_diamond" using parent_rel_groups [OF g] by (simp add: ex_to_def)
  with t(1) have "(''A'', ''T'') \<in> (present_rel ex_diamond)\<^sup>+" by (auto simp: present_rel_def)
  with getHighestNode_roots [OF g n] t n show ?thesis by auto
qed

text \<open>
  Where two branches meet, the second branch's node is returned as a highest parent although
  it has a parent: its own parents were checked on the first branch and are skipped.
\<close>

lemma getHighestNode_diamond:
  "fst (getHighestNode ex_diamond ''D'' None []) = [''T'', ''C''] \<and>
   in_groups ex_diamond ''C'' = Some [Some [ex_to ''A'']]"
  by code_simp

section \<open>The start node\<close>

definition MANUAL_CHAT_TRIGGER_LANGCHAIN_NODE_TYPE :: string where
  "MANUAL_CHAT_TRIGGER_LANGCHAIN_NODE_TYPE = ''@n8n/n8n-nodes-langchain.manualChatTrigger''"

definition STARTING_NODE_TYPES :: "string list" where
  "STARTING_NODE_TYPES =
     [''n8n-nodes-base.manualTrigger'', ''n8n-nodes-base.executeWorkflowTrigger'', ''n8n-nodes-base.errorTrigger'',
      ''n8n-nodes-base.evaluationTrigger'', ''n8n-nodes-base.formTrigger'']"

definition index_of :: "'a list \<Rightarrow> 'a \<Rightarrow> int" where
  "index_of xs x = (if x \<in> set xs then int (length (takeWhile (\<lambda>y. y \<noteq> x) xs)) else -1)"

text \<open>The first trigger or poll node among the given ones; a name without node, or a node without
  node type, is a \<open>TypeError\<close>.\<close>

fun firstTrigger :: "INodeTypes \<Rightarrow> Workflow \<Rightarrow> string list \<Rightarrow> INode option result" where
  "firstTrigger nodeTypes w [] = Inr None"
| "firstTrigger nodeTypes w (nodeName # ns) =
     (case getNode w nodeName of None \<Rightarrow> Inl TypeError
      | Some node \<Rightarrow> (case nodeTypes (n_type node) (n_typeVersion node) of None \<Rightarrow> Inl TypeError
      | Some nodeType \<Rightarrow>
          if nt_name nodeType = MANUAL_CHAT_TRIGGER_LANGCHAIN_NODE_TYPE then firstTrigger nodeTypes w ns
          else if nt_trigger nodeType \<or> nt_poll nodeType
          then (if n_disabled node = Some True then firstTrigger nodeTypes w ns else Inr (Some node))
          else firstTrigger nodeTypes w ns))"

fun firstStarting :: "Workflow \<Rightarrow> string list \<Rightarrow> INode option result" where
  "firstStarting w [] = Inr None"
| "firstStarting w (nodeName # ns) =
     (case getNode w nodeName of None \<Rightarrow> Inl TypeError
      | Some node \<Rightarrow>
          if n_type node \<in> set STARTING_NODE_TYPES
          then (if n_disabled node = Some True then firstStarting w ns else Inr (Some node))
          else firstStarting w ns)"

definition sortedNodeNames :: "Workflow \<Rightarrow> string list" where
  "sortedNodeNames w = map n_name (sort_key (\<lambda>n. index_of STARTING_NODE_TYPES (n_type n)) (map snd (w_nodes w)))"

definition theOnlyNode :: "Workflow \<Rightarrow> string list \<Rightarrow> INode option" where
  "theOnlyNode w nodeNames =
     (case nodeNames of
        [nodeName] \<Rightarrow> (case getNode w nodeName of None \<Rightarrow> None
          | Some node \<Rightarrow> if \<not> is_disabled node then Some node else None)
      | _ \<Rightarrow> None)"

definition getStartNodeOf :: "INodeTypes \<Rightarrow> Workflow \<Rightarrow> string list \<Rightarrow> INode option result" where
  "getStartNodeOf nodeTypes w nodeNames =
     (case theOnlyNode w nodeNames of
        Some node \<Rightarrow> Inr (Some node)
      | None \<Rightarrow> res_bind (firstTrigger nodeTypes w nodeNames) (\<lambda>found.
          case found of Some node \<Rightarrow> Inr (Some node) | None \<Rightarrow> firstStarting w (sortedNodeNames w)))"

definition getStartNode :: "INodeTypes \<Rightarrow> Workflow \<Rightarrow> string option \<Rightarrow> INode option result" where
  "getStartNode nodeTypes w destinationNode =
     (if destinationNode \<noteq> None \<and> destinationNode \<noteq> Some [] then
        (let highest = fst (getHighestNode w (the destinationNode) None []);
             nodeNames = (if highest = [] then [the destinationNode] else highest)
         in res_bind (getStartNodeOf nodeTypes w nodeNames) (\<lambda>node.
              case node of Some n \<Rightarrow> Inr (Some n) | None \<Rightarrow> Inr (getNode w (hd nodeNames))))
      else getStartNodeOf nodeTypes w (map fst (w_nodes w)))"

subsection \<open>The start node is enabled and of the best kind\<close>

lemma firstTrigger_Some:
  "firstTrigger nt w ns = Inr (Some node) \<Longrightarrow>
     n_disabled node \<noteq> Some True \<and> node \<in> snd ` set (w_nodes w) \<and>
     (\<exists>t. nt (n_type node) (n_typeVersion node) = Some t \<and> (nt_trigger t \<or> nt_poll t))"
proof (induction nt w ns rule: firstTrigger.induct)
  case (2 nt w nm ns)
  show ?case using 2
    by (cases "getNode w nm"; cases "nt (n_type (the (getNode w nm))) (n_typeVersion (the (getNode w nm)))")
      (auto simp: getNode_def dest!: map_of_SomeD split: if_splits intro: rev_image_eqI)
qed simp

lemma firstStarting_Some:
  "firstStarting w ns = Inr (Some node) \<Longrightarrow>
     n_disabled node \<noteq> Some True \<and> node \<in> snd ` set (w_nodes w) \<and> n_type node \<in> set STARTING_NODE_TYPES"
proof (induction w ns rule: firstStarting.induct)
  case (2 w nm ns)
  show ?case using 2
    by (cases "getNode w nm") (auto simp: getNode_def dest!: map_of_SomeD split: if_splits intro: rev_image_eqI)
qed simp

lemma getStartNodeOf_Some:
  assumes "getStartNodeOf nt w ns = Inr (Some node)"
  shows "n_disabled node \<noteq> Some True \<and> node \<in> snd ` set (w_nodes w) \<and>
    ((\<exists>nm. ns = [nm] \<and> getNode w nm = Some node) \<or>
     (\<exists>t. nt (n_type node) (n_typeVersion node) = Some t \<and> (nt_trigger t \<or> nt_poll t)) \<or>
     n_type node \<in> set STARTING_NODE_TYPES)"
proof -
  consider (only) "theOnlyNode w ns = Some node"
    | (search) f where "firstTrigger nt w ns = Inr f"
      "(case f of Some n \<Rightarrow> Inr (Some n) | None \<Rightarrow> firstStarting w (sortedNodeNames w)) = Inr (Some node)"
    using assms by (cases "theOnlyNode w ns") (auto simp: getStartNodeOf_def res_bind_Inr_iff)
  then show ?thesis
  proof cases
    case only
    then obtain nm where "ns = [nm]" "getNode w nm = Some node" "\<not> is_disabled node"
      by (auto simp: theOnlyNode_def split: list.splits option.splits if_splits)
    then show ?thesis by (auto simp: is_disabled_def getNode_def dest!: map_of_SomeD intro: rev_image_eqI)
  next
    case search
    then show ?thesis using firstTrigger_Some firstStarting_Some by (cases f) auto
  qed
qed

text \<open>
  without a destination, the node a workflow starts from is an enabled node of the workflow that
  is a trigger or polling node or has one of the starting types, or the only node there is.
\<close>

lemma getStartNode_enabled:
  assumes "getStartNode nodeTypes w None = Inr (Some node)"
  shows "n_disabled node \<noteq> Some True \<and> node \<in> snd ` set (w_nodes w) \<and>
    ((\<exists>nm. map fst (w_nodes w) = [nm] \<and> getNode w nm = Some node) \<or>
     (\<exists>t. nodeTypes (n_type node) (n_typeVersion node) = Some t \<and> (nt_trigger t \<or> nt_poll t)) \<or>
     n_type node \<in> set STARTING_NODE_TYPES)"
  using getStartNodeOf_Some [of nodeTypes w "map fst (w_nodes w)" node] assms by (simp add: getStartNode_def)

lemma getStartNode_enabled_witness:
  "n_disabled (plain_node 0 ''T'' ''t'') \<noteq> Some True \<and>
   getStartNode (\<lambda>_ _. Some \<lparr>nt_name = ''t'', nt_group = [], nt_trigger = True, nt_poll = False\<rparr>) ex_diamond None =
     Inr (Some (plain_node 0 ''T'' ''t''))"
proof -
  have "getStartNode (\<lambda>_ _. Some \<lparr>nt_name = ''t'', nt_group = [], nt_trigger = True, nt_poll = False\<rparr>) ex_diamond None =
     Inr (Some (plain_node 0 ''T'' ''t''))" by code_simp
  with getStartNode_enabled [OF this] show ?thesis by blast
qed

end
