(* ===== verification/Engine_Queue.thy ===== *)
theory Engine_Queue
  imports Execution_Stack Workflow_Start
begin

text \<open>
  The scheduling part of \<open>packages/core/src/execution-engine/workflow-execute.ts\<close>: which node
  runs next. A node with one input goes on the execution stack as soon as it gets data; a node with
  several inputs waits in \<open>waitingExecution\<close>, one entry per run, until an entry has data for every
  input. The functions change \<open>this.runExecutionData\<close>, which is a record here.

  The execution order is the setting \<open>workflow.settings.executionOrder\<close>; every value but
  \<open>v1\<close> is the legacy order. In the arrays of a waiting entry \<open>None\<close> is \<open>null\<close>. Assigning
  behind the end of such an array would leave a hole, which is neither \<open>null\<close> nor data; the
  model stops there with \<open>UndefinedValue\<close>.
\<close>

section \<open>State\<close>

record RunExecutionData =
  x_runData :: IRunData
  x_nodeExecutionStack :: "IExecuteData list"
  x_waitingExecution :: IWaitingForExecution
  x_waitingExecutionSource :: IWaitingForExecutionSource

definition is_v1 :: "string option \<Rightarrow> bool" where
  "is_v1 executionOrder \<longleftrightarrow> executionOrder = Some ''v1''"

definition isLegacyExecutionOrder :: "string option \<Rightarrow> bool" where
  "isLegacyExecutionOrder executionOrder \<longleftrightarrow> \<not> is_v1 executionOrder"

text \<open>\<open>nodeExecutionStack[enqueueFn](entry)\<close>: at the front in the order \<open>v1\<close>, else at the end.\<close>

definition enqueue :: "string option \<Rightarrow> IExecuteData \<Rightarrow> RunExecutionData \<Rightarrow> RunExecutionData" where
  "enqueue executionOrder entry x =
     x\<lparr>x_nodeExecutionStack :=
         (if is_v1 executionOrder then entry # x_nodeExecutionStack x else x_nodeExecutionStack x @ [entry])\<rparr>"

text \<open>The array \<open>waiting[nodeName][runIndex].main\<close>.\<close>

definition wait_main :: "'v waiting \<Rightarrow> string \<Rightarrow> nat \<Rightarrow> 'v option list result" where
  "wait_main waiting nodeName runIndex =
     (case map_of waiting nodeName of None \<Rightarrow> Inl TypeError
      | Some runs \<Rightarrow> (case map_of runs runIndex of None \<Rightarrow> Inl TypeError
      | Some entry \<Rightarrow> (case map_of entry Main of None \<Rightarrow> Inl TypeError | Some arr \<Rightarrow> Inr arr)))"

text \<open>\<open>waiting[nodeName][runIndex] = entry\<close>.\<close>

definition wait_put :: "'v waiting \<Rightarrow> string \<Rightarrow> nat \<Rightarrow> (string, 'v option list) dict \<Rightarrow> 'v waiting" where
  "wait_put waiting nodeName runIndex entry =
     obj_set nodeName (idx_set runIndex entry (or_default [] (map_of waiting nodeName))) waiting"

definition wait_entry :: "'v waiting \<Rightarrow> string \<Rightarrow> nat \<Rightarrow> (string, 'v option list) dict" where
  "wait_entry waiting nodeName runIndex =
     or_default [] (map_of (or_default [] (map_of waiting nodeName)) runIndex)"

definition wait_delete :: "'v waiting \<Rightarrow> string \<Rightarrow> nat \<Rightarrow> 'v waiting" where
  "wait_delete waiting nodeName runIndex =
     (case map_of waiting nodeName of None \<Rightarrow> waiting
      | Some runs \<Rightarrow> obj_set nodeName (AList.delete runIndex runs) waiting)"

definition slot_write :: "nat \<Rightarrow> 'v option \<Rightarrow> 'v option list \<Rightarrow> 'v option list result" where
  "slot_write i v arr =
     (if i < length arr then Inr (arr[i := v]) else if i = length arr then Inr (arr @ [v]) else Inl UndefinedValue)"

section \<open>Waiting for several inputs\<close>

text \<open>\<open>get(runData, [node, runIndex, 'data', 'main', index])\<close>: the outer \<open>None\<close> is
  \<open>undefined\<close>, the inner one \<open>null\<close>.\<close>

definition run_output :: "IRunData \<Rightarrow> string \<Rightarrow> nat \<Rightarrow> nat \<Rightarrow> INodeExecutionData list option option" where
  "run_output runData nodeName runIndex i =
     (case map_of runData nodeName of None \<Rightarrow> None
      | Some tasks \<Rightarrow> if runIndex \<ge> length tasks then None
          else case t_data (tasks ! runIndex) of None \<Rightarrow> None
          | Some d \<Rightarrow> (case map_of d Main of None \<Rightarrow> None
          | Some outs \<Rightarrow> if i < length outs then Some (outs ! i) else None))"

fun incomingConnectionIsEmpty :: "IRunData \<Rightarrow> IConnection list \<Rightarrow> nat \<Rightarrow> bool result" where
  "incomingConnectionIsEmpty runData [] runIndex = Inr True"
| "incomingConnectionIsEmpty runData (c # cs) runIndex =
     (case run_output runData (c_node c) runIndex (c_index c) of
        None \<Rightarrow> incomingConnectionIsEmpty runData cs runIndex
      | Some None \<Rightarrow> Inl TypeError
      | Some (Some items) \<Rightarrow>
          if length items \<noteq> 0 then Inr False else incomingConnectionIsEmpty runData cs runIndex)"

definition prepareWaitingToExecution :: "string \<Rightarrow> nat \<Rightarrow> nat \<Rightarrow> RunExecutionData \<Rightarrow> RunExecutionData" where
  "prepareWaitingToExecution nodeName numberOfConnections runIndex x =
     x\<lparr>x_waitingExecution :=
         wait_put (x_waitingExecution x) nodeName runIndex [(Main, replicate numberOfConnections None)],
       x_waitingExecutionSource :=
         wait_put (x_waitingExecutionSource x) nodeName runIndex [(Main, replicate numberOfConnections None)]\<rparr>"

text \<open>\<open>workflow.connectionsByDestinationNode[name]?.main?.length ?? 0\<close>.\<close>

definition numberOfInputs :: "Workflow \<Rightarrow> string \<Rightarrow> nat" where
  "numberOfInputs w name = (case in_groups w name of None \<Rightarrow> 0 | Some groups \<Rightarrow> length groups)"

text \<open>The first entry that has no data yet for the input.\<close>

fun findWaitingEntry :: "nat \<Rightarrow> (nat, ITaskDataConnections) dict \<Rightarrow> nat option result" where
  "findWaitingEntry i [] = Inr None"
| "findWaitingEntry i ((runIndex, entry) # runs) =
     (case map_of entry Main of None \<Rightarrow> Inl TypeError
      | Some arr \<Rightarrow> if i < length arr \<and> arr ! i \<noteq> None then findWaitingEntry i runs else Inr (Some runIndex))"

text \<open>Creating the node's objects, choosing the entry and preparing a new one where all entries have
  data for the input. The result is the state, the run index of the entry and \<open>nodeWasWaiting\<close>.\<close>

definition openWaitingEntry ::
    "Workflow \<Rightarrow> IConnection \<Rightarrow> RunExecutionData \<Rightarrow> (RunExecutionData \<times> nat \<times> bool) result" where
  "openWaitingEntry w connectionData x =
     (let name = c_node connectionData;
          nodeWasWaiting = (map_of (x_waitingExecution x) name \<noteq> None);
          x1 = (if nodeWasWaiting then x
                else x\<lparr>x_waitingExecution := obj_set name [] (x_waitingExecution x),
                       x_waitingExecutionSource := obj_set name [] (x_waitingExecutionSource x)\<rparr>);
          runs = or_default [] (map_of (x_waitingExecution x1) name)
      in res_bind (findWaitingEntry (c_index connectionData) runs) (\<lambda>found.
           case found of
             Some waitingNodeIndex \<Rightarrow> Inr (x1, waitingNodeIndex, nodeWasWaiting)
           | None \<Rightarrow> Inr (prepareWaitingToExecution name (numberOfInputs w name) (length runs) x1,
                         length runs, nodeWasWaiting)))"

text \<open>Storing the data of one output and where it came from.\<close>

definition storeWaitingData ::
    "IConnection \<Rightarrow> nat \<Rightarrow> INodeExecutionData list option \<Rightarrow> ISourceData option \<Rightarrow> RunExecutionData
       \<Rightarrow> RunExecutionData result" where
  "storeWaitingData connectionData waitingNodeIndex items source x =
     (let name = c_node connectionData; i = c_index connectionData
      in res_bind (wait_main (x_waitingExecution x) name waitingNodeIndex) (\<lambda>arr.
         res_bind (slot_write i items arr) (\<lambda>arr'.
         res_bind (wait_main (x_waitingExecutionSource x) name waitingNodeIndex) (\<lambda>srcs.
         res_bind (slot_write i source srcs) (\<lambda>srcs'.
           Inr (x\<lparr>x_waitingExecution := wait_put (x_waitingExecution x) name waitingNodeIndex
                    (obj_set Main arr' (wait_entry (x_waitingExecution x) name waitingNodeIndex)),
                  x_waitingExecutionSource := wait_put (x_waitingExecutionSource x) name waitingNodeIndex
                    (obj_set Main srcs' (wait_entry (x_waitingExecutionSource x) name waitingNodeIndex))\<rparr>))))))"

text \<open>An entry with data for all inputs moves to the stack; the node's objects go with its last entry.\<close>

definition completeWaitingEntry ::
    "string option \<Rightarrow> Workflow \<Rightarrow> string \<Rightarrow> nat \<Rightarrow> RunExecutionData \<Rightarrow> RunExecutionData result" where
  "completeWaitingEntry executionOrder w name waitingNodeIndex x =
     (case getNode w name of None \<Rightarrow> Inl UndefinedValue
      | Some node \<Rightarrow>
         (let entry = \<lparr>e_node = node, e_data = wait_entry (x_waitingExecution x) name waitingNodeIndex,
                e_source = Some (wait_entry (x_waitingExecutionSource x) name waitingNodeIndex),
                e_runIndex = None, e_metadata = None\<rparr>;
              waiting = wait_delete (x_waitingExecution x) name waitingNodeIndex;
              sources = wait_delete (x_waitingExecutionSource x) name waitingNodeIndex;
              last = (or_default [] (map_of waiting name) = [])
          in Inr (enqueue executionOrder entry
               (x\<lparr>x_waitingExecution := if last then AList.delete name waiting else waiting,
                  x_waitingExecutionSource := if last then AList.delete name sources else sources\<rparr>))))"

text \<open>An entry that is not complete keeps waiting: it is prepared again and gets the arrays it had.\<close>

definition keepWaitingEntry ::
    "Workflow \<Rightarrow> IConnection \<Rightarrow> nat \<Rightarrow> INodeExecutionData list option \<Rightarrow> RunExecutionData \<Rightarrow> RunExecutionData result" where
  "keepWaitingEntry w connectionData waitingNodeIndex items x =
     (let name = c_node connectionData
      in res_bind (wait_main (x_waitingExecution x) name waitingNodeIndex) (\<lambda>arr.
         res_bind (slot_write (c_index connectionData) items arr) (\<lambda>connectionDataArray.
         res_bind (wait_main (x_waitingExecutionSource x) name waitingNodeIndex) (\<lambda>sources.
           let x' = prepareWaitingToExecution name (numberOfInputs w name) waitingNodeIndex x
           in Inr (x'\<lparr>x_waitingExecution := wait_put (x_waitingExecution x') name waitingNodeIndex [(Main, connectionDataArray)],
                      x_waitingExecutionSource := wait_put (x_waitingExecutionSource x') name waitingNodeIndex
                        (obj_set Main sources (wait_entry (x_waitingExecutionSource x') name waitingNodeIndex))\<rparr>)))))"

section \<open>Other parents of a waiting node\<close>

text \<open>
  When a node starts to wait, the legacy order also schedules those of its other parents that would
  not run otherwise; the order \<open>v1\<close> schedules none.
\<close>

definition checkOutputNodes :: "Workflow \<Rightarrow> string \<Rightarrow> string list result" where
  "checkOutputNodes w parentNodeName =
     (case map_of (w_connectionsBySourceNode w) parentNodeName of None \<Rightarrow> Inl TypeError
      | Some tm \<Rightarrow> Inr (case map_of tm Main of None \<Rightarrow> [] | Some outs \<Rightarrow> map c_node (concat (map or_empty outs))))"

definition firstInputIsEmpty :: "Workflow \<Rightarrow> IRunData \<Rightarrow> string \<Rightarrow> nat \<Rightarrow> bool result" where
  "firstInputIsEmpty w runData name runIndex =
     (case in_groups w name of None \<Rightarrow> Inl TypeError
      | Some groups \<Rightarrow> incomingConnectionIsEmpty runData (case groups of [] \<Rightarrow> [] | g # _ \<Rightarrow> or_empty g) runIndex)"

text \<open>The topmost parent that is neither scheduled nor processed; \<open>None\<close> if one of them is scheduled.\<close>

fun pickNodeToAdd :: "string list \<Rightarrow> string list \<Rightarrow> IRunData \<Rightarrow> string \<Rightarrow> string option \<Rightarrow> string list \<Rightarrow> string option" where
  "pickNodeToAdd outputNodes stackNodes runData inputNode nodeToAdd [] = nodeToAdd"
| "pickNodeToAdd outputNodes stackNodes runData inputNode nodeToAdd (parentNode # ps) =
     (if inputNode \<noteq> parentNode \<and> parentNode \<in> set outputNodes then None
      else if parentNode \<in> set stackNodes then None
      else if map_of runData parentNode \<noteq> None then nodeToAdd
      else pickNodeToAdd outputNodes stackNodes runData inputNode (Some parentNode) ps)"

definition stackNodeNames :: "RunExecutionData \<Rightarrow> string list" where
  "stackNodeNames x = map (n_name \<circ> e_node) (x_nodeExecutionStack x)"

definition forceParent ::
    "string option \<Rightarrow> Workflow \<Rightarrow> string list \<Rightarrow> string \<Rightarrow> INodeExecutionData list option \<Rightarrow> ISourceData \<Rightarrow> nat
       \<Rightarrow> string \<Rightarrow> RunExecutionData \<Rightarrow> RunExecutionData result" where
  "forceParent executionOrder w outputNodes parentNodeName items source runIndex inputNode x =
     (let parentNodes = rev (wfGetParentNodes w inputNode (Type Main) (-1) @ [inputNode]);
          picked = pickNodeToAdd outputNodes (stackNodeNames x) (x_runData x) inputNode (Some inputNode) parentNodes;
          parentNodesNodeToAdd = wfGetParentNodes w (or_default ''undefined'' picked) (Type Main) (-1)
      in res_bind
          (if parentNodeName \<in> set parentNodesNodeToAdd
           then (case items of None \<Rightarrow> Inl TypeError | Some is \<Rightarrow> Inr (is = [])) else Inr False) (\<lambda>noInput.
         case (if noInput then None else picked) of
           None \<Rightarrow> Inr x
         | Some nodeToAdd \<Rightarrow>
             res_bind (if map_of (w_connectionsByDestinationNode w) nodeToAdd = None then Inr True
                       else firstInputIsEmpty w (x_runData x) nodeToAdd runIndex) (\<lambda>addEmptyItem.
               if \<not> addEmptyItem then Inr x
               else case getNode w nodeToAdd of None \<Rightarrow> Inl UndefinedValue
                 | Some node \<Rightarrow> Inr (enqueue executionOrder
                     \<lparr>e_node = node, e_data = emptyItemData, e_source = Some [(Main, [Some source])],
                      e_runIndex = None, e_metadata = None\<rparr> x))))"

definition considerParent ::
    "string option \<Rightarrow> Workflow \<Rightarrow> string list \<Rightarrow> string \<Rightarrow> INodeExecutionData list option \<Rightarrow> ISourceData \<Rightarrow> nat
       \<Rightarrow> IConnection \<Rightarrow> RunExecutionData \<Rightarrow> RunExecutionData result" where
  "considerParent executionOrder w outputNodes parentNodeName items source runIndex inputData x =
     (if c_node inputData = parentNodeName then Inr x
      else res_bind
        (if c_node inputData \<in> set outputNodes
         then res_bind (firstInputIsEmpty w (x_runData x) (c_node inputData) runIndex) (\<lambda>empty. Inr (\<not> empty))
         else Inr False) (\<lambda>runsAnyway.
           if runsAnyway then Inr x
           else if c_node inputData \<in> set (stackNodeNames x) then Inr x
           else if map_of (x_runData x) (c_node inputData) \<noteq> None then Inr x
           else if \<not> isLegacyExecutionOrder executionOrder then Inr x
           else forceParent executionOrder w outputNodes parentNodeName items source runIndex (c_node inputData) x))"

definition considerParents ::
    "string option \<Rightarrow> Workflow \<Rightarrow> string \<Rightarrow> string \<Rightarrow> INodeExecutionData list option \<Rightarrow> ISourceData \<Rightarrow> nat
       \<Rightarrow> RunExecutionData \<Rightarrow> RunExecutionData result" where
  "considerParents executionOrder w name parentNodeName items source runIndex x =
     res_bind (checkOutputNodes w parentNodeName) (\<lambda>outputNodes.
       res_fold (considerParent executionOrder w outputNodes parentNodeName items source runIndex)
         (concat (map or_empty (or_default [] (in_groups w name)))) x)"

section \<open>Adding a node\<close>

definition outputItems :: "INodeExecutionData list option list option \<Rightarrow> nat \<Rightarrow> INodeExecutionData list option result" where
  "outputItems nodeSuccessData outputIndex =
     (case nodeSuccessData of None \<Rightarrow> Inr None
      | Some outs \<Rightarrow> if outputIndex < length outs then Inr (outs ! outputIndex) else Inl UndefinedValue)"

definition addDirectly ::
    "string option \<Rightarrow> Workflow \<Rightarrow> IConnection \<Rightarrow> INodeExecutionData list option \<Rightarrow> ISourceData \<Rightarrow> nat option
       \<Rightarrow> (string, json) dict option \<Rightarrow> RunExecutionData \<Rightarrow> RunExecutionData" where
  "addDirectly executionOrder w connectionData items source newRunIndex metadata x =
     (case getNode w (c_node connectionData) of None \<Rightarrow> x
      | Some node \<Rightarrow> enqueue executionOrder
          \<lparr>e_node = node, e_data = [(Main, replicate (c_index connectionData) None @ [items])],
           e_source = Some [(Main, [Some source])], e_runIndex = newRunIndex, e_metadata = metadata\<rparr> x)"

definition addWaiting_multi ::
    "string option \<Rightarrow> Workflow \<Rightarrow> IConnection \<Rightarrow> string \<Rightarrow> INodeExecutionData list option \<Rightarrow> ISourceData \<Rightarrow> ISourceData option
       \<Rightarrow> nat \<Rightarrow> RunExecutionData \<Rightarrow> RunExecutionData result" where
  "addWaiting_multi executionOrder w connectionData parentNodeName items source stored runIndex x =
     res_bind (openWaitingEntry w connectionData x) (\<lambda>opened.
     let waitingNodeIndex = fst (snd opened)
     in res_bind (storeWaitingData connectionData waitingNodeIndex items stored (fst opened)) (\<lambda>x1.
        res_bind (wait_main (x_waitingExecution x1) (c_node connectionData) waitingNodeIndex) (\<lambda>arr.
          if None \<notin> set arr
          then completeWaitingEntry executionOrder w (c_node connectionData) waitingNodeIndex x1
          else res_bind
            (if snd (snd opened) then Inr x1
             else considerParents executionOrder w (c_node connectionData) parentNodeName items source runIndex x1)
            (keepWaitingEntry w connectionData waitingNodeIndex items))))"

definition addNodeToBeExecuted ::
    "string option \<Rightarrow> Workflow \<Rightarrow> IConnection \<Rightarrow> nat \<Rightarrow> string \<Rightarrow> INodeExecutionData list option list option \<Rightarrow> nat
       \<Rightarrow> nat option \<Rightarrow> (string, json) dict option \<Rightarrow> RunExecutionData \<Rightarrow> RunExecutionData result" where
  "addNodeToBeExecuted executionOrder w connectionData outputIndex parentNodeName nodeSuccessData runIndex newRunIndex metadata x =
     res_bind (outputItems nodeSuccessData outputIndex) (\<lambda>items.
       let source = \<lparr>previousNode = parentNodeName, previousNodeOutput = Some outputIndex, previousNodeRun = Some runIndex\<rparr>
       in if numberOfInputs w (c_node connectionData) > 1
          then addWaiting_multi executionOrder w connectionData parentNodeName items source
                 (map_option (\<lambda>_. source) nodeSuccessData) runIndex x
          else Inr (addDirectly executionOrder w connectionData items source newRunIndex metadata x))"

end
