(* ===== verification/Engine_Waiting.thy ===== *)
theory Engine_Waiting
  imports Engine_Queue
begin

text \<open>
  What \<open>addNodeToBeExecuted\<close> does in the order \<open>v1\<close>, as a refinement of a small specification:
  data for an input goes to the first run of the node that has none yet for it, and a run with data
  for all inputs moves to the stack. From the specification follow that no items are lost as long as the
  runs that wait are numbered without gaps, and that they are lost otherwise.
\<close>

section \<open>Entries keyed by run index\<close>

lemma idx_set_idx_set: "idx_set k v (idx_set k u m) = idx_set k v m"
  by (induction m) auto

lemma delete_idx_set: "AList.delete k (idx_set k v m) = AList.delete k m"
  by (induction m) auto

lemma map_idx_set: "map (apsnd f) (idx_set k v m) = idx_set k (f v) (map (apsnd f) m)"
  by (induction m) auto

lemma map_delete: "map (apsnd f) (AList.delete k m) = AList.delete k (map (apsnd f) m)"
  by (induction m) auto

lemma keys_idx_set: "fst ` set (idx_set k v m) = insert k (fst ` set m)"
  by (induction k v m rule: idx_set.induct) (simp_all add: insert_commute)

lemma set_idx_set: "set (idx_set k v m) \<subseteq> insert (k, v) (set m)"
  by (induction k v m rule: idx_set.induct) (auto split: if_splits)

lemma idx_set_not_Nil [simp]: "idx_set k v m \<noteq> []"
  by (induction k v m rule: idx_set.induct) simp_all

lemma sorted_idx_set: "sorted_wrt (<) (map fst m) \<Longrightarrow> sorted_wrt (<) (map fst (idx_set k v m))"
proof (induction m)
  case (Cons p m)
  then show ?case using keys_idx_set [of k v m] by (cases p) auto
qed simp

lemma map_of_idx_set:
  assumes "sorted_wrt (<) (map fst m)"
  shows "map_of (idx_set k v m) = (map_of m)(k \<mapsto> v)"
  using assms
proof (induction m)
  case (Cons p m)
  show ?case
  proof (cases p)
    case (Pair l u)
    with Cons show ?thesis by (auto simp: fun_eq_iff)
  qed
qed simp

lemma keys_idx_set_same:
  "map fst m = map fst m' \<Longrightarrow> map fst (idx_set k v m) = map fst (idx_set k v' m')"
proof (induction m arbitrary: m')
  case (Cons p m)
  then obtain q m1 where "m' = q # m1" "fst q = fst p" "map fst m = map fst m1" by (cases m') auto
  with Cons.IH [of m1] show ?case by (cases p; cases q) auto
qed simp

lemma keys_delete_same: "map fst m = map fst m' \<Longrightarrow> map fst (AList.delete k m) = map fst (AList.delete k m')"
proof (induction m arbitrary: m')
  case (Cons p m)
  then obtain q m1 where "m' = q # m1" "fst q = fst p" "map fst m = map fst m1" by (cases m') auto
  with Cons.IH [of m1] show ?case by (cases p; cases q) auto
qed simp

lemma sorted_delete: "sorted_wrt (<) (map fst m) \<Longrightarrow> sorted_wrt (<) (map fst (AList.delete k m))"
  by (induction m) (auto dest: subsetD [OF delete_subset])

section \<open>The specification\<close>

type_synonym inputs = "INodeExecutionData list option list"

text \<open>The run that takes the data of input \<open>i\<close>, and what it holds so far.\<close>

fun target_run :: "nat \<Rightarrow> nat \<Rightarrow> nat \<Rightarrow> (nat \<times> inputs) list \<Rightarrow> nat \<times> inputs" where
  "target_run n i fresh [] = (fresh, replicate n None)"
| "target_run n i fresh ((k, arr) # runs) =
     (if i < length arr \<and> arr ! i \<noteq> None then target_run n i fresh runs else (k, arr))"

definition deliver ::
    "nat \<Rightarrow> INode \<Rightarrow> string \<Rightarrow> nat \<Rightarrow> INodeExecutionData list
       \<Rightarrow> (INode \<times> inputs) list \<times> (string \<Rightarrow> (nat \<times> inputs) list)
       \<Rightarrow> (INode \<times> inputs) list \<times> (string \<Rightarrow> (nat \<times> inputs) list)" where
  "deliver n node name i items a =
     (let runs = snd a name;
          k = fst (target_run n i (length runs) runs);
          arr = (snd (target_run n i (length runs) runs))[i := Some items]
      in if None \<notin> set arr then ((node, arr) # fst a, (snd a)(name := AList.delete k runs))
         else (fst a, (snd a)(name := idx_set k arr runs)))"

definition slots :: "(string, 'v option list) dict \<Rightarrow> 'v option list" where
  "slots entry = or_default [] (map_of entry Main)"

definition waiting_runs :: "RunExecutionData \<Rightarrow> string \<Rightarrow> (nat \<times> inputs) list" where
  "waiting_runs x name = map (apsnd slots) (or_default [] (map_of (x_waitingExecution x) name))"

definition queue_abs :: "RunExecutionData \<Rightarrow> (INode \<times> inputs) list \<times> (string \<Rightarrow> (nat \<times> inputs) list)" where
  "queue_abs x = (map (\<lambda>e. (e_node e, slots (e_data e))) (x_nodeExecutionStack x), waiting_runs x)"

section \<open>The invariant of the waiting entries\<close>

definition runs_ok :: "nat \<Rightarrow> (nat, (string, 'v option list) dict) dict \<Rightarrow> bool" where
  "runs_ok n runs \<longleftrightarrow> sorted_wrt (<) (map fst runs) \<and>
     (\<forall>p \<in> set runs. snd p = [(Main, slots (snd p))] \<and> length (slots (snd p)) = n)"

text \<open>A node that waits has at least one run, every run lacks data for some input, and the sources
  are kept for the same runs.\<close>

definition waiting_ok :: "Workflow \<Rightarrow> RunExecutionData \<Rightarrow> bool" where
  "waiting_ok w x \<longleftrightarrow> (\<forall>name runs. map_of (x_waitingExecution x) name = Some runs \<longrightarrow>
     runs \<noteq> [] \<and> runs_ok (numberOfInputs w name) runs \<and> (\<forall>p \<in> set runs. None \<in> set (slots (snd p))) \<and>
     (\<exists>srcs. map_of (x_waitingExecutionSource x) name = Some srcs \<and>
        runs_ok (numberOfInputs w name) srcs \<and> map fst srcs = map fst runs))"

lemma or_default_simps [simp]: "or_default d (Some v) = v" "or_default d None = d"
  by (simp_all add: or_default_def)

lemma slots_main [simp]: "slots [(Main, arr)] = arr"
  by (simp add: slots_def or_default_def)

lemma runs_ok_lookup:
  assumes "runs_ok n runs" and "k \<in> fst ` set runs"
  shows "\<exists>arr. map_of runs k = Some [(Main, arr)] \<and> length arr = n"
proof -
  from assms(2) obtain e where e: "map_of runs k = Some e" by (metis map_of_eq_None_iff not_Some_eq)
  from map_of_SomeD [OF this] assms(1) have "e = [(Main, slots e)]" "length (slots e) = n" by (force simp: runs_ok_def)+
  with e show ?thesis by metis
qed

lemma runs_ok_idx_set: "runs_ok n runs \<Longrightarrow> length arr = n \<Longrightarrow> runs_ok n (idx_set k [(Main, arr)] runs)"
  using set_idx_set [of k "[(Main, arr)]" runs] by (auto simp: runs_ok_def sorted_idx_set)

lemma runs_ok_delete: "runs_ok n runs \<Longrightarrow> runs_ok n (AList.delete k runs)"
  using delete_subset [of k runs] by (auto simp: runs_ok_def sorted_delete)

section \<open>The refinement\<close>

lemma findWaitingEntry_target:
  assumes "\<forall>p \<in> set runs. snd p = [(Main, slots (snd p))]"
  shows "case findWaitingEntry i runs of
      Inr (Some k) \<Rightarrow> (\<exists>arr. target_run n i fresh (map (apsnd slots) runs) = (k, arr) \<and> (k, [(Main, arr)]) \<in> set runs)
    | Inr None \<Rightarrow> target_run n i fresh (map (apsnd slots) runs) = (fresh, replicate n None)
    | Inl _ \<Rightarrow> False"
  using assms
proof (induction runs)
  case (Cons p runs)
  then obtain k arr where p: "p = (k, [(Main, arr)])" by (cases p) auto
  show ?case
  proof (cases "i < length arr \<and> arr ! i \<noteq> None")
    case True
    with Cons p show ?thesis by (auto split: sum.splits option.splits)
  next
    case False
    with p show ?thesis by auto
  qed
qed simp

text \<open>\<open>u\<close> is \<open>x\<close> with the runs and sources of one node replaced.\<close>

definition with_runs ::
    "RunExecutionData \<Rightarrow> string \<Rightarrow> (nat, ITaskDataConnections) dict option \<Rightarrow> (nat, ITaskDataConnectionsSource) dict option
       \<Rightarrow> RunExecutionData \<Rightarrow> bool" where
  "with_runs x name runs srcs u \<longleftrightarrow>
     map_of (x_waitingExecution u) = (map_of (x_waitingExecution x))(name := runs) \<and>
     map_of (x_waitingExecutionSource u) = (map_of (x_waitingExecutionSource x))(name := srcs) \<and>
     x_nodeExecutionStack u = x_nodeExecutionStack x \<and> x_runData u = x_runData x"

lemma map_of_wait_put:
  "map_of (wait_put W name k e) = (map_of W)(name \<mapsto> idx_set k e (or_default [] (map_of W name)))"
  by (simp add: wait_put_def map_of_obj_set)

lemma openWaitingEntry_opens:
  assumes ok: "waiting_ok w x" and n: "n = numberOfInputs w (c_node c)"
    and t: "target_run n (c_index c) (length (waiting_runs x (c_node c))) (waiting_runs x (c_node c)) = (k, arr)"
  shows "\<exists>u runs srcs.
    openWaitingEntry w c x = Inr (u, k, map_of (x_waitingExecution x) (c_node c) \<noteq> None) \<and>
    with_runs x (c_node c) (Some runs) (Some srcs) u \<and>
    runs_ok n runs \<and> runs_ok n srcs \<and> map fst srcs = map fst runs \<and>
    map_of runs k = Some [(Main, arr)] \<and> length arr = n \<and>
    (\<forall>v. idx_set k v runs = idx_set k v (or_default [] (map_of (x_waitingExecution x) (c_node c)))) \<and>
    AList.delete k runs = AList.delete k (or_default [] (map_of (x_waitingExecution x) (c_node c)))"
proof -
  let ?W = "map_of (x_waitingExecution x)" and ?S = "map_of (x_waitingExecutionSource x)" and ?nm = "c_node c"
  let ?R = "or_default [] (?W ?nm)"
  define u where "u = (if ?W ?nm \<noteq> None then x
    else x\<lparr>x_waitingExecution := obj_set ?nm [] (x_waitingExecution x),
           x_waitingExecutionSource := obj_set ?nm [] (x_waitingExecutionSource x)\<rparr>)"
  obtain Q where u: "with_runs x ?nm (Some ?R) (Some Q) u"
    and R: "runs_ok n ?R" and Q: "runs_ok n Q" "map fst Q = map fst ?R"
  proof (cases "?W ?nm")
    case None
    then show thesis
      by (intro that [of "[]"]) (simp_all add: u_def with_runs_def map_of_obj_set or_default_def runs_ok_def)
  next
    case (Some runs)
    with ok n obtain Q where "?S ?nm = Some Q" "runs_ok n runs" "runs_ok n Q" "map fst Q = map fst runs"
      unfolding waiting_ok_def by blast
    with Some show thesis
      by (intro that [of Q]) (simp_all add: u_def with_runs_def or_default_def fun_upd_idem)
  qed
  have Ru: "or_default [] (map_of (x_waitingExecution u) ?nm) = ?R"
    using u by (simp add: with_runs_def or_default_def)
  have op: "openWaitingEntry w c x = res_bind (findWaitingEntry (c_index c) ?R) (\<lambda>found.
           case found of
             Some i \<Rightarrow> Inr (u, i, ?W ?nm \<noteq> None)
           | None \<Rightarrow> Inr (prepareWaitingToExecution ?nm n (length ?R) u, length ?R, ?W ?nm \<noteq> None))"
    unfolding openWaitingEntry_def Let_def u_def [symmetric] Ru n ..
  have t': "target_run n (c_index c) (length ?R) (map (apsnd slots) ?R) = (k, arr)"
    using t by (simp add: waiting_runs_def)
  have es: "\<forall>p \<in> set ?R. snd p = [(Main, slots (snd p))]" using R by (simp add: runs_ok_def)
  note f = findWaitingEntry_target [OF es, where i = "c_index c" and n = n and fresh = "length ?R"]
  then obtain found where found: "findWaitingEntry (c_index c) ?R = Inr found" by (auto split: sum.splits)
  show ?thesis
  proof (cases found)
    case (Some k')
    with f found t' have k: "k' = k" "(k, [(Main, arr)]) \<in> set ?R" by auto
    have l: "map_of ?R k = Some [(Main, arr)]"
      using k(2) R by (intro map_of_is_SomeI) (auto simp: runs_ok_def strict_sorted_iff)
    moreover have "length arr = n" using k(2) R by (force simp: runs_ok_def)
    ultimately show ?thesis using u R Q found Some k(1) unfolding op by (intro exI [of _ u] exI [of _ ?R] exI [of _ Q]) simp
  next
    case None
    with f found t' have k: "k = length ?R" "arr = replicate n None" by auto
    let ?e = "[(Main, arr)]"
    let ?v = "prepareWaitingToExecution ?nm n (length ?R) u"
    have Qu: "or_default [] (map_of (x_waitingExecutionSource u) ?nm) = Q"
      using u by (simp add: with_runs_def or_default_def)
    have "with_runs x ?nm (Some (idx_set k ?e ?R)) (Some (idx_set k [(Main, replicate n None)] Q)) ?v"
      using u by (simp add: with_runs_def prepareWaitingToExecution_def map_of_wait_put Ru Qu k)
    moreover have "runs_ok n (idx_set k ?e ?R)" using R k by (intro runs_ok_idx_set) simp_all
    moreover have "runs_ok n (idx_set k [(Main, replicate n None)] Q)" using Q(1) by (intro runs_ok_idx_set) simp_all
    moreover have "map_of (idx_set k ?e ?R) k = Some ?e" using R by (simp add: map_of_idx_set runs_ok_def)
    moreover have "map fst (idx_set k [(Main, replicate n None)] Q) = map fst (idx_set k ?e ?R)"
      using keys_idx_set_same [OF Q(2)] by blast
    ultimately show ?thesis using found None k unfolding op
      by (intro exI [of _ ?v] exI [of _ "idx_set k ?e ?R"] exI [of _ "idx_set k [(Main, replicate n None)] Q"])
        (simp add: idx_set_idx_set delete_idx_set)
  qed
qed

lemma wait_main_with_runs:
  assumes "with_runs x name (Some runs) (Some srcs) u"
  shows "map_of runs k = Some [(Main, arr)] \<Longrightarrow> wait_main (x_waitingExecution u) name k = Inr arr"
    and "map_of srcs k = Some [(Main, sarr)] \<Longrightarrow> wait_main (x_waitingExecutionSource u) name k = Inr sarr"
    and "map_of runs k = Some [(Main, arr)] \<Longrightarrow> wait_entry (x_waitingExecution u) name k = [(Main, arr)]"
    and "map_of srcs k = Some [(Main, sarr)] \<Longrightarrow> wait_entry (x_waitingExecutionSource u) name k = [(Main, sarr)]"
  using assms by (simp_all add: with_runs_def wait_main_def wait_entry_def or_default_def)

lemma with_runs_put:
  assumes "with_runs x name (Some runs) (Some srcs) u"
  shows "with_runs x name (Some (idx_set k e runs)) (Some (idx_set k f srcs))
    (u\<lparr>x_waitingExecution := wait_put (x_waitingExecution u) name k e,
       x_waitingExecutionSource := wait_put (x_waitingExecutionSource u) name k f\<rparr>)"
  using assms by (simp add: with_runs_def map_of_wait_put or_default_def)

lemma obj_set_Main [simp]: "obj_set Main v [(Main, u)] = [(Main, v)]"
  by (simp add: obj_set_def)

lemma storeWaitingData_stores:
  assumes u: "with_runs x (c_node c) (Some runs) (Some srcs) u" and ok: "runs_ok n runs" "runs_ok n srcs" "map fst srcs = map fst runs"
    and arr: "map_of runs k = Some [(Main, arr)]" "c_index c < n"
  shows "\<exists>v sarr. storeWaitingData c k (Some items) (Some src) u = Inr v \<and> length sarr = n \<and>
    with_runs x (c_node c) (Some (idx_set k [(Main, arr[c_index c := Some items])] runs)) (Some (idx_set k [(Main, sarr)] srcs)) v"
proof -
  have len: "length arr = n" using map_of_SomeD [OF arr(1)] ok(1) by (force simp: runs_ok_def)
  have "k \<in> fst ` set srcs"
    using map_of_SomeD [OF arr(1)] ok(3) by (metis fst_conv image_eqI list.set_map)
  from runs_ok_lookup [OF ok(2) this] obtain sarr where sarr: "map_of srcs k = Some [(Main, sarr)]" "length sarr = n" by blast
  note m = wait_main_with_runs [OF u]
  show ?thesis
    using with_runs_put [OF u, of k "[(Main, arr[c_index c := Some items])]" "[(Main, sarr[c_index c := Some src])]"] len arr(2) sarr
    by (intro exI [of _ "u\<lparr>x_waitingExecution := wait_put (x_waitingExecution u) (c_node c) k [(Main, arr[c_index c := Some items])],
          x_waitingExecutionSource := wait_put (x_waitingExecutionSource u) (c_node c) k [(Main, sarr[c_index c := Some src])]\<rparr>"]
        exI [of _ "sarr[c_index c := Some src]"])
      (simp add: storeWaitingData_def Let_def m(1) [OF arr(1)] m(2) [OF sarr(1)] m(3) [OF arr(1)] m(4) [OF sarr(1)] slot_write_def)
qed

lemma keepWaitingEntry_keeps:
  assumes u: "with_runs x (c_node c) (Some runs) (Some srcs) u"
    and arr: "map_of runs k = Some [(Main, arr)]" "c_index c < length arr" "arr ! c_index c = items"
    and sarr: "map_of srcs k = Some [(Main, sarr)]" and ok: "sorted_wrt (<) (map fst srcs)"
  shows "\<exists>v. keepWaitingEntry w c k items u = Inr v \<and>
    with_runs x (c_node c) (Some (idx_set k [(Main, arr)] runs)) (Some (idx_set k [(Main, sarr)] srcs)) v"
proof -
  note m = wait_main_with_runs [OF u]
  let ?N = "[(Main, replicate (numberOfInputs w (c_node c)) None)]"
  let ?p = "prepareWaitingToExecution (c_node c) (numberOfInputs w (c_node c)) k u"
  have p: "with_runs x (c_node c) (Some (idx_set k ?N runs)) (Some (idx_set k ?N srcs)) ?p"
    using with_runs_put [OF u] by (simp add: prepareWaitingToExecution_def)
  have z: "wait_entry (x_waitingExecutionSource ?p) (c_node c) k = ?N"
    by (rule wait_main_with_runs(4) [OF p]) (simp add: map_of_idx_set [OF ok])
  have s: "arr[c_index c := items] = arr" using arr(2,3) by auto
  show ?thesis
    using with_runs_put [OF p, of k "[(Main, arr)]" "[(Main, sarr)]"] arr(2) s
    by (simp add: keepWaitingEntry_def Let_def m(1) [OF arr(1)] m(2) [OF sarr] slot_write_def z idx_set_idx_set)
qed

lemma with_runs_delete:
  assumes "with_runs x name (Some runs) (Some srcs) u" and "map fst srcs = map fst runs"
  shows "with_runs x name
      (if AList.delete k runs = [] then None else Some (AList.delete k runs))
      (if AList.delete k runs = [] then None else Some (AList.delete k srcs))
    (let waiting = wait_delete (x_waitingExecution u) name k; sources = wait_delete (x_waitingExecutionSource u) name k;
         last = (or_default [] (map_of waiting name) = [])
     in u\<lparr>x_waitingExecution := if last then AList.delete name waiting else waiting,
          x_waitingExecutionSource := if last then AList.delete name sources else sources\<rparr>)"
  using assms(1) by (auto simp: with_runs_def Let_def wait_delete_def map_of_obj_set fun_eq_iff)

text \<open>What adding a node relies on: the parent has outputs, their nodes have inputs by destination, and no
  output of a past run is \<open>null\<close>.\<close>

definition parents_ok :: "Workflow \<Rightarrow> string \<Rightarrow> IRunData \<Rightarrow> bool" where
  "parents_ok w parentNodeName runData \<longleftrightarrow>
     (\<exists>outputNodes. checkOutputNodes w parentNodeName = Inr outputNodes \<and> (\<forall>n \<in> set outputNodes. in_groups w n \<noteq> None)) \<and>
     (\<forall>n k i. run_output runData n k i \<noteq> Some None)"

lemma incomingConnectionIsEmpty_total:
  assumes "\<forall>n k i. run_output runData n k i \<noteq> Some None"
  shows "\<exists>b. incomingConnectionIsEmpty runData cs runIndex = Inr b"
proof (induction cs)
  case (Cons c cs)
  have "run_output runData (c_node c) runIndex (c_index c) \<noteq> Some None" using assms by blast
  then consider "run_output runData (c_node c) runIndex (c_index c) = None"
    | items where "run_output runData (c_node c) runIndex (c_index c) = Some (Some items)"
    by (cases "run_output runData (c_node c) runIndex (c_index c)") auto
  then show ?case using Cons.IH by cases auto
qed auto

lemma considerParents_v1:
  assumes v1: "is_v1 order" and ok: "parents_ok w parent (x_runData x)"
  shows "considerParents order w name parent items source runIndex x = Inr x"
proof -
  from ok obtain outs where outs: "checkOutputNodes w parent = Inr outs" "\<forall>n \<in> set outs. in_groups w n \<noteq> None"
    by (auto simp: parents_ok_def)
  have one: "considerParent order w outs parent items source runIndex c x = Inr x" for c
  proof (cases "c_node c \<in> set outs")
    case True
    then obtain groups where "in_groups w (c_node c) = Some groups" using outs(2) by blast
    then obtain b where "firstInputIsEmpty w (x_runData x) (c_node c) runIndex = Inr b"
      using incomingConnectionIsEmpty_total [of "x_runData x"] ok
      by (simp add: parents_ok_def firstInputIsEmpty_def) blast
    with True v1 show ?thesis by (auto simp: considerParent_def isLegacyExecutionOrder_def)
  next
    case False
    with v1 show ?thesis by (auto simp: considerParent_def isLegacyExecutionOrder_def)
  qed
  have "res_fold (considerParent order w outs parent items source runIndex) cs x = Inr x" for cs
    by (induction cs) (simp_all add: one)
  with outs(1) show ?thesis by (simp add: considerParents_def)
qed

lemma waiting_ok_with_runs:
  assumes ok: "waiting_ok w x" and u: "with_runs x name runs srcs u"
    and new: "\<And>r. runs = Some r \<Longrightarrow> r \<noteq> [] \<and> runs_ok (numberOfInputs w name) r \<and> (\<forall>p \<in> set r. None \<in> set (slots (snd p))) \<and>
      (\<exists>q. srcs = Some q \<and> runs_ok (numberOfInputs w name) q \<and> map fst q = map fst r)"
  shows "waiting_ok w u"
  unfolding waiting_ok_def
proof (intro allI impI)
  fix nm r assume r: "map_of (x_waitingExecution u) nm = Some r"
  show "r \<noteq> [] \<and> runs_ok (numberOfInputs w nm) r \<and> (\<forall>p \<in> set r. None \<in> set (slots (snd p))) \<and>
     (\<exists>q. map_of (x_waitingExecutionSource u) nm = Some q \<and> runs_ok (numberOfInputs w nm) q \<and> map fst q = map fst r)"
  proof (cases "nm = name")
    case True
    with r u have "runs = Some r" by (simp add: with_runs_def)
    from new [OF this] True u show ?thesis by (auto simp: with_runs_def)
  next
    case False
    with r u have "map_of (x_waitingExecution x) nm = Some r"
      "map_of (x_waitingExecutionSource u) nm = map_of (x_waitingExecutionSource x) nm" by (simp_all add: with_runs_def)
    with ok show ?thesis unfolding waiting_ok_def by metis
  qed
qed

lemma waiting_runs_with_runs:
  "with_runs x name runs srcs u \<Longrightarrow>
     waiting_runs u = (waiting_runs x)(name := map (apsnd slots) (or_default [] runs))"
  by (auto simp: with_runs_def waiting_runs_def fun_eq_iff)

lemma waiting_ok_runs:
  assumes "waiting_ok w x"
  shows "runs_ok (numberOfInputs w nm) (or_default [] (map_of (x_waitingExecution x) nm))"
    and "p \<in> set (or_default [] (map_of (x_waitingExecution x) nm)) \<Longrightarrow> None \<in> set (slots (snd p))"
proof -
  have "runs_ok (numberOfInputs w nm) (or_default [] (map_of (x_waitingExecution x) nm)) \<and>
    (p \<in> set (or_default [] (map_of (x_waitingExecution x) nm)) \<longrightarrow> None \<in> set (slots (snd p)))"
  proof (cases "map_of (x_waitingExecution x) nm")
    case None
    then show ?thesis by (simp add: runs_ok_def)
  next
    case (Some runs)
    with assms have "runs_ok (numberOfInputs w nm) runs" "\<forall>p \<in> set runs. None \<in> set (slots (snd p))"
      unfolding waiting_ok_def by blast+
    with Some show ?thesis by simp
  qed
  then show "runs_ok (numberOfInputs w nm) (or_default [] (map_of (x_waitingExecution x) nm))"
    "p \<in> set (or_default [] (map_of (x_waitingExecution x) nm)) \<Longrightarrow> None \<in> set (slots (snd p))" by blast+
qed

text \<open>A state with the same abstraction up to the node's runs and a new top of the stack.\<close>

lemma addWaiting_multi_refines:
  assumes ok: "waiting_ok w x" and v1: "is_v1 order" and node: "getNode w (c_node c) = Some node"
    and i: "c_index c < numberOfInputs w (c_node c)" and par: "parents_ok w parent (x_runData x)"
  shows "\<exists>u. addWaiting_multi order w c parent (Some items) source (Some source) runIndex x = Inr u \<and>
    waiting_ok w u \<and> x_runData u = x_runData x \<and>
    queue_abs u = deliver (numberOfInputs w (c_node c)) node (c_node c) (c_index c) items (queue_abs x)"
proof -
  let ?nm = "c_node c" and ?n = "numberOfInputs w (c_node c)" and ?i = "c_index c"
  let ?R = "or_default [] (map_of (x_waitingExecution x) ?nm)"
  obtain k arr where t: "target_run ?n ?i (length (waiting_runs x ?nm)) (waiting_runs x ?nm) = (k, arr)" by fastforce
  from openWaitingEntry_opens [OF ok refl t] obtain a runs srcs where
    op: "openWaitingEntry w c x = Inr (a, k, map_of (x_waitingExecution x) ?nm \<noteq> None)"
    and a: "with_runs x ?nm (Some runs) (Some srcs) a" and r: "runs_ok ?n runs" "runs_ok ?n srcs" "map fst srcs = map fst runs"
    and arr: "map_of runs k = Some [(Main, arr)]" "length arr = ?n"
    and R: "\<forall>v. idx_set k v runs = idx_set k v ?R" "AList.delete k runs = AList.delete k ?R" by blast
  let ?arr = "arr[?i := Some items]"
  from storeWaitingData_stores [OF a r arr(1) i] obtain b sarr where
    st: "storeWaitingData c k (Some items) (Some source) a = Inr b" and "length sarr = ?n"
    and b: "with_runs x ?nm (Some (idx_set k [(Main, ?arr)] runs)) (Some (idx_set k [(Main, sarr)] srcs)) b" by blast
  let ?runs = "idx_set k [(Main, ?arr)] runs" and ?srcs = "idx_set k [(Main, sarr)] srcs"
  have ro: "runs_ok ?n ?runs" "runs_ok ?n ?srcs" "map fst ?srcs = map fst ?runs"
    using r \<open>length sarr = ?n\<close> arr(2) keys_idx_set_same [OF r(3)] by (simp_all add: runs_ok_idx_set)
  have look: "map_of ?runs k = Some [(Main, ?arr)]" "map_of ?srcs k = Some [(Main, sarr)]"
    using r by (simp_all add: map_of_idx_set runs_ok_def)
  note main = wait_main_with_runs [OF b]
  have rd: "x_runData b = x_runData x" using b by (simp add: with_runs_def)
  have spec: "deliver ?n node ?nm ?i items (queue_abs x) =
      (if None \<notin> set ?arr then ((node, ?arr) # fst (queue_abs x), (waiting_runs x)(?nm := AList.delete k (waiting_runs x ?nm)))
       else (fst (queue_abs x), (waiting_runs x)(?nm := idx_set k ?arr (waiting_runs x ?nm))))"
    by (simp add: deliver_def queue_abs_def t Let_def)
  show ?thesis
  proof (cases "None \<in> set ?arr")
    case True
    from keepWaitingEntry_keeps [OF b look(1) _ _ look(2), of "Some items" w] i arr(2) ro(2)
    obtain u where u: "keepWaitingEntry w c k (Some items) b = Inr u"
      "with_runs x ?nm (Some (idx_set k [(Main, ?arr)] ?runs)) (Some (idx_set k [(Main, sarr)] ?srcs)) u"
      by (auto simp: runs_ok_def)
    have "addWaiting_multi order w c parent (Some items) source (Some source) runIndex x = Inr u"
      using True considerParents_v1 [OF v1 par [folded rd]]
      by (simp add: addWaiting_multi_def op st main(1) [OF look(1)] u(1) Let_def)
    moreover have w: "with_runs x ?nm (Some ?runs) (Some ?srcs) u" using u(2) by (simp add: idx_set_idx_set)
    have "None \<in> set (slots (snd p))" if "p \<in> set ?runs" for p
      using that R(1) set_idx_set [of k "[(Main, ?arr)]" ?R] waiting_ok_runs(2) [OF ok, of p ?nm] True by auto
    with w ro have "waiting_ok w u" by (intro waiting_ok_with_runs [OF ok w]) auto
    moreover have "queue_abs u = deliver ?n node ?nm ?i items (queue_abs x)"
      using True w R(1) unfolding spec
      by (simp add: queue_abs_def waiting_runs_with_runs [OF w] map_idx_set waiting_runs_def with_runs_def)
    ultimately show ?thesis using w by (auto simp: with_runs_def)
  next
    case False
    let ?runs' = "AList.delete k ?runs" and ?srcs' = "AList.delete k ?srcs"
    define u where "u = (let waiting = wait_delete (x_waitingExecution b) ?nm k; sources = wait_delete (x_waitingExecutionSource b) ?nm k;
         last = (or_default [] (map_of waiting ?nm) = [])
     in b\<lparr>x_waitingExecution := if last then AList.delete ?nm waiting else waiting,
          x_waitingExecutionSource := if last then AList.delete ?nm sources else sources\<rparr>)"
    have w: "with_runs x ?nm (if ?runs' = [] then None else Some ?runs') (if ?runs' = [] then None else Some ?srcs') u"
      using with_runs_delete [OF b ro(3)] by (simp add: u_def)
    let ?e = "\<lparr>e_node = node, e_data = [(Main, ?arr)], e_source = Some [(Main, sarr)], e_runIndex = None, e_metadata = None\<rparr>"
    have "addWaiting_multi order w c parent (Some items) source (Some source) runIndex x = Inr (enqueue order ?e u)"
      using False
      by (simp add: addWaiting_multi_def op st main(1) [OF look(1)] completeWaitingEntry_def node
          main(3) [OF look(1)] main(4) [OF look(2)] u_def Let_def)
    moreover have "None \<in> set (slots (snd p))" if "p \<in> set ?runs'" for p
      using that R(2) delete_subset [of k ?R] waiting_ok_runs(2) [OF ok, of p ?nm] by (auto simp: delete_idx_set)
    then have "waiting_ok w u"
      using runs_ok_delete [OF ro(1), of k] runs_ok_delete [OF ro(2), of k] keys_delete_same [OF ro(3), of k]
      by (intro waiting_ok_with_runs [OF ok w]) (simp split: if_splits)
    then have "waiting_ok w (enqueue order ?e u)" by (simp add: waiting_ok_def enqueue_def)
    moreover have "queue_abs (enqueue order ?e u) = deliver ?n node ?nm ?i items (queue_abs x)"
    proof -
      have "waiting_runs u ?nm = AList.delete k (waiting_runs x ?nm)"
        using R(2) by (simp add: waiting_runs_with_runs [OF w] waiting_runs_def map_delete [symmetric] delete_idx_set)
      then have "waiting_runs u = (waiting_runs x)(?nm := AList.delete k (waiting_runs x ?nm))"
        by (simp add: waiting_runs_with_runs [OF w] fun_eq_iff)
      moreover have "waiting_runs (enqueue order ?e u) = waiting_runs u" by (simp add: waiting_runs_def enqueue_def fun_eq_iff)
      ultimately show ?thesis using False v1 w unfolding spec by (simp add: queue_abs_def enqueue_def with_runs_def)
    qed
    ultimately show ?thesis using w by (auto simp: with_runs_def enqueue_def)
  qed
qed


section \<open>Items are kept or lost\<close>

definition present :: "'a option list \<Rightarrow> 'a list" where
  "present = List.map_filter id"

lemma present_simps [simp]: "present [] = []" "present (Some v # arr) = v # present arr" "present (None # arr) = present arr"
  by (simp_all add: present_def)

definition items_of :: "(nat \<times> inputs) list \<Rightarrow> INodeExecutionData list multiset" where
  "items_of runs = mset (concat (map (present \<circ> snd) runs))"

text \<open>All data in the stack and in the waiting entries of a node.\<close>

definition held_items :: "RunExecutionData \<Rightarrow> string \<Rightarrow> INodeExecutionData list multiset" where
  "held_items x name =
     mset (concat (map (\<lambda>e. present (slots (e_data e))) (x_nodeExecutionStack x))) + items_of (waiting_runs x name)"

lemma map_filter_Some_slot:
  "i < length arr \<Longrightarrow> arr ! i = None \<Longrightarrow> mset (present (arr[i := Some v])) = add_mset v (mset (present arr))"
proof (induction arr arbitrary: i)
  case (Cons a arr)
  show ?case
  proof (cases i)
    case 0
    with Cons show ?thesis by simp
  next
    case (Suc j)
    with Cons show ?thesis by (cases a) simp_all
  qed
qed simp

lemma delete_notin: "k \<notin> fst ` set m \<Longrightarrow> AList.delete k m = m"
  by (induction m) auto

lemma items_idx_set:
  "sorted_wrt (<) (map fst m) \<Longrightarrow> items_of (idx_set k v m) = mset (present v) + items_of (AList.delete k m)"
proof (induction k v m rule: idx_set.induct)
  case (2 k v l u m)
  have "k \<notin> fst ` set m" if "k \<le> l" using 2(2) that by auto
  with 2 show ?case by (auto simp: items_of_def delete_notin)
qed (simp add: items_of_def)

lemma items_delete:
  "sorted_wrt (<) (map fst m) \<Longrightarrow> (k, v) \<in> set m \<Longrightarrow> items_of m = mset (present v) + items_of (AList.delete k m)"
proof (induction m)
  case (Cons p m)
  obtain l u where p: "p = (l, u)" by (cases p)
  have "(l, v) \<notin> set m" "l \<notin> fst ` set m" using Cons(2) p by auto
  with Cons p show ?case by (cases "k = l") (auto simp: items_of_def delete_notin)
qed simp

lemma target_run_cases:
  assumes "target_run n i fresh runs = (k, arr)"
  shows "(k, arr) \<in> set runs \<and> (i < length arr \<longrightarrow> arr ! i = None) \<or> k = fresh \<and> arr = replicate n None"
  using assms by (induction runs) (auto split: if_splits)

lemma items_deliver:
  assumes sorted: "sorted_wrt (<) (map fst runs)" and len: "\<forall>p \<in> set runs. length (snd p) = n" and i: "i < n"
    and fresh: "length runs \<notin> fst ` set runs" and t: "target_run n i (length runs) runs = (k, arr)"
  shows "mset (present (arr[i := Some items])) + items_of (AList.delete k runs) = add_mset items (items_of runs)"
  using target_run_cases [OF t]
proof
  assume a: "(k, arr) \<in> set runs \<and> (i < length arr \<longrightarrow> arr ! i = None)"
  with len have "length arr = n" by force
  with a i map_filter_Some_slot [of i arr items] items_delete [OF sorted, of k arr] show ?thesis by simp
next
  assume a: "k = length runs \<and> arr = replicate n None"
  have "mset (present (replicate n (None :: INodeExecutionData list option))) = {#}" by (induction n) simp_all
  with a i map_filter_Some_slot [of i arr items] fresh show ?thesis by (simp add: delete_notin)
qed

lemma waiting_runs_ok:
  assumes "waiting_ok w x"
  shows "sorted_wrt (<) (map fst (waiting_runs x nm))"
    and "\<forall>p \<in> set (waiting_runs x nm). length (snd p) = numberOfInputs w nm"
  using waiting_ok_runs(1) [OF assms, of nm] by (auto simp: waiting_runs_def runs_ok_def comp_def)

lemma held_items_abs:
  "held_items x nm = mset (concat (map (present \<circ> snd) (fst (queue_abs x)))) + items_of (snd (queue_abs x) nm)"
  by (simp add: held_items_def queue_abs_def comp_def)

lemma deliver_held:
  assumes "sorted_wrt (<) (map fst (snd a nm))" and "\<forall>p \<in> set (snd a nm). length (snd p) = n" and "i < n"
    and "length (snd a nm) \<notin> fst ` set (snd a nm)"
    and "b = deliver n node nm i items a"
  shows "mset (concat (map (present \<circ> snd) (fst b))) + items_of (snd b nm) =
      add_mset items (mset (concat (map (present \<circ> snd) (fst a))) + items_of (snd a nm)) \<and>
    (\<forall>nm'. nm' \<noteq> nm \<longrightarrow> snd b nm' = snd a nm')"
proof -
  obtain k arr where t: "target_run n i (length (snd a nm)) (snd a nm) = (k, arr)" by fastforce
  show ?thesis using items_deliver [OF assms(1-4) t, of items] items_idx_set [OF assms(1)]
    by (simp add: assms(5) deliver_def t Let_def comp_def add.assoc)
qed


text \<open>Two parents, each leading to one input of a third node.\<close>

definition ex_join :: Workflow where
  "ex_join = newWorkflow (\<lambda>_ _. None) (\<lambda>_ _. None)
     [plain_node 0 ''P'' ''t'', plain_node 1 ''Q'' ''t'', plain_node 2 ''M'' ''t'']
     [(''P'', [(Main, [Some [\<lparr>c_node = ''M'', c_type = Main, c_index = 0\<rparr>]])]),
      (''Q'', [(Main, [Some [\<lparr>c_node = ''M'', c_type = Main, c_index = 1\<rparr>]])])] True None"

definition ex_empty_state :: RunExecutionData where
  "ex_empty_state = \<lparr>x_runData = [], x_nodeExecutionStack = [], x_waitingExecution = [], x_waitingExecutionSource = []\<rparr>"

definition ex_send :: "string \<Rightarrow> nat \<Rightarrow> INodeExecutionData list \<Rightarrow> RunExecutionData \<Rightarrow> RunExecutionData result" where
  "ex_send parent i items =
     addNodeToBeExecuted (Some ''v1'') ex_join \<lparr>c_node = ''M'', c_type = Main, c_index = i\<rparr> 0 parent (Some [Some items]) 0 None None"

lemma ex_state_ok: "waiting_ok ex_join ex_empty_state" "parents_ok ex_join ''P'' (x_runData ex_empty_state)"
proof -
  show "waiting_ok ex_join ex_empty_state" by (simp add: waiting_ok_def ex_empty_state_def)
  have "checkOutputNodes ex_join ''P'' = Inr [''M'']" "in_groups ex_join ''M'' \<noteq> None" by code_simp+
  then show "parents_ok ex_join ''P'' (x_runData ex_empty_state)"
    by (simp add: parents_ok_def ex_empty_state_def run_output_def)
qed

lemma ex_join_facts:
  "is_v1 (Some ''v1'')" "getNode ex_join ''M'' = Some (plain_node 2 ''M'' ''t'')" "numberOfInputs ex_join ''M'' = 2"
  by (simp add: is_v1_def) code_simp+



definition ex_item :: "string \<Rightarrow> INodeExecutionData list" where
  "ex_item s = [\<lparr>i_json = [(''v'', JStr s)], i_error = None, i_pairedItem = None\<rparr>]"

text \<open>
  A new run is numbered by the number of waiting runs. After the first of two waiting runs has
  completed, that number is the index of the second, and its data is overwritten: of three deliveries
  to one input and one to the other, the second is lost.
\<close>

lemma addNodeToBeExecuted_overwrites:
  "(case res_bind (ex_send ''P'' 0 (ex_item ''a'') ex_empty_state) (\<lambda>x1.
         res_bind (ex_send ''P'' 0 (ex_item ''b'') x1) (\<lambda>x2.
         res_bind (ex_send ''Q'' 1 (ex_item ''c'') x2) (ex_send ''P'' 0 (ex_item ''d'')))) of
      Inl _ \<Rightarrow> False
    | Inr u \<Rightarrow> map (slots \<circ> e_data) (x_nodeExecutionStack u) = [[Some (ex_item ''a''), Some (ex_item ''c'')]] \<and>
        waiting_runs u ''M'' = [(1, [Some (ex_item ''d''), None])])"
  by code_simp

end
