(* ===== verification/Engine_Drain.thy ===== *)
theory Engine_Drain
  imports Engine_Waiting
begin

text \<open>
  After a node has run (\<open>processRunExecutionData\<close> of \<open>workflow-execute.ts\<close>): its outputs are
  handed to the connected nodes, and when the stack is empty the waiting nodes are searched for one that
  can run without data on all inputs. Before a node runs, \<open>ensureInputData\<close> checks its inputs.
\<close>

section \<open>Handing on the outputs\<close>

record pending =
  p_position :: "int \<times> int"
  p_connection :: IConnection
  p_outputIndex :: nat

text \<open>The order in which nodes are added, last one on top: lower nodes first, then those more to the right. The
  comparison is not symmetric, so the order \<open>Array.sort\<close> gives depends on its implementation; the
  sorting function is a parameter.\<close>

definition byPosition :: "pending \<Rightarrow> pending \<Rightarrow> int" where
  "byPosition a b =
     (if snd (p_position a) < snd (p_position b) then 1
      else if snd (p_position a) > snd (p_position b) then -1
      else if fst (p_position a) > fst (p_position b) then -1 else 0)"

definition outputConnections :: "Workflow \<Rightarrow> string \<Rightarrow> (nat \<times> IConnection) list" where
  "outputConnections w name =
     (case map_of (w_connectionsBySourceNode w) name of None \<Rightarrow> []
      | Some tm \<Rightarrow> (case map_of tm Main of None \<Rightarrow> []
      | Some outs \<Rightarrow> concat (map (\<lambda>(outputIndex, g). map (Pair outputIndex) (or_empty g)) (enumerate 0 outs))))"

definition outputIsPassed :: "string option \<Rightarrow> INodeExecutionData list option list \<Rightarrow> nat \<times> IConnection \<Rightarrow> bool" where
  "outputIsPassed executionOrder nodeSuccessData oc \<longleftrightarrow>
     fst oc < length nodeSuccessData \<and>
     (case nodeSuccessData ! fst oc of None \<Rightarrow> False
      | Some items \<Rightarrow> items \<noteq> [] \<or> c_index (snd oc) > 0 \<and> isLegacyExecutionOrder executionOrder)"

definition destinationCheck :: "Workflow \<Rightarrow> IConnection \<Rightarrow> unit result" where
  "destinationCheck w connectionData =
     (if getNode w (c_node connectionData) = None then Inl (UnexpectedError ''Destination node not found'') else Inr ())"

fun nodesToAdd ::
    "string option \<Rightarrow> Workflow \<Rightarrow> INodeExecutionData list option list \<Rightarrow> (nat \<times> IConnection) list \<Rightarrow> pending list result" where
  "nodesToAdd executionOrder w nodeSuccessData [] = Inr []"
| "nodesToAdd executionOrder w nodeSuccessData (oc # ocs) =
     res_bind (destinationCheck w (snd oc)) (\<lambda>_.
     res_bind (nodesToAdd executionOrder w nodeSuccessData ocs) (\<lambda>rest.
       Inr (if outputIsPassed executionOrder nodeSuccessData oc
            then \<lparr>p_position = (case getNode w (c_node (snd oc)) of None \<Rightarrow> (0, 0) | Some n \<Rightarrow> n_position n),
                  p_connection = snd oc, p_outputIndex = fst oc\<rparr> # rest
            else rest)))"

definition addOutputs ::
    "string option \<Rightarrow> ((pending \<Rightarrow> pending \<Rightarrow> int) \<Rightarrow> pending list \<Rightarrow> pending list) \<Rightarrow> Workflow \<Rightarrow> string
       \<Rightarrow> INodeExecutionData list option list \<Rightarrow> nat \<Rightarrow> RunExecutionData \<Rightarrow> RunExecutionData result" where
  "addOutputs executionOrder arraySort w name nodeSuccessData runIndex x =
     (if is_v1 executionOrder then
        res_bind (nodesToAdd executionOrder w nodeSuccessData (outputConnections w name)) (\<lambda>nodes.
          res_fold (\<lambda>p. addNodeToBeExecuted executionOrder w (p_connection p) (p_outputIndex p) name
              (Some nodeSuccessData) runIndex None None) (arraySort byPosition nodes) x)
      else
        res_fold (\<lambda>oc x. res_bind (destinationCheck w (snd oc)) (\<lambda>_.
            if outputIsPassed executionOrder nodeSuccessData oc
            then addNodeToBeExecuted executionOrder w (snd oc) (fst oc) name (Some nodeSuccessData) runIndex None None x
            else Inr x)) (outputConnections w name) x)"

section \<open>Searching the waiting nodes\<close>

datatype requiredInputs = RequiredCount nat | RequiredList "nat list"

text \<open>What the engine reads of a node type's description: the required inputs, possibly as an
  expression, and the number of inputs.\<close>

record EngineNodeType = INodeType +
  et_requiredInputs :: "(string + requiredInputs) option"
  et_inputs :: nat

type_synonym EngineNodeTypes = "string \<Rightarrow> nat \<Rightarrow> EngineNodeType option"

definition requiredOf ::
    "string option \<Rightarrow> (INode \<Rightarrow> string \<Rightarrow> requiredInputs option) \<Rightarrow> EngineNodeTypes \<Rightarrow> INode \<Rightarrow> (requiredInputs option \<times> bool) result" where
  "requiredOf executionOrder evaluate nodeTypes checkNode =
     (if \<not> is_v1 executionOrder then Inr (None, False)
      else case nodeTypes (n_type checkNode) (n_typeVersion checkNode) of None \<Rightarrow> Inl TypeError
        | Some nodeType \<Rightarrow>
            let requiredInputs = (case et_requiredInputs nodeType of None \<Rightarrow> None
                  | Some (Inl expression) \<Rightarrow> evaluate checkNode expression | Some (Inr r) \<Rightarrow> Some r)
            in Inr (requiredInputs,
                 (case requiredInputs of None \<Rightarrow> False
                  | Some (RequiredList is) \<Rightarrow> length is = et_inputs nodeType
                  | Some (RequiredCount n) \<Rightarrow> n = et_inputs nodeType)))"

definition requiredMissing :: "requiredInputs option \<Rightarrow> INodeExecutionData list option list \<Rightarrow> bool" where
  "requiredMissing requiredInputs main \<longleftrightarrow>
     (case requiredInputs of None \<Rightarrow> False
      | Some (RequiredList is) \<Rightarrow> list_ex (\<lambda>i. \<not> (i < length main \<and> main ! i \<noteq> None)) is
      | Some (RequiredCount n) \<Rightarrow> length (filter (\<lambda>d. d \<noteq> None) main) < n)"

text \<open>\<open>Object.keys(...).sort()\<close> sorts the run indices as texts.\<close>

fun leastKey :: "nat list \<Rightarrow> nat" where
  "leastKey [] = 0"
| "leastKey [k] = k"
| "leastKey (k # l # ks) = (let m = leastKey (l # ks) in if str_le (nat_str k) (nat_str m) then k else m)"

definition firstRunIndex :: "RunExecutionData \<Rightarrow> string \<Rightarrow> nat" where
  "firstRunIndex x name = leastKey (map fst (or_default [] (map_of (x_waitingExecution x) name)))"

definition runBlocked ::
    "string option \<Rightarrow> (INode \<Rightarrow> string \<Rightarrow> requiredInputs option) \<Rightarrow> EngineNodeTypes \<Rightarrow> Workflow \<Rightarrow> string list
       \<Rightarrow> string \<Rightarrow> INode \<Rightarrow> RunExecutionData \<Rightarrow> bool result" where
  "runBlocked executionOrder evaluate nodeTypes w waitingNodes name checkNode x =
     res_bind (requiredOf executionOrder evaluate nodeTypes checkNode) (\<lambda>r.
       if snd r then Inr True
       else if list_ex (\<lambda>p. p \<in> set waitingNodes) (wfGetParentNodes w name (Type Main) (-1)) then Inr True
       else res_bind (wait_main (x_waitingExecution x) name (firstRunIndex x name)) (\<lambda>main.
         Inr (requiredMissing (fst r) main)))"

text \<open>The first run leaves the waiting entries; it goes on the stack if any input has items.\<close>

definition removeWaiting :: "string \<Rightarrow> nat \<Rightarrow> RunExecutionData \<Rightarrow> RunExecutionData" where
  "removeWaiting name k x =
     (let waiting = wait_delete (x_waitingExecution x) name k; sources = wait_delete (x_waitingExecutionSource x) name k;
          last = (or_default [] (map_of waiting name) = [])
      in x\<lparr>x_waitingExecution := if last then AList.delete name waiting else waiting,
           x_waitingExecutionSource := if last then AList.delete name sources else sources\<rparr>)"

definition takeRun ::
    "EngineNodeTypes \<Rightarrow> string \<Rightarrow> INode \<Rightarrow> RunExecutionData \<Rightarrow> (bool \<times> RunExecutionData) result" where
  "takeRun nodeTypes name checkNode x =
     (let k = firstRunIndex x name
      in res_bind (wait_main (x_waitingExecution x) name k) (\<lambda>main.
         let taskDataMain = map (or_default []) main
         in case map_of (x_waitingExecutionSource x) name of None \<Rightarrow> Inl TypeError
            | Some srcs \<Rightarrow>
               (if list_ex (\<lambda>d. d \<noteq> []) taskDataMain then
                  (case nodeTypes (n_type checkNode) (n_typeVersion checkNode) of None \<Rightarrow> Inl TypeError
                   | Some nodeType \<Rightarrow>
                       let padded = taskDataMain @ replicate (et_inputs nodeType - length taskDataMain) [];
                           x' = x\<lparr>x_nodeExecutionStack := x_nodeExecutionStack x @
                             [\<lparr>e_node = checkNode, e_data = [(Main, map Some padded)], e_source = map_of srcs k,
                               e_runIndex = None, e_metadata = None\<rparr>]\<rparr>
                       in Inr (True, removeWaiting name k x'))
                else Inr (False, removeWaiting name k x))))"

definition waitingCount :: "RunExecutionData \<Rightarrow> nat" where
  "waitingCount x = sum_list (map (length \<circ> snd) (x_waitingExecution x))"

function searchWaiting ::
    "string option \<Rightarrow> (INode \<Rightarrow> string \<Rightarrow> requiredInputs option) \<Rightarrow> EngineNodeTypes \<Rightarrow> Workflow \<Rightarrow> string list
       \<Rightarrow> string list \<Rightarrow> RunExecutionData \<Rightarrow> RunExecutionData result" where
  "searchWaiting executionOrder evaluate nodeTypes w waitingNodes [] x = Inr x"
| "searchWaiting executionOrder evaluate nodeTypes w waitingNodes (name # rest) x =
     (case getNode w name of None \<Rightarrow> searchWaiting executionOrder evaluate nodeTypes w waitingNodes rest x
      | Some checkNode \<Rightarrow>
          res_bind (runBlocked executionOrder evaluate nodeTypes w waitingNodes name checkNode x) (\<lambda>blocked.
            if blocked then searchWaiting executionOrder evaluate nodeTypes w waitingNodes rest x
            else res_bind (takeRun nodeTypes name checkNode x) (\<lambda>taken.
              if fst taken then Inr (snd taken)
              else searchWaiting executionOrder evaluate nodeTypes w
                     (map fst (x_waitingExecution (snd taken))) (map fst (x_waitingExecution (snd taken))) (snd taken))))"
  by pat_completeness auto

lemma count_update:
  "map_of m k = Some v' \<Longrightarrow> sum_list (map (length \<circ> snd) (AList.update k v m)) + length v' = sum_list (map (length \<circ> snd) m) + length v"
  by (induction m) auto

lemma count_delete: "sum_list (map (length \<circ> snd) (AList.delete k m)) \<le> sum_list (map (length \<circ> snd) m)"
  by (induction m) auto

lemma length_delete_less: "k \<in> fst ` set m \<Longrightarrow> length (AList.delete k m) < length m"
proof (induction m)
  case (Cons p m)
  have "length (AList.delete k m) \<le> length m" by (rule length_delete_le)
  with Cons show ?case by (cases p) auto
qed simp

lemma removeWaiting_count:
  assumes "wait_main (x_waitingExecution x) name k = Inr main"
  shows "waitingCount (removeWaiting name k x) < waitingCount x"
proof -
  from assms obtain runs e where r: "map_of (x_waitingExecution x) name = Some runs" and e: "map_of runs k = Some e"
    by (auto simp: wait_main_def split: option.splits)
  have "name \<in> fst ` set (x_waitingExecution x)" using map_of_SomeD [OF r] by force
  then have d: "wait_delete (x_waitingExecution x) name k = AList.update name (AList.delete k runs) (x_waitingExecution x)"
    by (simp add: wait_delete_def r obj_set_def)
  have "length (AList.delete k runs) < length runs" using map_of_SomeD [OF e] by (intro length_delete_less) force
  then have "sum_list (map (length \<circ> snd) (wait_delete (x_waitingExecution x) name k)) < waitingCount x"
    using count_update [OF r, of "AList.delete k runs"] by (simp add: d waitingCount_def)
  then show ?thesis
    using count_delete [of name "wait_delete (x_waitingExecution x) name k"]
    by (auto simp: waitingCount_def removeWaiting_def Let_def)
qed

lemma takeRun_cases:
  assumes "takeRun nodeTypes name node x = Inr r"
  obtains main where "wait_main (x_waitingExecution x) name (firstRunIndex x name) = Inr main"
    "\<not> fst r" "snd r = removeWaiting name (firstRunIndex x name) x"
  | main e where "wait_main (x_waitingExecution x) name (firstRunIndex x name) = Inr main" "fst r"
    "list_ex (\<lambda>d. d \<noteq> None \<and> d \<noteq> Some []) (slots (e_data e))"
    "snd r = removeWaiting name (firstRunIndex x name) (x\<lparr>x_nodeExecutionStack := x_nodeExecutionStack x @ [e]\<rparr>)" "e_node e = node"
proof (cases "wait_main (x_waitingExecution x) name (firstRunIndex x name)")
  case (Inr main)
  obtain srcs where S: "map_of (x_waitingExecutionSource x) name = Some srcs"
    using assms Inr by (cases "map_of (x_waitingExecutionSource x) name") (simp_all add: takeRun_def Let_def)
  show thesis
  proof (cases "list_ex (\<lambda>d. d \<noteq> []) (map (or_default []) main)")
    case False
    with assms Inr S have "r = (False, removeWaiting name (firstRunIndex x name) x)" by (simp add: takeRun_def Let_def)
    with Inr that(1) show thesis by simp
  next
    case True
    obtain nodeType where nt: "nodeTypes (n_type node) (n_typeVersion node) = Some nodeType"
      using assms Inr S True by (cases "nodeTypes (n_type node) (n_typeVersion node)") (simp_all add: takeRun_def Let_def)
    define e where "e = \<lparr>e_node = node, e_data = [(Main, map Some (map (or_default []) main @
        replicate (et_inputs nodeType - length (map (or_default []) main)) []))], e_source = map_of srcs (firstRunIndex x name),
        e_runIndex = None, e_metadata = None\<rparr>"
    have "r = (True, removeWaiting name (firstRunIndex x name) (x\<lparr>x_nodeExecutionStack := x_nodeExecutionStack x @ [e]\<rparr>))"
      using assms Inr S True nt by (simp add: takeRun_def Let_def e_def)
    then have "fst r" "snd r = removeWaiting name (firstRunIndex x name) (x\<lparr>x_nodeExecutionStack := x_nodeExecutionStack x @ [e]\<rparr>)"
      by simp_all
    moreover have "list_ex (\<lambda>d. d \<noteq> None \<and> d \<noteq> Some []) (slots (e_data e))"
      using True by (auto simp: list_ex_iff e_def)
    moreover have "e_node e = node" by (simp add: e_def)
    ultimately show thesis by (intro that(2) [OF Inr])
  qed
qed (use assms in \<open>simp add: takeRun_def\<close>)

lemma takeRun_count:
  assumes "takeRun nodeTypes name node x = Inr r" and "\<not> fst r"
  shows "waitingCount (snd r) < waitingCount x"
  using assms(1)
proof (cases rule: takeRun_cases)
  case (1 main)
  then show ?thesis using removeWaiting_count by simp
qed (use assms(2) in simp)

termination searchWaiting
  by (relation "measures [\<lambda>(ord, ev, nt, w, wn, rest, x). waitingCount x, \<lambda>(ord, ev, nt, w, wn, rest, x). length rest]")
    (auto dest: takeRun_count)

declare searchWaiting.simps [simp del]

definition drainWaiting ::
    "string option \<Rightarrow> (INode \<Rightarrow> string \<Rightarrow> requiredInputs option) \<Rightarrow> EngineNodeTypes \<Rightarrow> Workflow \<Rightarrow> RunExecutionData
       \<Rightarrow> RunExecutionData result" where
  "drainWaiting executionOrder evaluate nodeTypes w x =
     (let waitingNodes = map fst (x_waitingExecution x)
      in if x_nodeExecutionStack x = [] \<and> waitingNodes \<noteq> []
         then searchWaiting executionOrder evaluate nodeTypes w waitingNodes waitingNodes x else Inr x)"

section \<open>The search finds a run if one can go\<close>

definition types_known :: "EngineNodeTypes \<Rightarrow> Workflow \<Rightarrow> bool" where
  "types_known nodeTypes w \<longleftrightarrow> (\<forall>nm node. getNode w nm = Some node \<longrightarrow> nodeTypes (n_type node) (n_typeVersion node) \<noteq> None)"

lemma waiting_node:
  assumes "waiting_ok w x" and "name \<in> fst ` set (x_waitingExecution x)"
  obtains runs srcs where "map_of (x_waitingExecution x) name = Some runs" "map_of (x_waitingExecutionSource x) name = Some srcs"
    "runs \<noteq> []" "runs_ok (numberOfInputs w name) runs" "runs_ok (numberOfInputs w name) srcs" "map fst srcs = map fst runs"
    "\<forall>p \<in> set runs. None \<in> set (slots (snd p))"
proof -
  from assms(2) obtain runs where "map_of (x_waitingExecution x) name = Some runs" by (metis map_of_eq_None_iff not_Some_eq)
  with assms(1) that show thesis unfolding waiting_ok_def by blast
qed

lemma leastKey_in: "ks \<noteq> [] \<Longrightarrow> leastKey ks \<in> set ks"
  by (induction ks rule: leastKey.induct) (auto simp: Let_def)

lemma wait_main_first:
  assumes "waiting_ok w x" and "name \<in> fst ` set (x_waitingExecution x)"
  shows "\<exists>main. wait_main (x_waitingExecution x) name (firstRunIndex x name) = Inr main"
proof -
  obtain runs where r: "map_of (x_waitingExecution x) name = Some runs" "runs \<noteq> []" "runs_ok (numberOfInputs w name) runs"
    using waiting_node [OF assms] by metis
  have "firstRunIndex x name \<in> fst ` set runs" using leastKey_in [of "map fst runs"] r(1,2) by (simp add: firstRunIndex_def)
  from runs_ok_lookup [OF r(3) this] r(1) show ?thesis by (auto simp: wait_main_def)
qed

lemma removeWaiting_ok:
  assumes ok: "waiting_ok w x" and name: "name \<in> fst ` set (x_waitingExecution x)"
  shows "waiting_ok w (removeWaiting name k x)"
proof -
  from waiting_node [OF assms] obtain runs srcs where r: "map_of (x_waitingExecution x) name = Some runs"
    "map_of (x_waitingExecutionSource x) name = Some srcs" and ro: "runs_ok (numberOfInputs w name) runs"
    "runs_ok (numberOfInputs w name) srcs" "map fst srcs = map fst runs" and inc: "\<forall>p \<in> set runs. None \<in> set (slots (snd p))"
    by metis
  have "with_runs x name (Some runs) (Some srcs) x" using r by (simp add: with_runs_def fun_upd_idem)
  note w = with_runs_delete [OF this ro(3), of k, folded removeWaiting_def]
  show ?thesis
    using runs_ok_delete [OF ro(1), of k] runs_ok_delete [OF ro(2), of k] keys_delete_same [OF ro(3), of k]
      subsetD [OF delete_subset, of _ k runs] inc
    by (intro waiting_ok_with_runs [OF ok w]) (auto split: if_splits)
qed

lemma removeWaiting_keys:
  "fst ` set (x_waitingExecution (removeWaiting name k x)) \<subseteq> fst ` set (x_waitingExecution x)"
proof -
  have "fst ` set (wait_delete (x_waitingExecution x) name k) \<subseteq> fst ` set (x_waitingExecution x)"
  proof (cases "map_of (x_waitingExecution x) name")
    case None
    then show ?thesis by (simp add: wait_delete_def)
  next
    case (Some runs)
    from map_of_SomeD [OF this] have "name \<in> fst ` set (x_waitingExecution x)" by force
    with Some show ?thesis by (simp add: wait_delete_def keys_obj_set)
  qed
  then show ?thesis by (auto simp: removeWaiting_def Let_def)
qed

lemma takeRun_total:
  assumes ok: "waiting_ok w x" and name: "name \<in> fst ` set (x_waitingExecution x)"
    and node: "getNode w nm = Some node" and types: "types_known nodeTypes w"
  shows "\<exists>r. takeRun nodeTypes name node x = Inr r"
proof -
  obtain main where "wait_main (x_waitingExecution x) name (firstRunIndex x name) = Inr main"
    using wait_main_first [OF ok name] by blast
  moreover obtain srcs where "map_of (x_waitingExecutionSource x) name = Some srcs" using waiting_node [OF ok name] by metis
  moreover obtain nodeType where "nodeTypes (n_type node) (n_typeVersion node) = Some nodeType"
    using types node by (auto simp: types_known_def)
  ultimately show ?thesis
    by (cases "list_ex (\<lambda>d. d \<noteq> []) (map (or_default []) main)") (auto simp: takeRun_def Let_def)
qed

lemma runBlocked_total:
  assumes ok: "waiting_ok w x" and name: "name \<in> fst ` set (x_waitingExecution x)"
    and node: "getNode w nm = Some node" and types: "types_known nodeTypes w"
  shows "\<exists>b. runBlocked order evaluate nodeTypes w wn name node x = Inr b"
proof -
  obtain nodeType where "nodeTypes (n_type node) (n_typeVersion node) = Some nodeType"
    using types node by (auto simp: types_known_def)
  then have "\<exists>r. requiredOf order evaluate nodeTypes node = Inr r"
    by (cases "is_v1 order") (simp_all only: requiredOf_def Let_def if_True if_False simp_thms option.case, blast+)
  then obtain r where "requiredOf order evaluate nodeTypes node = Inr r" by blast
  moreover obtain main where "wait_main (x_waitingExecution x) name (firstRunIndex x name) = Inr main"
    using wait_main_first [OF ok name] by blast
  ultimately show ?thesis by (auto simp: runBlocked_def)
qed

lemma removeWaiting_stack: "x_nodeExecutionStack (removeWaiting name k x) = x_nodeExecutionStack x"
  by (simp add: removeWaiting_def Let_def)

text \<open>A waiting node that stays: it is not a node of the workflow, or it cannot run yet.\<close>

definition stays :: "string option \<Rightarrow> (INode \<Rightarrow> string \<Rightarrow> requiredInputs option) \<Rightarrow> EngineNodeTypes \<Rightarrow> Workflow \<Rightarrow> RunExecutionData \<Rightarrow> string \<Rightarrow> bool" where
  "stays order evaluate nodeTypes w x name \<longleftrightarrow>
     (case getNode w name of None \<Rightarrow> True
      | Some node \<Rightarrow> runBlocked order evaluate nodeTypes w (map fst (x_waitingExecution x)) name node x = Inr True)"

lemma waiting_ok_stack: "waiting_ok w (x\<lparr>x_nodeExecutionStack := st\<rparr>) = waiting_ok w x"
  by (simp add: waiting_ok_def)

definition drained :: "string option \<Rightarrow> (INode \<Rightarrow> string \<Rightarrow> requiredInputs option) \<Rightarrow> EngineNodeTypes \<Rightarrow> Workflow \<Rightarrow> RunExecutionData \<Rightarrow> RunExecutionData \<Rightarrow> bool" where
  "drained order evaluate nodeTypes w x u \<longleftrightarrow> waiting_ok w u \<and>
     fst ` set (x_waitingExecution u) \<subseteq> fst ` set (x_waitingExecution x) \<and>
     ((\<exists>e. x_nodeExecutionStack u = x_nodeExecutionStack x @ [e] \<and> list_ex (\<lambda>d. d \<noteq> None \<and> d \<noteq> Some []) (slots (e_data e))) \<or>
      x_nodeExecutionStack u = x_nodeExecutionStack x \<and>
      list_all (stays order evaluate nodeTypes w u) (map fst (x_waitingExecution u)))"

lemma searchWaiting_drains:
  assumes "waiting_ok w x" and "types_known nodeTypes w" and "wn = map fst (x_waitingExecution x)" and "set rest \<subseteq> set wn"
    and "\<forall>nm \<in> set wn. nm \<in> set rest \<or> stays order evaluate nodeTypes w x nm"
  shows "\<exists>u. searchWaiting order evaluate nodeTypes w wn rest x = Inr u \<and> drained order evaluate nodeTypes w x u"
  using assms
proof (induction order evaluate nodeTypes w wn rest x rule: searchWaiting.induct)
  case (1 order evaluate nodeTypes w wn x)
  then show ?case by (auto simp: searchWaiting.simps drained_def list_all_iff)
next
  case (2 order evaluate nodeTypes w wn name rest x)
  note IH = 2(1-3) and ok = 2(4) and types = 2(5) and wn = 2(6)
  have name: "name \<in> fst ` set (x_waitingExecution x)" using 2(6,7) by auto
  have skip: "\<exists>u. searchWaiting order evaluate nodeTypes w wn rest x = Inr u \<and> drained order evaluate nodeTypes w x u"
    if "stays order evaluate nodeTypes w x name"
      "\<lbrakk>waiting_ok w x; types_known nodeTypes w; wn = map fst (x_waitingExecution x); set rest \<subseteq> set wn;
        \<forall>nm \<in> set wn. nm \<in> set rest \<or> stays order evaluate nodeTypes w x nm\<rbrakk> \<Longrightarrow>
       \<exists>u. searchWaiting order evaluate nodeTypes w wn rest x = Inr u \<and> drained order evaluate nodeTypes w x u"
  proof (rule that(2) [OF ok types wn])
    show "set rest \<subseteq> set wn" using 2(7) by simp
    show "\<forall>nm \<in> set wn. nm \<in> set rest \<or> stays order evaluate nodeTypes w x nm" using 2(8) that(1) by auto
  qed
  show ?case
  proof (cases "getNode w name")
    case None
    then have s: "searchWaiting order evaluate nodeTypes w wn (name # rest) x = searchWaiting order evaluate nodeTypes w wn rest x"
      by (simp add: searchWaiting.simps)
    have "stays order evaluate nodeTypes w x name" using None by (simp add: stays_def)
    from skip [OF this IH(1) [OF None]] show ?thesis unfolding s .
  next
    case (Some node)
    obtain b where b: "runBlocked order evaluate nodeTypes w wn name node x = Inr b"
      using runBlocked_total [OF ok name Some types] by blast
    show ?thesis
    proof (cases b)
      case True
      then have s: "searchWaiting order evaluate nodeTypes w wn (name # rest) x = searchWaiting order evaluate nodeTypes w wn rest x"
        using Some b by (simp add: searchWaiting.simps)
      have "stays order evaluate nodeTypes w x name" using Some b True wn by (simp add: stays_def)
      from skip [OF this IH(2) [OF Some b True]] show ?thesis unfolding s .
    next
      case False
      obtain r where r: "takeRun nodeTypes name node x = Inr r" using takeRun_total [OF ok name Some types] by blast
      from r show ?thesis
      proof (cases rule: takeRun_cases)
        case (1 main)
        let ?wn = "map fst (x_waitingExecution (snd r))"
        have s: "searchWaiting order evaluate nodeTypes w wn (name # rest) x = searchWaiting order evaluate nodeTypes w ?wn ?wn (snd r)"
          using Some b False r 1 by (simp add: searchWaiting.simps)
        have "waiting_ok w (snd r)" using removeWaiting_ok [OF ok name] 1 by simp
        with IH(3) [OF Some b _ r] False 1 types obtain u where
          u: "searchWaiting order evaluate nodeTypes w ?wn ?wn (snd r) = Inr u" "drained order evaluate nodeTypes w (snd r) u" by auto
        have sub: "fst ` set (x_waitingExecution (snd r)) \<subseteq> fst ` set (x_waitingExecution x)"
          and st: "x_nodeExecutionStack (snd r) = x_nodeExecutionStack x"
          unfolding 1(3) by (rule removeWaiting_keys) (rule removeWaiting_stack)
        have "drained order evaluate nodeTypes w x u"
          using u(2) order_trans [OF _ sub] unfolding drained_def st by blast
        with u(1) s show ?thesis by simp
      next
        case (2 main e)
        have "drained order evaluate nodeTypes w x (snd r)"
          using 2 removeWaiting_ok [of w "x\<lparr>x_nodeExecutionStack := x_nodeExecutionStack x @ [e]\<rparr>" name] ok name
            removeWaiting_keys [of name "firstRunIndex x name" "x\<lparr>x_nodeExecutionStack := x_nodeExecutionStack x @ [e]\<rparr>"]
          by (simp add: drained_def waiting_ok_stack removeWaiting_stack)
        with Some b False r 2 show ?thesis by (simp add: searchWaiting.simps)
      qed
    qed
  qed
qed

lemma drainWaiting_drains:
  assumes "waiting_ok w x" and "types_known nodeTypes w" and "x_nodeExecutionStack x = []"
  shows "\<exists>u. drainWaiting order evaluate nodeTypes w x = Inr u \<and> drained order evaluate nodeTypes w x u"
proof (cases "x_waitingExecution x = []")
  case True
  with assms show ?thesis by (simp add: drainWaiting_def drained_def)
next
  case False
  with searchWaiting_drains [OF assms(1,2) refl, of "map fst (x_waitingExecution x)" order evaluate] assms(3)
  show ?thesis by (simp add: drainWaiting_def Let_def)
qed

text \<open>
  C3: when the stack is empty the search of the waiting nodes ends without error. It either puts
  exactly one run on the stack, with items on some input, or leaves the stack empty and every node that
  still waits is blocked: it has a waiting parent, or lacks data for an input it requires, or is not in
  the workflow. The waiting entries stay well-formed.
\<close>

theorem drainWaiting_correct:
  assumes "waiting_ok w x" and "types_known nodeTypes w" and "x_nodeExecutionStack x = []"
  shows "\<exists>u. drainWaiting order evaluate nodeTypes w x = Inr u \<and> waiting_ok w u \<and>
    ((\<exists>e. x_nodeExecutionStack u = [e] \<and> list_ex (\<lambda>d. d \<noteq> None \<and> d \<noteq> Some []) (slots (e_data e))) \<or>
     x_nodeExecutionStack u = [] \<and> list_all (stays order evaluate nodeTypes w u) (map fst (x_waitingExecution u)))"
  using drainWaiting_drains [OF assms, of order evaluate] assms(3) unfolding drained_def by auto

definition ex_types :: EngineNodeTypes where
  "ex_types = (\<lambda>_ _. Some \<lparr>nt_name = ''t'', nt_group = [], nt_trigger = False, nt_poll = False,
     et_requiredInputs = None, et_inputs = 2\<rparr>)"

definition ex_waiting_state :: RunExecutionData where
  "ex_waiting_state = ex_empty_state\<lparr>x_waitingExecution := [(''M'', [(0, [(Main, [Some [emptyItem], None])])])],
     x_waitingExecutionSource := [(''M'', [(0, [(Main, [None, None])])])]\<rparr>"

lemma ex_waiting_ok: "waiting_ok ex_join ex_waiting_state" "types_known ex_types ex_join"
proof -
  have "numberOfInputs ex_join ''M'' = 2" by (rule ex_join_facts)
  then show "waiting_ok ex_join ex_waiting_state"
    by (auto simp: waiting_ok_def ex_waiting_state_def runs_ok_def slots_def split: if_splits)
  show "types_known ex_types ex_join" by (simp add: types_known_def ex_types_def)
qed

theorem drainWaiting_correct_witness:
  "\<exists>u. drainWaiting (Some ''v1'') (\<lambda>_ _. None) ex_types ex_join ex_waiting_state = Inr u \<and> waiting_ok ex_join u"
  using drainWaiting_correct [OF ex_waiting_ok, of "Some ''v1''" "\<lambda>_ _. None"]
  by (auto simp: ex_waiting_state_def ex_empty_state_def)

section \<open>Progress\<close>

text \<open>One waiting node has another among its parents.\<close>

definition waits_for :: "Workflow \<Rightarrow> RunExecutionData \<Rightarrow> (string \<times> string) set" where
  "waits_for w x = {(a, b). a \<in> fst ` set (x_waitingExecution x) \<and> b \<in> fst ` set (x_waitingExecution x) \<and>
     b \<in> set (wfGetParentNodes w a (Type Main) (-1))}"

lemma acyclic_has_top:
  assumes "finite A" and "A \<noteq> {}" and "acyclic R" and "R \<subseteq> A \<times> A"
  shows "\<exists>a \<in> A. \<forall>b. (a, b) \<notin> R"
proof -
  have "finite R" using assms(1,4) by (meson finite_SigmaI finite_subset)
  then have "wf (R\<inverse>)" using assms(3) by (simp add: finite_acyclic_wf_converse)
  from wfE_min [OF this] assms(2) obtain a where "a \<in> A" "\<And>b. (b, a) \<in> R\<inverse> \<Longrightarrow> b \<notin> A" by (metis ex_in_conv)
  with assms(4) show ?thesis by blast
qed

lemma waits_for_mono:
  "fst ` set (x_waitingExecution u) \<subseteq> fst ` set (x_waitingExecution x) \<Longrightarrow> waits_for w u \<subseteq> waits_for w x"
  by (auto simp: waits_for_def)



text \<open>
  The run indices are sorted as texts, so with runs 2 and 10 waiting, run 10 is taken first.
\<close>

lemma firstRunIndex_text_order:
  "firstRunIndex (ex_empty_state\<lparr>x_waitingExecution := [(''M'', [(2, e), (10, e')])]\<rparr>) ''M'' = 10"
proof -
  have "str_le (nat_str 10) (nat_str 2)" "\<not> str_le (nat_str 2) (nat_str 10)" by code_simp+
  then show ?thesis by (simp add: firstRunIndex_def Let_def)
qed

end
