(* ===== verification/Engine_Items.thy ===== *)
theory Engine_Items
  imports Engine_Drain
begin

text \<open>
  What \<open>workflow-execute.ts\<close> does to the items around the run of one node: the input a node gets,
  the bound and the loop of its tries, the splitting off of error items, the pairing of output items
  with input items, and the status of the finished execution. The node's own code is a function from
  the number of the call to what that call does.
\<close>

section \<open>Values and errors\<close>

type_synonym outputs = "INodeExecutionData list option list"

text \<open>An error that the engine stores: thrown by a node, or raised by the engine's own code.\<close>

datatype exec_error = NodeError json | EngineError js_error

text \<open>\<open>error.message\<close>; a message that is not there is \<open>undefined\<close>.\<close>

definition json_prop :: "string \<Rightarrow> json \<Rightarrow> json option" where
  "json_prop k v = (case v of JObj ps \<Rightarrow> map_of ps k | _ \<Rightarrow> None)"

definition error_json :: "json option \<Rightarrow> (string, json) dict" where
  "error_json message = (case message of None \<Rightarrow> [] | Some m \<Rightarrow> [(''error'', m)])"

section \<open>The input of a node\<close>

definition handleDisabledNode :: "ITaskDataConnections \<Rightarrow> outputs option" where
  "handleDisabledNode inputData =
     (case map_of inputData Main of None \<Rightarrow> None
      | Some main \<Rightarrow> (case main of [] \<Rightarrow> None | None # _ \<Rightarrow> None | Some items # _ \<Rightarrow> Some [Some items]))"

text \<open>The first input that has items.\<close>

definition firstWithItems :: "INodeExecutionData list option list \<Rightarrow> INodeExecutionData list option" where
  "firstWithItems main =
     (case find (\<lambda>d. or_empty d \<noteq> []) main of Some d \<Rightarrow> d | None \<Rightarrow> hd main)"

definition prepareConnectionInputData ::
    "string option \<Rightarrow> bool \<Rightarrow> ITaskDataConnections \<Rightarrow> INodeExecutionData list option" where
  "prepareConnectionInputData executionOrder readsInput inputData =
     (if \<not> readsInput then Some []
      else case map_of inputData Main of None \<Rightarrow> None
        | Some main \<Rightarrow>
            (if main = [] then None
             else let connectionInputData = (if is_v1 executionOrder then firstWithItems main else hd main)
                  in case connectionInputData of None \<Rightarrow> None
                     | Some items \<Rightarrow> if items = [] then None else Some items))"

definition continuesOnError :: "INode \<Rightarrow> bool" where
  "continuesOnError node \<longleftrightarrow>
     n_continueOnFail node = Some True \<or> n_onError node \<in> {Some ''continueRegularOutput'', Some ''continueErrorOutput''}"

definition handleExecuteOnce :: "INode \<Rightarrow> ITaskDataConnections \<Rightarrow> ITaskDataConnections" where
  "handleExecuteOnce node inputData =
     (if n_executeOnce node = Some True
      then fold (\<lambda>(connectionType, inputs). obj_set connectionType (map (map_option (take 1)) inputs)) inputData []
      else inputData)"

text \<open>
  The paired items of the input are replaced by the positions of the items. For tool executions a source
  overwrite is kept; \<open>asSource\<close> reads it from the metadata.
\<close>

definition metadata_of :: "IExecuteData \<Rightarrow> string \<Rightarrow> json option" where
  "metadata_of executionData k = (case e_metadata executionData of None \<Rightarrow> None | Some m \<Rightarrow> map_of m k)"

definition truthy_metadata :: "IExecuteData \<Rightarrow> string \<Rightarrow> bool" where
  "truthy_metadata executionData k = (case metadata_of executionData k of None \<Rightarrow> False | Some v \<Rightarrow> json_truthy v)"

definition resolveSourceOverwrite :: "(json \<Rightarrow> ISourceData) \<Rightarrow> INodeExecutionData \<Rightarrow> IExecuteData \<Rightarrow> ISourceData option" where
  "resolveSourceOverwrite asSource item executionData =
     (if \<not> truthy_metadata executionData ''preserveSourceOverwrite'' then None
      else if truthy_metadata executionData ''preservedSourceOverwrite''
      then map_option asSource (metadata_of executionData ''preservedSourceOverwrite'')
      else case i_pairedItem item of Some (PairedOne p) \<Rightarrow> pi_sourceOverwrite p | _ \<Rightarrow> None)"

definition updatePairedItems :: "(json \<Rightarrow> ISourceData) \<Rightarrow> IExecuteData \<Rightarrow> ITaskDataConnections" where
  "updatePairedItems asSource executionData =
     fold (\<lambda>(connectionType, inputs). obj_set connectionType
       (map (\<lambda>(inputIndex, input). map_option (\<lambda>items. map (\<lambda>(itemIndex, item).
           item\<lparr>i_pairedItem := Some (PairedOne \<lparr>pi_item = itemIndex,
             pi_input = (if inputIndex = 0 then None else Some inputIndex),
             pi_sourceOverwrite = resolveSourceOverwrite asSource item executionData\<rparr>)\<rparr>)
           (enumerate 0 items)) input) (enumerate 0 inputs))) (e_data executionData) []"

section \<open>Tries\<close>

text \<open>\<open>Math.min(5, Math.max(2, maxTries || 3))\<close> and \<open>Math.min(5000, Math.max(0, waitBetweenTries || 1000))\<close>.\<close>

definition or_number :: "int option \<Rightarrow> int \<Rightarrow> int" where
  "or_number v d = (case v of None \<Rightarrow> d | Some n \<Rightarrow> if n = 0 then d else n)"

definition maxTries :: "INode \<Rightarrow> bool \<Rightarrow> int" where
  "maxTries node isResumedError =
     (if n_retryOnFail node = Some True \<and> \<not> isResumedError then min 5 (max 2 (or_number (n_maxTries node) 3)) else 1)"

definition waitBetweenTries :: "INode \<Rightarrow> bool \<Rightarrow> int" where
  "waitBetweenTries node isResumedError =
     (if n_retryOnFail node = Some True \<and> \<not> isResumedError then min 5000 (max 0 (or_number (n_waitBetweenTries node) 1000)) else 0)"

text \<open>What one call of \<open>runNode\<close> does.\<close>

datatype attempt =
    Throws exec_error
  | Requests
  | Returned "outputs option"

definition checkFailure :: "attempt \<Rightarrow> bool" where
  "checkFailure a \<longleftrightarrow>
     (case a of Returned (Some (Some (item # _) # _)) \<Rightarrow>
        (case map_of (i_json item) ''error'' of None \<Rightarrow> False | Some v \<Rightarrow> v \<noteq> JNull \<and> v \<noteq> JBool False)
      | _ \<Rightarrow> False)"

text \<open>The inner loop calls the node again while it returns an error item and tries are left. A call that
  throws leaves it before \<open>tryIndex++\<close>. The result is the last call's, the try index and the number of calls.\<close>

function retryWhileFailed :: "(nat \<Rightarrow> attempt) \<Rightarrow> nat \<Rightarrow> nat \<Rightarrow> nat \<Rightarrow> attempt \<Rightarrow> attempt \<times> nat \<times> nat" where
  "retryWhileFailed run tries tryIndex calls a =
     (if checkFailure a \<and> tryIndex < tries - 1
      then case run calls of
             Throws e \<Rightarrow> (Throws e, tryIndex, calls + 1)
           | Requests \<Rightarrow> (Requests, tryIndex + 1, calls + 1)
           | Returned out \<Rightarrow> retryWhileFailed run tries (tryIndex + 1) (calls + 1) (Returned out)
      else (a, tryIndex, calls))"
  by pat_completeness auto

termination retryWhileFailed
  by (relation "measure (\<lambda>(run, tries, tryIndex, calls, a). tries - tryIndex)") auto

declare retryWhileFailed.simps [simp del]

text \<open>A finished entry also tells whether an earlier try threw.\<close>

datatype tried = Finished "outputs option" bool | RequestMade | Failed "exec_error option"

lemma retry_index: "fst (snd (retryWhileFailed run tries tryIndex calls a)) \<ge> tryIndex"
proof (induction run tries tryIndex calls a rule: retryWhileFailed.induct)
  case (1 run tries tryIndex calls a)
  then show ?case by (subst retryWhileFailed.simps) (fastforce split: attempt.splits)
qed

text \<open>The outer loop; \<open>finish\<close> is what is done with the data of a call that returned, which may throw.\<close>

function tryLoop ::
    "(nat \<Rightarrow> attempt) \<Rightarrow> (outputs option \<Rightarrow> outputs option result) \<Rightarrow> nat \<Rightarrow> nat \<Rightarrow> nat \<Rightarrow> exec_error option \<Rightarrow> tried \<times> nat" where
  "tryLoop run finish tries tryIndex calls err =
     (if tryIndex \<ge> tries then (Failed err, calls)
      else let r = retryWhileFailed run tries tryIndex (calls + 1) (run calls)
           in case fst r of
                Throws e \<Rightarrow> tryLoop run finish tries (fst (snd r) + 1) (snd (snd r)) (Some e)
              | Requests \<Rightarrow> (RequestMade, snd (snd r))
              | Returned out \<Rightarrow>
                  (case finish out of
                     Inl e \<Rightarrow> tryLoop run finish tries (fst (snd r) + 1) (snd (snd r)) (Some (EngineError e))
                   | Inr out' \<Rightarrow> (Finished out' (err \<noteq> None), snd (snd r))))"
  by pat_completeness auto

termination tryLoop
proof (relation "measure (\<lambda>(run, finish, tries, tryIndex, calls, err). tries - tryIndex)", goal_cases)
  case (2 run finish tries tryIndex calls err r e)
  then show ?case using retry_index [of tryIndex run tries "calls + 1" "run calls"] by simp
next
  case (3 run finish tries tryIndex calls err r out e)
  then show ?case using retry_index [of tryIndex run tries "calls + 1" "run calls"] by simp
qed simp

declare tryLoop.simps [simp del]

subsection \<open>How often a node is called\<close>

lemma retry_calls:
  assumes "tryIndex < tries" and "retryWhileFailed run tries tryIndex calls a = (a', t, n)"
  shows "t < tries \<and> (n = calls + (t - tryIndex) \<or> n = calls + (t - tryIndex) + 1 \<and> t + 1 < tries)"
  using assms
proof (induction run tries tryIndex calls a rule: retryWhileFailed.induct)
  case (1 run tries tryIndex calls a)
  show ?case
  proof (cases "checkFailure a \<and> tryIndex < tries - 1")
    case False
    then have "retryWhileFailed run tries tryIndex calls a = (a, tryIndex, calls)"
      by (subst retryWhileFailed.simps) (simp only: if_False)
    with 1(2,3) show ?thesis by simp
  next
    case True
    show ?thesis
    proof (cases "run calls")
      case (Returned out)
      have "retryWhileFailed run tries (tryIndex + 1) (calls + 1) (Returned out) = (a', t, n)"
        using 1(3) True Returned by (simp add: retryWhileFailed.simps [of run tries tryIndex calls a])
      moreover have "t \<ge> tryIndex + 1" using retry_index [of "tryIndex + 1" run tries "calls + 1" "Returned out"] calculation by simp
      ultimately show ?thesis using 1(1) [OF True Returned] True by fastforce
    qed (use 1(3) True in \<open>auto simp: retryWhileFailed.simps [of run tries tryIndex calls a]\<close>)
  qed
qed

lemma tryLoop_calls:
  "tryIndex < tries \<Longrightarrow> snd (tryLoop run finish tries tryIndex calls err) \<le> calls + 2 * (tries - tryIndex) - 1"
proof (induction run finish tries tryIndex calls err rule: tryLoop.induct)
  case (1 run finish tries tryIndex calls err)
  obtain a t n where r: "retryWhileFailed run tries tryIndex (calls + 1) (run calls) = (a, t, n)" by (metis prod_cases3)
  note c = retry_calls [OF 1(3) r] and t = retry_index [of tryIndex run tries "calls + 1" "run calls", unfolded r fst_conv snd_conv]
  have again: "snd (tryLoop run finish tries (t + 1) n e) \<le> calls + 2 * (tries - tryIndex) - 1"
    if "t + 1 < tries \<Longrightarrow> snd (tryLoop run finish tries (t + 1) n e) \<le> n + 2 * (tries - (t + 1)) - 1" for e
  proof (cases "t + 1 < tries")
    case True
    with that c t show ?thesis by auto
  next
    case False
    then have "tryLoop run finish tries (t + 1) n e = (Failed e, n)" by (simp add: tryLoop.simps)
    with False c t 1(3) show ?thesis by auto
  qed
  have lim: "\<not> tries \<le> tryIndex" using 1(3) by simp
  have n: "n \<le> calls + 2 * (tries - tryIndex) - 1" using c t 1(3) by auto
  show ?case
  proof (cases a)
    case (Throws e)
    with 1(1) [OF lim refl] r again [of "Some e"] lim show ?thesis by (simp add: tryLoop.simps [of run finish tries tryIndex calls err])
  next
    case Requests
    with r lim n show ?thesis by (simp add: tryLoop.simps [of run finish tries tryIndex calls err])
  next
    case (Returned out)
    show ?thesis
    proof (cases "finish out")
      case (Inl e)
      with 1(2) [OF lim refl] Returned r again [of "Some (EngineError e)"] lim show ?thesis
        by (simp add: tryLoop.simps [of run finish tries tryIndex calls err])
    next
      case (Inr out')
      with Returned r lim n show ?thesis by (simp add: tryLoop.simps [of run finish tries tryIndex calls err])
    qed
  qed
qed



text \<open>
  A call that throws after one that returned an error item is not counted as a try: with two tries
  allowed the node is called three times.
\<close>

lemma tries_uncounted:
  "maxTries ((plain_node 0 ''A'' ''t'')\<lparr>n_retryOnFail := Some True, n_maxTries := Some 2\<rparr>) False = 2 \<and>
   snd (tryLoop (\<lambda>k. if k = 1 then Throws (NodeError JNull)
       else Returned (Some [Some [emptyItem\<lparr>i_json := [(''error'', JStr ''e'')]\<rparr>]])) Inr 2 0 0 None) = 3"
  by code_simp

section \<open>Error items\<close>

definition json_error :: "INodeExecutionData \<Rightarrow> json option" where
  "json_error item =
     (let e = (case map_of (i_json item) ''error'' of Some v \<Rightarrow> if json_truthy v then Some v else None | None \<Rightarrow> None);
          m = (case map_of (i_json item) ''message'' of Some v \<Rightarrow> json_truthy v | None \<Rightarrow> False)
      in if length (i_json item) = 1 then e else if m \<and> length (i_json item) = 2 then e else None)"

definition item_error :: "INodeExecutionData \<Rightarrow> json option" where
  "item_error item =
     (case i_error item of Some v \<Rightarrow> if json_truthy v then Some v else json_error item | None \<Rightarrow> json_error item)"

definition pairedItemData :: "INodeExecutionData \<Rightarrow> IPairedItemData option" where
  "pairedItemData item =
     (case i_pairedItem item of
        Some (PairedOne p) \<Rightarrow> Some p
      | Some (PairedMany ps) \<Rightarrow> (case ps of [] \<Rightarrow> None | p # _ \<Rightarrow> Some p)
      | _ \<Rightarrow> None)"

text \<open>The item as it goes to the error output: with the fields of the input item it came from, where that
  is known. \<open>getPairedItem\<close> is the data proxy's lookup.\<close>

definition errorItem ::
    "(string \<Rightarrow> ISourceData \<Rightarrow> IPairedItemData \<Rightarrow> INodeExecutionData option) \<Rightarrow> IExecuteData \<Rightarrow> INodeExecutionData
       \<Rightarrow> INodeExecutionData result" where
  "errorItem getPairedItem executionData item =
     (case e_source executionData of None \<Rightarrow> Inr item
      | Some source \<Rightarrow> (case pairedItemData item of None \<Rightarrow> Inr item
      | Some p \<Rightarrow> (case map_of source Main of None \<Rightarrow> Inl TypeError
      | Some srcs \<Rightarrow>
          (let i = or_default 0 (pi_input p)
           in if i \<ge> length srcs then Inl TypeError
              else case srcs ! i of None \<Rightarrow> Inl TypeError
                | Some sourceData \<Rightarrow> (case getPairedItem (previousNode sourceData) sourceData p of
                     None \<Rightarrow> Inr item
                   | Some constPairedItem \<Rightarrow>
                       Inr (item\<lparr>i_json := fold (\<lambda>(k, v). obj_set k v) (i_json item) (i_json constPairedItem)\<rparr>))))))"

text \<open>One output: the items without error stay, the others move to the error items.\<close>

fun splitErrors ::
    "(string \<Rightarrow> ISourceData \<Rightarrow> IPairedItemData \<Rightarrow> INodeExecutionData option) \<Rightarrow> IExecuteData \<Rightarrow> INodeExecutionData list
       \<Rightarrow> (INodeExecutionData list \<times> INodeExecutionData list) result" where
  "splitErrors getPairedItem executionData [] = Inr ([], [])"
| "splitErrors getPairedItem executionData (item # items) =
     (if item_error item \<noteq> None
      then res_bind (errorItem getPairedItem executionData item) (\<lambda>e.
           res_bind (splitErrors getPairedItem executionData items) (\<lambda>r. Inr (fst r, e # snd r)))
      else res_bind (splitErrors getPairedItem executionData items) (\<lambda>r. Inr (item # fst r, snd r)))"

fun splitOutputs ::
    "(string \<Rightarrow> ISourceData \<Rightarrow> IPairedItemData \<Rightarrow> INodeExecutionData option) \<Rightarrow> IExecuteData \<Rightarrow> INodeExecutionData list list
       \<Rightarrow> (INodeExecutionData list list \<times> INodeExecutionData list) result" where
  "splitOutputs getPairedItem executionData [] = Inr ([], [])"
| "splitOutputs getPairedItem executionData (items # outs) =
     res_bind (splitErrors getPairedItem executionData items) (\<lambda>r.
     res_bind (splitOutputs getPairedItem executionData outs) (\<lambda>s. Inr (fst r # fst s, snd r @ snd s)))"

text \<open>\<open>mainOutputs\<close> is the number of the node's main outputs, of which the last is the error output.\<close>

definition handleNodeErrorOutput ::
    "(string \<Rightarrow> ISourceData \<Rightarrow> IPairedItemData \<Rightarrow> INodeExecutionData option) \<Rightarrow> nat \<Rightarrow> IExecuteData \<Rightarrow> outputs \<Rightarrow> outputs result" where
  "handleNodeErrorOutput getPairedItem mainOutputs executionData nodeSuccessData =
     (if mainOutputs = 0 then Inr nodeSuccessData
      else let regular = map (\<lambda>i. if i < length nodeSuccessData then or_empty (nodeSuccessData ! i) else []) [0 ..< mainOutputs - 1]
           in res_bind (splitOutputs getPairedItem executionData regular) (\<lambda>r.
                Inr (map Some (fst r) @ [Some (snd r)] @ drop mainOutputs nodeSuccessData)))"

lemma splitErrors_props:
  "splitErrors gp ed items = Inr (ok, bad) \<Longrightarrow>
     ok = filter (\<lambda>it. item_error it = None) items \<and> length ok + length bad = length items"
proof (induction items arbitrary: ok bad)
  case (Cons item items)
  then show ?case by (cases "item_error item = None") (fastforce simp: res_bind_Inr_iff)+
qed simp

lemma splitOutputs_props:
  "splitOutputs gp ed outs = Inr (oks, bad) \<Longrightarrow>
     oks = map (filter (\<lambda>it. item_error it = None)) outs \<and> length (concat oks) + length bad = length (concat outs)"
proof (induction outs arbitrary: oks bad)
  case (Cons items outs)
  from Cons.prems obtain r s where r: "splitErrors gp ed items = Inr r" and s: "splitOutputs gp ed outs = Inr s"
    and eq: "oks = fst r # fst s" "bad = snd r @ snd s" by (auto simp: res_bind_Inr_iff)
  have "fst r = filter (\<lambda>it. item_error it = None) items" "length (fst r) + length (snd r) = length items"
    using splitErrors_props [of gp ed items "fst r" "snd r"] r unfolding prod.collapse by blast+
  moreover have "fst s = map (filter (\<lambda>it. item_error it = None)) outs" "length (concat (fst s)) + length (snd s) = length (concat outs)"
    using Cons.IH [of "fst s" "snd s"] s unfolding prod.collapse by blast+
  ultimately show ?case unfolding eq by (metis (no_types, lifting) add.assoc add.left_commute concat.simps(2) length_append list.simps(9))
qed simp

definition regularOutputs :: "nat \<Rightarrow> outputs \<Rightarrow> INodeExecutionData list list" where
  "regularOutputs mainOutputs outs = map (\<lambda>i. if i < length outs then or_empty (outs ! i) else []) [0 ..< mainOutputs - 1]"


definition ex_entry :: IExecuteData where
  "ex_entry = \<lparr>e_node = plain_node 0 ''A'' ''t'', e_data = emptyItemData, e_source = None, e_runIndex = None, e_metadata = None\<rparr>"


section \<open>Pairing output items with input items\<close>

text \<open>Which input item an output item without pairing comes from, where that can be told.\<close>

definition pairing :: "outputs \<Rightarrow> INodeExecutionData list option list \<Rightarrow> (nat \<Rightarrow> nat) option result" where
  "pairing nodeSuccessData main =
     (let n = (case main of [Some items] \<Rightarrow> Some (length items) | _ \<Rightarrow> None)
      in if length nodeSuccessData = 1 \<and> length main = 1 \<and> hd nodeSuccessData = None then Inl TypeError
         else Inr
           (if n = Some 1 then Some (\<lambda>_. 0)
            else case nodeSuccessData of
                   [Some out] \<Rightarrow>
                     (case n of None \<Rightarrow> None
                      | Some k \<Rightarrow> if k = length out then Some id else if length out = 1 \<and> k > 1 then Some (\<lambda>_. 0) else None)
                 | _ \<Rightarrow> None))"

definition pairItem :: "(nat \<Rightarrow> nat) \<Rightarrow> nat \<times> INodeExecutionData \<Rightarrow> INodeExecutionData" where
  "pairItem f p =
     (if i_pairedItem (snd p) = None
      then (snd p)\<lparr>i_pairedItem := Some (PairedOne \<lparr>pi_item = f (fst p), pi_input = None, pi_sourceOverwrite = None\<rparr>)\<rparr>
      else snd p)"

definition assignPairedItems :: "outputs option \<Rightarrow> IExecuteData \<Rightarrow> outputs option result" where
  "assignPairedItems nodeSuccessData executionData =
     (case nodeSuccessData of None \<Rightarrow> Inr None
      | Some outs \<Rightarrow>
          if outs = [] then Inr (Some [])
          else case map_of (e_data executionData) Main of None \<Rightarrow> Inl TypeError
            | Some main \<Rightarrow> res_bind (pairing outs main) (\<lambda>f.
                Inr (Some (case f of None \<Rightarrow> outs
                  | Some f \<Rightarrow> map (map_option (\<lambda>items. map (pairItem f) (enumerate 0 items))) outs))))"

text \<open>
  Pairing only adds pairings: items keep their order, content and existing pairing, and every
  pairing that is added refers to an item of the first input that exists.
\<close>

lemma assignPairedItems_bounds:
  assumes "assignPairedItems (Some outs) ed = Inr (Some outs')" and "map_of (e_data ed) Main = Some main"
    and "k < length outs" and "outs ! k = Some items" and "j < length items"
  shows "\<exists>items'. k < length outs' \<and> outs' ! k = Some items' \<and> length items' = length items \<and>
    (items' ! j = items ! j \<or>
     i_pairedItem (items ! j) = None \<and>
     (\<exists>m input. main = [Some input] \<and> m < length input \<and>
        items' ! j = (items ! j)\<lparr>i_pairedItem := Some (PairedOne \<lparr>pi_item = m, pi_input = None, pi_sourceOverwrite = None\<rparr>)\<rparr>))"
proof -
  have ne: "outs \<noteq> []" using assms(3) by auto
  with assms(1,2) obtain f where f: "pairing outs main = Inr f"
    and o: "outs' = (case f of None \<Rightarrow> outs | Some f \<Rightarrow> map (map_option (\<lambda>items. map (pairItem f) (enumerate 0 items))) outs)"
    by (auto simp: assignPairedItems_def res_bind_Inr_iff)
  show ?thesis
  proof (cases f)
    case None
    with o assms(3,4) show ?thesis by simp
  next
    case (Some g)
    have m: "\<exists>input. main = [Some input] \<and> g j < length input"
      using f assms(3-5) unfolding Some pairing_def Let_def
      by (auto split: if_splits list.splits option.splits simp: less_Suc_eq)
    have n: "map (pairItem g) (enumerate 0 items) ! j = pairItem g (j, items ! j)"
      using assms(5) by (simp add: nth_enumerate_eq)
    with m assms(3-5) show ?thesis
      unfolding o Some by (auto simp: pairItem_def)
  qed
qed

lemma assignPairedItems_bounds_witness:
  "\<exists>outs'. assignPairedItems (Some [Some [emptyItem]]) ex_entry = Inr (Some outs') \<and>
     (\<exists>items'. outs' ! 0 = Some items' \<and> length items' = 1)"
proof -
  obtain outs' where o: "assignPairedItems (Some [Some [emptyItem]]) ex_entry = Inr (Some outs')"
    by (simp add: assignPairedItems_def ex_entry_def emptyItemData_def pairing_def Let_def)
  have "map_of (e_data ex_entry) Main = Some [Some [emptyItem]]" by (simp add: ex_entry_def emptyItemData_def)
  from assignPairedItems_bounds [OF o this, of 0 "[emptyItem]" 0] o show ?thesis by auto
qed

section \<open>Finishing the data of a run\<close>

definition allInputPairs :: "INodeExecutionData list option list \<Rightarrow> IPairedItemData list" where
  "allInputPairs main =
     concat (map (\<lambda>(inputIndex, input). map (\<lambda>itemIndex.
         \<lparr>pi_item = itemIndex, pi_input = Some inputIndex, pi_sourceOverwrite = None\<rparr>) [0 ..< length (or_empty input)]) (enumerate 0 main))"

definition hasFirstItem :: "outputs option \<Rightarrow> bool" where
  "hasFirstItem out = (case out of Some (Some (_ # _) # _) \<Rightarrow> True | _ \<Rightarrow> False)"

definition alwaysOutput :: "IExecuteData \<Rightarrow> outputs option \<Rightarrow> outputs option result" where
  "alwaysOutput executionData out =
     (if hasFirstItem out \<or> n_alwaysOutputData (e_node executionData) \<noteq> Some True then Inr out
      else case map_of (e_data executionData) Main of None \<Rightarrow> Inl TypeError
        | Some main \<Rightarrow> Inr (Some (Some [emptyItem\<lparr>i_pairedItem := Some (PairedMany (allInputPairs main))\<rparr>] # tl (or_default [] out))))"

text \<open>Everything that happens to the returned data inside the \<open>try\<close> block.\<close>

definition finishOutputs ::
    "(string \<Rightarrow> ISourceData \<Rightarrow> IPairedItemData \<Rightarrow> INodeExecutionData option) \<Rightarrow> nat \<Rightarrow> IExecuteData \<Rightarrow> outputs option \<Rightarrow> outputs option result" where
  "finishOutputs getPairedItem mainOutputs executionData out =
     res_bind (case out of
         Some outs \<Rightarrow> if n_onError (e_node executionData) = Some ''continueErrorOutput''
           then res_bind (handleNodeErrorOutput getPairedItem mainOutputs executionData outs) (\<lambda>split. Inr (Some split)) else Inr out
       | None \<Rightarrow> Inr None) (\<lambda>out1.
     res_bind (assignPairedItems out1 executionData) (alwaysOutput executionData))"

text \<open>Errors that items carry become their data.\<close>

definition mergeErrorItem :: "INodeExecutionData \<Rightarrow> INodeExecutionData" where
  "mergeErrorItem item =
     (case map_of (i_json item) ''$error'' of
        Some e \<Rightarrow> if map_of (i_json item) ''$json'' \<noteq> None
          then item\<lparr>i_error := Some e, i_json := error_json (json_prop ''message'' e)\<rparr>
          else (case i_error item of None \<Rightarrow> item | Some e' \<Rightarrow> item\<lparr>i_json := error_json (json_prop ''message'' e')\<rparr>)
      | None \<Rightarrow> (case i_error item of None \<Rightarrow> item | Some e' \<Rightarrow> item\<lparr>i_json := error_json (json_prop ''message'' e')\<rparr>))"

fun mergeErrors :: "outputs \<Rightarrow> outputs result" where
  "mergeErrors [] = Inr []"
| "mergeErrors (None # outs) = Inl TypeError"
| "mergeErrors (Some items # outs) = res_bind (mergeErrors outs) (\<lambda>outs'. Inr (Some (map mergeErrorItem items) # outs'))"

section \<open>Status\<close>

definition updateTaskStatusesToCancelled :: "IRunData \<Rightarrow> IRunData" where
  "updateTaskStatusesToCancelled runData =
     map (\<lambda>(nodeName, tasks). (nodeName, map (\<lambda>t.
       if t_executionStatus t = Some ''running'' then t\<lparr>t_executionStatus := Some ''canceled''\<rparr> else t) tasks)) runData"

text \<open>The status when the loop has ended; a cancellation is recognised by the error's message or name.\<close>

definition contains_text :: "string \<Rightarrow> json option \<Rightarrow> bool" where
  "contains_text needle v = (case v of Some (JStr s) \<Rightarrow> (\<exists>i \<le> length s. take (length needle) (drop i s) = needle) | _ \<Rightarrow> False)"

definition finalStatus :: "json option \<Rightarrow> bool \<Rightarrow> string" where
  "finalStatus executionError waitTill =
     (case executionError of
        Some e \<Rightarrow> if contains_text ''canceled'' (json_prop ''message'' e) \<or> contains_text ''Cancelled'' (json_prop ''name'' e)
          then ''canceled'' else ''error''
      | None \<Rightarrow> if waitTill then ''waiting'' else ''success'')"

end
