(* ===== verification/Engine_Frame.thy ===== *)
theory Engine_Frame
  imports Engine_Drain
begin

text \<open>
  What the scheduling leaves alone. The operations of \<open>workflow-execute.ts\<close> that add nodes change the
  waiting entries and put entries on the stack, always for nodes of the workflow. A property of the state
  that survives these two survives every operation; the locale proves this once, and it is used
  for the run data and for the nodes on the stack.
\<close>

locale queue_invariant =
  fixes w :: Workflow and P :: "RunExecutionData \<Rightarrow> bool"
  assumes waiting: "P x \<Longrightarrow> P (x\<lparr>x_waitingExecution := a, x_waitingExecutionSource := b\<rparr>)"
    and push: "P x \<Longrightarrow> getNode w nm = Some (e_node e) \<Longrightarrow> P (x\<lparr>x_nodeExecutionStack := e # x_nodeExecutionStack x\<rparr>)"
    and append: "P x \<Longrightarrow> getNode w nm = Some (e_node e) \<Longrightarrow> P (x\<lparr>x_nodeExecutionStack := x_nodeExecutionStack x @ [e]\<rparr>)"
begin

lemma enqueue_keeps: "P x \<Longrightarrow> getNode w nm = Some (e_node e) \<Longrightarrow> P (enqueue order e x)"
  by (simp add: enqueue_def push append)

lemma prepareWaiting_keeps: "P x \<Longrightarrow> P (prepareWaitingToExecution nm n k x)"
  by (simp add: prepareWaitingToExecution_def waiting)

lemma openWaitingEntry_keeps: "openWaitingEntry w c x = Inr r \<Longrightarrow> P x \<Longrightarrow> P (fst r)"
  by (auto simp: openWaitingEntry_def Let_def res_bind_Inr_iff waiting prepareWaiting_keeps split: option.splits if_splits)

lemma storeWaitingData_keeps: "storeWaitingData c k items src x = Inr u \<Longrightarrow> P x \<Longrightarrow> P u"
  by (auto simp: storeWaitingData_def Let_def res_bind_Inr_iff waiting)

lemma keepWaitingEntry_preserves: "keepWaitingEntry w c k items x = Inr u \<Longrightarrow> P x \<Longrightarrow> P u"
  by (auto simp: keepWaitingEntry_def Let_def res_bind_Inr_iff waiting prepareWaiting_keeps)

lemma completeWaitingEntry_keeps: "completeWaitingEntry order w nm k x = Inr u \<Longrightarrow> P x \<Longrightarrow> P u"
  by (auto simp: completeWaitingEntry_def Let_def split: option.splits intro!: enqueue_keeps [of _ nm] waiting)

lemma forceParent_keeps:
  assumes "forceParent order w outs parent items src k nm x = Inr u" and "P x"
  shows "P u"
proof -
  have add: "P u"
    if "(case p of None \<Rightarrow> Inr x
         | Some n \<Rightarrow> res_bind (A n) (\<lambda>b. if \<not> b then Inr x else case getNode w n of None \<Rightarrow> Inl UndefinedValue
             | Some node \<Rightarrow> Inr (enqueue order \<lparr>e_node = node, e_data = d, e_source = s, e_runIndex = None, e_metadata = None\<rparr> x))) = Inr u"
    for p A d s
  proof (cases p)
    case (Some n)
    with that obtain b where "(if \<not> b then Inr x else case getNode w n of None \<Rightarrow> Inl UndefinedValue
        | Some node \<Rightarrow> Inr (enqueue order \<lparr>e_node = node, e_data = d, e_source = s, e_runIndex = None, e_metadata = None\<rparr> x)) = Inr u"
      by (auto simp: res_bind_Inr_iff)
    then show ?thesis using assms(2) by (cases b; cases "getNode w n") (auto intro!: enqueue_keeps [of _ n])
  qed (use that assms(2) in simp)
  from assms(1) show ?thesis unfolding forceParent_def Let_def res_bind_Inr_iff [of _ _ u] by (elim exE conjE) (rule add)
qed

lemma considerParent_keeps: "considerParent order w outs parent items src k c x = Inr u \<Longrightarrow> P x \<Longrightarrow> P u"
  by (auto simp: considerParent_def res_bind_Inr_iff forceParent_keeps split: if_splits)

lemma considerParents_keeps: "considerParents order w nm parent items src k x = Inr u \<Longrightarrow> P x \<Longrightarrow> P u"
  unfolding considerParents_def res_bind_Inr_iff
  by (elim exE conjE) (erule res_fold_invariant [where P = P]; blast intro: considerParent_keeps)

lemma addWaiting_multi_keeps: "addWaiting_multi order w c parent items src st k x = Inr u \<Longrightarrow> P x \<Longrightarrow> P u"
  unfolding addWaiting_multi_def Let_def res_bind_Inr_iff
  by (auto split: if_splits simp: res_bind_Inr_iff
      dest!: openWaitingEntry_keeps storeWaitingData_keeps keepWaitingEntry_preserves completeWaitingEntry_keeps considerParents_keeps)

lemma addNodeToBeExecuted_keeps: "addNodeToBeExecuted order w c i parent nsd k n m x = Inr u \<Longrightarrow> P x \<Longrightarrow> P u"
  by (auto simp: addNodeToBeExecuted_def Let_def res_bind_Inr_iff addDirectly_def addWaiting_multi_keeps
      split: if_splits option.splits intro!: enqueue_keeps [of _ "c_node c"])

lemma addOutputs_keeps: "addOutputs order srt w nm nsd k x = Inr u \<Longrightarrow> P x \<Longrightarrow> P u"
proof (cases "is_v1 order")
  case True
  assume x: "P x" and "addOutputs order srt w nm nsd k x = Inr u"
  with True obtain ps where "res_fold (\<lambda>p. addNodeToBeExecuted order w (p_connection p) (p_outputIndex p) nm (Some nsd) k None None) (srt byPosition ps) x = Inr u"
    by (auto simp: addOutputs_def res_bind_Inr_iff)
  then show ?thesis using x by (rule res_fold_invariant) (rule addNodeToBeExecuted_keeps)
next
  case False
  assume x: "P x" and "addOutputs order srt w nm nsd k x = Inr u"
  with False have "res_fold (\<lambda>oc x. res_bind (destinationCheck w (snd oc)) (\<lambda>_.
            if outputIsPassed order nsd oc then addNodeToBeExecuted order w (snd oc) (fst oc) nm (Some nsd) k None None x
            else Inr x)) (outputConnections w nm) x = Inr u"
    by (simp add: addOutputs_def)
  then show ?thesis using x
    by (rule res_fold_invariant) (auto simp: res_bind_Inr_iff dest: addNodeToBeExecuted_keeps split: if_splits)
qed

lemma removeWaiting_keeps: "P x \<Longrightarrow> P (removeWaiting nm k x)"
  by (simp add: removeWaiting_def Let_def waiting)

lemma takeRun_keeps: "takeRun nt nm node x = Inr r \<Longrightarrow> getNode w nm = Some node \<Longrightarrow> P x \<Longrightarrow> P (snd r)"
  by (erule takeRun_cases) (auto intro!: removeWaiting_keeps append)

lemma searchWaiting_keeps: "searchWaiting order ev nt w' wn rest x = Inr u \<Longrightarrow> w' = w \<Longrightarrow> P x \<Longrightarrow> P u"
proof (induction order ev nt w' wn rest x rule: searchWaiting.induct)
  case (2 order ev nt w' wn nm rest x)
  note IH = 2(1-3) and run = 2(4) [unfolded searchWaiting.simps(2)] and w = 2(5) and x = 2(6)
  show ?case
  proof (cases "getNode w' nm")
    case None
    with IH(1) run w x show ?thesis by simp
  next
    case (Some node)
    with run obtain b where b: "runBlocked order ev nt w' wn nm node x = Inr b" by (auto simp: res_bind_Inr_iff)
    show ?thesis
    proof (cases b)
      case True
      with IH(2) [OF Some b] run Some b w x show ?thesis by simp
    next
      case False
      with run Some b obtain r where r: "takeRun nt nm node x = Inr r" by (auto simp: res_bind_Inr_iff)
      from takeRun_keeps [OF r] IH(3) [OF Some b False r] run Some b False r w x show ?thesis by (cases "fst r") simp_all
    qed
  qed
qed (simp add: searchWaiting.simps)

lemma drainWaiting_keeps: "drainWaiting order ev nt w x = Inr u \<Longrightarrow> P x \<Longrightarrow> P u"
  by (auto simp: drainWaiting_def Let_def searchWaiting_keeps split: if_splits)

text \<open>What a node that has run hands on, as the loop of the engine does.\<close>

lemma hand_on_keeps:
  assumes "res_bind (addOutputs order srt w nm outs k x) (drainWaiting order ev nt w) = Inr u" and "P x"
  shows "P u"
  using assms by (auto simp: res_bind_Inr_iff intro: addOutputs_keeps drainWaiting_keeps)

end

section \<open>Two invariants\<close>

text \<open>The run data stay as they are.\<close>

interpretation keeps_run_data: queue_invariant w "\<lambda>x. x_runData x = rd" for w rd
  by unfold_locales simp_all

text \<open>Every entry of the stack is for a node of the workflow.\<close>

definition stack_ok :: "Workflow \<Rightarrow> RunExecutionData \<Rightarrow> bool" where
  "stack_ok w x \<longleftrightarrow> list_all (\<lambda>e. getNode w (n_name (e_node e)) = Some (e_node e)) (x_nodeExecutionStack x)"

definition workflow_named :: "Workflow \<Rightarrow> bool" where
  "workflow_named w \<longleftrightarrow> list_all (\<lambda>p. fst p = n_name (snd p)) (w_nodes w)"

lemma getNode_name:
  assumes "workflow_named w" and "getNode w nm = Some node"
  shows "n_name node = nm"
proof -
  from assms(2) have "(nm, node) \<in> set (w_nodes w)" by (simp add: getNode_def map_of_SomeD)
  with assms(1) show ?thesis by (force simp: workflow_named_def list_all_iff)
qed

interpretation keeps_stack_nodes: queue_invariant w "\<lambda>x. workflow_named w \<and> stack_ok w x" for w
  by unfold_locales (auto simp: stack_ok_def dest: getNode_name)

end
