(* ===== verification/Strong_Components.thy ===== *)
theory Strong_Components
  imports Graph_Search
begin

text \<open>
  \<open>DirectedGraph.getStronglyConnectedComponents\<close>. The closure's variables are the fields of
  a record that is passed through the recursion; the stack is a list with its top first. Every set
  the search returns consists of nodes that can reach each other, and the sets are disjoint; but
  since a component is popped only while the low-link values are equal, a component can be missed.
\<close>

section \<open>The algorithm\<close>

record scc_state =
  sc_id :: nat
  sc_visited :: "INode list"
  sc_ids :: "(INode, nat) dict"
  sc_lowLinkValues :: "(INode, nat) dict"
  sc_stack :: "INode list"
  sc_components :: "INode list list"

definition scc_init :: scc_state where
  "scc_init = \<lparr>sc_id = 0, sc_visited = [], sc_ids = [], sc_lowLinkValues = [], sc_stack = [], sc_components = []\<rparr>"

text \<open>The first part of \<open>followNode\<close>: number the node and push it.\<close>

definition scc_enter :: "INode \<Rightarrow> scc_state \<Rightarrow> scc_state" where
  "scc_enter node st =
     st\<lparr>sc_visited := sc_visited st @ [node],
        sc_lowLinkValues := AList.update node (sc_id st) (sc_lowLinkValues st),
        sc_ids := AList.update node (sc_id st) (sc_ids st),
        sc_id := Suc (sc_id st),
        sc_stack := node # sc_stack st\<rparr>"

text \<open>After a child was followed: take over its low-link value if it is on the stack.\<close>

definition scc_lower :: "INode \<Rightarrow> INode \<Rightarrow> scc_state \<Rightarrow> scc_state result" where
  "scc_lower node child st =
     (if child \<in> set (sc_stack st) then
        case map_of (sc_lowLinkValues st) child of
          None \<Rightarrow> Inl AssertionError
        | Some childLow \<Rightarrow> (case map_of (sc_lowLinkValues st) node of
            None \<Rightarrow> Inl AssertionError
          | Some ownLow \<Rightarrow>
              Inr (st\<lparr>sc_lowLinkValues := AList.update node (min childLow ownLow) (sc_lowLinkValues st)\<rparr>))
      else Inr st)"

text \<open>The last part of \<open>followNode\<close>: pop a component.\<close>

definition scc_finish :: "INode \<Rightarrow> scc_state \<Rightarrow> scc_state result" where
  "scc_finish node st =
     (case map_of (sc_ids st) node of
        None \<Rightarrow> Inl AssertionError
      | Some ownId \<Rightarrow> (case map_of (sc_lowLinkValues st) node of
          None \<Rightarrow> Inl AssertionError
        | Some ownLow \<Rightarrow>
            if ownId = ownLow then
              let same = (\<lambda>next. map_of (sc_lowLinkValues st) next = Some ownId);
                  scc = takeWhile same (sc_stack st)
              in Inr (st\<lparr>sc_stack := dropWhile same (sc_stack st),
                         sc_components := sc_components st @ (if scc = [] then [] else [scc])\<rparr>)
            else Inr st))"

text \<open>The loop over the children of a node, with the recursive call for an unvisited child.\<close>

function followChildren :: "DirectedGraph \<Rightarrow> INode \<Rightarrow> INode list \<Rightarrow> scc_state \<Rightarrow> scc_state result" where
  "followChildren g node [] st = scc_finish node st"
| "followChildren g node (child # rest) st =
     (if child \<in> set (sc_visited st)
      then res_bind (scc_lower node child st) (followChildren g node rest)
      else res_bind (getDirectChildConnections g child) (\<lambda>conns.
           res_bind (followChildren g child (map gc_to conns) (scc_enter child st)) (\<lambda>st1.
           res_bind (scc_lower node child st1) (followChildren g node rest))))"
  by pat_completeness auto

lemma scc_lower_visited: "scc_lower n c st = Inr st' \<Longrightarrow> sc_visited st' = sc_visited st"
  by (auto simp: scc_lower_def split: if_splits option.splits)

lemma scc_finish_visited: "scc_finish n st = Inr st' \<Longrightarrow> sc_visited st' = sc_visited st"
  by (auto simp: scc_finish_def Let_def split: if_splits option.splits)

lemma scc_enter_visited [simp]: "sc_visited (scc_enter n st) = sc_visited st @ [n]"
  by (simp add: scc_enter_def)

lemma followChildren_visited:
  "followChildren_dom (g, n, cs, st) \<Longrightarrow> followChildren g n cs st = Inr st' \<Longrightarrow>
   set (sc_visited st) \<subseteq> set (sc_visited st')"
proof (induction g n cs st arbitrary: st' rule: followChildren.pinduct)
  case (1 g n st)
  then show ?case by (simp add: followChildren.psimps scc_finish_visited)
next
  case (2 g n c cs st)
  show ?case
  proof (cases "c \<in> set (sc_visited st)")
    case True
    with 2(1,5) obtain st1 where l: "scc_lower n c st = Inr st1" and r: "followChildren g n cs st1 = Inr st'"
      by (auto simp: followChildren.psimps res_bind_Inr_iff)
    from 2(2) [OF True l r] scc_lower_visited [OF l] show ?thesis by simp
  next
    case False
    with 2(1,5) obtain conns st1 st2 where conns: "getDirectChildConnections g c = Inr conns"
      and f: "followChildren g c (map gc_to conns) (scc_enter c st) = Inr st1"
      and l: "scc_lower n c st1 = Inr st2" and r: "followChildren g n cs st2 = Inr st'"
      by (auto simp: followChildren.psimps res_bind_Inr_iff)
    from 2(3) [OF False conns f] 2(4) [OF False conns f l r] scc_lower_visited [OF l] show ?thesis by auto
  qed
qed

termination followChildren
proof (relation "measures [\<lambda>(g, n, cs, st). nodes_left g (sc_visited st), \<lambda>(g, n, cs, st). length cs]", goal_cases)
  case 1
  show ?case by simp
next
  case (2 g n c cs st st1)
  then show ?case by (simp add: scc_lower_visited)
next
  case (3 g n c cs st conns)
  then show ?case
    using nodes_left_less [of g c "sc_visited st" "sc_visited st @ [c]"] by (simp add: child_connections_Inr)
next
  case (4 g n c cs st conns st1 st2)
  have "set (sc_visited st) \<subseteq> set (sc_visited st1)"
    using followChildren_visited [OF 4(5) 4(3)] by auto
  then have "nodes_left g (sc_visited st2) \<le> nodes_left g (sc_visited st)"
    unfolding scc_lower_visited [OF 4(4)] by (rule nodes_left_mono)
  then show ?case by auto
qed

definition followNode :: "DirectedGraph \<Rightarrow> INode \<Rightarrow> scc_state \<Rightarrow> scc_state result" where
  "followNode g node st =
     (if node \<in> set (sc_visited st) then Inr st
      else res_bind (getDirectChildConnections g node) (\<lambda>conns.
             followChildren g node (map gc_to conns) (scc_enter node st)))"

definition getStronglyConnectedComponents :: "DirectedGraph \<Rightarrow> INode list list result" where
  "getStronglyConnectedComponents g =
     res_bind (res_fold (followNode g) (map snd (dg_nodes g)) scc_init) (\<lambda>st. Inr (sc_components st))"

section \<open>What the components are\<close>

abbreviation scc_idv :: "scc_state \<Rightarrow> INode \<Rightarrow> nat option" where
  "scc_idv st \<equiv> map_of (sc_ids st)"

abbreviation scc_lowv :: "scc_state \<Rightarrow> INode \<Rightarrow> nat option" where
  "scc_lowv st \<equiv> map_of (sc_lowLinkValues st)"

text \<open>A node on the stack has a number, and its low-link value is the number of a node it can reach.\<close>

definition low_ok :: "DirectedGraph \<Rightarrow> scc_state \<Rightarrow> INode \<Rightarrow> bool" where
  "low_ok g st v \<longleftrightarrow> (\<exists>i l. scc_idv st v = Some i \<and> scc_lowv st v = Some l \<and> l \<le> i \<and>
     (\<exists>u. scc_idv st u = Some l \<and> (v, u) \<in> (edges g)\<^sup>*))"

definition id_gt :: "scc_state \<Rightarrow> INode \<Rightarrow> INode \<Rightarrow> bool" where
  "id_gt st a b \<longleftrightarrow> the (scc_idv st b) < the (scc_idv st a)"

definition mutual :: "DirectedGraph \<Rightarrow> INode list \<Rightarrow> bool" where
  "mutual g C \<longleftrightarrow> (\<forall>a \<in> set C. \<forall>b \<in> set C. (a, b) \<in> (edges g)\<^sup>*)"

definition scc_inv :: "DirectedGraph \<Rightarrow> scc_state \<Rightarrow> bool" where
  "scc_inv g st \<longleftrightarrow>
     (\<forall>u i. scc_idv st u = Some i \<longrightarrow> i < sc_id st \<and> u \<in> set (sc_visited st)) \<and>
     (\<forall>u v i. scc_idv st u = Some i \<longrightarrow> scc_idv st v = Some i \<longrightarrow> u = v) \<and>
     (\<forall>v \<in> set (sc_stack st). low_ok g st v) \<and>
     sorted_wrt (id_gt st) (sc_stack st) \<and>
     (\<forall>C \<in> set (sc_components st). C \<noteq> [] \<and> mutual g C) \<and>
     distinct (concat (sc_components st) @ sc_stack st) \<and>
     set (concat (sc_components st) @ sc_stack st) \<subseteq> set (sc_visited st)"

lemma scc_invD:
  assumes "scc_inv g st"
  shows "scc_idv st u = Some i \<Longrightarrow> i < sc_id st" "scc_idv st u = Some i \<Longrightarrow> u \<in> set (sc_visited st)"
    and "scc_idv st u = Some i \<Longrightarrow> scc_idv st v = Some i \<Longrightarrow> u = v"
    and "v \<in> set (sc_stack st) \<Longrightarrow> low_ok g st v"
    and "sorted_wrt (id_gt st) (sc_stack st)"
    and "C \<in> set (sc_components st) \<Longrightarrow> C \<noteq> [] \<and> mutual g C"
    and "distinct (concat (sc_components st) @ sc_stack st)"
    and "set (concat (sc_components st) @ sc_stack st) \<subseteq> set (sc_visited st)"
  using assms unfolding scc_inv_def by blast+

lemma scc_inv_init: "scc_inv g scc_init"
  by (simp add: scc_inv_def scc_init_def)

lemma scc_inv_enter:
  assumes inv: "scc_inv g st" and new: "n \<notin> set (sc_visited st)"
  shows "scc_inv g (scc_enter n st)"
proof -
  let ?st = "scc_enter n st"
  have idv: "scc_idv ?st = (scc_idv st)(n \<mapsto> sc_id st)" and lowv: "scc_lowv ?st = (scc_lowv st)(n \<mapsto> sc_id st)"
    by (simp_all add: scc_enter_def update_conv')
  have none: "scc_idv st n = None" using new scc_invD(2) [OF inv, of n] by (cases "scc_idv st n") auto
  have stack: "x \<noteq> n" if "x \<in> set (sc_stack st)" for x using that scc_invD(8) [OF inv] new by auto
  have keep: "low_ok g ?st v" if "low_ok g st v" "v \<noteq> n" for v
    using that none unfolding low_ok_def idv lowv by (metis fun_upd_other option.distinct(1))
  have own: "low_ok g ?st n" unfolding low_ok_def idv lowv by auto
  have "id_gt ?st n x" if "x \<in> set (sc_stack st)" for x
    using that stack [OF that] scc_invD(4) [OF inv that] scc_invD(1) [OF inv, of x]
    unfolding id_gt_def idv low_ok_def by auto
  moreover have "sorted_wrt (id_gt ?st) (sc_stack st)"
    using scc_invD(5) [OF inv] by (rule sorted_wrt_mono_rel [rotated]) (use stack in \<open>simp add: id_gt_def idv\<close>)
  ultimately have sorted: "sorted_wrt (id_gt ?st) (sc_stack ?st)" by (simp add: scc_enter_def)
  show ?thesis
    unfolding scc_inv_def
  proof (intro conjI)
    show "\<forall>u i. scc_idv ?st u = Some i \<longrightarrow> i < sc_id ?st \<and> u \<in> set (sc_visited ?st)"
      using scc_invD(1,2) [OF inv] unfolding idv by (auto simp: scc_enter_def less_SucI)
    show "\<forall>u v i. scc_idv ?st u = Some i \<longrightarrow> scc_idv ?st v = Some i \<longrightarrow> u = v"
      using scc_invD(1,3) [OF inv] unfolding idv by (auto split: if_splits)
    show "\<forall>v \<in> set (sc_stack ?st). low_ok g ?st v"
      using keep own scc_invD(4) [OF inv] stack by (auto simp: scc_enter_def)
    show "\<forall>C \<in> set (sc_components ?st). C \<noteq> [] \<and> mutual g C"
      using scc_invD(6) [OF inv] by (simp add: scc_enter_def)
    show "distinct (concat (sc_components ?st) @ sc_stack ?st)"
      "set (concat (sc_components ?st) @ sc_stack ?st) \<subseteq> set (sc_visited ?st)"
      using scc_invD(7,8) [OF inv] new by (auto simp: scc_enter_def)
  qed (rule sorted)
qed

lemma scc_lower_inv:
  assumes inv: "scc_inv g st" and n: "n \<in> set (sc_stack st)" and e: "(n, c) \<in> (edges g)\<^sup>*"
  shows "\<exists>st'. scc_lower n c st = Inr st' \<and> scc_inv g st' \<and> sc_stack st' = sc_stack st"
proof (cases "c \<in> set (sc_stack st)")
  case False
  with inv show ?thesis by (simp add: scc_lower_def)
next
  case True
  from scc_invD(4) [OF inv True] obtain ic lc uc where c: "scc_idv st c = Some ic" "scc_lowv st c = Some lc"
    "scc_idv st uc = Some lc" "(c, uc) \<in> (edges g)\<^sup>*" unfolding low_ok_def by blast
  from scc_invD(4) [OF inv n] obtain i l u where o: "scc_idv st n = Some i" "scc_lowv st n = Some l" "l \<le> i"
    "scc_idv st u = Some l" "(n, u) \<in> (edges g)\<^sup>*" unfolding low_ok_def by blast
  define st' where "st' = st\<lparr>sc_lowLinkValues := AList.update n (min lc l) (sc_lowLinkValues st)\<rparr>"
  have run: "scc_lower n c st = Inr st'" by (simp add: scc_lower_def True c o st'_def)
  have same: "sc_ids st' = sc_ids st" "sc_id st' = sc_id st" "sc_visited st' = sc_visited st"
      "sc_stack st' = sc_stack st" "sc_components st' = sc_components st"
    and low: "scc_lowv st' = (scc_lowv st)(n \<mapsto> min lc l)"
    by (simp_all add: st'_def update_conv')
  have "(n, uc) \<in> (edges g)\<^sup>*" using e c(4) by simp
  then have "\<exists>w. scc_idv st' w = Some (min lc l) \<and> (n, w) \<in> (edges g)\<^sup>*"
    using o c by (auto simp: same min_def)
  then have "low_ok g st' n" using o unfolding low_ok_def low by (auto simp: same)
  moreover have "low_ok g st' v" if "low_ok g st v" "v \<noteq> n" for v
    using that unfolding low_ok_def low by (auto simp: same)
  ultimately have "\<forall>v \<in> set (sc_stack st'). low_ok g st' v" using scc_invD(4) [OF inv] by (auto simp: same)
  moreover have "id_gt st' = id_gt st" by (simp add: id_gt_def same fun_eq_iff)
  ultimately have "scc_inv g st'" using inv unfolding scc_inv_def same by simp
  with run same show ?thesis by blast
qed

lemma takeWhile_below:
  assumes "\<forall>b \<in> set bs. \<not> P b"
  shows "takeWhile P (as @ bs) = takeWhile P as" and "dropWhile P (as @ bs) = dropWhile P as @ bs"
proof -
  have "takeWhile P bs = []" "dropWhile P bs = bs" using assms by (cases bs; simp)+
  then show "takeWhile P (as @ bs) = takeWhile P as" "dropWhile P (as @ bs) = dropWhile P as @ bs"
    by (induction as) simp_all
qed

lemma scc_finish_inv:
  assumes inv: "scc_inv g st" and stack: "sc_stack st = xs @ n # below"
    and above: "\<forall>x \<in> set xs. (n, x) \<in> (edges g)\<^sup>*"
  shows "\<exists>st' ys. scc_finish n st = Inr st' \<and> scc_inv g st' \<and> sc_stack st' = ys @ below \<and>
    (\<forall>y \<in> set ys. (n, y) \<in> (edges g)\<^sup>*)"
proof -
  have "n \<in> set (sc_stack st)" by (simp add: stack)
  from scc_invD(4) [OF inv this] obtain i l where o: "scc_idv st n = Some i" "scc_lowv st n = Some l"
    unfolding low_ok_def by blast
  show ?thesis
  proof (cases "i = l")
    case False
    with o have "scc_finish n st = Inr st" by (simp add: scc_finish_def)
    moreover have "sc_stack st = (xs @ [n]) @ below" "\<forall>y \<in> set (xs @ [n]). (n, y) \<in> (edges g)\<^sup>*"
      using stack above by auto
    ultimately show ?thesis using inv by blast
  next
    case True
    let ?same = "\<lambda>next. scc_lowv st next = Some i"
    define T where "T = takeWhile ?same (sc_stack st)"
    define D where "D = dropWhile ?same (sc_stack st)"
    define st' where "st' = st\<lparr>sc_stack := D, sc_components := sc_components st @ (if T = [] then [] else [T])\<rparr>"
    have run: "scc_finish n st = Inr st'"
      using o True by (simp add: scc_finish_def Let_def st'_def T_def D_def)
    have "\<not> ?same b" if "b \<in> set below" for b
    proof -
      have "id_gt st n b" using scc_invD(5) [OF inv] that by (simp add: stack sorted_wrt_append)
      moreover have "low_ok g st b" using scc_invD(4) [OF inv, of b] that by (simp add: stack)
      ultimately show ?thesis using o by (auto simp: id_gt_def low_ok_def)
    qed
    then have below: "\<forall>b \<in> set below. \<not> ?same b" by blast
    have split: "sc_stack st = (xs @ [n]) @ below" by (simp add: stack)
    have T: "T = takeWhile ?same (xs @ [n])" and D: "D = dropWhile ?same (xs @ [n]) @ below"
      unfolding T_def D_def split using takeWhile_below [OF below] by blast+
    have TD: "T @ D = sc_stack st" by (simp add: T_def D_def)
    have mem: "(n, p) \<in> (edges g)\<^sup>* \<and> (p, n) \<in> (edges g)\<^sup>*" if "p \<in> set T" for p
    proof -
      from that have "p \<in> set (xs @ [n])" unfolding T by (rule set_takeWhileD [THEN conjunct1])
      moreover from that have "?same p" unfolding T using set_takeWhileD by fastforce
      moreover have "low_ok g st p" using scc_invD(4) [OF inv, of p] that TD by (metis Un_iff set_append)
      ultimately show ?thesis using above scc_invD(3) [OF inv _ o(1)] unfolding low_ok_def by auto
    qed
    then have "mutual g T" unfolding mutual_def by (meson rtrancl_trans)
    have same: "sc_ids st' = sc_ids st" "sc_id st' = sc_id st" "sc_visited st' = sc_visited st"
        "sc_lowLinkValues st' = sc_lowLinkValues st" "sc_stack st' = D"
      and comps: "concat (sc_components st') @ D = concat (sc_components st) @ sc_stack st"
      by (simp_all add: st'_def flip: TD)
    have ids: "id_gt st' = id_gt st" "low_ok g st' = low_ok g st"
      by (simp_all add: id_gt_def low_ok_def same fun_eq_iff)
    have "sorted_wrt (id_gt st) (T @ D)" using scc_invD(5) [OF inv] by (simp add: TD)
    then have sorted: "sorted_wrt (id_gt st) D" by (simp add: sorted_wrt_append)
    have "set D \<subseteq> set (sc_stack st)" by (simp flip: TD)
    then have low: "\<forall>v \<in> set D. low_ok g st v" using scc_invD(4) [OF inv] by blast
    have "\<forall>C \<in> set (sc_components st'). C \<noteq> [] \<and> mutual g C"
      using scc_invD(6) [OF inv] \<open>mutual g T\<close> by (auto simp: st'_def)
    then have "scc_inv g st'"
      using inv sorted low unfolding scc_inv_def ids same comps by blast
    moreover have "\<forall>y \<in> set (dropWhile ?same (xs @ [n])). (n, y) \<in> (edges g)\<^sup>*"
      using above by (auto dest!: set_dropWhileD)
    ultimately show ?thesis using run same(5) D by blast
  qed
qed

lemma followChildren_inv:
  "wf_graph g \<Longrightarrow> scc_inv g st \<Longrightarrow> sc_stack st = xs @ n # below \<Longrightarrow> \<forall>x \<in> set xs. (n, x) \<in> (edges g)\<^sup>* \<Longrightarrow>
   \<forall>c \<in> set cs. (n, c) \<in> edges g \<Longrightarrow>
   \<exists>st' ys. followChildren g n cs st = Inr st' \<and> scc_inv g st' \<and> sc_stack st' = ys @ below \<and>
     (\<forall>y \<in> set ys. (n, y) \<in> (edges g)\<^sup>*)"
proof (induction g n cs st arbitrary: xs below rule: followChildren.induct)
  case (1 g n st)
  then show ?case using scc_finish_inv by simp
next
  case (2 g n c cs st)
  have e: "(n, c) \<in> (edges g)\<^sup>*" and exists: "nodeExists g c"
    using "2.prems"(5) edges_to_exists [OF "2.prems"(1)] by auto
  show ?case
  proof (cases "c \<in> set (sc_visited st)")
    case True
    have "n \<in> set (sc_stack st)" by (simp add: "2.prems"(3))
    from scc_lower_inv [OF "2.prems"(2) this e] obtain st1 where
      l: "scc_lower n c st = Inr st1" "scc_inv g st1" "sc_stack st1 = sc_stack st" by blast
    from "2.IH"(1) [OF True l(1) "2.prems"(1) l(2), of xs below] "2.prems" l True show ?thesis by auto
  next
    case False
    from exists obtain conns where conns: "getDirectChildConnections g c = Inr conns"
      by (auto simp: getDirectChildConnections_def)
    have targets: "\<forall>d \<in> set (map gc_to conns). (c, d) \<in> edges g" using child_targets [OF conns] by auto
    have "sc_stack (scc_enter c st) = [] @ c # sc_stack st" by (simp add: scc_enter_def)
    from "2.IH"(2) [OF False conns "2.prems"(1) scc_inv_enter [OF "2.prems"(2) False] this _ targets]
    obtain st1 ys where f: "followChildren g c (map gc_to conns) (scc_enter c st) = Inr st1"
      and st1: "scc_inv g st1" "sc_stack st1 = ys @ sc_stack st" "\<forall>y \<in> set ys. (c, y) \<in> (edges g)\<^sup>*" by auto
    have "n \<in> set (sc_stack st1)" by (simp add: st1 "2.prems"(3))
    from scc_lower_inv [OF st1(1) this e] obtain st2 where
      l: "scc_lower n c st1 = Inr st2" "scc_inv g st2" "sc_stack st2 = sc_stack st1" by blast
    have "sc_stack st2 = (ys @ xs) @ n # below" by (simp add: l st1 "2.prems"(3))
    moreover have "\<forall>x \<in> set (ys @ xs). (n, x) \<in> (edges g)\<^sup>*" using e st1(3) "2.prems"(4) by auto
    ultimately show ?thesis
      using "2.IH"(3) [OF False conns f l(1) "2.prems"(1) l(2)] "2.prems"(5) False conns f l(1) by auto
  qed
qed

lemma followNode_inv:
  assumes "wf_graph g" and "scc_inv g st" and "nodeExists g n"
  shows "\<exists>st'. followNode g n st = Inr st' \<and> scc_inv g st'"
proof (cases "n \<in> set (sc_visited st)")
  case True
  with assms(2) show ?thesis by (simp add: followNode_def)
next
  case False
  from assms(3) obtain conns where conns: "getDirectChildConnections g n = Inr conns"
    by (auto simp: getDirectChildConnections_def)
  have "\<forall>d \<in> set (map gc_to conns). (n, d) \<in> edges g" using child_targets [OF conns] by auto
  moreover have "sc_stack (scc_enter n st) = [] @ n # sc_stack st" by (simp add: scc_enter_def)
  ultimately obtain st' where "followChildren g n (map gc_to conns) (scc_enter n st) = Inr st'" "scc_inv g st'"
    using followChildren_inv [OF assms(1) scc_inv_enter [OF assms(2) False], of "[]" n "sc_stack st" "map gc_to conns"]
    by auto
  with False conns show ?thesis by (simp add: followNode_def)
qed

lemma components_sound:
  assumes "wf_graph g"
  shows "\<exists>comps. getStronglyConnectedComponents g = Inr comps \<and> distinct (concat comps) \<and>
    (\<forall>C \<in> set comps. C \<noteq> [] \<and> mutual g C)"
proof -
  have "\<exists>st. res_fold (followNode g) (map snd (dg_nodes g)) scc_init = Inr st \<and> scc_inv g st"
  proof (rule res_fold_Inr_if)
    show "\<exists>st'. followNode g n st = Inr st' \<and> scc_inv g st'" if "n \<in> set (map snd (dg_nodes g))" "scc_inv g st" for n st
      using that nodeExists_iff [OF assms] by (intro followNode_inv [OF assms]) auto
  qed (rule scc_inv_init)
  then obtain st where "getStronglyConnectedComponents g = Inr (sc_components st)" "scc_inv g st"
    by (auto simp: getStronglyConnectedComponents_def)
  with scc_invD(6,7) [OF this(2)] show ?thesis by auto
qed

text \<open>
  \<open>getStronglyConnectedComponents\<close> fails no assertion and returns non-empty sets that
  share no node, and inside each set every node can be reached from every other.
\<close>

lemma getStronglyConnectedComponents_sound:
  assumes "wf_graph g"
  shows "\<exists>comps. getStronglyConnectedComponents g = Inr comps \<and> distinct (concat comps) \<and>
    (\<forall>C \<in> set comps. C \<noteq> [] \<and> (\<forall>a \<in> set C. \<forall>b \<in> set C. (a, b) \<in> (edges g)\<^sup>*))"
  using components_sound [OF assms] by (simp add: mutual_def)

lemma getStronglyConnectedComponents_sound_witness:
  "wf_graph ex_cycle \<and>
   getStronglyConnectedComponents ex_cycle =
     Inr [[ex_node 3 False ''D''], [ex_node 2 False ''C'', ex_node 1 False ''B''], [ex_node 0 False ''A'']] \<and>
   (ex_node 1 False ''B'', ex_node 2 False ''C'') \<in> (edges ex_cycle)\<^sup>*"
proof -
  have h: "wf_graph ex_cycle" by code_simp
  have "getStronglyConnectedComponents ex_cycle =
      Inr [[ex_node 3 False ''D''], [ex_node 2 False ''C'', ex_node 1 False ''B''], [ex_node 0 False ''A'']]"
    by code_simp
  with h getStronglyConnectedComponents_sound [OF h] show ?thesis by auto
qed

definition ex_missed :: DirectedGraph where
  "ex_missed = ex_graph [ex_node 0 False ''r'', ex_node 1 False ''u'', ex_node 2 False ''v'']
     [(0, 1), (1, 2), (2, 1), (1, 0)]"

text \<open>
  The converse fails. In the graph with the edges r to u, u to v, v to u and u to r, in this
  order, all three nodes can reach each other, but no component is returned: when the search
  returns to r, the node v on top of the stack still has the low-link value of u, so nothing is
  popped.
\<close>

lemma getStronglyConnectedComponents_misses:
  "wf_graph ex_missed \<and>
   (ex_node 0 False ''r'', ex_node 2 False ''v'') \<in> (edges ex_missed)\<^sup>* \<and>
   (ex_node 2 False ''v'', ex_node 0 False ''r'') \<in> (edges ex_missed)\<^sup>* \<and>
   getStronglyConnectedComponents ex_missed = Inr []"
proof -
  have "wf_graph ex_missed" "getStronglyConnectedComponents ex_missed = Inr []" by code_simp+
  moreover have "(ex_node 0 False ''r'', ex_node 1 False ''u'') \<in> edges ex_missed"
    "(ex_node 1 False ''u'', ex_node 2 False ''v'') \<in> edges ex_missed"
    "(ex_node 2 False ''v'', ex_node 1 False ''u'') \<in> edges ex_missed"
    "(ex_node 1 False ''u'', ex_node 0 False ''r'') \<in> edges ex_missed" by code_simp+
  ultimately show ?thesis by (meson r_into_rtrancl rtrancl_into_rtrancl)
qed

end
