(* ===== verification/Run_Data.thy ===== *)
theory Run_Data
  imports Strong_Components Start_Nodes
begin

text \<open>
  Preparing the run data and the start nodes of a partial execution: \<open>clean-run-data.ts\<close>,
  \<open>handle-cycles.ts\<close> and \<open>run-data-utils.ts\<close>.
\<close>

section \<open>Cleaning run data\<close>

definition cleanNode :: "DirectedGraph \<Rightarrow> INode \<Rightarrow> IRunData \<Rightarrow> IRunData result" where
  "cleanNode graph node newRunData =
     (let newRunData = AList.delete (n_name node) newRunData
      in res_bind (getParentConnections graph node) (\<lambda>subNodeConnections.
           Inr (fold (\<lambda>c rd. if gc_type c = Main then rd else AList.delete (n_name (gc_from c)) rd)
                  subNodeConnections newRunData)))"

definition cleanRunData :: "IRunData \<Rightarrow> DirectedGraph \<Rightarrow> INode list \<Rightarrow> IRunData result" where
  "cleanRunData runData graph nodesToClean =
     res_bind (res_fold (\<lambda>nodeToClean newRunData.
         let newRunData = AList.delete (n_name nodeToClean) newRunData
         in res_bind (getChildren graph nodeToClean) (\<lambda>children.
              res_fold (cleanNode graph) (nodeToClean # children) newRunData))
       nodesToClean runData) (\<lambda>newRunData.
     Inr (filter (\<lambda>(nodeName, _). hasNode graph nodeName) newRunData))"

subsection \<open>What is deleted\<close>

definition missing :: "IRunData \<Rightarrow> string set" where
  "missing rd = {nm. map_of rd nm = None}"

definition part_of :: "IRunData \<Rightarrow> IRunData \<Rightarrow> bool" where
  "part_of rd0 rd \<longleftrightarrow> (\<forall>nm. nm \<notin> missing rd \<longrightarrow> map_of rd nm = map_of rd0 nm)"

lemma missing_delete [simp]: "missing (AList.delete k rd) = insert k (missing rd)"
  by (auto simp: missing_def)

lemma part_of_delete: "part_of rd0 rd \<Longrightarrow> part_of rd0 (AList.delete k rd)"
  by (auto simp: part_of_def missing_def)

lemma fold_deletes:
  "part_of rd0 rd \<Longrightarrow>
   part_of rd0 (fold (\<lambda>c rd. if P c then rd else AList.delete (f c) rd) cs rd) \<and>
   missing (fold (\<lambda>c rd. if P c then rd else AList.delete (f c) rd) cs rd) = missing rd \<union> f ` {c \<in> set cs. \<not> P c}"
  by (induction cs arbitrary: rd) (auto simp: part_of_delete)

text \<open>The names of the nodes that feed the node, over any number of connections, by a connection
  that is not a main connection.\<close>

definition sub_names :: "DirectedGraph \<Rightarrow> INode \<Rightarrow> string set" where
  "sub_names g n = (\<lambda>c. n_name (gc_from c)) ` {c \<in> conns_of g. (gc_to c, n) \<in> (edges g)\<^sup>* \<and> gc_type c \<noteq> Main}"

lemma getParentConnections_set:
  assumes "wf_graph g" and "nodeExists g n"
  obtains pcs where "getParentConnections g n = Inr pcs" and "set pcs = {c \<in> conns_of g. (gc_to c, n) \<in> (edges g)\<^sup>*}"
proof -
  obtain pcs where "getParentConnections g n = Inr pcs" "set pcs = (conn_step g)\<^sup>* `` {c \<in> conns_of g. gc_to c = n}"
    using parents_search.search_total assms by blast
  moreover have "(conn_step g)\<^sup>* `` {c \<in> conns_of g. gc_to c = n} = {c \<in> conns_of g. (gc_to c, n) \<in> (edges g)\<^sup>*}"
    using conn_step_reaches reaches_conn_step by blast
  ultimately show ?thesis using that by simp
qed

lemma cleanNode_missing:
  assumes "wf_graph g" and "nodeExists g n" and "part_of rd0 rd"
  shows "\<exists>rd'. cleanNode g n rd = Inr rd' \<and> part_of rd0 rd' \<and> missing rd' = missing rd \<union> insert (n_name n) (sub_names g n)"
proof -
  obtain pcs where "getParentConnections g n = Inr pcs" "set pcs = {c \<in> conns_of g. (gc_to c, n) \<in> (edges g)\<^sup>*}"
    using getParentConnections_set [OF assms(1,2)] .
  then show ?thesis
    using fold_deletes [OF part_of_delete [OF assms(3)], of "\<lambda>c. gc_type c = Main" "\<lambda>c. n_name (gc_from c)" pcs "n_name n"]
    by (auto simp: cleanNode_def sub_names_def)
qed

definition cleaned_names :: "DirectedGraph \<Rightarrow> INode \<Rightarrow> string set" where
  "cleaned_names g n = (\<Union>m \<in> (edges g)\<^sup>* `` {n}. insert (n_name m) (sub_names g m))"

lemma edges_rtrancl_exists: "wf_graph g \<Longrightarrow> nodeExists g n \<Longrightarrow> (n, m) \<in> (edges g)\<^sup>* \<Longrightarrow> nodeExists g m"
  by (auto elim: rtranclE dest: edges_to_exists)

lemma clean_one:
  assumes g: "wf_graph g" and n: "nodeExists g n" and rd: "part_of rd0 rd"
  shows "\<exists>rd'. (let rd = AList.delete (n_name n) rd in res_bind (getChildren g n) (\<lambda>children.
      res_fold (cleanNode g) (n # children) rd)) = Inr rd' \<and> part_of rd0 rd' \<and> missing rd' = missing rd \<union> cleaned_names g n"
proof -
  obtain ch where ch: "getChildren g n = Inr ch" "set ch = (edges g)\<^sup>* `` (edges g `` {n})"
    using children_search.search_total g n by blast
  have all: "set (n # ch) = (edges g)\<^sup>* `` {n}"
    unfolding list.set ch(2) by (auto elim: converse_rtranclE intro: converse_rtrancl_into_rtrancl)
  have "\<exists>rd'. res_fold (cleanNode g) (n # ch) (AList.delete (n_name n) rd) = Inr rd' \<and> part_of rd0 rd' \<and>
      missing rd' = missing (AList.delete (n_name n) rd) \<union> (\<Union>m \<in> set (n # ch). insert (n_name m) (sub_names g m))"
  proof (rule res_fold_union [where P = "part_of rd0"])
    show "\<exists>s'. cleanNode g x s = Inr s' \<and> part_of rd0 s' \<and> missing s' = missing s \<union> insert (n_name x) (sub_names g x)"
      if "x \<in> set (n # ch)" "part_of rd0 s" for x s
      using cleanNode_missing [OF g _ that(2)] edges_rtrancl_exists [OF g n] that(1) unfolding all by blast
  qed (rule part_of_delete [OF rd])
  moreover have "insert (n_name n) (missing rd) \<union> cleaned_names g n = missing rd \<union> cleaned_names g n"
    by (auto simp: cleaned_names_def)
  ultimately show ?thesis using ch(1) unfolding all cleaned_names_def by (simp add: Let_def)
qed



definition ex_upstream_agent :: DirectedGraph where
  "ex_upstream_agent =
     (let m = ex_node 0 False ''Model''; a = ex_node 1 False ''Agent''; b = ex_node 2 False ''Set''
      in case addConnections [(ex_conn m a)\<lparr>ci_type := Some ''ai_languageModel''\<rparr>, ex_conn a b] (addNodes [m, a, b] new_graph) of
           Inl _ \<Rightarrow> new_graph | Inr g \<Rightarrow> g)"

text \<open>
  Cleaning a node also deletes the data of the sub-nodes of nodes upstream of it, whose own data
  is kept: with a model that feeds an agent and the agent followed by a third node, cleaning the
  third node deletes the data of the model.
\<close>

lemma cleanRunData_upstream_sub_node:
  "wf_graph ex_upstream_agent \<and>
   (case cleanRunData [(''Model'', [ex_task emptyItemData]), (''Agent'', [ex_task emptyItemData]), (''Set'', [ex_task emptyItemData])]
      ex_upstream_agent [ex_node 2 False ''Set''] of
     Inl _ \<Rightarrow> False | Inr rd' \<Rightarrow> map fst rd' = [''Agent''])"
  by code_simp

section \<open>The next execution index\<close>

definition previousIndices :: "IRunData \<Rightarrow> nat list" where
  "previousIndices runData = List.map_filter t_executionIndex (concat (map snd runData))"

definition getNextExecutionIndex :: "IRunData \<Rightarrow> nat" where
  "getNextExecutionIndex runData =
     (if runData = [] then 0
      else if previousIndices runData = [] then 0
      else Max (set (previousIndices runData)) + 1)"

lemma set_previousIndices:
  "set (previousIndices rd) = {i. \<exists>nm tasks task. (nm, tasks) \<in> set rd \<and> task \<in> set tasks \<and> t_executionIndex task = Some i}"
  by (force simp: previousIndices_def map_filter_def)

text \<open>
  The next execution index is larger than every index in the run data, and it is the smallest
  such number.
\<close>

lemma getNextExecutionIndex_least:
  "getNextExecutionIndex rd \<le> k \<longleftrightarrow>
     (\<forall>nm tasks task i. (nm, tasks) \<in> set rd \<longrightarrow> task \<in> set tasks \<longrightarrow> t_executionIndex task = Some i \<longrightarrow> i < k)"
proof -
  have "getNextExecutionIndex rd \<le> k \<longleftrightarrow> (\<forall>i \<in> set (previousIndices rd). i < k)"
  proof (cases "previousIndices rd = []")
    case True
    then show ?thesis by (simp add: getNextExecutionIndex_def)
  next
    case False
    then have "rd \<noteq> []" by (auto simp: previousIndices_def map_filter_def)
    moreover have "Suc (Max (set (previousIndices rd))) \<le> k \<longleftrightarrow> (\<forall>i \<in> set (previousIndices rd). i < k)"
      using False by (simp add: Suc_le_eq)
    ultimately show ?thesis using False by (simp add: getNextExecutionIndex_def)
  qed
  then show ?thesis unfolding set_previousIndices by blast
qed

lemma getNextExecutionIndex_least_witness:
  "getNextExecutionIndex ex_run_data \<le> 1 \<and> \<not> getNextExecutionIndex ex_run_data \<le> 0"
proof -
  have "list_all (\<lambda>(nm, tasks). list_all (\<lambda>task. t_executionIndex task = Some 0) tasks) ex_run_data" by code_simp
  then have a: "\<forall>nm tasks task i. (nm, tasks) \<in> set ex_run_data \<longrightarrow> task \<in> set tasks \<longrightarrow> t_executionIndex task = Some i \<longrightarrow> i < 1"
    by (auto simp: list_all_iff)
  have "getNextExecutionIndex ex_run_data \<noteq> 0" by code_simp
  with getNextExecutionIndex_least [of ex_run_data 1] a show ?thesis by simp
qed

section \<open>Start nodes in cycles\<close>

definition cycleStart :: "DirectedGraph \<Rightarrow> INode \<Rightarrow> INode \<Rightarrow> INode list \<Rightarrow> INode list \<Rightarrow> INode list result" where
  "cycleStart graph trigger startNode cycle newStartNodes =
     (if startNode \<in> set cycle then
        res_bind (depthFirstSearch graph trigger (\<lambda>node. node \<in> set cycle)) (\<lambda>firstNode.
          case firstNode of
            None \<Rightarrow> Inl AssertionError
          | Some f \<Rightarrow> Inr (set_add f (removeAll startNode newStartNodes)))
      else Inr newStartNodes)"

definition handleCycles :: "DirectedGraph \<Rightarrow> INode list \<Rightarrow> INode \<Rightarrow> INode list result" where
  "handleCycles graph startNodes trigger =
     res_bind (getStronglyConnectedComponents graph) (\<lambda>components.
       let cycles = filter (\<lambda>cycle. length cycle \<ge> 1) components
       in if cycles = [] then Inr startNodes
          else res_fold (\<lambda>startNode. res_fold (cycleStart graph trigger startNode) cycles) startNodes startNodes)"

text \<open>The component of the start node is unique, and the search for its first node finds one.\<close>

definition same_scc :: "DirectedGraph \<Rightarrow> INode \<Rightarrow> INode \<Rightarrow> bool" where
  "same_scc g a b \<longleftrightarrow> (a, b) \<in> (edges g)\<^sup>* \<and> (b, a) \<in> (edges g)\<^sup>*"

lemma depthFirstSearch_first:
  assumes "wf_graph g" and "nodeExists g t" and "(t, s) \<in> (edges g)\<^sup>*" and "fn s"
  obtains m where "depthFirstSearch g t fn = Inr (Some m)" and "fn m" and "(t, m) \<in> (edges g)\<^sup>*"
proof -
  obtain found seen where run: "depthFirstSearchLoop g fn [t] [] = Inr (found, seen)"
    using depthFirstSearchLoop_returns [OF assms(1), of "[t]" fn "[]"] assms(2) by auto
  note A = depthFirstSearchLoop_correct [OF run]
  show ?thesis
  proof (cases found)
    case None
    with A have cl: "t \<in> set seen" "\<forall>x \<in> set seen. \<not> fn x \<and> edges g `` {x} \<subseteq> set seen" by auto
    from assms(3) have "s \<in> set seen" by induction (use cl in auto)
    with cl assms(4) show ?thesis by blast
  next
    case (Some m)
    have "depthFirstSearch g t fn = Inr (Some m)"
      unfolding depthFirstSearch_def depthFirstSearchRecursive_def run Some by simp
    with A Some that show ?thesis by auto
  qed
qed

text \<open>
  The first node of the component of a node, or the node itself when no component holds it.
\<close>

definition cycle_rep :: "DirectedGraph \<Rightarrow> INode \<Rightarrow> INode list list \<Rightarrow> INode \<Rightarrow> INode" where
  "cycle_rep g t cycles s =
     (case find (\<lambda>C. s \<in> set C) cycles of
        None \<Rightarrow> s
      | Some C \<Rightarrow> (case depthFirstSearch g t (\<lambda>n. n \<in> set C) of Inr (Some m) \<Rightarrow> m | _ \<Rightarrow> s))"

lemma cycle_loop_skip:
  "\<forall>C \<in> set cycles. s \<notin> set C \<Longrightarrow> res_fold (cycleStart g t s) cycles ns = Inr ns"
  by (induction cycles) (auto simp: cycleStart_def)

lemma cycle_loop:
  assumes "wf_graph g" and "nodeExists g t" and "(t, s) \<in> (edges g)\<^sup>*" and "distinct (concat cycles)"
    and "s \<in> set ns"
  shows "\<exists>ns'. res_fold (cycleStart g t s) cycles ns = Inr ns' \<and>
    set ns' = insert (cycle_rep g t cycles s) (set ns - {s})"
  using assms(4)
proof (induction cycles)
  case Nil
  with assms(5) show ?case by (auto simp: cycle_rep_def)
next
  case (Cons C cycles)
  show ?case
  proof (cases "s \<in> set C")
    case False
    with Cons show ?thesis by (auto simp: cycleStart_def cycle_rep_def)
  next
    case True
    obtain m where m: "depthFirstSearch g t (\<lambda>n. n \<in> set C) = Inr (Some m)"
      using depthFirstSearch_first [OF assms(1-3), of "\<lambda>n. n \<in> set C"] True by blast
    have "\<forall>D \<in> set cycles. s \<notin> set D" using Cons.prems True by auto
    then have "res_fold (cycleStart g t s) (C # cycles) ns = Inr (set_add m (removeAll s ns))"
      using True m by (simp add: cycleStart_def cycle_loop_skip)
    moreover have "cycle_rep g t (C # cycles) s = m" using True m by (simp add: cycle_rep_def)
    ultimately show ?thesis by auto
  qed
qed

lemma cycle_rep_props:
  assumes "wf_graph g" and "nodeExists g t" and "(t, s) \<in> (edges g)\<^sup>*" and "distinct (concat cycles)"
    and "\<And>C. C \<in> set cycles \<Longrightarrow> mutual g C"
  shows "(t, cycle_rep g t cycles s) \<in> (edges g)\<^sup>* \<and> same_scc g s (cycle_rep g t cycles s) \<and>
    cycle_rep g t cycles (cycle_rep g t cycles s) = cycle_rep g t cycles s"
proof (cases "find (\<lambda>C. s \<in> set C) cycles")
  case None
  then show ?thesis using assms(3) by (simp add: cycle_rep_def same_scc_def)
next
  case (Some C)
  then have C: "C \<in> set cycles" "s \<in> set C" by (auto simp: find_Some_iff)
  from depthFirstSearch_first [OF assms(1-3), of "\<lambda>n. n \<in> set C"] C(2) obtain m where
    m: "depthFirstSearch g t (\<lambda>n. n \<in> set C) = Inr (Some m)" "m \<in> set C" "(t, m) \<in> (edges g)\<^sup>*" by auto
  have unique: "D = C" if "D \<in> set cycles" "m \<in> set D" for D
    using that m(2) C(1) assms(4) by (auto simp: distinct_concat_iff)
  have "find (\<lambda>D. m \<in> set D) cycles = Some C"
  proof -
    have "find (\<lambda>D. m \<in> set D) cycles \<noteq> None" using C(1) m(2) by (auto simp: find_None_iff)
    then obtain D where D: "find (\<lambda>D. m \<in> set D) cycles = Some D" by auto
    then have "D \<in> set cycles" "m \<in> set D" by (auto simp: find_Some_iff)
    with D unique show ?thesis by simp
  qed
  moreover have "same_scc g s m" using assms(5) [OF C(1)] C(2) m(2) by (simp add: mutual_def same_scc_def)
  ultimately show ?thesis using Some m by (simp add: cycle_rep_def)
qed

lemma handle_loop:
  assumes g: "wf_graph g" and t: "nodeExists g t" and cyc: "distinct (concat cycles)" "\<And>C. C \<in> set cycles \<Longrightarrow> mutual g C"
  shows "distinct (done @ todo) \<Longrightarrow> (\<And>s. s \<in> set (done @ todo) \<Longrightarrow> (t, s) \<in> (edges g)\<^sup>*) \<Longrightarrow>
    set ns = cycle_rep g t cycles ` set done \<union> set todo \<Longrightarrow>
    \<exists>ns'. res_fold (\<lambda>s. res_fold (cycleStart g t s) cycles) todo ns = Inr ns' \<and>
      set ns' = cycle_rep g t cycles ` set (done @ todo)"
proof (induction todo arbitrary: "done" ns)
  case Nil
  then show ?case by simp
next
  case (Cons s todo)
  let ?rep = "cycle_rep g t cycles"
  have reach: "(t, x) \<in> (edges g)\<^sup>*" if "x \<in> set done \<or> x = s \<or> x \<in> set todo" for x using that Cons.prems(2) by auto
  have "s \<in> set ns" using Cons.prems(3) by simp
  from cycle_loop [OF g t reach cyc(1) this] obtain ns1 where
    ns1: "res_fold (cycleStart g t s) cycles ns = Inr ns1" "set ns1 = insert (?rep s) (set ns - {s})" by blast
  have "?rep s = s" if "s \<in> ?rep ` set done"
  proof -
    from that obtain x where "x \<in> set done" "s = ?rep x" by blast
    with cycle_rep_props [OF g t reach cyc, of x] show ?thesis by simp
  qed
  then have "set ns1 = ?rep ` set (done @ [s]) \<union> set todo"
    using Cons.prems(1,3) by (cases "s \<in> ?rep ` set done") (auto simp: ns1(2))
  with Cons.IH [of "done @ [s]" ns1] Cons.prems(1,2) ns1(1) show ?case by simp
qed

text \<open>
  \<open>handleCycles\<close> fails no assertion when the trigger reaches every start node. Every start
  node is then represented by a new start node that the trigger reaches and that lies with it on a
  cycle or is the same node, and every new start node represents an old one.
\<close>

lemma handleCycles_represents:
  assumes "wf_graph g" and "nodeExists g t" and "distinct starts" and "\<forall>s \<in> set starts. (t, s) \<in> (edges g)\<^sup>*"
  shows "\<exists>r. handleCycles g starts t = Inr r \<and>
    (\<forall>s \<in> set starts. \<exists>m \<in> set r. (t, m) \<in> (edges g)\<^sup>* \<and> same_scc g s m) \<and>
    (\<forall>m \<in> set r. \<exists>s \<in> set starts. same_scc g s m)"
proof -
  obtain comps where comps: "getStronglyConnectedComponents g = Inr comps" "distinct (concat comps)"
    "\<forall>C \<in> set comps. C \<noteq> [] \<and> mutual g C" using components_sound [OF assms(1)] by blast
  then have all: "filter (\<lambda>C. length C \<ge> 1) comps = comps"
    by (intro filter_True) (auto simp: Suc_le_eq)
  have mut: "\<And>C. C \<in> set comps \<Longrightarrow> mutual g C" using comps(3) by blast
  have "\<exists>r. res_fold (\<lambda>s. res_fold (cycleStart g t s) comps) starts starts = Inr r \<and>
      set r = cycle_rep g t comps ` set starts"
    using handle_loop [OF assms(1,2) comps(2) mut, of "[]" starts starts] assms(3,4) by simp
  moreover have "set starts = cycle_rep g t comps ` set starts" if "comps = []"
    using that by (simp add: cycle_rep_def)
  ultimately obtain r where run: "handleCycles g starts t = Inr r" and r: "set r = cycle_rep g t comps ` set starts"
    unfolding handleCycles_def comps(1) res_bind.simps all Let_def by (cases "comps = []") auto
  have "(t, cycle_rep g t comps s) \<in> (edges g)\<^sup>* \<and> same_scc g s (cycle_rep g t comps s)" if "s \<in> set starts" for s
    using cycle_rep_props [OF assms(1,2) _ comps(2) mut, of s] assms(4) that by blast
  with run r show ?thesis by auto
qed

lemma handleCycles_represents_witness:
  "wf_graph ex_cycle \<and> nodeExists ex_cycle (ex_node 0 False ''A'') \<and>
   handleCycles ex_cycle [ex_node 2 False ''C''] (ex_node 0 False ''A'') = Inr [ex_node 1 False ''B''] \<and>
   same_scc ex_cycle (ex_node 2 False ''C'') (ex_node 1 False ''B'')"
proof -
  let ?A = "ex_node 0 False ''A''" let ?B = "ex_node 1 False ''B''" let ?C = "ex_node 2 False ''C''"
  have h: "wf_graph ex_cycle" "nodeExists ex_cycle ?A" "distinct [?C]" by code_simp+
  have "(?A, ?B) \<in> edges ex_cycle" "(?B, ?C) \<in> edges ex_cycle" by code_simp+
  then have r: "\<forall>s \<in> set [?C]. (?A, s) \<in> (edges ex_cycle)\<^sup>*" by (auto intro: converse_rtrancl_into_rtrancl)
  have "handleCycles ex_cycle [?C] ?A = Inr [?B]" by code_simp
  with h handleCycles_represents [OF h r] show ?thesis by auto
qed

text \<open>The filter in \<open>handleCycles\<close> removes nothing, since no component is empty.\<close>

lemma handleCycles_filter_trivial:
  assumes "wf_graph g" and "getStronglyConnectedComponents g = Inr comps"
  shows "filter (\<lambda>cycle. length cycle \<ge> 1) comps = comps"
  using components_sound [OF assms(1)] assms(2) by (auto simp: Suc_le_eq intro!: filter_True)

end
