(* ===== verification/Engine_Run.thy ===== *)
theory Engine_Run
  imports Engine_Items Engine_Frame Run_Data
begin

text \<open>
  The execution loop of \<open>processRunExecutionData\<close> in \<open>workflow-execute.ts\<close> as a step function: one
  entry is taken from the stack, its node is run, the result is recorded and handed on. What the engine
  calls outside itself (the nodes' code, the evaluation of expressions, the data proxy, the sorting of the
  JavaScript engine) is the record \<open>Ports\<close>. Hooks, timestamps, hints, telemetry, binary data and the
  tracking of credentials are left out. A step whose node answers with requests for other nodes ends in
  \<open>AwaitsRequest\<close>; \<open>Engine_Requests\<close> continues from there.
\<close>

section \<open>Checking the inputs\<close>

fun ensureInputs ::
    "string option \<Rightarrow> Workflow \<Rightarrow> IExecuteData \<Rightarrow> nat list \<Rightarrow> RunExecutionData \<Rightarrow> bool \<times> RunExecutionData" where
  "ensureInputs executionOrder w executionData [] x = (True, x)"
| "ensureInputs executionOrder w executionData (connectionIndex # is) x =
     (if fst (getHighestNode w (n_name (e_node executionData)) (Some connectionIndex) []) = [] then (True, x)
      else case map_of (e_data executionData) Main of
        None \<Rightarrow> (False, x\<lparr>x_nodeExecutionStack := x_nodeExecutionStack x @ [executionData]\<rparr>)
      | Some main \<Rightarrow>
          if isLegacyExecutionOrder executionOrder \<and>
             (length main < connectionIndex \<or> connectionIndex < length main \<and> main ! connectionIndex = None)
          then (False, x\<lparr>x_nodeExecutionStack := x_nodeExecutionStack x @ [executionData]\<rparr>)
          else ensureInputs executionOrder w executionData is x)"

definition ensureInputData :: "string option \<Rightarrow> Workflow \<Rightarrow> IExecuteData \<Rightarrow> RunExecutionData \<Rightarrow> bool \<times> RunExecutionData" where
  "ensureInputData executionOrder w executionData x =
     ensureInputs executionOrder w executionData [0 ..< numberOfInputs w (n_name (e_node executionData))] x"

section \<open>Running a node\<close>

record RunNodeType = EngineNodeType +
  rt_execute :: bool
  rt_webhook :: bool
  rt_supplyData :: bool
  rt_requestDefaults :: bool
  rt_customOperation :: "INode \<Rightarrow> bool"

record Ports =
  po_nodeTypes :: "string \<Rightarrow> nat \<Rightarrow> RunNodeType option"
  po_execute :: "INode \<Rightarrow> nat \<Rightarrow> nat \<Rightarrow> INodeExecutionData list \<Rightarrow> ITaskDataConnections \<Rightarrow> attempt"
  po_waitTill :: "INode \<Rightarrow> nat \<Rightarrow> bool"
  po_evaluate :: "INode \<Rightarrow> string \<Rightarrow> requiredInputs option"
  po_arraySort :: "(pending \<Rightarrow> pending \<Rightarrow> int) \<Rightarrow> pending list \<Rightarrow> pending list"
  po_getPairedItem :: "string \<Rightarrow> ISourceData \<Rightarrow> IPairedItemData \<Rightarrow> INodeExecutionData option"
  po_mainOutputs :: "INode \<Rightarrow> nat"
  po_asSource :: "json \<Rightarrow> ISourceData"
  po_errorObject :: "js_error \<Rightarrow> json"

record Engine =
  g_queue :: RunExecutionData
  g_pinData :: "IPinData option"
  g_lastNodeExecuted :: "string option"
  g_error :: "json option"
  g_waitTill :: bool
  g_runNodeFilter :: "string list option"
  g_destinationNode :: "string option"
  g_executionIndex :: nat
  g_lastExecutionTry :: string

text \<open>An error that is thrown again: only node errors keep their properties, any other is wrapped with its message.\<close>

definition rethrowNodeError :: "json \<Rightarrow> attempt" where
  "rethrowNodeError err =
     Throws (NodeError
       (if json_prop ''name'' err \<in> {Some (JStr ''NodeOperationError''), Some (JStr ''NodeApiError'')} then err
        else JObj [(''message'', or_default (JStr '''') (json_prop ''message'' err))]))"

text \<open>A resumed node whose sub-workflow failed.\<close>

definition resumedError :: "INode \<Rightarrow> ITaskDataConnections \<Rightarrow> json \<Rightarrow> attempt" where
  "resumedError node inputData resumeError =
     (if continuesOnError node then
        (let firstInput = (case map_of inputData Main of Some (Some items # _) \<Rightarrow> items | _ \<Rightarrow> []);
             pairs = map (\<lambda>item. \<lparr>pi_item = item, pi_input = None, pi_sourceOverwrite = None\<rparr>) [0 ..< length firstInput]
         in Returned (Some [Some [\<lparr>i_json = error_json (json_prop ''message'' resumeError), i_error = None,
              i_pairedItem = Some (PairedMany pairs)\<rparr>]]))
      else rethrowNodeError resumeError)"

definition rethrowLastNodeError :: "Engine \<Rightarrow> INode \<Rightarrow> json option" where
  "rethrowLastNodeError g node = (if g_lastNodeExecuted g = Some (n_name node) then g_error g else None)"

definition runNode :: "Ports \<Rightarrow> string option \<Rightarrow> bool \<Rightarrow> Engine \<Rightarrow> IExecuteData \<Rightarrow> nat \<Rightarrow> nat \<Rightarrow> attempt" where
  "runNode P executionOrder manual g executionData runIndex call =
     (let node = e_node executionData; inputData = e_data executionData
      in if truthy_metadata executionData ''resumeError''
         then resumedError node inputData (or_default JNull (metadata_of executionData ''resumeError''))
         else if n_disabled node = Some True then Returned (handleDisabledNode inputData)
         else case po_nodeTypes P (n_type node) (n_typeVersion node) of
           None \<Rightarrow> Throws (EngineError TypeError)
         | Some nodeType \<Rightarrow>
            (let runsCode = rt_execute nodeType \<or> rt_customOperation nodeType node;
                 readsInput = runsCode \<or> (\<not> nt_poll nodeType \<and> \<not> nt_trigger nodeType \<and> \<not> rt_webhook nodeType)
             in case prepareConnectionInputData executionOrder readsInput inputData of
                  None \<Rightarrow> Returned None
                | Some connectionInputData \<Rightarrow>
                   (case rethrowLastNodeError g node of
                      Some e \<Rightarrow> rethrowNodeError e
                    | None \<Rightarrow>
                       (let input = handleExecuteOnce node inputData;
                            execute = po_execute P node runIndex call connectionInputData input;
                            passThrough = Returned (map_of input Main)
                        in if runsCode then execute
                           else if nt_poll nodeType then (if manual then execute else passThrough)
                           else if nt_trigger nodeType then (if manual then execute else passThrough)
                           else if rt_supplyData nodeType
                           then Throws (EngineError (UnexpectedError ''supplyData without execute''))
                           else if rt_webhook nodeType \<and> \<not> rt_requestDefaults nodeType then passThrough
                           else execute))))"

text \<open>The tries of one entry; pinned data takes the place of running the node.\<close>

definition pinnedItems :: "Engine \<Rightarrow> INode \<Rightarrow> INodeExecutionData list option" where
  "pinnedItems g node =
     (if is_disabled node then None else case g_pinData g of None \<Rightarrow> None | Some pin \<Rightarrow> map_of pin (n_name node))"

definition tryEntry :: "Ports \<Rightarrow> string option \<Rightarrow> bool \<Rightarrow> Engine \<Rightarrow> IExecuteData \<Rightarrow> nat \<Rightarrow> tried" where
  "tryEntry P executionOrder manual g executionData runIndex =
     (let node = e_node executionData
      in case pinnedItems g node of
           Some items \<Rightarrow>
             (case res_bind (assignPairedItems (Some [Some items]) executionData) (alwaysOutput executionData) of
                Inl e \<Rightarrow> Failed (Some (EngineError e)) | Inr out \<Rightarrow> Finished out False)
         | None \<Rightarrow>
             fst (tryLoop (runNode P executionOrder manual g executionData runIndex)
               (finishOutputs (po_getPairedItem P) (po_mainOutputs P node) executionData)
               (nat (maxTries node (metadata_of executionData ''resumeError'' \<noteq> None))) 0 0 None))"

section \<open>Recording a run\<close>

text \<open>\<open>Object.assign(currentTaskData, taskData)\<close>: \<open>taskData\<close> has a property for the error only if there was one,
  and one for the data only if some were produced.\<close>

definition assignTask :: "ITaskData \<Rightarrow> ITaskData \<Rightarrow> ITaskData" where
  "assignTask current task =
     task\<lparr>t_data := (case t_data task of None \<Rightarrow> t_data current | Some d \<Rightarrow> Some d),
          t_error := (case t_error task of None \<Rightarrow> t_error current | Some e \<Rightarrow> Some e)\<rparr>"

definition recordTask :: "string \<Rightarrow> nat \<Rightarrow> ITaskData \<Rightarrow> RunExecutionData \<Rightarrow> RunExecutionData" where
  "recordTask name runIndex task x =
     (let tasks = or_default [] (map_of (x_runData x) name)
      in x\<lparr>x_runData := obj_set name
           (if runIndex < length tasks then tasks[runIndex := assignTask (tasks ! runIndex) task] else tasks @ [task]) (x_runData x)\<rparr>)"

definition outputLog :: "INode \<Rightarrow> outputs \<Rightarrow> ITaskDataConnections" where
  "outputLog node outs = [(or_default Main (n_rewireOutputLogTo node), outs)]"

datatype step_result =
    Idle
  | Next Engine
  | Halted Engine
  | AwaitsRequest Engine
  | Crashed js_error

definition task_of :: "IExecuteData \<Rightarrow> nat \<Rightarrow> string \<Rightarrow> ITaskDataConnections option \<Rightarrow> json option \<Rightarrow> ITaskData" where
  "task_of executionData executionIndex status data err =
     \<lparr>t_executionIndex = Some executionIndex,
      t_source = (case e_source executionData of None \<Rightarrow> [] | Some s \<Rightarrow> or_default [] (map_of s Main)),
      t_executionStatus = Some status, t_data = data, t_error = err,
      t_metadata = or_default [] (e_metadata executionData)\<rparr>"

text \<open>What a failed node that the workflow continues after hands on.\<close>

definition continuedData :: "IExecuteData \<Rightarrow> json \<Rightarrow> outputs option" where
  "continuedData executionData err =
     (if n_rewireOutputLogTo (e_node executionData) = Some AiTool
      then Some [Some [emptyItem\<lparr>i_json := error_json (json_prop ''message'' err)\<rparr>]]
      else case map_of (e_data executionData) Main of Some (Some items # _) \<Rightarrow> Some [Some items] | _ \<Rightarrow> None)"

definition continuesAfter :: "INode \<Rightarrow> bool" where
  "continuesAfter node \<longleftrightarrow> continuesOnError node \<or>
     n_rewireOutputLogTo node = Some AiTool \<and> n_onError node \<noteq> Some ''stopWorkflow''"

definition unshift :: "IExecuteData \<Rightarrow> RunExecutionData \<Rightarrow> RunExecutionData" where
  "unshift e x = x\<lparr>x_nodeExecutionStack := e # x_nodeExecutionStack x\<rparr>"

text \<open>Data was produced, or the error is passed over: record it and hand it on.\<close>

definition passOn ::
    "Ports \<Rightarrow> string option \<Rightarrow> Workflow \<Rightarrow> IExecuteData \<Rightarrow> nat \<Rightarrow> nat \<Rightarrow> json option \<Rightarrow> outputs \<Rightarrow> Engine \<Rightarrow> step_result" where
  "passOn P executionOrder w executionData runIndex executionIndex err nodeSuccessData g =
     (case mergeErrors nodeSuccessData of Inl e \<Rightarrow> Crashed e
      | Inr outs \<Rightarrow>
         (let node = e_node executionData; name = n_name node;
              status = (if err \<noteq> None then ''error'' else if g_waitTill g then ''waiting'' else ''success'');
              x = recordTask name runIndex (task_of executionData executionIndex status (Some (outputLog node outs)) err) (g_queue g)
          in if g_waitTill g then Halted (g\<lparr>g_queue := unshift executionData x\<rparr>)
             else if g_destinationNode g = Some name then Next (g\<lparr>g_queue := x\<rparr>)
             else case res_bind (addOutputs executionOrder (po_arraySort P) w name outs runIndex x)
                   (drainWaiting executionOrder (po_evaluate P)
                      (\<lambda>t v. map_option EngineNodeType.truncate (po_nodeTypes P t v)) w) of
                  Inl e \<Rightarrow> Crashed e
                | Inr x' \<Rightarrow> Next (g\<lparr>g_queue := x'\<rparr>)))"

definition failEntry ::
    "Ports \<Rightarrow> string option \<Rightarrow> Workflow \<Rightarrow> IExecuteData \<Rightarrow> nat \<Rightarrow> nat \<Rightarrow> json \<Rightarrow> Engine \<Rightarrow> step_result" where
  "failEntry P executionOrder w executionData runIndex executionIndex err g =
     (let node = e_node executionData
      in if continuesAfter node
         then (case continuedData executionData err of
                 None \<Rightarrow> Crashed UndefinedValue
               | Some outs \<Rightarrow> passOn P executionOrder w executionData runIndex executionIndex (Some err) outs g)
         else let data = (case n_rewireOutputLogTo node of None \<Rightarrow> None
                    | Some t \<Rightarrow> Some [(t, [Some [emptyItem\<lparr>i_json := error_json (json_prop ''message'' err)\<rparr>]])]);
                  x = recordTask (n_name node) runIndex (task_of executionData executionIndex ''error'' data (Some err)) (g_queue g)
              in Halted (g\<lparr>g_queue := unshift executionData x, g_error := Some err\<rparr>))"

text \<open>One turn of the loop.\<close>

definition entryRunIndex :: "RunExecutionData \<Rightarrow> IExecuteData \<Rightarrow> nat" where
  "entryRunIndex x executionData =
     (case e_runIndex executionData of Some i \<Rightarrow> i
      | None \<Rightarrow> length (or_default [] (map_of (x_runData x) (n_name (e_node executionData)))))"

definition errorObject :: "Ports \<Rightarrow> exec_error \<Rightarrow> json" where
  "errorObject P e = (case e of NodeError v \<Rightarrow> v | EngineError j \<Rightarrow> po_errorObject P j)"

definition runEntry :: "Ports \<Rightarrow> string option \<Rightarrow> bool \<Rightarrow> Workflow \<Rightarrow> IExecuteData \<Rightarrow> nat \<Rightarrow> nat \<Rightarrow> Engine \<Rightarrow> step_result" where
  "runEntry P executionOrder manual w executionData runIndex executionIndex g =
     (let node = e_node executionData;
          waits = (if pinnedItems g node = None then po_waitTill P node runIndex else g_waitTill g);
          ran = g\<lparr>g_lastNodeExecuted := Some (n_name node), g_waitTill := waits\<rparr>
      in case tryEntry P executionOrder manual g executionData runIndex of
           RequestMade \<Rightarrow> AwaitsRequest (g\<lparr>g_waitTill := waits\<rparr>)
         | Failed None \<Rightarrow> Crashed TypeError
         | Failed (Some e) \<Rightarrow> failEntry P executionOrder w executionData runIndex executionIndex (errorObject P e) ran
         | Finished None threw \<Rightarrow> if waits then Crashed TypeError else Next (if threw then ran else g)
         | Finished (Some outs) threw \<Rightarrow> passOn P executionOrder w executionData runIndex executionIndex None outs ran)"

definition engineStep :: "Ports \<Rightarrow> string option \<Rightarrow> bool \<Rightarrow> Workflow \<Rightarrow> Engine \<Rightarrow> step_result" where
  "engineStep P executionOrder manual w g =
     (case x_nodeExecutionStack (g_queue g) of [] \<Rightarrow> Idle
      | entry # rest \<Rightarrow>
         (let executionData = entry\<lparr>e_data := updatePairedItems (po_asSource P) entry\<rparr>;
              name = n_name (e_node entry);
              x = (g_queue g)\<lparr>x_nodeExecutionStack := rest\<rparr>;
              g1 = g\<lparr>g_queue := x, g_executionIndex := g_executionIndex g + 1\<rparr>;
              runIndex = entryRunIndex x entry;
              currentExecutionTry = name @ '':'' @ nat_str runIndex
          in if currentExecutionTry = g_lastExecutionTry g
             then Crashed (UserError ''Stopped execution because it seems to be in an endless loop'')
             else if (case g_runNodeFilter g of None \<Rightarrow> False | Some names \<Rightarrow> name \<notin> set names) then Next g1
             else let r = ensureInputData executionOrder w executionData x
                  in if \<not> fst r then Next (g1\<lparr>g_queue := snd r, g_lastExecutionTry := currentExecutionTry\<rparr>)
                     else runEntry P executionOrder manual w executionData runIndex (g_executionIndex g) g1))"

section \<open>Steps only record what they ran\<close>

lemma ensureInputs_runData: "x_runData (snd (ensureInputs order w ed is x)) = x_runData x"
  by (induction order w ed "is" x rule: ensureInputs.induct) (auto split: option.splits)

definition outcome :: "step_result \<Rightarrow> Engine option" where
  "outcome r = (case r of Next g \<Rightarrow> Some g | Halted g \<Rightarrow> Some g | AwaitsRequest g \<Rightarrow> Some g | Idle \<Rightarrow> None | Crashed _ \<Rightarrow> None)"

lemma outcome_simps [simp]:
  "outcome (Next g) = Some g" "outcome (Halted g) = Some g" "outcome (AwaitsRequest g) = Some g"
  "outcome Idle = None" "outcome (Crashed e) = None"
  by (simp_all add: outcome_def)

abbreviation run_data :: "Engine \<Rightarrow> IRunData" where
  "run_data g \<equiv> x_runData (g_queue g)"

text \<open>The run data after a run has been recorded.\<close>

definition recorded :: "string \<Rightarrow> nat \<Rightarrow> ITaskData \<Rightarrow> IRunData \<Rightarrow> IRunData" where
  "recorded name k task rd =
     (let tasks = or_default [] (map_of rd name)
      in obj_set name (if k < length tasks then tasks[k := assignTask (tasks ! k) task] else tasks @ [task]) rd)"

lemma recordTask_runData [simp]: "x_runData (recordTask name k task x) = recorded name k task (x_runData x)"
  by (simp add: recordTask_def recorded_def Let_def)

lemma unshift_runData [simp]: "x_runData (unshift e x) = x_runData x"
  by (simp add: unshift_def)

lemma task_of_index [simp]: "t_executionIndex (task_of ed i st d e) = Some i"
  by (simp add: task_of_def)

text \<open>\<open>g'\<close> has the same counter as \<open>g\<close> and one more run of the node, with the given index.\<close>

definition records :: "string \<Rightarrow> nat \<Rightarrow> Engine \<Rightarrow> Engine \<Rightarrow> bool" where
  "records name i g g' \<longleftrightarrow> g_executionIndex g' = g_executionIndex g \<and>
     (\<exists>k task. t_executionIndex task = Some i \<and> run_data g' = recorded name k task (run_data g))"

lemma passOn_records:
  assumes "outcome (passOn P order w ed k i err outs g) = Some g'"
  shows "records (n_name (e_node ed)) i g g'"
proof -
  obtain outs' where m: "mergeErrors outs = Inr outs'"
    using assms by (cases "mergeErrors outs") (simp_all add: passOn_def)
  define task where "task = task_of ed i (if err \<noteq> None then ''error'' else if g_waitTill g then ''waiting'' else ''success'')
    (Some (outputLog (e_node ed) outs')) err"
  define x where "x = recordTask (n_name (e_node ed)) k task (g_queue g)"
  have "g_executionIndex g' = g_executionIndex g \<and> run_data g' = x_runData x"
  proof (cases "g_waitTill g \<or> g_destinationNode g = Some (n_name (e_node ed))")
    case True
    with assms m show ?thesis by (auto simp: passOn_def Let_def x_def task_def)
  next
    case False
    let ?r = "res_bind (addOutputs order (po_arraySort P) w (n_name (e_node ed)) outs' k x)
      (drainWaiting order (po_evaluate P) (\<lambda>t v. map_option EngineNodeType.truncate (po_nodeTypes P t v)) w)"
    have p: "passOn P order w ed k i err outs g = (case ?r of Inl e \<Rightarrow> Crashed e | Inr x' \<Rightarrow> Next (g\<lparr>g_queue := x'\<rparr>))"
      using False m by (simp add: passOn_def Let_def x_def task_def)
    with assms obtain x' where x': "?r = Inr x'" and g': "g' = g\<lparr>g_queue := x'\<rparr>"
      by (cases ?r) (auto simp:)
    from keeps_run_data.hand_on_keeps [OF x' refl] have "x_runData x' = x_runData x" .
    with g' show ?thesis by simp
  qed
  then show ?thesis unfolding records_def by (intro conjI exI [of _ k] exI [of _ task]) (simp_all add: x_def task_def)
qed

lemma failEntry_records:
  assumes "outcome (failEntry P order w ed k i err g) = Some g'"
  shows "records (n_name (e_node ed)) i g g'"
proof (cases "continuesAfter (e_node ed)")
  case True
  with assms obtain outs where "outcome (passOn P order w ed k i (Some err) outs g) = Some g'"
    by (cases "continuedData ed err") (auto simp: failEntry_def Let_def)
  then show ?thesis by (rule passOn_records)
next
  case False
  with assms have "run_data g' = recorded (n_name (e_node ed)) k (task_of ed i ''error'' (case n_rewireOutputLogTo (e_node ed) of None \<Rightarrow> None
      | Some t \<Rightarrow> Some [(t, [Some [emptyItem\<lparr>i_json := error_json (json_prop ''message'' err)\<rparr>]])]) (Some err)) (run_data g)"
    "g_executionIndex g' = g_executionIndex g" by (auto simp: failEntry_def Let_def)
  then show ?thesis unfolding records_def by (metis task_of_index)
qed

lemma runEntry_records:
  assumes "outcome (runEntry P order manual w ed k i g) = Some g'"
  shows "records (n_name (e_node ed)) i g g' \<or> g_executionIndex g' = g_executionIndex g \<and> run_data g' = run_data g"
proof -
  let ?node = "e_node ed"
  let ?ran = "g\<lparr>g_lastNodeExecuted := Some (n_name ?node),
      g_waitTill := if pinnedItems g ?node = None then po_waitTill P ?node k else g_waitTill g\<rparr>"
  have ran: "records (n_name ?node) i g g'" if "records (n_name ?node) i ?ran g'" using that by (simp add: records_def)
  show ?thesis
  proof (cases "tryEntry P order manual g ed k")
    case (Finished out threw)
    show ?thesis
    proof (cases out)
      case None
      with Finished assms show ?thesis by (auto simp: runEntry_def Let_def split: if_splits)
    next
      case (Some outs)
      with Finished assms have "outcome (passOn P order w ed k i None outs ?ran) = Some g'"
        by (simp only: runEntry_def Let_def tried.case option.case)
      from ran [OF passOn_records [OF this]] show ?thesis by simp
    qed
  next
    case RequestMade
    then show ?thesis using assms by (auto simp: runEntry_def Let_def)
  next
    case (Failed e)
    show ?thesis
    proof (cases e)
      case None
      with Failed assms show ?thesis by (simp add: runEntry_def Let_def)
    next
      case (Some err)
      with Failed assms have "outcome (failEntry P order w ed k i (errorObject P err) ?ran) = Some g'"
        by (simp only: runEntry_def Let_def tried.case option.case)
      from ran [OF failEntry_records [OF this]] show ?thesis by simp
    qed
  qed
qed

lemma engineStep_effect:
  assumes "outcome (engineStep P order manual w g) = Some g'"
  shows "\<exists>entry rest. x_nodeExecutionStack (g_queue g) = entry # rest \<and> g_executionIndex g' = g_executionIndex g + 1 \<and>
    (run_data g' = run_data g \<or>
     (\<exists>k task. t_executionIndex task = Some (g_executionIndex g) \<and> run_data g' = recorded (n_name (e_node entry)) k task (run_data g)))"
proof -
  obtain entry rest where st: "x_nodeExecutionStack (g_queue g) = entry # rest"
    using assms by (cases "x_nodeExecutionStack (g_queue g)") (simp_all add: engineStep_def)
  let ?x = "(g_queue g)\<lparr>x_nodeExecutionStack := rest\<rparr>"
  let ?g = "g\<lparr>g_queue := ?x, g_executionIndex := g_executionIndex g + 1\<rparr>"
  let ?ed = "entry\<lparr>e_data := updatePairedItems (po_asSource P) entry\<rparr>"
  let ?e = "ensureInputData order w ?ed ?x"
  let ?k = "entryRunIndex ?x entry"
  have e: "x_runData (snd ?e) = run_data g" by (simp add: ensureInputData_def ensureInputs_runData)
  consider "g' = ?g" | l where "g' = ?g\<lparr>g_queue := snd ?e, g_lastExecutionTry := l\<rparr>"
    | "outcome (runEntry P order manual w ?ed ?k (g_executionIndex g) ?g) = Some g'"
    using assms st by (auto simp: engineStep_def Let_def split: if_splits option.splits)
  then show ?thesis
  proof cases
    case 3
    from runEntry_records [OF this] st show ?thesis by (auto simp: records_def)
  qed (use st e in auto)
qed


text \<open>A concrete engine: two nodes to run, each of which answers with one item, before a node that joins them.\<close>

definition ex_ports :: Ports where
  "ex_ports =
     \<lparr>po_nodeTypes = \<lambda>_ _. Some \<lparr>nt_name = ''t'', nt_group = [], nt_trigger = False, nt_poll = False,
        et_requiredInputs = None, et_inputs = 2,
        rt_execute = True, rt_webhook = False, rt_supplyData = False, rt_requestDefaults = False, rt_customOperation = \<lambda>_. False\<rparr>,
      po_execute = \<lambda>_ _ _ _ _. Returned (Some [Some [emptyItem]]), po_waitTill = \<lambda>_ _. False, po_evaluate = \<lambda>_ _. None,
      po_arraySort = \<lambda>_ xs. xs, po_getPairedItem = \<lambda>_ _ _. None, po_mainOutputs = \<lambda>_. 1,
      po_asSource = \<lambda>_. \<lparr>previousNode = [], previousNodeOutput = None, previousNodeRun = None\<rparr>, po_errorObject = \<lambda>_. JNull\<rparr>"

definition ex_start :: "nat \<Rightarrow> string \<Rightarrow> IExecuteData" where
  "ex_start r nm = \<lparr>e_node = plain_node r nm ''t'', e_data = emptyItemData, e_source = None, e_runIndex = None, e_metadata = None\<rparr>"

definition ex_engine :: Engine where
  "ex_engine = \<lparr>g_queue = ex_empty_state\<lparr>x_nodeExecutionStack := [ex_start 0 ''P'', ex_start 1 ''Q'']\<rparr>, g_pinData = None,
     g_lastNodeExecuted = None, g_error = None, g_waitTill = False, g_runNodeFilter = None, g_destinationNode = None,
     g_executionIndex = 0, g_lastExecutionTry = []\<rparr>"

definition ex_after :: "Engine \<Rightarrow> Engine" where
  "ex_after g = the (outcome (engineStep ex_ports (Some ''v1'') True ex_join g))"

lemma ex_after_Some:
  "outcome (engineStep ex_ports (Some ''v1'') True ex_join g) \<noteq> None \<Longrightarrow>
   outcome (engineStep ex_ports (Some ''v1'') True ex_join g) = Some (ex_after g)"
  by (auto simp: ex_after_def)

lemma ex_steps:
  "outcome (engineStep ex_ports (Some ''v1'') True ex_join ex_engine) = Some (ex_after ex_engine)"
  "outcome (engineStep ex_ports (Some ''v1'') True ex_join (ex_after ex_engine)) = Some (ex_after (ex_after ex_engine))"
  by (rule ex_after_Some, code_simp)+


section \<open>Execution indices\<close>

text \<open>Runs of the engine: any number of steps.\<close>

inductive engine_reaches :: "Ports \<Rightarrow> string option \<Rightarrow> bool \<Rightarrow> Workflow \<Rightarrow> Engine \<Rightarrow> Engine \<Rightarrow> bool"
  for P :: Ports and order :: "string option" and manual :: bool and w :: Workflow where
  start: "engine_reaches P order manual w g g"
| step: "engine_reaches P order manual w g h \<Longrightarrow> outcome (engineStep P order manual w h) = Some h' \<Longrightarrow>
    engine_reaches P order manual w g h'"

definition index_count :: "IRunData \<Rightarrow> nat \<Rightarrow> nat" where
  "index_count rd i = sum_list (map (\<lambda>p. count_list (map t_executionIndex (snd p)) (Some i)) rd)"

text \<open>Every index is used for at most one recorded run, and all are below the counter.\<close>

definition indices_ok :: "IRunData \<Rightarrow> nat \<Rightarrow> bool" where
  "indices_ok rd n \<longleftrightarrow> (\<forall>i. index_count rd i \<le> (if i < n then 1 else 0))"

lemma sum_update:
  "map_of m k = Some old \<Longrightarrow> sum_list (map (f \<circ> snd) (AList.update k v m)) + f old = sum_list (map (f \<circ> snd) m) + (f v :: nat)"
  by (induction m) auto

lemma sum_obj_set:
  assumes "f [] = 0"
  shows "sum_list (map (f \<circ> snd) (obj_set k v m)) + f (or_default [] (map_of m k)) = sum_list (map (f \<circ> snd) m) + (f v :: nat)"
proof (cases "map_of m k")
  case None
  then have "k \<notin> fst ` set m" by (simp add: map_of_eq_None_iff)
  then obtain xs ys where d: "m = xs @ ys" "obj_set k v m = xs @ (k, v) # ys" by (rule obj_set_fresh_decomp)
  have "f (or_default [] (map_of m k)) = 0" using None assms by simp
  then show ?thesis unfolding d(2) by (simp add: d(1))
next
  case (Some old)
  then have "k \<in> fst ` set m" using map_of_eq_None_iff [of m k] by auto
  with Some sum_update [OF Some, of f v] show ?thesis by (simp add: obj_set_def)
qed

lemma count_list_update: "k < length xs \<Longrightarrow> count_list (xs[k := y]) z \<le> count_list xs z + (if y = z then 1 else 0)"
proof (induction xs arbitrary: k)
  case (Cons x xs)
  show ?case
  proof (cases k)
    case (Suc j)
    with Cons show ?thesis using Cons.IH [of j] by simp
  qed simp
qed simp

lemma index_count_recorded:
  assumes "t_executionIndex task = Some j"
  shows "index_count (recorded name k task rd) i \<le> index_count rd i + (if i = j then 1 else 0)"
proof -
  let ?f = "\<lambda>tasks. count_list (map t_executionIndex tasks) (Some i)"
  let ?old = "or_default [] (map_of rd name)"
  let ?new = "if k < length ?old then ?old[k := assignTask (?old ! k) task] else ?old @ [task]"
  have "sum_list (map (?f \<circ> snd) (obj_set name ?new rd)) + ?f ?old = sum_list (map (?f \<circ> snd) rd) + ?f ?new"
    by (rule sum_obj_set) simp
  moreover have "?f ?new \<le> ?f ?old + (if i = j then 1 else 0)"
    using assms count_list_update [of k "map t_executionIndex ?old" "Some j" "Some i"]
    by (auto simp: map_update assignTask_def)
  ultimately show ?thesis by (simp add: index_count_def recorded_def Let_def comp_def)
qed

lemma engine_indices:
  assumes "engine_reaches P order manual w g h" and "indices_ok (run_data g) (g_executionIndex g)"
  shows "indices_ok (run_data h) (g_executionIndex h)"
  using assms
proof (induction rule: engine_reaches.induct)
  case (step g h h')
  from engineStep_effect [OF step.hyps(2)] have n: "g_executionIndex h' = g_executionIndex h + 1"
    and "run_data h' = run_data h \<or>
      (\<exists>nm k task. t_executionIndex task = Some (g_executionIndex h) \<and> run_data h' = recorded nm k task (run_data h))" by auto
  then have "index_count (run_data h') i \<le> index_count (run_data h) i + (if i = g_executionIndex h then 1 else 0)" for i
    using index_count_recorded [of _ "g_executionIndex h" _ _ "run_data h" i] by (elim disjE exE conjE) simp_all
  moreover have "index_count (run_data h) i \<le> (if i < g_executionIndex h then 1 else 0)" for i
    using step.IH [OF step.prems] unfolding indices_ok_def by blast
  ultimately have "index_count (run_data h') i \<le> (if i < g_executionIndex h then 1 else 0) + (if i = g_executionIndex h then 1 else 0)" for i
    using add_le_mono1 order_trans by meson
  then have "index_count (run_data h') i \<le> (if i < g_executionIndex h + 1 then 1 else 0)" for i
    by (rule order_trans) simp
  then show ?case unfolding indices_ok_def n by blast
qed

lemma index_count_previous: "index_count rd i \<noteq> 0 \<Longrightarrow> i < getNextExecutionIndex rd"
proof -
  assume "index_count rd i \<noteq> 0"
  then obtain p where p: "p \<in> set rd" "count_list (map t_executionIndex (snd p)) (Some i) \<noteq> 0"
    unfolding index_count_def sum_list_eq_0_iff by auto
  then obtain task where "task \<in> set (snd p)" "t_executionIndex task = Some i" by (auto simp: count_list_0_iff)
  with p(1) have i: "i \<in> set (previousIndices rd)" unfolding set_previousIndices by (metis (mono_tags, lifting) mem_Collect_eq prod.collapse)
  then have "i \<le> Max (set (previousIndices rd))" by simp
  moreover have "rd \<noteq> []" "previousIndices rd \<noteq> []" using p(1) i by auto
  ultimately show ?thesis by (simp add: getNextExecutionIndex_def)
qed

lemma unique_indices:
  assumes "engine_reaches P order manual w g h" and "g_executionIndex g = getNextExecutionIndex (run_data g)"
    and "\<forall>i. index_count (run_data g) i \<le> 1"
  shows "index_count (run_data h) i \<le> 1"
proof -
  have "index_count (run_data g) i = 0" if "i \<ge> g_executionIndex g" for i
    using index_count_previous [of "run_data g" i] that assms(2) by linarith
  with assms(3) have "indices_ok (run_data g) (g_executionIndex g)" by (simp add: indices_ok_def)
  from engine_indices [OF assms(1) this] have "index_count (run_data h) i \<le> (if i < g_executionIndex h then 1 else 0)"
    unfolding indices_ok_def by blast
  then show ?thesis by (rule order_trans) simp
qed



end
