(* ===== verification/Engine_Safety.thy ===== *)
theory Engine_Safety
  imports Engine_Run
begin

text \<open>
  Two invariants of whole executions, for any number of steps of the engine: only nodes of the run filter
  are executed, and the entries of the stack and the recorded runs always belong to nodes of the workflow.
\<close>

section \<open>The run filter\<close>

lemma passOn_filter: "outcome (passOn P order w ed k i err outs g) = Some g' \<Longrightarrow> g_runNodeFilter g' = g_runNodeFilter g"
  by (auto simp: passOn_def Let_def split: sum.splits if_splits)

lemma failEntry_filter: "outcome (failEntry P order w ed k i err g) = Some g' \<Longrightarrow> g_runNodeFilter g' = g_runNodeFilter g"
  by (auto simp: failEntry_def Let_def passOn_filter split: if_splits option.splits)

lemma runEntry_filter: "outcome (runEntry P order manual w ed k i g) = Some g' \<Longrightarrow> g_runNodeFilter g' = g_runNodeFilter g"
  by (auto simp: runEntry_def Let_def dest!: passOn_filter failEntry_filter split: tried.splits option.splits if_splits)

lemma engineStep_cases:
  assumes "outcome (engineStep P order manual w g) = Some g'"
  obtains entry rest where "x_nodeExecutionStack (g_queue g) = entry # rest"
    "g' = g\<lparr>g_queue := (g_queue g)\<lparr>x_nodeExecutionStack := rest\<rparr>, g_executionIndex := g_executionIndex g + 1\<rparr>"
  | entry rest l where "x_nodeExecutionStack (g_queue g) = entry # rest"
    "g' = g\<lparr>g_queue := snd (ensureInputData order w (entry\<lparr>e_data := updatePairedItems (po_asSource P) entry\<rparr>)
        ((g_queue g)\<lparr>x_nodeExecutionStack := rest\<rparr>)), g_executionIndex := g_executionIndex g + 1, g_lastExecutionTry := l\<rparr>"
  | entry rest where "x_nodeExecutionStack (g_queue g) = entry # rest"
    "case g_runNodeFilter g of None \<Rightarrow> True | Some names \<Rightarrow> n_name (e_node entry) \<in> set names"
    "outcome (runEntry P order manual w (entry\<lparr>e_data := updatePairedItems (po_asSource P) entry\<rparr>)
        (entryRunIndex ((g_queue g)\<lparr>x_nodeExecutionStack := rest\<rparr>) entry) (g_executionIndex g)
        (g\<lparr>g_queue := (g_queue g)\<lparr>x_nodeExecutionStack := rest\<rparr>, g_executionIndex := g_executionIndex g + 1\<rparr>)) = Some g'"
proof -
  obtain entry rest where st: "x_nodeExecutionStack (g_queue g) = entry # rest"
    using assms by (cases "x_nodeExecutionStack (g_queue g)") (simp_all add: engineStep_def)
  define x where "x = (g_queue g)\<lparr>x_nodeExecutionStack := rest\<rparr>"
  define ed where "ed = entry\<lparr>e_data := updatePairedItems (po_asSource P) entry\<rparr>"
  define current where "current = n_name (e_node entry) @ '':'' @ nat_str (entryRunIndex x entry)"
  define filtered where "filtered = (case g_runNodeFilter g of None \<Rightarrow> False | Some names \<Rightarrow> n_name (e_node entry) \<notin> set names)"
  let ?g = "g\<lparr>g_queue := x, g_executionIndex := g_executionIndex g + 1\<rparr>"
  have step: "engineStep P order manual w g =
      (if current = g_lastExecutionTry g then Crashed (UserError ''Stopped execution because it seems to be in an endless loop'')
       else if filtered then Next ?g
       else if \<not> fst (ensureInputData order w ed x) then Next (?g\<lparr>g_queue := snd (ensureInputData order w ed x), g_lastExecutionTry := current\<rparr>)
       else runEntry P order manual w ed (entryRunIndex x entry) (g_executionIndex g) ?g)"
    by (simp add: engineStep_def st Let_def x_def ed_def current_def filtered_def)
  consider "g' = ?g" | "g' = ?g\<lparr>g_queue := snd (ensureInputData order w ed x), g_lastExecutionTry := current\<rparr>"
    | "\<not> filtered" "outcome (runEntry P order manual w ed (entryRunIndex x entry) (g_executionIndex g) ?g) = Some g'"
    using assms unfolding step
    by (cases "current = g_lastExecutionTry g"; cases filtered; cases "fst (ensureInputData order w ed x)") simp_all
  then show thesis
  proof cases
    case 1
    then show ?thesis by (intro that(1) [OF st]) (simp add: x_def)
  next
    case 2
    then show ?thesis by (intro that(2) [OF st, of current]) (simp add: x_def ed_def)
  next
    case 3
    then show ?thesis by (intro that(3) [OF st]) (simp_all add: x_def ed_def filtered_def split: option.splits)
  qed
qed

lemma engineStep_filter:
  assumes "outcome (engineStep P order manual w g) = Some g'"
  shows "g_runNodeFilter g' = g_runNodeFilter g \<and>
    (\<forall>names nm. g_runNodeFilter g = Some names \<and> nm \<notin> set names \<longrightarrow> map_of (run_data g') nm = map_of (run_data g) nm)"
  using assms
proof (cases rule: engineStep_cases)
  case (2 entry rest l)
  then show ?thesis by (simp add: ensureInputData_def ensureInputs_runData)
next
  case (3 entry rest)
  show ?thesis
    using runEntry_filter [OF 3(3)] runEntry_records [OF 3(3)] 3(2)
    by (auto simp: records_def recorded_def Let_def map_of_obj_set split: option.splits)
qed simp

lemma engine_filter:
  assumes "engine_reaches P order manual w g h"
  shows "g_runNodeFilter h = g_runNodeFilter g \<and>
    (\<forall>names nm. g_runNodeFilter g = Some names \<and> nm \<notin> set names \<longrightarrow> map_of (run_data h) nm = map_of (run_data g) nm)"
  using assms
proof (induction rule: engine_reaches.induct)
  case (step g h h')
  then show ?case using engineStep_filter [OF step.hyps(2)] by auto
qed simp

section \<open>Nodes of the workflow\<close>

text \<open>A state is well-typed if the entries of the stack and the recorded runs belong to nodes of the workflow.\<close>

definition engine_typed :: "Workflow \<Rightarrow> Engine \<Rightarrow> bool" where
  "engine_typed w g \<longleftrightarrow> stack_ok w (g_queue g) \<and> list_all (\<lambda>p. getNode w (fst p) \<noteq> None) (run_data g)"

lemma stack_ok_simps [simp]:
  "stack_ok w (unshift e x) \<longleftrightarrow> getNode w (n_name (e_node e)) = Some (e_node e) \<and> stack_ok w x"
  "stack_ok w (x\<lparr>x_nodeExecutionStack := e # st\<rparr>) \<longleftrightarrow>
     getNode w (n_name (e_node e)) = Some (e_node e) \<and> stack_ok w (x\<lparr>x_nodeExecutionStack := st\<rparr>)"
  "stack_ok w (recordTask nm k task x) \<longleftrightarrow> stack_ok w x"
  by (simp_all add: stack_ok_def unshift_def recordTask_def Let_def)

lemma list_all_keys: "list_all (\<lambda>p. Q (fst p)) m \<longleftrightarrow> fst ` set m \<subseteq> Collect Q"
  by (auto simp: list_all_iff)

lemma recorded_typed:
  assumes "list_all (\<lambda>p. getNode w (fst p) \<noteq> None) rd" and "getNode w nm \<noteq> None"
  shows "list_all (\<lambda>p. getNode w (fst p) \<noteq> None) (recorded nm k task rd)"
proof -
  let ?N = "{nm. getNode w nm \<noteq> None}"
  have keys: "fst ` set (recorded nm k task rd) = insert nm (fst ` set rd)" by (simp only: recorded_def Let_def obj_writer.keys_put)
  have "fst ` set rd \<subseteq> ?N" using assms(1) by (simp only: list_all_keys [where Q = "\<lambda>nm. getNode w nm \<noteq> None"])
  moreover have "nm \<in> ?N" using assms(2) by (rule CollectI)
  ultimately have "fst ` set (recorded nm k task rd) \<subseteq> ?N" unfolding keys by (rule insert_subsetI [rotated])
  then show ?thesis by (simp only: list_all_keys [where Q = "\<lambda>nm. getNode w nm \<noteq> None"])
qed

lemma passOn_stack:
  assumes "outcome (passOn P order w ed k i err outs g) = Some g'" and "workflow_named w" and "stack_ok w (g_queue g)"
    and "getNode w (n_name (e_node ed)) = Some (e_node ed)"
  shows "stack_ok w (g_queue g')"
proof -
  obtain outs' where m: "mergeErrors outs = Inr outs'" using assms(1) by (cases "mergeErrors outs") (simp_all add: passOn_def)
  define x where "x = recordTask (n_name (e_node ed)) k (task_of ed i
    (if err \<noteq> None then ''error'' else if g_waitTill g then ''waiting'' else ''success'') (Some (outputLog (e_node ed) outs')) err) (g_queue g)"
  have x: "stack_ok w x" using assms(3) by (simp add: x_def)
  show ?thesis
  proof (cases "g_waitTill g \<or> g_destinationNode g = Some (n_name (e_node ed))")
    case True
    with assms m show ?thesis by (auto simp: passOn_def Let_def split: if_splits)
  next
    case False
    let ?r = "res_bind (addOutputs order (po_arraySort P) w (n_name (e_node ed)) outs' k x)
      (drainWaiting order (po_evaluate P) (\<lambda>t v. map_option EngineNodeType.truncate (po_nodeTypes P t v)) w)"
    have "passOn P order w ed k i err outs g = (case ?r of Inl e \<Rightarrow> Crashed e | Inr x' \<Rightarrow> Next (g\<lparr>g_queue := x'\<rparr>))"
      using False m by (simp add: passOn_def Let_def x_def)
    with assms(1) obtain x' where x': "?r = Inr x'" and g': "g' = g\<lparr>g_queue := x'\<rparr>" by (cases ?r) auto
    from keeps_stack_nodes.hand_on_keeps [OF x'] x assms(2) g' show ?thesis by simp
  qed
qed

lemma failEntry_stack:
  assumes "outcome (failEntry P order w ed k i err g) = Some g'" and "workflow_named w" and "stack_ok w (g_queue g)"
    and "getNode w (n_name (e_node ed)) = Some (e_node ed)"
  shows "stack_ok w (g_queue g')"
proof (cases "continuesAfter (e_node ed)")
  case True
  with assms(1) obtain outs where "outcome (passOn P order w ed k i (Some err) outs g) = Some g'"
    by (cases "continuedData ed err") (auto simp: failEntry_def Let_def)
  then show ?thesis using assms(2-) by (rule passOn_stack)
next
  case False
  with assms show ?thesis by (auto simp: failEntry_def Let_def)
qed

lemma runEntry_stack:
  assumes "outcome (runEntry P order manual w ed k i g) = Some g'" and "workflow_named w" and "stack_ok w (g_queue g)"
    and "getNode w (n_name (e_node ed)) = Some (e_node ed)"
  shows "stack_ok w (g_queue g')"
proof (cases "tryEntry P order manual g ed k")
  case (Finished out threw)
  with assms show ?thesis
    by (cases out) (auto simp: runEntry_def Let_def split: if_splits dest!: passOn_stack)
next
  case (Failed e)
  with assms show ?thesis by (cases e) (auto simp: runEntry_def Let_def dest!: failEntry_stack)
qed (use assms in \<open>auto simp: runEntry_def Let_def\<close>)

lemma ensureInputs_stack:
  "stack_ok w x \<Longrightarrow> getNode w (n_name (e_node ed)) = Some (e_node ed) \<Longrightarrow> stack_ok w (snd (ensureInputs order w ed is x))"
  by (induction order w ed "is" x rule: ensureInputs.induct) (auto simp: stack_ok_def split: option.splits)

lemma engineStep_typed:
  assumes "outcome (engineStep P order manual w g) = Some g'" and "workflow_named w" and "engine_typed w g"
  shows "engine_typed w g'"
proof -
  have pop: "getNode w (n_name (e_node entry)) = Some (e_node entry)" "stack_ok w ((g_queue g)\<lparr>x_nodeExecutionStack := rest\<rparr>)"
    if "x_nodeExecutionStack (g_queue g) = entry # rest" for entry rest
    using assms(3) that by (simp_all add: engine_typed_def stack_ok_def)
  have "stack_ok w (g_queue g')"
    using assms(1)
  proof (cases rule: engineStep_cases)
    case (2 entry rest l)
    with pop [OF 2(1)] show ?thesis by (simp add: ensureInputData_def ensureInputs_stack)
  next
    case (3 entry rest)
    with pop [OF 3(1)] assms(2) show ?thesis by (auto intro: runEntry_stack [OF 3(3)])
  qed (use pop in simp)
  moreover have "list_all (\<lambda>p. getNode w (fst p) \<noteq> None) (run_data g')"
    using engineStep_effect [OF assms(1)] assms(3) pop recorded_typed by (fastforce simp: engine_typed_def)
  ultimately show ?thesis by (simp add: engine_typed_def)
qed

end
