(* ===== verification/Subgraph.thy ===== *)
theory Subgraph
  imports Graph_Search
begin

text \<open>
  \<open>find-subgraph.ts\<close>: the part of the graph that leads from the trigger to the destination,
  found by walking the main connections backwards and keeping the branches that arrive at the
  trigger or close a cycle, and then adding the connections of the other types.
\<close>

section \<open>The algorithm\<close>

definition keepConnection :: "GraphConnection \<Rightarrow> DirectedGraph \<Rightarrow> DirectedGraph result" where
  "keepConnection connection newGraph =
     addConnection (as_input connection) (addNodes [gc_from connection, gc_to connection] newGraph)"

function findSubgraphRecursive ::
    "DirectedGraph \<Rightarrow> INode \<Rightarrow> INode \<Rightarrow> INode \<Rightarrow> DirectedGraph \<Rightarrow> GraphConnection list \<Rightarrow> DirectedGraph result" where
  "findSubgraphRecursive graph destinationNode current trigger newGraph currentBranch =
     (if current = trigger then res_fold keepConnection currentBranch (addNode trigger newGraph)
      else res_bind (getDirectParentConnections graph current) (\<lambda>parentConnections.
        if parentConnections = [] then Inr newGraph
        else if current = destinationNode \<and> list_ex (\<lambda>c. gc_to c = destinationNode) currentBranch then Inr newGraph
        else if list_ex (\<lambda>c. gc_to c = current) currentBranch then res_fold keepConnection currentBranch newGraph
        else res_fold (\<lambda>parentConnection newGraph.
               if gc_type parentConnection \<noteq> Main then Inr newGraph
               else findSubgraphRecursive graph destinationNode (gc_from parentConnection) trigger newGraph
                      (currentBranch @ [parentConnection]))
             parentConnections newGraph))"
  by pat_completeness auto

termination findSubgraphRecursive
proof (relation "measure (\<lambda>(g, d, cur, t, ng, br). nodes_left g (map gc_to br))", goal_cases)
  case 1
  show ?case by simp
next
  case (2 g d cur t ng br pcs c s)
  then have "gc_to c = cur" "nodeExists g cur" "cur \<notin> set (map gc_to br)"
    by (auto simp: parent_connections_Inr list_ex_iff)
  then show ?case using nodes_left_less [of g cur "map gc_to br" "map gc_to (br @ [c])"] by auto
qed

definition findSubgraph :: "DirectedGraph \<Rightarrow> INode \<Rightarrow> INode \<Rightarrow> DirectedGraph result" where
  "findSubgraph graph destination trigger =
     res_bind (findSubgraphRecursive graph destination destination trigger new_graph []) (\<lambda>subgraph.
       res_fold (\<lambda>node subgraph.
         res_bind (getParentConnections graph node) (\<lambda>parentConnections.
           res_fold (\<lambda>connection subgraph.
               if gc_type connection = Main then Inr subgraph else keepConnection connection subgraph)
             parentConnections subgraph))
         (map snd (getNodes subgraph)) subgraph)"

declare findSubgraphRecursive.simps [simp del]

section \<open>What a graph holds\<close>

text \<open>The nodes and the connections of a graph in one set.\<close>

definition content :: "DirectedGraph \<Rightarrow> (GraphConnection + INode) set" where
  "content g = Inl ` conns_of g \<union> Inr ` {n. nodeExists g n}"

definition conn_content :: "GraphConnection \<Rightarrow> (GraphConnection + INode) set" where
  "conn_content c = {Inl c, Inr (gc_from c), Inr (gc_to c)}"

lemma content_iff [simp]:
  "Inl c \<in> content g \<longleftrightarrow> c \<in> conns_of g" "Inr n \<in> content g \<longleftrightarrow> nodeExists g n"
  by (auto simp: content_def)

definition subgraph_of :: "DirectedGraph \<Rightarrow> DirectedGraph \<Rightarrow> bool" where
  "subgraph_of g h \<longleftrightarrow> wf_graph h \<and> content h \<subseteq> content g"

lemma subgraph_ofD:
  assumes "subgraph_of g h"
  shows "wf_graph h" "nodeExists h n \<Longrightarrow> nodeExists g n" "c \<in> conns_of h \<Longrightarrow> c \<in> conns_of g"
  using assms unfolding subgraph_of_def by (auto simp flip: content_iff)

lemma subgraph_of_new [simp]: "subgraph_of g new_graph"
  by (auto simp: subgraph_of_def content_def conns_of_def nodeExists_def new_graph_def wf_graph_def)

lemma in_conns_of: "c \<in> conns_of g \<longleftrightarrow> (\<exists>k. (k, c) \<in> set (dg_connections g))"
  by (force simp: conns_of_def)

lemma makeKey_inj_on:
  assumes "wf_graph g" and "c \<in> conns_of g" and "d \<in> conns_of g" and "makeKey c = makeKey d"
  shows "c = d"
proof -
  from assms(2,3) obtain k l where "(k, c) \<in> set (dg_connections g)" "(l, d) \<in> set (dg_connections g)"
    by (auto simp: conns_of_def)
  then have "(makeKey c, c) \<in> set (dg_connections g)" "(makeKey c, d) \<in> set (dg_connections g)"
    using wf_graphD(4) [OF assms(1)] assms(4) by force+
  then show ?thesis using wf_graphD(2) [OF assms(1)] by (metis eq_key_imp_eq_value)
qed

lemma addNode_content:
  assumes "wf_graph g" and "subgraph_of g h" and "nodeExists g n"
  shows "subgraph_of g (addNode n h)" and "content (addNode n h) = insert (Inr n) (content h)"
proof -
  have same: "m = n" if "nodeExists h m" "n_name m = n_name n" for m
    using nodeExists_inject [OF subgraph_ofD(2) [OF assms(2) that(1)] assms(3) that(2)] .
  have wf: "wf_graph (addNode n h)" by (rule wf_addNode [OF subgraph_ofD(1) [OF assms(2)]]) (rule same)
  have "nodeExists (addNode n h) m \<longleftrightarrow> m = n \<or> nodeExists h m" for m
    using same by (auto simp: nodeExists_addNode)
  then show eq: "content (addNode n h) = insert (Inr n) (content h)" by (auto simp: content_def)
  from wf eq assms(2,3) show "subgraph_of g (addNode n h)" by (simp add: subgraph_of_def)
qed

lemma keepConnection_content:
  assumes g: "wf_graph g" and h: "subgraph_of g h" and c: "c \<in> conns_of g"
  shows "\<exists>h'. keepConnection c h = Inr h' \<and> subgraph_of g h' \<and> content h' = content h \<union> conn_content c"
proof -
  define h1 where "h1 = addNode (gc_to c) (addNode (gc_from c) h)"
  note a = addNode_content [OF g h wf_graphD(5) [OF g c]]
  note b = addNode_content [OF g a(1) wf_graphD(6) [OF g c], folded h1_def]
  have h1: "subgraph_of g h1" "content h1 = {Inr (gc_to c), Inr (gc_from c)} \<union> content h" using a b by auto
  then have ends: "nodeExists h1 (gc_from c)" "nodeExists h1 (gc_to c)" by (simp_all flip: content_iff)
  define h2 where "h2 = h1\<lparr>dg_connections := AList.update (makeKey c) c (dg_connections h1)\<rparr>"
  have run: "keepConnection c h = Inr h2"
    using addConnection_as_input [OF ends] by (simp add: keepConnection_def addNodes_def h1_def h2_def)
  have wf1: "wf_graph h1" by (rule subgraph_ofD(1) [OF h1(1)])
  have wf: "wf_graph h2" unfolding h2_def by (rule wf_put_connection [OF wf1 ends])
  have "d \<in> conns_of h2 \<longleftrightarrow> d = c \<or> d \<in> conns_of h1" for d
  proof -
    have "d \<in> conns_of h2 \<longleftrightarrow> (\<exists>k. (k, d) \<in> set (dg_connections h2))" by (rule in_conns_of)
    also have "\<dots> \<longleftrightarrow> d = c \<or> (\<exists>k. k \<noteq> makeKey c \<and> (k, d) \<in> set (dg_connections h1))"
      by (auto simp: h2_def set_update_iff [OF wf_graphD(2) [OF wf1]])
    also have "\<dots> \<longleftrightarrow> d = c \<or> d \<in> conns_of h1"
    proof -
      have "d = c" if "(makeKey c, d) \<in> set (dg_connections h1)"
      proof (rule makeKey_inj_on [OF g _ c])
        have "d \<in> conns_of h1" using that in_conns_of [of d h1] by blast
        then show "d \<in> conns_of g" by (rule subgraph_ofD(3) [OF h1(1)])
        show "makeKey d = makeKey c" using wf_graphD(4) [OF wf1 that] by simp
      qed
      then have "d = c \<or> (\<exists>k. k \<noteq> makeKey c \<and> (k, d) \<in> set (dg_connections h1))"
        if "(k, d) \<in> set (dg_connections h1)" for k
        using that by (cases "k = makeKey c") auto
      then show ?thesis using in_conns_of [of d h1] by auto
    qed
    finally show ?thesis .
  qed
  moreover have "nodeExists h2 n \<longleftrightarrow> nodeExists h1 n" for n by (simp add: h2_def nodeExists_def)
  ultimately have eq: "content h2 = insert (Inl c) (content h1)" by (auto simp: content_def)
  with wf h1 c have "subgraph_of g h2" by (simp add: subgraph_of_def)
  moreover have "content h2 = content h \<union> conn_content c" unfolding eq h1(2) by (auto simp: conn_content_def)
  ultimately show ?thesis using run by blast
qed

lemma keep_branch_content:
  assumes "wf_graph g" and "subgraph_of g h" and "set br \<subseteq> conns_of g"
  shows "\<exists>h'. res_fold keepConnection br h = Inr h' \<and> subgraph_of g h' \<and>
    content h' = content h \<union> (\<Union>c \<in> set br. conn_content c)"
  by (rule res_fold_union [where P = "subgraph_of g"])
    (use keepConnection_content [OF assms(1)] assms(2,3) in blast)+

section \<open>The branches that are walked\<close>

type_synonym branch = "INode \<times> GraphConnection list"

definition visited_on :: "branch \<Rightarrow> bool" where
  "visited_on b \<longleftrightarrow> (\<exists>c \<in> set (snd b). gc_to c = fst b)"

definition branch_step :: "DirectedGraph \<Rightarrow> INode \<Rightarrow> (branch \<times> branch) set" where
  "branch_step g t = {((cur, br), (gc_from c, br @ [c])) | cur br c.
     cur \<noteq> t \<and> \<not> visited_on (cur, br) \<and> c \<in> conns_of g \<and> gc_to c = cur \<and> gc_type c = Main}"

definition kept :: "INode \<Rightarrow> INode \<Rightarrow> branch \<Rightarrow> bool" where
  "kept d t b \<longleftrightarrow> fst b = t \<or> visited_on b \<and> fst b \<noteq> d"

definition kept_content :: "INode \<Rightarrow> branch \<Rightarrow> (GraphConnection + INode) set" where
  "kept_content t b = (\<Union>c \<in> set (snd b). conn_content c) \<union> (if fst b = t then {Inr t} else {})"

definition branches_from :: "DirectedGraph \<Rightarrow> INode \<Rightarrow> INode \<Rightarrow> branch \<Rightarrow> (GraphConnection + INode) set" where
  "branches_from g d t b = (\<Union>x \<in> {x. (b, x) \<in> (branch_step g t)\<^sup>* \<and> kept d t x}. kept_content t x)"

lemma branch_step_iff:
  "((cur, br), x) \<in> branch_step g t \<longleftrightarrow> cur \<noteq> t \<and> \<not> visited_on (cur, br) \<and>
     (\<exists>c \<in> conns_of g. gc_to c = cur \<and> gc_type c = Main \<and> x = (gc_from c, br @ [c]))"
  by (auto simp: branch_step_def)

lemma branches_from_stuck:
  assumes "branch_step g t `` {b} = {}"
  shows "branches_from g d t b = (if kept d t b then kept_content t b else {})"
proof -
  have "(b, x) \<in> (branch_step g t)\<^sup>* \<longleftrightarrow> x = b" for x
    using assms by (auto elim: converse_rtranclE)
  then show ?thesis by (auto simp: branches_from_def)
qed

lemma branches_from_step:
  assumes "\<not> kept d t b"
  shows "branches_from g d t b = (\<Union>x \<in> branch_step g t `` {b}. branches_from g d t x)"
proof -
  have "(b, x) \<in> (branch_step g t)\<^sup>* \<longleftrightarrow> x = b \<or> (\<exists>y. (b, y) \<in> branch_step g t \<and> (y, x) \<in> (branch_step g t)\<^sup>*)" for x
    by (auto elim: converse_rtranclE intro: converse_rtrancl_into_rtrancl)
  then show ?thesis using assms by (auto simp: branches_from_def)
qed

lemma findSubgraphRecursive_content:
  "wf_graph g \<Longrightarrow> subgraph_of g h \<Longrightarrow> set br \<subseteq> conns_of g \<Longrightarrow> nodeExists g cur \<Longrightarrow> nodeExists g t \<Longrightarrow>
   \<exists>h'. findSubgraphRecursive g d cur t h br = Inr h' \<and> subgraph_of g h' \<and>
     content h' = content h \<union> branches_from g d t (cur, br)"
proof (induction g d cur t h br rule: findSubgraphRecursive.induct)
  case (1 g d cur t h br)
  note g = "1.prems"(1) and h = "1.prems"(2) and br = "1.prems"(3)
  obtain pcs where pcs: "getDirectParentConnections g cur = Inr pcs"
    using "1.prems"(4) by (auto simp: getDirectParentConnections_def)
  note sp = set_parent_connections [OF pcs]
  consider "cur = t" | "cur \<noteq> t" "visited_on (cur, br)" | "cur \<noteq> t" "\<not> visited_on (cur, br)" by blast
  then show ?case
  proof cases
    case 1
    then have "branches_from g d t (cur, br) = kept_content t (cur, br)"
      by (subst branches_from_stuck) (auto simp: branch_step_iff kept_def)
    moreover note a = addNode_content [OF g h "1.prems"(5)]
    from keep_branch_content [OF g a(1) br] a(2) obtain h' where
      "res_fold keepConnection br (addNode t h) = Inr h'" "subgraph_of g h'"
      "content h' = insert (Inr t) (content h) \<union> (\<Union>c \<in> set br. conn_content c)" by auto
    ultimately show ?thesis using 1 by (auto simp: findSubgraphRecursive.simps [of g] kept_content_def)
  next
    case 2
    then obtain c where c: "c \<in> set br" "gc_to c = cur" by (auto simp: visited_on_def)
    then have "pcs \<noteq> []" using br sp by force
    have stuck: "branches_from g d t (cur, br) = (if cur = d then {} else kept_content t (cur, br))"
      using 2 by (subst branches_from_stuck) (auto simp: branch_step_iff kept_def)
    have vis: "list_ex (\<lambda>c. gc_to c = cur) br" using c by (auto simp: list_ex_iff)
    show ?thesis
    proof (cases "cur = d")
      case True
      then show ?thesis using 2 vis pcs \<open>pcs \<noteq> []\<close> h stuck by (simp add: findSubgraphRecursive.simps [of g])
    next
      case False
      from keep_branch_content [OF g h br] 2 vis pcs \<open>pcs \<noteq> []\<close> stuck False show ?thesis
        by (simp add: findSubgraphRecursive.simps [of g] kept_content_def)
    qed
  next
    case 3
    have nk: "\<not> kept d t (cur, br)" using 3 by (simp add: kept_def)
    have nv: "\<not> list_ex (\<lambda>c. gc_to c = cur) br" using 3 by (auto simp: visited_on_def list_ex_iff)
    define V where "V c = (if gc_type c = Main then branches_from g d t (gc_from c, br @ [c]) else {})" for c
    have "\<exists>h'. (if gc_type c \<noteq> Main then Inr h1 else findSubgraphRecursive g d (gc_from c) t h1 (br @ [c])) = Inr h' \<and>
        subgraph_of g h' \<and> content h' = content h1 \<union> V c"
      if c: "c \<in> set pcs" and h1: "subgraph_of g h1" for c h1
    proof (cases "gc_type c = Main")
      case False
      with h1 show ?thesis by (simp add: V_def)
    next
      case True
      have "c \<in> conns_of g" using c sp by simp
      then have "set (br @ [c]) \<subseteq> conns_of g" "nodeExists g (gc_from c)" using br wf_graphD(5) [OF g] by auto
      moreover have "pcs \<noteq> []" "\<not> (cur = d \<and> list_ex (\<lambda>c. gc_to c = d) br)" using c nv by auto
      ultimately show ?thesis
        using "1.IH" [OF 3(1) pcs _ _ nv c _ g h1] True "1.prems"(5) by (simp add: V_def)
    qed
    then have "\<exists>h'. res_fold (\<lambda>c h1. if gc_type c \<noteq> Main then Inr h1
          else findSubgraphRecursive g d (gc_from c) t h1 (br @ [c])) pcs h = Inr h' \<and>
        subgraph_of g h' \<and> content h' = content h \<union> (\<Union>c \<in> set pcs. V c)"
      by (intro res_fold_union [where P = "subgraph_of g"] h)
    moreover have "branch_step g t `` {(cur, br)} = (\<lambda>c. (gc_from c, br @ [c])) ` {c \<in> set pcs. gc_type c = Main}"
      using 3 by (auto simp: branch_step_iff sp)
    then have "branches_from g d t (cur, br) = (\<Union>c \<in> set pcs. V c)"
      unfolding branches_from_step [OF nk] V_def by auto
    moreover have "findSubgraphRecursive g d cur t h br = (if pcs = [] then Inr h else
        res_fold (\<lambda>c h1. if gc_type c \<noteq> Main then Inr h1
          else findSubgraphRecursive g d (gc_from c) t h1 (br @ [c])) pcs h)"
      using 3 nv pcs by (subst findSubgraphRecursive.simps) auto
    ultimately show ?thesis using h by (cases "pcs = []") auto
  qed
qed

subsection \<open>Which nodes are kept\<close>

lemma branch_visited_fresh:
  assumes "((d, []), (cur, br)) \<in> (branch_step g t)\<^sup>*" and "c \<in> set br"
  shows "\<exists>br'. ((d, []), (gc_to c, br')) \<in> (branch_step g t)\<^sup>* \<and> \<not> visited_on (gc_to c, br')"
proof -
  have "\<forall>c \<in> set (snd b). \<exists>br'. ((d, []), (gc_to c, br')) \<in> (branch_step g t)\<^sup>* \<and> \<not> visited_on (gc_to c, br')"
    if "((d, []), b) \<in> (branch_step g t)\<^sup>*" for b
    using that
  proof (induction rule: rtrancl_induct)
    case base
    then show ?case by simp
  next
    case (step y z)
    then obtain e where e: "z = (gc_from e, snd y @ [e])" "gc_to e = fst y" "\<not> visited_on y"
      by (auto simp: branch_step_def)
    with step.hyps(1) have "\<exists>br'. ((d, []), (gc_to e, br')) \<in> (branch_step g t)\<^sup>* \<and> \<not> visited_on (gc_to e, br')"
      by (intro exI [of _ "snd y"]) simp
    with step.IH e(1) show ?case by auto
  qed
  with assms show ?thesis by fastforce
qed

text \<open>Every node from which the destination can be reached without passing the trigger is visited.\<close>

lemma branch_reaches:
  assumes "(x, d) \<in> {(a, b) \<in> main_edges g. b \<noteq> t}\<^sup>*"
  shows "\<exists>br. ((d, []), (x, br)) \<in> (branch_step g t)\<^sup>* \<and> \<not> visited_on (x, br)"
  using assms
proof (induction rule: converse_rtrancl_induct)
  case base
  then show ?case by (auto simp: visited_on_def)
next
  case (step x y)
  then obtain br where br: "((d, []), (y, br)) \<in> (branch_step g t)\<^sup>*" "\<not> visited_on (y, br)" and "y \<noteq> t" by blast
  from step(1) obtain c where c: "c \<in> conns_of g" "gc_from c = x" "gc_to c = y" "gc_type c = Main"
    by (auto simp: main_edges_def)
  with br \<open>y \<noteq> t\<close> have "((y, br), (x, br @ [c])) \<in> branch_step g t" by (auto simp: branch_step_iff)
  with br(1) have new: "((d, []), (x, br @ [c])) \<in> (branch_step g t)\<^sup>*" by simp
  show ?case
  proof (cases "visited_on (x, br @ [c])")
    case False
    with new show ?thesis by blast
  next
    case True
    then obtain e where "e \<in> set (br @ [c])" "gc_to e = x" by (auto simp: visited_on_def)
    with branch_visited_fresh [OF new] show ?thesis by blast
  qed
qed

lemma branch_extends:
  "((cur, br), b) \<in> (branch_step g t)\<^sup>* \<Longrightarrow> set br \<subseteq> set (snd b)"
  by (induction rule: rtrancl_induct) (auto simp: branch_step_def)

text \<open>From a node that the trigger reaches without passing the destination, some branch is kept.\<close>

lemma branch_kept:
  assumes "(t, x) \<in> {(a, b) \<in> main_edges g. b \<noteq> d}\<^sup>*" and "x = t \<or> x \<noteq> d"
  shows "\<exists>b. ((x, br), b) \<in> (branch_step g t)\<^sup>* \<and> kept d t b"
  using assms
proof (induction arbitrary: br rule: rtrancl_induct)
  case base
  then show ?case by (auto simp: kept_def intro: exI [of _ "(t, br)"])
next
  case (step y x)
  show ?case
  proof (cases "x = t \<or> visited_on (x, br)")
    case True
    with step.prems have "kept d t (x, br)" by (auto simp: kept_def)
    then show ?thesis by blast
  next
    case False
    from step(2) obtain c where c: "c \<in> conns_of g" "gc_from c = y" "gc_to c = x" "gc_type c = Main"
      by (auto simp: main_edges_def)
    with False have s: "((x, br), (y, br @ [c])) \<in> branch_step g t" by (auto simp: branch_step_iff)
    have "y = t \<or> y \<noteq> d" using step(1) by (auto elim: rtranclE)
    from step.IH [OF this, of "br @ [c]"] s show ?thesis by (meson converse_rtrancl_into_rtrancl)
  qed
qed

lemma kept_node:
  assumes "(t, x) \<in> {(a, b) \<in> main_edges g. b \<noteq> d}\<^sup>*" and "x = t \<or> x \<noteq> d"
    and "(x, d) \<in> {(a, b) \<in> main_edges g. b \<noteq> t}\<^sup>*"
  shows "Inr x \<in> branches_from g d t (d, [])"
proof -
  obtain br where br: "((d, []), (x, br)) \<in> (branch_step g t)\<^sup>*" "\<not> visited_on (x, br)"
    using branch_reaches [OF assms(3)] by blast
  obtain b where b: "((x, br), b) \<in> (branch_step g t)\<^sup>*" "kept d t b" using branch_kept [OF assms(1,2)] by blast
  have "Inr x \<in> kept_content t b"
  proof (cases "b = (x, br)")
    case True
    with b(2) br(2) show ?thesis by (auto simp: kept_def kept_content_def)
  next
    case False
    with b(1) obtain y where y: "((x, br), y) \<in> branch_step g t" "(y, b) \<in> (branch_step g t)\<^sup>*"
      by (auto elim: converse_rtranclE)
    then obtain c where c: "gc_to c = x" "c \<in> set (snd y)" by (auto simp: branch_step_iff)
    have "set (snd y) \<subseteq> set (snd b)" using branch_extends [of "fst y" "snd y" b g t] y(2) by simp
    with c show ?thesis by (auto simp: kept_content_def conn_content_def)
  qed
  moreover have "((d, []), b) \<in> (branch_step g t)\<^sup>*" using br(1) b(1) by simp
  ultimately show ?thesis using b(2) unfolding branches_from_def by blast
qed

text \<open>Conversely, the main connections of the branches lead to the destination.\<close>

lemma branch_leads:
  assumes "((d, []), b) \<in> (branch_step g t)\<^sup>*"
  shows "(fst b, d) \<in> (main_edges g)\<^sup>* \<and>
    (\<forall>c \<in> set (snd b). gc_type c = Main \<and> (gc_to c, d) \<in> (main_edges g)\<^sup>*)"
  using assms
proof (induction rule: rtrancl_induct)
  case base
  then show ?case by simp
next
  case (step y z)
  then obtain e where e: "z = (gc_from e, snd y @ [e])" "gc_to e = fst y" "e \<in> conns_of g" "gc_type e = Main"
    by (auto simp: branch_step_def)
  then have "(gc_from e, fst y) \<in> main_edges g" using main_edge_of_conn [OF e(3,4)] by simp
  with step.IH e show ?case by (auto intro: converse_rtrancl_into_rtrancl)
qed

section \<open>The subgraph\<close>

definition other_types :: "DirectedGraph \<Rightarrow> INode \<Rightarrow> (GraphConnection + INode) set" where
  "other_types g n = (\<Union>c \<in> {c \<in> conns_of g. (gc_to c, n) \<in> (edges g)\<^sup>* \<and> gc_type c \<noteq> Main}. conn_content c)"

lemma add_other_types:
  assumes g: "wf_graph g" and h: "subgraph_of g h" and n: "nodeExists g n"
  shows "\<exists>h'. res_bind (getParentConnections g n) (\<lambda>parentConnections.
      res_fold (\<lambda>connection h. if gc_type connection = Main then Inr h else keepConnection connection h)
        parentConnections h) = Inr h' \<and> subgraph_of g h' \<and> content h' = content h \<union> other_types g n"
proof -
  obtain pcs where run: "getParentConnections g n = Inr pcs"
    and pcs: "set pcs = (conn_step g)\<^sup>* `` {c \<in> conns_of g. gc_to c = n}"
    using parents_search.search_total g n by blast
  have sp: "set pcs = {c \<in> conns_of g. (gc_to c, n) \<in> (edges g)\<^sup>*}"
    unfolding pcs using conn_step_reaches reaches_conn_step by blast
  define V where "V c = (if gc_type c = Main then {} else conn_content c)" for c
  have "\<exists>h'. res_fold (\<lambda>connection h. if gc_type connection = Main then Inr h else keepConnection connection h) pcs h = Inr h' \<and>
      subgraph_of g h' \<and> content h' = content h \<union> (\<Union>c \<in> set pcs. V c)"
  proof (rule res_fold_union [where P = "subgraph_of g"])
    show "\<exists>s'. (if gc_type x = Main then Inr s else keepConnection x s) = Inr s' \<and> subgraph_of g s' \<and> content s' = content s \<union> V x"
      if "x \<in> set pcs" "subgraph_of g s" for x s
      using keepConnection_content [OF g that(2), of x] that sp by (auto simp: V_def)
  qed (rule h)
  moreover have "(\<Union>c \<in> set pcs. V c) = other_types g n" by (auto simp: sp V_def other_types_def split: if_splits)
  ultimately show ?thesis by (simp add: run)
qed

lemma findSubgraph_content:
  assumes g: "wf_graph g" and d: "nodeExists g d" and t: "nodeExists g t"
  shows "\<exists>s N. findSubgraph g d t = Inr s \<and> subgraph_of g s \<and>
    content s = branches_from g d t (d, []) \<union> (\<Union>n \<in> N. other_types g n)"
proof -
  have "content new_graph = {}" by (auto simp: content_def conns_of_def nodeExists_def new_graph_def)
  with findSubgraphRecursive_content [OF g subgraph_of_new _ d t, of "[]" d] obtain h where
    h: "findSubgraphRecursive g d d t new_graph [] = Inr h" "subgraph_of g h" "content h = branches_from g d t (d, [])" by auto
  let ?ns = "map snd (getNodes h)"
  have "nodeExists g n" if "n \<in> set ?ns" for n
    using that nodeExists_iff [OF subgraph_ofD(1) [OF h(2)], of n] subgraph_ofD(2) [OF h(2), of n] by (simp add: getNodes_def)
  then have "\<exists>s. res_fold (\<lambda>node subgraph. res_bind (getParentConnections g node) (\<lambda>parentConnections.
      res_fold (\<lambda>connection subgraph. if gc_type connection = Main then Inr subgraph else keepConnection connection subgraph)
        parentConnections subgraph)) ?ns h = Inr s \<and> subgraph_of g s \<and> content s = content h \<union> (\<Union>n \<in> set ?ns. other_types g n)"
    by (intro res_fold_union [where P = "subgraph_of g"] h(2) add_other_types [OF g])
  then obtain s where s: "res_fold (\<lambda>node subgraph. res_bind (getParentConnections g node) (\<lambda>parentConnections.
      res_fold (\<lambda>connection subgraph. if gc_type connection = Main then Inr subgraph else keepConnection connection subgraph)
        parentConnections subgraph)) ?ns h = Inr s" "subgraph_of g s"
    "content s = branches_from g d t (d, []) \<union> (\<Union>n \<in> set ?ns. other_types g n)" unfolding h(3) by blast
  have "findSubgraph g d t = Inr s" using h(1) s(1) by (simp add: findSubgraph_def)
  with s(2,3) show ?thesis by blast
qed

text \<open>
  \<open>findSubgraph\<close> returns a well-formed graph whose nodes and connections are nodes and
  connections of the input graph, and every main connection in it leads to the destination.
\<close>

lemma findSubgraph_sound:
  assumes "wf_graph g" and "nodeExists g d" and "nodeExists g t"
  shows "\<exists>s. findSubgraph g d t = Inr s \<and> wf_graph s \<and> (\<forall>n. nodeExists s n \<longrightarrow> nodeExists g n) \<and>
    conns_of s \<subseteq> conns_of g \<and> (\<forall>c \<in> conns_of s. gc_type c = Main \<longrightarrow> (gc_to c, d) \<in> (main_edges g)\<^sup>*)"
proof -
  obtain s N where s: "findSubgraph g d t = Inr s" "subgraph_of g s"
    and cont: "content s = branches_from g d t (d, []) \<union> (\<Union>n \<in> N. other_types g n)"
    using findSubgraph_content [OF assms] by blast
  have "(gc_to c, d) \<in> (main_edges g)\<^sup>*" if "c \<in> conns_of s" "gc_type c = Main" for c
  proof -
    from that(1) have "Inl c \<in> content s" by simp
    then have "Inl c \<in> branches_from g d t (d, []) \<or> (\<exists>n \<in> N. Inl c \<in> other_types g n)" unfolding cont by blast
    moreover have "Inl c \<notin> other_types g n" for n using that(2) by (auto simp: other_types_def conn_content_def)
    ultimately obtain b where "((d, []), b) \<in> (branch_step g t)\<^sup>*" "Inl c \<in> kept_content t b"
      unfolding branches_from_def by blast
    then show ?thesis using branch_leads [of d b g t] by (auto simp: kept_content_def conn_content_def split: if_splits)
  qed
  with s subgraph_ofD [OF s(2)] show ?thesis by blast
qed

definition ex_two_triggers :: DirectedGraph where
  "ex_two_triggers = ex_graph [ex_node 0 False ''T'', ex_node 1 False ''U'', ex_node 2 False ''A'', ex_node 3 False ''B'', ex_node 4 False ''D'']
     [(0, 2), (1, 3), (2, 4), (3, 4)]"

lemma findSubgraph_sound_witness:
  "wf_graph ex_two_triggers \<and> nodeExists ex_two_triggers (ex_node 4 False ''D'') \<and> nodeExists ex_two_triggers (ex_node 0 False ''T'') \<and>
   (\<exists>s. findSubgraph ex_two_triggers (ex_node 4 False ''D'') (ex_node 0 False ''T'') = Inr s \<and> wf_graph s \<and>
     map fst (dg_nodes s) = [''T'', ''A'', ''D''])"
proof -
  let ?D = "ex_node 4 False ''D''" let ?T = "ex_node 0 False ''T''"
  have h: "wf_graph ex_two_triggers" "nodeExists ex_two_triggers ?D" "nodeExists ex_two_triggers ?T" by code_simp+
  have "(case findSubgraph ex_two_triggers ?D ?T of Inl _ \<Rightarrow> [] | Inr s \<Rightarrow> map fst (dg_nodes s)) = [''T'', ''A'', ''D'']" by code_simp
  with h findSubgraph_sound [OF h] show ?thesis by auto
qed

text \<open>
  C35: \<open>findSubgraph\<close> keeps every node on the way: a node that the trigger reaches over main
  connections without entering the destination, and that reaches the destination without entering
  the trigger again, is a node of the subgraph.
\<close>

theorem findSubgraph_complete:
  assumes "wf_graph g" and "nodeExists g d" and "nodeExists g t"
    and "(t, x) \<in> {(a, b) \<in> main_edges g. b \<noteq> d}\<^sup>*" and "x = t \<or> x \<noteq> d"
    and "(x, d) \<in> {(a, b) \<in> main_edges g. b \<noteq> t}\<^sup>*"
  shows "\<exists>s. findSubgraph g d t = Inr s \<and> nodeExists s x"
proof -
  obtain s N where s: "findSubgraph g d t = Inr s"
    and cont: "content s = branches_from g d t (d, []) \<union> (\<Union>n \<in> N. other_types g n)"
    using findSubgraph_content [OF assms(1-3)] by blast
  have "Inr x \<in> content s" unfolding cont using kept_node [OF assms(4-6)] by blast
  with s show ?thesis by simp
qed

theorem findSubgraph_complete_witness:
  "\<exists>s. findSubgraph ex_cycle (ex_node 3 False ''D'') (ex_node 0 False ''A'') = Inr s \<and> nodeExists s (ex_node 1 False ''B'')"
proof -
  let ?A = "ex_node 0 False ''A''" let ?B = "ex_node 1 False ''B''" let ?C = "ex_node 2 False ''C''" let ?D = "ex_node 3 False ''D''"
  have h: "wf_graph ex_cycle" "nodeExists ex_cycle ?D" "nodeExists ex_cycle ?A" and ne: "?B \<noteq> ?D" "?C \<noteq> ?A" "?D \<noteq> ?A" by code_simp+
  have "(?A, ?B) \<in> main_edges ex_cycle" "(?B, ?C) \<in> main_edges ex_cycle" "(?C, ?D) \<in> main_edges ex_cycle" by code_simp+
  with ne have p: "(?A, ?B) \<in> {(a, b) \<in> main_edges ex_cycle. b \<noteq> ?D}\<^sup>*" "?B = ?A \<or> ?B \<noteq> ?D"
    "(?B, ?D) \<in> {(a, b) \<in> main_edges ex_cycle. b \<noteq> ?A}\<^sup>*"
    by (auto intro: converse_rtrancl_into_rtrancl)
  show ?thesis by (rule findSubgraph_complete [OF h p])
qed

end
