(* ===== verification/Graph_Convert.thy ===== *)
theory Graph_Convert
  imports Graph_Search Connections
begin

text \<open>
  Between the nested connections object of a workflow and a \<open>DirectedGraph\<close>:
  \<open>fromNodesAndConnections\<close>, \<open>fromWorkflow\<close> and \<open>toIConnections\<close>, which \<open>toWorkflow\<close>
  hands to the \<open>Workflow\<close> constructor. Exporting a graph and importing it again gives the
  graph back when every node sends on one connection type; a node with two types makes the
  export fail.
\<close>

section \<open>Importing connections\<close>

text \<open>The loop nest the two import functions share; they differ in how a name is looked up.\<close>

definition connectAll ::
    "(string \<Rightarrow> INode option) \<Rightarrow> IConnections \<Rightarrow> DirectedGraph \<Rightarrow> DirectedGraph result" where
  "connectAll getNode connections graph =
     res_fold (\<lambda>(fromNodeName, iConnection) graph.
       case getNode fromNodeName of
         None \<Rightarrow> Inl AssertionError
       | Some from \<Rightarrow>
           res_fold (\<lambda>(outputType, outputs).
             res_fold (\<lambda>(outputIndex, conns).
               res_fold (\<lambda>conn graph.
                 case getNode (c_node conn) of
                   None \<Rightarrow> Inl AssertionError
                 | Some to \<Rightarrow>
                     addConnection \<lparr>ci_from = from, ci_to = to, ci_type = Some outputType,
                       ci_outputIndex = Some outputIndex, ci_inputIndex = Some (c_index conn)\<rparr> graph)
                 (or_empty conns))
               (enumerate 0 outputs))
             iConnection graph)
       connections graph"

definition fromNodesAndConnections :: "INode list \<Rightarrow> IConnections \<Rightarrow> DirectedGraph result" where
  "fromNodesAndConnections nodes connections =
     (let graph = addNodes nodes new_graph;
          nodeMap = fold (\<lambda>node. AList.update (n_name node) node) nodes []
      in connectAll (map_of nodeMap) connections graph)"

text \<open>\<open>workflow.nodes\<close> is an object from names to nodes and \<open>getNode\<close> reads it.\<close>

definition fromWorkflow :: "(string, INode) dict \<Rightarrow> IConnections \<Rightarrow> DirectedGraph result" where
  "fromWorkflow nodes connectionsBySourceNode =
     connectAll (map_of nodes) connectionsBySourceNode (addNodes (map snd nodes) new_graph)"

section \<open>Exporting connections\<close>

text \<open>Assigning to an array index past the end leaves holes, which read as \<open>undefined\<close>.\<close>

definition arr_put :: "nat \<Rightarrow> 'a \<Rightarrow> 'a option list \<Rightarrow> 'a option list" where
  "arr_put i v xs = (xs @ replicate (Suc i - length xs) None)[i := Some v]"

definition arr_get :: "'a option list \<Rightarrow> nat \<Rightarrow> 'a option" where
  "arr_get xs i = (if i < length xs then xs ! i else None)"

definition exportConnection :: "GraphConnection \<Rightarrow> IConnections \<Rightarrow> IConnections result" where
  "exportConnection c result =
     (let name = n_name (gc_from c);
          resultConnection = or_default [(gc_type c, [])] (map_of result name)
      in case map_of resultConnection (gc_type c) of
           None \<Rightarrow> Inl TypeError
         | Some slots \<Rightarrow>
             let group = or_default [] (arr_get slots (gc_outputIndex c)) @
                   [\<lparr>c_node = n_name (gc_to c), c_type = gc_type c, c_index = gc_inputIndex c\<rparr>]
             in Inr (obj_set name
                  (obj_set (gc_type c) (arr_put (gc_outputIndex c) group slots) resultConnection) result))"

definition toIConnections :: "DirectedGraph \<Rightarrow> IConnections result" where
  "toIConnections g = res_fold exportConnection (map snd (dg_connections g)) []"

subsection \<open>What the export stores\<close>

lemma arr_get_put: "arr_get (arr_put i v xs) j = (if j = i then Some v else arr_get xs j)"
  by (auto simp: arr_get_def arr_put_def nth_append nth_list_update)

definition to_iconn :: "GraphConnection \<Rightarrow> IConnection" where
  "to_iconn c = \<lparr>c_node = n_name (gc_to c), c_type = gc_type c, c_index = gc_inputIndex c\<rparr>"

definition conn_src :: "GraphConnection \<Rightarrow> string \<times> string \<times> nat" where
  "conn_src c = (n_name (gc_from c), gc_type c, gc_outputIndex c)"

lemma conn_group_arr:
  "conn_group conns s t i =
     (case map_of conns s of None \<Rightarrow> [] | Some tm \<Rightarrow>
       (case map_of tm t of None \<Rightarrow> [] | Some outs \<Rightarrow> or_default [] (arr_get outs i)))"
  by (auto simp: conn_group_def arr_get_def or_default_def or_empty_def split: option.splits)

definition exported :: "GraphConnection list \<Rightarrow> IConnections \<Rightarrow> bool" where
  "exported cs r \<longleftrightarrow> wf_connections r \<and>
     (\<forall>s t i. conn_group r s t i = map to_iconn (filter (\<lambda>c. conn_src c = (s, t, i)) cs)) \<and>
     (\<forall>s. map_of r s = None \<longleftrightarrow> (\<forall>c \<in> set cs. n_name (gc_from c) \<noteq> s)) \<and>
     (\<forall>s tm t. map_of r s = Some tm \<longrightarrow>
        (map_of tm t \<noteq> None \<longleftrightarrow> (\<exists>c \<in> set cs. n_name (gc_from c) = s \<and> gc_type c = t)))"

lemma exported_Nil: "exported [] []"
  by (simp add: exported_def wf_connections_def conn_group_def)

lemma wf_connections_obj_set:
  "wf_connections r \<Longrightarrow> distinct (map fst tm) \<Longrightarrow> wf_connections (obj_set s tm r)"
proof -
  assume a: "wf_connections r" "distinct (map fst tm)"
  have d: "distinct (map fst (obj_set s tm r))" using a by (simp add: wf_connections_def distinct_obj_set)
  have "distinct (map fst tm')" if "(s', tm') \<in> set (obj_set s tm r)" for s' tm'
  proof -
    from that d have "map_of (obj_set s tm r) s' = Some tm'" by simp
    then have "s' = s \<and> tm' = tm \<or> map_of r s' = Some tm'" by (auto simp: map_of_obj_set split: if_splits)
    with a show ?thesis by (auto simp: wf_connections_def list_all_iff dest: map_of_SomeD)
  qed
  with d show ?thesis by (auto simp: wf_connections_def list_all_iff)
qed

lemma wf_connections_distinct: "wf_connections r \<Longrightarrow> map_of r s = Some tm \<Longrightarrow> distinct (map fst tm)"
  by (auto simp: wf_connections_def list_all_iff dest: map_of_SomeD)

text \<open>One step succeeds unless the node already has an object without the connection's type.\<close>

lemma exportConnection_fails:
  assumes "exported cs r"
  shows "exportConnection c r = Inl e \<longleftrightarrow> e = TypeError \<and>
    (\<exists>d \<in> set cs. n_name (gc_from d) = n_name (gc_from c)) \<and>
    \<not> (\<exists>d \<in> set cs. n_name (gc_from d) = n_name (gc_from c) \<and> gc_type d = gc_type c)"
proof (cases "map_of r (n_name (gc_from c))")
  case None
  then have "\<not> (\<exists>d \<in> set cs. n_name (gc_from d) = n_name (gc_from c))"
    using assms unfolding exported_def by blast
  with None show ?thesis by (simp add: exportConnection_def or_default_def Let_def)
next
  case (Some tm)
  then have "\<exists>d \<in> set cs. n_name (gc_from d) = n_name (gc_from c)"
    using assms unfolding exported_def by (metis option.distinct(1))
  moreover have "map_of tm (gc_type c) \<noteq> None \<longleftrightarrow>
      (\<exists>d \<in> set cs. n_name (gc_from d) = n_name (gc_from c) \<and> gc_type d = gc_type c)"
    using assms Some unfolding exported_def by blast
  ultimately show ?thesis using Some
    by (cases "map_of tm (gc_type c)") (auto simp: exportConnection_def or_default_def Let_def)
qed

lemma exportConnection_step:
  assumes inv: "exported cs r" and step: "exportConnection c r = Inr r'"
  shows "exported (cs @ [c]) r'"
proof -
  define nm where "nm = n_name (gc_from c)"
  define tm where "tm = or_default [(gc_type c, [])] (map_of r nm)"
  from step obtain slots where slots: "map_of tm (gc_type c) = Some slots"
    and r': "r' = obj_set nm (obj_set (gc_type c) (arr_put (gc_outputIndex c)
        (or_default [] (arr_get slots (gc_outputIndex c)) @ [to_iconn c]) slots) tm) r"
    by (auto simp: exportConnection_def tm_def nm_def to_iconn_def Let_def split: option.splits)
  from inv have wf: "wf_connections r"
    and grp: "\<And>s t i. conn_group r s t i = map to_iconn (filter (\<lambda>c. conn_src c = (s, t, i)) cs)"
    and none: "\<And>s. map_of r s = None \<longleftrightarrow> (\<forall>c \<in> set cs. n_name (gc_from c) \<noteq> s)"
    and some: "\<And>s tm t. map_of r s = Some tm \<Longrightarrow>
        map_of tm t \<noteq> None \<longleftrightarrow> (\<exists>c \<in> set cs. n_name (gc_from c) = s \<and> gc_type c = t)"
    unfolding exported_def by blast+
  have dtm: "distinct (map fst tm)"
    using wf_connections_distinct [OF wf] by (auto simp: tm_def or_default_def split: option.split)
  have old: "(case map_of tm t of None \<Rightarrow> [] | Some outs \<Rightarrow> or_default [] (arr_get outs i)) = conn_group r nm t i" for t i
    by (cases "map_of r nm") (simp_all add: conn_group_arr tm_def or_default_def arr_get_def)
  have new: "conn_group r' s t i = conn_group r s t i @ (if conn_src c = (s, t, i) then [to_iconn c] else [])" for s t i
  proof (cases "s = nm")
    case False
    then show ?thesis by (simp add: conn_group_arr r' map_of_obj_set conn_src_def nm_def)
  next
    case s: True
    show ?thesis
    proof (cases "t = gc_type c")
      case False
      have "conn_group r' s t i = (case map_of tm t of None \<Rightarrow> [] | Some outs \<Rightarrow> or_default [] (arr_get outs i))"
        using False by (simp add: conn_group_arr s r' map_of_obj_set)
      with False show ?thesis by (simp add: old s conn_src_def)
    next
      case True
      have "conn_group r' s t i = or_default [] (arr_get (arr_put (gc_outputIndex c)
          (or_default [] (arr_get slots (gc_outputIndex c)) @ [to_iconn c]) slots) i)"
        by (simp add: conn_group_arr s True r' map_of_obj_set)
      moreover have "or_default [] (arr_get slots i) = conn_group r nm (gc_type c) i" for i
        using old [where t = "gc_type c" and i = i] slots by simp
      ultimately show ?thesis
        by (auto simp: arr_get_put or_default_def s True conn_src_def nm_def)
    qed
  qed
  have keys: "map_of tm t \<noteq> None \<longleftrightarrow> (\<exists>d \<in> set (cs @ [c]). n_name (gc_from d) = nm \<and> gc_type d = t)" for t
  proof (cases "map_of r nm")
    case None
    then have "tm = [(gc_type c, [])]" by (simp add: tm_def or_default_def)
    with None none [of nm] show ?thesis by (auto simp: nm_def)
  next
    case (Some m)
    then have "tm = m" by (simp add: tm_def or_default_def)
    with some [OF Some, of t] slots show ?thesis by (auto simp: nm_def)
  qed
  show ?thesis
    unfolding exported_def
  proof (intro conjI allI impI)
    show "wf_connections r'" unfolding r' by (intro wf_connections_obj_set wf distinct_obj_set dtm)
    show "conn_group r' s t i = map to_iconn (filter (\<lambda>c. conn_src c = (s, t, i)) (cs @ [c]))" for s t i
      by (simp add: new grp)
    show "map_of r' s = None \<longleftrightarrow> (\<forall>d \<in> set (cs @ [c]). n_name (gc_from d) \<noteq> s)" for s
      using none by (auto simp: r' map_of_obj_set nm_def)
    show "map_of tm' t \<noteq> None \<longleftrightarrow> (\<exists>d \<in> set (cs @ [c]). n_name (gc_from d) = s \<and> gc_type d = t)"
      if "map_of r' s = Some tm'" for s tm' t
    proof (cases "s = nm")
      case True
      with that have "tm' = obj_set (gc_type c) (arr_put (gc_outputIndex c)
        (or_default [] (arr_get slots (gc_outputIndex c)) @ [to_iconn c]) slots) tm"
        by (simp add: r' map_of_obj_set)
      with keys [of t] slots True show ?thesis by (auto simp: map_of_obj_set nm_def)
    next
      case False
      with that have "map_of r s = Some tm'" by (simp add: r' map_of_obj_set)
      with some [OF this] False show ?thesis by (auto simp: nm_def)
    qed
  qed
qed

text \<open>No node sends on two types.\<close>

definition single_type :: "GraphConnection list \<Rightarrow> bool" where
  "single_type cs \<longleftrightarrow>
     list_all (\<lambda>c. list_all (\<lambda>d. n_name (gc_from c) = n_name (gc_from d) \<longrightarrow> gc_type c = gc_type d) cs) cs"

lemma single_typeD:
  "single_type cs \<Longrightarrow> c \<in> set cs \<Longrightarrow> d \<in> set cs \<Longrightarrow> n_name (gc_from c) = n_name (gc_from d) \<Longrightarrow> gc_type c = gc_type d"
  unfolding single_type_def list_all_iff by blast

lemma single_typeI:
  "(\<And>c d. c \<in> set cs \<Longrightarrow> d \<in> set cs \<Longrightarrow> n_name (gc_from c) = n_name (gc_from d) \<Longrightarrow> gc_type c = gc_type d) \<Longrightarrow>
   single_type cs"
  unfolding single_type_def list_all_iff by blast

lemma single_type_appendD: "single_type (cs @ ds) \<Longrightarrow> single_type cs"
  by (intro single_typeI) (erule single_typeD, auto)

lemma single_type_snoc:
  assumes "single_type cs"
  shows "single_type (cs @ [c]) \<longleftrightarrow>
    ((\<exists>d \<in> set cs. n_name (gc_from d) = n_name (gc_from c)) \<longrightarrow>
     (\<exists>d \<in> set cs. n_name (gc_from d) = n_name (gc_from c) \<and> gc_type d = gc_type c))"
  (is "_ \<longleftrightarrow> (?old \<longrightarrow> ?same)")
proof
  assume st: "single_type (cs @ [c])"
  have "gc_type d = gc_type c" if "d \<in> set cs" "n_name (gc_from d) = n_name (gc_from c)" for d
    by (rule single_typeD [OF st]) (use that in auto)
  then show "?old \<longrightarrow> ?same" by blast
next
  assume os: "?old \<longrightarrow> ?same"
  have c: "gc_type d = gc_type c" if "d \<in> set cs" "n_name (gc_from d) = n_name (gc_from c)" for d
  proof -
    from os that obtain e where e: "e \<in> set cs" "n_name (gc_from e) = n_name (gc_from c)" "gc_type e = gc_type c" by blast
    with single_typeD [OF assms that(1) e(1)] that show ?thesis by simp
  qed
  show "single_type (cs @ [c])"
  proof (rule single_typeI)
    fix x y
    assume "x \<in> set (cs @ [c])" "y \<in> set (cs @ [c])" and xy: "n_name (gc_from x) = n_name (gc_from y)"
    then consider "x \<in> set cs" "y \<in> set cs" | "x \<in> set cs" "y = c" | "x = c" "y \<in> set cs" | "x = c" "y = c" by auto
    then show "gc_type x = gc_type y"
      using c [of x] c [of y] single_typeD [OF assms, of x y] xy by cases simp_all
  qed
qed

lemma export_all:
  "(single_type cs \<longrightarrow> (\<exists>r. res_fold exportConnection cs [] = Inr r \<and> exported cs r)) \<and>
   (\<not> single_type cs \<longrightarrow> res_fold exportConnection cs [] = Inl TypeError)"
proof (induction cs rule: rev_induct)
  case Nil
  then show ?case by (simp add: exported_Nil single_type_def)
next
  case (snoc c cs)
  show ?case
  proof (cases "single_type cs")
    case False
    with snoc show ?thesis by (auto simp: res_fold_append dest: single_type_appendD)
  next
    case True
    with snoc obtain r where r: "res_fold exportConnection cs [] = Inr r" "exported cs r" by blast
    show ?thesis
    proof (cases "exportConnection c r")
      case (Inl e)
      with exportConnection_fails [OF r(2), of c e] single_type_snoc [OF True, of c] r(1)
      show ?thesis by (simp add: res_fold_append)
    next
      case (Inr r')
      have "exportConnection c r \<noteq> Inl TypeError" using Inr by simp
      with exportConnection_fails [OF r(2), of c TypeError] single_type_snoc [OF True, of c]
      have "single_type (cs @ [c])" by blast
      with Inr r exportConnection_step [OF r(2) Inr] show ?thesis by (simp add: res_fold_append)
    qed
  qed
qed

section \<open>Importing what was exported\<close>

text \<open>A loop whose every step stores a list of connections stores all of them in order.\<close>

definition put_conns :: "GraphConnection list \<Rightarrow> DirectedGraph \<Rightarrow> DirectedGraph" where
  "put_conns cs g = g\<lparr>dg_connections := fold (\<lambda>c. AList.update (makeKey c) c) cs (dg_connections g)\<rparr>"

lemma dg_nodes_put_conns [simp]: "dg_nodes (put_conns cs g) = dg_nodes g"
  by (simp add: put_conns_def)

lemma res_fold_put:
  assumes "\<And>x g. x \<in> set xs \<Longrightarrow> dg_nodes g = ns \<Longrightarrow> f x g = Inr (put_conns (h x) g)"
    and "dg_nodes g = ns"
  shows "res_fold f xs g = Inr (put_conns (concat (map h xs)) g)"
  using assms
proof (induction xs arbitrary: g)
  case Nil
  then show ?case by (simp add: put_conns_def)
next
  case (Cons x xs)
  then have "f x g = Inr (put_conns (h x) g)" by simp
  moreover have "res_fold f xs (put_conns (h x) g) = Inr (put_conns (concat (map h xs)) (put_conns (h x) g))"
    using Cons by simp
  ultimately show ?case by (simp add: put_conns_def)
qed

definition resolve :: "(string \<Rightarrow> INode option) \<Rightarrow> string \<times> string \<times> nat \<times> IConnection \<Rightarrow> GraphConnection" where
  "resolve getNode l = (case l of (s, t, i, c) \<Rightarrow>
     \<lparr>gc_from = the (getNode s), gc_to = the (getNode (c_node c)), gc_type = t,
      gc_outputIndex = i, gc_inputIndex = c_index c\<rparr>)"

lemma in_concat_mapI: "x \<in> set xs \<Longrightarrow> y \<in> set (f x) \<Longrightarrow> y \<in> set (concat (map f xs))"
  by auto

lemma in_linksI:
  assumes "(s, tm) \<in> set conns" and "(t, outs) \<in> set tm" and "(i, gr) \<in> set (enumerate 0 outs)" and "c \<in> set (or_empty gr)"
  shows "(s, t, i, c) \<in> set (links conns)"
  unfolding links_def
  by (rule in_concat_mapI [OF assms(1)], unfold prod.case, rule in_concat_mapI [OF assms(2)], unfold prod.case,
      rule in_concat_mapI [OF assms(3)]) (simp add: assms(4))

lemma connectAll_links:
  assumes src: "\<And>s tm. (s, tm) \<in> set conns \<Longrightarrow> \<exists>n. getNode s = Some n"
    and dst: "\<And>s t i c. (s, t, i, c) \<in> set (links conns) \<Longrightarrow> \<exists>n. getNode (c_node c) = Some n"
    and ok: "\<And>s n. getNode s = Some n \<Longrightarrow> nodeExists g n"
  shows "connectAll getNode conns g = Inr (put_conns (map (resolve getNode) (links conns)) g)"
proof -
  have ex: "nodeExists g' n" if "dg_nodes g' = dg_nodes g" "getNode s = Some n" for g' :: DirectedGraph and s n
    using ok [OF that(2)] that(1) by (simp add: nodeExists_def)
  have "(case getNode s of None \<Rightarrow> Inl AssertionError
       | Some from \<Rightarrow> res_fold (\<lambda>(outputType, outputs). res_fold (\<lambda>(outputIndex, conns).
               res_fold (\<lambda>conn graph. case getNode (c_node conn) of None \<Rightarrow> Inl AssertionError
                 | Some to \<Rightarrow> addConnection \<lparr>ci_from = from, ci_to = to, ci_type = Some outputType,
                       ci_outputIndex = Some outputIndex, ci_inputIndex = Some (c_index conn)\<rparr> graph)
                 (or_empty conns)) (enumerate 0 outputs)) tm g') =
      Inr (put_conns (map (resolve getNode) (concat (map (\<lambda>(t, outs).
        concat (map (\<lambda>(i, gr). map (\<lambda>c. (s, t, i, c)) (or_empty gr)) (enumerate 0 outs))) tm))) g')"
    if m: "(s, tm) \<in> set conns" and g': "dg_nodes g' = dg_nodes g" for s tm g'
  proof -
    obtain from' where from': "getNode s = Some from'" using src [OF m] by blast
    have "res_fold (\<lambda>(outputType, outputs). res_fold (\<lambda>(outputIndex, conns).
               res_fold (\<lambda>conn graph. case getNode (c_node conn) of None \<Rightarrow> Inl AssertionError
                 | Some to \<Rightarrow> addConnection \<lparr>ci_from = from', ci_to = to, ci_type = Some outputType,
                       ci_outputIndex = Some outputIndex, ci_inputIndex = Some (c_index conn)\<rparr> graph)
                 (or_empty conns)) (enumerate 0 outputs)) tm g' =
       Inr (put_conns (concat (map (\<lambda>(t, outs). concat (map (\<lambda>(i, gr). concat (map (\<lambda>c. [resolve getNode (s, t, i, c)]) (or_empty gr)))
           (enumerate 0 outs))) tm)) g')"
    proof (rule res_fold_put [OF _ g'], clarify, rule res_fold_put, clarify, rule res_fold_put)
      fix t outs i gr c and g1 g2 g3 :: DirectedGraph
      assume "(t, outs) \<in> set tm" "(i, gr) \<in> set (enumerate 0 outs)" "c \<in> set (or_empty gr)"
        and g3: "dg_nodes g3 = dg_nodes g"
      then have "(s, t, i, c) \<in> set (links conns)" using in_linksI [OF m] by blast
      from dst [OF this] obtain to where to: "getNode (c_node c) = Some to" by blast
      then show "(case getNode (c_node c) of None \<Rightarrow> Inl AssertionError
          | Some to \<Rightarrow> addConnection \<lparr>ci_from = from', ci_to = to, ci_type = Some t, ci_outputIndex = Some i,
              ci_inputIndex = Some (c_index c)\<rparr> g3) = Inr (put_conns [resolve getNode (s, t, i, c)] g3)"
        using ex [OF g3 from'] ex [OF g3 to] from'
        by (simp add: addConnection_def put_conns_def resolve_def or_default_def Let_def)
    qed auto
    then show ?thesis by (simp add: from' map_concat comp_def case_prod_unfold)
  qed
  then have "connectAll getNode conns g = Inr (put_conns (concat (map (\<lambda>(s, tm). map (resolve getNode) (concat (map (\<lambda>(t, outs).
        concat (map (\<lambda>(i, gr). map (\<lambda>c. (s, t, i, c)) (or_empty gr)) (enumerate 0 outs))) tm))) conns)) g)"
    unfolding connectAll_def by (intro res_fold_put [where ns = "dg_nodes g"]) auto
  then show ?thesis by (simp add: links_def map_concat comp_def case_prod_unfold)
qed

lemma in_links_iff:
  assumes "wf_connections conns"
  shows "(s, t, i, c) \<in> set (links conns) \<longleftrightarrow> c \<in> set (conn_group conns s t i)"
proof -
  have "(s, t, i, c) \<in> set (links conns) \<longleftrightarrow>
      (s, t, i, c) \<in> set (filter (\<lambda>l. fst l = s \<and> fst (snd l) = t \<and> fst (snd (snd l)) = i) (links conns))"
    by simp
  also have "\<dots> \<longleftrightarrow> c \<in> set (conn_group conns s t i)" unfolding links_at [OF assms] by auto
  finally show ?thesis .
qed

lemma exported_link:
  assumes "exported cs r"
  shows "(s, t, i, ic) \<in> set (links r) \<longleftrightarrow> (\<exists>c \<in> set cs. conn_src c = (s, t, i) \<and> ic = to_iconn c)"
  using assms by (auto simp: exported_def in_links_iff)

lemma set_conns: "set (map snd (dg_connections g)) = conns_of g"
  by (simp add: conns_of_def)

lemma resolve_exported:
  assumes "wf_graph g" and "exported (map snd (dg_connections g)) r"
  shows "resolve (map_of (dg_nodes g)) ` set (links r) = conns_of g"
proof -
  have again: "resolve (map_of (dg_nodes g)) (n_name (gc_from c), gc_type c, gc_outputIndex c, to_iconn c) = c"
    if "c \<in> conns_of g" for c
    using wf_graphD(5,6) [OF assms(1) that] by (simp add: resolve_def to_iconn_def nodeExists_def)
  show ?thesis
  proof
    show "resolve (map_of (dg_nodes g)) ` set (links r) \<subseteq> conns_of g"
    proof
      fix x
      assume "x \<in> resolve (map_of (dg_nodes g)) ` set (links r)"
      then obtain s t i ic where x: "x = resolve (map_of (dg_nodes g)) (s, t, i, ic)" and l: "(s, t, i, ic) \<in> set (links r)"
        by auto
      then obtain c where "c \<in> conns_of g" "conn_src c = (s, t, i)" "ic = to_iconn c"
        unfolding exported_link [OF assms(2)] set_conns by blast
      with again [of c] show "x \<in> conns_of g" by (simp add: x conn_src_def)
    qed
    show "conns_of g \<subseteq> resolve (map_of (dg_nodes g)) ` set (links r)"
    proof
      fix c
      assume c: "c \<in> conns_of g"
      then have "(n_name (gc_from c), gc_type c, gc_outputIndex c, to_iconn c) \<in> set (links r)"
        unfolding exported_link [OF assms(2)] set_conns by (auto simp: conn_src_def)
      with again [OF c] show "c \<in> resolve (map_of (dg_nodes g)) ` set (links r)" by (metis image_eqI)
    qed
  qed
qed

lemma export_import:
  assumes wf: "wf_graph g" and safe: "keys_safe g" and ex: "exported (map snd (dg_connections g)) r"
  shows "\<exists>g'. fromNodesAndConnections (map snd (getNodes g)) r = Inr g' \<and>
    wf_graph g' \<and> dg_nodes g' = dg_nodes g \<and> conns_of g' = conns_of g"
proof -
  let ?look = "map_of (dg_nodes g)"
  let ?h = "addNodes (map snd (dg_nodes g)) new_graph"
  let ?cs = "map (resolve ?look) (links r)"
  have h: "dg_nodes ?h = dg_nodes g" "dg_connections ?h = []"
    using nodes_refold [OF wf] by (simp_all add: addNodes_nodes new_graph_def)
  have exists: "nodeExists ?h n" if "?look s = Some n" for s n
    using that wf_graphD(3) [OF wf map_of_SomeD [OF that]] by (simp add: nodeExists_def h)
  have look: "?look (n_name n) = Some n" if "nodeExists g n" for n using that by (simp add: nodeExists_def)
  have src: "\<exists>n. ?look s = Some n" if "(s, tm) \<in> set r" for s tm
  proof -
    from that have "map_of r s \<noteq> None" by (metis fst_conv image_eqI map_of_eq_None_iff)
    moreover have "map_of r s = None \<longleftrightarrow> (\<forall>c \<in> conns_of g. n_name (gc_from c) \<noteq> s)"
      using ex unfolding exported_def set_conns by (elim conjE) (erule spec)
    ultimately have "\<exists>c \<in> conns_of g. n_name (gc_from c) = s" by simp
    then obtain c where "c \<in> conns_of g" "n_name (gc_from c) = s" ..
    with look wf_graphD(5) [OF wf] show ?thesis by blast
  qed
  have dst: "\<exists>n. ?look (c_node ic) = Some n" if "(s, t, i, ic) \<in> set (links r)" for s t i ic
    using that look wf_graphD(6) [OF wf] unfolding exported_link [OF ex] set_conns by (auto simp: to_iconn_def)
  have "fromNodesAndConnections (map snd (getNodes g)) r = Inr (put_conns ?cs ?h)"
    unfolding fromNodesAndConnections_def getNodes_def nodes_refold [OF wf] Let_def
    by (rule connectAll_links) (fact src, fact dst, fact exists)
  moreover have inj: "inj_on makeKey (snd ` set ([] :: (string \<times> GraphConnection) list) \<union> set ?cs)"
    using makeKey_eqD [OF safe] wf_graphD(5,6) [OF wf] keys_safeD(2) [OF safe]
    by (auto simp: resolve_exported [OF wf ex] intro!: inj_onI)
  from fold_update_keyed [OF _ _ inj] have conns: "conns_of (put_conns ?cs ?h) = conns_of g"
    and keyed: "distinct (map fst (dg_connections (put_conns ?cs ?h)))"
      "\<And>k c. (k, c) \<in> set (dg_connections (put_conns ?cs ?h)) \<Longrightarrow> k = makeKey c"
    unfolding set_conns [symmetric, of "put_conns ?cs ?h"]
    by (auto simp: put_conns_def h resolve_exported [OF wf ex])
  have "wf_graph (put_conns ?cs ?h)"
    unfolding wf_graph_def
  proof (intro conjI)
    show "distinct (map fst (dg_nodes (put_conns ?cs ?h)))"
      "list_all (\<lambda>(k, n). k = n_name n) (dg_nodes (put_conns ?cs ?h))"
      using wf by (simp_all add: h wf_graph_def)
    show "list_all (\<lambda>(k, c). k = makeKey c \<and> nodeExists (put_conns ?cs ?h) (gc_from c) \<and>
        nodeExists (put_conns ?cs ?h) (gc_to c)) (dg_connections (put_conns ?cs ?h))"
    proof (unfold list_all_iff, intro ballI, clarify)
      fix k c
      assume kc: "(k, c) \<in> set (dg_connections (put_conns ?cs ?h))"
      then have "c \<in> conns_of (put_conns ?cs ?h)" unfolding conns_of_def by force
      then have "c \<in> conns_of g" unfolding conns .
      with wf_graphD(5,6) [OF wf this] keyed(2) [OF kc]
      show "k = makeKey c \<and> nodeExists (put_conns ?cs ?h) (gc_from c) \<and> nodeExists (put_conns ?cs ?h) (gc_to c)"
        by (simp add: nodeExists_def h)
    qed
  qed (rule keyed(1))
  ultimately show ?thesis using conns h by simp
qed



text \<open>
  Exporting a graph fails with a type error exactly when some node has outgoing connections
  of two different types.
\<close>

lemma toIConnections_two_types:
  "toIConnections g = Inl TypeError \<longleftrightarrow>
     (\<exists>c \<in> set (map snd (dg_connections g)). \<exists>d \<in> set (map snd (dg_connections g)).
        n_name (gc_from c) = n_name (gc_from d) \<and> gc_type c \<noteq> gc_type d)"
proof -
  have "toIConnections g = Inl TypeError \<longleftrightarrow> \<not> single_type (map snd (dg_connections g))"
    using export_all [of "map snd (dg_connections g)"] unfolding toIConnections_def by force
  then show ?thesis unfolding single_type_def list_all_iff by blast
qed

end
