(* ===== verification/Rewire_Graph.thy ===== *)
theory Rewire_Graph
  imports Graph_Convert Workflow
begin

text \<open>
  \<open>rewire-graph.ts\<close>, with \<open>isTool\<close> of \<open>node-helpers.ts\<close> and \<open>DirectedGraph.toWorkflow\<close>: to run a tool on its own, the
  agent that it serves is replaced by a virtual node that calls the tool. Assignments to properties of node objects are
  seen by all that hold them, so they are applied to the nodes and to the ends of the connections.
\<close>

section \<open>Tools\<close>

text \<open>An output in the description of a node: a connection type, or an object with one.\<close>

datatype node_output = OutputName string | OutputObject "string option"

definition includesText :: "string \<Rightarrow> string \<Rightarrow> bool" where
  "includesText s needle \<longleftrightarrow> list_ex (\<lambda>i. take (length needle) (drop i s) = needle) [0 ..< Suc (length s)]"

fun isToolOutput :: "node_output list \<Rightarrow> bool" where
  "isToolOutput [] = False"
| "isToolOutput (OutputName s # outputs) = (s = AiTool)"
| "isToolOutput (OutputObject t # outputs) = (t = Some AiTool \<or> isToolOutput outputs)"

definition isTool :: "string \<Rightarrow> node_output list option \<Rightarrow> json \<Rightarrow> bool" where
  "isTool name outputs parameters =
     (if includesText name ''vectorStore''
      then (case parameters of JObj ps \<Rightarrow> map_of ps ''mode'' = Some (JStr ''retrieve-as-tool'') | _ \<Rightarrow> False)
      else case outputs of None \<Rightarrow> False | Some os \<Rightarrow> isToolOutput os)"

section \<open>The virtual agent\<close>

record AiAgentRequest =
  ar_query :: json
  ar_toolName :: string

definition TOOL_EXECUTOR_NODE_NAME :: string where
  "TOOL_EXECUTOR_NODE_NAME = ''PartialExecutionToolExecutor''"

definition changeNodes :: "(INode \<Rightarrow> INode) \<Rightarrow> DirectedGraph \<Rightarrow> DirectedGraph" where
  "changeNodes f g = g\<lparr>dg_nodes := map (\<lambda>(k, n). (k, f n)) (dg_nodes g),
     dg_connections := map (\<lambda>(k, c). (k, c\<lparr>gc_from := f (gc_from c), gc_to := f (gc_to c)\<rparr>)) (dg_connections g)\<rparr>"

definition markTool :: "INode \<Rightarrow> INode \<Rightarrow> INode" where
  "markTool tool n = (if n = tool then n\<lparr>n_rewireOutputLogTo := Some AiTool\<rparr> else n)"

text \<open>The new object has an identity of its own.\<close>

definition freshRef :: "DirectedGraph \<Rightarrow> nat" where
  "freshRef g = Suc (Max (insert 0 (set (map (n_ref \<circ> snd) (dg_nodes g)))))"

definition toolExecutor :: "(json \<Rightarrow> string) \<Rightarrow> nat \<Rightarrow> INode \<Rightarrow> INode \<Rightarrow> AiAgentRequest option \<Rightarrow> INode" where
  "toolExecutor stringify ref tool rootNode agentRequest =
     \<lparr>n_ref = ref, n_id = n_id rootNode, n_name = TOOL_EXECUTOR_NODE_NAME, n_type = ''@n8n/n8n-nodes-langchain.toolExecutor'',
      n_typeVersion = 0, n_position = (0, 0), n_disabled = Some False, n_retryOnFail = None, n_maxTries = None,
      n_waitBetweenTries = None, n_alwaysOutputData = None, n_executeOnce = None, n_onError = None, n_continueOnFail = None,
      n_parameters = JObj [(''query'', JStr (stringify (case agentRequest of None \<Rightarrow> JObj [] | Some r \<Rightarrow> ar_query r))),
        (''toolName'', JStr (case agentRequest of None \<Rightarrow> [] | Some r \<Rightarrow> ar_toolName r)), (''node'', JStr (n_name tool))],
      n_rewireOutputLogTo = None\<rparr>"

definition executorConnections :: "INode \<Rightarrow> INode \<Rightarrow> GraphConnection list \<Rightarrow> ConnectionInput list" where
  "executorConnections tool executor incoming =
     \<lparr>ci_from = tool, ci_to = executor, ci_type = Some AiTool, ci_outputIndex = None, ci_inputIndex = None\<rparr> #
     map (\<lambda>cn. \<lparr>ci_from = gc_from cn, ci_to = executor, ci_type = Some (gc_type cn), ci_outputIndex = None, ci_inputIndex = None\<rparr>) incoming"

definition rewireGraph ::
    "(json \<Rightarrow> string) \<Rightarrow> INode \<Rightarrow> DirectedGraph \<Rightarrow> AiAgentRequest option \<Rightarrow> DirectedGraph result" where
  "rewireGraph stringify tool graph agentRequest =
     res_bind (clone graph) (\<lambda>modifiedGraph.
     res_bind (getChildren modifiedGraph tool) (\<lambda>children.
       if children = [] then Inr graph
       else
         let rootNode = last children
         in res_bind (getDirectParentConnections modifiedGraph rootNode) (\<lambda>parents.
              let allIncomingConnection = filter (\<lambda>cn. gc_type cn = Main) parents;
                  executor = toolExecutor stringify (freshRef graph) tool rootNode agentRequest;
                  mark = markTool tool
              in res_bind (addConnections (executorConnections (mark tool) executor
                     (map (\<lambda>cn. cn\<lparr>gc_from := mark (gc_from cn), gc_to := mark (gc_to cn)\<rparr>) allIncomingConnection))
                     (changeNodes mark (addNode executor modifiedGraph))) (\<lambda>g.
                   res_bind (removeNode (mark rootNode) False (\<lambda>_. False) g) (\<lambda>r. Inr (snd r))))))"

text \<open>The graph as a workflow; the constructor puts default parameters into the node objects, so the graph that shares them
  is returned with them.\<close>

definition toWorkflow ::
    "INodeTypes \<Rightarrow> (INodeType \<Rightarrow> INode \<Rightarrow> json option) \<Rightarrow> Workflow \<Rightarrow> DirectedGraph \<Rightarrow> (Workflow \<times> DirectedGraph) result" where
  "toWorkflow nodeTypes getNodeParameters w g =
     res_bind (toIConnections g) (\<lambda>connections.
       Inr (newWorkflow nodeTypes getNodeParameters (map snd (dg_nodes g)) connections (w_active w) (w_pinData w),
            changeNodes (withDefaults nodeTypes getNodeParameters) g))"

section \<open>The rewired graph\<close>

lemma map_of_changeNodes: "map_of (dg_nodes (changeNodes f g)) k = map_option f (map_of (dg_nodes g) k)"
  by (simp add: changeNodes_def map_of_map)

lemma changeNodes_exists:
  assumes "\<And>n. n_name (f n) = n_name n" and "nodeExists g n"
  shows "nodeExists (changeNodes f g) (f n)"
  using assms by (simp add: nodeExists_def map_of_changeNodes)

lemma changeNodes_wf:
  assumes f: "\<And>n. n_name (f n) = n_name n" and g: "wf_graph g"
  shows "wf_graph (changeNodes f g)"
proof -
  have key: "makeKey (c\<lparr>gc_from := f (gc_from c), gc_to := f (gc_to c)\<rparr>) = makeKey c" for c by (simp add: makeKey_def f)
  have "map fst (dg_nodes (changeNodes f g)) = map fst (dg_nodes g)"
    "map fst (dg_connections (changeNodes f g)) = map fst (dg_connections g)"
    by (auto simp: changeNodes_def)
  moreover have "list_all (\<lambda>(k, n). k = n_name n) (dg_nodes (changeNodes f g))"
    using g by (auto simp: wf_graph_def changeNodes_def list_all_iff f)
  moreover have "k = makeKey c \<and> nodeExists (changeNodes f g) (gc_from c) \<and> nodeExists (changeNodes f g) (gc_to c)"
    if "(k, c) \<in> set (dg_connections (changeNodes f g))" for k c
  proof -
    from that obtain d where d: "(k, d) \<in> set (dg_connections g)" "c = d\<lparr>gc_from := f (gc_from d), gc_to := f (gc_to d)\<rparr>"
      by (auto simp: changeNodes_def)
    then have "d \<in> conns_of g" by (force simp: conns_of_def)
    with d wf_graphD(4-6) [OF g] show ?thesis by (auto simp: key f intro: changeNodes_exists)
  qed
  ultimately show ?thesis using g by (auto simp: wf_graph_def list_all_iff)
qed

lemma markTool_name [simp]: "n_name (markTool tool n) = n_name n"
  by (simp add: markTool_def)

lemma addConnections_exist:
  assumes "list_all (\<lambda>ci. nodeExists g (ci_from ci) \<and> nodeExists g (ci_to ci)) cis" and "wf_graph g"
  shows "\<exists>g'. addConnections cis g = Inr g' \<and> wf_graph g' \<and> dg_nodes g' = dg_nodes g"
  using assms unfolding addConnections_def
proof (induction cis arbitrary: g)
  case (Cons ci cis)
  then obtain g1 where g1: "addConnection ci g = Inr g1" "dg_nodes g1 = dg_nodes g"
    by (auto simp: addConnection_def Let_def)
  have "list_all (\<lambda>ci. nodeExists g1 (ci_from ci) \<and> nodeExists g1 (ci_to ci)) cis"
    using Cons.prems(1) g1(2) by (simp add: nodeExists_def)
  with Cons.IH [of g1] wf_addConnection [OF Cons.prems(2) g1(1)] g1 show ?case by auto
qed simp

text \<open>The agent is replaced: the graph stays well-formed, the virtual node takes the place of the root, and all other nodes stay.\<close>

lemma rewireGraph_replaces:
  assumes g: "wf_graph g" and tool: "nodeExists g tool" and ch: "getChildren g tool = Inr children" "children \<noteq> []"
    and fresh: "\<not> hasNode g TOOL_EXECUTOR_NODE_NAME"
  shows "\<exists>g'. rewireGraph stringify tool g request = Inr g' \<and> wf_graph g' \<and>
    (\<forall>nm. hasNode g' nm \<longleftrightarrow> nm = TOOL_EXECUTOR_NODE_NAME \<or> hasNode g nm \<and> nm \<noteq> n_name (last children))"
proof -
  let ?root = "last children" let ?mark = "markTool tool"
  let ?ex = "toolExecutor stringify (freshRef g) tool ?root request"
  have name: "n_name ?ex = TOOL_EXECUTOR_NODE_NAME" by (simp add: toolExecutor_def)
  have "?root \<in> set children" using ch(2) by simp
  then have "?root \<in> (edges g)\<^sup>* `` (edges g `` {tool})" using children_search.search_total [of g tool] g tool ch(1) by auto
  then have root: "nodeExists g ?root" using g by (auto elim: rtranclE dest: edges_to_exists)
  then obtain parents where parents: "getDirectParentConnections g ?root = Inr parents"
    by (auto simp: getDirectParentConnections_def)
  let ?incoming = "map (\<lambda>cn. cn\<lparr>gc_from := ?mark (gc_from cn), gc_to := ?mark (gc_to cn)\<rparr>) (filter (\<lambda>cn. gc_type cn = Main) parents)"
  let ?g1 = "changeNodes ?mark (addNode ?ex g)"
  have not_ex: "n_name n \<noteq> TOOL_EXECUTOR_NODE_NAME" if "nodeExists g n" for n using fresh that by (auto simp: hasNode_def nodeExists_def)
  have "wf_graph (addNode ?ex g)" by (rule wf_addNode [OF g]) (use not_ex name in auto)
  then have wf1: "wf_graph ?g1" by (intro changeNodes_wf) simp_all
  have keep: "nodeExists ?g1 (?mark n)" if "nodeExists g n" for n
    by (rule changeNodes_exists) (use that not_ex [OF that] name in \<open>simp_all add: nodeExists_addNode\<close>)
  have ex: "nodeExists ?g1 (?mark ?ex)" by (rule changeNodes_exists) (simp_all add: nodeExists_addNode)
  have "?ex \<noteq> tool" using not_ex [OF tool] name by auto
  then have "?mark ?ex = ?ex" by (simp add: markTool_def)
  moreover have "nodeExists g (gc_from cn)" if "cn \<in> set parents" for cn
    using that set_parent_connections [OF parents] wf_graphD(5) [OF g] by auto
  ultimately have "list_all (\<lambda>ci. nodeExists ?g1 (ci_from ci) \<and> nodeExists ?g1 (ci_to ci)) (executorConnections (?mark tool) ?ex ?incoming)"
    using keep keep [OF tool] ex by (simp add: executorConnections_def list_all_iff)
  from addConnections_exist [OF this wf1] obtain g2 where g2: "addConnections (executorConnections (?mark tool) ?ex ?incoming) ?g1 = Inr g2"
    "wf_graph g2" "dg_nodes g2 = dg_nodes ?g1" by blast
  have "nodeExists g2 (?mark ?root)" using keep [OF root] g2(3) by (simp add: nodeExists_def)
  note rm = wf_removeNode_plain [OF g2(2) this]
  let ?g3 = "g2\<lparr>dg_connections := drop_node (?mark ?root) (dg_connections g2), dg_nodes := AList.delete (n_name (?mark ?root)) (dg_nodes g2)\<rparr>"
  have "rewireGraph stringify tool g request = Inr ?g3"
    using clone_wf [OF g] ch parents g2(1) rm(1) by (simp add: rewireGraph_def Let_def)
  moreover have "hasNode ?g3 nm \<longleftrightarrow> nm = TOOL_EXECUTOR_NODE_NAME \<or> hasNode g nm \<and> nm \<noteq> n_name ?root" for nm
    using not_ex [OF root] name by (auto simp: hasNode_def g2(3) map_of_changeNodes addNode_def update_conv')
  ultimately show ?thesis using rm(2) by blast
qed

end
