(* ===== verification/Partial_Run.thy ===== *)
theory Partial_Run
  imports Engine_Safety Subgraph Run_Data Rewire_Graph Execution_Stack
begin

text \<open>
  How an execution starts: \<open>WorkflowExecute.run\<close> and \<open>runPartialWorkflow2\<close> of \<open>workflow-execute.ts\<close>, with the
  choice of the trigger in \<open>find-trigger-for-partial-execution.ts\<close>. A partial execution composes the
  components of \<open>partial-execution-utils\<close>: it cuts the graph down to the way from the trigger to the destination,
  finds where to start, drops stale run data and rebuilds the execution stack.

  If the destination is a tool, the graph is rewired first and the execution runs on the workflow made of it. What the
  description of a node type says of its outputs is the parameter \<open>outputsOf\<close>.
\<close>

section \<open>The trigger\<close>

definition endsWith :: "string \<Rightarrow> string \<Rightarrow> bool" where
  "endsWith s suf \<longleftrightarrow> length suf \<le> length s \<and> drop (length s - length suf) s = suf"

definition isTriggerNode :: "INodeType \<Rightarrow> bool" where
  "isTriggerNode nodeType \<longleftrightarrow> ''trigger'' \<in> set (nt_group nodeType)"

definition findAllParentTriggers :: "INodeTypes \<Rightarrow> Workflow \<Rightarrow> string \<Rightarrow> INode list result" where
  "findAllParentTriggers nodeTypes w destinationNodeName =
     (let nodes = map (getNode w) (wfGetParentNodes w destinationNodeName (Type Main) (-1));
          types = map (\<lambda>node. (the node, nodeTypes (n_type (the node)) (n_typeVersion (the node)))) nodes
      in if list_ex (\<lambda>node. node = None) nodes then Inl AssertionError
         else if list_ex (\<lambda>p. snd p = None) types then Inl TypeError
         else Inr (map fst (filter (\<lambda>p. isTriggerNode (the (snd p))) types)))"

definition anyReachableRootHasRunData :: "DirectedGraph \<Rightarrow> string \<Rightarrow> IRunData \<Rightarrow> bool result" where
  "anyReachableRootHasRunData graph destinationNodeName runData =
     (case map_of (dg_nodes graph) destinationNodeName of None \<Rightarrow> Inr False
      | Some destinationNode \<Rightarrow>
          res_bind (getParentConnections graph destinationNode) (\<lambda>parentConnections.
            let parentNodes = set_of_list (map gc_from parentConnections)
            in res_bind (res_fold (\<lambda>parentNode rootNodes.
                 res_bind (getDirectParentConnections graph parentNode) (\<lambda>cs.
                   Inr (if list_ex (\<lambda>c. gc_type c = Main) cs then rootNodes else set_add parentNode rootNodes))) parentNodes [])
               (\<lambda>rootNodes. Inr (list_ex (\<lambda>rootNode. map_of runData (n_name rootNode) \<noteq> None) rootNodes))))"

text \<open>Pinned triggers whose type ends with \<open>webhook\<close> come first.\<close>

definition byWebhook :: "INode \<Rightarrow> INode \<Rightarrow> int" where
  "byWebhook a b = (if endsWith (n_type a) ''webhook'' then -1 else if endsWith (n_type b) ''webhook'' then 1 else 0)"

definition chooseTrigger ::
    "((INode \<Rightarrow> INode \<Rightarrow> int) \<Rightarrow> INode list \<Rightarrow> INode list) \<Rightarrow> Workflow \<Rightarrow> IRunData \<Rightarrow> INode list \<Rightarrow> INode option" where
  "chooseTrigger arraySort w runData parentTriggers =
     (case find (\<lambda>trigger. map_of runData (n_name trigger) \<noteq> None) parentTriggers of
        Some trigger \<Rightarrow> Some trigger
      | None \<Rightarrow>
         (let pinned = arraySort byWebhook (filter (\<lambda>trigger.
                case w_pinData w of None \<Rightarrow> False | Some pin \<Rightarrow> map_of pin (n_name trigger) \<noteq> None) parentTriggers);
              webhooks = filter (\<lambda>trigger. endsWith (n_type trigger) ''webhook'') parentTriggers
          in if pinned \<noteq> [] then Some (hd pinned)
             else if webhooks \<noteq> [] then Some (hd webhooks)
             else case parentTriggers of [] \<Rightarrow> None | trigger # _ \<Rightarrow> Some trigger))"

definition findTriggerForPartialExecution ::
    "((INode \<Rightarrow> INode \<Rightarrow> int) \<Rightarrow> INode list \<Rightarrow> INode list) \<Rightarrow> INodeTypes \<Rightarrow> Workflow \<Rightarrow> string \<Rightarrow> IRunData \<Rightarrow> INode option result" where
  "findTriggerForPartialExecution arraySort nodeTypes w destinationNodeName runData =
     (case getNode w destinationNodeName of None \<Rightarrow> Inr None
      | Some destinationNode \<Rightarrow>
         (case nodeTypes (n_type destinationNode) (n_typeVersion destinationNode) of None \<Rightarrow> Inl TypeError
          | Some destinationNodeType \<Rightarrow>
              if isTriggerNode destinationNodeType \<and> \<not> is_disabled destinationNode then Inr (Some destinationNode)
              else res_bind (findAllParentTriggers nodeTypes w destinationNodeName) (\<lambda>triggers.
                Inr (chooseTrigger arraySort w runData (filter (\<lambda>trigger. \<not> is_disabled trigger) triggers)))))"

section \<open>Starting an execution\<close>

record IDestinationNode =
  d_nodeName :: string
  d_mode :: string

text \<open>\<open>createRunExecutionData\<close>, as far as the engine reads it; the execution index is kept in \<open>additionalData\<close>.\<close>

definition createRunExecutionData ::
    "IDestinationNode option \<Rightarrow> string list option \<Rightarrow> IRunData \<Rightarrow> IPinData option \<Rightarrow> IExecuteData list
       \<Rightarrow> IWaitingForExecution \<Rightarrow> IWaitingForExecutionSource \<Rightarrow> nat \<Rightarrow> Engine" where
  "createRunExecutionData destinationNode runNodeFilter runData pinData stack waiting sources executionIndex =
     \<lparr>g_queue = \<lparr>x_runData = runData, x_nodeExecutionStack = stack, x_waitingExecution = waiting, x_waitingExecutionSource = sources\<rparr>,
      g_pinData = pinData, g_lastNodeExecuted = None, g_error = None, g_waitTill = False, g_runNodeFilter = runNodeFilter,
      g_destinationNode = map_option d_nodeName destinationNode, g_executionIndex = executionIndex, g_lastExecutionTry = []\<rparr>"

definition runFilter :: "Workflow \<Rightarrow> IDestinationNode \<Rightarrow> string list \<Rightarrow> string list" where
  "runFilter w destinationNode additionalRunFilterNodes =
     set_of_list (wfGetParentNodes w (d_nodeName destinationNode) (Type Main) (-1) @
       wfGetParentNodes w (d_nodeName destinationNode) ALL_NON_MAIN (-1) @
       (if d_mode destinationNode = ''inclusive'' then [d_nodeName destinationNode] else []) @ additionalRunFilterNodes)"

definition runWorkflow ::
    "INodeTypes \<Rightarrow> Workflow \<Rightarrow> INode option \<Rightarrow> IDestinationNode option \<Rightarrow> IPinData option \<Rightarrow> ITaskDataConnections option
       \<Rightarrow> string list \<Rightarrow> nat \<Rightarrow> Engine result" where
  "runWorkflow nodeTypes w startNode destinationNode pinData triggerData additionalRunFilterNodes executionIndex =
     res_bind (case startNode of Some node \<Rightarrow> Inr (Some node)
               | None \<Rightarrow> getStartNode nodeTypes w (map_option d_nodeName destinationNode)) (\<lambda>start.
       case start of
         None \<Rightarrow> Inl (UserError ''No node to start the workflow from could be found'')
       | Some node \<Rightarrow>
           Inr (createRunExecutionData destinationNode
             (map_option (\<lambda>d. runFilter w d additionalRunFilterNodes) destinationNode) [] pinData
             [\<lparr>e_node = node, e_data = or_default emptyItemData triggerData, e_source = None, e_runIndex = None, e_metadata = None\<rparr>]
             [] [] executionIndex))"

section \<open>Starting a partial execution\<close>

text \<open>Without a trigger, the closest parent with run data is where the execution starts.\<close>

definition triggerOrParent ::
    "((INode \<Rightarrow> INode \<Rightarrow> int) \<Rightarrow> INode list \<Rightarrow> INode list) \<Rightarrow> INodeTypes \<Rightarrow> Workflow \<Rightarrow> string \<Rightarrow> IRunData \<Rightarrow> INode result" where
  "triggerOrParent arraySort nodeTypes w name runData =
     res_bind (findTriggerForPartialExecution arraySort nodeTypes w name runData) (\<lambda>trigger.
       case trigger of Some node \<Rightarrow> Inr node
       | None \<Rightarrow>
          (case find (\<lambda>nodeName. map_of runData nodeName \<noteq> None) (wfGetParentNodes w name (Type Main) (-1)) of
             None \<Rightarrow> Inl (UserError ''Connect a trigger to run this node'')
           | Some nodeName \<Rightarrow>
               (case getNode w nodeName of None \<Rightarrow> Inl (UserError ''Connect a trigger to run this node'') | Some node \<Rightarrow> Inr node)))"

text \<open>Steps 2 to 8, from the subgraph on.\<close>

definition startPartial ::
    "(string \<Rightarrow> string \<Rightarrow> int) \<Rightarrow> IRunData \<Rightarrow> IPinData \<Rightarrow> string list \<Rightarrow> IDestinationNode \<Rightarrow> INode \<Rightarrow> INode \<Rightarrow> DirectedGraph \<Rightarrow> Engine result" where
  "startPartial localeCompare runData pinData dirtyNodeNames destinationNode destination trigger graph =
     res_bind (cleanRunData runData graph (getNodesByNames graph dirtyNodeNames)) (\<lambda>clean.
     res_bind (findStartNodes graph trigger destination pinData clean) (\<lambda>found.
     res_bind (handleCycles graph found trigger) (\<lambda>startNodes.
     res_bind (cleanRunData clean graph startNodes) (\<lambda>runData'.
     res_bind (recreateNodeExecutionStack localeCompare graph startNodes runData' pinData) (\<lambda>r.
       Inr (createRunExecutionData (Some destinationNode) (Some (map (n_name \<circ> snd) (getNodes graph))) runData' (Some pinData)
         (r_nodeExecutionStack r) (r_waitingExecution r) (r_waitingExecutionSource r) (getNextExecutionIndex runData')))))))"

text \<open>What is to be run: the workflow, the destination and the graph, rewired if the destination is a tool.\<close>

definition partialTarget ::
    "(json \<Rightarrow> string) \<Rightarrow> INodeTypes \<Rightarrow> (INodeType \<Rightarrow> INode \<Rightarrow> json option) \<Rightarrow> (INodeType \<Rightarrow> node_output list option)
       \<Rightarrow> Workflow \<Rightarrow> IDestinationNode \<Rightarrow> AiAgentRequest option \<Rightarrow> (Workflow \<times> IDestinationNode \<times> INode \<times> DirectedGraph) result" where
  "partialTarget stringify nodeTypes getNodeParameters outputsOf w destinationNode agentRequest =
     (case getNode w (d_nodeName destinationNode) of None \<Rightarrow> Inl AssertionError
      | Some destination \<Rightarrow>
          res_bind (fromWorkflow (w_nodes w) (w_connectionsBySourceNode w)) (\<lambda>graph.
          case nodeTypes (n_type destination) (n_typeVersion destination) of None \<Rightarrow> Inl TypeError
          | Some destinationNodeType \<Rightarrow>
              if \<not> isTool (nt_name destinationNodeType) (outputsOf destinationNodeType) (n_parameters destination)
              then Inr (w, destinationNode, destination, graph)
              else
                res_bind (rewireGraph stringify destination graph agentRequest) (\<lambda>rewiredGraph.
                res_bind (toWorkflow nodeTypes getNodeParameters w rewiredGraph) (\<lambda>(w', graph').
                  case getNode w' TOOL_EXECUTOR_NODE_NAME of
                    None \<Rightarrow> Inl (OperationalError ''ToolExecutor can not be found'')
                  | Some toolExecutorNode \<Rightarrow>
                      Inr (w', \<lparr>d_nodeName = n_name toolExecutorNode, d_mode = ''inclusive''\<rparr>, toolExecutorNode, graph')))))"

record PartialPorts =
  pp_localeCompare :: "string \<Rightarrow> string \<Rightarrow> int"
  pp_arraySort :: "(INode \<Rightarrow> INode \<Rightarrow> int) \<Rightarrow> INode list \<Rightarrow> INode list"
  pp_stringify :: "json \<Rightarrow> string"
  pp_nodeTypes :: INodeTypes
  pp_getNodeParameters :: "INodeType \<Rightarrow> INode \<Rightarrow> json option"
  pp_outputsOf :: "INodeType \<Rightarrow> node_output list option"

definition runPartialWorkflow2 ::
    "PartialPorts \<Rightarrow> Workflow \<Rightarrow> IRunData \<Rightarrow> IPinData \<Rightarrow> string list \<Rightarrow> IDestinationNode \<Rightarrow> AiAgentRequest option \<Rightarrow> (Workflow \<times> Engine) result" where
  "runPartialWorkflow2 Q w runData pinData dirtyNodeNames destinationNode agentRequest =
     res_bind (partialTarget (pp_stringify Q) (pp_nodeTypes Q) (pp_getNodeParameters Q) (pp_outputsOf Q) w destinationNode agentRequest)
       (\<lambda>(w', destinationNode', destination, graph).
     res_bind (triggerOrParent (pp_arraySort Q) (pp_nodeTypes Q) w' (d_nodeName destinationNode') runData) (\<lambda>trigger.
     res_bind (filterDisabledNodes graph) (\<lambda>enabled.
     res_bind (findSubgraph enabled destination trigger) (\<lambda>subgraph.
     res_bind (startPartial (pp_localeCompare Q) runData pinData dirtyNodeNames destinationNode' destination trigger subgraph) (\<lambda>g.
       Inr (w', g))))))"

section \<open>What a partial execution can touch\<close>

text \<open>
  The nodes of a graph are stored under their names and satisfy a predicate. All nodes of the subgraph lead to the
  destination, and the filter of the run, a list of the names, holds the keys of the graph.
\<close>

definition named_graph :: "(INode \<Rightarrow> bool) \<Rightarrow> DirectedGraph \<Rightarrow> bool" where
  "named_graph Q g \<longleftrightarrow> list_all (\<lambda>(k, n). k = n_name n \<and> Q n) (dg_nodes g)"

lemma list_all_update: "list_all Q m \<Longrightarrow> Q (k, v) \<Longrightarrow> list_all Q (AList.update k v m)"
  by (induction m) auto

lemma named_addNode: "named_graph Q g \<Longrightarrow> Q n \<Longrightarrow> named_graph Q (addNode n g)"
  by (simp add: named_graph_def addNode_def list_all_update)

lemma named_keepConnection:
  assumes "keepConnection c h = Inr h'" and "named_graph Q h" and "Q (gc_from c)" and "Q (gc_to c)"
  shows "named_graph Q h'"
proof -
  have "named_graph Q (addNodes [gc_from c, gc_to c] h)" using assms by (simp add: addNodes_def named_addNode)
  moreover have "dg_nodes h' = dg_nodes (addNodes [gc_from c, gc_to c] h)"
    using assms(1) by (auto simp: keepConnection_def addConnection_Inr Let_def)
  ultimately show ?thesis by (simp add: named_graph_def)
qed

definition good_ends :: "(INode \<Rightarrow> bool) \<Rightarrow> GraphConnection list \<Rightarrow> bool" where
  "good_ends Q cs \<longleftrightarrow> list_all (\<lambda>c. Q (gc_from c) \<and> Q (gc_to c)) cs"

lemma named_keep_branch: "res_fold keepConnection br h = Inr h' \<Longrightarrow> named_graph Q h \<Longrightarrow> good_ends Q br \<Longrightarrow> named_graph Q h'"
  by (erule res_fold_invariant) (auto simp: good_ends_def list_all_iff intro: named_keepConnection)

lemma named_findSubgraphRecursive:
  assumes "\<And>c. c \<in> conns_of g \<Longrightarrow> Q (gc_to c) \<Longrightarrow> Q (gc_from c)"
  shows "findSubgraphRecursive g d cur t h br = Inr h' \<Longrightarrow> named_graph Q h \<Longrightarrow> good_ends Q br \<Longrightarrow> Q cur \<Longrightarrow> named_graph Q h'"
  using assms
proof (induction g d cur t h br arbitrary: h' rule: findSubgraphRecursive.induct)
  case (1 g d cur t h br)
  show ?case
  proof (cases "cur = t")
    case True
    with "1.prems" show ?thesis
      by (auto simp: findSubgraphRecursive.simps [of g] intro: named_keep_branch named_addNode)
  next
    case False
    with "1.prems"(1) obtain pcs where pcs: "getDirectParentConnections g cur = Inr pcs"
      by (cases "getDirectParentConnections g cur") (simp_all add: findSubgraphRecursive.simps [of g])
    note IH = "1.IH" [OF False pcs]
    show ?thesis
    proof (cases "pcs = [] \<or> list_ex (\<lambda>c. gc_to c = cur) br")
      case True
      with False pcs "1.prems"(1-3) show ?thesis
        by (auto simp: findSubgraphRecursive.simps [of g] split: if_splits intro: named_keep_branch)
    next
      case nv: False
      then have "res_fold (\<lambda>c h. if gc_type c \<noteq> Main then Inr h
          else findSubgraphRecursive g d (gc_from c) t h (br @ [c])) pcs h = Inr h'"
        using False pcs "1.prems"(1) by (auto simp: findSubgraphRecursive.simps [of g] split: if_splits)
      moreover have "named_graph Q h2" if c: "c \<in> set pcs" and h1: "named_graph Q h1"
        and r: "(if gc_type c \<noteq> Main then Inr h1 else findSubgraphRecursive g d (gc_from c) t h1 (br @ [c])) = Inr h2" for c h1 h2
      proof (cases "gc_type c = Main")
        case True
        have "c \<in> conns_of g" "gc_to c = cur" using c set_parent_connections [OF pcs] by auto
        with "1.prems"(3-5) have "Q (gc_from c)" "good_ends Q (br @ [c])" by (auto simp: good_ends_def)
        with True r h1 c nv IH [where h' = h2] "1.prems"(5) show ?thesis by auto
      qed (use r h1 in simp)
      ultimately show ?thesis using res_fold_invariant [where P = "named_graph Q"] "1.prems"(2) by blast
    qed
  qed
qed

lemma parent_connection_leads:
  assumes "getParentConnections g n = Inr pcs" and "c \<in> set pcs"
  shows "c \<in> conns_of g \<and> (gc_to c, n) \<in> (edges g)\<^sup>*"
proof -
  from assms(1) obtain cs where cs: "getDirectParentConnections g n = Inr cs" and "getParentConnectionsLoop g cs [] = Inr pcs"
    by (auto simp: getParentConnections_def getParentConnectionsRecursive_def res_bind_Inr_iff)
  then have "set pcs \<subseteq> (conn_step g)\<^sup>* `` {c \<in> conns_of g. gc_to c = n}"
    using getParentConnectionsLoop_correct [of g cs "[]" pcs] set_parent_connections [OF cs] by simp
  with assms(2) show ?thesis using conn_step_reaches by blast
qed

lemma named_findSubgraph:
  assumes "findSubgraph g d t = Inr s"
  shows "named_graph (\<lambda>n. (n, d) \<in> (edges g)\<^sup>*) s"
proof -
  let ?Q = "\<lambda>n. (n, d) \<in> (edges g)\<^sup>*"
  let ?f = "\<lambda>node subgraph. res_bind (getParentConnections g node) (\<lambda>parentConnections.
      res_fold (\<lambda>connection subgraph. if gc_type connection = Main then Inr subgraph else keepConnection connection subgraph)
        parentConnections subgraph)"
  have backwards: "?Q (gc_from c)" if "c \<in> conns_of g" "?Q (gc_to c)" for c
    using that edge_of_conn by (blast intro: converse_rtrancl_into_rtrancl)
  from assms obtain h where h: "findSubgraphRecursive g d d t new_graph [] = Inr h"
    and s: "res_fold ?f (map snd (getNodes h)) h = Inr s"
    by (auto simp: findSubgraph_def res_bind_Inr_iff)
  have nh: "named_graph ?Q h"
    by (rule named_findSubgraphRecursive [where g = g and Q = ?Q, OF _ h])
      (use backwards in \<open>simp_all add: named_graph_def new_graph_def good_ends_def\<close>)
  have step: "named_graph ?Q h2" if "?Q n" and h1: "named_graph ?Q h1" and "?f n h1 = Inr h2" for n h1 h2
  proof -
    from that obtain pcs where pcs: "getParentConnections g n = Inr pcs"
      and f: "res_fold (\<lambda>c h. if gc_type c = Main then Inr h else keepConnection c h) pcs h1 = Inr h2"
      by (auto simp: res_bind_Inr_iff)
    have "c \<in> conns_of g \<and> (gc_to c, n) \<in> (edges g)\<^sup>*" if "c \<in> set pcs" for c
      using parent_connection_leads [OF pcs that] .
    then have good: "?Q (gc_to c)" "?Q (gc_from c)" if "c \<in> set pcs" for c
      using that backwards \<open>?Q n\<close> by (blast intro: rtrancl_trans)+
    show ?thesis using f h1
      by (rule res_fold_invariant) (use good in \<open>auto intro: named_keepConnection split: if_splits\<close>)
  qed
  have "?Q n" if "n \<in> set (map snd (getNodes h))" for n
    using that nh by (auto simp: named_graph_def getNodes_def list_all_iff)
  then show ?thesis using step by (intro res_fold_invariant [OF s, where P = "named_graph ?Q"] nh) blast
qed

text \<open>Cleaning only deletes: no index is used more often afterwards, and what is left belongs to nodes of the graph.\<close>

definition shrinks :: "IRunData \<Rightarrow> IRunData \<Rightarrow> bool" where
  "shrinks rd rd' \<longleftrightarrow> (\<forall>i. index_count rd' i \<le> index_count rd i)"

lemma shrinks_refl: "shrinks rd rd"
  by (simp add: shrinks_def)

lemma shrinks_trans: "shrinks rd rd' \<Longrightarrow> shrinks rd' rd'' \<Longrightarrow> shrinks rd rd''"
  unfolding shrinks_def using order_trans by blast

lemma shrinks_filter: "shrinks rd (filter Q rd)"
  by (simp add: shrinks_def index_count_def sum_list_filter_le_nat)

lemma shrinks_delete: "shrinks rd (AList.delete k rd)"
  by (simp add: AList.delete_eq shrinks_filter)

lemma shrinks_fold_delete: "shrinks rd (fold (\<lambda>c rd. if Q c then rd else AList.delete (f c) rd) cs rd)"
  by (induction cs arbitrary: rd) (auto intro: shrinks_trans [OF shrinks_delete] shrinks_refl)

lemma shrinks_cleanNode: "cleanNode g n rd = Inr rd' \<Longrightarrow> shrinks rd rd'"
  by (cases "getParentConnections g n")
    (auto simp: cleanNode_def intro: shrinks_trans [OF shrinks_delete shrinks_fold_delete])

lemma cleanRunData_shrinks:
  assumes "cleanRunData rd g ns = Inr rd'"
  shows "shrinks rd rd'" and "map_of rd' nm \<noteq> None \<Longrightarrow> hasNode g nm"
proof -
  let ?f = "\<lambda>nodeToClean newRunData. let newRunData = AList.delete (n_name nodeToClean) newRunData
    in res_bind (getChildren g nodeToClean) (\<lambda>children. res_fold (cleanNode g) (nodeToClean # children) newRunData)"
  from assms obtain rd1 where run: "res_fold ?f ns rd = Inr rd1" and rd': "rd' = filter (\<lambda>(nodeName, _). hasNode g nodeName) rd1"
    by (cases "res_fold ?f ns rd") (auto simp: cleanRunData_def)
  have step: "shrinks rd rd'" if "?f n rd = Inr rd'" for n rd rd'
  proof -
    from that obtain children where "res_fold (cleanNode g) (n # children) (AList.delete (n_name n) rd) = Inr rd'"
      by (cases "getChildren g n") (auto simp: Let_def)
    then have "shrinks (AList.delete (n_name n) rd) rd'"
      by (rule res_fold_invariant) (blast intro: shrinks_refl shrinks_trans shrinks_cleanNode)+
    then show ?thesis by (rule shrinks_trans [OF shrinks_delete])
  qed
  from run have "shrinks rd rd1"
    by (rule res_fold_invariant) (blast intro: shrinks_refl shrinks_trans step)+
  then show "shrinks rd rd'" unfolding rd' by (rule shrinks_trans [OF _ shrinks_filter])
  show "hasNode g nm" if "map_of rd' nm \<noteq> None" using that unfolding rd' by (auto dest!: map_of_SomeD)
qed

section \<open>Partial executions\<close>

lemma startPartial_start:
  assumes "startPartial localeCompare rd pin dirty dn d t s = Inr g"
  shows "shrinks rd (run_data g)" "map_of (run_data g) nm \<noteq> None \<Longrightarrow> hasNode s nm"
    "g_runNodeFilter g = Some (map (n_name \<circ> snd) (getNodes s))" "g_executionIndex g = getNextExecutionIndex (run_data g)"
proof -
  from assms obtain clean sn rd' stack waiting sources where c: "cleanRunData rd s (getNodesByNames s dirty) = Inr clean"
    and c': "cleanRunData clean s sn = Inr rd'"
    and "createRunExecutionData (Some dn) (Some (map (n_name \<circ> snd) (getNodes s))) rd' (Some pin)
      stack waiting sources (getNextExecutionIndex rd') = g"
    unfolding startPartial_def res_bind_Inr_iff sum.inject by blast
  note g = this(3) [symmetric]
  have rd': "run_data g = rd'" by (simp add: g createRunExecutionData_def)
  show "shrinks rd (run_data g)" unfolding rd'
    by (rule shrinks_trans [OF cleanRunData_shrinks(1) [OF c] cleanRunData_shrinks(1) [OF c']])
  show "hasNode s nm" if "map_of (run_data g) nm \<noteq> None" using cleanRunData_shrinks(2) [OF c'] that unfolding rd' .
  show "g_runNodeFilter g = Some (map (n_name \<circ> snd) (getNodes s))" "g_executionIndex g = getNextExecutionIndex (run_data g)"
    by (simp_all add: g createRunExecutionData_def)
qed

abbreviation target_of :: "PartialPorts \<Rightarrow> Workflow \<Rightarrow> IDestinationNode \<Rightarrow> AiAgentRequest option
    \<Rightarrow> (Workflow \<times> IDestinationNode \<times> INode \<times> DirectedGraph) result" where
  "target_of Q \<equiv> partialTarget (pp_stringify Q) (pp_nodeTypes Q) (pp_getNodeParameters Q) (pp_outputsOf Q)"

lemma runPartialWorkflow2_Inr:
  assumes "runPartialWorkflow2 Q w rd pin dirty dn request = Inr (w', g)"
  obtains dn' d graph t enabled s where "target_of Q w dn request = Inr (w', dn', d, graph)" "filterDisabledNodes graph = Inr enabled"
    "findSubgraph enabled d t = Inr s" "startPartial (pp_localeCompare Q) rd pin dirty dn' d t s = Inr g"
proof -
  from assms obtain x where x: "target_of Q w dn request = Inr x"
    by (cases "target_of Q w dn request") (simp_all add: runPartialWorkflow2_def)
  obtain w1 dn' d graph where "x = (w1, dn', d, graph)" by (cases x)
  with x assms show ?thesis by (auto simp: runPartialWorkflow2_def res_bind_Inr_iff intro: that)
qed


text \<open>A trigger, two nodes after it and one that is not on the way to the destination.\<close>

definition ex_types :: INodeTypes where
  "ex_types ty v = Some \<lparr>nt_name = ty, nt_group = (if ty = ''trig'' then [''trigger''] else []), nt_trigger = False, nt_poll = False\<rparr>"

definition ex_branches :: Workflow where
  "ex_branches = newWorkflow (\<lambda>_ _. None) (\<lambda>_ _. None)
     [plain_node 0 ''T'' ''trig'', plain_node 1 ''A'' ''t'', plain_node 2 ''B'' ''t'', plain_node 3 ''D'' ''t'']
     [(''T'', [(Main, [Some [\<lparr>c_node = ''A'', c_type = Main, c_index = 0\<rparr>, \<lparr>c_node = ''B'', c_type = Main, c_index = 0\<rparr>]])]),
      (''A'', [(Main, [Some [\<lparr>c_node = ''D'', c_type = Main, c_index = 0\<rparr>]])])] True None"

definition ex_partial_ports :: PartialPorts where
  "ex_partial_ports = \<lparr>pp_localeCompare = \<lambda>_ _. 0, pp_arraySort = \<lambda>_ xs. xs, pp_stringify = \<lambda>_. [], pp_nodeTypes = ex_types,
     pp_getNodeParameters = \<lambda>_ n. Some (n_parameters n), pp_outputsOf = \<lambda>nt. Some [OutputName (if nt_name nt = ''tool'' then AiTool else Main)]\<rparr>"

definition ex_partial :: "(Workflow \<times> Engine) result" where
  "ex_partial = runPartialWorkflow2 ex_partial_ports ex_branches [] [] [] \<lparr>d_nodeName = ''D'', d_mode = ''inclusive''\<rparr> None"

definition ex_run :: "Workflow \<Rightarrow> Engine \<Rightarrow> Engine option" where
  "ex_run w g = outcome (engineStep ex_ports (Some ''v1'') True w g)"


text \<open>A tool as destination: the agent it serves is replaced by the virtual node, which is run with the tool.\<close>

definition ex_tool_flow :: Workflow where
  "ex_tool_flow = newWorkflow (\<lambda>_ _. None) (\<lambda>_ _. None)
     [plain_node 0 ''T'' ''trig'', plain_node 1 ''Agent'' ''t'', plain_node 2 ''Calc'' ''tool'']
     [(''T'', [(Main, [Some [\<lparr>c_node = ''Agent'', c_type = Main, c_index = 0\<rparr>]])]),
      (''Calc'', [(AiTool, [Some [\<lparr>c_node = ''Agent'', c_type = AiTool, c_index = 0\<rparr>]])])] True None"

lemma partial_execution_of_tool:
  "(case runPartialWorkflow2 ex_partial_ports ex_tool_flow [] [] [] \<lparr>d_nodeName = ''Calc'', d_mode = ''inclusive''\<rparr> None of
      Inl _ \<Rightarrow> None | Inr (w, g) \<Rightarrow> Some (map fst (w_nodes w), g_runNodeFilter g, g_destinationNode g)) =
   Some ([''T'', ''Calc'', TOOL_EXECUTOR_NODE_NAME], Some [''T'', TOOL_EXECUTOR_NODE_NAME, ''Calc''], Some TOOL_EXECUTOR_NODE_NAME)"
  by code_simp

section \<open>The chosen trigger\<close>


lemma chooseTrigger_member:
  assumes "chooseTrigger arraySort w rd ts = Some t" and "\<And>f xs. set (arraySort f xs) = set xs"
  shows "t \<in> set ts \<and> (map_of rd (n_name t) = None \<longrightarrow> (\<forall>t' \<in> set ts. map_of rd (n_name t') = None))"
proof (cases "find (\<lambda>trigger. map_of rd (n_name trigger) \<noteq> None) ts")
  case (Some t')
  then have "t' = t" using assms(1) unfolding chooseTrigger_def by simp
  with Some show ?thesis by (auto simp: find_Some_iff)
next
  case None
  let ?pinned = "filter (\<lambda>trigger. case w_pinData w of None \<Rightarrow> False | Some pin \<Rightarrow> map_of pin (n_name trigger) \<noteq> None) ts"
  let ?webhooks = "filter (\<lambda>trigger. endsWith (n_type trigger) ''webhook'') ts"
  have "t = hd (arraySort byWebhook ?pinned) \<and> arraySort byWebhook ?pinned \<noteq> [] \<or> t = hd ?webhooks \<and> ?webhooks \<noteq> [] \<or> t = hd ts \<and> ts \<noteq> []"
    using assms(1) None unfolding chooseTrigger_def Let_def by (simp split: if_splits list.splits)
  then have "t \<in> set (arraySort byWebhook ?pinned) \<or> t \<in> set ?webhooks \<or> t \<in> set ts" using hd_in_set by metis
  then have "t \<in> set ts" unfolding assms(2) by auto
  moreover have "\<forall>t' \<in> set ts. map_of rd (n_name t') = None" using None unfolding find_None_iff by blast
  ultimately show ?thesis by blast
qed

definition trigger_at :: "INodeTypes \<Rightarrow> Workflow \<Rightarrow> string \<Rightarrow> INode \<Rightarrow> bool" where
  "trigger_at nodeTypes w nm t \<longleftrightarrow> getNode w nm = Some t \<and>
     (case nodeTypes (n_type t) (n_typeVersion t) of None \<Rightarrow> False | Some nt \<Rightarrow> isTriggerNode nt)"

lemma findAllParentTriggers_exact:
  assumes "findAllParentTriggers nodeTypes w nm = Inr ts"
  shows "t \<in> set ts \<longleftrightarrow> (\<exists>nm' \<in> set (wfGetParentNodes w nm (Type Main) (-1)). trigger_at nodeTypes w nm' t)"
proof -
  let ?parents = "wfGetParentNodes w nm (Type Main) (-1)"
  let ?type = "\<lambda>node. nodeTypes (n_type node) (n_typeVersion node)"
  have ok: "\<not> list_ex (\<lambda>node. node = None) (map (getNode w) ?parents)"
    "\<not> list_ex (\<lambda>p. snd p = None) (map (\<lambda>node. (the node, ?type (the node))) (map (getNode w) ?parents))"
    using assms by (simp_all add: findAllParentTriggers_def Let_def split: if_splits)
  have some: "getNode w nm' \<noteq> None" if "nm' \<in> set ?parents" for nm'
    using that ok(1) unfolding list_ex_iff set_map by (metis imageI)
  have "ts = map fst (filter (\<lambda>p. isTriggerNode (the (snd p))) (map (\<lambda>node. (the node, ?type (the node))) (map (getNode w) ?parents)))"
    using assms by (simp add: findAllParentTriggers_def Let_def split: if_splits)
  then have "t \<in> set ts \<longleftrightarrow> (\<exists>nm' \<in> set ?parents. t = the (getNode w nm') \<and> isTriggerNode (the (?type (the (getNode w nm')))))"
    by (auto simp: image_iff)
  moreover have "t = the (getNode w nm') \<and> isTriggerNode (the (?type (the (getNode w nm')))) \<longleftrightarrow> trigger_at nodeTypes w nm' t"
    if "nm' \<in> set ?parents" for nm'
  proof -
    from some [OF that] obtain n where n: "getNode w nm' = Some n" by blast
    moreover have "?type (the (getNode w nm')) \<noteq> None" using that ok(2) by (auto simp: list_ex_iff)
    ultimately obtain nt where "?type n = Some nt" by auto
    with n show ?thesis by (auto simp: trigger_at_def)
  qed
  ultimately show ?thesis by blast
qed

text \<open>
  C22: the trigger of a partial execution is enabled and of a trigger type, and it is the destination itself or one of
  its ancestors over main connections. An ancestor without run data is taken only if no enabled trigger among the
  ancestors has any. Sorting is assumed to permute the array.
\<close>

theorem findTriggerForPartialExecution_correct:
  assumes "findTriggerForPartialExecution arraySort nodeTypes w destination rd = Inr (Some t)"
    and "\<forall>f xs. set (arraySort f xs) = set xs"
  shows "\<not> is_disabled t \<and> (trigger_at nodeTypes w destination t \<or>
    (\<exists>nm \<in> set (wfGetParentNodes w destination (Type Main) (-1)). trigger_at nodeTypes w nm t) \<and>
    (map_of rd (n_name t) = None \<longrightarrow> (\<forall>nm \<in> set (wfGetParentNodes w destination (Type Main) (-1)).
      \<forall>t'. trigger_at nodeTypes w nm t' \<and> \<not> is_disabled t' \<longrightarrow> map_of rd (n_name t') = None)))"
proof -
  obtain d nt where d: "getNode w destination = Some d" "nodeTypes (n_type d) (n_typeVersion d) = Some nt"
    using assms(1) by (auto simp: findTriggerForPartialExecution_def split: option.splits)
  show ?thesis
  proof (cases "isTriggerNode nt \<and> \<not> is_disabled d")
    case True
    with d assms(1) show ?thesis by (simp add: findTriggerForPartialExecution_def trigger_at_def)
  next
    case False
    with d assms(1) obtain ts where ts: "findAllParentTriggers nodeTypes w destination = Inr ts"
      "chooseTrigger arraySort w rd (filter (\<lambda>trigger. \<not> is_disabled trigger) ts) = Some t"
      by (auto simp: findTriggerForPartialExecution_def res_bind_Inr_iff)
    have "set (arraySort f xs) = set xs" for f xs using assms(2) by blast
    from chooseTrigger_member [OF ts(2) this] have "t \<in> set ts" "\<not> is_disabled t"
      "map_of rd (n_name t) = None \<longrightarrow> (\<forall>t' \<in> set ts. \<not> is_disabled t' \<longrightarrow> map_of rd (n_name t') = None)" by auto
    moreover note findAllParentTriggers_exact [OF ts(1)]
    ultimately show ?thesis by (intro conjI disjI2) (blast+)
  qed
qed

theorem findTriggerForPartialExecution_correct_witness:
  "findTriggerForPartialExecution (\<lambda>_ xs. xs) ex_types ex_branches ''D'' [] = Inr (Some (plain_node 0 ''T'' ''trig'')) \<and>
   trigger_at ex_types ex_branches ''T'' (plain_node 0 ''T'' ''trig'')"
proof
  show f: "findTriggerForPartialExecution (\<lambda>_ xs. xs) ex_types ex_branches ''D'' [] = Inr (Some (plain_node 0 ''T'' ''trig''))"
    by code_simp
  have "\<forall>f xs. set ((\<lambda>_ xs. xs) (f :: INode \<Rightarrow> INode \<Rightarrow> int) xs) = set xs" by simp
  from findTriggerForPartialExecution_correct [OF f this]
  have "trigger_at ex_types ex_branches ''D'' (plain_node 0 ''T'' ''trig'') \<or>
    (\<exists>nm \<in> set (wfGetParentNodes ex_branches ''D'' (Type Main) (-1)). trigger_at ex_types ex_branches nm (plain_node 0 ''T'' ''trig''))" by blast
  moreover have "\<not> trigger_at ex_types ex_branches ''D'' (plain_node 0 ''T'' ''trig'')" by code_simp
  moreover have "wfGetParentNodes ex_branches ''D'' (Type Main) (-1) = [''T'', ''A'']" by code_simp
  moreover have "\<not> trigger_at ex_types ex_branches ''A'' (plain_node 0 ''T'' ''trig'')" by code_simp
  ultimately show "trigger_at ex_types ex_branches ''T'' (plain_node 0 ''T'' ''trig'')" by simp
qed

end
