(* ===== verification/Engine_Requests.thy ===== *)
theory Engine_Requests
  imports Engine_Safety
begin

text \<open>
  Requests of nodes to the engine, \<open>requests-response.ts\<close> and \<open>handleEngineRequest\<close> of \<open>workflow-execute.ts\<close>: an AI
  agent answers with the tools it wants to be run; the engine reserves a run for each of them, puts the tools
  and, below them, the agent on the stack, and hands the results to the agent when it is run again.

  A tool is marked by assigning to a property of its node object, which the workflow and the entries of the stack
  share. The override of the input that the editor shows (\<open>inputOverride\<close>) is left out of the reserved runs.
\<close>

section \<open>Requests\<close>

record ActionMetadata =
  am_parentNodeName :: "string option"
  am_itemIndex :: "nat option"

record ExecuteNodeAction =
  ac_nodeName :: string
  ac_input :: "(string, json) dict"
  ac_type :: string
  ac_id :: string
  ac_metadata :: "ActionMetadata option"

record EngineRequest =
  er_actions :: "ExecuteNodeAction list"
  er_metadata :: json

record NodeToBeExecuted =
  nb_inputConnectionData :: IConnection
  nb_parentOutputIndex :: nat
  nb_parentNode :: string
  nb_parentOutputData :: "INodeExecutionData list option list"
  nb_runIndex :: nat
  nb_nodeRunIndex :: nat
  nb_metadata :: "(string, json) dict"

record SubNodeAction =
  sn_action :: ExecuteNodeAction
  sn_nodeName :: string
  sn_runIndex :: nat

text \<open>The same data as they are stored in the metadata of an entry.\<close>

definition source_json :: "ISourceData \<Rightarrow> json" where
  "source_json s = JObj ((''previousNode'', JStr (previousNode s)) #
     (case previousNodeOutput s of None \<Rightarrow> [] | Some i \<Rightarrow> [(''previousNodeOutput'', JNum (int i))]) @
     (case previousNodeRun s of None \<Rightarrow> [] | Some i \<Rightarrow> [(''previousNodeRun'', JNum (int i))]))"

definition action_json :: "ExecuteNodeAction \<Rightarrow> json" where
  "action_json a = JObj [(''actionType'', JStr ''ExecutionNodeAction''), (''nodeName'', JStr (ac_nodeName a)),
     (''input'', JObj (ac_input a)), (''type'', JStr (ac_type a)), (''id'', JStr (ac_id a)),
     (''metadata'', case ac_metadata a of None \<Rightarrow> JNull | Some m \<Rightarrow> JObj (
        (case am_parentNodeName m of None \<Rightarrow> [] | Some n \<Rightarrow> [(''parentNodeName'', JStr n)]) @
        (case am_itemIndex m of None \<Rightarrow> [] | Some i \<Rightarrow> [(''itemIndex'', JNum (int i))])))]"

definition sub_json :: "SubNodeAction \<Rightarrow> json" where
  "sub_json s = JObj [(''action'', action_json (sn_action s)), (''nodeName'', JStr (sn_nodeName s)), (''runIndex'', JNum (int (sn_runIndex s)))]"

section \<open>Reserving runs\<close>

definition buildParentOutputData :: "(string, json) dict \<Rightarrow> nat \<Rightarrow> nat \<Rightarrow> string \<Rightarrow> INodeExecutionData list option list" where
  "buildParentOutputData json parentRunIndex parentOutputIndex parentSourceNode =
     [Some [\<lparr>i_json = json, i_error = None, i_pairedItem = Some (PairedOne
        \<lparr>pi_item = parentRunIndex, pi_input = Some parentOutputIndex, pi_sourceOverwrite = Some
           \<lparr>previousNode = parentSourceNode, previousNodeOutput = Some parentOutputIndex, previousNodeRun = Some parentRunIndex\<rparr>\<rparr>)\<rparr>]]"

definition initializeNodeRunData ::
    "string \<Rightarrow> string \<Rightarrow> nat \<Rightarrow> nat \<Rightarrow> bool \<Rightarrow> nat \<Rightarrow> IRunData \<Rightarrow> IRunData \<times> nat" where
  "initializeNodeRunData nodeName parentNode parentOutputIndex parentRunIndex customParent runIndex runData =
     (let nodeRunData = or_default [] (map_of runData nodeName);
          sourceData = \<lparr>previousNode = parentNode, previousNodeOutput = Some parentOutputIndex,
            previousNodeRun = Some (if customParent then parentRunIndex else runIndex)\<rparr>
      in (obj_set nodeName (nodeRunData @
            [\<lparr>t_executionIndex = Some 0, t_source = [Some sourceData], t_executionStatus = None, t_data = None, t_error = None, t_metadata = []\<rparr>]) runData,
          length nodeRunData))"

text \<open>The assignment to the tool's node, as the workflow and the stack see it.\<close>

definition rewired :: "string \<Rightarrow> INode \<Rightarrow> INode \<Rightarrow> INode" where
  "rewired ty tool n = (if n = tool then n\<lparr>n_rewireOutputLogTo := Some ty\<rparr> else n)"

definition rewireWorkflow :: "string \<Rightarrow> INode \<Rightarrow> Workflow \<Rightarrow> Workflow" where
  "rewireWorkflow ty tool w = w\<lparr>w_nodes := map (\<lambda>(k, n). (k, rewired ty tool n)) (w_nodes w)\<rparr>"

definition rewireStack :: "string \<Rightarrow> INode \<Rightarrow> RunExecutionData \<Rightarrow> RunExecutionData" where
  "rewireStack ty tool x =
     x\<lparr>x_nodeExecutionStack := map (\<lambda>e. e\<lparr>e_node := rewired ty tool (e_node e)\<rparr>) (x_nodeExecutionStack x)\<rparr>"

definition sourceAt :: "IExecuteData \<Rightarrow> nat \<Rightarrow> ISourceData option" where
  "sourceAt executionData k =
     (case e_source executionData of None \<Rightarrow> None | Some s \<Rightarrow>
        (case map_of s Main of None \<Rightarrow> None | Some srcs \<Rightarrow> if k < length srcs then srcs ! k else None))"

definition inputItem :: "IExecuteData \<Rightarrow> nat \<Rightarrow> INodeExecutionData option" where
  "inputItem executionData k =
     (case map_of (e_data executionData) Main of Some (Some items # _) \<Rightarrow> if k < length items then Some (items ! k) else None | _ \<Rightarrow> None)"

definition spread :: "(string, json) dict \<Rightarrow> (string, json) dict \<Rightarrow> (string, json) dict" where
  "spread ps m = fold (\<lambda>(k, v). obj_set k v) ps m"

record prepared =
  pr_workflow :: Workflow
  pr_state :: RunExecutionData
  pr_nodesToBeExecuted :: "NodeToBeExecuted list"
  pr_actions :: "SubNodeAction list"

text \<open>The parent of the tool: the one that the action names, else the requesting node.\<close>

definition customParent :: "ExecuteNodeAction \<Rightarrow> bool" where
  "customParent action \<longleftrightarrow> or_default [] (Option.bind (ac_metadata action) am_parentNodeName) \<noteq> []"

definition parentOf :: "INode \<Rightarrow> ExecuteNodeAction \<Rightarrow> string" where
  "parentOf currentNode action = or_default (n_name currentNode) (Option.bind (ac_metadata action) am_parentNodeName)"

definition parentRunIndexOf :: "INode \<Rightarrow> nat \<Rightarrow> IExecuteData \<Rightarrow> ExecuteNodeAction \<Rightarrow> IRunData \<Rightarrow> nat result" where
  "parentRunIndexOf currentNode runIndex executionData action runData =
     (if customParent action
      then (case map_of runData (parentOf currentNode action) of None \<Rightarrow> Inr 0
            | Some runs \<Rightarrow> if runs = [] then Inl UndefinedValue else Inr (length runs - 1))
      else Inr (or_default 0 (Option.bind (sourceAt executionData runIndex) previousNodeRun)))"

definition parentOutputIndexOf :: "nat \<Rightarrow> IExecuteData \<Rightarrow> nat" where
  "parentOutputIndexOf runIndex executionData = or_default 0 (Option.bind (sourceAt executionData runIndex) previousNodeOutput)"

definition requestedNode ::
    "INode \<Rightarrow> nat \<Rightarrow> IExecuteData \<Rightarrow> ExecuteNodeAction \<Rightarrow> nat \<Rightarrow> nat \<Rightarrow> NodeToBeExecuted" where
  "requestedNode currentNode runIndex executionData action parentRunIndex nodeRunIndex =
     (let parentOutputIndex = parentOutputIndexOf runIndex executionData;
          parentSourceNode = (case sourceAt executionData runIndex of None \<Rightarrow> n_name currentNode | Some s \<Rightarrow> previousNode s);
          itemIndex = or_default 0 (Option.bind (ac_metadata action) am_itemIndex);
          mergedJson = obj_set ''toolCallId'' (JStr (ac_id action)) (spread (ac_input action)
            (case inputItem executionData itemIndex of None \<Rightarrow> [] | Some item \<Rightarrow> spread (i_json item) []));
          preserved = (case metadata_of executionData ''preservedSourceOverwrite'' of
            Some v \<Rightarrow> if v = JNull then None else Some v | None \<Rightarrow> None)
      in \<lparr>nb_inputConnectionData = \<lparr>c_node = ac_nodeName action, c_type = ac_type action, c_index = 0\<rparr>,
          nb_parentOutputIndex = 0, nb_parentNode = parentOf currentNode action,
          nb_parentOutputData = buildParentOutputData mergedJson parentRunIndex parentOutputIndex parentSourceNode,
          nb_runIndex = (if customParent action then parentRunIndex else runIndex), nb_nodeRunIndex = nodeRunIndex,
          nb_metadata = [(''preserveSourceOverwrite'', JBool True), (''preservedSourceOverwrite'', or_default
            (source_json \<lparr>previousNode = parentSourceNode, previousNodeOutput = Some parentOutputIndex, previousNodeRun = Some parentRunIndex\<rparr>)
            preserved)]\<rparr>)"

definition prepareRequestedNode ::
    "INode \<Rightarrow> nat \<Rightarrow> IExecuteData \<Rightarrow> ExecuteNodeAction \<Rightarrow> prepared \<Rightarrow> prepared result" where
  "prepareRequestedNode currentNode runIndex executionData action p =
     (case getNode (pr_workflow p) (ac_nodeName action) of
        None \<Rightarrow> Inl (UnexpectedError ''Workflow does not contain a node of the name'')
      | Some node \<Rightarrow>
          res_bind (parentRunIndexOf currentNode runIndex executionData action (x_runData (pr_state p))) (\<lambda>parentRunIndex.
            let x = rewireStack (ac_type action) node (pr_state p);
                r = initializeNodeRunData (n_name node) (parentOf currentNode action) (parentOutputIndexOf runIndex executionData)
                      parentRunIndex (customParent action) runIndex (x_runData x)
            in Inr (p\<lparr>pr_workflow := rewireWorkflow (ac_type action) node (pr_workflow p),
                      pr_state := x\<lparr>x_runData := fst r\<rparr>,
                      pr_nodesToBeExecuted := pr_nodesToBeExecuted p @
                        [requestedNode currentNode runIndex executionData action parentRunIndex (snd r)],
                      pr_actions := pr_actions p @ [\<lparr>sn_action = action, sn_nodeName = ac_nodeName action, sn_runIndex = snd r\<rparr>]\<rparr>)))"

definition prepareRequestedNodesForExecution ::
    "Workflow \<Rightarrow> INode \<Rightarrow> EngineRequest \<Rightarrow> nat \<Rightarrow> IExecuteData \<Rightarrow> RunExecutionData \<Rightarrow> prepared result" where
  "prepareRequestedNodesForExecution w currentNode request runIndex executionData x =
     res_fold (prepareRequestedNode currentNode runIndex executionData) (er_actions request)
       \<lparr>pr_workflow = w, pr_state = x, pr_nodesToBeExecuted = [], pr_actions = []\<rparr>"

section \<open>Resuming the node\<close>

definition prepareRequestingNodeForResuming ::
    "IExecuteData \<Rightarrow> (IConnection \<times> string \<times> (string, json) dict) option" where
  "prepareRequestingNodeForResuming executionData =
     (let parentNode = (case sourceAt executionData 0 of None \<Rightarrow> [] | Some s \<Rightarrow> previousNode s)
      in if parentNode = [] then None
         else Some (\<lparr>c_node = n_name (e_node executionData), c_type = AiTool, c_index = 0\<rparr>, parentNode,
           if truthy_metadata executionData ''preservedSourceOverwrite'' \<and> truthy_metadata executionData ''preserveSourceOverwrite''
           then [(''preserveSourceOverwrite'', JBool True),
                 (''preservedSourceOverwrite'', or_default JNull (metadata_of executionData ''preservedSourceOverwrite''))]
           else []))"

definition resumingNode ::
    "EngineRequest \<Rightarrow> nat \<Rightarrow> IConnection \<Rightarrow> string \<Rightarrow> (string, json) dict \<Rightarrow> INodeExecutionData list option list \<Rightarrow> SubNodeAction list
       \<Rightarrow> NodeToBeExecuted" where
  "resumingNode request runIndex connectionData parentNode metadata main subs =
     \<lparr>nb_inputConnectionData = connectionData, nb_parentOutputIndex = 0, nb_parentNode = parentNode,
      nb_parentOutputData = main, nb_runIndex = runIndex, nb_nodeRunIndex = runIndex,
      nb_metadata = [(''nodeWasResumed'', JBool True), (''subNodeExecutionData'',
        JObj [(''actions'', JArr (map sub_json subs)), (''metadata'', er_metadata request)])] @ metadata\<rparr>"

definition handleRequest ::
    "Workflow \<Rightarrow> INode \<Rightarrow> EngineRequest \<Rightarrow> nat \<Rightarrow> IExecuteData \<Rightarrow> RunExecutionData
       \<Rightarrow> (Workflow \<times> RunExecutionData \<times> NodeToBeExecuted list) result" where
  "handleRequest w currentNode request runIndex executionData x =
     res_bind (prepareRequestedNodesForExecution w currentNode request runIndex executionData x) (\<lambda>p.
       case prepareRequestingNodeForResuming executionData of
         None \<Rightarrow> Inr (pr_workflow p, pr_state p, [])
       | Some (connectionData, parentNode, metadata) \<Rightarrow>
          (case map_of (e_data executionData) Main of None \<Rightarrow> Inl TypeError
           | Some main \<Rightarrow>
              Inr (pr_workflow p, pr_state p,
                resumingNode request runIndex connectionData parentNode metadata main (pr_actions p) # pr_nodesToBeExecuted p)))"

definition scheduleRequested :: "string option \<Rightarrow> Workflow \<Rightarrow> NodeToBeExecuted \<Rightarrow> RunExecutionData \<Rightarrow> RunExecutionData result" where
  "scheduleRequested executionOrder w n =
     addNodeToBeExecuted executionOrder w (nb_inputConnectionData n) (nb_parentOutputIndex n) (nb_parentNode n)
       (Some (nb_parentOutputData n)) (nb_runIndex n) (Some (nb_nodeRunIndex n)) (Some (nb_metadata n))"

definition handleEngineRequest ::
    "string option \<Rightarrow> Workflow \<Rightarrow> INode \<Rightarrow> EngineRequest \<Rightarrow> nat \<Rightarrow> IExecuteData \<Rightarrow> RunExecutionData
       \<Rightarrow> (Workflow \<times> RunExecutionData) result" where
  "handleEngineRequest executionOrder w currentNode request runIndex executionData x =
     res_bind (handleRequest w currentNode request runIndex executionData x) (\<lambda>(w', x', nodesToBeExecuted).
     res_bind (res_fold (scheduleRequested executionOrder w') nodesToBeExecuted x') (\<lambda>x''. Inr (w', x'')))"

text \<open>When the agent is run again: the results of the reserved runs, for the actions that were asked for.\<close>

definition actionResponses :: "SubNodeAction list \<Rightarrow> IRunData \<Rightarrow> (ExecuteNodeAction \<times> ITaskData) list" where
  "actionResponses subs runData = List.map_filter (\<lambda>sub.
     case map_of runData (sn_nodeName sub) of None \<Rightarrow> None
     | Some runs \<Rightarrow> if sn_runIndex sub < length runs then Some (sn_action sub, runs ! sn_runIndex sub) else None) subs"

section \<open>What is reserved\<close>

abbreviation recorded_runs :: "RunExecutionData \<Rightarrow> string \<Rightarrow> nat" where
  "recorded_runs x nm \<equiv> length (or_default [] (map_of (x_runData x) nm))"

text \<open>The run indices that a list of nodes gets when each takes the next one of its node.\<close>

fun reserved :: "(string \<Rightarrow> nat) \<Rightarrow> string list \<Rightarrow> nat list" where
  "reserved f [] = []"
| "reserved f (nm # nms) = f nm # reserved (f(nm := f nm + 1)) nms"

lemma length_reserved [simp]: "length (reserved f nms) = length nms"
  by (induction nms arbitrary: f) auto

lemma reserved_bounds: "(nm, i) \<in> set (zip nms (reserved f nms)) \<Longrightarrow> f nm \<le> i \<and> i < f nm + count_list nms nm"
proof (induction nms arbitrary: f)
  case (Cons m nms)
  show ?case
  proof (cases "(nm, i) = (m, f m)")
    case False
    with Cons.prems have "(nm, i) \<in> set (zip nms (reserved (f(m := f m + 1)) nms))" by auto
    from Cons.IH [OF this] show ?thesis by (auto split: if_splits)
  qed simp
qed simp

text \<open>No two actions get the same run of the same node.\<close>

lemma reserved_distinct: "distinct (zip nms (reserved f nms))"
proof (induction nms arbitrary: f)
  case (Cons m nms)
  have "(m, f m) \<notin> set (zip nms (reserved (f(m := f m + 1)) nms))" using reserved_bounds by fastforce
  with Cons show ?case by simp
qed simp

lemma getNode_rewire: "getNode (rewireWorkflow ty tool w) nm = map_option (rewired ty tool) (getNode w nm)"
  by (simp add: getNode_def rewireWorkflow_def map_of_map)

lemma rewired_name [simp]: "n_name (rewired ty tool n) = n_name n"
  by (simp add: rewired_def)

lemma named_rewire: "workflow_named w \<Longrightarrow> workflow_named (rewireWorkflow ty tool w)"
  by (auto simp: workflow_named_def rewireWorkflow_def list_all_iff)

lemma inputs_rewire [simp]: "numberOfInputs (rewireWorkflow ty tool w) nm = numberOfInputs w nm"
  by (simp add: numberOfInputs_def rewireWorkflow_def)

lemma initialize_counts:
  "snd (initializeNodeRunData nm parent i j c k rd) = length (or_default [] (map_of rd nm))"
  "length (or_default [] (map_of (fst (initializeNodeRunData nm parent i j c k rd)) nm')) =
     ((\<lambda>n. length (or_default [] (map_of rd n)))(nm := length (or_default [] (map_of rd nm)) + 1)) nm'"
  "fst ` set (fst (initializeNodeRunData nm parent i j c k rd)) = insert nm (fst ` set rd)"
  by (simp_all add: initializeNodeRunData_def Let_def map_of_obj_set obj_writer.keys_put)

lemma requestedNode_fields:
  "c_node (nb_inputConnectionData (requestedNode cur k ed a j i)) = ac_nodeName a"
  "nb_nodeRunIndex (requestedNode cur k ed a j i) = i" "nb_parentOutputIndex (requestedNode cur k ed a j i) = 0"
  "nb_parentOutputData (requestedNode cur k ed a j i) \<noteq> []"
  by (simp_all add: requestedNode_def Let_def buildParentOutputData_def)

lemma prepareRequestedNode_step:
  assumes "prepareRequestedNode cur k ed a p = Inr p'" and "workflow_named (pr_workflow p)"
  obtains node j where "getNode (pr_workflow p) (ac_nodeName a) = Some node" and "n_name node = ac_nodeName a"
    and "pr_workflow p' = rewireWorkflow (ac_type a) node (pr_workflow p)"
    and "x_nodeExecutionStack (pr_state p') = x_nodeExecutionStack (rewireStack (ac_type a) node (pr_state p))"
    and "pr_nodesToBeExecuted p' = pr_nodesToBeExecuted p @ [requestedNode cur k ed a j (recorded_runs (pr_state p) (ac_nodeName a))]"
    and "pr_actions p' = pr_actions p @ [\<lparr>sn_action = a, sn_nodeName = ac_nodeName a, sn_runIndex = recorded_runs (pr_state p) (ac_nodeName a)\<rparr>]"
    and "recorded_runs (pr_state p') = (recorded_runs (pr_state p))(ac_nodeName a := recorded_runs (pr_state p) (ac_nodeName a) + 1)"
    and "fst ` set (x_runData (pr_state p')) = insert (ac_nodeName a) (fst ` set (x_runData (pr_state p)))"
proof -
  from assms(1) obtain node where node: "getNode (pr_workflow p) (ac_nodeName a) = Some node"
    by (cases "getNode (pr_workflow p) (ac_nodeName a)") (auto simp: prepareRequestedNode_def)
  have nm: "n_name node = ac_nodeName a" by (rule getNode_name [OF assms(2) node])
  have rd: "x_runData (rewireStack ty node x) = x_runData x" for ty x by (simp add: rewireStack_def)
  from assms(1) node nm obtain j where
    "parentRunIndexOf cur k ed a (x_runData (pr_state p)) = Inr j" by (auto simp: prepareRequestedNode_def res_bind_Inr_iff)
  with assms(1) node have "p' = p\<lparr>pr_workflow := rewireWorkflow (ac_type a) node (pr_workflow p),
      pr_state := (rewireStack (ac_type a) node (pr_state p))\<lparr>x_runData := fst (initializeNodeRunData (n_name node) (parentOf cur a)
        (parentOutputIndexOf k ed) j (customParent a) k (x_runData (pr_state p)))\<rparr>,
      pr_nodesToBeExecuted := pr_nodesToBeExecuted p @ [requestedNode cur k ed a j (recorded_runs (pr_state p) (n_name node))],
      pr_actions := pr_actions p @ [\<lparr>sn_action = a, sn_nodeName = ac_nodeName a, sn_runIndex = recorded_runs (pr_state p) (n_name node)\<rparr>]\<rparr>"
    by (simp add: prepareRequestedNode_def Let_def initialize_counts rd)
  then show ?thesis
    unfolding nm by (intro that [OF node nm, where j = j]) (simp_all add: initialize_counts fun_eq_iff)
qed

lemma rewireStack_stack: "length (x_nodeExecutionStack (rewireStack ty tool x)) = length (x_nodeExecutionStack x)"
  by (simp add: rewireStack_def)

text \<open>What the preparation of all actions adds up to.\<close>

lemma prepare_all:
  assumes "res_fold (prepareRequestedNode cur k ed) as p = Inr p'" and "workflow_named (pr_workflow p)"
  shows "workflow_named (pr_workflow p') \<and>
    (\<forall>nm. (getNode (pr_workflow p') nm = None) = (getNode (pr_workflow p) nm = None)) \<and>
    (\<forall>nm. numberOfInputs (pr_workflow p') nm = numberOfInputs (pr_workflow p) nm) \<and>
    (\<forall>a \<in> set as. getNode (pr_workflow p) (ac_nodeName a) \<noteq> None) \<and>
    length (x_nodeExecutionStack (pr_state p')) = length (x_nodeExecutionStack (pr_state p)) \<and>
    (\<exists>ns. pr_nodesToBeExecuted p' = pr_nodesToBeExecuted p @ ns \<and>
      map (c_node \<circ> nb_inputConnectionData) ns = map ac_nodeName as \<and>
      map nb_nodeRunIndex ns = reserved (recorded_runs (pr_state p)) (map ac_nodeName as) \<and>
      list_all (\<lambda>n. nb_parentOutputIndex n = 0 \<and> nb_parentOutputData n \<noteq> []) ns) \<and>
    (\<exists>subs. pr_actions p' = pr_actions p @ subs \<and> map sn_action subs = as \<and> map sn_nodeName subs = map ac_nodeName as \<and>
      map sn_runIndex subs = reserved (recorded_runs (pr_state p)) (map ac_nodeName as)) \<and>
    (\<forall>nm. recorded_runs (pr_state p') nm = recorded_runs (pr_state p) nm + count_list (map ac_nodeName as) nm)"
  using assms
proof (induction as arbitrary: p)
  case (Cons a as)
  from Cons.prems(1) obtain p1 where p1: "prepareRequestedNode cur k ed a p = Inr p1"
    and rest: "res_fold (prepareRequestedNode cur k ed) as p1 = Inr p'" by (auto simp: res_bind_Inr_iff)
  obtain node j where s: "getNode (pr_workflow p) (ac_nodeName a) = Some node"
    "pr_workflow p1 = rewireWorkflow (ac_type a) node (pr_workflow p)"
    "x_nodeExecutionStack (pr_state p1) = x_nodeExecutionStack (rewireStack (ac_type a) node (pr_state p))"
    "pr_nodesToBeExecuted p1 = pr_nodesToBeExecuted p @ [requestedNode cur k ed a j (recorded_runs (pr_state p) (ac_nodeName a))]"
    "pr_actions p1 = pr_actions p @ [\<lparr>sn_action = a, sn_nodeName = ac_nodeName a, sn_runIndex = recorded_runs (pr_state p) (ac_nodeName a)\<rparr>]"
    and counts: "recorded_runs (pr_state p1) = (recorded_runs (pr_state p))(ac_nodeName a := recorded_runs (pr_state p) (ac_nodeName a) + 1)"
    by (rule prepareRequestedNode_step [OF p1 Cons.prems(2)])
  have cnt: "recorded_runs (pr_state p1) nm = recorded_runs (pr_state p) nm + (if nm = ac_nodeName a then 1 else 0)" for nm
    using fun_cong [OF counts, of nm] by simp
  have "workflow_named (pr_workflow p1)" unfolding s(2) by (rule named_rewire [OF Cons.prems(2)])
  note IH = Cons.IH [OF rest this, unfolded counts]
  from IH obtain ns subs where ns: "pr_nodesToBeExecuted p' = pr_nodesToBeExecuted p1 @ ns"
      "map (c_node \<circ> nb_inputConnectionData) ns = map ac_nodeName as"
      "map nb_nodeRunIndex ns = reserved ((recorded_runs (pr_state p))(ac_nodeName a := recorded_runs (pr_state p) (ac_nodeName a) + 1)) (map ac_nodeName as)"
      "list_all (\<lambda>n. nb_parentOutputIndex n = 0 \<and> nb_parentOutputData n \<noteq> []) ns"
    and subs: "pr_actions p' = pr_actions p1 @ subs" "map sn_action subs = as" "map sn_nodeName subs = map ac_nodeName as"
      "map sn_runIndex subs = reserved ((recorded_runs (pr_state p))(ac_nodeName a := recorded_runs (pr_state p) (ac_nodeName a) + 1)) (map ac_nodeName as)"
    by (elim conjE exE)
  let ?n = "requestedNode cur k ed a j (recorded_runs (pr_state p) (ac_nodeName a))"
  let ?s = "\<lparr>sn_action = a, sn_nodeName = ac_nodeName a, sn_runIndex = recorded_runs (pr_state p) (ac_nodeName a)\<rparr>"
  have "pr_nodesToBeExecuted p' = pr_nodesToBeExecuted p @ (?n # ns)" "pr_actions p' = pr_actions p @ (?s # subs)"
    using ns(1) subs(1) s(4,5) by simp_all
  moreover have "map (c_node \<circ> nb_inputConnectionData) (?n # ns) = map ac_nodeName (a # as)"
    "map nb_nodeRunIndex (?n # ns) = reserved (recorded_runs (pr_state p)) (map ac_nodeName (a # as))"
    "list_all (\<lambda>n. nb_parentOutputIndex n = 0 \<and> nb_parentOutputData n \<noteq> []) (?n # ns)"
    "map sn_action (?s # subs) = a # as" "map sn_nodeName (?s # subs) = map ac_nodeName (a # as)"
    "map sn_runIndex (?s # subs) = reserved (recorded_runs (pr_state p)) (map ac_nodeName (a # as))"
    using ns(2-4) subs(2-4) by (simp_all add: requestedNode_fields)
  moreover have "workflow_named (pr_workflow p')"
    "\<forall>nm. (getNode (pr_workflow p') nm = None) = (getNode (pr_workflow p) nm = None)"
    "\<forall>nm. numberOfInputs (pr_workflow p') nm = numberOfInputs (pr_workflow p) nm"
    "\<forall>b \<in> set (a # as). getNode (pr_workflow p) (ac_nodeName b) \<noteq> None"
    "length (x_nodeExecutionStack (pr_state p')) = length (x_nodeExecutionStack (pr_state p))"
    using IH s(1-3) by (simp_all add: getNode_rewire rewireStack_stack)
  moreover have "\<forall>nm. recorded_runs (pr_state p') nm = recorded_runs (pr_state p) nm + count_list (map ac_nodeName (a # as)) nm"
    using IH cnt by simp
  ultimately show ?case by (intro conjI exI [where x = "?n # ns"] exI [where x = "?s # subs"])
qed simp

section \<open>What is put on the stack\<close>

text \<open>Nodes with at most one input are put on the stack at once, each above the one before it.\<close>

definition at_once :: "Workflow \<Rightarrow> NodeToBeExecuted \<Rightarrow> bool" where
  "at_once w n \<longleftrightarrow> numberOfInputs w (c_node (nb_inputConnectionData n)) \<le> 1 \<and> getNode w (c_node (nb_inputConnectionData n)) \<noteq> None \<and>
     nb_parentOutputIndex n < length (nb_parentOutputData n)"

lemma schedule_one:
  assumes "is_v1 order" and "workflow_named w" and "at_once w n"
  obtains e x' where "scheduleRequested order w n x = Inr x'" "x_nodeExecutionStack x' = e # x_nodeExecutionStack x"
    "x_runData x' = x_runData x" "n_name (e_node e) = c_node (nb_inputConnectionData n)"
    "e_runIndex e = Some (nb_nodeRunIndex n)" "e_metadata e = Some (nb_metadata n)"
proof -
  obtain node where node: "getNode w (c_node (nb_inputConnectionData n)) = Some node" using assms(3) by (auto simp: at_once_def)
  define e where "e = \<lparr>e_node = node,
    e_data = [(Main, replicate (c_index (nb_inputConnectionData n)) None @ [nb_parentOutputData n ! nb_parentOutputIndex n])],
    e_source = Some [(Main, [Some \<lparr>previousNode = nb_parentNode n, previousNodeOutput = Some (nb_parentOutputIndex n),
      previousNodeRun = Some (nb_runIndex n)\<rparr>])], e_runIndex = Some (nb_nodeRunIndex n), e_metadata = Some (nb_metadata n)\<rparr>"
  have "scheduleRequested order w n x = Inr (enqueue order e x)"
    using assms(3) node by (simp add: at_once_def scheduleRequested_def addNodeToBeExecuted_def outputItems_def addDirectly_def e_def)
  then show ?thesis
    by (rule that [where e = e]) (use assms(1) getNode_name [OF assms(2) node] in \<open>simp_all add: enqueue_def e_def\<close>)
qed

lemma schedule_all:
  assumes "is_v1 order" and "workflow_named w" and "list_all (at_once w) ns"
  shows "\<exists>es x'. res_fold (scheduleRequested order w) ns x = Inr x' \<and>
    x_nodeExecutionStack x' = rev es @ x_nodeExecutionStack x \<and> x_runData x' = x_runData x \<and>
    map (n_name \<circ> e_node) es = map (c_node \<circ> nb_inputConnectionData) ns \<and>
    map e_runIndex es = map (Some \<circ> nb_nodeRunIndex) ns \<and> map e_metadata es = map (Some \<circ> nb_metadata) ns"
  using assms(3)
proof (induction ns arbitrary: x)
  case (Cons n ns)
  then have "at_once w n" "list_all (at_once w) ns" by simp_all
  obtain e x1 where e: "scheduleRequested order w n x = Inr x1" "x_nodeExecutionStack x1 = e # x_nodeExecutionStack x"
    "x_runData x1 = x_runData x" "n_name (e_node e) = c_node (nb_inputConnectionData n)"
    "e_runIndex e = Some (nb_nodeRunIndex n)" "e_metadata e = Some (nb_metadata n)"
    by (rule schedule_one [OF assms(1,2) \<open>at_once w n\<close>])
  from Cons.IH [OF \<open>list_all (at_once w) ns\<close>, of x1] obtain es x' where
    "res_fold (scheduleRequested order w) ns x1 = Inr x'" "x_nodeExecutionStack x' = rev es @ x_nodeExecutionStack x1"
    "x_runData x' = x_runData x1" "map (n_name \<circ> e_node) es = map (c_node \<circ> nb_inputConnectionData) ns"
    "map e_runIndex es = map (Some \<circ> nb_nodeRunIndex) ns" "map e_metadata es = map (Some \<circ> nb_metadata) ns" by (elim exE conjE)
  with e show ?case by (intro exI [where x = "e # es"] exI [where x = x']) (simp add: comp_def)
qed simp

text \<open>Every reserved run lies behind the recorded ones, so each action finds its own result.\<close>

lemma responses_in_order:
  assumes "map sn_nodeName subs = nms" and "map sn_runIndex subs = reserved f nms"
    and "\<forall>nm. f nm + count_list nms nm \<le> length (or_default [] (map_of rd nm))"
  shows "map fst (actionResponses subs rd) = map sn_action subs"
proof -
  have z: "zip nms (reserved f nms) = map (\<lambda>s. (sn_nodeName s, sn_runIndex s)) subs"
    unfolding assms(1) [symmetric] assms(2) [unfolded assms(1) [symmetric], symmetric] by (simp add: zip_map_map zip_same_conv_map)
  have "sn_runIndex s < length (or_default [] (map_of rd (sn_nodeName s)))" if "s \<in> set subs" for s
  proof -
    have "(sn_nodeName s, sn_runIndex s) \<in> set (zip nms (reserved f nms))" unfolding z using that by simp
    from reserved_bounds [OF this] assms(3) show ?thesis using order.strict_trans2 by blast
  qed
  then show ?thesis unfolding actionResponses_def
  proof (induction subs)
    case (Cons s subs)
    then have "sn_runIndex s < length (or_default [] (map_of rd (sn_nodeName s)))" by simp
    then obtain runs where "map_of rd (sn_nodeName s) = Some runs" "sn_runIndex s < length runs"
      by (cases "map_of rd (sn_nodeName s)") auto
    with Cons show ?case by (simp add: map_filter_simps)
  qed (simp add: map_filter_simps)
qed

lemma handleRequest_nodes:
  assumes "handleRequest w cur request k ed x = Inr (w', x', ns)" and "workflow_named w" and "getNode w (n_name (e_node ed)) \<noteq> None"
    and "sourceAt ed 0 = Some s" and "previousNode s \<noteq> []" and "map_of (e_data ed) Main = Some (input # inputs)"
    and nms: "nms = map ac_nodeName (er_actions request)" and "\<forall>nm. numberOfInputs w nm \<le> 1"
  obtains agent tools subs metadata where "ns = agent # tools" "workflow_named w'" "list_all (at_once w') ns"
    "length (x_nodeExecutionStack x') = length (x_nodeExecutionStack x)"
    "c_node (nb_inputConnectionData agent) = n_name (e_node ed)" "nb_nodeRunIndex agent = k"
    "nb_metadata agent = [(''nodeWasResumed'', JBool True), (''subNodeExecutionData'',
        JObj [(''actions'', JArr (map sub_json subs)), (''metadata'', er_metadata request)])] @ metadata"
    "map (c_node \<circ> nb_inputConnectionData) tools = nms" "map nb_nodeRunIndex tools = reserved (recorded_runs x) nms"
    "map sn_action subs = er_actions request" "map sn_nodeName subs = nms" "map sn_runIndex subs = reserved (recorded_runs x) nms"
    "\<forall>nm. recorded_runs x' nm = recorded_runs x nm + count_list nms nm"
proof -
  let ?p = "\<lparr>pr_workflow = w, pr_state = x, pr_nodesToBeExecuted = [], pr_actions = []\<rparr>"
  from assms(4,5) obtain metadata where resume: "prepareRequestingNodeForResuming ed =
      Some (\<lparr>c_node = n_name (e_node ed), c_type = AiTool, c_index = 0\<rparr>, previousNode s, metadata)"
    by (simp add: prepareRequestingNodeForResuming_def Let_def)
  let ?agent = "\<lambda>p. resumingNode request k \<lparr>c_node = n_name (e_node ed), c_type = AiTool, c_index = 0\<rparr> (previousNode s) metadata (input # inputs) (pr_actions p)"
  from assms(1,6) resume obtain p where p: "res_fold (prepareRequestedNode cur k ed) (er_actions request) ?p = Inr p"
    and out: "w' = pr_workflow p" "x' = pr_state p" "ns = ?agent p # pr_nodesToBeExecuted p"
    by (auto simp: handleRequest_def prepareRequestedNodesForExecution_def res_bind_Inr_iff)
  have "workflow_named (pr_workflow ?p)" using assms(2) by simp
  note all = prepare_all [OF p this, simplified, folded nms]
  have nodes: "map (c_node \<circ> nb_inputConnectionData) (pr_nodesToBeExecuted p) = nms" using all by (simp add: comp_def)
  have "at_once w' n" if "n \<in> set ns" for n
  proof -
    have "c_node (nb_inputConnectionData n) \<in> insert (n_name (e_node ed)) (set nms)"
      using that nodes unfolding out(3) by (force simp: resumingNode_def)
    then have "getNode w (c_node (nb_inputConnectionData n)) \<noteq> None" using assms(3) all nms by auto
    moreover have "nb_parentOutputIndex n < length (nb_parentOutputData n)"
      using that all unfolding out(3) by (auto simp: resumingNode_def list_all_iff)
    ultimately show ?thesis using all assms(8) by (auto simp: at_once_def out(1))
  qed
  then have "list_all (at_once w') ns" by (simp add: list_all_iff)
  then show ?thesis
    using all nodes by (intro that [OF out(3), where subs = "pr_actions p" and metadata = metadata])
      (simp_all add: out resumingNode_def)
qed


section \<open>Executions with requests\<close>

text \<open>Runs of the engine in which nodes may ask for tools; what a node asks for is a parameter. The workflow is part
  of the state since requests mark its nodes.\<close>

definition requestStep ::
    "Ports \<Rightarrow> string option \<Rightarrow> (INode \<Rightarrow> nat \<Rightarrow> EngineRequest) \<Rightarrow> Workflow \<Rightarrow> IExecuteData \<Rightarrow> Engine \<Rightarrow> (Workflow \<times> Engine) result" where
  "requestStep P executionOrder requestOf w entry g =
     (let runIndex = entryRunIndex (g_queue g) entry
      in res_bind (handleEngineRequest executionOrder w (e_node entry) (requestOf (e_node entry) runIndex) runIndex
           (entry\<lparr>e_data := updatePairedItems (po_asSource P) entry\<rparr>) (g_queue g)) (\<lambda>(w', x). Inr (w', g\<lparr>g_queue := x\<rparr>)))"

inductive engine_runs ::
    "Ports \<Rightarrow> string option \<Rightarrow> bool \<Rightarrow> (INode \<Rightarrow> nat \<Rightarrow> EngineRequest) \<Rightarrow> Workflow \<times> Engine \<Rightarrow> Workflow \<times> Engine \<Rightarrow> bool"
  for P :: Ports and order :: "string option" and manual :: bool and requestOf :: "INode \<Rightarrow> nat \<Rightarrow> EngineRequest" where
  start: "engine_runs P order manual requestOf s s"
| step: "engine_runs P order manual requestOf s (w, g) \<Longrightarrow> outcome (engineStep P order manual w g) = Some g' \<Longrightarrow>
    engineStep P order manual w g \<noteq> AwaitsRequest g' \<Longrightarrow> engine_runs P order manual requestOf s (w, g')"
| request: "engine_runs P order manual requestOf s (w, g) \<Longrightarrow> engineStep P order manual w g = AwaitsRequest g' \<Longrightarrow>
    x_nodeExecutionStack (g_queue g) = entry # rest \<Longrightarrow> requestStep P order requestOf w entry g' = Inr s' \<Longrightarrow>
    engine_runs P order manual requestOf s s'"

definition state_typed :: "Workflow \<Rightarrow> RunExecutionData \<Rightarrow> bool" where
  "state_typed w x \<longleftrightarrow> workflow_named w \<and> stack_ok w x \<and> list_all (\<lambda>p. getNode w (fst p) \<noteq> None) (x_runData x)"

lemma state_typed_keys:
  "state_typed w x \<longleftrightarrow> workflow_named w \<and> stack_ok w x \<and> fst ` set (x_runData x) \<subseteq> {nm. getNode w nm \<noteq> None}"
  unfolding state_typed_def list_all_keys [where Q = "\<lambda>nm. getNode w nm \<noteq> None"] ..

lemma stack_ok_rewire: "stack_ok w x \<Longrightarrow> stack_ok (rewireWorkflow ty tool w) (rewireStack ty tool x)"
  by (auto simp: stack_ok_def rewireStack_def getNode_rewire list_all_iff)

lemma stack_ok_stack: "x_nodeExecutionStack x = x_nodeExecutionStack y \<Longrightarrow> stack_ok w x = stack_ok w y"
  by (simp add: stack_ok_def)

lemma prepareRequestedNode_typed:
  assumes "prepareRequestedNode cur k ed a p = Inr p'" and "state_typed (pr_workflow p) (pr_state p)"
  shows "state_typed (pr_workflow p') (pr_state p')"
proof -
  from assms(2) have n: "workflow_named (pr_workflow p)" and st: "stack_ok (pr_workflow p) (pr_state p)"
    and rd: "fst ` set (x_runData (pr_state p)) \<subseteq> {nm. getNode (pr_workflow p) nm \<noteq> None}"
    unfolding state_typed_keys by blast+
  obtain node where s: "getNode (pr_workflow p) (ac_nodeName a) = Some node"
    "pr_workflow p' = rewireWorkflow (ac_type a) node (pr_workflow p)"
    "x_nodeExecutionStack (pr_state p') = x_nodeExecutionStack (rewireStack (ac_type a) node (pr_state p))"
    "fst ` set (x_runData (pr_state p')) = insert (ac_nodeName a) (fst ` set (x_runData (pr_state p)))"
    by (rule prepareRequestedNode_step [OF assms(1) n])
  have "fst ` set (x_runData (pr_state p')) \<subseteq> {nm. getNode (pr_workflow p') nm \<noteq> None}"
    unfolding s(4) s(2) using rd s(1) by (simp add: getNode_rewire)
  then show ?thesis
    unfolding state_typed_keys using named_rewire [OF n] stack_ok_rewire [OF st] stack_ok_stack [OF s(3)] s(2) by metis
qed

lemma handleRequest_typed:
  assumes "handleRequest w cur request k ed x = Inr (w', x', ns)" and "state_typed w x"
  shows "state_typed w' x'"
proof -
  from assms(1) obtain p where "prepareRequestedNodesForExecution w cur request k ed x = Inr p" and out: "w' = pr_workflow p" "x' = pr_state p"
    by (cases "prepareRequestedNodesForExecution w cur request k ed x"; cases "prepareRequestingNodeForResuming ed"; cases "map_of (e_data ed) Main")
      (auto simp: handleRequest_def)
  from this(1) [unfolded prepareRequestedNodesForExecution_def] have "state_typed (pr_workflow p) (pr_state p)"
    by (rule res_fold_invariant) (use assms(2) prepareRequestedNode_typed in auto)
  then show ?thesis by (simp add: out)
qed

lemma scheduleRequested_typed: "scheduleRequested order w n x = Inr x' \<Longrightarrow> state_typed w x \<Longrightarrow> state_typed w x'"
  unfolding scheduleRequested_def state_typed_def
  using keeps_stack_nodes.addNodeToBeExecuted_keeps [of order w] keeps_run_data.addNodeToBeExecuted_keeps [of order w] by metis

lemma handleEngineRequest_typed:
  assumes "handleEngineRequest order w cur request k ed x = Inr (w', x')" and "state_typed w x"
  shows "state_typed w' x'"
proof -
  from assms(1) obtain y ns where h: "handleRequest w cur request k ed x = Inr (w', y, ns)"
    and f: "res_fold (scheduleRequested order w') ns y = Inr x'"
    by (auto simp: handleEngineRequest_def res_bind_Inr_iff)
  from f handleRequest_typed [OF h assms(2)] show ?thesis
    by (rule res_fold_invariant) (rule scheduleRequested_typed)
qed

text \<open>
  C9: an execution never leaves its workflow: from a state whose stack and run data only hold nodes of the workflow,
  every state the engine reaches is of that kind, also when nodes ask for tools and so change the workflow.
\<close>

theorem engine_stays_typed:
  assumes "engine_runs P order manual requestOf s s'" and "state_typed (fst s) (g_queue (snd s))"
  shows "state_typed (fst s') (g_queue (snd s'))"
  using assms
proof (induction rule: engine_runs.induct)
  case (step s w g g')
  then show ?case using engineStep_typed [OF step.hyps(2)] by (simp add: state_typed_def engine_typed_def)
next
  case (request s w g g' entry rest s')
  then have "outcome (engineStep P order manual w g) = Some g'" by simp
  from engineStep_typed [OF this] request have "state_typed w (g_queue g')" by (simp add: state_typed_def engine_typed_def)
  with request.hyps(4) show ?case
    by (auto simp: requestStep_def Let_def res_bind_Inr_iff dest: handleEngineRequest_typed)
qed

section \<open>An agent with a tool\<close>

definition ex_agent_flow :: Workflow where
  "ex_agent_flow = newWorkflow (\<lambda>_ _. None) (\<lambda>_ _. None)
     [plain_node 0 ''T'' ''t'', plain_node 1 ''Agent'' ''t'', plain_node 2 ''Calc'' ''t'']
     [(''T'', [(Main, [Some [\<lparr>c_node = ''Agent'', c_type = Main, c_index = 0\<rparr>]])]),
      (''Calc'', [(AiTool, [Some [\<lparr>c_node = ''Agent'', c_type = AiTool, c_index = 0\<rparr>]])])] True None"

definition ex_agent_entry :: IExecuteData where
  "ex_agent_entry = \<lparr>e_node = plain_node 1 ''Agent'' ''t'', e_data = emptyItemData,
     e_source = Some [(Main, [Some \<lparr>previousNode = ''T'', previousNodeOutput = Some 0, previousNodeRun = Some 0\<rparr>])],
     e_runIndex = None, e_metadata = None\<rparr>"

definition ex_action :: "string \<Rightarrow> ExecuteNodeAction" where
  "ex_action i = \<lparr>ac_nodeName = ''Calc'', ac_input = [(''x'', JNum 1)], ac_type = AiTool, ac_id = i, ac_metadata = None\<rparr>"

definition ex_request :: EngineRequest where
  "ex_request = \<lparr>er_actions = [ex_action ''a'', ex_action ''b''], er_metadata = JNull\<rparr>"

lemma ex_agent_inputs: "numberOfInputs ex_agent_flow nm \<le> 1"
proof -
  have "w_connectionsByDestinationNode ex_agent_flow =
    [(''Agent'', [(Main, [Some [\<lparr>c_node = ''T'', c_type = Main, c_index = 0\<rparr>]]), (AiTool, [Some [\<lparr>c_node = ''Calc'', c_type = AiTool, c_index = 0\<rparr>]])])]"
    by code_simp
  then show ?thesis by (simp add: numberOfInputs_def typed_groups_def)
qed


definition ex_agent_ports :: Ports where
  "ex_agent_ports = ex_ports\<lparr>po_execute := \<lambda>_ _ _ _ _. Requests\<rparr>"

definition ex_agent_engine :: Engine where
  "ex_agent_engine = ex_engine\<lparr>g_queue := ex_empty_state\<lparr>x_nodeExecutionStack := [ex_agent_entry]\<rparr>\<rparr>"

theorem engine_stays_typed_witness:
  "\<exists>w' g'. engine_runs ex_agent_ports (Some ''v1'') True (\<lambda>_ _. ex_request) (ex_agent_flow, ex_agent_engine) (w', g') \<and>
     map fst (run_data g') = [''Calc''] \<and> length (x_nodeExecutionStack (g_queue g')) = 3 \<and> state_typed w' (g_queue g')"
proof -
  have chk: "case engineStep ex_agent_ports (Some ''v1'') True ex_agent_flow ex_agent_engine of
      AwaitsRequest g \<Rightarrow> (case requestStep ex_agent_ports (Some ''v1'') (\<lambda>_ _. ex_request) ex_agent_flow ex_agent_entry g of
        Inr (w', g') \<Rightarrow> map fst (run_data g') = [''Calc''] \<and> length (x_nodeExecutionStack (g_queue g')) = 3 | Inl _ \<Rightarrow> False) | _ \<Rightarrow> False"
    by code_simp
  then obtain g w' g' where g: "engineStep ex_agent_ports (Some ''v1'') True ex_agent_flow ex_agent_engine = AwaitsRequest g"
    and r: "requestStep ex_agent_ports (Some ''v1'') (\<lambda>_ _. ex_request) ex_agent_flow ex_agent_entry g = Inr (w', g')"
    and res: "map fst (run_data g') = [''Calc'']" "length (x_nodeExecutionStack (g_queue g')) = 3"
    by (auto split: step_result.splits sum.splits)
  have "x_nodeExecutionStack (g_queue ex_agent_engine) = [ex_agent_entry]" by (simp add: ex_agent_engine_def)
  then have run: "engine_runs ex_agent_ports (Some ''v1'') True (\<lambda>_ _. ex_request) (ex_agent_flow, ex_agent_engine) (w', g')"
    by (rule engine_runs.request [OF engine_runs.start g _ r])
  have "state_typed ex_agent_flow (g_queue ex_agent_engine)" by code_simp
  with engine_stays_typed [OF run] have "state_typed w' (g_queue g')" by simp
  with run res show ?thesis by (intro exI conjI)
qed

section \<open>Where requests go wrong\<close>

text \<open>
  The source of the requesting node is looked up at its run index, although sources are listed by input: from the second run on it is not found, and the
  tool is given the requesting node itself, in its run 0, as the origin of its items.
\<close>

lemma request_source_misread:
  assumes "sourceAt ed k = None" and "ac_metadata a = None" and "metadata_of ed ''preservedSourceOverwrite'' = None"
  shows "map_of (nb_metadata (requestedNode cur k ed a 0 nodeRunIndex)) ''preservedSourceOverwrite'' =
    Some (source_json \<lparr>previousNode = n_name cur, previousNodeOutput = Some 0, previousNodeRun = Some 0\<rparr>)"
  using assms by (simp add: requestedNode_def parentOutputIndexOf_def Let_def)

text \<open>In the legacy order entries are appended, so that the node is resumed before its tools have run.\<close>

lemma request_legacy_order:
  "(case handleEngineRequest None ex_agent_flow (plain_node 1 ''Agent'' ''t'') ex_request 0 ex_agent_entry ex_empty_state of
      Inl _ \<Rightarrow> [] | Inr (_, x) \<Rightarrow> map (n_name \<circ> e_node) (x_nodeExecutionStack x)) = [''Agent'', ''Calc'', ''Calc'']"
  by code_simp

text \<open>A node without a source is not resumed; its request is dropped, but the runs reserved for its tools stay.\<close>

lemma request_ignored_reserves:
  "(case handleEngineRequest (Some ''v1'') ex_agent_flow (plain_node 1 ''Agent'' ''t'') ex_request 0 (ex_agent_entry\<lparr>e_source := None\<rparr>) ex_empty_state of
      Inl _ \<Rightarrow> None | Inr (_, x) \<Rightarrow> Some (x_nodeExecutionStack x, recorded_runs x ''Calc'')) = Some ([], 2)"
  by code_simp

end
