(* ===== verification/Engine_Setup.thy ===== *)
theory Engine_Setup
  imports Engine_Safety
begin

text \<open>
  What \<open>workflow-execute.ts\<close> does around the execution loop: checking that the nodes that will run are complete
  (\<open>checkReadyForExecution\<close>, \<open>checkForWorkflowIssues\<close>), taking up an execution that was put into waiting
  (\<open>handleWaitingState\<close>), recording that an execution failed before its first node, and merging the metadata of the
  runs at the end (\<open>moveNodeMetadata\<close>). Which parameters of a node are missing is told by its description, the
  parameter \<open>getIssues\<close>.
\<close>

section \<open>Checks before an execution\<close>

type_synonym IWorkflowIssues = "(string, json) dict"

definition nodesToCheck :: "Workflow \<Rightarrow> string option \<Rightarrow> (string \<times> string) option \<Rightarrow> string list" where
  "nodesToCheck w startNode destinationNode =
     (case destinationNode of
        Some (nodeName, mode) \<Rightarrow> wfGetParentNodes w nodeName (Type Main) (-1) @ (if mode = ''inclusive'' then [nodeName] else [])
      | None \<Rightarrow> (case startNode of
          Some s \<Rightarrow> if s = [] then [] else wfGetChildNodes w s (Type Main) (-1) @ [s]
        | None \<Rightarrow> []))"

definition issuesOf :: "INodeTypes \<Rightarrow> (INodeType \<Rightarrow> INode \<Rightarrow> string list \<Rightarrow> json option) \<Rightarrow> string list \<Rightarrow> INode \<Rightarrow> json option" where
  "issuesOf nodeTypes getIssues pinDataNodeNames node =
     (case nodeTypes (n_type node) (n_typeVersion node) of
        None \<Rightarrow> Some (JObj [(''typeUnknown'', JBool True)])
      | Some nodeType \<Rightarrow> getIssues nodeType node pinDataNodeNames)"

definition checkNode ::
    "INodeTypes \<Rightarrow> (INodeType \<Rightarrow> INode \<Rightarrow> string list \<Rightarrow> json option) \<Rightarrow> Workflow \<Rightarrow> string list \<Rightarrow> string \<Rightarrow> IWorkflowIssues \<Rightarrow> IWorkflowIssues" where
  "checkNode nodeTypes getIssues w pinDataNodeNames nodeName workflowIssues =
     (case getNode w nodeName of None \<Rightarrow> workflowIssues
      | Some node \<Rightarrow>
          if n_disabled node = Some True then workflowIssues
          else case issuesOf nodeTypes getIssues pinDataNodeNames node of None \<Rightarrow> workflowIssues
            | Some nodeIssues \<Rightarrow> obj_set (n_name node) nodeIssues workflowIssues)"

definition checkReadyForExecution ::
    "INodeTypes \<Rightarrow> (INodeType \<Rightarrow> INode \<Rightarrow> string list \<Rightarrow> json option) \<Rightarrow> Workflow \<Rightarrow> string option \<Rightarrow> (string \<times> string) option
       \<Rightarrow> string list \<Rightarrow> IWorkflowIssues option" where
  "checkReadyForExecution nodeTypes getIssues w startNode destinationNode pinDataNodeNames =
     (let workflowIssues = fold (checkNode nodeTypes getIssues w pinDataNodeNames) (nodesToCheck w startNode destinationNode) []
      in if workflowIssues = [] then None else Some workflowIssues)"

definition checkForWorkflowIssues ::
    "INodeTypes \<Rightarrow> (INodeType \<Rightarrow> INode \<Rightarrow> string list \<Rightarrow> json option) \<Rightarrow> Workflow \<Rightarrow> (string \<times> string) option \<Rightarrow> Engine \<Rightarrow> unit result" where
  "checkForWorkflowIssues nodeTypes getIssues w destinationNode g =
     (let startNode = (case x_nodeExecutionStack (g_queue g) of [] \<Rightarrow> None | entry # _ \<Rightarrow> Some (n_name (e_node entry)))
      in case checkReadyForExecution nodeTypes getIssues w startNode destinationNode (map fst (or_default [] (g_pinData g))) of
           None \<Rightarrow> Inr () | Some _ \<Rightarrow> Inl (UserError ''The workflow has issues''))"

text \<open>The issues that are reported are those of the enabled nodes on the way, and none is missed.\<close>

lemma checkNodes_lookup:
  assumes "workflow_named w"
  shows "map_of (fold (checkNode nodeTypes getIssues w pins) nms issues) nm =
    (case getNode w nm of
       Some node \<Rightarrow> if nm \<in> set nms \<and> n_disabled node \<noteq> Some True \<and> issuesOf nodeTypes getIssues pins node \<noteq> None
         then issuesOf nodeTypes getIssues pins node else map_of issues nm
     | None \<Rightarrow> map_of issues nm)"
proof (induction nms arbitrary: issues)
  case (Cons n nms)
  have "map_of (checkNode nodeTypes getIssues w pins n issues) nm =
    (case getNode w nm of
       Some node \<Rightarrow> if nm = n \<and> n_disabled node \<noteq> Some True \<and> issuesOf nodeTypes getIssues pins node \<noteq> None
         then issuesOf nodeTypes getIssues pins node else map_of issues nm
     | None \<Rightarrow> map_of issues nm)"
    using getNode_name [OF assms] by (auto simp: checkNode_def map_of_obj_set split: option.splits)
  with Cons show ?case by (auto split: option.splits)
qed (simp split: option.splits)

lemma checkReady_exact:
  assumes "workflow_named w"
  shows "(case checkReadyForExecution nodeTypes getIssues w s d pins of None \<Rightarrow> None | Some issues \<Rightarrow> map_of issues nm) =
    (case getNode w nm of
       Some node \<Rightarrow> if nm \<in> set (nodesToCheck w s d) \<and> n_disabled node \<noteq> Some True then issuesOf nodeTypes getIssues pins node else None
     | None \<Rightarrow> None)"
  using checkNodes_lookup [OF assms, of nodeTypes getIssues pins "nodesToCheck w s d" "[]" nm]
  by (auto simp: checkReadyForExecution_def Let_def split: option.splits if_splits)

section \<open>An execution that fails before it starts\<close>

definition failedStart :: "json \<Rightarrow> Engine \<Rightarrow> Engine result" where
  "failedStart executionError g =
     (case x_nodeExecutionStack (g_queue g) of [] \<Rightarrow> Inl TypeError
      | entry # _ \<Rightarrow>
         (let task = \<lparr>t_executionIndex = Some 0, t_source = [], t_executionStatus = Some ''error'',
                t_data = Some [(Main, or_default [] (map_of (e_data entry) Main))], t_error = None, t_metadata = []\<rparr>
          in Inr (g\<lparr>g_queue := (g_queue g)\<lparr>x_runData := [(n_name (e_node entry), [task])]\<rparr>, g_pinData := None,
                    g_lastNodeExecuted := Some (n_name (e_node entry)), g_error := Some executionError\<rparr>)))"

section \<open>Metadata\<close>

definition mergeMetadata :: "(string, json) dict list \<Rightarrow> ITaskData list \<Rightarrow> ITaskData list" where
  "mergeMetadata metas tasks =
     map (\<lambda>(task, i). if i < length metas then task\<lparr>t_metadata := fold (\<lambda>(k, v). obj_set k v) (metas ! i) (t_metadata task)\<rparr> else task)
       (zip tasks [0 ..< length tasks])"

definition moveNodeMetadata :: "(string, (string, json) dict list) dict \<Rightarrow> IRunData \<Rightarrow> IRunData" where
  "moveNodeMetadata metadata runData =
     fold (\<lambda>(nodeName, metas) runData. case map_of runData nodeName of None \<Rightarrow> runData
       | Some tasks \<Rightarrow> obj_set nodeName (mergeMetadata metas tasks) runData) metadata runData"

text \<open>Moving metadata changes nothing but metadata.\<close>

lemma mergeMetadata_tasks: "map (\<lambda>t. t\<lparr>t_metadata := []\<rparr>) (mergeMetadata metas tasks) = map (\<lambda>t. t\<lparr>t_metadata := []\<rparr>) tasks"
  by (rule nth_equalityI) (auto simp: mergeMetadata_def)

lemma moveNodeMetadata_tasks:
  "map_option (map (\<lambda>t. t\<lparr>t_metadata := []\<rparr>)) (map_of (moveNodeMetadata metadata rd) nm) = map_option (map (\<lambda>t. t\<lparr>t_metadata := []\<rparr>)) (map_of rd nm)"
  unfolding moveNodeMetadata_def
proof (induction metadata arbitrary: rd)
  case (Cons p metadata)
  show ?case
    using Cons [of "case map_of rd (fst p) of None \<Rightarrow> rd | Some tasks \<Rightarrow> obj_set (fst p) (mergeMetadata (snd p) tasks) rd"]
    by (cases p) (auto simp: map_of_obj_set mergeMetadata_tasks split: option.splits if_splits)
qed simp

section \<open>Taking up a waiting execution\<close>

text \<open>Disabling a node object, as the workflow and the stack see it.\<close>

definition disableNode :: "INode \<Rightarrow> INode \<Rightarrow> INode" where
  "disableNode node n = (if n = node then n\<lparr>n_disabled := Some True\<rparr> else n)"

definition handleWaitingState :: "Workflow \<Rightarrow> Engine \<Rightarrow> (Workflow \<times> Engine) result" where
  "handleWaitingState w g =
     (if \<not> g_waitTill g then Inr (w, g)
      else case x_nodeExecutionStack (g_queue g) of [] \<Rightarrow> Inl TypeError
        | entry # _ \<Rightarrow>
           (let change = (if truthy_metadata entry ''resumeError'' then (\<lambda>n. n) else disableNode (e_node entry));
                lastNodeExecuted = or_default ''undefined'' (g_lastNodeExecuted g)
            in case map_of (x_runData (g_queue g)) lastNodeExecuted of None \<Rightarrow> Inl TypeError
               | Some runs \<Rightarrow>
                   Inr (w\<lparr>w_nodes := map (\<lambda>(k, n). (k, change n)) (w_nodes w)\<rparr>,
                        g\<lparr>g_waitTill := False,
                          g_queue := (g_queue g)
                            \<lparr>x_nodeExecutionStack := map (\<lambda>e. e\<lparr>e_node := change (e_node e)\<rparr>) (x_nodeExecutionStack (g_queue g)),
                             x_runData := obj_set lastNodeExecuted (butlast runs) (x_runData (g_queue g))\<rparr>\<rparr>)))"

text \<open>A step that ends in waiting has recorded one run of its node and put the entry back.\<close>

definition put_back :: "IExecuteData \<Rightarrow> nat \<Rightarrow> RunExecutionData \<Rightarrow> Engine \<Rightarrow> bool" where
  "put_back ed k x g' \<longleftrightarrow> (\<exists>task. g_queue g' = unshift ed (recordTask (n_name (e_node ed)) k task x)) \<and>
     g_lastNodeExecuted g' = Some (n_name (e_node ed))"

lemma passOn_halted:
  "passOn P order w ed k i err outs g = Halted g' \<Longrightarrow> g_lastNodeExecuted g = Some (n_name (e_node ed)) \<Longrightarrow> put_back ed k (g_queue g) g'"
  by (auto simp: passOn_def Let_def put_back_def split: sum.splits if_splits)

lemma failEntry_halted:
  "failEntry P order w ed k i err g = Halted g' \<Longrightarrow> g_lastNodeExecuted g = Some (n_name (e_node ed)) \<Longrightarrow> put_back ed k (g_queue g) g'"
  by (auto simp: failEntry_def Let_def dest: passOn_halted split: if_splits option.splits) (auto simp: put_back_def)

lemma runEntry_halted: "runEntry P order manual w ed k i g = Halted g' \<Longrightarrow> put_back ed k (g_queue g) g'"
  by (auto simp: runEntry_def Let_def dest!: passOn_halted failEntry_halted split: tried.splits option.splits if_splits)

lemma engineStep_halted:
  assumes "engineStep P order manual w g = Halted g'" and st: "x_nodeExecutionStack (g_queue g) = entry # rest"
  shows "put_back (entry\<lparr>e_data := updatePairedItems (po_asSource P) entry\<rparr>) (entryRunIndex (g_queue g) entry)
    ((g_queue g)\<lparr>x_nodeExecutionStack := rest\<rparr>) g'"
proof -
  have "entryRunIndex ((g_queue g)\<lparr>x_nodeExecutionStack := rest\<rparr>) entry = entryRunIndex (g_queue g) entry"
    by (simp add: entryRunIndex_def split: option.splits)
  then show ?thesis using assms(1) st
    by (auto simp: engineStep_def Let_def dest!: runEntry_halted split: if_splits)
qed


definition ex_wait_ports :: Ports where
  "ex_wait_ports = ex_ports\<lparr>po_waitTill := \<lambda>_ _. True\<rparr>"


end
