(* ===== verification/Graph_Utils.thy ===== *)
theory Graph_Utils
  imports Connections
begin

text \<open>
  \<open>workflow/src/graph/graph-utils.ts\<close>: whether the selected nodes of a workflow can be moved into a sub-workflow. Sets are
  lists without repetition in the order of insertion. A set of connections holds objects; connections that are built from a
  workflow are distinct objects, so they are kept as a list.
\<close>

section \<open>Edges of a selection\<close>

type_synonym IConnectionAdjacencyList = "(string, IConnection list) dict"

datatype ExtractableErrorResult =
    MultipleInputNodes "string list"
  | MultipleOutputNodes "string list"
  | InputEdgeToNonRootNode string
  | OutputEdgeFromNonLeafNode string
  | NoContinuousPath string string

definition getInputEdges :: "string list \<Rightarrow> IConnectionAdjacencyList \<Rightarrow> (string \<times> IConnection) list" where
  "getInputEdges graphIds adjacencyList =
     concat (map (\<lambda>(from, tos). if from \<in> set graphIds then []
       else map (\<lambda>to. (from, to)) (filter (\<lambda>to. c_node to \<in> set graphIds) tos)) adjacencyList)"

definition getOutputEdges :: "string list \<Rightarrow> IConnectionAdjacencyList \<Rightarrow> (string \<times> IConnection) list" where
  "getOutputEdges graphIds adjacencyList =
     concat (map (\<lambda>(from, tos). if from \<notin> set graphIds then []
       else map (\<lambda>to. (from, to)) (filter (\<lambda>to. c_node to \<notin> set graphIds) tos)) adjacencyList)"

definition intersection :: "'a list \<Rightarrow> 'a list \<Rightarrow> 'a list" where
  "intersection a b = filter (\<lambda>x. x \<in> set b) a"

definition unionSets :: "'a list \<Rightarrow> 'a list \<Rightarrow> 'a list" where
  "unionSets a b = fold set_add b (set_of_list a)"

definition difference :: "'a list \<Rightarrow> 'a list \<Rightarrow> 'a list" where
  "difference minuend subtrahend = filter (\<lambda>x. x \<notin> set subtrahend) minuend"

text \<open>The targets of the main connections of a node.\<close>

definition mainTargets :: "IConnectionAdjacencyList \<Rightarrow> string \<Rightarrow> string list" where
  "mainTargets adjacencyList nodeId =
     map c_node (filter (\<lambda>x. c_type x = Main) (or_empty (map_of adjacencyList nodeId)))"

definition getRootNodes :: "string list \<Rightarrow> IConnectionAdjacencyList \<Rightarrow> string list" where
  "getRootNodes graphIds adjacencyList =
     difference graphIds (fold (\<lambda>nodeId innerNodes.
       unionSets innerNodes (set_of_list (filter (\<lambda>n. n \<noteq> nodeId) (mainTargets adjacencyList nodeId)))) graphIds [])"

definition getLeafNodes :: "string list \<Rightarrow> IConnectionAdjacencyList \<Rightarrow> string list" where
  "getLeafNodes graphIds adjacencyList =
     filter (\<lambda>nodeId. intersection (set_of_list (filter (\<lambda>n. n \<noteq> nodeId) (mainTargets adjacencyList nodeId))) graphIds = []) graphIds"

section \<open>Paths\<close>

text \<open>The stack of the search grows at its end.\<close>

definition all_targets :: "IConnectionAdjacencyList \<Rightarrow> string set" where
  "all_targets adj = (\<Union>p \<in> set adj. c_node ` set (snd p))"

definition unseen :: "IConnectionAdjacencyList \<Rightarrow> string list \<Rightarrow> string list \<Rightarrow> nat" where
  "unseen adj paths seen = card (set paths \<union> all_targets adj - set seen)"

lemma finite_all_targets [simp]: "finite (all_targets adj)"
  by (simp add: all_targets_def)

lemma mainTargets_subset: "set (mainTargets adj n) \<subseteq> all_targets adj"
proof (cases "map_of adj n")
  case (Some tos)
  then have "(n, tos) \<in> set adj" by (rule map_of_SomeD)
  then have "c_node ` set tos \<subseteq> all_targets adj" unfolding all_targets_def by (metis UN_upper snd_conv)
  with Some show ?thesis by (auto simp: mainTargets_def)
qed (simp add: mainTargets_def)

function hasPathLoop :: "string \<Rightarrow> IConnectionAdjacencyList \<Rightarrow> string list \<Rightarrow> string list \<Rightarrow> bool" where
  "hasPathLoop end adjacencyList paths seen =
     (if paths = [] then False
      else if last paths = end then True
      else hasPathLoop end adjacencyList
        (butlast paths @ difference (set_of_list (mainTargets adjacencyList (last paths))) (set_add (last paths) seen))
        (set_add (last paths) seen))"
  by pat_completeness auto

lemma length_filter_butlast:
  "xs \<noteq> [] \<Longrightarrow> P (last xs) \<Longrightarrow> length (filter P xs) = Suc (length (filter P (butlast xs)))"
  by (induction xs rule: rev_induct) auto

lemma unseen_step:
  assumes "paths \<noteq> []" and "n = last paths"
    and "paths' = butlast paths @ difference (set_of_list (mainTargets adj n)) (set_add n seen)"
  shows "set paths' \<union> all_targets adj - set (set_add n seen) \<subseteq> set paths \<union> all_targets adj - set seen"
  using assms mainTargets_subset [of adj n] by (auto simp: difference_def dest: in_set_butlastD)

termination hasPathLoop
proof (relation "measures [\<lambda>(e, adj, paths, seen). unseen adj paths seen,
    \<lambda>(e, adj, paths, seen). length (filter (\<lambda>x. x \<in> set seen) paths)]", simp)
  fix e :: string and adj :: IConnectionAdjacencyList and paths seen :: "string list"
  assume ne: "paths \<noteq> []"
  define n where "n = last paths"
  define seen' where "seen' = set_add n seen"
  define paths' where "paths' = butlast paths @ difference (set_of_list (mainTargets adj n)) seen'"
  have sub: "set paths' \<union> all_targets adj - set seen' \<subseteq> set paths \<union> all_targets adj - set seen"
    using unseen_step [OF ne n_def, of paths' adj seen] by (simp add: paths'_def seen'_def)
  have "unseen adj paths' seen' < unseen adj paths seen" if "n \<notin> set seen"
    unfolding unseen_def
  proof (rule psubset_card_mono)
    have "n \<in> set paths" using ne by (simp add: n_def)
    with that sub show "set paths' \<union> all_targets adj - set seen' \<subset> set paths \<union> all_targets adj - set seen"
      by (auto simp: seen'_def)
  qed simp
  moreover have "unseen adj paths' seen' \<le> unseen adj paths seen"
    unfolding unseen_def by (rule card_mono [OF _ sub]) simp
  moreover have "length (filter (\<lambda>x. x \<in> set seen') paths') < length (filter (\<lambda>x. x \<in> set seen) paths)" if "n \<in> set seen"
  proof -
    have "set seen' = set seen" using that by (auto simp: seen'_def)
    moreover have "filter (\<lambda>x. x \<in> set seen') (difference (set_of_list (mainTargets adj n)) seen') = []"
      by (simp add: difference_def filter_empty_conv)
    moreover have "length (filter (\<lambda>x. x \<in> set seen) paths) = Suc (length (filter (\<lambda>x. x \<in> set seen) (butlast paths)))"
      using ne that unfolding n_def by (rule length_filter_butlast)
    ultimately show ?thesis by (simp add: paths'_def)
  qed
  ultimately have "((e, adj, paths', seen'), (e, adj, paths, seen)) \<in> measures
      [\<lambda>(e, adj, paths, seen). unseen adj paths seen,
       \<lambda>(e, adj, paths, seen). length (filter (\<lambda>x. x \<in> set seen) paths)]"
    by (cases "n \<in> set seen") (auto simp: le_less)
  then show "((e, adj, butlast paths @ difference (set_of_list (mainTargets adj (last paths))) (set_add (last paths) seen),
      set_add (last paths) seen), (e, adj, paths, seen)) \<in> measures
      [\<lambda>(e, adj, paths, seen). unseen adj paths seen,
       \<lambda>(e, adj, paths, seen). length (filter (\<lambda>x. x \<in> set seen) paths)]"
    by (simp only: paths'_def seen'_def n_def)
qed

declare hasPathLoop.simps [simp del]

definition hasPath :: "string \<Rightarrow> string \<Rightarrow> IConnectionAdjacencyList \<Rightarrow> bool" where
  "hasPath start end adjacencyList = hasPathLoop end adjacencyList [start] []"

section \<open>The adjacency list of a workflow\<close>

definition addOrCreate :: "string \<Rightarrow> IConnection \<Rightarrow> IConnectionAdjacencyList \<Rightarrow> IConnectionAdjacencyList" where
  "addOrCreate k v result = AList.update k (or_empty (map_of result k) @ [v]) result"

definition buildAdjacencyList :: "IConnections \<Rightarrow> IConnectionAdjacencyList" where
  "buildAdjacencyList connectionsBySourceNode =
     fold (\<lambda>(sourceNode, nodeConnections).
       fold (\<lambda>(type, slots).
         fold (\<lambda>group. fold (addOrCreate sourceNode) (or_empty group)) slots) nodeConnections)
       connectionsBySourceNode []"

section \<open>Selections that can be extracted\<close>

definition firstOf :: "'a list \<Rightarrow> 'a option" where
  "firstOf xs = (case xs of [] \<Rightarrow> None | x # _ \<Rightarrow> Some x)"

definition parseExtractableSubgraphSelection ::
  "string list \<Rightarrow> IConnectionAdjacencyList \<Rightarrow> ExtractableErrorResult list + (string option \<times> string option)" where
  "parseExtractableSubgraphSelection graphIds adjacencyList =
     (let inputEdges = getInputEdges graphIds adjacencyList;
          inputNodes = set_of_list (map (\<lambda>x. c_node (snd x)) (filter (\<lambda>x. c_type (snd x) = Main) inputEdges));
          rootNodes = getRootNodes graphIds adjacencyList;
          rootNodes = (if rootNodes = [] \<and> length inputNodes = 1 then inputNodes else rootNodes);
          errors = map InputEdgeToNonRootNode (difference inputNodes rootNodes);
          rootInputNodes = intersection rootNodes inputNodes;
          errors = errors @ (if length rootInputNodes > 1 then [MultipleInputNodes rootInputNodes] else []);
          outputEdges = getOutputEdges graphIds adjacencyList;
          outputNodes = set_of_list (map fst (filter (\<lambda>x. c_type (snd x) = Main) outputEdges));
          leafNodes = getLeafNodes graphIds adjacencyList;
          leafNodes = (if leafNodes = [] \<and> length outputNodes = 1 then outputNodes else leafNodes);
          errors = errors @ map OutputEdgeFromNonLeafNode (difference outputNodes leafNodes);
          leafOutputNodes = intersection leafNodes outputNodes;
          errors = errors @ (if length leafOutputNodes > 1 then [MultipleOutputNodes leafOutputNodes] else []);
          start = firstOf rootInputNodes;
          end = firstOf leafOutputNodes;
          errors = errors @ (case (start, end) of
              (Some s, Some e) \<Rightarrow>
                (if s \<noteq> [] \<and> e \<noteq> [] \<and> \<not> hasPath s e adjacencyList then [NoContinuousPath s e] else [])
            | _ \<Rightarrow> [])
      in if errors \<noteq> [] then Inl errors else Inr (start, end))"

section \<open>What the search for a path answers\<close>

definition main_links :: "IConnectionAdjacencyList \<Rightarrow> (string \<times> string) set" where
  "main_links adj = {(a, b). b \<in> set (mainTargets adj a)}"

lemma leaves_closed:
  assumes "(x, e) \<in> R\<^sup>*" and "x \<in> S" and "e \<notin> S" and "\<And>a b. a \<in> S \<Longrightarrow> (a, b) \<in> R \<Longrightarrow> b \<in> S \<union> P"
  shows "\<exists>p \<in> P. (p, e) \<in> R\<^sup>*"
  using assms(1,2)
proof (induction rule: converse_rtrancl_induct)
  case (step y z)
  then show ?case using assms(4) [of y z] by blast
qed (use assms(3) in blast)

lemma hasPathLoop_iff:
  assumes "e \<notin> set seen" and "\<And>a b. a \<in> set seen \<Longrightarrow> (a, b) \<in> main_links adj \<Longrightarrow> b \<in> set seen \<union> set paths"
  shows "hasPathLoop e adj paths seen \<longleftrightarrow> (\<exists>p \<in> set paths. (p, e) \<in> (main_links adj)\<^sup>*)"
  using assms
proof (induction e adj paths seen rule: hasPathLoop.induct)
  case (1 e adj paths seen)
  define n where "n = last paths"
  define seen' where "seen' = set_add n seen"
  define paths' where "paths' = butlast paths @ difference (set_of_list (mainTargets adj n)) seen'"
  show ?case
  proof (cases "paths = [] \<or> n = e")
    case True
    then show ?thesis
      by (subst hasPathLoop.simps) (auto simp: n_def intro: bexI [of _ "last paths"])
  next
    case False
    then have ne: "paths \<noteq> []" and n: "n \<noteq> e" by auto
    then have set_paths: "set paths = insert n (set (butlast paths))"
      unfolding n_def by (metis append_butlast_last_id list.simps(15) rotate1.simps(2) set_rotate1 set_append Un_insert_right Un_empty_right empty_set)
    have out: "e \<notin> set seen'" using n 1(2) by (simp add: seen'_def)
    have closed: "b \<in> set seen' \<union> set paths'" if "a \<in> set seen'" "(a, b) \<in> main_links adj" for a b
      using that 1(3) [of a b] set_paths by (auto simp: seen'_def paths'_def difference_def main_links_def)
    have "hasPathLoop e adj paths seen = hasPathLoop e adj paths' seen'"
      using ne n by (subst hasPathLoop.simps) (simp add: n_def seen'_def paths'_def)
    also have "\<dots> \<longleftrightarrow> (\<exists>p \<in> set paths'. (p, e) \<in> (main_links adj)\<^sup>*)"
      using 1(1) [OF ne] n out closed unfolding n_def [symmetric] seen'_def [symmetric] paths'_def [symmetric] by blast
    also have "\<dots> \<longleftrightarrow> (\<exists>p \<in> set paths. (p, e) \<in> (main_links adj)\<^sup>*)"
    proof
      assume "\<exists>p \<in> set paths'. (p, e) \<in> (main_links adj)\<^sup>*"
      then obtain p where p: "p \<in> set paths'" "(p, e) \<in> (main_links adj)\<^sup>*" by blast
      from p(1) consider "p \<in> set (butlast paths)" | "(n, p) \<in> main_links adj"
        by (auto simp: paths'_def difference_def main_links_def)
      then show "\<exists>p \<in> set paths. (p, e) \<in> (main_links adj)\<^sup>*"
      proof cases
        case 1
        then show ?thesis using p(2) by (intro bexI [of _ p]) (simp_all add: set_paths)
      next
        case 2
        then show ?thesis
          using converse_rtrancl_into_rtrancl [OF 2 p(2)] by (intro bexI [of _ n]) (simp_all add: set_paths)
      qed
    next
      assume "\<exists>p \<in> set paths. (p, e) \<in> (main_links adj)\<^sup>*"
      then consider "(n, e) \<in> (main_links adj)\<^sup>*" | "\<exists>p \<in> set (butlast paths). (p, e) \<in> (main_links adj)\<^sup>*"
        unfolding set_paths by blast
      then show "\<exists>p \<in> set paths'. (p, e) \<in> (main_links adj)\<^sup>*"
      proof cases
        case 1
        then show ?thesis using leaves_closed [OF 1, of "set seen'" "set paths'"] out closed by (simp add: seen'_def)
      qed (auto simp: paths'_def)
    qed
    finally show ?thesis .
  qed
qed

lemma hasPath_iff: "hasPath s e adj \<longleftrightarrow> (s, e) \<in> (main_links adj)\<^sup>*"
  using hasPathLoop_iff [of e "[]" adj "[s]"] by (simp add: hasPath_def)

section \<open>What an extractable selection is\<close>

text \<open>The selected nodes that a main connection from outside enters, those that one leaves to the outside, and the roots
  and leaves of the selection: nodes without a main connection from, or to, another selected node.\<close>

definition entered :: "(string \<times> string) set \<Rightarrow> string set \<Rightarrow> string set" where
  "entered R G = {b \<in> G. \<exists>a. a \<notin> G \<and> (a, b) \<in> R}"

definition left_from :: "(string \<times> string) set \<Rightarrow> string set \<Rightarrow> string set" where
  "left_from R G = {a \<in> G. \<exists>b. b \<notin> G \<and> (a, b) \<in> R}"

definition roots :: "(string \<times> string) set \<Rightarrow> string set \<Rightarrow> string set" where
  "roots R G = {b \<in> G. \<forall>a \<in> G. (a, b) \<in> R \<longrightarrow> a = b}"

definition leaves :: "(string \<times> string) set \<Rightarrow> string set \<Rightarrow> string set" where
  "leaves R G = {a \<in> G. \<forall>b \<in> G. (a, b) \<in> R \<longrightarrow> a = b}"

lemma adjacent_iff:
  assumes "distinct (map fst adj)"
  shows "(\<exists>tos. (a, tos) \<in> set adj \<and> c \<in> set tos) \<longleftrightarrow> c \<in> set (or_empty (map_of adj a))"
proof (cases "map_of adj a")
  case None
  then have "(a, tos) \<notin> set adj" for tos by (metis map_of_eq_None_iff fst_conv image_eqI)
  with None show ?thesis by simp
next
  case (Some tos)
  with assms have "(a, tos') \<in> set adj \<longleftrightarrow> tos' = tos" for tos' by (metis map_of_eq_Some_iff option.inject)
  with Some show ?thesis by simp
qed

lemma in_main_links_iff:
  assumes "distinct (map fst adj)"
  shows "(a, b) \<in> main_links adj \<longleftrightarrow> (\<exists>tos c. (a, tos) \<in> set adj \<and> c \<in> set tos \<and> c_type c = Main \<and> c_node c = b)"
proof -
  have "(a, b) \<in> main_links adj \<longleftrightarrow> (\<exists>c \<in> set (or_empty (map_of adj a)). c_type c = Main \<and> c_node c = b)"
    by (auto simp: main_links_def mainTargets_def)
  then show ?thesis using adjacent_iff [OF assms, of a] by blast
qed

lemma set_inputNodes:
  assumes "distinct (map fst adj)"
  shows "c_node ` snd ` {x \<in> set (getInputEdges G adj). c_type (snd x) = Main} = entered (main_links adj) (set G)"
proof -
  have "(a, c) \<in> set (getInputEdges G adj) \<longleftrightarrow> a \<notin> set G \<and> c_node c \<in> set G \<and> (\<exists>tos. (a, tos) \<in> set adj \<and> c \<in> set tos)"
    for a c by (auto simp: getInputEdges_def split: if_splits)
  then show ?thesis unfolding entered_def in_main_links_iff [OF assms] by (auto simp: image_iff) blast+
qed

lemma set_outputNodes:
  assumes "distinct (map fst adj)"
  shows "fst ` {x \<in> set (getOutputEdges G adj). c_type (snd x) = Main} = left_from (main_links adj) (set G)"
proof -
  have "(a, c) \<in> set (getOutputEdges G adj) \<longleftrightarrow> a \<in> set G \<and> c_node c \<notin> set G \<and> (\<exists>tos. (a, tos) \<in> set adj \<and> c \<in> set tos)"
    for a c by (auto simp: getOutputEdges_def split: if_splits)
  then show ?thesis unfolding left_from_def in_main_links_iff [OF assms] by (auto simp: image_iff) blast+
qed

lemma set_unionSets [simp]: "set (unionSets a b) = set a \<union> set b"
  by (simp add: unionSets_def set_fold_set_add Un_commute)

lemma set_getRootNodes: "set (getRootNodes G adj) = roots (main_links adj) (set G)"
proof -
  have "set (fold (\<lambda>nodeId inner. unionSets inner (set_of_list (filter (\<lambda>n. n \<noteq> nodeId) (mainTargets adj nodeId)))) xs acc) =
      set acc \<union> {b. \<exists>a \<in> set xs. (a, b) \<in> main_links adj \<and> b \<noteq> a}" for xs acc
    by (induction xs arbitrary: acc) (auto simp: main_links_def)
  then show ?thesis by (auto simp: getRootNodes_def difference_def roots_def)
qed

lemma set_getLeafNodes: "set (getLeafNodes G adj) = leaves (main_links adj) (set G)"
  by (auto simp: getLeafNodes_def leaves_def intersection_def filter_empty_conv main_links_def)

text \<open>The checks on the nodes with a connection across the border are the same for both directions: they pass with result
  \<open>s\<close> when there is at most one such node and it is an end of the selection, or the selection has no such end at all.\<close>

definition border :: "string list \<Rightarrow> string list \<Rightarrow> string list" where
  "border ends nodes = (if ends = [] \<and> length nodes = 1 then nodes else ends)"

lemma filter_eq_distinct: "distinct xs \<Longrightarrow> x \<in> set xs \<Longrightarrow> filter (\<lambda>y. y = x) xs = [x]"
  by (induction xs) (auto simp: filter_empty_conv)

lemma distinct_set_option: "distinct xs \<Longrightarrow> set xs = set_option s \<longleftrightarrow> xs = (case s of None \<Rightarrow> [] | Some x \<Rightarrow> [x])"
  by (cases s; cases xs; cases "tl xs") auto

lemma border_checks:
  assumes d: "distinct nodes" "distinct ends"
  shows "difference nodes (border ends nodes) = [] \<and> \<not> 1 < length (intersection (border ends nodes) nodes) \<and>
      firstOf (intersection (border ends nodes) nodes) = s \<longleftrightarrow>
    set nodes = set_option s \<and> (set nodes \<subseteq> set ends \<or> ends = [])" (is "?l \<longleftrightarrow> ?r")
proof
  assume l: ?l
  then have sub: "set nodes \<subseteq> set (border ends nodes)" by (auto simp: difference_def filter_empty_conv)
  then have "set (intersection (border ends nodes) nodes) = set nodes" by (auto simp: intersection_def)
  moreover have "intersection (border ends nodes) nodes = (case s of None \<Rightarrow> [] | Some x \<Rightarrow> [x])"
    using l by (cases "intersection (border ends nodes) nodes"; cases "tl (intersection (border ends nodes) nodes)")
      (auto simp: firstOf_def)
  ultimately have "set nodes = set_option s" by (cases s) simp_all
  with sub show ?r by (auto simp: border_def split: if_splits)
next
  assume r: ?r
  then have nodes: "nodes = (case s of None \<Rightarrow> [] | Some x \<Rightarrow> [x])" by (simp add: distinct_set_option [OF d(1)])
  show ?l
  proof (cases s)
    case None
    with nodes show ?thesis by (simp add: difference_def intersection_def firstOf_def)
  next
    case (Some x)
    with nodes have n: "nodes = [x]" by simp
    with r have "border ends nodes = [x] \<or> border ends nodes = ends \<and> x \<in> set ends" by (auto simp: border_def)
    then show ?thesis using Some filter_eq_distinct [OF d(2)] by (auto simp: n difference_def intersection_def firstOf_def)
  qed
qed

text \<open>A path between two selected nodes does not leave the selection when connections leave it only at the path's end.\<close>

lemma path_inside:
  assumes "(x, y) \<in> R\<^sup>*" and "x \<in> G" and "\<And>a b. a \<in> G \<Longrightarrow> b \<notin> G \<Longrightarrow> (a, b) \<in> R \<Longrightarrow> a = y"
  shows "(x, y) \<in> (R \<inter> G \<times> G)\<^sup>*"
  using assms(1,2)
proof (induction rule: converse_rtrancl_induct)
  case (step a b)
  show ?case
  proof (cases "b \<in> G")
    case True
    with step show ?thesis by (blast intro: converse_rtrancl_into_rtrancl)
  next
    case False
    with step assms(3) [of a b] show ?thesis by simp
  qed
qed simp

lemma distinct_getRootNodes: "distinct G \<Longrightarrow> distinct (getRootNodes G adj)"
  by (simp add: getRootNodes_def difference_def)

lemma distinct_getLeafNodes: "distinct G \<Longrightarrow> distinct (getLeafNodes G adj)"
  by (simp add: getLeafNodes_def)

lemma distinct_addOrCreate: "distinct (map fst adj) \<Longrightarrow> distinct (map fst (addOrCreate k v adj))"
  by (simp add: addOrCreate_def distinct_update)

lemma parse_Inr_iff:
  fixes G adj s e
  defines "inputs \<equiv> set_of_list (map (\<lambda>x. c_node (snd x)) (filter (\<lambda>x. c_type (snd x) = Main) (getInputEdges G adj)))"
    and "outputs \<equiv> set_of_list (map fst (filter (\<lambda>x. c_type (snd x) = Main) (getOutputEdges G adj)))"
  shows "parseExtractableSubgraphSelection G adj = Inr (s, e) \<longleftrightarrow>
    (difference inputs (border (getRootNodes G adj) inputs) = [] \<and>
     \<not> 1 < length (intersection (border (getRootNodes G adj) inputs) inputs) \<and>
     firstOf (intersection (border (getRootNodes G adj) inputs) inputs) = s) \<and>
    (difference outputs (border (getLeafNodes G adj) outputs) = [] \<and>
     \<not> 1 < length (intersection (border (getLeafNodes G adj) outputs) outputs) \<and>
     firstOf (intersection (border (getLeafNodes G adj) outputs) outputs) = e) \<and>
    (\<forall>x y. s = Some x \<and> e = Some y \<and> x \<noteq> [] \<and> y \<noteq> [] \<longrightarrow> hasPath x y adj)"
  unfolding parseExtractableSubgraphSelection_def Let_def inputs_def [symmetric] outputs_def [symmetric] border_def [symmetric]
  by (auto split: option.splits if_splits)

section \<open>Main connections of a workflow\<close>

definition workflow_edges :: "IConnections \<Rightarrow> (string \<times> string) set" where
  "workflow_edges conns = {(a, b). \<exists>t i c. (a, t, i, c) \<in> set (links conns) \<and> c_type c = Main \<and> c_node c = b}"

lemma fold_enumerate_snd: "fold (\<lambda>p. f (snd p)) (enumerate n xs) = fold f xs"
  by (rule ext) (induction xs arbitrary: n, simp_all)

lemma buildAdjacencyList_links:
  "buildAdjacencyList conns = fold (\<lambda>(s, t, i, c). addOrCreate s c) (links conns) []"
proof -
  have "fold (\<lambda>p. fold (addOrCreate k) (or_empty (snd p))) (enumerate n slots) =
      fold (\<lambda>g. fold (addOrCreate k) (or_empty g)) slots" for k n slots
    by (rule fold_enumerate_snd)
  then show ?thesis
    by (simp add: buildAdjacencyList_def links_def fold_concat_map fold_map_comp case_prod_unfold)
qed

lemma set_adjacent:
  "set (or_empty (map_of (buildAdjacencyList conns) a)) = {c. \<exists>t i. (a, t, i, c) \<in> set (links conns)}"
proof -
  have "set (or_empty (map_of (fold (\<lambda>(s, t, i, c). addOrCreate s c) ls adj) a)) =
      set (or_empty (map_of adj a)) \<union> {c. \<exists>t i. (a, t, i, c) \<in> set ls}"
    for ls :: "(string \<times> string \<times> nat \<times> IConnection) list" and adj
  proof (induction ls arbitrary: adj)
    case (Cons l ls)
    obtain s t i c where l: "l = (s, t, i, c)" by (cases l)
    have "{c. \<exists>t i. (a, t, i, c) \<in> set (l # ls)} = (if a = s then {c} else {}) \<union> {c. \<exists>t i. (a, t, i, c) \<in> set ls}"
      unfolding l by auto
    moreover have "set (or_empty (map_of (addOrCreate s c adj) a)) = set (or_empty (map_of adj a)) \<union> (if a = s then {c} else {})"
      by (simp add: addOrCreate_def update_conv')
    ultimately show ?case using Cons.IH [of "addOrCreate s c adj"] by (simp only: l fold.simps comp_apply prod.case Un_assoc)
  qed simp
  then show ?thesis unfolding buildAdjacencyList_links by simp
qed

lemma main_links_build: "main_links (buildAdjacencyList conns) = workflow_edges conns"
proof -
  have "(a, b) \<in> main_links (buildAdjacencyList conns) \<longleftrightarrow>
      (\<exists>c \<in> set (or_empty (map_of (buildAdjacencyList conns) a)). c_type c = Main \<and> c_node c = b)" for a b
    by (auto simp: main_links_def mainTargets_def)
  then have "(a, b) \<in> main_links (buildAdjacencyList conns) \<longleftrightarrow> (a, b) \<in> workflow_edges conns" for a b
    by (simp only: set_adjacent workflow_edges_def mem_Collect_eq prod.case) blast
  then show ?thesis by auto
qed

lemma distinct_buildAdjacencyList: "distinct (map fst (buildAdjacencyList conns))"
proof -
  have d: "distinct (map fst adj) \<Longrightarrow> distinct (map fst (fold (\<lambda>(s, t, i, c). addOrCreate s c) ls adj))" for ls adj
    by (induction ls arbitrary: adj) (auto simp: distinct_addOrCreate)
  show ?thesis unfolding buildAdjacencyList_links by (rule d) simp
qed

text \<open>A selection is extractable, with entry \<open>s\<close> and exit \<open>e\<close>, when the main connections that enter
  it from outside all enter \<open>s\<close> (absent when there is none), those that leave it all leave \<open>e\<close>, the entry is a
  root of the selection and the exit a leaf unless the selection has no root or no leaf at all, and when both exist a path of
  main connections inside the selection leads from the entry to the exit.\<close>

definition extractable :: "(string \<times> string) set \<Rightarrow> string set \<Rightarrow> string option \<Rightarrow> string option \<Rightarrow> bool" where
  "extractable R G s e \<longleftrightarrow> entered R G = set_option s \<and> left_from R G = set_option e \<and>
     (entered R G \<subseteq> roots R G \<or> roots R G = {}) \<and> (left_from R G \<subseteq> leaves R G \<or> leaves R G = {}) \<and>
     (\<forall>x y. s = Some x \<and> e = Some y \<longrightarrow> (x, y) \<in> (R \<inter> G \<times> G)\<^sup>*)"

text \<open>\<open>parseExtractableSubgraphSelection\<close> on the adjacency list of a workflow accepts exactly the extractable
  selections and returns their entry and exit, although its search for a path follows connections out of the selection.\<close>

lemma parseExtractableSubgraphSelection_exact:
  assumes "distinct G" and "[] \<notin> set G"
  shows "parseExtractableSubgraphSelection G (buildAdjacencyList conns) = Inr (s, e) \<longleftrightarrow>
    extractable (workflow_edges conns) (set G) s e"
proof -
  let ?adj = "buildAdjacencyList conns" and ?R = "workflow_edges conns" and ?G = "set G"
  let ?in = "set_of_list (map (\<lambda>x. c_node (snd x)) (filter (\<lambda>x. c_type (snd x) = Main) (getInputEdges G ?adj)))"
  let ?out = "set_of_list (map fst (filter (\<lambda>x. c_type (snd x) = Main) (getOutputEdges G ?adj)))"
  have sets: "set ?in = entered ?R ?G" "set ?out = left_from ?R ?G"
      "set (getRootNodes G ?adj) = roots ?R ?G" "set (getLeafNodes G ?adj) = leaves ?R ?G"
    using set_inputNodes [OF distinct_buildAdjacencyList, of G conns] set_outputNodes [OF distinct_buildAdjacencyList, of G conns]
      set_getRootNodes [of G ?adj] set_getLeafNodes [of G ?adj]
    by (simp_all add: main_links_build image_image)
  have nil: "getRootNodes G ?adj = [] \<longleftrightarrow> roots ?R ?G = {}" "getLeafNodes G ?adj = [] \<longleftrightarrow> leaves ?R ?G = {}"
    by (simp_all add: sets(3,4) [symmetric])
  have path: "(x \<noteq> [] \<and> y \<noteq> [] \<longrightarrow> hasPath x y ?adj) \<longleftrightarrow> (x, y) \<in> (?R \<inter> ?G \<times> ?G)\<^sup>*"
    if "entered ?R ?G = {x}" "left_from ?R ?G = {y}" for x y
  proof -
    from that have in_G: "x \<in> ?G" "y \<in> ?G" by (auto simp: entered_def left_from_def)
    have ends: "a = y" if "a \<in> ?G" "b \<notin> ?G" "(a, b) \<in> ?R" for a b
      using that \<open>left_from ?R ?G = {y}\<close> by (auto simp: left_from_def)
    have "(x, y) \<in> ?R\<^sup>* \<longleftrightarrow> (x, y) \<in> (?R \<inter> ?G \<times> ?G)\<^sup>*"
      using path_inside [of x y ?R ?G] in_G(1) ends rtrancl_mono [of "?R \<inter> ?G \<times> ?G" ?R] by blast
    with in_G assms(2) show ?thesis by (auto simp: hasPath_iff main_links_build)
  qed
  show ?thesis
    unfolding parse_Inr_iff extractable_def border_checks [OF distinct_set_of_list distinct_getRootNodes [OF assms(1)]]
      border_checks [OF distinct_set_of_list distinct_getLeafNodes [OF assms(1)]] sets nil
    using path by (cases s; cases e) auto
qed

definition ex_chain :: IConnections where
  "ex_chain =
     [(''A'', [(Main, [Some [\<lparr>c_node = ''B'', c_type = Main, c_index = 0\<rparr>]])]),
      (''B'', [(Main, [None, Some [\<lparr>c_node = ''C'', c_type = Main, c_index = 0\<rparr>]])]),
      (''C'', [(Main, [Some [\<lparr>c_node = ''D'', c_type = Main, c_index = 0\<rparr>, \<lparr>c_node = ''B'', c_type = Main, c_index = 0\<rparr>]])])]"

text \<open>A selection that two connections leave from different nodes is refused; the path is then looked for from the
  first node that is entered to the first node that is left.\<close>

lemma parseExtractableSubgraphSelection_refuses:
  "parseExtractableSubgraphSelection [''A'', ''C''] (buildAdjacencyList ex_chain) =
     Inl [MultipleOutputNodes [''A'', ''C''], NoContinuousPath ''C'' ''A'']"
  by code_simp

end
