(* ===== verification/Node_Grouping.thy ===== *)
theory Node_Grouping
  imports Graph_Utils Partial_Run
begin

text \<open>
  \<open>workflow/src/node-grouping-validation.ts\<close>: whether a selection of nodes may become a sub-workflow or a group on the
  canvas. It builds on the checks of \<open>Graph_Utils\<close> and adds that no trigger is selected, that the selection hangs
  together, and, for groups, that no node is in a group already and only main connections cross the border.
\<close>

section \<open>Data\<close>

datatype NodeIo = IoType string | IoConfiguration string

text \<open>The part of \<open>INodeTypeDescription\<close> that is read; inputs and outputs are lists or an expression.\<close>

record NodeDescription =
  nd_type :: INodeType
  nd_inputs :: "NodeIo list + string"
  nd_outputs :: "NodeIo list + string"

record IWorkflowGroup =
  gr_id :: string
  gr_name :: string
  gr_nodeIds :: "string list"

record NodeGroupingValidationInput =
  gi_nodes :: "INode list"
  gi_connectionsBySourceNode :: IConnections
  gi_getNodeType :: "INode \<Rightarrow> NodeDescription option"
  gi_existingNodeGroups :: "IWorkflowGroup list option"
  gi_getNodeInputs :: "(INode \<Rightarrow> NodeDescription \<Rightarrow> NodeIo list) option"
  gi_getNodeOutputs :: "(INode \<Rightarrow> NodeDescription \<Rightarrow> NodeIo list) option"

datatype NodeGroupValidationResult =
    ValidSelection "INode list" "string option" "string option"
  | TriggerSelected "string list"
  | InvalidSubgraph "ExtractableErrorResult list"
  | MultipleInputBranches string
  | MultipleOutputBranches string
  | NodeAlreadyGrouped "string list"
  | NonMainBoundary string string string

section \<open>Whether the selection hangs together\<close>

definition addNeighbor :: "string \<Rightarrow> string \<Rightarrow> (string, string list) dict \<Rightarrow> (string, string list) dict" where
  "addNeighbor k v nbrs = AList.update k (set_add v (or_empty (map_of nbrs k))) nbrs"

definition connectNeighbors ::
  "string list \<Rightarrow> string \<Rightarrow> IConnection \<Rightarrow> (string, string list) dict \<Rightarrow> (string, string list) dict" where
  "connectNeighbors nodeNames sourceNodeName connection nbrs =
     (let targetNodeName = c_node connection
      in if targetNodeName \<notin> set nodeNames \<or> targetNodeName = sourceNodeName then nbrs
         else addNeighbor targetNodeName sourceNodeName (addNeighbor sourceNodeName targetNodeName nbrs))"

definition neighborsByNodeName :: "string list \<Rightarrow> IConnectionAdjacencyList \<Rightarrow> (string, string list) dict" where
  "neighborsByNodeName nodeNames currentAdjacencyList =
     fold (\<lambda>(sourceNodeName, connections) nbrs.
         if sourceNodeName \<notin> set nodeNames then nbrs
         else fold (connectNeighbors nodeNames sourceNodeName) connections nbrs)
       currentAdjacencyList (map (\<lambda>nodeName. (nodeName, [])) nodeNames)"

definition visitNeighbor :: "string \<Rightarrow> string list \<times> string list \<Rightarrow> string list \<times> string list" where
  "visitNeighbor n = (\<lambda>(visited, queue). if n \<in> set visited then (visited, queue) else (visited @ [n], queue @ [n]))"

lemma fold_visitNeighbor_Cons:
  "fold visitNeighbor (n # ns) (visited, queue) =
     (if n \<in> set visited then fold visitNeighbor ns (visited, queue)
      else fold visitNeighbor ns (visited @ [n], queue @ [n]))"
  by (simp add: visitNeighbor_def)

definition neighbor_names :: "(string, string list) dict \<Rightarrow> string set" where
  "neighbor_names nbrs = (\<Union>p \<in> set nbrs. set (snd p))"

lemma finite_neighbor_names [simp]: "finite (neighbor_names nbrs)"
  by (simp add: neighbor_names_def)

lemma neighbors_subset: "set (or_empty (map_of nbrs a)) \<subseteq> neighbor_names nbrs"
proof (cases "map_of nbrs a")
  case (Some ns)
  then have "(a, ns) \<in> set nbrs" by (rule map_of_SomeD)
  with Some show ?thesis unfolding neighbor_names_def by (metis UN_upper or_empty_simps(2) snd_conv)
qed simp

text \<open>Every visit moves one name from the names that are left to the queue.\<close>

lemma visits_measure:
  assumes "finite U" and "set ns \<subseteq> U" and "fold visitNeighbor ns (visited, queue) = (visited', queue')"
  shows "card (U - set visited') + length queue' = card (U - set visited) + length queue"
  using assms(2,3)
proof (induction ns arbitrary: visited queue)
  case (Cons n ns)
  show ?case
  proof (cases "n \<in> set visited")
    case True
    with Cons show ?thesis by (simp add: fold_visitNeighbor_Cons del: fold.simps)
  next
    case False
    then have "fold visitNeighbor ns (visited @ [n], queue @ [n]) = (visited', queue')"
      using Cons.prems(2) by (simp only: fold_visitNeighbor_Cons if_False)
    then have "card (U - set visited') + length queue' = card (U - set (visited @ [n])) + length (queue @ [n])"
      using Cons.prems(1) by (intro Cons.IH) simp_all
    moreover have "U - set (visited @ [n]) = U - set visited - {n}" by auto
    moreover have "Suc (card (U - set visited - {n})) = card (U - set visited)"
      using False Cons.prems(1) assms(1) by (intro card_Suc_Diff1) auto
    ultimately show ?thesis by simp
  qed
qed simp

lemma visits_eq:
  "(case fold visitNeighbor (or_empty (map_of nbrs a)) (visited, queue) of
      (v, q) \<Rightarrow> card (neighbor_names nbrs - set v) + length q) = card (neighbor_names nbrs - set visited) + length queue"
  by (cases "fold visitNeighbor (or_empty (map_of nbrs a)) (visited, queue)")
    (simp add: visits_measure [OF finite_neighbor_names neighbors_subset])

function visitLoop :: "(string, string list) dict \<Rightarrow> string list \<Rightarrow> string list \<Rightarrow> string list" where
  "visitLoop nbrs visited [] = visited"
| "visitLoop nbrs visited (currentNodeName # queue) =
     (if currentNodeName = [] then visitLoop nbrs visited queue
      else (case fold visitNeighbor (or_empty (map_of nbrs currentNodeName)) (visited, queue) of
          (visited', queue') \<Rightarrow> visitLoop nbrs visited' queue'))"
  by pat_completeness auto

termination visitLoop
  by (relation "measure (\<lambda>(nbrs, visited, queue). card (neighbor_names nbrs - set visited) + length queue)")
    (auto simp: visits_eq)

definition findDisconnectedSelectionError :: "string list \<Rightarrow> IConnectionAdjacencyList \<Rightarrow> ExtractableErrorResult option" where
  "findDisconnectedSelectionError nodeNames currentAdjacencyList =
     (case nodeNames of
        [] \<Rightarrow> None
      | firstNodeName # _ \<Rightarrow>
          if length nodeNames \<le> 1 then None
          else if firstNodeName = [] then None
          else (let visited = visitLoop (neighborsByNodeName nodeNames currentAdjacencyList) [firstNodeName] [firstNodeName]
                in if length visited = length nodeNames then None
                   else (case find (\<lambda>nodeName. nodeName \<notin> set visited) nodeNames of
                       None \<Rightarrow> None
                     | Some disconnectedNodeName \<Rightarrow>
                         if disconnectedNodeName = [] then None
                         else Some (NoContinuousPath firstNodeName disconnectedNodeName))))"

section \<open>The checks\<close>

definition validateNodeSelectionSubgraph :: "NodeGroupingValidationInput \<Rightarrow> NodeGroupValidationResult" where
  "validateNodeSelectionSubgraph inp =
     (let nodes = gi_nodes inp;
          triggers = filter (\<lambda>node. case gi_getNodeType inp node of None \<Rightarrow> False | Some t \<Rightarrow> isTriggerNode (nd_type t)) nodes
      in if triggers \<noteq> [] then TriggerSelected (map n_name triggers)
         else (let adjacencyList = buildAdjacencyList (gi_connectionsBySourceNode inp);
                   selectedNodeNames = set_of_list (map n_name nodes)
               in case parseExtractableSubgraphSelection selectedNodeNames adjacencyList of
                    Inl errors \<Rightarrow> InvalidSubgraph errors
                  | Inr (start, end) \<Rightarrow>
                      (case findDisconnectedSelectionError selectedNodeNames adjacencyList of
                         Some err \<Rightarrow> InvalidSubgraph [err]
                       | None \<Rightarrow> ValidSelection nodes start end)))"

definition findAlreadyGroupedNodeIds :: "string list \<Rightarrow> IWorkflowGroup list \<Rightarrow> string list" where
  "findAlreadyGroupedNodeIds selectionNodeIds existingNodeGroups =
     filter (\<lambda>nodeId. nodeId \<in> set (concat (map gr_nodeIds existingNodeGroups))) selectionNodeIds"

fun isMainIo :: "NodeIo \<Rightarrow> bool" where
  "isMainIo (IoType io) \<longleftrightarrow> io = Main"
| "isMainIo (IoConfiguration io) \<longleftrightarrow> io = Main"

text \<open>\<open>inputs\<close> says which of the two directions is asked for.\<close>

definition hasSingleMainIO :: "string \<Rightarrow> bool \<Rightarrow> NodeGroupingValidationInput \<Rightarrow> bool" where
  "hasSingleMainIO nodeName inputs inp =
     (case map_of (rev (map (\<lambda>node. (n_name node, node)) (gi_nodes inp))) nodeName of
        None \<Rightarrow> True
      | Some node \<Rightarrow>
          (case gi_getNodeType inp node of
             None \<Rightarrow> True
           | Some nodeType \<Rightarrow>
               (let ios = (if inputs
                    then (case gi_getNodeInputs inp of Some f \<Rightarrow> Inl (f node nodeType) | None \<Rightarrow> nd_inputs nodeType)
                    else (case gi_getNodeOutputs inp of Some f \<Rightarrow> Inl (f node nodeType) | None \<Rightarrow> nd_outputs nodeType))
                in case ios of Inr _ \<Rightarrow> True | Inl l \<Rightarrow> length (filter isMainIo l) \<le> 1)))"

definition validateNodeSelectionForExtraction :: "NodeGroupingValidationInput \<Rightarrow> NodeGroupValidationResult" where
  "validateNodeSelectionForExtraction inp =
     (case validateNodeSelectionSubgraph inp of
        ValidSelection subGraph start end \<Rightarrow>
          (case filter (\<lambda>s. s \<noteq> [] \<and> \<not> hasSingleMainIO s True inp) (case start of None \<Rightarrow> [] | Some s \<Rightarrow> [s]) of
             s # _ \<Rightarrow> MultipleInputBranches s
           | [] \<Rightarrow>
               (case filter (\<lambda>e. e \<noteq> [] \<and> \<not> hasSingleMainIO e False inp) (case end of None \<Rightarrow> [] | Some e \<Rightarrow> [e]) of
                  e # _ \<Rightarrow> MultipleOutputBranches e
                | [] \<Rightarrow> ValidSelection subGraph start end))
      | r \<Rightarrow> r)"

definition findNonMainBoundaryConnection :: "string list \<Rightarrow> IConnections \<Rightarrow> (string \<times> string \<times> string) option" where
  "findNonMainBoundaryConnection nodeNames connectionsBySourceNode =
     map_option (\<lambda>(sourceNodeName, type, _, connection). (sourceNodeName, c_node connection, type))
       (find (\<lambda>(sourceNodeName, type, _, connection).
           type \<noteq> Main \<and> (sourceNodeName \<in> set nodeNames) \<noteq> (c_node connection \<in> set nodeNames))
         (links connectionsBySourceNode))"

definition validateNodeSelectionForGrouping :: "NodeGroupingValidationInput \<Rightarrow> NodeGroupValidationResult" where
  "validateNodeSelectionForGrouping inp =
     (let alreadyGroupedNodeIds = findAlreadyGroupedNodeIds (map n_id (gi_nodes inp)) (or_empty (gi_existingNodeGroups inp))
      in if alreadyGroupedNodeIds \<noteq> [] then NodeAlreadyGrouped alreadyGroupedNodeIds
         else (case validateNodeSelectionSubgraph inp of
             ValidSelection subGraph start end \<Rightarrow>
               (case findNonMainBoundaryConnection (set_of_list (map n_name subGraph)) (gi_connectionsBySourceNode inp) of
                  Some (source, target, type) \<Rightarrow> NonMainBoundary source target type
                | None \<Rightarrow> ValidSelection subGraph start end)
           | r \<Rightarrow> r))"

section \<open>Reachability of the selected nodes\<close>

definition nbr_rel :: "(string, string list) dict \<Rightarrow> (string \<times> string) set" where
  "nbr_rel nbrs = {(a, b). b \<in> set (or_empty (map_of nbrs a))}"

text \<open>The connections of a workflow of any type.\<close>

definition all_links :: "IConnections \<Rightarrow> (string \<times> string) set" where
  "all_links conns = {(a, b). \<exists>t i c. (a, t, i, c) \<in> set (links conns) \<and> c_node c = b}"

definition connected :: "(string \<times> string) set \<Rightarrow> string set \<Rightarrow> bool" where
  "connected E G \<longleftrightarrow> (\<forall>x \<in> G. \<forall>y \<in> G. (x, y) \<in> ((E \<union> E\<inverse>) \<inter> G \<times> G)\<^sup>*)"

lemma fold_visitNeighbor:
  assumes "fold visitNeighbor ns (visited, queue) = (visited', queue')"
  shows "set visited' = set visited \<union> set ns" and "set queue' = set queue \<union> (set ns - set visited)"
    and "distinct visited \<Longrightarrow> distinct visited'"
proof -
  have "set visited' = set visited \<union> set ns \<and> set queue' = set queue \<union> (set ns - set visited) \<and>
      (distinct visited \<longrightarrow> distinct visited')" using assms
  proof (induction ns arbitrary: visited queue)
    case (Cons n ns)
    show ?case
    proof (cases "n \<in> set visited")
      case True
      with Cons have "fold visitNeighbor ns (visited, queue) = (visited', queue')"
        by (simp only: fold_visitNeighbor_Cons if_True)
      from Cons.IH [OF this] True show ?thesis by auto
    next
      case False
      with Cons have "fold visitNeighbor ns (visited @ [n], queue @ [n]) = (visited', queue')"
        by (simp only: fold_visitNeighbor_Cons if_False)
      from Cons.IH [OF this] False show ?thesis by auto
    qed
  qed simp
  then show "set visited' = set visited \<union> set ns" "set queue' = set queue \<union> (set ns - set visited)"
    "distinct visited \<Longrightarrow> distinct visited'" by blast+
qed

lemma visitLoop_closed:
  assumes "[] \<notin> set queue" and "[] \<notin> Range (nbr_rel nbrs)" and "set queue \<subseteq> set visited" and "distinct visited"
    and "\<And>a. a \<in> set visited - set queue \<Longrightarrow> nbr_rel nbrs `` {a} \<subseteq> set visited"
  shows "distinct (visitLoop nbrs visited queue) \<and> set visited \<subseteq> set (visitLoop nbrs visited queue) \<and>
    set (visitLoop nbrs visited queue) \<subseteq> (nbr_rel nbrs)\<^sup>* `` set visited \<and>
    nbr_rel nbrs `` set (visitLoop nbrs visited queue) \<subseteq> set (visitLoop nbrs visited queue)"
  using assms
proof (induction nbrs visited queue rule: visitLoop.induct)
  case (1 nbrs visited)
  then show ?case by auto
next
  case (2 nbrs visited c queue)
  obtain v q where f: "fold visitNeighbor (or_empty (map_of nbrs c)) (visited, queue) = (v, q)" by fastforce
  have c: "c \<noteq> []" using 2(3) by auto
  have ns: "nbr_rel nbrs `` {c} = set (or_empty (map_of nbrs c))" by (auto simp: nbr_rel_def)
  note v = fold_visitNeighbor [OF f, folded ns]
  have step: "visitLoop nbrs visited (c # queue) = visitLoop nbrs v q" using c by (simp add: f)
  have reach: "(nbr_rel nbrs)\<^sup>* `` set v \<subseteq> (nbr_rel nbrs)\<^sup>* `` set visited"
  proof -
    have "nbr_rel nbrs `` {c} \<subseteq> (nbr_rel nbrs)\<^sup>* `` set visited" using 2(5) by auto
    then have "set v \<subseteq> (nbr_rel nbrs)\<^sup>* `` set visited" using v(1) by auto
    then show ?thesis 
      by (metis (no_types, opaque_lifting) Image_mono Image_Un relcomp_Image rtrancl_idemp_self_comp subset_refl)
  qed
  have "distinct (visitLoop nbrs v q) \<and> set v \<subseteq> set (visitLoop nbrs v q) \<and>
      set (visitLoop nbrs v q) \<subseteq> (nbr_rel nbrs)\<^sup>* `` set v \<and>
      nbr_rel nbrs `` set (visitLoop nbrs v q) \<subseteq> set (visitLoop nbrs v q)"
  proof (rule 2(2) [OF c f [symmetric]])
    show "[] \<notin> set q" using 2(3,4) v(2) by auto
    show "[] \<notin> Range (nbr_rel nbrs)" by (rule 2(4))
    show "set q \<subseteq> set v" using 2(5) v(1,2) by auto
    show "distinct v" by (rule v(3) [OF 2(6)])
    show "nbr_rel nbrs `` {a} \<subseteq> set v" if "a \<in> set v - set q" for a
    proof (cases "a = c")
      case True
      then show ?thesis using v(1) by blast
    next
      case False
      with that v(1,2) have "a \<in> set visited - set (c # queue)" by auto
      then show ?thesis using 2(7) [of a] v(1) by blast
    qed
  qed
  then show ?case unfolding step using reach v(1) by blast
qed

lemma nbr_rel_addNeighbor: "nbr_rel (addNeighbor k v nbrs) = insert (k, v) (nbr_rel nbrs)"
  by (auto simp: nbr_rel_def addNeighbor_def update_conv' split: if_splits)

lemma fold_Union:
  assumes "\<And>x d. x \<in> set xs \<Longrightarrow> val (f x d) = val d \<union> V x"
  shows "val (fold f xs d) = val d \<union> (\<Union>x \<in> set xs. V x)"
  using assms
proof (induction xs arbitrary: d)
  case (Cons x xs)
  have "val (fold f xs (f x d)) = val (f x d) \<union> (\<Union>x \<in> set xs. V x)" by (rule Cons.IH) (simp add: Cons.prems)
  then show ?case by (simp add: Cons.prems Un_assoc)
qed simp

lemma nbr_rel_connectNeighbors:
  "nbr_rel (connectNeighbors G a c nbrs) = nbr_rel nbrs \<union>
     (if c_node c \<notin> set G \<or> c_node c = a then {} else {(a, c_node c), (c_node c, a)})"
  by (auto simp: connectNeighbors_def Let_def nbr_rel_addNeighbor)

lemma all_linksI: "(a, t, i, c) \<in> set (links conns) \<Longrightarrow> (a, c_node c) \<in> all_links conns"
  unfolding all_links_def by blast

lemma nbr_rel_neighbors:
  "nbr_rel (neighborsByNodeName G (buildAdjacencyList conns)) =
     (all_links conns \<union> (all_links conns)\<inverse>) \<inter> set G \<times> set G - Id"
proof -
  let ?adj = "buildAdjacencyList conns" and ?d = "map (\<lambda>nodeName. (nodeName, [])) G :: (string, string list) dict"
  let ?V = "\<lambda>a c. if c_node c \<notin> set G \<or> c_node c = a then {} else {(a, c_node c), (c_node c, a)}"
  have inner: "nbr_rel (fold (connectNeighbors G a) cs nbrs) = nbr_rel nbrs \<union> (\<Union>c \<in> set cs. ?V a c)" for a cs nbrs
    by (rule fold_Union) (rule nbr_rel_connectNeighbors)
  have "nbr_rel (neighborsByNodeName G ?adj) =
      nbr_rel ?d \<union> (\<Union>p \<in> set ?adj. if fst p \<notin> set G then {} else (\<Union>c \<in> set (snd p). ?V (fst p) c))"
    unfolding neighborsByNodeName_def by (rule fold_Union) (simp add: inner case_prod_unfold)
  moreover have "or_empty (map_of ?d a) = []" for a by (induction G) auto
  then have "nbr_rel ?d = {}" by (simp add: nbr_rel_def)
  moreover have "(\<exists>cs. (a, cs) \<in> set ?adj \<and> c \<in> set cs) \<longleftrightarrow> (\<exists>t i. (a, t, i, c) \<in> set (links conns))" for a c
    using adjacent_iff [OF distinct_buildAdjacencyList, of a conns c] set_adjacent [of conns a] by simp
  then have "(\<Union>p \<in> set ?adj. if fst p \<notin> set G then {} else (\<Union>c \<in> set (snd p). ?V (fst p) c)) =
      {(x, y). \<exists>a t i c. (a, t, i, c) \<in> set (links conns) \<and> a \<in> set G \<and> (x, y) \<in> ?V a c}"
    by (fastforce split: if_splits)
  moreover have "\<dots> = (all_links conns \<union> (all_links conns)\<inverse>) \<inter> set G \<times> set G - Id"
  proof (intro equalityI subrelI)
    fix x y
    assume "(x, y) \<in> {(x, y). \<exists>a t i c. (a, t, i, c) \<in> set (links conns) \<and> a \<in> set G \<and> (x, y) \<in> ?V a c}"
    then obtain a t i c where "(a, t, i, c) \<in> set (links conns)" "a \<in> set G" and v: "(x, y) \<in> ?V a c" by blast
    then show "(x, y) \<in> (all_links conns \<union> (all_links conns)\<inverse>) \<inter> set G \<times> set G - Id"
      using all_linksI by (auto split: if_splits)
  next
    fix x y
    assume "(x, y) \<in> (all_links conns \<union> (all_links conns)\<inverse>) \<inter> set G \<times> set G - Id"
    then have xy: "x \<in> set G" "y \<in> set G" "x \<noteq> y" "(x, y) \<in> all_links conns \<or> (y, x) \<in> all_links conns" by auto
    then consider t i c where "(x, t, i, c) \<in> set (links conns)" "c_node c = y"
      | t i c where "(y, t, i, c) \<in> set (links conns)" "c_node c = x"
      unfolding all_links_def by blast
    then have "\<exists>a t i c. (a, t, i, c) \<in> set (links conns) \<and> a \<in> set G \<and> (x, y) \<in> ?V a c"
    proof cases
      case 1
      with xy have "a = x \<Longrightarrow> (x, y) \<in> ?V a c" for a by simp
      with 1(1) xy(1) show ?thesis by blast
    next
      case 2
      with xy have "a = y \<Longrightarrow> (x, y) \<in> ?V a c" for a by simp
      with 2(1) xy(2) show ?thesis by blast
    qed
    then show "(x, y) \<in> {(x, y). \<exists>a t i c. (a, t, i, c) \<in> set (links conns) \<and> a \<in> set G \<and> (x, y) \<in> ?V a c}" by blast
  qed
  ultimately show ?thesis by simp
qed

lemma visited_from_first:
  assumes "[] \<notin> set G" and "f \<in> set G"
    and visited_def: "visited = visitLoop (neighborsByNodeName G (buildAdjacencyList conns)) [f] [f]"
  shows "distinct visited"
    and "set visited = ((all_links conns \<union> (all_links conns)\<inverse>) \<inter> set G \<times> set G)\<^sup>* `` {f}"
proof -
  let ?R = "(all_links conns \<union> (all_links conns)\<inverse>) \<inter> set G \<times> set G"
  have R: "nbr_rel (neighborsByNodeName G (buildAdjacencyList conns)) = ?R - Id" by (rule nbr_rel_neighbors)
  have "[] \<notin> set [f]" "[] \<notin> Range (nbr_rel (neighborsByNodeName G (buildAdjacencyList conns)))"
    using assms(1,2) by (auto simp: R)
  from visitLoop_closed [OF this, of "[f]"]
  have v: "distinct visited" "f \<in> set visited" "set visited \<subseteq> (?R - Id)\<^sup>* `` {f}" "(?R - Id) `` set visited \<subseteq> set visited"
    by (simp_all add: R visited_def)
  from v(1) show "distinct visited" .
  have "(?R - Id)\<^sup>* `` {f} \<subseteq> set visited"
    using Image_closed_trancl [OF v(4)] v(2) by blast
  with v(3) show "set visited = ?R\<^sup>* `` {f}" by (simp add: rtrancl_r_diff_Id)
qed

lemma connected_iff:
  assumes "f \<in> G"
  shows "connected E G \<longleftrightarrow> G \<subseteq> ((E \<union> E\<inverse>) \<inter> G \<times> G)\<^sup>* `` {f}"
proof
  assume l: "G \<subseteq> ((E \<union> E\<inverse>) \<inter> G \<times> G)\<^sup>* `` {f}"
  have "sym (((E \<union> E\<inverse>) \<inter> G \<times> G)\<^sup>*)" by (rule sym_rtrancl) (auto simp: sym_def)
  with l show "connected E G" unfolding connected_def by (meson Image_singleton_iff rtrancl_trans subset_iff symD)
qed (use assms in \<open>auto simp: connected_def\<close>)

lemma findDisconnectedSelectionError_None:
  assumes "distinct G" and "[] \<notin> set G"
  shows "findDisconnectedSelectionError G (buildAdjacencyList conns) = None \<longleftrightarrow> connected (all_links conns) (set G)"
proof (cases G)
  case Nil
  then show ?thesis by (simp add: findDisconnectedSelectionError_def connected_def)
next
  case (Cons f rest)
  let ?R = "(all_links conns \<union> (all_links conns)\<inverse>) \<inter> set G \<times> set G"
  define visited where "visited = visitLoop (neighborsByNodeName G (buildAdjacencyList conns)) [f] [f]"
  have f: "f \<in> set G" "f \<noteq> []" using Cons assms(2) by auto
  note v = visited_from_first [OF assms(2) f(1) visited_def]
  have sub: "set visited \<subseteq> set G"
    using f(1) Image_closed_trancl [of ?R "set G"] unfolding v(2) by blast
  have len: "length visited = length G \<longleftrightarrow> set G \<subseteq> set visited"
  proof
    assume "length visited = length G"
    then have "card (set visited) = card (set G)" using distinct_card [OF v(1)] distinct_card [OF assms(1)] by simp
    from card_subset_eq [OF finite_set sub this] show "set G \<subseteq> set visited" by simp
  next
    assume "set G \<subseteq> set visited"
    with sub have "set visited = set G" by (rule equalityI)
    then show "length visited = length G" using distinct_card [OF v(1)] distinct_card [OF assms(1)] by simp
  qed
  have "connected (all_links conns) (set G) \<longleftrightarrow> set G \<subseteq> set visited"
    unfolding v(2) by (rule connected_iff [OF f(1)])
  moreover have "findDisconnectedSelectionError G (buildAdjacencyList conns) = None \<longleftrightarrow> set G \<subseteq> set visited"
  proof (cases "length G \<le> 1")
    case True
    with Cons have "G = [f]" by simp
    then show ?thesis using v(2) by (simp add: findDisconnectedSelectionError_def)
  next
    case False
    have first: "(case G of [] \<Rightarrow> a | x # _ \<Rightarrow> h x) = h f" for a :: "ExtractableErrorResult option" and h
      using Cons by simp
    have "findDisconnectedSelectionError G (buildAdjacencyList conns) =
        (if set G \<subseteq> set visited then None
         else case find (\<lambda>nodeName. nodeName \<notin> set visited) G of None \<Rightarrow> None
           | Some d \<Rightarrow> if d = [] then None else Some (NoContinuousPath f d))"
      by (simp only: findDisconnectedSelectionError_def first False f(2) if_False Let_def visited_def [symmetric] len)
    moreover have "find (\<lambda>nodeName. nodeName \<notin> set visited) G \<noteq> None" if "\<not> set G \<subseteq> set visited"
      using that by (auto simp: find_None_iff)
    moreover have "d \<noteq> []" if "find (\<lambda>nodeName. nodeName \<notin> set visited) G = Some d" for d
      using that assms(2) by (metis find_Some_iff nth_mem)
    ultimately show ?thesis by (auto split: option.splits)
  qed
  ultimately show ?thesis by simp
qed

lemma findNonMainBoundaryConnection_None:
  "findNonMainBoundaryConnection names conns = None \<longleftrightarrow>
    (\<forall>(a, t, i, c) \<in> set (links conns). t \<noteq> Main \<longrightarrow> (a \<in> set names \<longleftrightarrow> c_node c \<in> set names))"
  by (auto simp: findNonMainBoundaryConnection_def find_None_iff)

text \<open>
  C39: \<open>validateNodeSelectionForGrouping\<close> declares a selection of nodes (with names that are not empty) valid exactly
  when none of them is in a group already, none is a trigger, the selection is extractable with the entry and exit that are
  returned (one entry and one exit at most, root and leaf of the selection, joined by a path inside it), any two selected nodes
  are joined by connections of any type inside the selection, and no connection that is not a main connection crosses the
  border of the selection.
\<close>

theorem validateNodeSelectionForGrouping_exact:
  assumes "[] \<notin> n_name ` set (gi_nodes inp)"
  shows "validateNodeSelectionForGrouping inp = ValidSelection sub s e \<longleftrightarrow>
    sub = gi_nodes inp \<and>
    (\<forall>n \<in> set (gi_nodes inp). (\<forall>g \<in> set (or_empty (gi_existingNodeGroups inp)). n_id n \<notin> set (gr_nodeIds g)) \<and>
      (\<forall>t. gi_getNodeType inp n = Some t \<longrightarrow> ''trigger'' \<notin> set (nt_group (nd_type t)))) \<and>
    extractable (workflow_edges (gi_connectionsBySourceNode inp)) (n_name ` set (gi_nodes inp)) s e \<and>
    connected (all_links (gi_connectionsBySourceNode inp)) (n_name ` set (gi_nodes inp)) \<and>
    (\<forall>(a, t, i, c) \<in> set (links (gi_connectionsBySourceNode inp)). t \<noteq> Main \<longrightarrow>
      (a \<in> n_name ` set (gi_nodes inp) \<longleftrightarrow> c_node c \<in> n_name ` set (gi_nodes inp)))"
proof -
  let ?names = "set_of_list (map n_name (gi_nodes inp))" and ?conns = "gi_connectionsBySourceNode inp"
  have names: "set ?names = n_name ` set (gi_nodes inp)" "distinct ?names" "[] \<notin> set ?names"
    using assms by simp_all
  have triggers: "filter (\<lambda>node. case gi_getNodeType inp node of None \<Rightarrow> False | Some t \<Rightarrow> isTriggerNode (nd_type t)) (gi_nodes inp) = []
      \<longleftrightarrow> (\<forall>n \<in> set (gi_nodes inp). \<forall>t. gi_getNodeType inp n = Some t \<longrightarrow> ''trigger'' \<notin> set (nt_group (nd_type t)))"
    by (auto simp: filter_empty_conv isTriggerNode_def split: option.splits)
  have sub: "validateNodeSelectionSubgraph inp = ValidSelection sub s e \<longleftrightarrow> sub = gi_nodes inp \<and>
      (\<forall>n \<in> set (gi_nodes inp). \<forall>t. gi_getNodeType inp n = Some t \<longrightarrow> ''trigger'' \<notin> set (nt_group (nd_type t))) \<and>
      extractable (workflow_edges ?conns) (set ?names) s e \<and> connected (all_links ?conns) (set ?names)" for sub
    unfolding validateNodeSelectionSubgraph_def Let_def triggers [symmetric]
      parseExtractableSubgraphSelection_exact [OF names(2,3), symmetric]
      findDisconnectedSelectionError_None [OF names(2,3), symmetric]
    by (auto split: sum.splits option.splits prod.splits)
  have grouped: "findAlreadyGroupedNodeIds (map n_id (gi_nodes inp)) groups = [] \<longleftrightarrow>
      (\<forall>n \<in> set (gi_nodes inp). \<forall>g \<in> set groups. n_id n \<notin> set (gr_nodeIds g))" for groups
    by (auto simp: findAlreadyGroupedNodeIds_def filter_empty_conv)
  have "validateNodeSelectionForGrouping inp = ValidSelection sub s e \<longleftrightarrow>
      findAlreadyGroupedNodeIds (map n_id (gi_nodes inp)) (or_empty (gi_existingNodeGroups inp)) = [] \<and>
      validateNodeSelectionSubgraph inp = ValidSelection sub s e \<and>
      findNonMainBoundaryConnection (set_of_list (map n_name sub)) ?conns = None"
    unfolding validateNodeSelectionForGrouping_def Let_def
    by (auto split: NodeGroupValidationResult.splits option.splits)
  then show ?thesis unfolding sub grouped names(1) [symmetric] findNonMainBoundaryConnection_None [symmetric] by blast
qed

definition ex_selection :: "IConnections \<Rightarrow> NodeGroupingValidationInput" where
  "ex_selection conns =
     \<lparr>gi_nodes = [plain_node 1 ''B'' ''set'', plain_node 2 ''C'' ''set''],
      gi_connectionsBySourceNode = conns,
      gi_getNodeType = (\<lambda>_. Some \<lparr>nd_type = \<lparr>nt_name = ''set'', nt_group = [''transform''], nt_trigger = False, nt_poll = False\<rparr>,
        nd_inputs = Inl [IoType Main], nd_outputs = Inl [IoType Main]\<rparr>),
      gi_existingNodeGroups = Some [\<lparr>gr_id = ''g'', gr_name = ''Group'', gr_nodeIds = [''a'']\<rparr>],
      gi_getNodeInputs = None, gi_getNodeOutputs = None\<rparr>"

theorem validateNodeSelectionForGrouping_exact_witness:
  "validateNodeSelectionForGrouping (ex_selection ex_chain) =
     ValidSelection (gi_nodes (ex_selection ex_chain)) (Some ''B'') (Some ''C'') \<and>
   extractable (workflow_edges ex_chain) {''B'', ''C''} (Some ''B'') (Some ''C'') \<and>
   connected (all_links ex_chain) {''B'', ''C''}"
proof -
  have ok: "[] \<notin> n_name ` set (gi_nodes (ex_selection ex_chain))" by (simp add: ex_selection_def plain_node_def)
  have p: "validateNodeSelectionForGrouping (ex_selection ex_chain) =
     ValidSelection (gi_nodes (ex_selection ex_chain)) (Some ''B'') (Some ''C'')" by code_simp
  have names: "n_name ` set (gi_nodes (ex_selection ex_chain)) = {''B'', ''C''}"
    and conns: "gi_connectionsBySourceNode (ex_selection ex_chain) = ex_chain"
    by (simp_all add: ex_selection_def plain_node_def)
  from validateNodeSelectionForGrouping_exact [OF ok, THEN iffD1, OF p, unfolded names conns] p show ?thesis by blast
qed

text \<open>The two checks on the connections across the border read different fields: the search for a crossing connection that is
  not a main connection goes by the output it starts at, the entries and exits by the input it ends at. A connection from a main
  output to an input of another type passes both.\<close>

lemma grouping_mixed_connection:
  "validateNodeSelectionForGrouping
     (ex_selection (obj_set ''A'' [(Main, [Some [\<lparr>c_node = ''B'', c_type = AiTool, c_index = 0\<rparr>]])] ex_chain)) =
   ValidSelection (gi_nodes (ex_selection ex_chain)) None (Some ''C'')"
  by code_simp

text \<open>A selection that is valid for extraction is valid as a subgraph, and its entry and exit have one main input and one
  main output at most where their lists are known.\<close>

lemma validateNodeSelectionForExtraction_single:
  assumes "validateNodeSelectionForExtraction inp = ValidSelection sub s e"
  shows "validateNodeSelectionSubgraph inp = ValidSelection sub s e"
    and "s = Some x \<Longrightarrow> x \<noteq> [] \<Longrightarrow> hasSingleMainIO x True inp"
    and "e = Some y \<Longrightarrow> y \<noteq> [] \<Longrightarrow> hasSingleMainIO y False inp"
  using assms by (auto simp: validateNodeSelectionForExtraction_def
    split: NodeGroupValidationResult.splits option.splits list.splits if_splits)

end
