(* ===== verification/Permissions.thy ===== *)
theory Permissions
  imports N8n_Types
begin

text \<open>
  \<open>@n8n/permissions\<close>: what the built-in roles may do. A scope is a text \<open>resource:operation\<close>. The lists of scopes are
  the constants of \<open>roles/scopes\<close> and \<open>public-api-permissions.ee.ts\<close>; the functions of \<open>utilities\<close> decide whether a
  scope is held. Roles that are read from the database are records with their scopes.
\<close>

section \<open>Data\<close>

type_synonym Scope = string

datatype access_error = JsError string | NotFoundError | BadRequestError string | ForbiddenError | UnexpectedAccess

record DbRole =
  r_slug :: string
  r_scopes :: "Scope list"

record AuthPrincipal =
  p_role :: "DbRole option"

record ScopeLevels =
  sl_global :: "Scope list"
  sl_project :: "Scope list option"
  sl_resource :: "Scope list option"

datatype ScopeMode = OneOf | AllOf

section \<open>Resources\<close>

definition DEFAULT_OPERATIONS :: "string list" where
  "DEFAULT_OPERATIONS = [''create'', ''read'', ''update'', ''delete'', ''list'']"

definition RESOURCES :: "(string, string list) dict" where
  "RESOURCES =
     [(''agent'', DEFAULT_OPERATIONS @ [''execute'', ''publish'', ''unpublish'', ''manage'']),
      (''aiAssistant'', [''manage'']), (''annotationTag'', DEFAULT_OPERATIONS), (''auditLogs'', [''manage'']),
      (''banner'', [''dismiss'']), (''community'', [''register'']),
      (''communityPackage'', [''install'', ''uninstall'', ''update'', ''list'', ''manage'']),
      (''credential'', [''share'', ''unshare'', ''shareGlobally'', ''move''] @ DEFAULT_OPERATIONS),
      (''externalSecretsProvider'', [''sync''] @ DEFAULT_OPERATIONS), (''externalSecret'', [''list'']),
      (''eventBusDestination'', [''test''] @ DEFAULT_OPERATIONS), (''ldap'', [''sync'', ''manage'']),
      (''license'', [''manage'']), (''logStreaming'', [''manage'']), (''orchestration'', [''read'', ''list'']),
      (''project'', DEFAULT_OPERATIONS), (''saml'', [''manage'']), (''securityAudit'', [''generate'']),
      (''securitySettings'', [''manage'']), (''sourceControl'', [''pull'', ''push'', ''manage'']),
      (''tag'', DEFAULT_OPERATIONS),
      (''user'', [''resetPassword'', ''changeRole'', ''enforceMfa'', ''generateInviteLink''] @ DEFAULT_OPERATIONS),
      (''variable'', DEFAULT_OPERATIONS), (''projectVariable'', DEFAULT_OPERATIONS), (''workersView'', [''manage'']),
      (''workflow'', [''share'', ''unshare'', ''execute'', ''execute-chat'', ''export'', ''import'', ''move'', ''activate'', ''deactivate'', ''publish'', ''unpublish'', ''enableRedaction'', ''disableRedaction''] @ DEFAULT_OPERATIONS),
      (''folder'', DEFAULT_OPERATIONS @ [''move'']), (''insights'', [''list'', ''read'']), (''oidc'', [''manage'']),
      (''provisioning'', [''manage'']),
      (''dataTable'', DEFAULT_OPERATIONS @ [''readRow'', ''writeRow'', ''readColumn'', ''writeColumn'', ''listProject'']),
      (''execution'', [''delete'', ''read'', ''retry'', ''list'', ''get'', ''reveal'']),
      (''workflowTags'', [''update'', ''list'']), (''role'', [''manage'']), (''mcp'', [''manage'', ''oauth'']),
      (''mcpApiKey'', [''create'', ''rotate'']), (''chatHub'', [''manage'', ''message'']),
      (''chatHubAgent'', DEFAULT_OPERATIONS), (''breakingChanges'', [''list'']),
      (''apiKey'', [''manage'', ''list'', ''create'', ''delete'', ''update'']), (''encryptionKey'', [''manage'']),
      (''credentialResolver'', DEFAULT_OPERATIONS), (''instanceAi'', [''message'', ''manage'', ''gateway'', ''eval'']),
      (''roleMappingRule'', DEFAULT_OPERATIONS), (''otel'', [''manage''])]"

definition API_KEY_RESOURCES :: "(string, string list) dict" where
  "API_KEY_RESOURCES =
     [(''tag'', DEFAULT_OPERATIONS),
      (''workflow'', DEFAULT_OPERATIONS @ [''move'', ''activate'', ''deactivate'', ''export'', ''import'']),
      (''variable'', [''create'', ''update'', ''delete'', ''list'']), (''securityAudit'', [''generate'']),
      (''project'', [''create'', ''update'', ''delete'', ''list'']),
      (''user'', [''read'', ''list'', ''create'', ''changeRole'', ''delete'']),
      (''execution'', [''delete'', ''read'', ''retry'', ''list'', ''stop'']),
      (''credential'', [''create'', ''read'', ''update'', ''move'', ''delete'', ''list'']),
      (''sourceControl'', [''pull'']), (''workflowTags'', [''update'', ''list'']),
      (''executionTags'', [''update'', ''list'']),
      (''communityPackage'', [''install'', ''uninstall'', ''update'', ''list'']),
      (''dataTable'', [''create'', ''read'', ''update'', ''delete'', ''list'']),
      (''dataTableRow'', [''create'', ''read'', ''update'', ''delete'', ''upsert'']),
      (''dataTableColumn'', [''create'', ''read'', ''delete'', ''update'']),
      (''folder'', [''create'', ''delete'', ''read'', ''update'', ''list'']), (''insights'', [''read''])]"

text \<open>The first and the second part of \<open>scope.split(':')\<close>.\<close>

definition scopeResource :: "Scope \<Rightarrow> string" where
  "scopeResource s = takeWhile (\<lambda>c. c \<noteq> CHR '':'') s"

definition scopeOperation :: "Scope \<Rightarrow> string" where
  "scopeOperation s = (case dropWhile (\<lambda>c. c \<noteq> CHR '':'') s of
     [] \<Rightarrow> ''undefined'' | _ # rest \<Rightarrow> takeWhile (\<lambda>c. c \<noteq> CHR '':'') rest)"

definition buildResourceScopes :: "Scope list" where
  "buildResourceScopes =
     concat (map (\<lambda>(resource, operations).
       map (\<lambda>op. resource @ '':'' @ op) operations @ [resource @ '':*'']) RESOURCES) @ [''*'']"

definition buildApiKeyScopes :: "Scope list" where
  "buildApiKeyScopes =
     set_of_list (concat (map (\<lambda>(resource, operations). map (\<lambda>op. resource @ '':'' @ op) operations) API_KEY_RESOURCES))"

section \<open>Built-in roles\<close>

definition GLOBAL_OWNER_SCOPES :: "Scope list" where
  "GLOBAL_OWNER_SCOPES =
     [''agent:create'', ''agent:read'', ''agent:update'', ''agent:delete'', ''agent:list'', ''agent:execute'',
      ''agent:publish'', ''agent:unpublish'', ''agent:manage'', ''aiAssistant:manage'', ''annotationTag:create'',
      ''annotationTag:read'', ''annotationTag:update'', ''annotationTag:delete'', ''annotationTag:list'',
      ''auditLogs:manage'', ''banner:dismiss'', ''credential:create'', ''credential:read'', ''credential:update'',
      ''credential:delete'', ''credential:list'', ''credential:share'', ''credential:unshare'',
      ''credential:shareGlobally'', ''credential:move'', ''community:register'', ''communityPackage:install'',
      ''communityPackage:uninstall'', ''communityPackage:update'', ''communityPackage:list'',
      ''eventBusDestination:create'', ''eventBusDestination:read'', ''eventBusDestination:update'',
      ''eventBusDestination:delete'', ''eventBusDestination:list'', ''eventBusDestination:test'',
      ''externalSecretsProvider:create'', ''externalSecretsProvider:read'', ''externalSecretsProvider:update'',
      ''externalSecretsProvider:delete'', ''externalSecretsProvider:list'', ''externalSecretsProvider:sync'',
      ''externalSecret:list'', ''ldap:manage'', ''ldap:sync'', ''license:manage'', ''logStreaming:manage'',
      ''orchestration:read'', ''saml:manage'', ''securityAudit:generate'', ''securitySettings:manage'',
      ''sourceControl:pull'', ''sourceControl:push'', ''sourceControl:manage'', ''tag:create'', ''tag:read'',
      ''tag:update'', ''tag:delete'', ''tag:list'', ''user:create'', ''user:read'', ''user:update'', ''user:delete'',
      ''user:list'', ''user:resetPassword'', ''user:generateInviteLink'', ''user:changeRole'', ''user:enforceMfa'',
      ''variable:create'', ''variable:read'', ''variable:update'', ''variable:delete'', ''variable:list'',
      ''projectVariable:create'', ''projectVariable:read'', ''projectVariable:update'', ''projectVariable:delete'',
      ''projectVariable:list'', ''workflow:create'', ''workflow:read'', ''workflow:export'', ''workflow:import'',
      ''workflow:update'', ''workflow:publish'', ''workflow:unpublish'', ''workflow:delete'', ''workflow:list'',
      ''workflow:share'', ''workflow:unshare'', ''workflow:execute'', ''workflow:execute-chat'', ''workflow:move'',
      ''workflow:enableRedaction'', ''workflow:disableRedaction'', ''workersView:manage'', ''project:list'',
      ''project:create'', ''project:read'', ''project:update'', ''project:delete'', ''insights:list'',
      ''insights:read'', ''folder:move'', ''folder:read'', ''folder:update'', ''folder:delete'', ''folder:create'',
      ''folder:list'', ''oidc:manage'', ''provisioning:manage'', ''dataTable:create'', ''dataTable:delete'',
      ''dataTable:read'', ''dataTable:update'', ''dataTable:list'', ''dataTable:listProject'', ''dataTable:readRow'',
      ''dataTable:writeRow'', ''dataTable:readColumn'', ''dataTable:writeColumn'', ''role:manage'', ''mcp:manage'',
      ''mcp:oauth'', ''mcpApiKey:create'', ''mcpApiKey:rotate'', ''chatHub:manage'', ''chatHub:message'',
      ''chatHubAgent:create'', ''chatHubAgent:read'', ''chatHubAgent:update'', ''chatHubAgent:delete'',
      ''chatHubAgent:list'', ''breakingChanges:list'', ''execution:reveal'', ''apiKey:manage'', ''apiKey:list'',
      ''apiKey:create'', ''apiKey:delete'', ''apiKey:update'', ''encryptionKey:manage'',
      ''credentialResolver:create'', ''credentialResolver:read'', ''credentialResolver:update'',
      ''credentialResolver:delete'', ''credentialResolver:list'', ''instanceAi:message'', ''instanceAi:manage'',
      ''instanceAi:gateway'', ''instanceAi:eval'', ''roleMappingRule:create'', ''roleMappingRule:read'',
      ''roleMappingRule:update'', ''roleMappingRule:delete'', ''roleMappingRule:list'', ''otel:manage'']"

definition GLOBAL_MEMBER_SCOPES :: "Scope list" where
  "GLOBAL_MEMBER_SCOPES =
     [''annotationTag:create'', ''annotationTag:read'', ''annotationTag:update'', ''annotationTag:delete'',
      ''annotationTag:list'', ''eventBusDestination:list'', ''eventBusDestination:test'', ''tag:create'',
      ''tag:read'', ''tag:update'', ''tag:list'', ''user:list'', ''variable:list'', ''variable:read'',
      ''dataTable:list'', ''mcp:oauth'', ''mcpApiKey:create'', ''mcpApiKey:rotate'', ''chatHub:message'',
      ''chatHubAgent:create'', ''chatHubAgent:read'', ''chatHubAgent:update'', ''chatHubAgent:delete'',
      ''chatHubAgent:list'', ''apiKey:list'', ''apiKey:create'', ''apiKey:delete'', ''apiKey:update'',
      ''credentialResolver:list'', ''instanceAi:message'', ''instanceAi:gateway'']"

definition GLOBAL_CHAT_USER_SCOPES :: "Scope list" where
  "GLOBAL_CHAT_USER_SCOPES =
     [''chatHub:message'', ''chatHubAgent:create'', ''chatHubAgent:read'', ''chatHubAgent:update'',
      ''chatHubAgent:delete'', ''chatHubAgent:list'']"

definition REGULAR_PROJECT_ADMIN_SCOPES :: "Scope list" where
  "REGULAR_PROJECT_ADMIN_SCOPES =
     [''agent:create'', ''agent:read'', ''agent:update'', ''agent:delete'', ''agent:list'', ''agent:execute'',
      ''agent:publish'', ''agent:unpublish'', ''workflow:create'', ''workflow:read'', ''workflow:export'',
      ''workflow:import'', ''workflow:update'', ''workflow:publish'', ''workflow:unpublish'', ''workflow:delete'',
      ''workflow:list'', ''workflow:execute'', ''workflow:execute-chat'', ''workflow:move'',
      ''workflow:enableRedaction'', ''workflow:disableRedaction'', ''credential:create'', ''credential:read'',
      ''credential:update'', ''credential:delete'', ''credential:list'', ''credential:move'', ''credential:share'',
      ''credential:unshare'', ''execution:reveal'', ''project:list'', ''project:read'', ''project:update'',
      ''project:delete'', ''folder:create'', ''folder:read'', ''folder:update'', ''folder:delete'', ''folder:list'',
      ''folder:move'', ''sourceControl:push'', ''dataTable:create'', ''dataTable:delete'', ''dataTable:read'',
      ''dataTable:update'', ''dataTable:listProject'', ''dataTable:readRow'', ''dataTable:writeRow'',
      ''dataTable:readColumn'', ''dataTable:writeColumn'', ''projectVariable:list'', ''projectVariable:read'',
      ''projectVariable:create'', ''projectVariable:update'', ''projectVariable:delete'']"

definition PERSONAL_PROJECT_OWNER_SCOPES :: "Scope list" where
  "PERSONAL_PROJECT_OWNER_SCOPES =
     [''agent:create'', ''agent:read'', ''agent:update'', ''agent:delete'', ''agent:list'', ''agent:execute'',
      ''agent:unpublish'', ''workflow:create'', ''workflow:read'', ''workflow:export'', ''workflow:import'',
      ''workflow:update'', ''workflow:delete'', ''workflow:list'', ''workflow:execute'', ''workflow:execute-chat'',
      ''workflow:move'', ''workflow:unpublish'', ''workflow:unshare'', ''workflow:enableRedaction'',
      ''workflow:disableRedaction'', ''credential:create'', ''credential:read'', ''credential:update'',
      ''credential:delete'', ''credential:list'', ''credential:move'', ''credential:unshare'', ''execution:reveal'',
      ''project:list'', ''project:read'', ''folder:create'', ''folder:read'', ''folder:update'', ''folder:delete'',
      ''folder:list'', ''folder:move'', ''dataTable:create'', ''dataTable:delete'', ''dataTable:read'',
      ''dataTable:update'', ''dataTable:listProject'', ''dataTable:readRow'', ''dataTable:writeRow'',
      ''dataTable:readColumn'', ''dataTable:writeColumn'']"

definition PROJECT_EDITOR_SCOPES :: "Scope list" where
  "PROJECT_EDITOR_SCOPES =
     [''agent:create'', ''agent:read'', ''agent:update'', ''agent:delete'', ''agent:list'', ''agent:execute'',
      ''agent:publish'', ''agent:unpublish'', ''workflow:create'', ''workflow:read'', ''workflow:export'',
      ''workflow:import'', ''workflow:update'', ''workflow:publish'', ''workflow:unpublish'', ''workflow:delete'',
      ''workflow:list'', ''workflow:execute'', ''workflow:execute-chat'', ''credential:create'', ''credential:read'',
      ''credential:update'', ''credential:delete'', ''credential:list'', ''project:list'', ''project:read'',
      ''folder:create'', ''folder:read'', ''folder:update'', ''folder:delete'', ''folder:list'',
      ''dataTable:create'', ''dataTable:delete'', ''dataTable:read'', ''dataTable:update'',
      ''dataTable:listProject'', ''dataTable:readRow'', ''dataTable:writeRow'', ''dataTable:readColumn'',
      ''dataTable:writeColumn'', ''projectVariable:list'', ''projectVariable:read'', ''projectVariable:create'',
      ''projectVariable:update'', ''projectVariable:delete'']"

definition PROJECT_VIEWER_SCOPES :: "Scope list" where
  "PROJECT_VIEWER_SCOPES =
     [''agent:read'', ''agent:list'', ''agent:execute'', ''credential:list'', ''credential:read'', ''project:list'',
      ''project:read'', ''workflow:list'', ''workflow:read'', ''workflow:export'', ''workflow:execute-chat'',
      ''folder:read'', ''folder:list'', ''dataTable:listProject'', ''dataTable:read'', ''dataTable:readRow'',
      ''dataTable:readColumn'', ''projectVariable:list'', ''projectVariable:read'']"

definition PROJECT_CHAT_USER_SCOPES :: "Scope list" where
  "PROJECT_CHAT_USER_SCOPES =
     [''agent:execute'', ''workflow:execute-chat'']"

definition CREDENTIALS_SHARING_OWNER_SCOPES :: "Scope list" where
  "CREDENTIALS_SHARING_OWNER_SCOPES =
     [''credential:read'', ''credential:update'', ''credential:delete'', ''credential:share'',
      ''credential:unshare'', ''credential:move'']"

definition CREDENTIALS_SHARING_USER_SCOPES :: "Scope list" where
  "CREDENTIALS_SHARING_USER_SCOPES =
     [''credential:read'']"

definition WORKFLOW_SHARING_OWNER_SCOPES :: "Scope list" where
  "WORKFLOW_SHARING_OWNER_SCOPES =
     [''workflow:read'', ''workflow:export'', ''workflow:update'', ''workflow:publish'', ''workflow:unpublish'',
      ''workflow:delete'', ''workflow:execute'', ''workflow:share'', ''workflow:unshare'', ''workflow:move'',
      ''workflow:execute-chat'', ''workflow:enableRedaction'', ''workflow:disableRedaction'', ''execution:reveal'']"

definition WORKFLOW_SHARING_EDITOR_SCOPES :: "Scope list" where
  "WORKFLOW_SHARING_EDITOR_SCOPES =
     [''workflow:read'', ''workflow:export'', ''workflow:update'', ''workflow:publish'', ''workflow:unpublish'',
      ''workflow:execute'', ''workflow:execute-chat'']"

definition SECRETS_PROVIDER_CONNECTION_SHARING_OWNER_SCOPES :: "Scope list" where
  "SECRETS_PROVIDER_CONNECTION_SHARING_OWNER_SCOPES =
     [''externalSecretsProvider:read'', ''externalSecretsProvider:update'', ''externalSecretsProvider:delete'',
      ''externalSecretsProvider:list'', ''externalSecretsProvider:sync'', ''externalSecret:list'']"

definition SECRETS_PROVIDER_CONNECTION_SHARING_USER_SCOPES :: "Scope list" where
  "SECRETS_PROVIDER_CONNECTION_SHARING_USER_SCOPES =
     [''externalSecretsProvider:read'', ''externalSecretsProvider:list'', ''externalSecret:list'']"

definition OWNER_API_KEY_SCOPES :: "Scope list" where
  "OWNER_API_KEY_SCOPES =
     [''user:read'', ''user:list'', ''user:create'', ''user:changeRole'', ''user:delete'', ''sourceControl:pull'',
      ''securityAudit:generate'', ''project:create'', ''project:update'', ''project:delete'', ''project:list'',
      ''variable:create'', ''variable:delete'', ''variable:list'', ''variable:update'', ''tag:create'', ''tag:read'',
      ''tag:update'', ''tag:delete'', ''tag:list'', ''workflowTags:update'', ''workflowTags:list'',
      ''executionTags:update'', ''executionTags:list'', ''workflow:create'', ''workflow:read'', ''workflow:update'',
      ''workflow:delete'', ''workflow:export'', ''workflow:import'', ''workflow:list'', ''workflow:move'',
      ''workflow:activate'', ''workflow:deactivate'', ''execution:delete'', ''execution:read'', ''execution:retry'',
      ''execution:stop'', ''execution:list'', ''credential:create'', ''credential:update'', ''credential:move'',
      ''credential:delete'', ''credential:list'', ''dataTable:create'', ''dataTable:read'', ''dataTable:update'',
      ''dataTable:delete'', ''dataTable:list'', ''dataTableRow:create'', ''dataTableRow:read'',
      ''dataTableRow:update'', ''dataTableRow:delete'', ''dataTableRow:upsert'', ''folder:create'',
      ''folder:delete'', ''folder:read'', ''folder:update'', ''folder:list'', ''dataTableColumn:create'',
      ''dataTableColumn:read'', ''dataTableColumn:update'', ''dataTableColumn:delete'', ''insights:read'']"

definition MEMBER_API_KEY_SCOPES :: "Scope list" where
  "MEMBER_API_KEY_SCOPES =
     [''tag:create'', ''tag:read'', ''tag:update'', ''tag:list'', ''workflowTags:update'', ''workflowTags:list'',
      ''executionTags:update'', ''executionTags:list'', ''workflow:create'', ''workflow:read'', ''workflow:update'',
      ''workflow:delete'', ''workflow:export'', ''workflow:import'', ''workflow:list'', ''workflow:move'',
      ''workflow:activate'', ''workflow:deactivate'', ''execution:delete'', ''execution:read'', ''execution:retry'',
      ''execution:stop'', ''execution:list'', ''credential:create'', ''credential:update'', ''credential:move'',
      ''credential:delete'', ''dataTable:create'', ''dataTable:read'', ''dataTable:update'', ''dataTable:delete'',
      ''dataTable:list'', ''dataTableRow:create'', ''dataTableRow:read'', ''dataTableRow:update'',
      ''dataTableRow:delete'', ''dataTableRow:upsert'', ''folder:create'', ''folder:delete'', ''folder:read'',
      ''folder:update'', ''folder:list'', ''dataTableColumn:create'', ''dataTableColumn:read'',
      ''dataTableColumn:update'', ''dataTableColumn:delete'']"

definition CHAT_USER_API_KEY_SCOPES :: "Scope list" where
  "CHAT_USER_API_KEY_SCOPES =
     []"

definition API_KEY_SCOPES_FOR_IMPLICIT_PERSONAL_PROJECT :: "Scope list" where
  "API_KEY_SCOPES_FOR_IMPLICIT_PERSONAL_PROJECT =
     [''workflowTags:update'', ''workflowTags:list'', ''executionTags:update'', ''executionTags:list'',
      ''workflow:create'', ''workflow:read'', ''workflow:update'', ''workflow:delete'', ''workflow:export'',
      ''workflow:import'', ''workflow:list'', ''workflow:move'', ''workflow:activate'', ''workflow:deactivate'',
      ''execution:delete'', ''execution:read'', ''execution:retry'', ''execution:stop'', ''execution:list'',
      ''credential:create'', ''credential:update'', ''credential:move'', ''credential:delete'', ''dataTable:create'',
      ''dataTable:read'', ''dataTable:update'', ''dataTable:delete'', ''dataTable:list'', ''dataTableRow:create'',
      ''dataTableRow:read'', ''dataTableRow:update'', ''dataTableRow:delete'', ''dataTableRow:upsert'',
      ''dataTableColumn:create'', ''dataTableColumn:read'', ''dataTableColumn:update'', ''dataTableColumn:delete'']"

definition GLOBAL_ADMIN_SCOPES :: "Scope list" where
  "GLOBAL_ADMIN_SCOPES = GLOBAL_OWNER_SCOPES"

definition GLOBAL_SCOPE_MAP :: "(string, Scope list) dict" where
  "GLOBAL_SCOPE_MAP =
     [(''global:owner'', GLOBAL_OWNER_SCOPES), (''global:admin'', GLOBAL_ADMIN_SCOPES),
      (''global:member'', GLOBAL_MEMBER_SCOPES), (''global:chatUser'', GLOBAL_CHAT_USER_SCOPES)]"

definition PROJECT_SCOPE_MAP :: "(string, Scope list) dict" where
  "PROJECT_SCOPE_MAP =
     [(''project:admin'', REGULAR_PROJECT_ADMIN_SCOPES), (''project:personalOwner'', PERSONAL_PROJECT_OWNER_SCOPES),
      (''project:editor'', PROJECT_EDITOR_SCOPES), (''project:viewer'', PROJECT_VIEWER_SCOPES),
      (''project:chatUser'', PROJECT_CHAT_USER_SCOPES)]"

definition CREDENTIALS_SHARING_SCOPE_MAP :: "(string, Scope list) dict" where
  "CREDENTIALS_SHARING_SCOPE_MAP =
     [(''credential:owner'', CREDENTIALS_SHARING_OWNER_SCOPES), (''credential:user'', CREDENTIALS_SHARING_USER_SCOPES)]"

definition WORKFLOW_SHARING_SCOPE_MAP :: "(string, Scope list) dict" where
  "WORKFLOW_SHARING_SCOPE_MAP =
     [(''workflow:owner'', WORKFLOW_SHARING_OWNER_SCOPES), (''workflow:editor'', WORKFLOW_SHARING_EDITOR_SCOPES)]"

definition SECRETS_PROVIDER_CONNECTION_SHARING_SCOPE_MAP :: "(string, Scope list) dict" where
  "SECRETS_PROVIDER_CONNECTION_SHARING_SCOPE_MAP =
     [(''secretsProviderConnection:owner'', SECRETS_PROVIDER_CONNECTION_SHARING_OWNER_SCOPES),
      (''secretsProviderConnection:user'', SECRETS_PROVIDER_CONNECTION_SHARING_USER_SCOPES)]"

definition ALL_ROLE_MAPS :: "(string, (string, Scope list) dict) dict" where
  "ALL_ROLE_MAPS =
     [(''global'', GLOBAL_SCOPE_MAP), (''project'', PROJECT_SCOPE_MAP), (''credential'', CREDENTIALS_SHARING_SCOPE_MAP),
      (''workflow'', WORKFLOW_SHARING_SCOPE_MAP),
      (''secretsProviderConnection'', SECRETS_PROVIDER_CONNECTION_SHARING_SCOPE_MAP)]"

definition COMBINED_ROLE_MAP :: "(string, Scope list) dict" where
  "COMBINED_ROLE_MAP = fold (\<lambda>(role, scopes). obj_set role scopes) (concat (map snd ALL_ROLE_MAPS)) []"

section \<open>Looking up scopes\<close>

text \<open>The scopes of a role; \<open>undefined\<close> for a role that is not built in, where filtering throws.\<close>

definition getRoleScopes :: "string \<Rightarrow> string list option \<Rightarrow> access_error + Scope list option" where
  "getRoleScopes role filters =
     (case (map_of COMBINED_ROLE_MAP role, filters) of
        (scopes, None) \<Rightarrow> Inr scopes
      | (None, Some _) \<Rightarrow> Inl (JsError ''TypeError'')
      | (Some scopes, Some fs) \<Rightarrow> Inr (Some (filter (\<lambda>s. scopeResource s \<in> set fs) scopes)))"

definition getAuthPrincipalScopes :: "AuthPrincipal \<Rightarrow> string list option \<Rightarrow> access_error + Scope list" where
  "getAuthPrincipalScopes user filters =
     (case p_role user of
        None \<Rightarrow> Inl (JsError ''AuthPrincipal does not have a role defined'')
      | Some role \<Rightarrow> Inr (case filters of
            None \<Rightarrow> r_scopes role
          | Some fs \<Rightarrow> filter (\<lambda>s. scopeResource s \<in> set fs) (r_scopes role)))"

text \<open>\<open>masks\<close> is \<open>masks?.sharing\<close>.\<close>

definition combineScopes :: "ScopeLevels \<Rightarrow> Scope list option \<Rightarrow> Scope list" where
  "combineScopes userScopes masks =
     (let masked = (\<lambda>level. case masks of None \<Rightarrow> level | Some sharing \<Rightarrow> map_option (filter (\<lambda>v. v \<in> set sharing)) level)
      in set_of_list (sl_global userScopes @ or_empty (masked (sl_project userScopes)) @ or_empty (masked (sl_resource userScopes))))"

definition hasScope :: "Scope list \<Rightarrow> ScopeLevels \<Rightarrow> Scope list option \<Rightarrow> ScopeMode \<Rightarrow> bool" where
  "hasScope scope userScopes masks mode =
     (let userScopeSet = combineScopes userScopes masks
      in case mode of
           AllOf \<Rightarrow> scope \<noteq> [] \<and> list_all (\<lambda>s. s \<in> set userScopeSet) scope
         | OneOf \<Rightarrow> list_ex (\<lambda>s. s \<in> set userScopeSet) scope)"

definition hasGlobalScope :: "AuthPrincipal \<Rightarrow> Scope list \<Rightarrow> ScopeMode \<Rightarrow> access_error + bool" where
  "hasGlobalScope user scope mode =
     res_bind (getAuthPrincipalScopes user None)
       (\<lambda>global. Inr (hasScope scope \<lparr>sl_global = global, sl_project = None, sl_resource = None\<rparr> None mode))"

definition staticRolesWithScope :: "string \<Rightarrow> Scope list \<Rightarrow> access_error + string list" where
  "staticRolesWithScope namespace scopes =
     (case map_of ALL_ROLE_MAPS namespace of
        None \<Rightarrow> Inl (JsError ''TypeError'')
      | Some roles \<Rightarrow> Inr (map fst (filter (\<lambda>(_, roleScopes). list_all (\<lambda>s. s \<in> set roleScopes) scopes) roles)))"

definition getResourcePermissions :: "Scope list \<Rightarrow> (string, (string, bool) dict) dict" where
  "getResourcePermissions resourceScopes =
     fold (\<lambda>key permissions. obj_set key
       (fold (\<lambda>scope resourcePermissions.
           if scopeResource scope = key then obj_set (scopeOperation scope) True resourcePermissions else resourcePermissions)
         resourceScopes []) permissions) (map fst RESOURCES) []"

section \<open>API keys\<close>

definition isApiKeyScope :: "Scope \<Rightarrow> bool" where
  "isApiKeyScope scope \<longleftrightarrow> scope \<in> set buildApiKeyScopes"

definition MAP_ROLE_SCOPES :: "(string, Scope list) dict" where
  "MAP_ROLE_SCOPES =
     [(''global:owner'', OWNER_API_KEY_SCOPES), (''global:admin'', OWNER_API_KEY_SCOPES),
      (''global:member'', MEMBER_API_KEY_SCOPES), (''global:chatUser'', CHAT_USER_API_KEY_SCOPES)]"

definition getApiKeyScopesForRole :: "DbRole \<Rightarrow> Scope list" where
  "getApiKeyScopesForRole role =
     (if r_slug role = ''global:chatUser'' then []
      else set_of_list (filter isApiKeyScope (r_scopes role @ API_KEY_SCOPES_FOR_IMPLICIT_PERSONAL_PROJECT)))"

definition getOwnerOnlyApiKeyScopes :: "Scope list" where
  "getOwnerOnlyApiKeyScopes =
     fold (\<lambda>item ownerScopes. removeAll item ownerScopes)
       (set_of_list (or_empty (map_of MAP_ROLE_SCOPES ''global:member'')))
       (set_of_list (or_empty (map_of MAP_ROLE_SCOPES ''global:owner'')))"

section \<open>What the lookups answer\<close>

lemma set_combineScopes:
  "set (combineScopes levels masks) = set (sl_global levels) \<union>
     {s \<in> set (or_empty (sl_project levels)) \<union> set (or_empty (sl_resource levels)). case masks of None \<Rightarrow> True | Some m \<Rightarrow> s \<in> set m}"
  by (cases masks; cases "sl_project levels"; cases "sl_resource levels") (auto simp: combineScopes_def)

text \<open>A mask restricts the scopes of projects and resources and never the global ones.\<close>

lemma hasScope_masked:
  "hasScope [s] levels (Some sharing) mode \<longleftrightarrow>
     s \<in> set (sl_global levels) \<or> s \<in> set sharing \<and> hasScope [s] levels None mode"
  by (cases mode) (auto simp: hasScope_def set_combineScopes)

lemma map_of_fold_keys: "map_of (fold (\<lambda>k. obj_set k (F k)) ks d) r = (if r \<in> set ks then Some (F r) else map_of d r)"
  by (induction ks arbitrary: d) (auto simp: map_of_obj_set)

lemma map_of_fold_flags:
  "map_of (fold (\<lambda>s d. if P s then obj_set (f s) True d else d) ss d) k =
     (if \<exists>s \<in> set ss. P s \<and> f s = k then Some True else map_of d k)"
  by (induction ss arbitrary: d) (auto simp: map_of_obj_set)

lemma getResourcePermissions_iff:
  "(\<exists>flags. map_of (getResourcePermissions scopes) resource = Some flags \<and> map_of flags op = Some True) \<longleftrightarrow>
     resource \<in> fst ` set RESOURCES \<and> (\<exists>s \<in> set scopes. scopeResource s = resource \<and> scopeOperation s = op)"
  by (simp add: getResourcePermissions_def map_of_fold_keys map_of_fold_flags)

end
