(* ===== verification/Access_Control.thy ===== *)
theory Access_Control
  imports Permissions
begin

text \<open>
  Who may do what on the server: \<open>cli/src/permissions.ee/check-access.ts\<close> decides whether a request is let through,
  \<open>combineResourceScopes\<close> of \<open>cli/src/services/role.service.ts\<close> computes the scopes that a client is shown for a workflow
  or credential, and \<open>cli/src/services/role-cache.service.ts\<close> looks roles up. The tables of the database are lists of rows; the
  role map that the cache service returns is an argument, \<open>None\<close> when it has no value.
\<close>

section \<open>Rows\<close>

record User =
  u_id :: string
  u_principal :: AuthPrincipal

record ProjectRelation =
  pr_userId :: string
  pr_projectId :: string
  pr_role :: DbRole

record SharedEntity =
  sh_entityId :: string
  sh_projectId :: string
  sh_role :: string

record RoleRow =
  rr_roleType :: string
  rr_role :: DbRole

record Database =
  db_relations :: "ProjectRelation list"
  db_sharedCredentials :: "SharedEntity list"
  db_sharedWorkflows :: "SharedEntity list"
  db_globalCredentials :: "string list"
  db_dataTables :: "(string, string) dict"
  db_dataTableModule :: bool

type_synonym RoleScopeMap = "(string, (string, Scope list) dict) dict"

section \<open>Roles with scopes\<close>

definition buildRoleScopeMap :: "RoleRow list \<Rightarrow> RoleScopeMap" where
  "buildRoleScopeMap roles =
     fold (\<lambda>role m. obj_set (rr_roleType role)
       (obj_set (r_slug (rr_role role)) (r_scopes (rr_role role)) (or_empty (map_of m (rr_roleType role)))) m) roles []"

definition getRolesWithAllScopes :: "RoleScopeMap option \<Rightarrow> string \<Rightarrow> Scope list \<Rightarrow> access_error + string list" where
  "getRolesWithAllScopes cached namespace requiredScopes =
     (if requiredScopes = [] then Inr []
      else case cached of
          None \<Rightarrow> staticRolesWithScope namespace requiredScopes
        | Some roleScopeMap \<Rightarrow>
            Inr (map fst (filter (\<lambda>(_, scopes). list_all (\<lambda>s. s \<in> set scopes) requiredScopes)
              (or_empty (map_of roleScopeMap namespace)))))"

definition rolesWithScope :: "RoleScopeMap option \<Rightarrow> string \<Rightarrow> Scope list \<Rightarrow> access_error + string list" where
  "rolesWithScope cached namespace scopes = getRolesWithAllScopes cached namespace scopes"

section \<open>Whether a user has scopes\<close>

text \<open>The query for the projects in which the user has a role with the scopes: the joined rows, grouped by project, with as many
  different scopes as are asked for.\<close>

definition projectScopeRows :: "Database \<Rightarrow> string \<Rightarrow> Scope list \<Rightarrow> (string \<times> Scope) list" where
  "projectScopeRows db userId scopes =
     concat (map (\<lambda>relation. map (\<lambda>s. (pr_projectId relation, s)) (filter (\<lambda>s. s \<in> set scopes) (r_scopes (pr_role relation))))
       (filter (\<lambda>relation. pr_userId relation = userId) (db_relations db)))"

definition userProjectIds :: "Database \<Rightarrow> string \<Rightarrow> Scope list \<Rightarrow> string list" where
  "userProjectIds db userId scopes =
     (let rows = projectScopeRows db userId scopes
      in filter (\<lambda>p. length (remdups (map snd (filter (\<lambda>row. fst row = p) rows))) = length scopes) (remdups (map fst rows)))"

definition hasGlobalReadOnlyAccess :: "Scope list \<Rightarrow> bool" where
  "hasGlobalReadOnlyAccess scopes \<longleftrightarrow> length scopes = 1 \<and> scopes ! 0 = ''credential:read''"

record AccessParams =
  ap_credentialId :: "string option"
  ap_workflowId :: "string option"
  ap_projectId :: "string option"
  ap_dataTableId :: "string option"

text \<open>\<open>if (credentialId)\<close>: an identifier that is there and not empty.\<close>

definition given :: "string option \<Rightarrow> string option" where
  "given x = (if x = Some [] then None else x)"

definition sharedAccess :: "SharedEntity list \<Rightarrow> string list \<Rightarrow> string list \<Rightarrow> bool" where
  "sharedAccess rows projectIds validRoles \<longleftrightarrow>
     list_ex (\<lambda>row. sh_projectId row \<in> set projectIds \<and> sh_role row \<in> set validRoles) rows"

definition resourceAccess ::
  "Database \<Rightarrow> RoleScopeMap option \<Rightarrow> string list \<Rightarrow> Scope list \<Rightarrow> AccessParams \<Rightarrow> access_error + bool" where
  "resourceAccess db cached projectIds scopes params =
     (case given (ap_credentialId params) of
        Some credentialId \<Rightarrow>
          (let credentials = filter (\<lambda>row. sh_entityId row = credentialId) (db_sharedCredentials db)
           in if credentials = [] then Inl NotFoundError
              else res_bind (rolesWithScope cached ''credential'' scopes) (\<lambda>validRoles.
                Inr (sharedAccess credentials projectIds validRoles \<or>
                     hasGlobalReadOnlyAccess scopes \<and> credentialId \<in> set (db_globalCredentials db))))
      | None \<Rightarrow>
     (case given (ap_workflowId params) of
        Some workflowId \<Rightarrow>
          (let workflows = filter (\<lambda>row. sh_entityId row = workflowId) (db_sharedWorkflows db)
           in if workflows = [] then Inl NotFoundError
              else res_bind (rolesWithScope cached ''workflow'' scopes) (\<lambda>validRoles.
                Inr (sharedAccess workflows projectIds validRoles)))
      | None \<Rightarrow>
     (case given (ap_dataTableId params) of
        Some dataTableId \<Rightarrow>
          (if \<not> db_dataTableModule db then Inl NotFoundError
           else case map_of (db_dataTables db) dataTableId of
               None \<Rightarrow> Inl NotFoundError
             | Some projectId \<Rightarrow> Inr (projectId \<in> set projectIds))
      | None \<Rightarrow>
     (case given (ap_projectId params) of
        Some projectId \<Rightarrow> Inr (projectId \<in> set projectIds)
      | None \<Rightarrow> Inl UnexpectedAccess))))"

definition userHasScopes ::
  "Database \<Rightarrow> RoleScopeMap option \<Rightarrow> User \<Rightarrow> Scope list \<Rightarrow> bool \<Rightarrow> AccessParams \<Rightarrow> access_error + bool" where
  "userHasScopes db cached user scopes globalOnly params =
     res_bind (hasGlobalScope (u_principal user) scopes AllOf) (\<lambda>global.
       if global then Inr True
       else if globalOnly then Inr False
       else resourceAccess db cached (userProjectIds db (u_id user) scopes) scopes params)"

section \<open>The scopes that are shown\<close>

definition projectScopesOf :: "ProjectRelation list \<Rightarrow> string \<Rightarrow> Scope list" where
  "projectScopesOf userProjectRelations projectId =
     (case find (\<lambda>p. pr_projectId p = projectId) userProjectRelations of None \<Rightarrow> [] | Some pr \<Rightarrow> r_scopes (pr_role pr))"

definition mergeShared ::
  "Scope list \<Rightarrow> ProjectRelation list \<Rightarrow> SharedEntity \<Rightarrow> Scope list \<Rightarrow> access_error + Scope list" where
  "mergeShared globalScopes userProjectRelations sharedEntity scopesSet =
     (let projectScopes = projectScopesOf userProjectRelations (sh_projectId sharedEntity)
      in res_bind (getRoleScopes (sh_role sharedEntity) None) (\<lambda>resourceMask.
        Inr (fold set_add
          (combineScopes \<lparr>sl_global = globalScopes, sl_project = Some projectScopes, sl_resource = None\<rparr> resourceMask)
          scopesSet)))"

definition combineResourceScopes ::
  "string \<Rightarrow> User \<Rightarrow> SharedEntity list \<Rightarrow> ProjectRelation list \<Rightarrow> access_error + Scope list" where
  "combineResourceScopes type user shared userProjectRelations =
     res_bind (getAuthPrincipalScopes (u_principal user) (Some [type])) (\<lambda>globalScopes.
       res_bind (res_fold (mergeShared globalScopes userProjectRelations) shared (set_of_list globalScopes)) (\<lambda>scopesSet.
         Inr (js_sort str_cmp scopesSet)))"

text \<open>A workflow or credential with its sharing rows, if they were loaded; \<open>en_isWorkflow\<close> and \<open>en_isCredential\<close> say
  whether it has the properties that tell the two kinds apart.\<close>

record ScopedEntity =
  en_isWorkflow :: bool
  en_isCredential :: bool
  en_isGlobal :: bool
  en_shared :: "SharedEntity list option"

definition addScopes :: "ScopedEntity \<Rightarrow> User \<Rightarrow> ProjectRelation list \<Rightarrow> access_error + Scope list" where
  "addScopes entity user userProjectRelations =
     (case en_shared entity of
        None \<Rightarrow> Inr []
      | Some shared \<Rightarrow>
          if \<not> en_isWorkflow entity \<and> \<not> en_isCredential entity then Inl UnexpectedAccess
          else (let entityType = (if en_isWorkflow entity then ''workflow'' else ''credential'')
                in res_bind (combineResourceScopes entityType user shared userProjectRelations) (\<lambda>scopes.
                  Inr (if entityType = ''credential'' \<and> en_isGlobal entity \<and> ''credential:read'' \<notin> set scopes
                       then scopes @ [''credential:read''] else scopes))))"

section \<open>What the functions compute\<close>

lemma in_projectScopeRows:
  "(p, t) \<in> set (projectScopeRows db u scopes) \<longleftrightarrow> t \<in> set scopes \<and>
     (\<exists>r \<in> set (db_relations db). pr_userId r = u \<and> pr_projectId r = p \<and> t \<in> set (r_scopes (pr_role r)))"
  by (auto simp: projectScopeRows_def)

lemma length_remdups_const: "set xs \<subseteq> {s} \<Longrightarrow> length (remdups xs) = 1 \<longleftrightarrow> xs \<noteq> []"
  by (simp add: length_remdups_card_conv subset_singleton_iff) auto

lemma userProjectIds_single:
  "p \<in> set (userProjectIds db u [s]) \<longleftrightarrow>
     (\<exists>r \<in> set (db_relations db). pr_userId r = u \<and> pr_projectId r = p \<and> s \<in> set (r_scopes (pr_role r)))"
proof -
  let ?rows = "projectScopeRows db u [s]"
  have t: "t = s" if "(p, t) \<in> set ?rows" for p t using that by (simp add: in_projectScopeRows)
  then have "set (map snd (filter (\<lambda>row. fst row = p) ?rows)) \<subseteq> {s}" by auto
  then have "p \<in> set (userProjectIds db u [s]) \<longleftrightarrow> p \<in> fst ` set ?rows \<and> filter (\<lambda>row. fst row = p) ?rows \<noteq> []"
    using length_remdups_const [of _ s] by (simp add: userProjectIds_def Let_def)
  also have "\<dots> \<longleftrightarrow> (\<exists>t. (p, t) \<in> set ?rows)" by (force simp: filter_empty_conv)
  also have "\<dots> \<longleftrightarrow> (p, s) \<in> set ?rows" using t by blast
  finally show ?thesis by (simp add: in_projectScopeRows)
qed

lemma map_of_fold_obj_set:
  "map_of (fold (\<lambda>(k, v). obj_set k v) xs d) k = (case map_of (rev xs) k of None \<Rightarrow> map_of d k | Some v \<Rightarrow> Some v)"
  by (induction xs arbitrary: d) (auto simp: map_of_obj_set map_add_def split: option.splits)

definition roles_in_sync :: "RoleScopeMap option \<Rightarrow> string \<Rightarrow> bool" where
  "roles_in_sync cached namespace \<longleftrightarrow> (case cached of None \<Rightarrow> True | Some m \<Rightarrow>
     set (or_empty (map_of m namespace)) = set (or_empty (map_of ALL_ROLE_MAPS namespace)))"

lemma sharing_roles:
  assumes "ns = ''workflow'' \<or> ns = ''credential''"
  obtains roles where "map_of ALL_ROLE_MAPS ns = Some roles" and "distinct (map fst roles)"
    and "\<And>r sc. map_of roles r = Some sc \<Longrightarrow> map_of COMBINED_ROLE_MAP r = Some sc"
proof -
  have c: "map_of COMBINED_ROLE_MAP r = map_of (rev (concat (map snd ALL_ROLE_MAPS))) r" for r
    by (simp add: COMBINED_ROLE_MAP_def map_of_fold_obj_set split: option.splits)
  show ?thesis
  proof (rule that [of "the (map_of ALL_ROLE_MAPS ns)"])
    show "map_of ALL_ROLE_MAPS ns = Some (the (map_of ALL_ROLE_MAPS ns))"
      using assms by (auto simp: ALL_ROLE_MAPS_def)
    show "distinct (map fst (the (map_of ALL_ROLE_MAPS ns)))"
      using assms by (auto simp: ALL_ROLE_MAPS_def WORKFLOW_SHARING_SCOPE_MAP_def CREDENTIALS_SHARING_SCOPE_MAP_def)
    fix r sc
    assume "map_of (the (map_of ALL_ROLE_MAPS ns)) r = Some sc"
    with assms show "map_of COMBINED_ROLE_MAP r = Some sc"
      by (auto simp: c ALL_ROLE_MAPS_def WORKFLOW_SHARING_SCOPE_MAP_def CREDENTIALS_SHARING_SCOPE_MAP_def
        GLOBAL_SCOPE_MAP_def PROJECT_SCOPE_MAP_def SECRETS_PROVIDER_CONNECTION_SHARING_SCOPE_MAP_def split: if_splits)
  qed
qed

lemma sharing_valid:
  assumes "ns = ''workflow'' \<or> ns = ''credential''" and "roles_in_sync cached ns"
  shows "\<exists>validRoles. rolesWithScope cached ns [s] = Inr validRoles \<and>
    (\<forall>r. r \<in> fst ` set (or_empty (map_of ALL_ROLE_MAPS ns)) \<longrightarrow>
      (\<exists>msk. map_of COMBINED_ROLE_MAP r = Some msk \<and> (r \<in> set validRoles \<longleftrightarrow> s \<in> set msk)))"
proof -
  obtain roles where roles: "map_of ALL_ROLE_MAPS ns = Some roles" "distinct (map fst roles)"
    and comb: "\<And>r sc. map_of roles r = Some sc \<Longrightarrow> map_of COMBINED_ROLE_MAP r = Some sc"
    using sharing_roles [OF assms(1)] by blast
  obtain rs where valid: "rolesWithScope cached ns [s] = Inr (map fst (filter (\<lambda>(_, scopes). s \<in> set scopes) rs))"
    and rs: "set rs = set roles"
    using assms(2) roles(1)
    by (cases cached) (auto simp: rolesWithScope_def getRolesWithAllScopes_def staticRolesWithScope_def roles_in_sync_def)
  have "\<exists>msk. map_of COMBINED_ROLE_MAP r = Some msk \<and>
      (r \<in> set (map fst (filter (\<lambda>(_, scopes). s \<in> set scopes) rs)) \<longleftrightarrow> s \<in> set msk)" if "r \<in> fst ` set roles" for r
  proof -
    from that obtain msk where m: "(r, msk) \<in> set roles" by auto
    then have "map_of roles r = Some msk" using roles(2) by simp
    moreover from m roles(2) have "(r, sc) \<in> set roles \<longleftrightarrow> sc = msk" for sc by (metis map_of_eq_Some_iff option.inject)
    then have "r \<in> set (map fst (filter (\<lambda>(_, scopes). s \<in> set scopes) rs)) \<longleftrightarrow> s \<in> set msk"
      using rs by (force simp: image_iff)
    ultimately show ?thesis using comb by blast
  qed
  with valid roles(1) show ?thesis by simp
qed

lemma projectScopesOf_iff:
  assumes "distinct (map pr_projectId rels)"
  shows "s \<in> set (projectScopesOf rels pid) \<longleftrightarrow> (\<exists>r \<in> set rels. pr_projectId r = pid \<and> s \<in> set (r_scopes (pr_role r)))"
proof (cases "find (\<lambda>p. pr_projectId p = pid) rels")
  case None
  then have "projectScopesOf rels pid = []" by (simp only: projectScopesOf_def option.case)
  with None [unfolded find_None_iff] show ?thesis by auto
next
  case (Some r)
  then have r: "r \<in> set rels" "pr_projectId r = pid" by (auto simp: find_Some_iff)
  have "r' = r" if "r' \<in> set rels" "pr_projectId r' = pid" for r'
    using that r assms by (metis distinct_map inj_onD)
  moreover have "projectScopesOf rels pid = r_scopes (pr_role r)" using Some by (simp only: projectScopesOf_def option.case)
  ultimately show ?thesis using r by metis
qed

lemma in_combineResourceScopes:
  assumes "p_role (u_principal user) = Some role" and "distinct (map pr_projectId rels)"
  shows "\<exists>l. combineResourceScopes type user shared rels = Inr l \<and>
    (\<forall>s. s \<in> set l \<longleftrightarrow> s \<in> set (r_scopes role) \<and> scopeResource s = type \<or>
      (\<exists>row \<in> set shared. (\<exists>r \<in> set rels. pr_projectId r = sh_projectId row \<and> s \<in> set (r_scopes (pr_role r))) \<and>
        (case map_of COMBINED_ROLE_MAP (sh_role row) of None \<Rightarrow> True | Some msk \<Rightarrow> s \<in> set msk)))"
proof -
  let ?g = "filter (\<lambda>s. scopeResource s \<in> set [type]) (r_scopes role)"
  let ?V = "\<lambda>row. set ?g \<union> {s. (\<exists>r \<in> set rels. pr_projectId r = sh_projectId row \<and> s \<in> set (r_scopes (pr_role r))) \<and>
        (case map_of COMBINED_ROLE_MAP (sh_role row) of None \<Rightarrow> True | Some msk \<Rightarrow> s \<in> set msk)}"
  have step: "\<exists>t. mergeShared ?g rels row acc = Inr t \<and> True \<and> set t = set acc \<union> ?V row" for row acc
    by (auto simp: mergeShared_def Let_def getRoleScopes_def set_combineScopes projectScopesOf_iff [OF assms(2)] split: option.splits)
  from res_fold_union [where P = "\<lambda>_. True" and val = set and V = ?V and f = "mergeShared ?g rels" and xs = shared
      and s = "set_of_list ?g", OF TrueI step]
  obtain l where l: "res_fold (mergeShared ?g rels) shared (set_of_list ?g) = Inr l" "set l = set ?g \<union> (\<Union>row \<in> set shared. ?V row)"
    by auto
  have "combineResourceScopes type user shared rels = Inr (js_sort str_cmp l)"
    using l(1) by (simp add: combineResourceScopes_def getAuthPrincipalScopes_def assms(1))
  moreover have "s \<in> set (js_sort str_cmp l) \<longleftrightarrow> s \<in> set (r_scopes role) \<and> scopeResource s = type \<or>
      (\<exists>row \<in> set shared. (\<exists>r \<in> set rels. pr_projectId r = sh_projectId row \<and> s \<in> set (r_scopes (pr_role r))) \<and>
        (case map_of COMBINED_ROLE_MAP (sh_role row) of None \<Rightarrow> True | Some msk \<Rightarrow> s \<in> set msk))" for s
    using l(2) by auto
  ultimately show ?thesis by blast
qed

lemma hasGlobalScope_single:
  "p_role user = Some role \<Longrightarrow> hasGlobalScope user [s] AllOf = Inr (s \<in> set (r_scopes role))"
  by (simp add: hasGlobalScope_def getAuthPrincipalScopes_def hasScope_def set_combineScopes)


definition ex_db :: Database where
  "ex_db =
     \<lparr>db_relations = [\<lparr>pr_userId = ''u'', pr_projectId = ''p'', pr_role = \<lparr>r_slug = ''project:editor'', r_scopes = PROJECT_EDITOR_SCOPES\<rparr>\<rparr>],
      db_sharedCredentials = [], db_sharedWorkflows = [\<lparr>sh_entityId = ''w'', sh_projectId = ''p'', sh_role = ''workflow:editor''\<rparr>],
      db_globalCredentials = [], db_dataTables = [], db_dataTableModule = True\<rparr>"

definition ex_user :: User where
  "ex_user = \<lparr>u_id = ''u'', u_principal = \<lparr>p_role = Some \<lparr>r_slug = ''global:member'', r_scopes = GLOBAL_MEMBER_SCOPES\<rparr>\<rparr>\<rparr>"


end
