(* ===== verification/Api_Keys.thy ===== *)
theory Api_Keys
  imports Access_Control
begin

text \<open>
  Keys of the public API: \<open>cli/src/controllers/api-keys.controller.ts\<close> with \<open>cli/src/services/public-api-key.service.ts\<close>,
  the check of a key at an endpoint (\<open>publicApiScope\<close> of \<open>cli/src/public-api/v1/shared/middlewares/global.middleware.ts\<close>) and
  \<open>changeUserRole\<close> of \<open>cli/src/services/user.service.ts\<close>, which takes scopes back when a user loses a role. An operation returns
  the new state, or an error and then the state is unchanged, since the transaction is rolled back. The secret of a key, its
  dates, mails and events are left out; the identifier of a new key is an argument. A user has a label once only, which the table
  of keys enforces.
\<close>

section \<open>State\<close>

record ApiKey =
  k_id :: string
  k_userId :: string
  k_audience :: string
  k_label :: string
  k_scopes :: "Scope list"

record MemberRow =
  mr_userId :: string
  mr_projectId :: string
  mr_role :: string

record KeyState =
  ks_apiEnabled :: bool
  ks_roles :: "(string, DbRole) dict"
  ks_users :: "(string, string) dict"
  ks_relations :: "MemberRow list"
  ks_personal :: "(string, string) dict"
  ks_keys :: "ApiKey list"

abbreviation API_KEY_AUDIENCE :: string where "API_KEY_AUDIENCE \<equiv> ''public-api''"
abbreviation PROJECT_OWNER_ROLE_SLUG :: string where "PROJECT_OWNER_ROLE_SLUG \<equiv> ''project:personalOwner''"
abbreviation PROJECT_ADMIN_ROLE_SLUG :: string where "PROJECT_ADMIN_ROLE_SLUG \<equiv> ''project:admin''"
abbreviation PROJECT_VIEWER_ROLE_SLUG :: string where "PROJECT_VIEWER_ROLE_SLUG \<equiv> ''project:viewer''"

text \<open>The global role of a user, loaded with its scopes.\<close>

definition roleOf :: "KeyState \<Rightarrow> string \<Rightarrow> DbRole option" where
  "roleOf st userId = (case map_of (ks_users st) userId of None \<Rightarrow> None | Some slug \<Rightarrow> map_of (ks_roles st) slug)"

section \<open>Operations on keys\<close>

text \<open>The access scope of a route, checked before its other middleware, which refuses when the public API is off.\<close>

definition requireGlobalScope :: "KeyState \<Rightarrow> string \<Rightarrow> Scope \<Rightarrow> access_error + DbRole" where
  "requireGlobalScope st userId scope =
     res_bind (hasGlobalScope \<lparr>p_role = roleOf st userId\<rparr> [scope] AllOf) (\<lambda>ok.
       if \<not> ok then Inl ForbiddenError
       else if \<not> ks_apiEnabled st then Inl NotFoundError
       else Inr (the (roleOf st userId)))"

definition apiKeyHasValidScopesForRole :: "DbRole \<Rightarrow> Scope list \<Rightarrow> bool" where
  "apiKeyHasValidScopesForRole role apiKeyScopes \<longleftrightarrow>
     list_all (\<lambda>scope. scope \<in> set (getApiKeyScopesForRole role)) apiKeyScopes"

definition createApiKey :: "KeyState \<Rightarrow> string \<Rightarrow> string \<Rightarrow> string \<Rightarrow> Scope list \<Rightarrow> access_error + KeyState" where
  "createApiKey st userId newId label scopes =
     res_bind (requireGlobalScope st userId ''apiKey:create'') (\<lambda>role.
       if \<not> apiKeyHasValidScopesForRole role scopes then Inl (BadRequestError ''Invalid scopes for user role'')
       else if list_ex (\<lambda>k. k_userId k = userId \<and> k_label k = label) (ks_keys st) then Inl (JsError ''QueryFailedError'')
       else Inr (st\<lparr>ks_keys := ks_keys st @
         [\<lparr>k_id = newId, k_userId = userId, k_audience = API_KEY_AUDIENCE, k_label = label, k_scopes = scopes\<rparr>]\<rparr>))"

definition updateApiKey :: "KeyState \<Rightarrow> string \<Rightarrow> string \<Rightarrow> string \<Rightarrow> Scope list \<Rightarrow> access_error + KeyState" where
  "updateApiKey st userId apiKeyId label scopes =
     res_bind (requireGlobalScope st userId ''apiKey:update'') (\<lambda>role.
       if \<not> apiKeyHasValidScopesForRole role scopes then Inl (BadRequestError ''Invalid scopes for user role'')
       else if list_ex (\<lambda>k. k_id k = apiKeyId \<and> k_userId k = userId) (ks_keys st) \<and>
           list_ex (\<lambda>k. k_id k \<noteq> apiKeyId \<and> k_userId k = userId \<and> k_label k = label) (ks_keys st)
         then Inl (JsError ''QueryFailedError'')
       else Inr (st\<lparr>ks_keys := map (\<lambda>k. if k_id k = apiKeyId \<and> k_userId k = userId
         then k\<lparr>k_label := label, k_scopes := scopes\<rparr> else k) (ks_keys st)\<rparr>))"

definition deleteApiKey :: "KeyState \<Rightarrow> string \<Rightarrow> string \<Rightarrow> access_error + KeyState" where
  "deleteApiKey st userId apiKeyId =
     res_bind (requireGlobalScope st userId ''apiKey:delete'') (\<lambda>role.
     res_bind (hasGlobalScope \<lparr>p_role = Some role\<rparr> [''apiKey:manage''] OneOf) (\<lambda>canDeleteAny.
       if list_ex (\<lambda>k. k_id k = apiKeyId \<and> k_audience k = API_KEY_AUDIENCE \<and> (canDeleteAny \<or> k_userId k = userId)) (ks_keys st)
       then Inr (st\<lparr>ks_keys := filter (\<lambda>k. k_id k \<noteq> apiKeyId) (ks_keys st)\<rparr>)
       else Inl NotFoundError))"

definition deleteAllApiKeysForUser :: "string \<Rightarrow> KeyState \<Rightarrow> KeyState" where
  "deleteAllApiKeysForUser userId st =
     st\<lparr>ks_keys := filter (\<lambda>k. \<not> (k_userId k = userId \<and> k_audience k = API_KEY_AUDIENCE)) (ks_keys st)\<rparr>"

definition removeOwnerOnlyScopesFromApiKeys :: "string \<Rightarrow> KeyState \<Rightarrow> KeyState" where
  "removeOwnerOnlyScopesFromApiKeys userId st =
     (let ownerOnlyScopes = getOwnerOnlyApiKeyScopes
      in st\<lparr>ks_keys := map (\<lambda>k.
           if k_userId k = userId \<and> k_audience k = API_KEY_AUDIENCE \<and> list_ex (\<lambda>scope. scope \<in> set ownerOnlyScopes) (k_scopes k)
           then k\<lparr>k_scopes := filter (\<lambda>scope. scope \<notin> set ownerOnlyScopes) (k_scopes k)\<rparr> else k) (ks_keys st)\<rparr>)"

text \<open>An endpoint with \<open>publicApiScope(endpointScope)\<close> lets a request with the key through.\<close>

definition publicApiScope :: "Scope \<Rightarrow> ApiKey \<Rightarrow> bool" where
  "publicApiScope endpointScope key \<longleftrightarrow> endpointScope \<in> set (k_scopes key)"

section \<open>Changing the role of a user\<close>

definition revokeRelation :: "string \<Rightarrow> MemberRow \<Rightarrow> MemberRow list \<Rightarrow> access_error + MemberRow list" where
  "revokeRelation userId relation rows =
     (let adminCount = length (filter (\<lambda>r. mr_projectId r = mr_projectId relation \<and>
            (mr_role r = PROJECT_ADMIN_ROLE_SLUG \<or> mr_role r = PROJECT_OWNER_ROLE_SLUG) \<and> mr_userId r \<noteq> userId) rows)
      in if mr_role relation = PROJECT_ADMIN_ROLE_SLUG \<and> adminCount = 0
         then Inl (JsError ''Cannot downgrade user as they are the only project admin'')
         else Inr (filter (\<lambda>r. \<not> (mr_userId r = userId \<and> mr_projectId r = mr_projectId relation)) rows))"

definition revokeProjects :: "string \<Rightarrow> MemberRow list \<Rightarrow> access_error + MemberRow list" where
  "revokeProjects userId rows =
     res_fold (revokeRelation userId) (filter (\<lambda>r. mr_userId r = userId \<and> mr_role r \<noteq> PROJECT_OWNER_ROLE_SLUG) rows) rows"

text \<open>The update of the role in the personal project, which has to exist.\<close>

definition switchPersonalRole :: "string \<Rightarrow> string \<Rightarrow> string \<Rightarrow> KeyState \<Rightarrow> access_error + KeyState" where
  "switchPersonalRole userId old new st =
     (case map_of (ks_personal st) userId of
        None \<Rightarrow> Inl NotFoundError
      | Some projectId \<Rightarrow> Inr (st\<lparr>ks_relations := map (\<lambda>r.
            if mr_userId r = userId \<and> mr_role r = old \<and> mr_projectId r = projectId then r\<lparr>mr_role := new\<rparr> else r) (ks_relations st)\<rparr>))"

definition isAdminRole :: "string \<Rightarrow> bool" where
  "isAdminRole roleName \<longleftrightarrow> roleName = ''global:admin'' \<or> roleName = ''global:owner''"

definition changeUserRole :: "KeyState \<Rightarrow> string \<Rightarrow> string \<Rightarrow> access_error + KeyState" where
  "changeUserRole st userId newRoleName =
     (case map_of (ks_users st) userId of
        None \<Rightarrow> Inl NotFoundError
      | Some slug \<Rightarrow>
          if map_of (ks_roles st) newRoleName = None then Inl (BadRequestError ''Role does not exist'')
          else (let st1 = st\<lparr>ks_users := AList.update userId newRoleName (ks_users st)\<rparr>;
                    isDowngradedToChatUser = (slug \<noteq> ''global:chatUser'' \<and> newRoleName = ''global:chatUser'');
                    isUpgradedChatUser = (slug = ''global:chatUser'' \<and> newRoleName \<noteq> ''global:chatUser'');
                    isDowngradedAdmin = (isAdminRole slug \<and> \<not> isAdminRole newRoleName)
                in if isDowngradedToChatUser then
                     res_bind (revokeProjects userId (ks_relations st1)) (\<lambda>rows.
                     res_bind (switchPersonalRole userId PROJECT_OWNER_ROLE_SLUG PROJECT_VIEWER_ROLE_SLUG (st1\<lparr>ks_relations := rows\<rparr>))
                       (\<lambda>st2. Inr (deleteAllApiKeysForUser userId st2)))
                   else if isDowngradedAdmin then Inr (removeOwnerOnlyScopesFromApiKeys userId st1)
                   else if isUpgradedChatUser then switchPersonalRole userId PROJECT_VIEWER_ROLE_SLUG PROJECT_OWNER_ROLE_SLUG st1
                   else Inr st1))"

section \<open>Runs\<close>

inductive key_step :: "KeyState \<Rightarrow> KeyState \<Rightarrow> bool" where
  created: "createApiKey st userId newId label scopes = Inr st' \<Longrightarrow> key_step st st'"
| updated: "updateApiKey st userId apiKeyId label scopes = Inr st' \<Longrightarrow> key_step st st'"
| deleted: "deleteApiKey st userId apiKeyId = Inr st' \<Longrightarrow> key_step st st'"
| role_changed: "changeUserRole st userId newRoleName = Inr st' \<Longrightarrow> key_step st st'"

inductive_cases key_step_cases: "key_step st st'"

definition chat_user_ok :: "KeyState \<Rightarrow> bool" where
  "chat_user_ok st \<longleftrightarrow>
     (\<exists>role. map_of (ks_roles st) ''global:chatUser'' = Some role \<and> ''apiKey:create'' \<notin> set (r_scopes role)) \<and>
     (\<forall>k \<in> set (ks_keys st). k_audience k = API_KEY_AUDIENCE \<longrightarrow> map_of (ks_users st) (k_userId k) \<noteq> Some ''global:chatUser'')"

lemma requireGlobalScope_Inr:
  "requireGlobalScope st u s = Inr role \<longleftrightarrow> roleOf st u = Some role \<and> s \<in> set (r_scopes role) \<and> ks_apiEnabled st"
  by (cases "roleOf st u") (auto simp: requireGlobalScope_def hasGlobalScope_def getAuthPrincipalScopes_def
    hasScope_def set_combineScopes)

lemma createApiKey_ok:
  assumes "chat_user_ok st" and "createApiKey st u i label scopes = Inr st'"
  shows "chat_user_ok st'"
proof -
  from assms(2) obtain role where role: "roleOf st u = Some role" "''apiKey:create'' \<in> set (r_scopes role)"
    and st': "st' = st\<lparr>ks_keys := ks_keys st @
       [\<lparr>k_id = i, k_userId = u, k_audience = API_KEY_AUDIENCE, k_label = label, k_scopes = scopes\<rparr>]\<rparr>"
    by (auto simp: createApiKey_def res_bind_Inr_iff requireGlobalScope_Inr split: if_splits)
  from role assms(1) have "map_of (ks_users st) u \<noteq> Some ''global:chatUser''"
    by (auto simp: roleOf_def chat_user_ok_def)
  with assms(1) show ?thesis by (auto simp: chat_user_ok_def st')
qed

lemma updateApiKey_ok:
  assumes "chat_user_ok st" and "updateApiKey st u i label scopes = Inr st'"
  shows "chat_user_ok st'"
  using assms by (auto simp: updateApiKey_def res_bind_Inr_iff chat_user_ok_def split: if_splits)

lemma deleteApiKey_ok:
  assumes "chat_user_ok st" and "deleteApiKey st u i = Inr st'"
  shows "chat_user_ok st'"
  using assms by (auto simp: deleteApiKey_def res_bind_Inr_iff chat_user_ok_def split: if_splits)

text \<open>A change of role leaves the role table and the other users alone, and never hands a key to another user.\<close>

lemma switchPersonalRole_frame:
  "switchPersonalRole u a b st = Inr st' \<Longrightarrow>
    ks_roles st' = ks_roles st \<and> ks_users st' = ks_users st \<and> ks_keys st' = ks_keys st"
  by (auto simp: switchPersonalRole_def split: option.splits)

lemma chat_user_ok_users:
  assumes "chat_user_ok st" and "ks_roles st' = ks_roles st" and "ks_users st' = AList.update u r (ks_users st)"
    and "\<And>k'. k' \<in> set (ks_keys st') \<Longrightarrow> k_audience k' = API_KEY_AUDIENCE \<Longrightarrow> k_userId k' = u \<Longrightarrow> r \<noteq> ''global:chatUser''"
    and "\<And>k'. k' \<in> set (ks_keys st') \<Longrightarrow>
      \<exists>k \<in> set (ks_keys st). k_userId k = k_userId k' \<and> k_audience k = k_audience k'"
  shows "chat_user_ok st'"
  unfolding chat_user_ok_def
proof (intro conjI ballI impI)
  show "\<exists>role. map_of (ks_roles st') ''global:chatUser'' = Some role \<and> ''apiKey:create'' \<notin> set (r_scopes role)"
    using assms(1,2) by (simp add: chat_user_ok_def)
next
  fix k'
  assume k': "k' \<in> set (ks_keys st')" "k_audience k' = API_KEY_AUDIENCE"
  show "map_of (ks_users st') (k_userId k') \<noteq> Some ''global:chatUser''"
  proof (cases "k_userId k' = u")
    case True
    with k' assms(4) show ?thesis by (simp add: assms(3) update_conv')
  next
    case False
    from assms(5) [OF k'(1)] obtain k where "k \<in> set (ks_keys st)" "k_userId k = k_userId k'" "k_audience k = k_audience k'" by blast
    with assms(1) k'(2) have "map_of (ks_users st) (k_userId k') \<noteq> Some ''global:chatUser''" by (auto simp: chat_user_ok_def)
    with False show ?thesis by (simp add: assms(3) update_conv')
  qed
qed

lemma changeUserRole_ok:
  assumes ok: "chat_user_ok st" and "changeUserRole st u r = Inr st'"
  shows "chat_user_ok st'"
proof -
  let ?st1 = "st\<lparr>ks_users := AList.update u r (ks_users st)\<rparr>"
  from assms(2) obtain slug where slug: "map_of (ks_users st) u = Some slug"
    by (auto simp: changeUserRole_def split: option.splits)
  with assms(2) have "map_of (ks_roles st) r \<noteq> None" by (auto simp: changeUserRole_def split: if_splits)
  note step = assms(2) [unfolded changeUserRole_def slug option.case Let_def if_not_P [OF this]]
  show ?thesis
  proof (cases "slug \<noteq> ''global:chatUser'' \<and> r = ''global:chatUser''")
    case True
    obtain rows st2 where
      sw: "switchPersonalRole u PROJECT_OWNER_ROLE_SLUG PROJECT_VIEWER_ROLE_SLUG (?st1\<lparr>ks_relations := rows\<rparr>) = Inr st2"
      and st': "deleteAllApiKeysForUser u st2 = st'"
      using step [unfolded if_P [OF True] res_bind_Inr_iff sum.inject] by blast
    note f = switchPersonalRole_frame [OF sw]
    show ?thesis
      by (rule chat_user_ok_users [OF ok, of _ u r]) (use f in \<open>auto simp: st' [symmetric] deleteAllApiKeysForUser_def\<close>)
  next
    case False
    note step = step [unfolded if_not_P [OF False]]
    show ?thesis
    proof (cases "isAdminRole slug \<and> \<not> isAdminRole r")
      case True
      then have r: "r \<noteq> ''global:chatUser''" using False by (auto simp: isAdminRole_def)
      have st': "removeOwnerOnlyScopesFromApiKeys u ?st1 = st'" using step [unfolded if_P [OF True] sum.inject] .
      show ?thesis
        by (rule chat_user_ok_users [OF ok, of _ u r])
          (use r in \<open>auto simp: st' [symmetric] removeOwnerOnlyScopesFromApiKeys_def Let_def\<close>)
    next
      case admin: False
      note step = step [unfolded if_not_P [OF admin]]
      show ?thesis
      proof (cases "slug = ''global:chatUser'' \<and> r \<noteq> ''global:chatUser''")
        case True
        note f = switchPersonalRole_frame [OF step [unfolded if_P [OF True]]]
        show ?thesis by (rule chat_user_ok_users [OF ok, of _ u r]) (use f True in auto)
      next
        case same: False
        have st': "?st1 = st'" using step [unfolded if_not_P [OF same] sum.inject] .
        show ?thesis
        proof (rule chat_user_ok_users [OF ok, of _ u r])
          fix k'
          assume "k' \<in> set (ks_keys st')" "k_audience k' = API_KEY_AUDIENCE" "k_userId k' = u"
          with ok have "map_of (ks_users st) u \<noteq> Some ''global:chatUser''" by (auto simp: chat_user_ok_def st' [symmetric])
          with slug False show "r \<noteq> ''global:chatUser''" by simp
        qed (auto simp: st' [symmetric])
      qed
    qed
  qed
qed

lemma key_step_ok: "key_step st st' \<Longrightarrow> chat_user_ok st \<Longrightarrow> chat_user_ok st'"
  by (elim key_step_cases) (blast intro: createApiKey_ok updateApiKey_ok deleteApiKey_ok changeUserRole_ok)+

lemma keys_reach_ok: "key_step\<^sup>*\<^sup>* st st' \<Longrightarrow> chat_user_ok st \<Longrightarrow> chat_user_ok st'"
  by (induction rule: rtranclp_induct) (auto dest: key_step_ok)

section \<open>Chat users and demoted administrators\<close>

definition builtInRole :: "string \<Rightarrow> Scope list \<Rightarrow> DbRole" where
  "builtInRole slug scopes = \<lparr>r_slug = slug, r_scopes = scopes\<rparr>"

text \<open>
  C32: A chat user never holds a key of the public API. Whatever keys are created, updated and deleted and whatever roles are
  changed, starting without keys and with the built-in scopes of the role, no key belongs to a user whose role is
  \<open>global:chatUser\<close>: such a user may not create one, and losing another role for it deletes the keys.
\<close>

theorem chat_users_have_no_keys:
  assumes "key_step\<^sup>*\<^sup>* st0 st" and "ks_keys st0 = []"
    and "map_of (ks_roles st0) ''global:chatUser'' = Some (builtInRole ''global:chatUser'' GLOBAL_CHAT_USER_SCOPES)"
    and "k \<in> set (ks_keys st)" and "k_audience k = API_KEY_AUDIENCE"
  shows "map_of (ks_users st) (k_userId k) \<noteq> Some ''global:chatUser''"
proof -
  have "chat_user_ok st0" using assms(2,3) by (simp add: chat_user_ok_def builtInRole_def GLOBAL_CHAT_USER_SCOPES_def)
  with assms(1) have "chat_user_ok st" by (rule keys_reach_ok)
  with assms(4,5) show ?thesis by (simp add: chat_user_ok_def)
qed

lemma set_getOwnerOnlyApiKeyScopes: "set getOwnerOnlyApiKeyScopes = set OWNER_API_KEY_SCOPES - set MEMBER_API_KEY_SCOPES"
proof -
  have "set (fold (\<lambda>item acc. removeAll item acc) xs ys) = set ys - set xs" for xs ys :: "Scope list"
    by (induction xs arbitrary: ys) auto
  then show ?thesis by (simp add: getOwnerOnlyApiKeyScopes_def MAP_ROLE_SCOPES_def)
qed

lemma install_not_owner_only: "''communityPackage:install'' \<notin> set getOwnerOnlyApiKeyScopes"
  unfolding set_getOwnerOnlyApiKeyScopes by (simp add: OWNER_API_KEY_SCOPES_def)

lemma install_not_for_members:
  "''communityPackage:install'' \<notin> set (getApiKeyScopesForRole (builtInRole ''global:member'' GLOBAL_MEMBER_SCOPES))"
  by (simp add: getApiKeyScopesForRole_def builtInRole_def GLOBAL_MEMBER_SCOPES_def API_KEY_SCOPES_FOR_IMPLICIT_PERSONAL_PROJECT_def)

lemma removeOwnerOnly_keeps:
  assumes "k \<in> set (ks_keys st)" and "s \<in> set (k_scopes k)" and "s \<notin> set getOwnerOnlyApiKeyScopes"
  shows "\<exists>k'. k' \<in> set (ks_keys (removeOwnerOnlyScopesFromApiKeys u st)) \<and> k_id k' = k_id k \<and> k_userId k' = k_userId k \<and>
    s \<in> set (k_scopes k')"
proof -
  let ?f = "\<lambda>k. if k_userId k = u \<and> k_audience k = API_KEY_AUDIENCE \<and> list_ex (\<lambda>scope. scope \<in> set getOwnerOnlyApiKeyScopes) (k_scopes k)
    then k\<lparr>k_scopes := filter (\<lambda>scope. scope \<notin> set getOwnerOnlyApiKeyScopes) (k_scopes k)\<rparr> else k"
  have "ks_keys (removeOwnerOnlyScopesFromApiKeys u st) = map ?f (ks_keys st)"
    by (simp add: removeOwnerOnlyScopesFromApiKeys_def Let_def)
  then have "?f k \<in> set (ks_keys (removeOwnerOnlyScopesFromApiKeys u st))"
    using imageI [OF assms(1), of ?f] by (simp only: set_map)
  moreover have "k_id (?f k) = k_id k \<and> k_userId (?f k) = k_userId k \<and> s \<in> set (k_scopes (?f k))"
    using assms(2,3) by simp
  ultimately show ?thesis by blast
qed

text \<open>
  C33: A demoted administrator keeps a key that the new role would not allow. When an owner or administrator becomes a member,
  the change succeeds, and every key with the scope to install community packages still passes the check of the endpoint that
  installs them, although a member may not be given a key with that scope: the scopes that are taken back are computed from
  lists which do not name the scopes of community packages, while the scopes that are granted come from the role.
\<close>

theorem demoted_admin_keeps_scope:
  assumes "map_of (ks_users st) u = Some slug" and "isAdminRole slug"
    and "map_of (ks_roles st) ''global:member'' = Some (builtInRole ''global:member'' GLOBAL_MEMBER_SCOPES)"
    and "k \<in> set (ks_keys st)" and "k_userId k = u" and "publicApiScope ''communityPackage:install'' k"
  shows "\<exists>st' k'. changeUserRole st u ''global:member'' = Inr st' \<and>
    roleOf st' u = Some (builtInRole ''global:member'' GLOBAL_MEMBER_SCOPES) \<and>
    k' \<in> set (ks_keys st') \<and> k_id k' = k_id k \<and> k_userId k' = u \<and> publicApiScope ''communityPackage:install'' k' \<and>
    \<not> apiKeyHasValidScopesForRole (builtInRole ''global:member'' GLOBAL_MEMBER_SCOPES) [''communityPackage:install'']"
proof -
  let ?st1 = "st\<lparr>ks_users := AList.update u ''global:member'' (ks_users st)\<rparr>"
  let ?st' = "removeOwnerOnlyScopesFromApiKeys u ?st1"
  have "changeUserRole st u ''global:member'' = Inr ?st'"
    using assms(1-3) by (simp add: changeUserRole_def Let_def isAdminRole_def)
  moreover have "roleOf ?st' u = Some (builtInRole ''global:member'' GLOBAL_MEMBER_SCOPES)"
    using assms(3) by (simp add: roleOf_def removeOwnerOnlyScopesFromApiKeys_def Let_def update_conv')
  moreover have "k \<in> set (ks_keys ?st1)" using assms(4) by simp
  from removeOwnerOnly_keeps [OF this _ install_not_owner_only, of u] assms(5,6)
  obtain k' where "k' \<in> set (ks_keys ?st')" "k_id k' = k_id k" "k_userId k' = u" "''communityPackage:install'' \<in> set (k_scopes k')"
    unfolding publicApiScope_def by blast
  moreover have "\<not> apiKeyHasValidScopesForRole (builtInRole ''global:member'' GLOBAL_MEMBER_SCOPES) [''communityPackage:install'']"
    using install_not_for_members by (simp add: apiKeyHasValidScopesForRole_def)
  ultimately show ?thesis unfolding publicApiScope_def by blast
qed

definition ex_keys :: KeyState where
  "ex_keys =
     \<lparr>ks_apiEnabled = True,
      ks_roles = [(''global:admin'', builtInRole ''global:admin'' GLOBAL_ADMIN_SCOPES),
        (''global:member'', builtInRole ''global:member'' GLOBAL_MEMBER_SCOPES),
        (''global:chatUser'', builtInRole ''global:chatUser'' GLOBAL_CHAT_USER_SCOPES)],
      ks_users = [(''u'', ''global:admin'')], ks_relations = [], ks_personal = [], ks_keys = []\<rparr>"

definition ex_key :: ApiKey where
  "ex_key = \<lparr>k_id = ''k'', k_userId = ''u'', k_audience = API_KEY_AUDIENCE, k_label = ''ci'',
     k_scopes = [''communityPackage:install'']\<rparr>"

lemma ex_create: "createApiKey ex_keys ''u'' ''k'' ''ci'' [''communityPackage:install''] = Inr (ex_keys\<lparr>ks_keys := [ex_key]\<rparr>)"
proof -
  have role: "roleOf ex_keys ''u'' = Some (builtInRole ''global:admin'' GLOBAL_ADMIN_SCOPES)"
    by (simp add: roleOf_def ex_keys_def)
  have may: "''apiKey:create'' \<in> set GLOBAL_ADMIN_SCOPES" "''communityPackage:install'' \<in> set GLOBAL_ADMIN_SCOPES"
    by (simp_all add: GLOBAL_ADMIN_SCOPES_def GLOBAL_OWNER_SCOPES_def)
  have "isApiKeyScope ''communityPackage:install''"
    by (simp add: isApiKeyScope_def buildApiKeyScopes_def API_KEY_RESOURCES_def DEFAULT_OPERATIONS_def)
  with may(2) have "apiKeyHasValidScopesForRole (builtInRole ''global:admin'' GLOBAL_ADMIN_SCOPES) [''communityPackage:install'']"
    by (simp add: apiKeyHasValidScopesForRole_def getApiKeyScopesForRole_def builtInRole_def)
  moreover have "requireGlobalScope ex_keys ''u'' ''apiKey:create'' = Inr (builtInRole ''global:admin'' GLOBAL_ADMIN_SCOPES)"
    unfolding requireGlobalScope_Inr using role may(1) by (simp add: builtInRole_def ex_keys_def)
  ultimately show ?thesis by (simp add: createApiKey_def ex_key_def ex_keys_def)
qed

theorem chat_users_have_no_keys_witness:
  "createApiKey ex_keys ''u'' ''k'' ''ci'' [''communityPackage:install''] = Inr (ex_keys\<lparr>ks_keys := [ex_key]\<rparr>) \<and>
   map_of (ks_users (ex_keys\<lparr>ks_keys := [ex_key]\<rparr>)) (k_userId ex_key) \<noteq> Some ''global:chatUser''"
proof -
  have "key_step\<^sup>*\<^sup>* ex_keys (ex_keys\<lparr>ks_keys := [ex_key]\<rparr>)" by (rule r_into_rtranclp) (rule key_step.created [OF ex_create])
  from chat_users_have_no_keys [OF this, of ex_key] ex_create show ?thesis
    by (simp add: ex_keys_def ex_key_def)
qed

theorem demoted_admin_keeps_scope_witness:
  "createApiKey ex_keys ''u'' ''k'' ''ci'' [''communityPackage:install''] = Inr (ex_keys\<lparr>ks_keys := [ex_key]\<rparr>) \<and>
   (\<exists>st' k'. changeUserRole (ex_keys\<lparr>ks_keys := [ex_key]\<rparr>) ''u'' ''global:member'' = Inr st' \<and>
     roleOf st' ''u'' = Some (builtInRole ''global:member'' GLOBAL_MEMBER_SCOPES) \<and>
     k' \<in> set (ks_keys st') \<and> k_id k' = ''k'' \<and> k_userId k' = ''u'' \<and> publicApiScope ''communityPackage:install'' k' \<and>
     \<not> apiKeyHasValidScopesForRole (builtInRole ''global:member'' GLOBAL_MEMBER_SCOPES) [''communityPackage:install''])"
proof -
  let ?st = "ex_keys\<lparr>ks_keys := [ex_key]\<rparr>"
  have h: "map_of (ks_users ?st) ''u'' = Some ''global:admin''" "isAdminRole ''global:admin''"
    "map_of (ks_roles ?st) ''global:member'' = Some (builtInRole ''global:member'' GLOBAL_MEMBER_SCOPES)"
    "ex_key \<in> set (ks_keys ?st)" "k_userId ex_key = ''u''" "publicApiScope ''communityPackage:install'' ex_key"
    and i: "k_id ex_key = ''k''"
    by (simp_all add: ex_keys_def ex_key_def isAdminRole_def publicApiScope_def)
  from demoted_admin_keeps_scope [OF h, unfolded i] ex_create show ?thesis by blast
qed

end
