(* ===== verification/Structure_Validation.thy ===== *)
theory Structure_Validation
  imports Graph_Convert
begin

text \<open>
  \<open>workflow/src/workflow-structure-validation.ts\<close>: the shape a workflow must have before the server stores it or the editor
  imports it. The schemas of the file are predicates on JSON values, which read like the schemas; the issues the schema library
  reports are an argument. A value has no properties that are \<open>undefined\<close>, so \<open>optional\<close> means that the property is missing.
\<close>

section \<open>Reading JSON values\<close>

fun jfields :: "json \<Rightarrow> (string, json) dict" where
  "jfields (JObj fs) = fs"
| "jfields _ = []"

fun jelems :: "json \<Rightarrow> json list" where
  "jelems (JArr xs) = xs"
| "jelems _ = []"

fun jtext :: "json option \<Rightarrow> string" where
  "jtext (Some (JStr s)) = s"
| "jtext _ = []"

fun jnumber :: "json option \<Rightarrow> int" where
  "jnumber (Some (JNum n)) = n"
| "jnumber _ = 0"

definition jget :: "string \<Rightarrow> json \<Rightarrow> json option" where
  "jget k j = map_of (jfields j) k"

section \<open>The schemas\<close>

fun isObject :: "json \<Rightarrow> bool" where
  "isObject (JObj _) = True"
| "isObject _ = False"

fun isArray :: "json \<Rightarrow> bool" where
  "isArray (JArr _) = True"
| "isArray _ = False"

fun isNonEmptyString :: "json option \<Rightarrow> bool" where
  "isNonEmptyString (Some (JStr s)) \<longleftrightarrow> s \<noteq> []"
| "isNonEmptyString _ \<longleftrightarrow> False"

fun isNumber :: "json \<Rightarrow> bool" where
  "isNumber (JNum _) = True"
| "isNumber _ = False"

fun isString :: "json \<Rightarrow> bool" where
  "isString (JStr _) = True"
| "isString _ = False"

fun isBoolean :: "json \<Rightarrow> bool" where
  "isBoolean (JBool _) = True"
| "isBoolean _ = False"

fun optionalIs :: "(json \<Rightarrow> bool) \<Rightarrow> json option \<Rightarrow> bool" where
  "optionalIs p None = True"
| "optionalIs p (Some j) = p j"

fun isPosition :: "json option \<Rightarrow> bool" where
  "isPosition (Some (JArr xs)) \<longleftrightarrow> length xs = 2 \<and> list_all isNumber xs"
| "isPosition _ \<longleftrightarrow> False"

definition workflowNodeStructureSchema :: "json \<Rightarrow> bool" where
  "workflowNodeStructureSchema j \<longleftrightarrow>
     isObject j \<and> isNonEmptyString (jget ''name'' j) \<and> isNonEmptyString (jget ''type'' j) \<and> isPosition (jget ''position'' j) \<and>
     optionalIs isObject (jget ''parameters'' j) \<and> optionalIs isString (jget ''id'' j) \<and>
     optionalIs isNumber (jget ''typeVersion'' j) \<and> optionalIs isBoolean (jget ''disabled'' j)"

fun isIndex :: "json option \<Rightarrow> bool" where
  "isIndex (Some (JNum n)) \<longleftrightarrow> n \<ge> 0"
| "isIndex _ \<longleftrightarrow> False"

definition connectionEntrySchema :: "json \<Rightarrow> bool" where
  "connectionEntrySchema j \<longleftrightarrow>
     isObject j \<and> isNonEmptyString (jget ''node'' j) \<and> isNonEmptyString (jget ''type'' j) \<and> isIndex (jget ''index'' j)"

definition connectionBucketSchema :: "json \<Rightarrow> bool" where
  "connectionBucketSchema j \<longleftrightarrow> j = JNull \<or> isArray j \<and> list_all connectionEntrySchema (jelems j)"

definition workflowConnectionsStructureSchema :: "json \<Rightarrow> bool" where
  "workflowConnectionsStructureSchema j \<longleftrightarrow>
     isObject j \<and> list_all (\<lambda>(_, byType). isObject byType \<and>
       list_all (\<lambda>(_, buckets). isArray buckets \<and> list_all connectionBucketSchema (jelems buckets)) (jfields byType)) (jfields j)"

definition workflowStructureSchema :: "json \<Rightarrow> bool" where
  "workflowStructureSchema j \<longleftrightarrow> isObject j \<and>
     (case jget ''nodes'' j of Some (JArr nodes) \<Rightarrow> list_all workflowNodeStructureSchema nodes | _ \<Rightarrow> False) \<and>
     (case jget ''connections'' j of Some connections \<Rightarrow> workflowConnectionsStructureSchema connections | None \<Rightarrow> False)"

section \<open>The parsed data\<close>

record WorkflowStructureData =
  ws_nodes :: "json list"
  ws_connections :: IConnections

definition nodeName :: "json \<Rightarrow> string" where
  "nodeName j = jtext (jget ''name'' j)"

definition toConnection :: "json \<Rightarrow> IConnection" where
  "toConnection j =
     \<lparr>c_node = jtext (jget ''node'' j), c_type = jtext (jget ''type'' j), c_index = nat (jnumber (jget ''index'' j))\<rparr>"

definition toBucket :: "json \<Rightarrow> IConnection list option" where
  "toBucket j = (if j = JNull then None else Some (map toConnection (jelems j)))"

definition toConnections :: "json \<Rightarrow> IConnections" where
  "toConnections j =
     map (\<lambda>(source, byType). (source, map (\<lambda>(type, buckets). (type, map toBucket (jelems buckets))) (jfields byType))) (jfields j)"

definition parsedData :: "json \<Rightarrow> WorkflowStructureData" where
  "parsedData j =
     \<lparr>ws_nodes = jelems (the (jget ''nodes'' j)), ws_connections = toConnections (the (jget ''connections'' j))\<rparr>"

section \<open>Issues\<close>

datatype PathSegment = Key string | Index nat

record WorkflowStructureIssue =
  is_code :: string
  is_path :: "PathSegment list"
  is_message :: string

fun pathStep :: "string \<Rightarrow> PathSegment \<Rightarrow> string" where
  "pathStep acc (Index n) = acc @ ''['' @ nat_str n @ '']''"
| "pathStep acc (Key k) = (if acc \<noteq> [] then acc @ ''.'' @ k else k)"

definition formatWorkflowStructureIssuePath :: "PathSegment list \<Rightarrow> string" where
  "formatWorkflowStructureIssuePath path = (if path = [] then ''workflow'' else foldl pathStep [] path)"

fun joinLines :: "string list \<Rightarrow> string" where
  "joinLines [] = []"
| "joinLines [l] = l"
| "joinLines (l # ls) = l @ [CHR 0x0A] @ joinLines ls"

definition formatIssuesDescription :: "WorkflowStructureIssue list \<Rightarrow> string" where
  "formatIssuesDescription issues =
     joinLines (map (\<lambda>i. formatWorkflowStructureIssuePath (is_path i) @ '': '' @ is_message i) issues)"

definition quoted :: "string \<Rightarrow> string" where
  "quoted s = [CHR 0x22] @ s @ [CHR 0x22]"

definition duplicateIssue :: "nat \<Rightarrow> string \<Rightarrow> WorkflowStructureIssue" where
  "duplicateIssue index name =
     \<lparr>is_code = ''duplicate_node_name'', is_path = [Key ''nodes'', Index index, Key ''name''],
      is_message = ''Duplicate node name '' @ quoted name\<rparr>"

definition sourceIssue :: "string \<Rightarrow> WorkflowStructureIssue" where
  "sourceIssue source =
     \<lparr>is_code = ''unknown_connection_source'', is_path = [Key ''connections'', Key source],
      is_message = ''Connection source '' @ quoted source @ '' does not reference an existing node''\<rparr>"

definition targetIssue :: "string \<Rightarrow> string \<Rightarrow> nat \<Rightarrow> nat \<Rightarrow> string \<Rightarrow> WorkflowStructureIssue" where
  "targetIssue source type sourceIndex targetIndex target =
     \<lparr>is_code = ''unknown_connection_target'',
      is_path = [Key ''connections'', Key source, Key type, Index sourceIndex, Index targetIndex, Key ''node''],
      is_message = ''Connection target '' @ quoted target @ '' does not reference an existing node''\<rparr>"

text \<open>The loop over the nodes collects their names and an issue for every later node with a name seen before.\<close>

definition checkNames :: "json list \<Rightarrow> string list \<times> WorkflowStructureIssue list" where
  "checkNames nodes =
     fold (\<lambda>(index, node) (nodeNames, issues).
         if nodeName node \<in> set nodeNames then (nodeNames, issues @ [duplicateIssue index (nodeName node)])
         else (nodeNames @ [nodeName node], issues))
       (enumerate 0 nodes) ([], [])"

definition checkConnections :: "string list \<Rightarrow> IConnections \<Rightarrow> WorkflowStructureIssue list" where
  "checkConnections nodeNames connections =
     concat (map (\<lambda>(source, byType).
         (if source \<notin> set nodeNames then [sourceIssue source] else []) @
         concat (map (\<lambda>(type, buckets).
           concat (map (\<lambda>(sourceIndex, bucket).
             concat (map (\<lambda>(targetIndex, connection).
                 if c_node connection \<notin> set nodeNames
                 then [targetIssue source type sourceIndex targetIndex (c_node connection)] else [])
               (enumerate 0 (or_empty bucket))))
             (enumerate 0 buckets))) byType)) connections)"

definition safeParseWorkflowStructure ::
  "(json \<Rightarrow> WorkflowStructureIssue list) \<Rightarrow> json \<Rightarrow> WorkflowStructureIssue list + WorkflowStructureData" where
  "safeParseWorkflowStructure schemaIssues inp =
     (if \<not> workflowStructureSchema inp then Inl (schemaIssues inp)
      else let data = parsedData inp;
               names = checkNames (ws_nodes data);
               issues = snd names @ checkConnections (fst names) (ws_connections data)
           in if issues \<noteq> [] then Inl issues else Inr data)"

text \<open>\<open>parseWorkflowStructure\<close> throws an error with the issues and their description.\<close>

definition parseWorkflowStructure ::
  "(json \<Rightarrow> WorkflowStructureIssue list) \<Rightarrow> json \<Rightarrow> (WorkflowStructureIssue list \<times> string) + WorkflowStructureData" where
  "parseWorkflowStructure schemaIssues inp =
     (case safeParseWorkflowStructure schemaIssues inp of
        Inl issues \<Rightarrow> Inl (issues, formatIssuesDescription issues)
      | Inr data \<Rightarrow> Inr data)"

section \<open>What is accepted\<close>

lemma checkNames_step:
  "fold (\<lambda>(index, node) (nodeNames, issues).
       if nodeName node \<in> set nodeNames then (nodeNames, issues @ [duplicateIssue index (nodeName node)])
       else (nodeNames @ [nodeName node], issues)) (enumerate k nodes) (names, issues) = (names', issues') \<Longrightarrow>
   set names' = set names \<union> nodeName ` set nodes \<and>
   (issues' = [] \<longleftrightarrow> issues = [] \<and> distinct (map nodeName nodes) \<and> nodeName ` set nodes \<inter> set names = {})"
proof (induction nodes arbitrary: k names issues)
  case (Cons node nodes)
  show ?case
  proof (cases "nodeName node \<in> set names")
    case True
    with Cons.prems Cons.IH [of "Suc k" names "issues @ [duplicateIssue k (nodeName node)]"] show ?thesis by auto
  next
    case False
    with Cons.prems Cons.IH [of "Suc k" "names @ [nodeName node]" issues] show ?thesis by auto
  qed
qed simp

lemma checkNames_names: "set (fst (checkNames nodes)) = nodeName ` set nodes"
  using checkNames_step [of 0 nodes "[]" "[]"] by (cases "checkNames nodes") (simp add: checkNames_def)

lemma checkNames_issues: "snd (checkNames nodes) = [] \<longleftrightarrow> distinct (map nodeName nodes)"
  using checkNames_step [of 0 nodes "[]" "[]"] by (cases "checkNames nodes") (simp add: checkNames_def)

lemma concat_map_Nil: "concat (map f xs) = [] \<longleftrightarrow> (\<forall>x \<in> set xs. f x = [])"
  by auto

lemma all_enumerate: "(\<forall>p \<in> set (enumerate k xs). P (snd p)) \<longleftrightarrow> (\<forall>x \<in> set xs. P x)"
  by (induction xs arbitrary: k) auto

lemma ball_links:
  "(\<forall>(s, t, i, c) \<in> set (links conns). P s t i c) \<longleftrightarrow>
     (\<forall>(s, tm) \<in> set conns. \<forall>(t, outs) \<in> set tm. \<forall>(i, g) \<in> set (enumerate 0 outs). \<forall>c \<in> set (or_empty g). P s t i c)"
  by (simp add: links_def case_prod_unfold)

lemma checkConnections_Nil:
  "checkConnections names conns = [] \<longleftrightarrow>
     (\<forall>(s, tm) \<in> set conns. s \<in> set names) \<and> (\<forall>(s, t, i, c) \<in> set (links conns). c_node c \<in> set names)"
proof -
  have bucket: "(\<forall>p \<in> set (enumerate 0 cs). c_node (snd p) \<in> set names) \<longleftrightarrow> (\<forall>c \<in> set cs. c_node c \<in> set names)"
    for cs :: "IConnection list"
    by (rule all_enumerate)
  have one: "(if b then [] else [x]) = [] \<longleftrightarrow> b" "(if \<not> b then [x] else []) = [] \<longleftrightarrow> b" for b and x :: WorkflowStructureIssue
    by simp_all
  show ?thesis
    unfolding ball_links [where P = "\<lambda>s t i c. c_node c \<in> set names"]
    unfolding checkConnections_def concat_map_Nil case_prod_unfold append_is_Nil_conv one bucket ball_conj_distrib ..
qed

text \<open>The import into a graph goes through when sources and targets are among the nodes.\<close>

lemma map_of_fold_update_name:
  "distinct (map n_name ns) \<Longrightarrow> n \<in> set ns \<Longrightarrow> map_of (fold (\<lambda>n. AList.update (n_name n) n) ns d) (n_name n) = Some n"
proof (induction ns arbitrary: d)
  case (Cons m ns)
  have "map_of (fold (\<lambda>n. AList.update (n_name n) n) ns d) k = map_of d k" if "k \<notin> n_name ` set ns" for k d
    using that by (induction ns arbitrary: d) (auto simp: update_conv')
  with Cons show ?case by (cases "n = m") (auto simp: update_conv')
qed simp

lemma map_of_fold_update_key:
  "map_of (fold (\<lambda>n. AList.update (n_name n) n) ns []) k = Some n \<Longrightarrow> n \<in> set ns \<and> n_name n = k"
proof -
  have step: "map_of (fold (\<lambda>n. AList.update (n_name n) n) ns d) k = Some n \<Longrightarrow>
      n \<in> set ns \<and> n_name n = k \<or> map_of d k = Some n" for d
  proof (induction ns arbitrary: d)
    case (Cons m ns)
    from Cons.prems have "n \<in> set ns \<and> n_name n = k \<or> map_of (AList.update (n_name m) m d) k = Some n"
      by (intro Cons.IH) simp
    then show ?case by (cases "k = n_name m") (auto simp: update_conv')
  qed simp
  assume "map_of (fold (\<lambda>n. AList.update (n_name n) n) ns []) k = Some n"
  from step [OF this] show ?thesis by simp
qed

lemma fromNodesAndConnections_succeeds:
  assumes d: "distinct (map n_name ns)"
    and src: "\<And>s tm. (s, tm) \<in> set conns \<Longrightarrow> s \<in> n_name ` set ns"
    and dst: "\<And>s t i c. (s, t, i, c) \<in> set (links conns) \<Longrightarrow> c_node c \<in> n_name ` set ns"
  shows "\<exists>g. fromNodesAndConnections ns conns = Inr g \<and> (\<forall>n \<in> set ns. nodeExists g n)"
proof -
  let ?m = "fold (\<lambda>n. AList.update (n_name n) n) ns []"
  have look: "\<exists>n. map_of ?m k = Some n" if "k \<in> n_name ` set ns" for k
  proof -
    from that obtain n where n: "n \<in> set ns" "k = n_name n" by (rule imageE) simp
    from map_of_fold_update_name [OF d n(1), of "[]"] show ?thesis unfolding n(2) ..
  qed
  have ex: "nodeExists (addNodes ns new_graph) n" if "n \<in> set ns" for n
    using map_of_fold_update_name [OF d that, of "[]"] by (simp add: nodeExists_def addNodes_nodes new_graph_def)
  have found: "nodeExists (addNodes ns new_graph) n" if "map_of ?m k = Some n" for k n
    using map_of_fold_update_key [OF that] by (intro ex) simp
  have "connectAll (map_of ?m) conns (addNodes ns new_graph) =
      Inr (put_conns (map (resolve (map_of ?m)) (links conns)) (addNodes ns new_graph))"
    by (rule connectAll_links) (rule look, erule src, rule look, erule dst, erule found)
  moreover have "nodeExists (put_conns cs (addNodes ns new_graph)) n" if "n \<in> set ns" for cs n
    using ex [OF that] by (simp add: nodeExists_def)
  ultimately show ?thesis by (simp add: fromNodesAndConnections_def Let_def)
qed

text \<open>The issues of an accepted value, and of every value the schema admits.\<close>

lemma safeParse_accepts:
  "safeParseWorkflowStructure schemaIssues inp = Inr data \<longleftrightarrow>
     workflowStructureSchema inp \<and> data = parsedData inp \<and> distinct (map nodeName (ws_nodes data)) \<and>
     (\<forall>(s, tm) \<in> set (ws_connections data). s \<in> nodeName ` set (ws_nodes data)) \<and>
     (\<forall>(s, t, i, c) \<in> set (links (ws_connections data)). c_node c \<in> nodeName ` set (ws_nodes data))"
proof (cases "workflowStructureSchema inp")
  case True
  then show ?thesis
    by (simp add: safeParseWorkflowStructure_def Let_def checkNames_issues checkConnections_Nil checkNames_names) blast
qed (simp add: safeParseWorkflowStructure_def)

text \<open>
  C13: a value passes the validation exactly when the schemas hold, the nodes have different names and all sources and targets of
  connections are nodes; and then its graph is built without an error and has every node, whatever the nodes otherwise are.
\<close>

theorem validated_structure_builds:
  "(safeParseWorkflowStructure schemaIssues inp = Inr data \<longleftrightarrow>
     workflowStructureSchema inp \<and> data = parsedData inp \<and> distinct (map nodeName (ws_nodes data)) \<and>
     (\<forall>(s, tm) \<in> set (ws_connections data). s \<in> nodeName ` set (ws_nodes data)) \<and>
     (\<forall>(s, t, i, c) \<in> set (links (ws_connections data)). c_node c \<in> nodeName ` set (ws_nodes data))) \<and>
   (safeParseWorkflowStructure schemaIssues inp = Inr data \<longrightarrow> (\<forall>j. n_name (asNode j) = nodeName j) \<longrightarrow>
     (\<exists>g. fromNodesAndConnections (map asNode (ws_nodes data)) (ws_connections data) = Inr g \<and>
       (\<forall>j \<in> set (ws_nodes data). nodeExists g (asNode j))))"
proof (intro conjI impI, rule safeParse_accepts)
  assume acc: "safeParseWorkflowStructure schemaIssues inp = Inr data" and name: "\<forall>j. n_name (asNode j) = nodeName j"
  have names: "map n_name (map asNode js) = map nodeName js" for js using name by simp
  have set: "n_name ` set (map asNode js) = nodeName ` set js" for js
    using arg_cong [OF names, of set js] by (simp only: set_map)
  from acc have a: "distinct (map nodeName (ws_nodes data))"
      "\<And>s tm. (s, tm) \<in> set (ws_connections data) \<Longrightarrow> s \<in> nodeName ` set (ws_nodes data)"
      "\<And>s t i c. (s, t, i, c) \<in> set (links (ws_connections data)) \<Longrightarrow> c_node c \<in> nodeName ` set (ws_nodes data)"
    unfolding safeParse_accepts by blast+
  have "\<exists>g. fromNodesAndConnections (map asNode (ws_nodes data)) (ws_connections data) = Inr g \<and>
      (\<forall>n \<in> set (map asNode (ws_nodes data)). nodeExists g n)"
    by (rule fromNodesAndConnections_succeeds) (unfold names set, rule a(1), erule a(2), erule a(3))
  then show "\<exists>g. fromNodesAndConnections (map asNode (ws_nodes data)) (ws_connections data) = Inr g \<and>
      (\<forall>j \<in> set (ws_nodes data). nodeExists g (asNode j))"
    by (simp only: set_map ball_simps)
qed

definition exStructure :: "string \<Rightarrow> json" where
  "exStructure target =
     JObj [(''nodes'', JArr (map (\<lambda>n. JObj [(''name'', JStr n), (''type'', JStr ''set''), (''position'', JArr [JNum 0, JNum 0])])
              [''A'', ''B''])),
           (''connections'', JObj [(''A'', JObj [(''main'',
              JArr [JNull, JArr [JObj [(''node'', JStr target), (''type'', JStr ''main''), (''index'', JNum 0)]]])])])]"

text \<open>A connection to a node that does not exist is reported with its place.\<close>

lemma parse_unknown_target:
  "parseWorkflowStructure (\<lambda>_. []) (exStructure ''C'') =
     Inl ([targetIssue ''A'' ''main'' 1 0 ''C''],
       ''connections.A.main[1][0].node: Connection target '' @ quoted ''C'' @ '' does not reference an existing node'')"
  by code_simp

theorem validated_structure_builds_witness:
  "safeParseWorkflowStructure (\<lambda>_. []) (exStructure ''B'') = Inr (parsedData (exStructure ''B'')) \<and>
   (\<exists>g. fromNodesAndConnections (map (\<lambda>j. ex_node 2 False (nodeName j)) (ws_nodes (parsedData (exStructure ''B''))))
        (ws_connections (parsedData (exStructure ''B''))) = Inr g)"
proof -
  have acc: "safeParseWorkflowStructure (\<lambda>_. []) (exStructure ''B'') = Inr (parsedData (exStructure ''B''))" by code_simp
  have name: "\<forall>j. n_name (ex_node 2 False (nodeName j)) = nodeName j" by (simp add: ex_node_def plain_node_def)
  from validated_structure_builds [of "\<lambda>_. []" "exStructure ''B''" "parsedData (exStructure ''B'')" "\<lambda>j. ex_node 2 False (nodeName j)"]
    acc name show ?thesis by blast
qed

end
