(* ===== verification/Active_Executions.thy ===== *)
theory Active_Executions
  imports Concurrency
begin

text \<open>
  The executions that are active in a process: \<open>ActiveExecutions\<close> of \<open>packages/cli/src/active-executions.ts\<close>, on top of the limit
  on concurrent executions.

  An entry of \<open>activeExecutions\<close> is an object that closures hold on to, so objects live in a list and the map has their places;
  an object also has the variables of the closure that \<open>add\<close> leaves behind. \<open>add\<close> waits in the middle, for capacity and for the
  database: a call that waits is a \<open>PendingAdd\<close>, and what the database answers and the clock show are arguments. Promises of
  callers, responses and runs are numbers. The callbacks of a settled promise run as a step of their own.
\<close>

section \<open>State\<close>

datatype PostExecute = Unsettled | Resolved "nat option" | Cancelled string

datatype ResponseOutcome = Response nat | EmptyResponse | ResponseRejected string

record IWorkflowExecutionDataProcess =
  wd_executionMode :: string
  wd_workflowId :: string
  wd_workflowName :: string
  wd_retryOf :: "string option"
  wd_httpResponse :: "nat option"

record IExecutingWorkflowData =
  ew_executionData :: IWorkflowExecutionDataProcess
  ew_startedAt :: nat
  ew_postExecutePromise :: PostExecute
  ew_status :: string
  ew_responsePromise :: "nat option"
  ew_httpResponse :: "nat option"
  ew_workflowExecution :: "nat option"
  ew_executionId :: string
  ew_reservation :: "CapacityTarget option"
  ew_done :: bool

text \<open>\<open>pa_queued\<close>: the call waits for capacity.\<close>

record PendingAdd =
  pa_data :: IWorkflowExecutionDataProcess
  pa_executionId :: string
  pa_resume :: bool
  pa_reservation :: "CapacityTarget option"
  pa_queued :: bool

record ActiveExecutions =
  ax_objects :: "IExecutingWorkflowData list"
  ax_active :: "(string, nat) dict"
  ax_responseModes :: "(string, string) dict"
  ax_responses :: "(nat, ResponseOutcome) dict"
  ax_cancelled :: "nat list"
  ax_ended :: "nat list"
  ax_chunks :: "(nat \<times> string) list"
  ax_events :: "(string \<times> string \<times> string \<times> string) list"
  ax_adds :: "PendingAdd list"
  ax_control :: ConcurrencyControl

datatype active_error =
    ExecutionNotFoundError string
  | ExecutionAlreadyResumingError string
  | DatabaseError
  | AssertFailed
  | Concurrency concurrency_error

datatype DatabaseAnswer = Updated | NotUpdated | Failed

definition newActiveExecutions :: "ConcurrencyControl \<Rightarrow> ActiveExecutions" where
  "newActiveExecutions control =
     \<lparr>ax_objects = [], ax_active = [], ax_responseModes = [], ax_responses = [], ax_cancelled = [], ax_ended = [], ax_chunks = [],
      ax_events = [], ax_adds = [], ax_control = control\<rparr>"

section \<open>Objects\<close>

definition executionAt :: "string \<Rightarrow> ActiveExecutions \<Rightarrow> IExecutingWorkflowData option" where
  "executionAt executionId s = map_option (\<lambda>k. ax_objects s ! k) (map_of (ax_active s) executionId)"

definition hasActive :: "string \<Rightarrow> ActiveExecutions \<Rightarrow> bool" where
  "hasActive executionId s \<longleftrightarrow> executionAt executionId s \<noteq> None"

definition getExecutionOrFail :: "string \<Rightarrow> ActiveExecutions \<Rightarrow> active_error + nat" where
  "getExecutionOrFail executionId s =
     (case map_of (ax_active s) executionId of None \<Rightarrow> Inl (ExecutionNotFoundError executionId) | Some k \<Rightarrow> Inr k)"

definition changeObject ::
    "nat \<Rightarrow> (IExecutingWorkflowData \<Rightarrow> IExecutingWorkflowData) \<Rightarrow> ActiveExecutions \<Rightarrow> ActiveExecutions" where
  "changeObject k f s = s\<lparr>ax_objects := (ax_objects s)[k := f (ax_objects s ! k)]\<rparr>"

text \<open>A promise keeps the first outcome it gets.\<close>

definition settlePost :: "PostExecute \<Rightarrow> IExecutingWorkflowData \<Rightarrow> IExecutingWorkflowData" where
  "settlePost outcome e = (if ew_postExecutePromise e = Unsettled then e\<lparr>ew_postExecutePromise := outcome\<rparr> else e)"

definition settleResponse :: "nat option \<Rightarrow> ResponseOutcome \<Rightarrow> ActiveExecutions \<Rightarrow> ActiveExecutions" where
  "settleResponse promise outcome s =
     (case promise of None \<Rightarrow> s
      | Some p \<Rightarrow> if map_of (ax_responses s) p = None then s\<lparr>ax_responses := AList.update p outcome (ax_responses s)\<rparr> else s)"

definition removeActive :: "string \<Rightarrow> ActiveExecutions \<Rightarrow> ActiveExecutions" where
  "removeActive executionId s = s\<lparr>ax_active := AList.delete executionId (ax_active s)\<rparr>"

definition removeResponseMode :: "string \<Rightarrow> ActiveExecutions \<Rightarrow> ActiveExecutions" where
  "removeResponseMode executionId s = s\<lparr>ax_responseModes := AList.delete executionId (ax_responseModes s)\<rparr>"

section \<open>Capacity\<close>

text \<open>The first call that waits under the id goes on.\<close>

fun grantTo :: "string \<Rightarrow> PendingAdd list \<Rightarrow> PendingAdd list" where
  "grantTo executionId [] = []"
| "grantTo executionId (p # ps) =
     (if pa_queued p \<and> pa_executionId p = executionId
      then p\<lparr>pa_queued := False, pa_reservation := Some (wd_executionMode (pa_data p), executionId)\<rparr> # ps
      else p # grantTo executionId ps)"

definition grant :: "string option \<Rightarrow> ActiveExecutions \<Rightarrow> ActiveExecutions" where
  "grant released s = (case released of None \<Rightarrow> s | Some e \<Rightarrow> s\<lparr>ax_adds := grantTo e (ax_adds s)\<rparr>)"

text \<open>\<open>capacityReservation.release()\<close>; the owner forgets the reservation itself.\<close>

definition giveBack ::
    "ConcurrencyConfig \<Rightarrow> License \<Rightarrow> CapacityTarget option \<Rightarrow> ActiveExecutions \<Rightarrow> active_error + ActiveExecutions" where
  "giveBack config license reservation s =
     (case releaseReservation config license reservation (ax_control s) of
        Inl e \<Rightarrow> Inl (Concurrency e)
      | Inr (control, _, released) \<Rightarrow> Inr (grant released (s\<lparr>ax_control := control\<rparr>)))"

section \<open>Adding an execution\<close>

text \<open>
  \<open>add\<close> up to the point where it waits for capacity. A new execution gets its id \<open>newId\<close> from the database, and capacity is
  reserved unless the execution is an evaluation. A call that need not wait goes on at once.
\<close>

definition addBegin ::
    "ConcurrencyConfig \<Rightarrow> License \<Rightarrow> IWorkflowExecutionDataProcess \<Rightarrow> string option \<Rightarrow> string \<Rightarrow> ActiveExecutions
       \<Rightarrow> active_error + ActiveExecutions" where
  "addBegin config license executionData maybeExecutionId newId s =
     (let mode = wd_executionMode executionData;
          executionId = (case maybeExecutionId of None \<Rightarrow> newId | Some e \<Rightarrow> e);
          pending = \<lparr>pa_data = executionData, pa_executionId = executionId, pa_resume = (maybeExecutionId \<noteq> None),
            pa_reservation = None, pa_queued = False\<rparr>
      in if maybeExecutionId = None \<and> newId = [] then Inl AssertFailed
         else if mode = ''evaluation'' then Inr (s\<lparr>ax_adds := ax_adds s @ [pending]\<rparr>)
         else case reserve config license (mode, executionId) None (ax_control s) of
           Inl e \<Rightarrow> Inl (Concurrency e)
         | Inr (control, acquired) \<Rightarrow>
             Inr (s\<lparr>ax_control := control,
               ax_adds := ax_adds s @ [pending\<lparr>pa_reservation := acquired, pa_queued := (acquired = None)\<rparr>]\<rparr>))"

definition dropAdd :: "nat \<Rightarrow> ActiveExecutions \<Rightarrow> ActiveExecutions" where
  "dropAdd i s = s\<lparr>ax_adds := take i (ax_adds s) @ drop (Suc i) (ax_adds s)\<rparr>"

text \<open>Whether the execution may run: \<open>setRunning\<close> for a new one, \<open>updateExistingExecution\<close> with \<open>requireStatus\<close> for one that resumes.\<close>

definition databaseResult :: "ConcurrencyConfig \<Rightarrow> DatabaseAnswer \<Rightarrow> PendingAdd \<Rightarrow> active_error + unit" where
  "databaseResult config answer p =
     (if pa_resume p
      then (case answer of Updated \<Rightarrow> Inr () | NotUpdated \<Rightarrow> Inl (ExecutionAlreadyResumingError (pa_executionId p))
             | Failed \<Rightarrow> Inl DatabaseError)
      else if \<not> cf_queueMode config \<and> answer = Failed then Inl DatabaseError else Inr ())"

definition newExecution :: "PendingAdd \<Rightarrow> nat \<Rightarrow> ActiveExecutions \<Rightarrow> IExecutingWorkflowData" where
  "newExecution p now s =
     (let resumingExecution = executionAt (pa_executionId p) s
      in \<lparr>ew_executionData = pa_data p,
          ew_startedAt = (case resumingExecution of None \<Rightarrow> now | Some e \<Rightarrow> ew_startedAt e),
          ew_postExecutePromise = Unsettled,
          ew_status = (if pa_resume p \<and> pa_executionId p = [] then ''new'' else ''running''),
          ew_responsePromise = (case resumingExecution of None \<Rightarrow> None | Some e \<Rightarrow> ew_responsePromise e),
          ew_httpResponse = wd_httpResponse (pa_data p), ew_workflowExecution = None,
          ew_executionId = pa_executionId p, ew_reservation = pa_reservation p, ew_done = False\<rparr>)"

text \<open>The rest of \<open>add\<close>. The first component of the result is the error that the call throws, if any.\<close>

definition addContinue ::
    "ConcurrencyConfig \<Rightarrow> License \<Rightarrow> nat \<Rightarrow> DatabaseAnswer \<Rightarrow> nat \<Rightarrow> ActiveExecutions \<Rightarrow> active_error option \<times> ActiveExecutions" where
  "addContinue config license i answer now s =
     (let p = ax_adds s ! i in
      case databaseResult config answer p of
        Inl e \<Rightarrow> (case giveBack config license (pa_reservation p) (dropAdd i s) of
            Inl e' \<Rightarrow> (Some e', dropAdd i s)
          | Inr s' \<Rightarrow> (Some e, s'))
      | Inr _ \<Rightarrow> (None, (dropAdd i s)\<lparr>ax_objects := ax_objects s @ [newExecution p now s],
          ax_active := AList.update (pa_executionId p) (length (ax_objects s)) (ax_active s)\<rparr>))"

text \<open>The \<open>finally\<close> callback. When it cannot give capacity back, the rest does not run.\<close>

definition runFinally :: "ConcurrencyConfig \<Rightarrow> License \<Rightarrow> nat \<Rightarrow> ActiveExecutions \<Rightarrow> ActiveExecutions" where
  "runFinally config license k s =
     (let e = ax_objects s ! k in
      case giveBack config license (ew_reservation e) s of
        Inl _ \<Rightarrow> changeObject k (\<lambda>e. e\<lparr>ew_done := True\<rparr>) s
      | Inr s' \<Rightarrow>
          let s'' = changeObject k (\<lambda>e. e\<lparr>ew_reservation := None, ew_done := True\<rparr>) s'
          in if ew_status e = ''waiting'' then changeObject k (\<lambda>e. e\<lparr>ew_workflowExecution := None\<rparr>) s''
             else removeResponseMode (ew_executionId e) (removeActive (ew_executionId e) s''))"

section \<open>The other operations\<close>

definition attachWorkflowExecution :: "string \<Rightarrow> nat \<Rightarrow> ActiveExecutions \<Rightarrow> active_error + ActiveExecutions" where
  "attachWorkflowExecution executionId workflowExecution s =
     res_bind (getExecutionOrFail executionId s) (\<lambda>k.
       Inr (changeObject k (\<lambda>e. e\<lparr>ew_workflowExecution := Some workflowExecution\<rparr>) s))"

definition attachResponsePromise :: "string \<Rightarrow> nat \<Rightarrow> ActiveExecutions \<Rightarrow> active_error + ActiveExecutions" where
  "attachResponsePromise executionId responsePromise s =
     res_bind (getExecutionOrFail executionId s) (\<lambda>k.
       Inr (changeObject k (\<lambda>e. e\<lparr>ew_responsePromise := Some responsePromise\<rparr>) s))"

definition resolveResponsePromise :: "string \<Rightarrow> nat \<Rightarrow> ActiveExecutions \<Rightarrow> ActiveExecutions" where
  "resolveResponsePromise executionId response s =
     (case executionAt executionId s of None \<Rightarrow> s | Some e \<Rightarrow> settleResponse (ew_responsePromise e) (Response response) s)"

definition sendChunk :: "string \<Rightarrow> string \<Rightarrow> ActiveExecutions \<Rightarrow> ActiveExecutions" where
  "sendChunk executionId chunkText s =
     (case executionAt executionId s of None \<Rightarrow> s
      | Some e \<Rightarrow> (case ew_httpResponse e of None \<Rightarrow> s
          | Some r \<Rightarrow> s\<lparr>ax_chunks := ax_chunks s @ [(r, chunkText @ [CHR 0x0A])]\<rparr>))"

definition stopExecution :: "string \<Rightarrow> string \<Rightarrow> ActiveExecutions \<Rightarrow> ActiveExecutions" where
  "stopExecution executionId reason s =
     (case map_of (ax_active s) executionId of None \<Rightarrow> s
      | Some k \<Rightarrow>
          let e = ax_objects s ! k;
              s1 = s\<lparr>ax_events := ax_events s @
                [(executionId, wd_workflowId (ew_executionData e), wd_workflowName (ew_executionData e), reason)]\<rparr>;
              s2 = settleResponse (ew_responsePromise e) (ResponseRejected reason) s1
          in if ew_status e = ''waiting'' then removeResponseMode executionId (removeActive executionId s2)
             else changeObject k (settlePost (Cancelled reason))
               (case ew_workflowExecution e of None \<Rightarrow> s2 | Some w \<Rightarrow> s2\<lparr>ax_cancelled := ax_cancelled s2 @ [w]\<rparr>))"

definition finalizeExecution :: "string \<Rightarrow> nat option \<Rightarrow> ActiveExecutions \<Rightarrow> ActiveExecutions" where
  "finalizeExecution executionId fullRunData s =
     (case map_of (ax_active s) executionId of None \<Rightarrow> s
      | Some k \<Rightarrow> changeObject k (settlePost (Resolved fullRunData))
          (case wd_httpResponse (ew_executionData (ax_objects s ! k)) of None \<Rightarrow> s
           | Some r \<Rightarrow> s\<lparr>ax_ended := ax_ended s @ [r]\<rparr>))"

definition resolveExecutionResponsePromise :: "string \<Rightarrow> ActiveExecutions \<Rightarrow> ActiveExecutions" where
  "resolveExecutionResponsePromise executionId s =
     (case executionAt executionId s of None \<Rightarrow> s
      | Some e \<Rightarrow> if ew_status e \<noteq> ''waiting'' then settleResponse (ew_responsePromise e) EmptyResponse s else s)"

definition getPostExecutePromise :: "string \<Rightarrow> ActiveExecutions \<Rightarrow> active_error + PostExecute" where
  "getPostExecutePromise executionId s =
     res_bind (getExecutionOrFail executionId s) (\<lambda>k. Inr (ew_postExecutePromise (ax_objects s ! k)))"

record IExecutionsCurrentSummary =
  cs_id :: string
  cs_retryOf :: "string option"
  cs_startedAt :: nat
  cs_mode :: string
  cs_workflowId :: string
  cs_status :: string

definition getActiveExecutions :: "ActiveExecutions \<Rightarrow> IExecutionsCurrentSummary list" where
  "getActiveExecutions s =
     map (\<lambda>(executionId, k). let e = ax_objects s ! k; d = ew_executionData e in
         \<lparr>cs_id = executionId, cs_retryOf = wd_retryOf d, cs_startedAt = ew_startedAt e, cs_mode = wd_executionMode d,
          cs_workflowId = wd_workflowId d, cs_status = ew_status e\<rparr>) (ax_active s)"

definition setStatus :: "string \<Rightarrow> string \<Rightarrow> ActiveExecutions \<Rightarrow> active_error + ActiveExecutions" where
  "setStatus executionId status s =
     res_bind (getExecutionOrFail executionId s) (\<lambda>k. Inr (changeObject k (\<lambda>e. e\<lparr>ew_status := status\<rparr>) s))"

definition getStatus :: "string \<Rightarrow> ActiveExecutions \<Rightarrow> active_error + string" where
  "getStatus executionId s = res_bind (getExecutionOrFail executionId s) (\<lambda>k. Inr (ew_status (ax_objects s ! k)))"

definition setResponseMode :: "string \<Rightarrow> string \<Rightarrow> ActiveExecutions \<Rightarrow> ActiveExecutions" where
  "setResponseMode executionId responseMode s =
     s\<lparr>ax_responseModes := AList.update executionId responseMode (ax_responseModes s)\<rparr>"

definition getResponseMode :: "string \<Rightarrow> ActiveExecutions \<Rightarrow> string option" where
  "getResponseMode executionId s = map_of (ax_responseModes s) executionId"

section \<open>Shutdown\<close>

definition stopForShutdown :: "ConcurrencyConfig \<Rightarrow> bool \<Rightarrow> string \<Rightarrow> ActiveExecutions \<Rightarrow> ActiveExecutions" where
  "stopForShutdown config cancelAll executionId s =
     (if \<not> cf_queueMode config \<and> cancelAll then stopExecution executionId ''shutdown'' s
      else case executionAt executionId s of None \<Rightarrow> s
        | Some e \<Rightarrow> if ew_status e = ''waiting'' \<or> ew_status e = ''new'' then removeActive executionId s else s)"

text \<open>
  \<open>shutdown\<close> up to the loop that waits until \<open>activeExecutions\<close> is empty. The second component has the ids that \<open>removeAll\<close>
  hands to \<open>cancelMany\<close>.
\<close>

definition beginShutdown :: "ConcurrencyConfig \<Rightarrow> bool \<Rightarrow> ActiveExecutions \<Rightarrow> ActiveExecutions \<times> string list" where
  "beginShutdown config cancelAll s =
     (let s1 = (if cf_queueMode config then s else s\<lparr>ax_control := disable (ax_control s)\<rparr>);
          executionIds = map fst (ax_active s1);
          s2 = fold (stopForShutdown config cancelAll) executionIds s1;
          toCancel = (if \<not> cf_queueMode config \<and> cancelAll then executionIds else []);
          removed = removeAllExecutions (ax_control s2)
      in (fold (\<lambda>e. grant (Some e)) (snd removed) (s2\<lparr>ax_control := fst removed\<rparr>),
          if cc_isEnabled (ax_control s2) then toCancel else []))"

definition shutdownDone :: "ActiveExecutions \<Rightarrow> bool" where
  "shutdownDone s \<longleftrightarrow> ax_active s = []"

section \<open>Histories\<close>

datatype ActiveCommand =
    Add IWorkflowExecutionDataProcess "string option" string
  | Continue nat DatabaseAnswer nat
  | Callbacks nat
  | AttachExecution string nat
  | AttachResponse string nat
  | Respond string nat
  | Chunk string string
  | Stop string string
  | Finalize string "nat option"
  | CleanResponse string
  | SetStatus string string
  | SetMode string string

fun orSame :: "ActiveExecutions \<Rightarrow> 'e + ActiveExecutions \<Rightarrow> ActiveExecutions" where
  "orSame s (Inl _) = s"
| "orSame s (Inr s') = s'"

fun activeStep :: "ConcurrencyConfig \<Rightarrow> License \<Rightarrow> ActiveCommand \<Rightarrow> ActiveExecutions \<Rightarrow> ActiveExecutions" where
  "activeStep config license (Add d maybe newId) s = orSame s (addBegin config license d maybe newId s)"
| "activeStep config license (Continue i answer now) s =
     (if i < length (ax_adds s) \<and> \<not> pa_queued (ax_adds s ! i) then snd (addContinue config license i answer now s) else s)"
| "activeStep config license (Callbacks k) s =
     (if k < length (ax_objects s) \<and> ew_postExecutePromise (ax_objects s ! k) \<noteq> Unsettled \<and> \<not> ew_done (ax_objects s ! k)
      then runFinally config license k s else s)"
| "activeStep config license (AttachExecution e w) s = orSame s (attachWorkflowExecution e w s)"
| "activeStep config license (AttachResponse e p) s = orSame s (attachResponsePromise e p s)"
| "activeStep config license (Respond e r) s = resolveResponsePromise e r s"
| "activeStep config license (Chunk e t) s = sendChunk e t s"
| "activeStep config license (Stop e reason) s = stopExecution e reason s"
| "activeStep config license (Finalize e d) s = finalizeExecution e d s"
| "activeStep config license (CleanResponse e) s = resolveExecutionResponsePromise e s"
| "activeStep config license (SetStatus e st) s = orSame s (setStatus e st s)"
| "activeStep config license (SetMode e m) s = setResponseMode e m s"

inductive active_reaches :: "ConcurrencyConfig \<Rightarrow> License \<Rightarrow> ActiveExecutions \<Rightarrow> bool"
  for config :: ConcurrencyConfig and license :: License where
  start: "newConcurrencyControl config = Inr c \<Longrightarrow> active_reaches config license (newActiveExecutions c)"
| step: "active_reaches config license s \<Longrightarrow> active_reaches config license (activeStep config license cmd s)"

section \<open>Capacity is held until the end\<close>

text \<open>What reservations take from the queues.\<close>

definition token :: "ConcurrencyControl \<Rightarrow> CapacityTarget option \<Rightarrow> (ConcurrencyQueueType \<times> string) list" where
  "token c r = (case r of None \<Rightarrow> [] | Some (m, e) \<Rightarrow> (case counted c m of None \<Rightarrow> [] | Some ty \<Rightarrow> [(ty, e)]))"

definition tokens :: "ConcurrencyControl \<Rightarrow> CapacityTarget option list \<Rightarrow> (ConcurrencyQueueType \<times> string) list" where
  "tokens c rs = concat (map (token c) rs)"

lemma tokens_simps [simp]:
  "tokens c [] = []" "tokens c (r # rs) = token c r @ tokens c rs" "tokens c (rs @ rs') = tokens c rs @ tokens c rs'"
  by (simp_all add: tokens_def)

lemma running_count_append [simp]: "running_count (xs @ ys) ty = running_count xs ty + running_count ys ty"
  by (simp add: running_count_def)

lemma token_None [simp]: "token c None = []"
  by (simp add: token_def)

definition target_ok :: "ConcurrencyControl \<Rightarrow> CapacityTarget option \<Rightarrow> bool" where
  "target_ok c r \<longleftrightarrow>
     (case r of None \<Rightarrow> True | Some (m, e) \<Rightarrow> m \<noteq> ''evaluation'' \<and> (cc_isEnabled c \<longrightarrow> (\<exists>t. queueTypeOf m = Inr t)))"

definition pending_ok :: "ConcurrencyControl \<Rightarrow> PendingAdd \<Rightarrow> bool" where
  "pending_ok c p \<longleftrightarrow> target_ok c (pa_reservation p) \<and>
     (pa_queued p \<longrightarrow> counted c (wd_executionMode (pa_data p)) = Some Production) \<and>
     pa_reservation p = (if pa_queued p \<or> wd_executionMode (pa_data p) = ''evaluation'' then None
       else Some (wd_executionMode (pa_data p), pa_executionId p))"

definition queued_ids :: "PendingAdd list \<Rightarrow> string list" where
  "queued_ids adds = map pa_executionId (filter pa_queued adds)"

text \<open>The calls that wait are those in the production queue, and the reservations are what its capacity went to.\<close>

definition capacity_ok :: "ConcurrencyControl \<Rightarrow> PendingAdd list \<Rightarrow> CapacityTarget option list \<Rightarrow> bool" where
  "capacity_ok c adds rs \<longleftrightarrow>
     control_ok c (tokens c (map pa_reservation adds @ rs)) \<and>
     (\<forall>ty q. map_of (cc_queues c) ty = Some q \<longrightarrow> q_queue q = (if ty = Production then queued_ids adds else [])) \<and>
     list_all (pending_ok c) adds \<and> list_all (target_ok c) rs"

lemma capacity_okD:
  assumes "capacity_ok c adds rs"
  shows "control_ok c (tokens c (map pa_reservation adds @ rs))"
    and "map_of (cc_queues c) ty = Some q \<Longrightarrow> q_queue q = (if ty = Production then queued_ids adds else [])"
    and "list_all (pending_ok c) adds" and "list_all (target_ok c) rs"
  using assms unfolding capacity_ok_def by blast+

lemma control_ok_cong:
  assumes "\<And>ty. running_count running ty = running_count running' ty"
  shows "control_ok c running \<longleftrightarrow> control_ok c running'"
  using assms by (simp add: control_ok_def)

lemma running_count_tokens: "running_count (tokens c rs) ty = (\<Sum>r\<leftarrow>rs. running_count (token c r) ty)"
  by (induction rs) simp_all

lemma capacity_ok_perm:
  assumes "mset rs = mset rs'"
  shows "capacity_ok c adds rs \<longleftrightarrow> capacity_ok c adds rs'"
proof -
  have "running_count (tokens c rs) ty = running_count (tokens c rs') ty" for ty
    unfolding running_count_tokens using arg_cong [OF assms, of "\<lambda>M. \<Sum>r\<in>#M. running_count (token c r) ty"]
    by (simp flip: sum_mset_sum_list)
  then have "control_ok c (tokens c (map pa_reservation adds @ rs)) \<longleftrightarrow> control_ok c (tokens c (map pa_reservation adds @ rs'))"
    by (intro control_ok_cong) simp
  moreover have "set rs = set rs'" using assms by (rule mset_eq_setD)
  ultimately show ?thesis by (simp add: capacity_ok_def list_all_iff)
qed

lemma capacity_ok_None [simp]: "capacity_ok c adds (None # rs) \<longleftrightarrow> capacity_ok c adds rs"
  by (simp add: capacity_ok_def target_ok_def)

lemma split_at: "i < length xs \<Longrightarrow> \<exists>ys zs. xs = ys @ xs ! i # zs \<and> take i xs = ys \<and> drop (Suc i) xs = zs \<and> (\<forall>v. xs[i := v] = ys @ v # zs)"
  by (rule exI [where x = "take i xs"], rule exI [where x = "drop (Suc i) xs"]) (simp add: id_take_nth_drop upd_conv_take_nth_drop)

text \<open>A call that does not wait can leave the list, if its reservation stays.\<close>

lemma capacity_ok_move:
  assumes "capacity_ok c (ps @ p # qs) rs" and "\<not> pa_queued p"
  shows "capacity_ok c (ps @ qs) (pa_reservation p # rs)"
proof -
  have "control_ok c (tokens c (map pa_reservation (ps @ qs) @ pa_reservation p # rs))"
    using capacity_okD(1) [OF assms(1)] by (rule control_ok_cong [THEN iffD1, rotated]) simp
  moreover have same: "queued_ids (ps @ p # qs) = queued_ids (ps @ qs)" using assms(2) by (simp add: queued_ids_def)
  moreover have "list_all (target_ok c) (pa_reservation p # rs)" "list_all (pending_ok c) (ps @ qs)"
    using capacity_okD(3,4) [OF assms(1)] pending_ok_def [of c p]
    unfolding list_all_append list.pred_inject(2) by blast+
  ultimately show ?thesis unfolding capacity_ok_def using assms(1) [unfolded capacity_ok_def same] by blast
qed

text \<open>An operation on the queue of a mode other than evaluation.\<close>

lemma queueTypeOf_cases:
  assumes "mode \<noteq> ''evaluation''"
  obtains "queueTypeOf mode = Inl (UnknownExecutionModeError mode)" | "queueTypeOf mode = Inr None"
    | "queueTypeOf mode = Inr (Some Production)"
proof -
  have "queueTypeOf mode \<in> {Inl (UnknownExecutionModeError mode), Inr None, Inr (Some Production)}"
    using assms by (simp add: queueTypeOf_def)
  then show thesis using that by blast
qed

lemma withQueue_plain:
  assumes ok: "control_ok c running" and mode: "mode \<noteq> ''evaluation''"
  obtains e where "cc_isEnabled c" "queueTypeOf mode = Inl e" "withQueue config license mode operation unlimited c = Inl e"
  | "counted c mode = None" "cc_isEnabled c \<longrightarrow> (\<exists>t. queueTypeOf mode = Inr t)"
    "withQueue config license mode operation unlimited c = Inr (c, unlimited)"
  | q where "counted c mode = Some Production" "queueTypeOf mode = Inr (Some Production)" "map_of (cc_queues c) Production = Some q"
    "withQueue config license mode operation unlimited c =
       Inr (c\<lparr>cc_queues := AList.update Production (fst (operation q)) (cc_queues c)\<rparr>, snd (operation q))"
proof (cases "cc_isEnabled c")
  case False
  then have "cc_queues c = []" using control_okD(1) [OF ok] by simp
  with False mode show thesis by (intro that(2)) (auto simp: counted_def withQueue_def split: sum.splits option.splits)
next
  case True
  from mode show thesis
  proof (cases rule: queueTypeOf_cases)
    case 1
    with True mode show thesis by (intro that(1)) (simp_all add: withQueue_def)
  next
    case 2
    with True mode show thesis by (intro that(2)) (simp_all add: withQueue_def counted_def)
  next
    case 3
    with True mode show thesis
      by (cases "map_of (cc_queues c) Production") (auto intro: that(2,3) simp: withQueue_def counted_def)
  qed
qed

lemma counted_update:
  "map_of (cc_queues c) ty = Some q \<Longrightarrow> counted (c\<lparr>cc_queues := AList.update ty q' (cc_queues c)\<rparr>) = counted c"
  by (auto simp: counted_def fun_eq_iff update_conv' split: sum.splits option.splits)

lemma checks_update:
  assumes "map_of (cc_queues c) ty = Some q"
  shows "tokens (c\<lparr>cc_queues := AList.update ty q' (cc_queues c)\<rparr>) = tokens c"
    and "target_ok (c\<lparr>cc_queues := AList.update ty q' (cc_queues c)\<rparr>) = target_ok c"
    and "pending_ok (c\<lparr>cc_queues := AList.update ty q' (cc_queues c)\<rparr>) = pending_ok c"
proof -
  note same = counted_update [OF assms, of q']
  show "tokens (c\<lparr>cc_queues := AList.update ty q' (cc_queues c)\<rparr>) = tokens c"
    by (simp add: fun_eq_iff tokens_def token_def [abs_def] same)
  show target: "target_ok (c\<lparr>cc_queues := AList.update ty q' (cc_queues c)\<rparr>) = target_ok c"
    by (simp add: fun_eq_iff target_ok_def split: option.split)
  show "pending_ok (c\<lparr>cc_queues := AList.update ty q' (cc_queues c)\<rparr>) = pending_ok c"
    by (simp only: fun_eq_iff pending_ok_def same target) simp
qed

lemma capacity_ok_reserve:
  assumes ok: "capacity_ok c adds rs" and mode: "wd_executionMode (pa_data p) \<noteq> ''evaluation''"
    and res: "reserve config license (wd_executionMode (pa_data p), pa_executionId p) None c = Inr (c', acquired)"
    and p: "pa_reservation p = acquired" "pa_queued p \<longleftrightarrow> acquired = None"
  shows "capacity_ok c' (adds @ [p]) rs"
proof -
  let ?mode = "wd_executionMode (pa_data p)" and ?id = "pa_executionId p"
  note okc = capacity_okD(1) [OF ok]
  from res obtain admitted where run: "withQueue config license ?mode (queueEnqueue ?id) True c = Inr (c', admitted)"
    and acq: "acquired = (if admitted then Some (?mode, ?id) else None)"
    by (auto simp: reserve_def throttle_def res_bind_Inr_iff)
  from okc mode show ?thesis
  proof (cases rule: withQueue_plain [where operation = "queueEnqueue ?id" and unlimited = True and config = config and license = license])
    case 1
    with run show ?thesis by simp
  next
    case 2
    with run acq have same: "c' = c" and a: "acquired = Some (?mode, ?id)" by auto
    from 2(1) have "token c acquired = []" by (simp add: a token_def)
    with ok 2(2) mode p show ?thesis
      by (simp add: capacity_ok_def same a pending_ok_def target_ok_def queued_ids_def)
  next
    case (3 q)
    let ?q = "fst (queueEnqueue ?id q)"
    have c': "c' = c\<lparr>cc_queues := AList.update Production ?q (cc_queues c)\<rparr>" and adm: "admitted = snd (queueEnqueue ?id q)"
      using run 3(4) by simp_all
    note upd = checks_update [OF 3(3), of ?q, folded c'] and cnt = counted_update [OF 3(3), of ?q, folded c']
    have tok: "running_count (token c acquired) ty = (if admitted \<and> ty = Production then 1 else 0)" for ty
      by (simp add: token_def acq 3(1))
    have "control_ok c' (tokens c (map pa_reservation (adds @ [p]) @ rs))"
    proof (rule withQueue_ok [OF okc run])
      fix ty u limit assume ty: "counted c' ?mode = Some ty" and r: "admitted = snd (queueEnqueue ?id u)"
        and b: "balanced limit (q_capacity u) (running_count (tokens c (map pa_reservation adds @ rs)) ty) (length (q_queue u))"
      from ty have "ty = Production" by (simp add: cnt 3(1))
      then show "balanced limit (q_capacity (fst (queueEnqueue ?id u)))
          (running_count (tokens c (map pa_reservation (adds @ [p]) @ rs)) ty) (length (q_queue (fst (queueEnqueue ?id u))))"
        using execution_queue.enq_balanced [OF b, of ?id] by (simp add: p tok r split: if_splits)
    qed (simp add: cnt 3(1) p tok)
    moreover have "q_queue u = (if ty = Production then queued_ids (adds @ [p]) else [])" if "map_of (cc_queues c') ty = Some u" for ty u
      using that capacity_okD(2) [OF ok 3(3)] capacity_okD(2) [OF ok, of ty u] adm
      by (auto simp: c' update_conv' queued_ids_def p acq queueEnqueue_def Let_def split: if_splits)
    moreover have "pending_ok c p" using mode by (auto simp: pending_ok_def target_ok_def p acq 3(1,2))
    ultimately show ?thesis using capacity_okD(3,4) [OF ok] by (simp add: capacity_ok_def upd)
  qed
qed

lemma grantTo_append: "list_all (\<lambda>p. \<not> pa_queued p) ps \<Longrightarrow> grantTo e (ps @ qs) = ps @ grantTo e qs"
  by (induction ps) simp_all

lemma queued_ids_Cons:
  assumes "queued_ids adds = e # es"
  obtains ps p qs where "adds = ps @ p # qs" "pa_queued p" "pa_executionId p = e"
    "grantTo e adds = ps @ p\<lparr>pa_queued := False, pa_reservation := Some (wd_executionMode (pa_data p), e)\<rparr> # qs"
    "queued_ids (grantTo e adds) = es"
proof -
  from assms obtain p rest where f: "filter pa_queued adds = p # rest" and e: "pa_executionId p = e" "es = map pa_executionId rest"
    by (auto simp: queued_ids_def)
  from filter_eq_ConsD [OF f] obtain ps qs where s: "adds = ps @ p # qs" "\<forall>u \<in> set ps. \<not> pa_queued u" "pa_queued p"
      "rest = filter pa_queued qs" by blast
  have "grantTo e adds = ps @ p\<lparr>pa_queued := False, pa_reservation := Some (wd_executionMode (pa_data p), e)\<rparr> # qs"
    unfolding s(1) using s(2,3) e(1) by (simp add: grantTo_append list_all_iff)
  moreover from this have "queued_ids (grantTo e adds) = es" using s(2,4) e(2) by (simp add: queued_ids_def)
  ultimately show thesis using that s(1,3) e(1) by blast
qed

definition grantOpt :: "string option \<Rightarrow> PendingAdd list \<Rightarrow> PendingAdd list" where
  "grantOpt released adds = (case released of None \<Rightarrow> adds | Some e \<Rightarrow> grantTo e adds)"

lemma capacity_ok_release:
  assumes ok: "capacity_ok c adds (r # rs)"
  shows "\<exists>c' released. releaseReservation config license r c = Inr (c', None, released) \<and> capacity_ok c' (grantOpt released adds) rs"
proof (cases r)
  case None
  with ok show ?thesis by (simp add: releaseReservation_def grantOpt_def)
next
  case (Some target)
  obtain m e where r: "r = Some (m, e)" using Some by (cases target) simp
  note okc = capacity_okD(1) [OF ok]
  from capacity_okD(4) [OF ok] r have m: "m \<noteq> ''evaluation''" and known: "cc_isEnabled c \<Longrightarrow> \<exists>t. queueTypeOf m = Inr t"
    by (auto simp: target_ok_def)
  from okc m show ?thesis
  proof (cases rule: withQueue_plain [where operation = queueDequeue and unlimited = None and config = config and license = license])
    case 1
    with known show ?thesis by auto
  next
    case 2
    then have "token c r = []" by (simp add: token_def r)
    with ok have "capacity_ok c adds rs" by (simp add: capacity_ok_def)
    with 2(3) show ?thesis by (simp add: releaseReservation_def release_def r grantOpt_def)
  next
    case (3 q)
    let ?q = "fst (queueDequeue q)" and ?rel = "snd (queueDequeue q)"
    define c' where c': "c' = c\<lparr>cc_queues := AList.update Production ?q (cc_queues c)\<rparr>"
    note upd = checks_update [OF 3(3), of ?q, folded c'] and cnt = counted_update [OF 3(3), of ?q, folded c']
    have run: "withQueue config license m queueDequeue None c = Inr (c', ?rel)" using 3(4) by (simp add: c')
    have q: "q_queue q = queued_ids adds" using capacity_okD(2) [OF ok 3(3)] by simp
    have tok: "running_count (token c r) ty = (if ty = Production then 1 else 0)" for ty by (simp add: token_def r 3(1))
    have rel: "?rel = (case queued_ids adds of [] \<Rightarrow> None | e # _ \<Rightarrow> Some e)" and rest: "q_queue ?q = tl (queued_ids adds)"
      using q by (simp_all add: queueDequeue_def)
    have grant: "list_all (pending_ok c) (grantOpt ?rel adds) \<and> queued_ids (grantOpt ?rel adds) = tl (queued_ids adds) \<and>
        running_count (tokens c (map pa_reservation (grantOpt ?rel adds))) ty =
        running_count (tokens c (map pa_reservation adds)) ty + (if ?rel \<noteq> None \<and> ty = Production then 1 else 0)" for ty
    proof (cases "queued_ids adds")
      case Nil
      with rel capacity_okD(3) [OF ok] show ?thesis by (simp add: grantOpt_def)
    next
      case (Cons e' es)
      then obtain ps p qs where g: "adds = ps @ p # qs" "pa_queued p" "pa_executionId p = e'"
        "grantTo e' adds = ps @ p\<lparr>pa_queued := False, pa_reservation := Some (wd_executionMode (pa_data p), e')\<rparr> # qs"
        "queued_ids (grantTo e' adds) = es" by (rule queued_ids_Cons)
      have rel': "?rel = Some e'" using rel Cons by simp
      from capacity_okD(3) [OF ok] have p: "pending_ok c p" by (simp add: g(1))
      then have cp: "counted c (wd_executionMode (pa_data p)) = Some Production" and none: "pa_reservation p = None"
        using g(2) by (auto simp: pending_ok_def)
      from cp have known: "queueTypeOf (wd_executionMode (pa_data p)) = Inr (Some Production)"
        by (auto simp: counted_def split: sum.splits option.splits if_splits)
      then have mode: "wd_executionMode (pa_data p) \<noteq> ''evaluation''" by (auto simp: queueTypeOf_def)
      have "pending_ok c (p\<lparr>pa_queued := False, pa_reservation := Some (wd_executionMode (pa_data p), e')\<rparr>)"
        using mode known g(3) by (simp add: pending_ok_def target_ok_def)
      then have "list_all (pending_ok c) (grantTo e' adds)" using capacity_okD(3) [OF ok] by (simp add: g(1) g(4) [unfolded g(1)])
      moreover have "running_count (tokens c (map pa_reservation (grantTo e' adds))) ty =
          running_count (tokens c (map pa_reservation adds)) ty + (if ty = Production then 1 else 0)"
        unfolding g(4) by (simp add: g(1) none token_def cp)
      ultimately show ?thesis using g(5) Cons by (simp add: grantOpt_def rel')
    qed
    have "control_ok c' (tokens c (map pa_reservation (grantOpt ?rel adds) @ rs))"
    proof (rule withQueue_ok [OF okc run])
      fix ty u limit assume ty: "counted c' m = Some ty" and r': "?rel = snd (queueDequeue u)"
        and b: "balanced limit (q_capacity u) (running_count (tokens c (map pa_reservation adds @ r # rs)) ty) (length (q_queue u))"
      from ty have p: "ty = Production" by (simp add: cnt 3(1))
      then have "running_count (tokens c (map pa_reservation adds @ r # rs)) ty > 0" by (simp add: tok)
      from execution_queue.deq_balanced [OF b this] grant [of ty] p
      show "balanced limit (q_capacity (fst (queueDequeue u)))
          (running_count (tokens c (map pa_reservation (grantOpt ?rel adds) @ rs)) ty) (length (q_queue (fst (queueDequeue u))))"
        by (cases "snd (queueDequeue u)") (simp_all add: tok r')
    next
      fix ty assume "counted c' m \<noteq> Some ty"
      then show "running_count (tokens c (map pa_reservation (grantOpt ?rel adds) @ rs)) ty =
          running_count (tokens c (map pa_reservation adds @ r # rs)) ty"
        using grant [of ty] by (auto simp: cnt 3(1) tok)
    qed
    moreover have "q_queue u = (if ty = Production then queued_ids (grantOpt ?rel adds) else [])"
      if "map_of (cc_queues c') ty = Some u" for ty u
      using that rest grant [of ty] capacity_okD(2) [OF ok, of ty u] by (auto simp: c' update_conv' split: if_splits)
    ultimately have "capacity_ok c' (grantOpt ?rel adds) rs"
      using grant capacity_okD(4) [OF ok] by (simp add: capacity_ok_def upd)
    with run show ?thesis by (simp add: releaseReservation_def release_def r)
  qed
qed

section \<open>The invariant of the executions\<close>

definition object_ok :: "IExecutingWorkflowData \<Rightarrow> bool" where
  "object_ok e \<longleftrightarrow>
     ew_reservation e = (if ew_done e \<or> wd_executionMode (ew_executionData e) = ''evaluation'' then None
       else Some (wd_executionMode (ew_executionData e), ew_executionId e))"

definition active_ok :: "ActiveExecutions \<Rightarrow> bool" where
  "active_ok s \<longleftrightarrow>
     capacity_ok (ax_control s) (ax_adds s) (map ew_reservation (ax_objects s)) \<and> list_all object_ok (ax_objects s) \<and>
     (\<forall>executionId k. map_of (ax_active s) executionId = Some k \<longrightarrow>
        k < length (ax_objects s) \<and> ew_executionId (ax_objects s ! k) = executionId)"

lemma active_okD:
  assumes "active_ok s"
  shows "capacity_ok (ax_control s) (ax_adds s) (map ew_reservation (ax_objects s))"
    and "list_all object_ok (ax_objects s)"
    and "map_of (ax_active s) executionId = Some k \<Longrightarrow> k < length (ax_objects s) \<and> ew_executionId (ax_objects s ! k) = executionId"
  using assms unfolding active_ok_def by blast+

text \<open>Most operations leave capacity alone, and who holds it.\<close>

definition same_hold :: "IExecutingWorkflowData \<Rightarrow> IExecutingWorkflowData \<Rightarrow> bool" where
  "same_hold e e' \<longleftrightarrow> ew_reservation e' = ew_reservation e \<and> ew_done e' = ew_done e \<and>
     ew_executionId e' = ew_executionId e \<and> ew_executionData e' = ew_executionData e"

definition frame :: "ActiveExecutions \<Rightarrow> ActiveExecutions \<Rightarrow> bool" where
  "frame s s' \<longleftrightarrow> ax_control s' = ax_control s \<and> ax_adds s' = ax_adds s \<and>
     list_all2 same_hold (ax_objects s) (ax_objects s') \<and>
     (\<forall>e k. map_of (ax_active s') e = Some k \<longrightarrow> map_of (ax_active s) e = Some k)"

lemma same_hold_refl [simp]: "same_hold e e"
  by (simp add: same_hold_def)

lemma same_hold_trans: "same_hold a b \<Longrightarrow> same_hold b c \<Longrightarrow> same_hold a c"
  by (simp add: same_hold_def)

lemma frame_refl [simp]: "frame s s"
  by (simp add: frame_def list.rel_refl)

lemma frame_trans: "frame s t \<Longrightarrow> frame t u \<Longrightarrow> frame s u"
proof -
  assume s: "frame s t" and t: "frame t u"
  have "list_all2 same_hold (ax_objects s) (ax_objects u)"
    by (rule list_all2_trans [of same_hold same_hold same_hold _ "ax_objects t"], rule same_hold_trans) (use s t in \<open>simp_all add: frame_def\<close>)
  with s t show "frame s u" by (simp add: frame_def)
qed

lemma frame_fields:
  "ax_control s' = ax_control s \<Longrightarrow> ax_adds s' = ax_adds s \<Longrightarrow> ax_objects s' = ax_objects s \<Longrightarrow> ax_active s' = ax_active s \<Longrightarrow> frame s s'"
  by (simp add: frame_def list.rel_refl)

lemma frame_change: "(\<And>e. same_hold e (f e)) \<Longrightarrow> frame s (changeObject k f s)"
proof -
  assume f: "\<And>e. same_hold e (f e)"
  have "same_hold (xs ! i) (xs[k := f (xs ! k)] ! i)" if "i < length xs" for xs i
    using f that by (cases "i = k") simp_all
  then show ?thesis by (simp add: frame_def changeObject_def list_all2_conv_all_nth)
qed

lemma frame_removeActive: "frame s (removeActive e s)"
  by (simp add: frame_def removeActive_def delete_conv' list.rel_refl)

lemma frame_removeResponseMode: "frame s (removeResponseMode e s)"
  by (simp add: frame_fields removeResponseMode_def)

lemma frame_settleResponse: "frame s (settleResponse p outcome s)"
  by (cases p) (simp_all add: settleResponse_def frame_fields)

lemma same_hold_settlePost: "same_hold e (settlePost outcome e)"
  by (simp add: settlePost_def same_hold_def)

definition objects_ok :: "ActiveExecutions \<Rightarrow> bool" where
  "objects_ok s \<longleftrightarrow> list_all object_ok (ax_objects s) \<and>
     (\<forall>executionId k. map_of (ax_active s) executionId = Some k \<longrightarrow>
        k < length (ax_objects s) \<and> ew_executionId (ax_objects s ! k) = executionId)"

lemma active_ok_objects:
  "active_ok s \<longleftrightarrow> capacity_ok (ax_control s) (ax_adds s) (map ew_reservation (ax_objects s)) \<and> objects_ok s"
  by (simp add: active_ok_def objects_ok_def)

lemma frame_objects:
  assumes ok: "objects_ok s" and f: "frame s s'"
  shows "objects_ok s' \<and> map ew_reservation (ax_objects s') = map ew_reservation (ax_objects s)"
proof -
  from f have len: "length (ax_objects s') = length (ax_objects s)"
    and nth: "\<And>k. k < length (ax_objects s) \<Longrightarrow> same_hold (ax_objects s ! k) (ax_objects s' ! k)"
    and act: "\<And>e k. map_of (ax_active s') e = Some k \<Longrightarrow> map_of (ax_active s) e = Some k"
    by (simp_all add: frame_def list_all2_conv_all_nth)
  have "map ew_reservation (ax_objects s') = map ew_reservation (ax_objects s)"
    using nth by (simp add: list_eq_iff_nth_eq len same_hold_def)
  moreover have "object_ok (ax_objects s' ! k)" if "k < length (ax_objects s)" for k
    using ok nth [OF that] that by (simp add: objects_ok_def list_all_length object_ok_def same_hold_def)
  moreover have "k < length (ax_objects s') \<and> ew_executionId (ax_objects s' ! k) = e" if "map_of (ax_active s') e = Some k" for e k
    using ok act [OF that] nth [of k] by (simp add: objects_ok_def len same_hold_def)
  ultimately show ?thesis by (simp add: objects_ok_def list_all_length len)
qed

lemma frame_ok: "active_ok s \<Longrightarrow> frame s s' \<Longrightarrow> active_ok s'"
  using frame_objects [of s s'] by (simp add: active_ok_objects frame_def)

text \<open>The steps that do not touch capacity.\<close>

lemma stop_frame: "frame s (stopExecution e reason s)"
proof (cases "map_of (ax_active s) e")
  case (Some k)
  let ?x = "ax_objects s ! k"
  let ?s1 = "s\<lparr>ax_events := ax_events s @ [(e, wd_workflowId (ew_executionData ?x), wd_workflowName (ew_executionData ?x), reason)]\<rparr>"
  let ?s2 = "settleResponse (ew_responsePromise ?x) (ResponseRejected reason) ?s1"
  have s2: "frame s ?s2" by (rule frame_trans [OF _ frame_settleResponse]) (simp add: frame_fields)
  have w: "frame s (case ew_workflowExecution ?x of None \<Rightarrow> ?s2 | Some w \<Rightarrow> ?s2\<lparr>ax_cancelled := ax_cancelled ?s2 @ [w]\<rparr>)"
    using s2 by (cases "ew_workflowExecution ?x") (simp_all add: frame_def)
  have r: "frame s (removeResponseMode e (removeActive e ?s2))"
    by (rule frame_trans [OF frame_trans [OF s2 frame_removeActive] frame_removeResponseMode])
  show ?thesis
    using r frame_trans [OF w frame_change [OF same_hold_settlePost]] by (simp add: stopExecution_def Some Let_def)
qed (simp add: stopExecution_def)

lemma finalize_frame: "frame s (finalizeExecution e d s)"
proof (cases "map_of (ax_active s) e")
  case (Some k)
  have "frame s (case wd_httpResponse (ew_executionData (ax_objects s ! k)) of None \<Rightarrow> s | Some r \<Rightarrow> s\<lparr>ax_ended := ax_ended s @ [r]\<rparr>)"
    by (cases "wd_httpResponse (ew_executionData (ax_objects s ! k))") (simp_all add: frame_fields)
  then show ?thesis unfolding finalizeExecution_def Some option.case by (rule frame_trans [OF _ frame_change [OF same_hold_settlePost]])
qed (simp add: finalizeExecution_def)

definition changesNoCapacity :: "ActiveCommand \<Rightarrow> bool" where
  "changesNoCapacity cmd \<longleftrightarrow> (case cmd of Add _ _ _ \<Rightarrow> False | Continue _ _ _ \<Rightarrow> False | Callbacks _ \<Rightarrow> False | _ \<Rightarrow> True)"

lemma step_frame:
  assumes "changesNoCapacity cmd"
  shows "frame s (activeStep config license cmd s)"
proof (cases cmd)
  case (AttachExecution e w)
  show ?thesis unfolding AttachExecution activeStep.simps attachWorkflowExecution_def
    by (cases "getExecutionOrFail e s") (simp_all add: frame_change same_hold_def)
next
  case (AttachResponse e p)
  show ?thesis unfolding AttachResponse activeStep.simps attachResponsePromise_def
    by (cases "getExecutionOrFail e s") (simp_all add: frame_change same_hold_def)
next
  case (Respond e r)
  then show ?thesis by (cases "executionAt e s") (simp_all add: resolveResponsePromise_def frame_settleResponse)
next
  case (Chunk e t)
  then show ?thesis by (auto simp: sendChunk_def frame_fields split: option.split)
next
  case (CleanResponse e)
  then show ?thesis by (cases "executionAt e s") (simp_all add: resolveExecutionResponsePromise_def frame_settleResponse)
next
  case (SetStatus e st)
  show ?thesis unfolding SetStatus activeStep.simps setStatus_def
    by (cases "getExecutionOrFail e s") (simp_all add: frame_change same_hold_def)
next
  case (SetMode e m)
  then show ?thesis by (simp add: setResponseMode_def frame_fields)
qed (use assms in \<open>simp_all add: changesNoCapacity_def stop_frame finalize_frame\<close>)

text \<open>The steps that do.\<close>

lemma addBegin_ok:
  assumes ok: "active_ok s" and run: "addBegin config license d maybe newId s = Inr s'"
  shows "active_ok s'"
proof -
  let ?id = "case maybe of None \<Rightarrow> newId | Some e \<Rightarrow> e"
  let ?p = "\<lparr>pa_data = d, pa_executionId = ?id, pa_resume = (maybe \<noteq> None), pa_reservation = None, pa_queued = False\<rparr>"
  show ?thesis
  proof (cases "wd_executionMode d = ''evaluation''")
    case True
    then have s': "s' = s\<lparr>ax_adds := ax_adds s @ [?p]\<rparr>" using run by (simp add: addBegin_def Let_def split: if_splits)
    have "pending_ok (ax_control s) ?p" using True by (simp add: pending_ok_def target_ok_def)
    then have "capacity_ok (ax_control s) (ax_adds s @ [?p]) (map ew_reservation (ax_objects s))"
      using active_okD(1) [OF ok] by (simp add: capacity_ok_def queued_ids_def)
    with ok show ?thesis by (simp add: active_ok_def s')
  next
    case False
    from run False obtain control acquired where res: "reserve config license (wd_executionMode d, ?id) None (ax_control s) = Inr (control, acquired)"
      and s': "s' = s\<lparr>ax_control := control, ax_adds := ax_adds s @ [?p\<lparr>pa_reservation := acquired, pa_queued := (acquired = None)\<rparr>]\<rparr>"
      by (auto simp: addBegin_def Let_def split: sum.splits if_splits)
    have "capacity_ok control (ax_adds s @ [?p\<lparr>pa_reservation := acquired, pa_queued := (acquired = None)\<rparr>])
        (map ew_reservation (ax_objects s))"
      by (rule capacity_ok_reserve [OF active_okD(1) [OF ok]]) (use False res in simp_all)
    with ok show ?thesis by (simp add: active_ok_def s')
  qed
qed

lemma giveBack_ok:
  assumes "capacity_ok (ax_control s) (ax_adds s) (r # rs)"
  shows "\<exists>s'. giveBack config license r s = Inr s' \<and> capacity_ok (ax_control s') (ax_adds s') rs \<and>
    ax_objects s' = ax_objects s \<and> ax_active s' = ax_active s"
proof -
  from capacity_ok_release [OF assms] obtain c' released where
    r: "releaseReservation config license r (ax_control s) = Inr (c', None, released)" "capacity_ok c' (grantOpt released (ax_adds s)) rs"
    by blast
  then show ?thesis by (cases released) (simp_all add: giveBack_def grant_def grantOpt_def)
qed

lemma addContinue_ok:
  assumes ok: "active_ok s" and i: "i < length (ax_adds s)" "\<not> pa_queued (ax_adds s ! i)"
  shows "active_ok (snd (addContinue config license i answer now s))"
proof -
  let ?p = "ax_adds s ! i" and ?rs = "map ew_reservation (ax_objects s)"
  have adds: "ax_adds s = take i (ax_adds s) @ ?p # drop (Suc i) (ax_adds s)" using i(1) by (rule id_take_nth_drop)
  have "capacity_ok (ax_control s) (take i (ax_adds s) @ ?p # drop (Suc i) (ax_adds s)) ?rs"
    by (subst adds [symmetric]) (rule active_okD(1) [OF ok])
  from capacity_ok_move [OF this i(2)]
  have cap: "capacity_ok (ax_control (dropAdd i s)) (ax_adds (dropAdd i s)) (pa_reservation ?p # ?rs)"
    by (simp add: dropAdd_def)
  show ?thesis
  proof (cases "databaseResult config answer ?p")
    case (Inl e)
    from giveBack_ok [OF cap] obtain s' where s': "giveBack config license (pa_reservation ?p) (dropAdd i s) = Inr s'"
      "capacity_ok (ax_control s') (ax_adds s') ?rs" "ax_objects s' = ax_objects s" "ax_active s' = ax_active s"
      by (auto simp: dropAdd_def)
    with ok show ?thesis by (simp add: addContinue_def Inl active_ok_def Let_def)
  next
    case (Inr u)
    have "pending_ok (ax_control s) ?p" using capacity_okD(3) [OF active_okD(1) [OF ok]] i(1) by (simp add: list_all_length)
    then have new: "object_ok (newExecution ?p now s)" using i(2) by (auto simp: object_ok_def newExecution_def Let_def pending_ok_def)
    have res: "ew_reservation (newExecution ?p now s) = pa_reservation ?p" "ew_executionId (newExecution ?p now s) = pa_executionId ?p"
      by (simp_all add: newExecution_def Let_def)
    have "capacity_ok (ax_control s) (ax_adds (dropAdd i s)) (?rs @ [pa_reservation ?p])"
      using cap capacity_ok_perm [of "?rs @ [pa_reservation ?p]" "pa_reservation ?p # ?rs"] by (simp add: dropAdd_def)
    moreover have "k < Suc (length (ax_objects s)) \<and> ew_executionId ((ax_objects s @ [newExecution ?p now s]) ! k) = e"
      if "map_of (AList.update (pa_executionId ?p) (length (ax_objects s)) (ax_active s)) e = Some k" for e k
      using that active_okD(3) [OF ok, of e k] by (cases "e = pa_executionId ?p") (simp_all add: update_conv' res nth_append)
    ultimately show ?thesis
      using active_okD(2) [OF ok] new by (simp add: addContinue_def Inr active_ok_def dropAdd_def res Let_def)
  qed
qed

lemma runFinally_ok:
  assumes ok: "active_ok s" and k: "k < length (ax_objects s)"
  shows "active_ok (runFinally config license k s)"
proof -
  let ?e = "ax_objects s ! k"
  let ?new = "?e\<lparr>ew_reservation := None, ew_done := True\<rparr>"
  from split_at [OF k] obtain ys zs where xs: "ax_objects s = ys @ ?e # zs" and upd: "\<And>v. (ax_objects s)[k := v] = ys @ v # zs" by blast
  let ?rs = "map ew_reservation ys @ map ew_reservation zs"
  have m: "map ew_reservation (ax_objects s) = map ew_reservation ys @ ew_reservation ?e # map ew_reservation zs"
    using arg_cong [OF xs, of "map ew_reservation"] by simp
  have "capacity_ok (ax_control s) (ax_adds s) (ew_reservation ?e # ?rs)"
    using active_okD(1) [OF ok] capacity_ok_perm [of "ew_reservation ?e # ?rs" "map ew_reservation (ax_objects s)"] by (simp add: m)
  from giveBack_ok [OF this] obtain s' where s': "giveBack config license (ew_reservation ?e) s = Inr s'"
    "capacity_ok (ax_control s') (ax_adds s') ?rs" "ax_objects s' = ax_objects s" "ax_active s' = ax_active s" by blast
  let ?s'' = "changeObject k (\<lambda>e. e\<lparr>ew_reservation := None, ew_done := True\<rparr>) s'"
  have "capacity_ok (ax_control s') (ax_adds s') (map ew_reservation ((ax_objects s)[k := ?new]))"
    using s'(2) capacity_ok_perm [of "map ew_reservation ((ax_objects s)[k := ?new])" "None # ?rs"] by (simp add: upd)
  moreover have "list_all object_ok ((ax_objects s)[k := ?new])"
    using active_okD(2) [OF ok] k by (simp add: list_all_length nth_list_update object_ok_def)
  moreover have "ew_executionId ((ax_objects s)[k := ?new] ! j) = ew_executionId (ax_objects s ! j)" for j
    using k by (cases "j = k") simp_all
  ultimately have "active_ok ?s''"
    using ok by (simp add: active_ok_def changeObject_def s'(3,4))
  moreover have "frame ?s'' (removeResponseMode (ew_executionId ?e) (removeActive (ew_executionId ?e) ?s''))"
    by (rule frame_trans [OF frame_removeActive frame_removeResponseMode])
  moreover have "frame ?s'' (changeObject k (\<lambda>e. e\<lparr>ew_workflowExecution := None\<rparr>) ?s'')"
    by (rule frame_change) (simp add: same_hold_def)
  ultimately show ?thesis by (simp add: runFinally_def Let_def s'(1) frame_ok)
qed

lemma active_reaches_ok: "active_reaches config license s \<Longrightarrow> active_ok s"
proof (induction rule: active_reaches.induct)
  case (start c)
  from newControl_ok [OF start] have ok: "control_ok c []" .
  have "q_queue q = []" if "map_of (cc_queues c) ty = Some q" for ty q
    using control_okD(2) [OF ok that] start that
    by (auto simp: newConcurrencyControl_def res_bind_Inr_iff map_of_addQueue Let_def split: if_splits)
  with ok show ?case by (simp add: active_ok_def newActiveExecutions_def capacity_ok_def queued_ids_def)
next
  case (step s cmd)
  show ?case
  proof (cases "changesNoCapacity cmd")
    case True
    from frame_ok [OF step.IH step_frame [OF this]] show ?thesis .
  next
    case False
    then consider (Add) d m n where "cmd = Add d m n" | (Continue) i a n where "cmd = Continue i a n" | (Callbacks) k where "cmd = Callbacks k"
      by (cases cmd) (simp_all add: changesNoCapacity_def)
    then show ?thesis
    proof cases
      case Add
      then show ?thesis using step.IH addBegin_ok [OF step.IH] by (cases "addBegin config license d m n s") simp_all
    next
      case Continue
      then show ?thesis using step.IH addContinue_ok [OF step.IH] by simp
    next
      case Callbacks
      then show ?thesis using step.IH runFinally_ok [OF step.IH] by simp
    qed
  qed
qed

section \<open>The limit over whole executions\<close>

text \<open>The executions of a kind that are not over: their promise may be settled, but its callbacks have not run.\<close>

definition inProgress :: "ConcurrencyQueueType \<Rightarrow> ActiveExecutions \<Rightarrow> IExecutingWorkflowData list" where
  "inProgress ty s =
     filter (\<lambda>e. \<not> ew_done e \<and> queueTypeOf (wd_executionMode (ew_executionData e)) = Inr (Some ty)) (ax_objects s)"

lemma inProgress_tokens:
  assumes "list_all object_ok es" and "map_of (cc_queues c) Production \<noteq> None"
  shows "length (filter (\<lambda>e. \<not> ew_done e \<and> queueTypeOf (wd_executionMode (ew_executionData e)) = Inr (Some Production)) es) \<le>
    running_count (tokens c (map ew_reservation es)) Production"
  using assms
proof (induction es)
  case (Cons e es)
  have "running_count (token c (ew_reservation e)) Production = 1"
    if "\<not> ew_done e" "queueTypeOf (wd_executionMode (ew_executionData e)) = Inr (Some Production)"
  proof -
    have "wd_executionMode (ew_executionData e) \<noteq> ''evaluation''" using that(2) by (auto simp: queueTypeOf_def)
    then have "ew_reservation e = Some (wd_executionMode (ew_executionData e), ew_executionId e)"
      using Cons.prems(1) that(1) by (simp add: object_ok_def)
    with that(2) Cons.prems(2) show ?thesis by (auto simp: token_def counted_def)
  qed
  with Cons show ?case by auto
qed simp


lemma active_reaches_fold: "active_reaches config license s \<Longrightarrow> active_reaches config license (fold (activeStep config license) cmds s)"
  by (induction cmds arbitrary: s) (simp_all add: active_reaches.step)

text \<open>A limit of one: the second execution waits until the callbacks of the first have run.\<close>

definition ex_data :: "string \<Rightarrow> IWorkflowExecutionDataProcess" where
  "ex_data mode = \<lparr>wd_executionMode = mode, wd_workflowId = ''w'', wd_workflowName = ''flow'', wd_retryOf = None, wd_httpResponse = None\<rparr>"

definition ex_running :: ActiveExecutions where
  "ex_running = fold (activeStep ex_config ex_license)
     [Add (ex_data ''webhook'') None ''1'', Continue 0 Updated 10, Add (ex_data ''trigger'') None ''2''] (newActiveExecutions (ex_control 1 []))"

lemma ex_running_reaches: "active_reaches ex_config ex_license ex_running"
  unfolding ex_running_def by (rule active_reaches_fold, rule active_reaches.start) code_simp


lemma second_runs_after_first:
  "map ew_executionId (inProgress Production (fold (activeStep ex_config ex_license)
     [Finalize ''1'' (Some 7), Callbacks 0, Continue 0 Updated 20] ex_running)) = [''2'']"
  by code_simp

section \<open>A waiting execution that is stopped\<close>

text \<open>An object that no id leads to keeps its promise.\<close>

definition orphan :: "nat \<Rightarrow> IExecutingWorkflowData \<Rightarrow> ActiveExecutions \<Rightarrow> bool" where
  "orphan k e s \<longleftrightarrow> k < length (ax_objects s) \<and> ax_objects s ! k = e \<and> ew_postExecutePromise e = Unsettled \<and>
     (\<forall>executionId. map_of (ax_active s) executionId \<noteq> Some k)"

lemma orphan_change: "orphan k e s \<Longrightarrow> j \<noteq> k \<Longrightarrow> orphan k e (changeObject j f s)"
  by (simp add: orphan_def changeObject_def)

lemma orphan_fields:
  "orphan k e s \<Longrightarrow> ax_objects s' = ax_objects s \<Longrightarrow> ax_active s' = ax_active s \<Longrightarrow> orphan k e s'"
  by (simp add: orphan_def)

lemma orphan_removeActive: "orphan k e s \<Longrightarrow> orphan k e (removeActive executionId s)"
  by (simp add: orphan_def removeActive_def delete_conv')

lemma orphan_active: "orphan k e s \<Longrightarrow> map_of (ax_active s) executionId = Some j \<Longrightarrow> j \<noteq> k"
  by (auto simp: orphan_def)

lemma settleResponse_fields [simp]:
  "ax_objects (settleResponse p outcome s) = ax_objects s" "ax_active (settleResponse p outcome s) = ax_active s"
  by (cases p; simp add: settleResponse_def)+

lemma giveBack_fields:
  "giveBack config license r s = Inr s' \<Longrightarrow> ax_objects s' = ax_objects s \<and> ax_active s' = ax_active s"
  by (auto simp: giveBack_def grant_def split: sum.splits option.splits)

lemma removeResponseMode_fields [simp]:
  "ax_objects (removeResponseMode e s) = ax_objects s" "ax_active (removeResponseMode e s) = ax_active s"
  by (simp_all add: removeResponseMode_def)

lemma orphan_stop: "orphan k e s \<Longrightarrow> orphan k e (stopExecution executionId reason s)"
proof (cases "map_of (ax_active s) executionId")
  case (Some j)
  assume o: "orphan k e s"
  let ?x = "ax_objects s ! j"
  let ?s2 = "settleResponse (ew_responsePromise ?x) (ResponseRejected reason)
    (s\<lparr>ax_events := ax_events s @ [(executionId, wd_workflowId (ew_executionData ?x), wd_workflowName (ew_executionData ?x), reason)]\<rparr>)"
  have s2: "orphan k e ?s2" by (rule orphan_fields [OF o]) simp_all
  have w: "orphan k e (case ew_workflowExecution ?x of None \<Rightarrow> ?s2 | Some w \<Rightarrow> ?s2\<lparr>ax_cancelled := ax_cancelled ?s2 @ [w]\<rparr>)"
    using s2 by (cases "ew_workflowExecution ?x") (simp_all add: orphan_def)
  have "orphan k e (removeResponseMode executionId (removeActive executionId ?s2))"
    by (rule orphan_fields [OF orphan_removeActive [OF s2]]) simp_all
  then show ?thesis
    using orphan_change [OF w orphan_active [OF o Some]] by (simp add: stopExecution_def Some Let_def)
qed (simp add: stopExecution_def)

lemma orphan_step:
  assumes o: "orphan k e s"
  shows "orphan k e (activeStep config license cmd s)"
proof -
  have found: "orphan k e (orSame s (res_bind (getExecutionOrFail executionId s) (\<lambda>j. Inr (changeObject j f s) :: active_error + ActiveExecutions)))" for executionId f
    using o orphan_active [OF o] by (simp add: getExecutionOrFail_def orphan_change split: option.split)
  have settle: "orphan k e (settleResponse p outcome s)" for p outcome by (rule orphan_fields [OF o]) simp_all
  show ?thesis
  proof (cases cmd)
    case (Add d m n)
    have "orphan k e s'" if "addBegin config license d m n s = Inr s'" for s'
      by (rule orphan_fields [OF o]) (use that in \<open>auto simp: addBegin_def Let_def split: if_splits sum.splits\<close>)
    with o show ?thesis by (cases "addBegin config license d m n s") (simp_all add: Add)
  next
    case (Continue i a n)
    let ?p = "ax_adds s ! i"
    have drop: "orphan k e (dropAdd i s)" by (rule orphan_fields [OF o]) (simp_all add: dropAdd_def)
    have "orphan k e s'" if "giveBack config license (pa_reservation ?p) (dropAdd i s) = Inr s'" for s'
      by (rule orphan_fields [OF drop]) (use giveBack_fields [OF that] in simp_all)
    moreover have "orphan k e ((dropAdd i s)\<lparr>ax_objects := ax_objects s @ [x], ax_active := AList.update (pa_executionId ?p) (length (ax_objects s)) (ax_active s)\<rparr>)" for x
      using o by (simp add: orphan_def nth_append update_conv')
    ultimately show ?thesis using o drop by (simp add: Continue addContinue_def Let_def split: sum.split)
  next
    case (Callbacks j)
    show ?thesis
    proof (cases "j < length (ax_objects s) \<and> ew_postExecutePromise (ax_objects s ! j) \<noteq> Unsettled \<and> \<not> ew_done (ax_objects s ! j)")
      case True
      then have j: "j \<noteq> k" using o by (auto simp: orphan_def)
      show ?thesis
      proof (cases "giveBack config license (ew_reservation (ax_objects s ! j)) s")
        case (Inl x)
        with True orphan_change [OF o j] show ?thesis by (simp add: Callbacks runFinally_def Let_def)
      next
        case (Inr s')
        let ?s'' = "changeObject j (\<lambda>e. e\<lparr>ew_reservation := None, ew_done := True\<rparr>) s'"
        have s'': "orphan k e ?s''"
          by (rule orphan_change [OF _ j], rule orphan_fields [OF o]) (use giveBack_fields [OF Inr] in simp_all)
        have "orphan k e (removeResponseMode executionId (removeActive executionId ?s''))" for executionId
          by (rule orphan_fields [OF orphan_removeActive [OF s'']]) simp_all
        with True orphan_change [OF s'' j] show ?thesis by (simp add: Callbacks runFinally_def Let_def Inr)
      qed
    qed (use o Callbacks in auto)
  next
    case (AttachExecution i w)
    then show ?thesis using found by (simp add: attachWorkflowExecution_def)
  next
    case (AttachResponse i p)
    then show ?thesis using found by (simp add: attachResponsePromise_def)
  next
    case (Respond i r)
    then show ?thesis using o settle by (simp add: resolveResponsePromise_def split: option.split)
  next
    case (Chunk i t)
    show ?thesis by (rule orphan_fields [OF o]) (simp_all add: Chunk sendChunk_def split: option.split)
  next
    case (Stop i r)
    then show ?thesis using orphan_stop [OF o] by simp
  next
    case (Finalize i d)
    show ?thesis
    proof (cases "map_of (ax_active s) i")
      case (Some j)
      have "orphan k e (case wd_httpResponse (ew_executionData (ax_objects s ! j)) of None \<Rightarrow> s | Some r \<Rightarrow> s\<lparr>ax_ended := ax_ended s @ [r]\<rparr>)"
        using o by (simp add: orphan_def split: option.split)
      from orphan_change [OF this orphan_active [OF o Some]] show ?thesis by (simp add: Finalize finalizeExecution_def Some)
    qed (use o Finalize in \<open>simp add: finalizeExecution_def\<close>)
  next
    case (CleanResponse i)
    then show ?thesis using o settle by (simp add: resolveExecutionResponsePromise_def split: option.split)
  next
    case (SetStatus i st)
    then show ?thesis using found by (simp add: setStatus_def)
  next
    case (SetMode i m)
    show ?thesis by (rule orphan_fields [OF o]) (simp_all add: SetMode setResponseMode_def)
  qed
qed

lemma orphan_run: "orphan k e s \<Longrightarrow> orphan k e (fold (activeStep config license) cmds s)"
  by (induction cmds arbitrary: s) (simp_all add: orphan_step)

text \<open>
  C29: when an execution is stopped after its status has become waiting and before its run has ended, its promise is left open and
  no later call finds it: whatever happens then, it keeps the capacity it has reserved.
\<close>

theorem stopped_waiting_keeps_capacity:
  assumes "active_reaches config license s" and "map_of (ax_active s) executionId = Some k"
    and "ew_status (ax_objects s ! k) = ''waiting''" and "ew_postExecutePromise (ax_objects s ! k) = Unsettled"
    and "\<not> ew_done (ax_objects s ! k)" and "wd_executionMode (ew_executionData (ax_objects s ! k)) \<noteq> ''evaluation''"
  shows "ew_reservation (ax_objects (fold (activeStep config license) cmds (stopExecution executionId reason s)) ! k) =
    Some (wd_executionMode (ew_executionData (ax_objects s ! k)), executionId)"
proof -
  let ?e = "ax_objects s ! k"
  note ok = active_reaches_ok [OF assms(1)]
  have k: "k < length (ax_objects s)" "ew_executionId ?e = executionId" using active_okD(3) [OF ok assms(2)] by simp_all
  have "map_of (AList.delete executionId (ax_active s)) i \<noteq> Some k" for i
    using active_okD(3) [OF ok, of i k] k(2) by (auto simp: delete_conv')
  then have "orphan k ?e (stopExecution executionId reason s)"
    using assms(2,3,4) k(1) by (simp add: orphan_def stopExecution_def removeActive_def Let_def)
  from orphan_run [OF this, of config license cmds] have "ax_objects (fold (activeStep config license) cmds (stopExecution executionId reason s)) ! k = ?e"
    by (simp add: orphan_def)
  moreover have "object_ok ?e" using active_okD(2) [OF ok] k(1) by (simp add: list_all_length)
  ultimately show ?thesis using assms(5,6) k(2) by (simp add: object_ok_def)
qed

text \<open>Here the execution that waits for capacity never gets it: the run of the first one ends, but nobody is told.\<close>

lemma ex_leak:
  "let s = fold (activeStep ex_config ex_license)
     [SetStatus ''1'' ''waiting'', Stop ''1'' ''manual'', Finalize ''1'' (Some 7), Callbacks 0, Continue 0 Updated 20] ex_running
   in ax_active s = [] \<and> queued_ids (ax_adds s) = [''2''] \<and> map ew_executionId (inProgress Production s) = [''1'']"
  by code_simp

theorem stopped_waiting_keeps_capacity_witness:
  "ew_reservation (ax_objects (fold (activeStep ex_config ex_license) [Finalize ''1'' (Some 7), Callbacks 0]
     (stopExecution ''1'' ''manual'' (activeStep ex_config ex_license (SetStatus ''1'' ''waiting'') ex_running))) ! 0) = Some (''webhook'', ''1'')"
proof -
  let ?s = "activeStep ex_config ex_license (SetStatus ''1'' ''waiting'') ex_running"
  have r: "active_reaches ex_config ex_license ?s" by (rule active_reaches.step [OF ex_running_reaches])
  have "map_of (ax_active ?s) ''1'' = Some 0" "ew_status (ax_objects ?s ! 0) = ''waiting''"
    "ew_postExecutePromise (ax_objects ?s ! 0) = Unsettled" "\<not> ew_done (ax_objects ?s ! 0)"
    "wd_executionMode (ew_executionData (ax_objects ?s ! 0)) = ''webhook''" by code_simp+
  with stopped_waiting_keeps_capacity [OF r, of "''1''" 0 "[Finalize ''1'' (Some 7), Callbacks 0]" "''manual''"]
  show ?thesis by simp
qed

section \<open>Shutting down\<close>

lemma frame_fold: "(\<And>x s. frame s (f x s)) \<Longrightarrow> frame s (fold f xs s)"
  by (induction xs arbitrary: s) (auto intro: frame_trans)

lemma stopForShutdown_frame: "frame s (stopForShutdown config cancelAll e s)"
  by (simp add: stopForShutdown_def stop_frame frame_removeActive split: option.split)

text \<open>In queue mode the limit is never enabled.\<close>

lemma withQueue_disabled:
  assumes "cf_queueMode config" and "\<not> cc_isEnabled c" and "withQueue config license mode operation unlimited c = Inr (c', r)"
  shows "\<not> cc_isEnabled c'"
  using assms by (auto simp: withQueue_def res_bind_Inr_iff ensureEvalQueueResolved_def split: if_splits)

lemma giveBack_disabled:
  assumes "cf_queueMode config" and "\<not> cc_isEnabled (ax_control s)" and "giveBack config license r s = Inr s'"
  shows "\<not> cc_isEnabled (ax_control s')"
proof (cases r)
  case None
  with assms show ?thesis by (simp add: giveBack_def releaseReservation_def grant_def)
next
  case (Some t)
  with assms(3) obtain released where "release config license (fst t) (ax_control s) = Inr (ax_control s', released)"
    by (auto simp: giveBack_def releaseReservation_def grant_def res_bind_Inr_iff split: sum.splits option.splits)
  then show ?thesis unfolding release_def by (rule withQueue_disabled [OF assms(1,2)])
qed

lemma queueMode_disabled: "active_reaches config license s \<Longrightarrow> cf_queueMode config \<Longrightarrow> \<not> cc_isEnabled (ax_control s)"
proof (induction rule: active_reaches.induct)
  case (start c)
  then show ?case by (auto simp: newActiveExecutions_def newConcurrencyControl_def res_bind_Inr_iff Let_def)
next
  case (step s cmd)
  then have off: "\<not> cc_isEnabled (ax_control s)" by simp
  show ?case
  proof (cases "changesNoCapacity cmd")
    case True
    from step_frame [OF this, of s config license] off show ?thesis by (simp add: frame_def)
  next
    case False
    then consider (Add) d m n where "cmd = Add d m n" | (Continue) i a n where "cmd = Continue i a n" | (Callbacks) k where "cmd = Callbacks k"
      by (cases cmd) (simp_all add: changesNoCapacity_def)
    then show ?thesis
    proof cases
      case Add
      have "\<not> cc_isEnabled c" if "reserve config license (m, e) None (ax_control s) = Inr (c, acq)" for m e c acq
      proof -
        from that obtain b where "withQueue config license m (queueEnqueue e) True (ax_control s) = Inr (c, b)"
          by (auto simp: reserve_def throttle_def res_bind_Inr_iff)
        then show ?thesis by (rule withQueue_disabled [OF step.prems off])
      qed
      with off Add show ?thesis by (auto simp: addBegin_def Let_def split: sum.split)
    next
      case Continue
      have "\<not> cc_isEnabled (ax_control s')" if "giveBack config license r (dropAdd i s) = Inr s'" for r s'
        by (rule giveBack_disabled [OF step.prems _ that]) (simp add: dropAdd_def off)
      with off Continue show ?thesis by (auto simp: addContinue_def dropAdd_def Let_def split: sum.split)
    next
      case Callbacks
      have "\<not> cc_isEnabled (ax_control s')" if "giveBack config license r s = Inr s'" for r s'
        by (rule giveBack_disabled [OF step.prems off that])
      with off Callbacks show ?thesis
        by (auto simp: runFinally_def changeObject_def removeActive_def removeResponseMode_def Let_def split: sum.split)
    qed
  qed
qed

text \<open>
  Shutting down leaves the executions that wait for capacity in their queue and marks none as cancelled in the database,
  because \<open>removeAll\<close> is called on a service that has been disabled before.
\<close>

lemma shutdown_keeps_queue:
  assumes "active_reaches config license s"
  shows "snd (beginShutdown config cancelAll s) = [] \<and>
    cc_queues (ax_control (fst (beginShutdown config cancelAll s))) = cc_queues (ax_control s) \<and>
    ax_adds (fst (beginShutdown config cancelAll s)) = ax_adds s"
proof -
  let ?s1 = "if cf_queueMode config then s else s\<lparr>ax_control := disable (ax_control s)\<rparr>"
  let ?s2 = "fold (stopForShutdown config cancelAll) (map fst (ax_active ?s1)) ?s1"
  have s1: "\<not> cc_isEnabled (ax_control ?s1)" "cc_queues (ax_control ?s1) = cc_queues (ax_control s)" "ax_adds ?s1 = ax_adds s"
    using queueMode_disabled [OF assms] by (auto simp: disable_def)
  have "frame ?s1 ?s2" by (rule frame_fold) (rule stopForShutdown_frame)
  then have s2: "ax_control ?s2 = ax_control ?s1" "ax_adds ?s2 = ax_adds ?s1" unfolding frame_def by blast+
  have "removeAllExecutions (ax_control ?s2) = (ax_control ?s2, [])" using s1(1) by (simp add: removeAllExecutions_def s2)
  then have "fst (beginShutdown config cancelAll s) = ?s2\<lparr>ax_control := ax_control ?s2\<rparr>" "snd (beginShutdown config cancelAll s) = []"
    using s1(1) s2(1) by (simp_all add: beginShutdown_def Let_def)
  then show ?thesis using s1(2,3) by (simp add: s2)
qed

lemma shutdown_keeps_queue_witness:
  "snd (beginShutdown ex_config True ex_running) = [] \<and> queued_ids (ax_adds (fst (beginShutdown ex_config True ex_running))) = [''2'']"
proof -
  have "queued_ids (ax_adds ex_running) = [''2'']" by code_simp
  with shutdown_keeps_queue [OF ex_running_reaches, of True] show ?thesis by simp
qed

text \<open>What stopping does to the objects.\<close>

lemma stop_objects:
  "map_of (ax_active s) executionId = Some k \<Longrightarrow>
   ax_objects (stopExecution executionId reason s) =
     (if ew_status (ax_objects s ! k) = ''waiting'' then ax_objects s
      else (ax_objects s)[k := settlePost (Cancelled reason) (ax_objects s ! k)]) \<and>
   ax_active (stopExecution executionId reason s) =
     (if ew_status (ax_objects s ! k) = ''waiting'' then AList.delete executionId (ax_active s) else ax_active s)"
  by (cases "ew_workflowExecution (ax_objects s ! k)") (simp_all add: stopExecution_def changeObject_def removeActive_def Let_def)

lemma settlePost_fields [simp]:
  "ew_status (settlePost outcome e) = ew_status e" "ew_postExecutePromise (settlePost outcome e) = Unsettled \<longleftrightarrow> outcome = Unsettled \<and> ew_postExecutePromise e = Unsettled"
  "ew_done (settlePost outcome e) = ew_done e"
  by (auto simp: settlePost_def)

text \<open>An entry that has been stopped will end, or has gone.\<close>

definition ending :: "string set \<Rightarrow> ActiveExecutions \<Rightarrow> bool" where
  "ending ids s \<longleftrightarrow> (\<forall>e k. map_of (ax_active s) e = Some k \<longrightarrow> k < length (ax_objects s) \<and>
     (ew_done (ax_objects s ! k) \<longrightarrow> ew_status (ax_objects s ! k) = ''waiting'') \<and>
     (e \<in> ids \<longrightarrow> ew_postExecutePromise (ax_objects s ! k) \<noteq> Unsettled \<and> ew_status (ax_objects s ! k) \<noteq> ''waiting''))"

lemma stop_ending:
  assumes "ending ids s"
  shows "ending (insert executionId ids) (stopExecution executionId reason s)"
proof (cases "map_of (ax_active s) executionId")
  case None
  with assms show ?thesis by (auto simp: ending_def stopExecution_def)
next
  case (Some k)
  note st = stop_objects [OF Some, of reason]
  show ?thesis
  proof (cases "ew_status (ax_objects s ! k) = ''waiting''")
    case True
    with assms st show ?thesis by (simp add: ending_def delete_conv')
  next
    case False
    have "ew_postExecutePromise ((ax_objects s)[k := settlePost (Cancelled reason) (ax_objects s ! k)] ! j) = Unsettled \<longleftrightarrow>
        j \<noteq> k \<and> ew_postExecutePromise (ax_objects s ! j) = Unsettled"
      "ew_status ((ax_objects s)[k := settlePost (Cancelled reason) (ax_objects s ! k)] ! j) = ew_status (ax_objects s ! j)"
      "ew_done ((ax_objects s)[k := settlePost (Cancelled reason) (ax_objects s ! k)] ! j) = ew_done (ax_objects s ! j)" if "k < length (ax_objects s)" for j
      using that by (cases "j = k"; simp)+
    with assms st False Some show ?thesis unfolding ending_def by simp
  qed
qed

lemma stops_ending: "ending ids s \<Longrightarrow> ending (set es \<union> ids) (fold (\<lambda>e. stopExecution e reason) es s)"
proof (induction es arbitrary: ids s)
  case (Cons e es)
  from Cons.IH [OF stop_ending [OF Cons.prems, of e reason]] show ?case by simp
qed simp

text \<open>The callbacks of the executions that are left empty the map.\<close>

definition draining :: "nat set \<Rightarrow> ActiveExecutions \<Rightarrow> bool" where
  "draining ks s \<longleftrightarrow> \<not> cc_isEnabled (ax_control s) \<and> list_all object_ok (ax_objects s) \<and>
     (\<forall>e k. map_of (ax_active s) e = Some k \<longrightarrow> k \<in> ks \<and> k < length (ax_objects s) \<and> ew_executionId (ax_objects s ! k) = e \<and>
        ew_postExecutePromise (ax_objects s ! k) \<noteq> Unsettled \<and> \<not> ew_done (ax_objects s ! k) \<and>
        ew_status (ax_objects s ! k) \<noteq> ''waiting'')"

lemma draining_update:
  assumes d: "draining (insert k ks) s" and s': "ax_control s' = ax_control s" "ax_objects s' = (ax_objects s)[k := x]"
    and x: "object_ok x" and act: "\<And>e j. map_of (ax_active s') e = Some j \<Longrightarrow> map_of (ax_active s) e = Some j \<and> j \<noteq> k"
  shows "draining ks s'"
proof -
  have "list_all object_ok (ax_objects s')"
    using d x by (auto simp: draining_def s' list_all_iff dest: set_update_subset_insert [THEN subsetD])
  moreover have "j \<in> ks \<and> j < length (ax_objects s') \<and> ew_executionId (ax_objects s' ! j) = e \<and>
      ew_postExecutePromise (ax_objects s' ! j) \<noteq> Unsettled \<and> \<not> ew_done (ax_objects s' ! j) \<and> ew_status (ax_objects s' ! j) \<noteq> ''waiting''"
    if "map_of (ax_active s') e = Some j" for e j
  proof -
    from act [OF that] have j: "map_of (ax_active s) e = Some j" "j \<noteq> k" by blast+
    with d have "j \<in> ks" unfolding draining_def by blast
    with d j show ?thesis by (simp add: draining_def s')
  qed
  ultimately show ?thesis using d by (simp add: draining_def s')
qed

lemma callbacks_draining:
  assumes d: "draining (insert k ks) s"
  shows "draining ks (activeStep config license (Callbacks k) s)"
proof (cases "k < length (ax_objects s) \<and> ew_postExecutePromise (ax_objects s ! k) \<noteq> Unsettled \<and> \<not> ew_done (ax_objects s ! k)")
  case False
  then have "map_of (ax_active s) e \<noteq> Some k" for e using d unfolding draining_def by blast
  then have "draining ks s" using d unfolding draining_def by blast
  with False show ?thesis by auto
next
  case True
  let ?e = "ax_objects s ! k"
  let ?new = "?e\<lparr>ew_reservation := None, ew_done := True\<rparr>"
  have ok: "object_ok ?e" using d True by (simp add: draining_def list_all_length)
  have off: "\<not> cc_isEnabled (ax_control s)" using d by (simp add: draining_def)
  have given: "giveBack config license (ew_reservation ?e) s = Inr s"
  proof (cases "ew_reservation ?e")
    case None
    then show ?thesis by (simp add: giveBack_def releaseReservation_def grant_def)
  next
    case (Some t)
    with ok have "fst t \<noteq> ''evaluation''" by (auto simp: object_ok_def split: if_splits)
    with off Some show ?thesis by (simp add: giveBack_def releaseReservation_def release_def withQueue_def grant_def)
  qed
  have step: "activeStep config license (Callbacks k) s = runFinally config license k s" using True by simp
  show ?thesis
  proof (cases "ew_status ?e = ''waiting''")
    case waiting: True
    then have none: "map_of (ax_active s) e \<noteq> Some k" for e using d unfolding draining_def by blast
    show ?thesis unfolding step
    proof (rule draining_update [OF d, where x = "?new\<lparr>ew_workflowExecution := None\<rparr>"])
      fix e j assume "map_of (ax_active (runFinally config license k s)) e = Some j"
      then have "map_of (ax_active s) e = Some j" by (simp add: runFinally_def given waiting changeObject_def Let_def)
      with none show "map_of (ax_active s) e = Some j \<and> j \<noteq> k" by blast
    qed (use True in \<open>simp_all add: runFinally_def given waiting changeObject_def Let_def object_ok_def\<close>)
  next
    case False
    show ?thesis unfolding step
    proof (rule draining_update [OF d, where x = ?new])
      fix e j assume "map_of (ax_active (runFinally config license k s)) e = Some j"
      then have e: "e \<noteq> ew_executionId ?e" "map_of (ax_active s) e = Some j"
        by (auto simp: runFinally_def given False changeObject_def Let_def removeActive_def removeResponseMode_def delete_conv' split: if_splits)
      from e(2) d have "ew_executionId (ax_objects s ! j) = e" by (simp add: draining_def)
      with e show "map_of (ax_active s) e = Some j \<and> j \<noteq> k" by blast
    qed (use True False in \<open>simp_all add: runFinally_def given changeObject_def Let_def removeActive_def removeResponseMode_def object_ok_def\<close>)
  qed
qed

lemma callbacks_drain: "draining (set ks) s \<Longrightarrow> shutdownDone (fold (\<lambda>k. activeStep config license (Callbacks k)) ks s)"
proof (induction ks arbitrary: s)
  case Nil
  then have none: "map_of (ax_active s) e = None" for e unfolding draining_def by (cases "map_of (ax_active s) e") auto
  from none [of "fst (hd (ax_active s))"] have "ax_active s = []" by (cases "ax_active s") auto
  then show ?case by (simp add: shutdownDone_def)
next
  case (Cons k ks)
  from Cons.IH [OF callbacks_draining [of k "set ks"]] Cons.prems show ?case by simp
qed

text \<open>
  C20: shutting down with all executions cancelled ends: what is left of the active executions is gone when the callbacks of their
  promises have run. An entry whose callbacks had run before must be waiting; every entry is, unless the status is changed from
  waiting afterwards.
\<close>

theorem shutdown_finishes:
  assumes "active_reaches config license s" and "\<not> cf_queueMode config"
    and "\<forall>e k. map_of (ax_active s) e = Some k \<longrightarrow> ew_done (ax_objects s ! k) \<longrightarrow> ew_status (ax_objects s ! k) = ''waiting''"
  shows "shutdownDone (fold (\<lambda>k. activeStep config license (Callbacks k))
    (map snd (ax_active (fst (beginShutdown config True s)))) (fst (beginShutdown config True s)))"
proof -
  let ?s1 = "s\<lparr>ax_control := disable (ax_control s)\<rparr>"
  let ?ids = "map fst (ax_active s)"
  let ?s2 = "fold (\<lambda>e. stopExecution e ''shutdown'') ?ids ?s1"
  have "stopForShutdown config True = (\<lambda>e. stopExecution e ''shutdown'')"
    using assms(2) by (simp add: fun_eq_iff stopForShutdown_def)
  moreover have frame: "frame ?s1 ?s2" by (rule frame_fold) (rule stop_frame)
  then have off: "ax_control ?s2 = disable (ax_control s)" by (simp add: frame_def)
  then have "removeAllExecutions (ax_control ?s2) = (ax_control ?s2, [])" by (simp add: removeAllExecutions_def disable_def)
  ultimately have s': "fst (beginShutdown config True s) = ?s2" using assms(2) by (simp add: beginShutdown_def Let_def)
  have "objects_ok s" using active_reaches_ok [OF assms(1)] by (simp add: active_ok_objects)
  then have "objects_ok ?s1" by (simp add: objects_ok_def)
  with frame have objs: "objects_ok ?s2" using frame_objects by blast
  have "ending {} ?s1" using assms(3) \<open>objects_ok s\<close> by (simp add: ending_def objects_ok_def)
  from stops_ending [OF this, of ?ids] have ending: "ending (set ?ids) ?s2" by simp
  have "e \<in> set ?ids" if "map_of (ax_active ?s2) e = Some k" for e k
  proof -
    from frame that have "map_of (ax_active s) e = Some k" by (simp add: frame_def)
    from map_of_SomeD [OF this] show ?thesis by force
  qed
  moreover have "k \<in> set (map snd (ax_active ?s2))" if "map_of (ax_active ?s2) e = Some k" for e k
    using map_of_SomeD [OF that] by force
  ultimately have "k \<in> set (map snd (ax_active ?s2)) \<and> k < length (ax_objects ?s2) \<and> ew_executionId (ax_objects ?s2 ! k) = e \<and>
      ew_postExecutePromise (ax_objects ?s2 ! k) \<noteq> Unsettled \<and> \<not> ew_done (ax_objects ?s2 ! k) \<and>
      ew_status (ax_objects ?s2 ! k) \<noteq> ''waiting''" if "map_of (ax_active ?s2) e = Some k" for e k
    using that objs ending unfolding objects_ok_def ending_def by blast
  moreover have "\<not> cc_isEnabled (ax_control ?s2)" unfolding off by (simp add: disable_def)
  ultimately have "draining (set (map snd (ax_active ?s2))) ?s2"
    using objs unfolding draining_def objects_ok_def by blast
  then show ?thesis unfolding s' by (rule callbacks_drain)
qed

theorem shutdown_finishes_witness:
  "ax_active ex_running \<noteq> [] \<and> shutdownDone (fold (\<lambda>k. activeStep ex_config ex_license (Callbacks k))
    (map snd (ax_active (fst (beginShutdown ex_config True ex_running)))) (fst (beginShutdown ex_config True ex_running)))"
proof -
  have "ax_active ex_running = [(''1'', 0)]" "\<not> ew_done (ax_objects ex_running ! 0)" "\<not> cf_queueMode ex_config" by code_simp+
  with shutdown_finishes [OF ex_running_reaches] show ?thesis by simp
qed

end
