(* ===== verification/Parameter_Order.thy ===== *)
theory Parameter_Order
  imports N8n_Types
begin

text \<open>
  The order in which the parameters of a node are worked on: \<open>getParameterDependencies\<close> and \<open>getParameterResolveOrder\<close> of
  \<open>packages/workflow/src/node-helpers.ts\<close>, with the descriptions of parameters they read.
\<close>

section \<open>Descriptions of parameters\<close>

text \<open>A condition compares with a value, or is an object with the only key \<open>_cnd\<close>, whose first key and value are kept.\<close>

datatype DisplayCondition = Value json | Cnd string json

text \<open>Keys are \<open>show\<close> and \<open>hide\<close>, in the order of the description.\<close>

type_synonym IDisplayOptions = "(string, (string, DisplayCondition list) dict) dict"

text \<open>
  \<open>np_multipleValues\<close> is \<open>typeOptions?.multipleValues\<close>. The options of a collection are parameters, those of a fixed collection
  have a name and parameters.
\<close>

datatype INodeProperties = INodeProperties
  (np_name: string)
  (np_type: string)
  (np_default: json)
  (np_multipleValues: "bool option")
  (np_displayOptions: "IDisplayOptions option")
  (np_noDataExpression: bool)
  (np_options: "INodeProperties list")
  (np_collections: "(string \<times> INodeProperties list) list")

lemma size_option: "q \<in> set (np_options p) \<Longrightarrow> size q < size p"
  by (cases p) (auto dest: size_list_estimation' [where f = size, OF _ order_refl])

lemma size_collection: "c \<in> set (np_collections p) \<Longrightarrow> size_list size (snd c) < size p"
  by (cases p, cases c) (auto dest!: size_list_estimation' [where f = "size_prod (\<lambda>_. 0) (size_list size)", OF _ order_refl])

section \<open>Dependencies\<close>

type_synonym IParameterDependencies = "(string, string list) dict"

definition startsWithChar :: "char \<Rightarrow> string \<Rightarrow> bool" where
  "startsWithChar c s \<longleftrightarrow> s \<noteq> [] \<and> hd s = c"

definition addDependency :: "string \<Rightarrow> string \<Rightarrow> IParameterDependencies \<Rightarrow> IParameterDependencies" where
  "addDependency name parameterName dependencies =
     (case map_of dependencies name of None \<Rightarrow> dependencies
      | Some known \<Rightarrow>
          if parameterName \<in> set known \<or> startsWithChar (CHR ''@'') parameterName then dependencies
          else obj_set name (known @ [parameterName]) dependencies)"

definition ruleNames :: "INodeProperties \<Rightarrow> string list" where
  "ruleNames p = (case np_displayOptions p of None \<Rightarrow> [] | Some rules \<Rightarrow> concat (map (\<lambda>(_, rule). map fst rule) rules))"

definition addDependencies :: "INodeProperties \<Rightarrow> IParameterDependencies \<Rightarrow> IParameterDependencies" where
  "addDependencies p dependencies =
     fold (addDependency (np_name p)) (ruleNames p)
       (if map_of dependencies (np_name p) = None then obj_set (np_name p) [] dependencies else dependencies)"

definition getParameterDependencies :: "INodeProperties list \<Rightarrow> IParameterDependencies" where
  "getParameterDependencies nodePropertiesArray = fold addDependencies nodePropertiesArray []"

section \<open>The order\<close>

record ResolveState =
  rs_executionOrder :: "nat list"
  rs_indexToResolve :: "nat list"
  rs_resolvedParameters :: "string list"
  rs_lastIndexLength :: int
  rs_lastIndexReduction :: int
  rs_iterations :: int

definition isRootPath :: "string \<Rightarrow> bool" where
  "isRootPath = startsWithChar (CHR ''/'')"

text \<open>The dependencies for which the index is put back; the loop over them does not leave the turn.\<close>

definition missingDependencies :: "string list \<Rightarrow> string list \<Rightarrow> string list" where
  "missingDependencies resolvedParameters = filter (\<lambda>d. d \<notin> set resolvedParameters \<and> \<not> isRootPath d)"

definition unresolvable :: js_error where
  "unresolvable = UserError (''Could not resolve parameter dependencies. Max iterations reached! Hint: If `displayOptions` are specified in any child parameter '' @
     ''of a parent `collection` or `fixedCollection`, remove the `displayOptions` from the child parameter.'')"

text \<open>One turn of the loop, for the index it takes from the front.\<close>

definition resolveTurn ::
    "string list \<Rightarrow> IParameterDependencies \<Rightarrow> nat \<Rightarrow> nat list \<Rightarrow> ResolveState \<Rightarrow> ResolveState result" where
  "resolveTurn names dependencies index rest s =
     (if index \<ge> length names then Inl TypeError
      else case map_of dependencies (names ! index) of None \<Rightarrow> Inl TypeError
      | Some ds \<Rightarrow>
          let iterations = rs_iterations s + 1;
              added = s\<lparr>rs_executionOrder := rs_executionOrder s @ [index],
                rs_resolvedParameters := rs_resolvedParameters s @ [names ! index], rs_iterations := iterations\<rparr>;
              queue = rest @ replicate (length (missingDependencies (rs_resolvedParameters s) ds)) index;
              reduction = (if int (length queue) < rs_lastIndexLength s then iterations else rs_lastIndexReduction s)
          in if ds = [] then Inr (added\<lparr>rs_indexToResolve := rest\<rparr>)
             else if iterations > reduction + int (length names) then Inl unresolvable
             else Inr (added\<lparr>rs_indexToResolve := queue, rs_lastIndexReduction := reduction, rs_lastIndexLength := int (length queue)\<rparr>))"

text \<open>The loop ends: names are resolved, indices that are complete leave, and the others cannot go round more than once.\<close>

definition incomplete :: "string list \<Rightarrow> IParameterDependencies \<Rightarrow> string list \<Rightarrow> nat \<Rightarrow> bool" where
  "incomplete names dependencies resolved index \<longleftrightarrow>
     (case map_of dependencies (names ! index) of None \<Rightarrow> False | Some ds \<Rightarrow> missingDependencies resolved ds \<noteq> [])"

definition unresolvedNames :: "string list \<Rightarrow> ResolveState \<Rightarrow> string set" where
  "unresolvedNames names s = (\<lambda>i. names ! i) ` set (rs_indexToResolve s) - set (rs_resolvedParameters s)"

definition firstUnresolved :: "string list \<Rightarrow> ResolveState \<Rightarrow> nat" where
  "firstUnresolved names s =
     (if unresolvedNames names s = {} then 0
      else length (takeWhile (\<lambda>i. names ! i \<in> set (rs_resolvedParameters s)) (rs_indexToResolve s)))"

definition completeLeft :: "string list \<Rightarrow> IParameterDependencies \<Rightarrow> ResolveState \<Rightarrow> nat" where
  "completeLeft names dependencies s =
     (if unresolvedNames names s = {}
      then length (filter (\<lambda>i. \<not> incomplete names dependencies (rs_resolvedParameters s) i) (rs_indexToResolve s)) else 0)"

definition resolveMeasures :: "(string list \<times> IParameterDependencies \<times> ResolveState \<Rightarrow> nat) list" where
  "resolveMeasures =
     [\<lambda>(names, dependencies, s). card (unresolvedNames names s),
      \<lambda>(names, dependencies, s). firstUnresolved names s,
      \<lambda>(names, dependencies, s). completeLeft names dependencies s,
      \<lambda>(names, dependencies, s). if int (length (rs_indexToResolve s)) < rs_lastIndexLength s then 1 else 0,
      \<lambda>(names, dependencies, s). nat (rs_lastIndexReduction s + int (length names) + 1 - rs_iterations s)]"

lemma resolveTurn_less:
  assumes q: "rs_indexToResolve s = index # rest" and t: "resolveTurn names dependencies index rest s = Inr s'"
  shows "((names, dependencies, s'), (names, dependencies, s)) \<in> measures resolveMeasures"
proof -
  let ?res = "rs_resolvedParameters s"
  from t obtain ds where i: "index < length names" and ds: "map_of dependencies (names ! index) = Some ds"
    by (auto simp: resolveTurn_def split: if_splits option.splits)
  let ?m = "missingDependencies ?res ds"
  have q': "rs_indexToResolve s' = rest @ replicate (length ?m) index" and res': "rs_resolvedParameters s' = ?res @ [names ! index]"
    and it: "rs_iterations s' = rs_iterations s + 1"
    using t i ds by (auto simp: resolveTurn_def Let_def missingDependencies_def split: if_splits)
  have names': "unresolvedNames names s' = unresolvedNames names s - {names ! index}"
    by (auto simp: unresolvedNames_def q q' res')
  have fin: "finite (unresolvedNames names s)" by (simp add: unresolvedNames_def)
  show ?thesis
  proof (cases "names ! index \<in> set ?res")
    case False
    then have "names ! index \<in> unresolvedNames names s" by (simp add: unresolvedNames_def q)
    with fin names' have "card (unresolvedNames names s') < card (unresolvedNames names s)"
      by (metis card_Diff1_less)
    then show ?thesis by (simp add: resolveMeasures_def)
  next
    case True
    then have same: "unresolvedNames names s' = unresolvedNames names s" using names' by (auto simp: unresolvedNames_def)
    have set': "set (rs_resolvedParameters s') = set ?res" using True by (auto simp: res')
    show ?thesis
    proof (cases "unresolvedNames names s = {}")
      case False
      then obtain j where j: "j \<in> set rest" "names ! j \<notin> set ?res" using True by (auto simp: unresolvedNames_def q)
      have "takeWhile (\<lambda>i. names ! i \<in> set ?res) (rest @ xs) = takeWhile (\<lambda>i. names ! i \<in> set ?res) rest" for xs
        by (rule takeWhile_append1 [OF j(1)]) (rule j(2))
      then have "firstUnresolved names s' < firstUnresolved names s"
        using False True by (simp add: firstUnresolved_def same set' q q')
      with same show ?thesis by (simp add: resolveMeasures_def)
    next
      case settled: True
      then have fst: "firstUnresolved names s' = 0" "firstUnresolved names s = 0" by (simp_all add: firstUnresolved_def same)
      have inc: "incomplete names dependencies (rs_resolvedParameters s') = incomplete names dependencies ?res"
      proof -
        have m: "missingDependencies (rs_resolvedParameters s') = missingDependencies ?res"
          by (simp add: fun_eq_iff missingDependencies_def set')
        show ?thesis by (rule ext) (simp only: incomplete_def m)
      qed
      show ?thesis
      proof (cases "?m = []")
        case True
        then have "completeLeft names dependencies s' < completeLeft names dependencies s"
          using settled same by (simp add: completeLeft_def inc q q' incomplete_def ds)
        with same fst show ?thesis by (simp add: resolveMeasures_def)
      next
        case False
        then have comp: "completeLeft names dependencies s' = completeLeft names dependencies s"
          using settled same by (simp add: completeLeft_def inc q q' incomplete_def ds filter_replicate)
        have ne: "ds \<noteq> []" using False by (auto simp: missingDependencies_def)
        let ?queue = "rest @ replicate (length ?m) index"
        let ?red = "if int (length ?queue) < rs_lastIndexLength s then rs_iterations s + 1 else rs_lastIndexReduction s"
        have len: "rs_lastIndexLength s' = int (length (rs_indexToResolve s'))" and red: "rs_lastIndexReduction s' = ?red"
          and ok: "rs_iterations s + 1 \<le> ?red + int (length names)"
          using t i ds ne by (auto simp: resolveTurn_def Let_def q' split: if_splits)
        have longer: "length ?queue \<ge> length (index # rest)" using False by (cases ?m) simp_all
        show ?thesis
        proof (cases "int (length (rs_indexToResolve s)) < rs_lastIndexLength s")
          case True
          with same fst comp len show ?thesis by (simp add: resolveMeasures_def)
        next
          case no: False
          then have "\<not> int (length ?queue) < rs_lastIndexLength s" using longer q by simp
          then have "rs_lastIndexReduction s' = rs_lastIndexReduction s" "rs_iterations s + 1 \<le> rs_lastIndexReduction s + int (length names)"
            using red ok by simp_all
          with same fst comp len no it show ?thesis by (simp add: resolveMeasures_def)
        qed
      qed
    qed
  qed
qed

function resolveLoop :: "string list \<Rightarrow> IParameterDependencies \<Rightarrow> ResolveState \<Rightarrow> nat list result" where
  "resolveLoop names dependencies s =
     (case rs_indexToResolve s of [] \<Rightarrow> Inr (rs_executionOrder s)
      | index # rest \<Rightarrow> (case resolveTurn names dependencies index rest s of Inl e \<Rightarrow> Inl e
          | Inr s' \<Rightarrow> resolveLoop names dependencies s'))"
  by pat_completeness auto
termination
  by (relation "measures resolveMeasures") (simp, rule resolveTurn_less)

declare resolveLoop.simps [simp del]

definition startResolve :: "nat \<Rightarrow> ResolveState" where
  "startResolve n =
     \<lparr>rs_executionOrder = [], rs_indexToResolve = [0..<n], rs_resolvedParameters = [], rs_lastIndexLength = int n,
      rs_lastIndexReduction = -1, rs_iterations = 0\<rparr>"

definition getParameterResolveOrder :: "INodeProperties list \<Rightarrow> IParameterDependencies \<Rightarrow> nat list result" where
  "getParameterResolveOrder nodePropertiesArray parameterDependencies =
     resolveLoop (map np_name nodePropertiesArray) parameterDependencies (startResolve (length nodePropertiesArray))"

section \<open>What the dependencies are\<close>

lemma addDependency_map_of:
  "map_of (addDependency name d deps) k =
     (if k = name then map_option (\<lambda>ds. if d \<in> set ds \<or> startsWithChar (CHR ''@'') d then ds else ds @ [d]) (map_of deps name)
      else map_of deps k)"
  by (auto simp: addDependency_def map_of_obj_set split: option.split)

lemma addDependency_fold:
  "map_of deps name = Some ds \<Longrightarrow>
   \<exists>ds'. map_of (fold (addDependency name) xs deps) name = Some ds' \<and>
     set ds' = set ds \<union> {d \<in> set xs. \<not> startsWithChar (CHR ''@'') d} \<and>
     (\<forall>k. k \<noteq> name \<longrightarrow> map_of (fold (addDependency name) xs deps) k = map_of deps k)"
proof (induction xs arbitrary: deps ds)
  case (Cons x xs)
  let ?ds = "if x \<in> set ds \<or> startsWithChar (CHR ''@'') x then ds else ds @ [x]"
  have "map_of (addDependency name x deps) name = Some ?ds" by (simp add: addDependency_map_of Cons.prems)
  from Cons.IH [OF this] show ?case by (auto simp: addDependency_map_of)
qed simp

text \<open>The parameters on which those with a name depend.\<close>

definition dependsOn :: "INodeProperties list \<Rightarrow> string \<Rightarrow> string set" where
  "dependsOn props name = {d. \<exists>p \<in> set props. np_name p = name \<and> d \<in> set (ruleNames p) \<and> \<not> startsWithChar (CHR ''@'') d}"

definition depsMatch :: "INodeProperties list \<Rightarrow> IParameterDependencies \<Rightarrow> bool" where
  "depsMatch props deps \<longleftrightarrow> (\<forall>name.
     (if name \<in> np_name ` set props then \<exists>ds. map_of deps name = Some ds \<and> set ds = dependsOn props name
      else map_of deps name = None))"

lemma depsMatchD:
  assumes "depsMatch props deps"
  shows "name \<in> np_name ` set props \<Longrightarrow> \<exists>ds. map_of deps name = Some ds \<and> set ds = dependsOn props name"
    and "name \<notin> np_name ` set props \<Longrightarrow> map_of deps name = None"
  using assms [unfolded depsMatch_def, rule_format, of name] by (simp_all only: if_True if_False)

lemma depsMatch_step:
  assumes "depsMatch props deps"
  shows "depsMatch (props @ [p]) (addDependencies p deps)"
proof -
  let ?deps = "if map_of deps (np_name p) = None then obj_set (np_name p) [] deps else deps"
  have more: "dependsOn (props @ [p]) name =
      dependsOn props name \<union> (if name = np_name p then {d \<in> set (ruleNames p). \<not> startsWithChar (CHR ''@'') d} else {})" for name
    by (auto simp: dependsOn_def)
  have none: "dependsOn props name = {}" if "name \<notin> np_name ` set props" for name
    using that by (auto simp: dependsOn_def)
  obtain ds where ds: "map_of ?deps (np_name p) = Some ds" "set ds = dependsOn props (np_name p)"
  proof (cases "map_of deps (np_name p)")
    case None
    then have "np_name p \<notin> np_name ` set props" using depsMatchD(1) [OF assms, of "np_name p"] by auto
    with none None show thesis by (intro that [of "[]"]) (simp_all add: map_of_obj_set)
  next
    case (Some ds)
    then have "np_name p \<in> np_name ` set props" using depsMatchD(2) [OF assms, of "np_name p"] by auto
    from depsMatchD(1) [OF assms this] Some have "set ds = dependsOn props (np_name p)" by auto
    with Some show thesis by (intro that [of ds]) simp_all
  qed
  have other: "map_of ?deps k = map_of deps k" if "k \<noteq> np_name p" for k using that by (simp add: map_of_obj_set)
  from addDependency_fold [OF ds(1), of "ruleNames p"] obtain ds' where
    ds': "map_of (addDependencies p deps) (np_name p) = Some ds'"
      "set ds' = dependsOn (props @ [p]) (np_name p)" "\<And>k. k \<noteq> np_name p \<Longrightarrow> map_of (addDependencies p deps) k = map_of deps k"
    unfolding addDependencies_def more using ds(2) other by auto
  show ?thesis
    unfolding depsMatch_def
  proof
    fix name
    show "if name \<in> np_name ` set (props @ [p])
      then \<exists>ds. map_of (addDependencies p deps) name = Some ds \<and> set ds = dependsOn (props @ [p]) name
      else map_of (addDependencies p deps) name = None"
    proof (cases "name = np_name p")
      case True
      with ds' show ?thesis by simp
    next
      case False
      with assms [unfolded depsMatch_def, rule_format, of name] ds'(3) show ?thesis by (simp add: more)
    qed
  qed
qed

lemma getParameterDependencies_match: "depsMatch props (getParameterDependencies props)"
proof (induction props rule: rev_induct)
  case Nil
  then show ?case by (simp add: getParameterDependencies_def depsMatch_def)
next
  case (snoc p props)
  from depsMatch_step [OF this, of p] show ?case by (simp add: getParameterDependencies_def)
qed

section \<open>When an order is found\<close>

text \<open>In every state the names of the indices in the order are resolved, and an index that is not to be resolved again was complete the last time.\<close>

definition lastComplete :: "string list \<Rightarrow> IParameterDependencies \<Rightarrow> nat list \<Rightarrow> nat \<Rightarrow> bool" where
  "lastComplete names deps order i \<longleftrightarrow>
     (\<exists>xs ys. order = xs @ i # ys \<and> i \<notin> set ys \<and> (\<forall>ds. map_of deps (names ! i) = Some ds \<longrightarrow>
        (\<forall>d \<in> set ds. isRootPath d \<or> d \<in> (\<lambda>j. names ! j) ` set xs)))"

definition orderInv :: "string list \<Rightarrow> IParameterDependencies \<Rightarrow> ResolveState \<Rightarrow> bool" where
  "orderInv names deps s \<longleftrightarrow> rs_resolvedParameters s = map (\<lambda>i. names ! i) (rs_executionOrder s) \<and>
     set (rs_executionOrder s) \<union> set (rs_indexToResolve s) = {..<length names} \<and>
     (\<forall>i < length names. i \<in> set (rs_indexToResolve s) \<or> lastComplete names deps (rs_executionOrder s) i)"

lemma lastComplete_snoc: "lastComplete names deps order i \<Longrightarrow> j \<noteq> i \<Longrightarrow> lastComplete names deps (order @ [j]) i"
  unfolding lastComplete_def by (elim exE conjE) (rule exI, rule_tac x = "ys @ [j]" in exI, simp)

lemma resolveTurn_fields:
  assumes "resolveTurn names deps index rest s = Inr s'"
  obtains ds where "index < length names" "map_of deps (names ! index) = Some ds"
    "rs_executionOrder s' = rs_executionOrder s @ [index]" "rs_resolvedParameters s' = rs_resolvedParameters s @ [names ! index]"
    "rs_indexToResolve s' = rest @ replicate (length (missingDependencies (rs_resolvedParameters s) ds)) index"
    "rs_iterations s' = rs_iterations s + 1"
  using assms that by (auto simp: resolveTurn_def Let_def missingDependencies_def split: if_splits option.splits)

lemma orderInv_step:
  assumes inv: "orderInv names deps s" and q: "rs_indexToResolve s = index # rest" and t: "resolveTurn names deps index rest s = Inr s'"
  shows "orderInv names deps s'"
proof -
  from t obtain ds where f: "index < length names" "map_of deps (names ! index) = Some ds"
    "rs_executionOrder s' = rs_executionOrder s @ [index]" "rs_resolvedParameters s' = rs_resolvedParameters s @ [names ! index]"
    "rs_indexToResolve s' = rest @ replicate (length (missingDependencies (rs_resolvedParameters s) ds)) index"
    by (rule resolveTurn_fields)
  have "i \<in> set (rs_indexToResolve s') \<or> lastComplete names deps (rs_executionOrder s') i" if "i < length names" for i
  proof (cases "i = index")
    case True
    show ?thesis
    proof (cases "missingDependencies (rs_resolvedParameters s) ds = []")
      case True
      then have "\<forall>d \<in> set ds. isRootPath d \<or> d \<in> (\<lambda>j. names ! j) ` set (rs_executionOrder s)"
        using inv by (auto simp: missingDependencies_def filter_empty_conv orderInv_def)
      then have "lastComplete names deps (rs_executionOrder s') i"
        unfolding lastComplete_def f(3) \<open>i = index\<close> by (intro exI [of _ "rs_executionOrder s"] exI [of _ "[]"]) (simp add: f(2))
      then show ?thesis ..
    qed (simp add: f(5) True)
  next
    case False
    with inv that q have "i \<in> set rest \<or> lastComplete names deps (rs_executionOrder s) i" by (auto simp: orderInv_def)
    with lastComplete_snoc [of names deps "rs_executionOrder s" i index] False show ?thesis by (auto simp: f(3,5))
  qed
  moreover have "set (rs_executionOrder s') \<union> set (rs_indexToResolve s') = {..<length names}"
    using inv f(1) q by (auto simp: orderInv_def f(3,5))
  ultimately show ?thesis using inv by (simp add: orderInv_def f(3,4))
qed

lemma resolveLoop_order:
  "resolveLoop names deps s = Inr order \<Longrightarrow> orderInv names deps s \<Longrightarrow>
   set order = {..<length names} \<and> (\<forall>i < length names. lastComplete names deps order i)"
proof (induction names deps s rule: resolveLoop.induct)
  case (1 names deps s)
  show ?case
  proof (cases "rs_indexToResolve s")
    case Nil
    with 1(2) have "order = rs_executionOrder s" by (simp add: resolveLoop.simps [of names deps s])
    with 1(3) Nil show ?thesis by (simp add: orderInv_def)
  next
    case (Cons index rest)
    with 1(2) obtain s' where t: "resolveTurn names deps index rest s = Inr s'" and r: "resolveLoop names deps s' = Inr order"
      by (auto simp: resolveLoop.simps [of names deps s] split: sum.splits)
    from 1(1) [OF Cons t r orderInv_step [OF 1(3) Cons t]] show ?thesis .
  qed
qed

text \<open>An index that can never be complete stays, so the loop ends with the error.\<close>

lemma resolveLoop_stuck:
  assumes "i < length names" and "map_of deps (names ! i) = Some ds" and "d \<in> set ds" and "\<not> isRootPath d" and "d \<notin> set names"
    and "i \<in> set (rs_indexToResolve s)" and "set (rs_resolvedParameters s) \<subseteq> set names"
  shows "resolveLoop names deps s \<noteq> Inr order"
  using assms
proof (induction names deps s rule: resolveLoop.induct)
  case (1 names deps s)
  obtain index rest where q: "rs_indexToResolve s = index # rest" using 1(7) by (cases "rs_indexToResolve s") auto
  show ?case
  proof (cases "resolveTurn names deps index rest s")
    case (Inl e)
    then show ?thesis by (simp add: resolveLoop.simps [of names deps s] q)
  next
    case (Inr s')
    from Inr obtain es where f: "index < length names" "map_of deps (names ! index) = Some es"
      "rs_resolvedParameters s' = rs_resolvedParameters s @ [names ! index]"
      "rs_indexToResolve s' = rest @ replicate (length (missingDependencies (rs_resolvedParameters s) es)) index"
      by (rule resolveTurn_fields)
    have "i \<in> set (rs_indexToResolve s')"
    proof (cases "i = index")
      case True
      with 1(3) f(2) have "es = ds" by simp
      with 1(4,5,6,8) have "d \<in> set (missingDependencies (rs_resolvedParameters s) es)" by (auto simp: missingDependencies_def)
      then have "missingDependencies (rs_resolvedParameters s) es \<noteq> []" by auto
      with True show ?thesis by (simp add: f(4))
    next
      case False
      with 1(7) q show ?thesis by (simp add: f(4))
    qed
    moreover have "set (rs_resolvedParameters s') \<subseteq> set names" using 1(8) f(1) by (simp add: f(3))
    ultimately have "resolveLoop names deps s' \<noteq> Inr order" by (rule 1(1) [OF q Inr 1(2-6)])
    then show ?thesis by (simp add: resolveLoop.simps [of names deps s] q Inr)
  qed
qed

text \<open>Otherwise it finds an order: after one round every turn is a reduction.\<close>

definition depsKnown :: "string list \<Rightarrow> IParameterDependencies \<Rightarrow> bool" where
  "depsKnown names deps \<longleftrightarrow> (\<forall>i < length names. \<exists>ds. map_of deps (names ! i) = Some ds \<and>
     (\<forall>d \<in> set ds. d \<noteq> names ! i \<and> (isRootPath d \<or> d \<in> set names)))"

definition progressInv :: "string list \<Rightarrow> ResolveState \<Rightarrow> bool" where
  "progressInv names s \<longleftrightarrow> int (length (rs_indexToResolve s)) \<le> rs_lastIndexLength s \<and> rs_lastIndexReduction s \<ge> -1 \<and>
     rs_iterations s \<ge> 0 \<and> (\<forall>i \<in> set (rs_indexToResolve s). i < length names) \<and>
     (set names \<subseteq> set (rs_resolvedParameters s) \<or>
      (\<exists>k xs. k < length names \<and> rs_iterations s = int k \<and> rs_indexToResolve s = [k..<length names] @ xs \<and>
         (\<forall>j < k. names ! j \<in> set (rs_resolvedParameters s))))"

lemma progressInv_step:
  assumes known: "depsKnown names deps" and inv: "progressInv names s" and q: "rs_indexToResolve s = index # rest"
  shows "\<exists>s'. resolveTurn names deps index rest s = Inr s' \<and> progressInv names s'"
proof -
  let ?n = "length names" and ?res = "rs_resolvedParameters s"
  have i: "index < ?n" using inv q by (simp add: progressInv_def)
  with known obtain ds where ds: "map_of deps (names ! index) = Some ds"
    and dep: "\<And>d. d \<in> set ds \<Longrightarrow> d \<noteq> names ! index \<and> (isRootPath d \<or> d \<in> set names)" unfolding depsKnown_def by blast
  let ?m = "missingDependencies ?res ds"
  let ?queue = "rest @ replicate (length ?m) index"
  have len: "int (length rest) < rs_lastIndexLength s" using inv q by (simp add: progressInv_def)
  have phase: "set names \<subseteq> set ?res \<or> (rs_iterations s = int index \<and> (\<exists>xs. rest = [Suc index..<?n] @ xs) \<and> (\<forall>j < index. names ! j \<in> set ?res))"
  proof (cases "set names \<subseteq> set ?res")
    case False
    with inv obtain k xs where k: "k < ?n" "rs_iterations s = int k" "rs_indexToResolve s = [k..<?n] @ xs" "\<forall>j < k. names ! j \<in> set ?res"
      by (auto simp: progressInv_def)
    then have "index = k \<and> rest = [Suc k..<?n] @ xs" using q by (simp add: upt_conv_Cons)
    with k show ?thesis by blast
  qed simp
  have complete: "?m = []" if "set names \<subseteq> set ?res \<or> Suc index = ?n"
  proof -
    have "isRootPath d \<or> d \<in> set ?res" if d: "d \<in> set ds" for d
    proof (cases "set names \<subseteq> set ?res")
      case True
      with dep [OF d] show ?thesis by blast
    next
      case False
      with phase \<open>set names \<subseteq> set ?res \<or> Suc index = ?n\<close> have "\<forall>j < index. names ! j \<in> set ?res" "Suc index = ?n" by blast+
      moreover have "j < index" if "j < ?n" "d = names ! j" for j
        using dep [OF d] that \<open>Suc index = ?n\<close> by (cases "j = index") auto
      ultimately show ?thesis using dep [OF d] by (auto simp: in_set_conv_nth)
    qed
    then show ?thesis by (auto simp: missingDependencies_def filter_empty_conv)
  qed
  have next_phase: "set names \<subseteq> set (?res @ [names ! index]) \<or>
      (\<exists>k xs. k < ?n \<and> rs_iterations s + 1 = int k \<and> rest @ zs = [k..<?n] @ xs \<and> (\<forall>j < k. names ! j \<in> set (?res @ [names ! index])))" for zs
  proof (cases "set names \<subseteq> set ?res")
    case False
    with phase obtain xs where p: "rs_iterations s = int index" "rest = [Suc index..<?n] @ xs" "\<forall>j < index. names ! j \<in> set ?res" by blast
    then have all: "\<forall>j < Suc index. names ! j \<in> set (?res @ [names ! index])" by (auto simp: less_Suc_eq)
    show ?thesis
    proof (cases "Suc index < ?n")
      case True
      with p all show ?thesis by (intro disjI2 exI [of _ "Suc index"] exI [of _ "xs @ zs"]) simp
    next
      case False
      with i have n: "?n = Suc index" by simp
      have "d \<in> set (?res @ [names ! index])" if "d \<in> set names" for d
      proof -
        from that obtain j where "j < ?n" "d = names ! j" by (auto simp: in_set_conv_nth)
        with all n show ?thesis by simp
      qed
      then show ?thesis by blast
    qed
  qed auto
  show ?thesis
  proof (cases "ds = []")
    case True
    with i ds inv len next_phase [of "[]"] q show ?thesis
      by (simp add: resolveTurn_def Let_def progressInv_def)
  next
    case False
    let ?red = "if int (length ?queue) < rs_lastIndexLength s then rs_iterations s + 1 else rs_lastIndexReduction s"
    have nonneg: "?red \<ge> -1" "rs_iterations s \<ge> 0" using inv by (auto simp: progressInv_def)
    have "\<not> rs_iterations s + 1 > ?red + int ?n"
    proof (cases "set names \<subseteq> set ?res \<or> Suc index = ?n")
      case True
      with complete len show ?thesis by simp
    next
      case False
      with phase i have "rs_iterations s + 1 < int ?n" by auto
      with nonneg(1) show ?thesis by linarith
    qed
    with False i ds have t: "resolveTurn names deps index rest s = Inr (s\<lparr>rs_executionOrder := rs_executionOrder s @ [index],
        rs_resolvedParameters := ?res @ [names ! index], rs_iterations := rs_iterations s + 1,
        rs_indexToResolve := ?queue, rs_lastIndexReduction := ?red, rs_lastIndexLength := int (length ?queue)\<rparr>)"
      by (simp add: resolveTurn_def Let_def)
    have "\<forall>j \<in> set ?queue. j < ?n" using inv i q by (auto simp: progressInv_def)
    with t nonneg next_phase [of "replicate (length ?m) index"] show ?thesis unfolding progressInv_def by simp
  qed
qed

lemma resolveLoop_succeeds: "depsKnown names deps \<Longrightarrow> progressInv names s \<Longrightarrow> \<exists>order. resolveLoop names deps s = Inr order"
proof (induction names deps s rule: resolveLoop.induct)
  case (1 names deps s)
  show ?case
  proof (cases "rs_indexToResolve s")
    case Nil
    then show ?thesis by (simp add: resolveLoop.simps [of names deps s])
  next
    case (Cons index rest)
    from progressInv_step [OF 1(2,3) Cons] obtain s' where s': "resolveTurn names deps index rest s = Inr s'" "progressInv names s'" by blast
    from 1(1) [OF Cons s'(1) 1(2) s'(2)] show ?thesis by (simp add: resolveLoop.simps [of names deps s] Cons s'(1))
  qed
qed


definition exParameter :: "string \<Rightarrow> string list \<Rightarrow> INodeProperties" where
  "exParameter name shownFor = INodeProperties name ''string'' (JStr []) None
     (Some [(''show'', map (\<lambda>d. (d, [Value (JStr ''x'')])) shownFor)]) False [] []"

text \<open>A parameter that comes before what it depends on is worked on twice; parameters that depend on each other are let through.\<close>

lemma order_repeats:
  "(let props = [exParameter ''a'' [''b''], exParameter ''b'' []] in getParameterResolveOrder props (getParameterDependencies props)) =
     Inr [0, 1, 0]"
  "(let props = [exParameter ''a'' [''b''], exParameter ''b'' [''a'']] in getParameterResolveOrder props (getParameterDependencies props)) =
     Inr [0, 1, 0]"
  "(let props = [exParameter ''a'' [''a'']] in getParameterResolveOrder props (getParameterDependencies props)) = Inl unresolvable"
  by code_simp+


end
