(* ===== verification/From_AI.thy ===== *)
theory From_AI
  imports Parameter_Order
begin

text \<open>
  Which expressions a user of the chat may put into the parameters of a tool: \<open>isExpression\<close> of
  \<open>workflow/src/expressions/expression-helpers.ts\<close>, and \<open>isFromAIOnlyExpression\<close>, \<open>collectExpressionDefaults\<close> and
  \<open>findDisallowedChatToolExpressions\<close> of \<open>workflow/src/from-ai-parse-utils.ts\<close>. Characters are those of HOL, so white space
  has the codes below 256 only.
\<close>

section \<open>Text\<close>

definition isSpace :: "char \<Rightarrow> bool" where
  "isSpace c \<longleftrightarrow> of_char c \<in> {9, 10, 11, 12, 13, 32, 160 :: nat}"

definition isDigitChar :: "char \<Rightarrow> bool" where
  "isDigitChar c \<longleftrightarrow> (48 :: nat) \<le> of_char c \<and> of_char c \<le> (57 :: nat)"

definition isLetter :: "char \<Rightarrow> bool" where
  "isLetter c \<longleftrightarrow> (65 :: nat) \<le> of_char c \<and> of_char c \<le> (90 :: nat) \<or> (97 :: nat) \<le> of_char c \<and> of_char c \<le> (122 :: nat)"

definition lowerChar :: "char \<Rightarrow> char" where
  "lowerChar c = (if (65 :: nat) \<le> of_char c \<and> of_char c \<le> (90 :: nat) then char_of (of_char c + 32 :: nat) else c)"

definition trimStart :: "string \<Rightarrow> string" where
  "trimStart = dropWhile isSpace"

definition trim :: "string \<Rightarrow> string" where
  "trim s = rev (trimStart (rev (trimStart s)))"

definition startsWith :: "string \<Rightarrow> string \<Rightarrow> bool" where
  "startsWith s prefix \<longleftrightarrow> take (length prefix) s = prefix"

definition endsWith :: "string \<Rightarrow> string \<Rightarrow> bool" where
  "endsWith s suffix \<longleftrightarrow> startsWith (rev s) (rev suffix)"

section \<open>Expressions\<close>

fun isExpression :: "json \<Rightarrow> bool" where
  "isExpression (JStr s) \<longleftrightarrow> startsWithChar (CHR ''='') s"
| "isExpression _ \<longleftrightarrow> False"

definition FROM_AI_AUTO_GENERATED_MARKER :: string where
  "FROM_AI_AUTO_GENERATED_MARKER = ''/*n8n-auto-generated-fromAI-override*/''"

text \<open>What is left when prefix, delimiters and marker are taken off.\<close>

definition stripFromAI :: "string \<Rightarrow> string" where
  "stripFromAI expr =
     (let str1 = trim (if startsWith expr ''='' then drop 1 expr else expr);
          str2 = (if startsWith str1 ''{{'' \<and> endsWith str1 ''}}'' then trim (take (length str1 - 4) (drop 2 str1)) else str1)
      in if startsWith str2 FROM_AI_AUTO_GENERATED_MARKER then trim (drop (length FROM_AI_AUTO_GENERATED_MARKER) str2) else str2)"

text \<open>The pattern \<open>/^\$fromAI\s*\(/i\<close>; the result is the text behind it.\<close>

definition matchFromAI :: "string \<Rightarrow> string option" where
  "matchFromAI s =
     (if startsWith (map lowerChar s) ''$fromai''
      then (case trimStart (drop 7 s) of c # rest \<Rightarrow> if c = CHR ''('' then Some rest else None | [] \<Rightarrow> None)
      else None)"

definition isQuote :: "char \<Rightarrow> bool" where
  "isQuote c \<longleftrightarrow> c \<in> {CHR 0x22, CHR 0x27, CHR 0x60}"

definition isLiteralChar :: "char \<Rightarrow> bool" where
  "isLiteralChar c \<longleftrightarrow> isLetter c \<or> isDigitChar c \<or> c \<in> {CHR ''.'', CHR '','', CHR ''-''} \<or> isSpace c"

definition isWordChar :: "char option \<Rightarrow> bool" where
  "isWordChar c = (case c of None \<Rightarrow> False | Some c \<Rightarrow> isLetter c \<or> isDigitChar c \<or> c = CHR ''_'')"

text \<open>
  The walk to the closing parenthesis: the quote that is open, the last character outside of quotes, and what is left. The result
  is the text behind the parenthesis, or \<open>None\<close> where the function returns \<open>false\<close>.
\<close>

fun scanArguments :: "char option \<Rightarrow> char option \<Rightarrow> string \<Rightarrow> string option" where
  "scanArguments quote lastOutsideChar [] = None"
| "scanArguments (Some quoteChar) lastOutsideChar (c # cs) =
     (if c = CHR 0x5C \<and> cs \<noteq> [] then scanArguments (Some quoteChar) lastOutsideChar (tl cs)
      else if quoteChar = CHR 0x60 \<and> c = CHR ''$'' \<and> startsWithChar (CHR 0x7B) cs then None
      else if c = quoteChar then scanArguments None lastOutsideChar cs
      else scanArguments (Some quoteChar) lastOutsideChar cs)"
| "scanArguments None lastOutsideChar (c # cs) =
     (if isQuote c then if c = CHR 0x60 \<and> isWordChar lastOutsideChar then None else scanArguments (Some c) (Some c) cs
      else if c = CHR '')'' then Some cs
      else if isLiteralChar c then scanArguments None (if isSpace c then lastOutsideChar else Some c) cs
      else None)"

definition isFromAIOnlyExpression :: "string \<Rightarrow> bool" where
  "isFromAIOnlyExpression expr \<longleftrightarrow>
     (case matchFromAI (stripFromAI expr) of None \<Rightarrow> False
      | Some rest \<Rightarrow> (case scanArguments None None rest of None \<Rightarrow> False | Some remainder \<Rightarrow> trim remainder = []))"

section \<open>The grammar\<close>

text \<open>What stands between two quotes: escapes, and no interpolation in a template.\<close>

inductive quotedText :: "char \<Rightarrow> string \<Rightarrow> bool" for quoteChar :: char where
  empty: "quotedText quoteChar []"
| escape: "quotedText quoteChar s \<Longrightarrow> quotedText quoteChar (CHR 0x5C # c # s)"
| char: "quotedText quoteChar s \<Longrightarrow> c \<noteq> CHR 0x5C \<Longrightarrow> c \<noteq> quoteChar \<Longrightarrow>
    \<not> (quoteChar = CHR 0x60 \<and> c = CHR ''$'' \<and> startsWithChar (CHR 0x7B) s) \<Longrightarrow> quotedText quoteChar (c # s)"

text \<open>Arguments: literals and quoted text; a template does not follow a name.\<close>

inductive literalArguments :: "char option \<Rightarrow> string \<Rightarrow> bool" where
  empty: "literalArguments lastChar []"
| literal: "isLiteralChar c \<Longrightarrow> literalArguments (if isSpace c then lastChar else Some c) s \<Longrightarrow> literalArguments lastChar (c # s)"
| quoted: "isQuote q \<Longrightarrow> \<not> (q = CHR 0x60 \<and> isWordChar lastChar) \<Longrightarrow> quotedText q t \<Longrightarrow> literalArguments (Some q) s \<Longrightarrow>
    literalArguments lastChar (q # t @ q # s)"

lemma literal_not_special: "isLiteralChar c \<Longrightarrow> \<not> isQuote c \<and> c \<noteq> CHR '')''"
  by (auto simp: isLiteralChar_def isQuote_def isLetter_def isDigitChar_def isSpace_def)

lemma scan_quoted:
  "quotedText q t \<Longrightarrow> isQuote q \<Longrightarrow> scanArguments (Some q) l (t @ q # s) = scanArguments None l s"
proof (induction t rule: quotedText.induct)
  case empty
  then show ?case by (auto simp: isQuote_def startsWithChar_def)
next
  case (escape t c)
  then show ?case by simp
next
  case (char t c)
  have "startsWithChar (CHR 0x7B) (t @ q # s) \<longleftrightarrow> startsWithChar (CHR 0x7B) t"
    using char.prems by (cases t) (auto simp: startsWithChar_def isQuote_def)
  with char show ?case by auto
qed

lemma scan_arguments: "literalArguments l a \<Longrightarrow> scanArguments None l (a @ CHR '')'' # r) = Some r"
proof (induction l a rule: literalArguments.induct)
  case (empty l)
  then show ?case by (simp add: isQuote_def)
next
  case (literal c l s)
  with literal_not_special [OF literal.hyps(1)] show ?case by simp
next
  case (quoted q l t s)
  then show ?case using scan_quoted [OF quoted.hyps(3,1), of "Some q" "s @ CHR '')'' # r"] by simp
qed

lemma scan_sound:
  "scanArguments quote l s = Some r \<Longrightarrow> (\<forall>q. quote = Some q \<longrightarrow> isQuote q) \<Longrightarrow>
   (case quote of None \<Rightarrow> \<exists>a. s = a @ CHR '')'' # r \<and> literalArguments l a
    | Some q \<Rightarrow> \<exists>t a. s = t @ q # a @ CHR '')'' # r \<and> quotedText q t \<and> literalArguments l a)"
proof (induction quote l s rule: scanArguments.induct)
  case (2 q l c cs)
  then have q: "isQuote q" by simp
  consider (esc) d ds where "c = CHR 0x5C" "cs = d # ds" | (close) "c = q" "\<not> (c = CHR 0x5C \<and> cs \<noteq> [])"
    | (char) "c \<noteq> q" "\<not> (c = CHR 0x5C \<and> cs \<noteq> [])" "\<not> (q = CHR 0x60 \<and> c = CHR ''$'' \<and> startsWithChar (CHR 0x7B) cs)"
    using 2(4) by (cases cs) (auto split: if_splits)
  then show ?case
  proof cases
    case esc
    with 2(1) 2(4) q obtain t a where "ds = t @ q # a @ CHR '')'' # r" "quotedText q t" and a: "literalArguments l a" by auto
    then have "c # cs = (CHR 0x5C # d # t) @ q # a @ CHR '')'' # r" "quotedText q (CHR 0x5C # d # t)"
      using esc by (simp_all add: quotedText.escape)
    with a show ?thesis unfolding option.case by blast
  next
    case close
    have "\<not> (q = CHR 0x60 \<and> c = CHR ''$'' \<and> startsWithChar (CHR 0x7B) cs)" using close(1) by auto
    with 2(2) 2(4) close obtain a where "cs = a @ CHR '')'' # r" "literalArguments l a" by (auto split: if_splits)
    then have "c # cs = [] @ q # a @ CHR '')'' # r" using close(1) by simp
    with \<open>literalArguments l a\<close> quotedText.empty [of q] show ?thesis unfolding option.case by blast
  next
    case char
    with 2(3) 2(4) q obtain t a where ta: "cs = t @ q # a @ CHR '')'' # r" "quotedText q t" "literalArguments l a" by auto
    have "c \<noteq> CHR 0x5C" using char(2) ta(1) by auto
    moreover have "startsWithChar (CHR 0x7B) t \<Longrightarrow> startsWithChar (CHR 0x7B) cs" using ta(1) by (cases t) (auto simp: startsWithChar_def)
    ultimately have "quotedText q (c # t)" using char ta(2) by (intro quotedText.char) auto
    moreover have "c # cs = (c # t) @ q # a @ CHR '')'' # r" using ta(1) by simp
    ultimately show ?thesis using ta(3) unfolding option.case by blast
  qed
next
  case (3 l c cs)
  consider (quote) "isQuote c" "\<not> (c = CHR 0x60 \<and> isWordChar l)" "scanArguments (Some c) (Some c) cs = Some r"
    | (close) "c = CHR '')''" "cs = r"
    | (literal) "\<not> isQuote c" "c \<noteq> CHR '')''" "isLiteralChar c" "scanArguments None (if isSpace c then l else Some c) cs = Some r"
    using 3(3) by (auto split: if_splits)
  then show ?case
  proof cases
    case quote
    with 3(1) obtain t a where ta: "cs = t @ c # a @ CHR '')'' # r" "quotedText c t" "literalArguments (Some c) a" by auto
    from literalArguments.quoted [OF quote(1,2) ta(2,3)] have "literalArguments l (c # t @ c # a)" .
    moreover have "c # cs = (c # t @ c # a) @ CHR '')'' # r" using ta(1) by simp
    ultimately show ?thesis unfolding option.case by blast
  next
    case close
    then show ?thesis by (simp add: exI [of _ "[]"] literalArguments.empty)
  next
    case literal
    with 3(2) obtain a where "cs = a @ CHR '')'' # r" "literalArguments (if isSpace c then l else Some c) a" by auto
    then have "c # cs = (c # a) @ CHR '')'' # r" "literalArguments l (c # a)" using literal by (simp_all add: literalArguments.literal)
    then show ?thesis unfolding option.case by blast
  qed
qed simp

text \<open>What is before the arguments and behind them.\<close>

lemma trimStart_split: "\<exists>ws. s = ws @ trimStart s \<and> list_all isSpace ws"
  by (rule exI [of _ "takeWhile isSpace s"]) (auto simp: trimStart_def list_all_iff dest: set_takeWhileD)

lemma trim_Nil: "trim s = [] \<longleftrightarrow> list_all isSpace s"
proof -
  have nil: "trimStart t = [] \<longleftrightarrow> list_all isSpace t" for t by (simp add: trimStart_def list_all_iff)
  have "list_all isSpace (trimStart s) \<longleftrightarrow> list_all isSpace s"
    using trimStart_split [of s] by (metis list_all_append)
  then show ?thesis by (simp add: trim_def nil)
qed

lemma lowerChar_dollar: "lowerChar c = CHR ''$'' \<longleftrightarrow> c = CHR ''$''"
proof
  assume l: "lowerChar c = CHR ''$''"
  show "c = CHR ''$''"
  proof (rule ccontr)
    assume "c \<noteq> CHR ''$''"
    with l have u: "(65 :: nat) \<le> of_char c" "of_char c \<le> (90 :: nat)" "char_of (of_char c + 32 :: nat) = CHR ''$''"
      by (auto simp: lowerChar_def split: if_splits)
    from arg_cong [OF u(3), of "of_char :: char \<Rightarrow> nat"] u(1,2) show False by simp
  qed
qed (simp add: lowerChar_def)

lemma map_ConsD: "map h xs = y # ys \<Longrightarrow> \<exists>c f. xs = c # f \<and> h c = y \<and> map h f = ys"
  by (cases xs) simp_all

lemma matchFromAI_iff:
  "matchFromAI s = Some rest \<longleftrightarrow>
     (\<exists>f ws. s = CHR ''$'' # f @ ws @ CHR ''('' # rest \<and> map lowerChar f = ''fromai'' \<and> list_all isSpace ws)"
proof
  assume m: "matchFromAI s = Some rest"
  then have sw: "startsWith (map lowerChar s) ''$fromai''" and tr: "trimStart (drop 7 s) = CHR ''('' # rest"
    by (auto simp: matchFromAI_def split: if_splits list.splits)
  have l7: "length ''$fromai'' = (7 :: nat)" by simp
  have st: "take 7 (map lowerChar s) = ''$fromai''" using sw unfolding startsWith_def l7 .
  from st have "map lowerChar (take 7 s) = ''$fromai''" unfolding take_map .
  from map_ConsD [OF this] obtain c f where cf: "take 7 s = c # f" "lowerChar c = CHR ''$''" "map lowerChar f = ''fromai''"
    by (elim exE conjE) (rule that)
  obtain ws where ws: "drop 7 s = ws @ CHR ''('' # rest" "list_all isSpace ws" using trimStart_split [of "drop 7 s"] tr by auto
  have "s = take 7 s @ drop 7 s" by simp
  then have "s = CHR ''$'' # f @ ws @ CHR ''('' # rest" using cf(1,2) ws(1) by (simp add: lowerChar_dollar)
  with cf(3) ws(2) show "\<exists>f ws. s = CHR ''$'' # f @ ws @ CHR ''('' # rest \<and> map lowerChar f = ''fromai'' \<and> list_all isSpace ws"
    by (intro exI conjI)
next
  assume "\<exists>f ws. s = CHR ''$'' # f @ ws @ CHR ''('' # rest \<and> map lowerChar f = ''fromai'' \<and> list_all isSpace ws"
  then obtain f ws where s: "s = CHR ''$'' # f @ ws @ CHR ''('' # rest" and f: "map lowerChar f = ''fromai''" and ws: "list_all isSpace ws"
    by (elim exE conjE) (rule that)
  from arg_cong [OF f, of length] have len: "length f = 6" by simp
  have "drop 7 s = ws @ CHR ''('' # rest" by (simp add: s len)
  moreover have "startsWith (map lowerChar s) ''$fromai''" using f len by (simp add: startsWith_def s lowerChar_def)
  moreover have "trimStart (ws @ CHR ''('' # rest) = CHR ''('' # rest"
    using ws by (induction ws) (simp_all add: trimStart_def isSpace_def)
  ultimately show "matchFromAI s = Some rest" by (simp add: matchFromAI_def)
qed

lemma isFromAIOnly_iff:
  "isFromAIOnlyExpression expr \<longleftrightarrow>
     (\<exists>f ws a r. stripFromAI expr = CHR ''$'' # f @ ws @ CHR ''('' # a @ CHR '')'' # r \<and> map lowerChar f = ''fromai'' \<and>
       list_all isSpace ws \<and> literalArguments None a \<and> list_all isSpace r)"
  (is "_ \<longleftrightarrow> ?grammar")
proof
  assume "isFromAIOnlyExpression expr"
  then obtain rest r where m: "matchFromAI (stripFromAI expr) = Some rest" and sc: "scanArguments None None rest = Some r" and r: "trim r = []"
    by (auto simp: isFromAIOnlyExpression_def split: option.splits)
  from scan_sound [OF sc] obtain a where a: "rest = a @ CHR '')'' # r" "literalArguments None a" by auto
  from m [unfolded matchFromAI_iff] obtain f ws where f: "stripFromAI expr = CHR ''$'' # f @ ws @ CHR ''('' # rest"
    "map lowerChar f = ''fromai''" "list_all isSpace ws" by (elim exE conjE) (rule that)
  from f(1) have "stripFromAI expr = CHR ''$'' # f @ ws @ CHR ''('' # a @ CHR '')'' # r" unfolding a(1) .
  with f(2,3) a(2) r [unfolded trim_Nil] show ?grammar by (intro exI conjI)
next
  assume ?grammar
  then obtain f ws a r where g: "stripFromAI expr = CHR ''$'' # f @ ws @ CHR ''('' # a @ CHR '')'' # r" "map lowerChar f = ''fromai''"
    "list_all isSpace ws" "literalArguments None a" "list_all isSpace r" by (elim exE conjE) (rule that)
  have "matchFromAI (stripFromAI expr) = Some (a @ CHR '')'' # r)" unfolding matchFromAI_iff using g(1,2,3) by (intro exI conjI)
  with scan_arguments [OF g(4)] g(5) show "isFromAIOnlyExpression expr" by (simp add: isFromAIOnlyExpression_def trim_Nil)
qed

section \<open>Expressions in the parameters of a tool\<close>

definition expressionDefault :: "INodeProperties \<Rightarrow> string list" where
  "expressionDefault p = (case np_default p of JStr s \<Rightarrow> if isExpression (JStr s) then [s] else [] | _ \<Rightarrow> [])"

text \<open>The options of a parameter are parameters themselves or have values; a set is a list whose order does not matter.\<close>

function collectDefaults :: "INodeProperties list \<Rightarrow> string list" where
  "collectDefaults [] = []"
| "collectDefaults (par # pars) =
     expressionDefault par @
     concat (map (\<lambda>nested. expressionDefault nested @ collectDefaults [nested]) (np_options par)) @
     concat (map (\<lambda>option. collectDefaults (snd option)) (np_collections par)) @ collectDefaults pars"
  by pat_completeness auto
termination
  by (relation "measure (size_list size)") (auto dest: size_option size_collection)

declare collectDefaults.simps(2) [simp del]

definition collectExpressionDefaults :: "INodeProperties list \<Rightarrow> string list" where
  "collectExpressionDefaults properties = collectDefaults properties"

record ExpressionViolation =
  ev_path :: string
  ev_value :: string

lemma in_set_enumerate: "(k, x) \<in> set (enumerate n xs) \<Longrightarrow> x \<in> set xs"
  by (auto simp: enumerate_eq_zip dest: set_zip_rightD)

lemma size_in_list: "(x :: json) \<in> set xs \<Longrightarrow> size x < Suc (size_list size xs)"
  using size_list_estimation' [of x xs "size x" size] by simp

lemma size_in_entries: "(k, x :: json) \<in> set entries \<Longrightarrow> size x < Suc (size_list (size_prod (\<lambda>_. 0) size) entries)"
  using size_list_estimation' [of "(k, x)" entries "size x" "size_prod (\<lambda>_. 0) size"] by simp

function findDisallowedChatToolExpressions :: "json \<Rightarrow> string \<Rightarrow> string list option \<Rightarrow> ExpressionViolation list" where
  "findDisallowedChatToolExpressions (JStr s) path allowedExpressions =
     (if isExpression (JStr s) \<and> \<not> isFromAIOnlyExpression s \<and>
         \<not> (case allowedExpressions of None \<Rightarrow> False | Some allowed \<Rightarrow> s \<in> set allowed)
      then [\<lparr>ev_path = path, ev_value = s\<rparr>] else [])"
| "findDisallowedChatToolExpressions (JArr items) path allowedExpressions =
     concat (map (\<lambda>(index, item). findDisallowedChatToolExpressions item (path @ ''['' @ nat_str index @ '']'') allowedExpressions)
       (enumerate 0 items))"
| "findDisallowedChatToolExpressions (JObj entries) path allowedExpressions =
     concat (map (\<lambda>(key, value). findDisallowedChatToolExpressions value (if path \<noteq> [] then path @ ''.'' @ key else key) allowedExpressions) entries)"
| "findDisallowedChatToolExpressions JNull path allowedExpressions = []"
| "findDisallowedChatToolExpressions (JBool b) path allowedExpressions = []"
| "findDisallowedChatToolExpressions (JNum n) path allowedExpressions = []"
  by pat_completeness auto
termination
  by (relation "measure (\<lambda>(payload, _, _). size payload)") (simp, (auto dest!: in_set_enumerate dest: size_in_list)[1], (auto dest: size_in_entries)[1])

inductive stringIn :: "json \<Rightarrow> string \<Rightarrow> bool" where
  here: "stringIn (JStr s) s"
| item: "x \<in> set xs \<Longrightarrow> stringIn x s \<Longrightarrow> stringIn (JArr xs) s"
| entry: "(k, x) \<in> set entries \<Longrightarrow> stringIn x s \<Longrightarrow> stringIn (JObj entries) s"

inductive_simps stringIn_simps: "stringIn (JStr t) s" "stringIn (JArr xs) s" "stringIn (JObj entries) s"
  "stringIn JNull s" "stringIn (JBool b) s" "stringIn (JNum n) s"

inductive parameterIn :: "INodeProperties list \<Rightarrow> INodeProperties \<Rightarrow> bool" where
  here: "p \<in> set pars \<Longrightarrow> parameterIn pars p"
| option: "q \<in> set pars \<Longrightarrow> parameterIn (np_options q) p \<Longrightarrow> parameterIn pars p"
| collection: "q \<in> set pars \<Longrightarrow> c \<in> set (np_collections q) \<Longrightarrow> parameterIn (snd c) p \<Longrightarrow> parameterIn pars p"

definition allowedExpression :: "string list option \<Rightarrow> string \<Rightarrow> bool" where
  "allowedExpression allowed s \<longleftrightarrow> \<not> isExpression (JStr s) \<or> isFromAIOnlyExpression s \<or>
     (case allowed of None \<Rightarrow> False | Some known \<Rightarrow> s \<in> set known)"

lemma enumerate_all: "(\<forall>p \<in> set (enumerate k xs). P (snd p)) \<longleftrightarrow> (\<forall>x \<in> set xs. P x)"
  by (induction xs arbitrary: k) auto

lemma noViolation_iff:
  "findDisallowedChatToolExpressions payload path allowed = [] \<longleftrightarrow> (\<forall>s. stringIn payload s \<longrightarrow> allowedExpression allowed s)"
proof (induction payload path allowed rule: findDisallowedChatToolExpressions.induct)
  case (1 s path allowed)
  show ?case by (simp add: stringIn_simps allowedExpression_def)
next
  case (2 items path allowed)
  have "findDisallowedChatToolExpressions (JArr items) path allowed = [] \<longleftrightarrow>
      (\<forall>p \<in> set (enumerate 0 items). \<forall>s. stringIn (snd p) s \<longrightarrow> allowedExpression allowed s)"
    using 2 by (simp add: case_prod_unfold)
  then show ?case unfolding enumerate_all [where P = "\<lambda>x. \<forall>s. stringIn x s \<longrightarrow> allowedExpression allowed s"] stringIn_simps by blast
next
  case (3 entries path allowed)
  have "findDisallowedChatToolExpressions (JObj entries) path allowed = [] \<longleftrightarrow>
      (\<forall>p \<in> set entries. \<forall>s. stringIn (snd p) s \<longrightarrow> allowedExpression allowed s)"
    using 3 by (simp add: case_prod_unfold)
  then show ?case unfolding stringIn_simps by force
qed (simp_all add: stringIn_simps)

lemma parameterIn_Cons:
  "parameterIn (par # pars) p \<longleftrightarrow>
     p = par \<or> parameterIn (np_options par) p \<or> (\<exists>c \<in> set (np_collections par). parameterIn (snd c) p) \<or> parameterIn pars p"
  (is "?l \<longleftrightarrow> ?r")
proof
  assume ?l
  then show ?r
  proof (cases rule: parameterIn.cases)
    case here
    then show ?r using parameterIn.here [of p pars] by (simp only: list.set insert_iff) blast
  next
    case (option q)
    then show ?r using parameterIn.option [of q pars p] by (simp only: list.set insert_iff) blast
  next
    case (collection q c)
    then show ?r using parameterIn.collection [of q pars c p] by (simp only: list.set insert_iff) blast
  qed
next
  have more: "parameterIn (par # pars) p" if m: "parameterIn pars p" using m
    by (cases rule: parameterIn.cases) (blast intro: parameterIn.intros list.set_intros)+
  assume ?r
  then show ?l using more parameterIn.here [of par "par # pars"] parameterIn.option [of par "par # pars" p]
    parameterIn.collection [of par "par # pars" _ p] by (simp only: list.set insert_iff) blast
qed

lemma parameterIn_single: "parameterIn pars p \<longleftrightarrow> (\<exists>q \<in> set pars. parameterIn [q] p)"
proof (induction pars)
  case Nil
  show ?case by (auto elim: parameterIn.cases)
next
  case (Cons q pars)
  have "parameterIn [q] p \<longleftrightarrow> p = q \<or> parameterIn (np_options q) p \<or> (\<exists>c \<in> set (np_collections q). parameterIn (snd c) p)"
    unfolding parameterIn_Cons using parameterIn.cases [of "[]" p False] by auto
  with Cons.IH show ?case unfolding parameterIn_Cons [of q pars] by simp
qed

lemma collectDefaults_iff: "s \<in> set (collectDefaults pars) \<longleftrightarrow> (\<exists>p. parameterIn pars p \<and> s \<in> set (expressionDefault p))"
proof (induction pars rule: collectDefaults.induct)
  case 1
  show ?case by (auto elim: parameterIn.cases)
next
  case (2 par pars)
  have opts: "(\<exists>q \<in> set (np_options par). s \<in> set (expressionDefault q) \<or> s \<in> set (collectDefaults [q])) \<longleftrightarrow>
      (\<exists>p. parameterIn (np_options par) p \<and> s \<in> set (expressionDefault p))"
  proof -
    have "parameterIn [q] q" for q by (rule parameterIn.here) simp
    then have "s \<in> set (expressionDefault q) \<or> s \<in> set (collectDefaults [q]) \<longleftrightarrow> (\<exists>p. parameterIn [q] p \<and> s \<in> set (expressionDefault p))"
      if "q \<in> set (np_options par)" for q using 2(1) [OF that] by blast
    then show ?thesis unfolding parameterIn_single [of "np_options par"] by blast
  qed
  have cols: "(\<exists>c \<in> set (np_collections par). s \<in> set (collectDefaults (snd c))) \<longleftrightarrow>
      (\<exists>p. (\<exists>c \<in> set (np_collections par). parameterIn (snd c) p) \<and> s \<in> set (expressionDefault p))"
    using 2(2) by blast
  have "s \<in> set (collectDefaults (par # pars)) \<longleftrightarrow> s \<in> set (expressionDefault par) \<or>
      (\<exists>q \<in> set (np_options par). s \<in> set (expressionDefault q) \<or> s \<in> set (collectDefaults [q])) \<or>
      (\<exists>c \<in> set (np_collections par). s \<in> set (collectDefaults (snd c))) \<or> s \<in> set (collectDefaults pars)"
    by (subst collectDefaults.simps(2)) auto
  then show ?case unfolding opts cols 2(3) parameterIn_Cons by blast
qed


lemma fromAI_examples:
  "isFromAIOnlyExpression ''={{ /*n8n-auto-generated-fromAI-override*/ $fromAI('a(b', `x`, -1.5) }}''"
  "\<not> isFromAIOnlyExpression ''=$fromAI(evil())''"
  "\<not> isFromAIOnlyExpression ''=$fromAI(`${$env.x}`)''"
  "\<not> isFromAIOnlyExpression ''=$fromAI(a`x`)''"
  by code_simp+


end
