(* ===== verification/Node_Parameters.thy ===== *)
theory Node_Parameters
  imports From_AI
begin

text \<open>
  Which parameters of a node are shown and what their values are: \<open>checkConditions\<close>, \<open>displayParameter\<close> and
  \<open>getNodeParameters\<close> of \<open>packages/workflow/src/node-helpers.ts\<close>. \<open>get\<close> of lodash, regular expressions and the conversion of a
  text to a number are arguments. A copy of a value is the value; the object \<open>nodeParametersFull\<close>, which other variables may
  share, is read from the state wherever they stand for it. Values with a length or index as name are not read.
\<close>

section \<open>Values\<close>

text \<open>\<open>isEqual\<close> of lodash on JSON values: the order of the fields of an object does not count.\<close>

function isEqual :: "json \<Rightarrow> json \<Rightarrow> bool" where
  "isEqual (JArr xs) (JArr ys) \<longleftrightarrow> length xs = length ys \<and> list_all (\<lambda>(x, y). isEqual x y) (zip xs ys)"
| "isEqual (JObj xs) (JObj ys) \<longleftrightarrow>
     length xs = length ys \<and> list_all (\<lambda>(k, x). case map_of ys k of None \<Rightarrow> False | Some y \<Rightarrow> isEqual x y) xs"
| "isEqual (JArr xs) JNull \<longleftrightarrow> False"
| "isEqual (JArr xs) (JBool b) \<longleftrightarrow> False"
| "isEqual (JArr xs) (JNum n) \<longleftrightarrow> False"
| "isEqual (JArr xs) (JStr s) \<longleftrightarrow> False"
| "isEqual (JArr xs) (JObj ys) \<longleftrightarrow> False"
| "isEqual (JObj xs) JNull \<longleftrightarrow> False"
| "isEqual (JObj xs) (JBool b) \<longleftrightarrow> False"
| "isEqual (JObj xs) (JNum n) \<longleftrightarrow> False"
| "isEqual (JObj xs) (JStr s) \<longleftrightarrow> False"
| "isEqual (JObj xs) (JArr ys) \<longleftrightarrow> False"
| "isEqual JNull y \<longleftrightarrow> y = JNull"
| "isEqual (JBool b) y \<longleftrightarrow> y = JBool b"
| "isEqual (JNum n) y \<longleftrightarrow> y = JNum n"
| "isEqual (JStr s) y \<longleftrightarrow> y = JStr s"
  by pat_completeness auto
termination
  by (relation "measure (\<lambda>(x, _). size x)") (simp, (auto dest!: set_zip_leftD dest: size_in_list)[1], (auto dest: size_in_entries)[1])

text \<open>\<open>typeof v === 'object'\<close>, which holds for \<open>null\<close>; the others are compared by value.\<close>

fun typeofObject :: "json \<Rightarrow> bool" where
  "typeofObject JNull = True"
| "typeofObject (JArr _) = True"
| "typeofObject (JObj _) = True"
| "typeofObject _ = False"

fun isPlainObject :: "json \<Rightarrow> bool" where
  "isPlainObject (JObj _) = True"
| "isPlainObject _ = False"

text \<open>The own enumerable properties of a value.\<close>

fun jsEntries :: "json \<Rightarrow> (string, json) dict" where
  "jsEntries (JObj entries) = entries"
| "jsEntries (JArr items) = map (\<lambda>(i, x). (nat_str i, x)) (enumerate 0 items)"
| "jsEntries (JStr s) = map (\<lambda>(i, c). (nat_str i, JStr [c])) (enumerate 0 s)"
| "jsEntries _ = []"

definition jsProp :: "json \<Rightarrow> string \<Rightarrow> json option" where
  "jsProp v k = map_of (jsEntries v) k"

section \<open>Conditions\<close>

record ParameterEnv =
  pe_get :: "json \<Rightarrow> string \<Rightarrow> json option"
  pe_regexTest :: "string \<Rightarrow> string \<Rightarrow> bool"
  pe_stringToNumber :: "string \<Rightarrow> int option"

text \<open>The number that a comparison makes of a value; \<open>None\<close> is \<open>NaN\<close>.\<close>

fun toNumber :: "ParameterEnv \<Rightarrow> json option \<Rightarrow> int option" where
  "toNumber env (Some JNull) = Some 0"
| "toNumber env (Some (JBool b)) = Some (if b then 1 else 0)"
| "toNumber env (Some (JNum n)) = Some n"
| "toNumber env (Some (JStr s)) = pe_stringToNumber env s"
| "toNumber env _ = None"

text \<open>\<open>x <= y\<close> and \<open>x < y\<close>: two texts are compared by their code units, everything else as numbers.\<close>

definition jsCompare :: "ParameterEnv \<Rightarrow> (int \<Rightarrow> int \<Rightarrow> bool) \<Rightarrow> (string \<Rightarrow> string \<Rightarrow> bool) \<Rightarrow> json option \<Rightarrow> json option \<Rightarrow> bool" where
  "jsCompare env numbers texts x y =
     (case (x, y) of (Some (JStr s), Some (JStr t)) \<Rightarrow> texts s t
      | _ \<Rightarrow> (case (toNumber env x, toNumber env y) of (Some m, Some n) \<Rightarrow> numbers m n | _ \<Rightarrow> False))"

definition jsLe :: "ParameterEnv \<Rightarrow> json option \<Rightarrow> json option \<Rightarrow> bool" where
  "jsLe env = jsCompare env (\<le>) str_le"

definition jsLt :: "ParameterEnv \<Rightarrow> json option \<Rightarrow> json option \<Rightarrow> bool" where
  "jsLt env = jsCompare env (<) (\<lambda>s t. str_le s t \<and> s \<noteq> t)"

fun includesText :: "string \<Rightarrow> string \<Rightarrow> bool" where
  "includesText [] t = startsWith [] t"
| "includesText (c # cs) t = (startsWith (c # cs) t \<or> includesText cs t)"

text \<open>Both values are texts, and stand in a relation.\<close>

fun bothTexts :: "(string \<Rightarrow> string \<Rightarrow> bool) \<Rightarrow> json option \<Rightarrow> json \<Rightarrow> bool" where
  "bothTexts p (Some (JStr s)) (JStr t) = p s t"
| "bothTexts p _ _ = False"

definition conditionMet :: "ParameterEnv \<Rightarrow> string \<Rightarrow> json \<Rightarrow> json option \<Rightarrow> bool" where
  "conditionMet env key targetValue propertyValue =
     (let equal = (case propertyValue of None \<Rightarrow> False | Some v \<Rightarrow> isEqual v targetValue) in
      if key = ''eq'' then equal
      else if key = ''not'' then \<not> equal
      else if key = ''gte'' then jsLe env (Some targetValue) propertyValue
      else if key = ''lte'' then jsLe env propertyValue (Some targetValue)
      else if key = ''gt'' then jsLt env (Some targetValue) propertyValue
      else if key = ''lt'' then jsLt env propertyValue (Some targetValue)
      else if key = ''between'' then
        jsLe env (jsProp targetValue ''from'') propertyValue \<and> jsLe env propertyValue (jsProp targetValue ''to'')
      else if key = ''includes'' then bothTexts includesText propertyValue targetValue
      else if key = ''startsWith'' then bothTexts startsWith propertyValue targetValue
      else if key = ''endsWith'' then bothTexts endsWith propertyValue targetValue
      else if key = ''regex'' then bothTexts (\<lambda>s t. pe_regexTest env t s) propertyValue targetValue
      else if key = ''exists'' then propertyValue \<noteq> Some JNull \<and> propertyValue \<noteq> None \<and> propertyValue \<noteq> Some (JStr [])
      else False)"

text \<open>A value is compared with those that are there; an object in the description is never one of them.\<close>

definition checkConditions :: "ParameterEnv \<Rightarrow> DisplayCondition list \<Rightarrow> json option list \<Rightarrow> bool" where
  "checkConditions env conditions actualValues =
     list_ex (\<lambda>condition. case condition of
         Cnd key targetValue \<Rightarrow>
           if actualValues = [] then key = ''not'' else list_all (conditionMet env key targetValue) actualValues
       | Value v \<Rightarrow> (v = JNull \<or> \<not> typeofObject v) \<and> Some v \<in> set actualValues) conditions"

record NodeTypeDescription =
  td_name :: string
  td_features :: "(string, DisplayCondition list) dict option"

definition getNodeFeatures :: "ParameterEnv \<Rightarrow> (string, DisplayCondition list) dict option \<Rightarrow> int \<Rightarrow> (string, bool) dict" where
  "getNodeFeatures env featuresDef nodeVersion =
     (case featuresDef of None \<Rightarrow> []
      | Some features \<Rightarrow> map (\<lambda>(name, condition). (name, checkConditions env condition [Some (JNum nodeVersion)])) features)"

text \<open>The node is its version, \<open>None\<close> for \<open>null\<close>.\<close>

definition getPropertyValues ::
    "ParameterEnv \<Rightarrow> json \<Rightarrow> string \<Rightarrow> int option \<Rightarrow> NodeTypeDescription option \<Rightarrow> json \<Rightarrow> json option list" where
  "getPropertyValues env nodeValues propertyName node nodeTypeDescription nodeValuesRoot =
     (if propertyName = ''@feature'' then
        (case (nodeTypeDescription, node) of
           (Some description, Some version) \<Rightarrow>
             if version = 0 then []
             else map (\<lambda>(name, _). Some (JStr name)) (filter (\<lambda>(_, enabled). enabled) (getNodeFeatures env (td_features description) version))
         | _ \<Rightarrow> [])
      else
        let value = (if startsWithChar (CHR ''/'') propertyName then pe_get env nodeValuesRoot (tl propertyName)
                     else if propertyName = ''@version'' then Some (JNum (case node of None \<Rightarrow> 0 | Some version \<Rightarrow> version))
                     else if propertyName = ''@tool'' then
                       Some (JBool (case nodeTypeDescription of None \<Rightarrow> False | Some description \<Rightarrow> endsWith (td_name description) ''Tool''))
                     else pe_get env nodeValues propertyName);
            inner = (case value of
                Some (JObj entries) \<Rightarrow>
                  (case map_of entries ''__rl'' of None \<Rightarrow> value | Some rl \<Rightarrow> if json_truthy rl then map_of entries ''value'' else value)
              | _ \<Rightarrow> value)
        in case inner of Some (JArr items) \<Rightarrow> map Some items | _ \<Rightarrow> [inner])"

definition isExpressionValue :: "json option \<Rightarrow> bool" where
  "isExpressionValue v = (case v of None \<Rightarrow> False | Some j \<Rightarrow> isExpression j)"

text \<open>The rules under \<open>show\<close>: the result that is returned, or \<open>None\<close> when the loop goes through.\<close>

fun showRules :: "ParameterEnv \<Rightarrow> (string \<Rightarrow> json option list) \<Rightarrow> (string, DisplayCondition list) dict \<Rightarrow> bool option" where
  "showRules env values [] = None"
| "showRules env values ((propertyName, conditions) # rules) =
     (if list_ex isExpressionValue (values propertyName) then Some True
      else if \<not> checkConditions env conditions (values propertyName) then Some False
      else showRules env values rules)"

text \<open>\<open>x || y\<close>.\<close>

definition orElse :: "json option \<Rightarrow> json \<Rightarrow> json" where
  "orElse x y = (case x of None \<Rightarrow> y | Some v \<Rightarrow> if json_truthy v then v else y)"

definition displayParameter ::
    "ParameterEnv \<Rightarrow> json \<Rightarrow> IDisplayOptions option \<Rightarrow> int option \<Rightarrow> NodeTypeDescription option \<Rightarrow> json option \<Rightarrow> bool" where
  "displayParameter env nodeValues options node nodeTypeDescription nodeValuesRoot =
     (case options of None \<Rightarrow> True
      | Some rules \<Rightarrow>
          let root = orElse nodeValuesRoot nodeValues;
              values = (\<lambda>propertyName. getPropertyValues env nodeValues propertyName node nodeTypeDescription root);
              shown = (case map_of rules ''show'' of None \<Rightarrow> None | Some show_rules \<Rightarrow> showRules env values show_rules)
          in case shown of Some result \<Rightarrow> result
             | None \<Rightarrow> (case map_of rules ''hide'' of None \<Rightarrow> True
                 | Some hide_rules \<Rightarrow> \<not> list_ex (\<lambda>(propertyName, conditions).
                     values propertyName \<noteq> [] \<and> checkConditions env conditions (values propertyName)) hide_rules))"

definition displayParameterPath ::
    "ParameterEnv \<Rightarrow> json \<Rightarrow> IDisplayOptions option \<Rightarrow> string \<Rightarrow> int option \<Rightarrow> NodeTypeDescription option \<Rightarrow> bool" where
  "displayParameterPath env nodeValues options path node nodeTypeDescription =
     (let at = (\<lambda>p. case pe_get env nodeValues p of None \<Rightarrow> JNull | Some v \<Rightarrow> v)
      in displayParameter env (if path \<noteq> [] then at path else nodeValues) options node nodeTypeDescription
        (if takeWhile (\<lambda>c. c \<noteq> CHR ''.'') path = ''parameters'' then pe_get env nodeValues ''parameters''
         else Some nodeValues))"

section \<open>The values of the parameters\<close>

record GetNodeParametersOptions =
  go_onlySimpleTypes :: bool
  go_dataIsResolved :: bool
  go_nodeValuesRoot :: "json option"
  go_parentType :: "string option"
  go_parameterDependencies :: "IParameterDependencies option"

text \<open>
  The variables of the loop: \<open>nodeParameters\<close>, \<open>nodeParametersFull\<close> and the value that an early \<open>return\<close> in the loop gives.
\<close>

record ParameterState =
  ps_nodeParameters :: "(string, json) dict"
  ps_nodeParametersFull :: "(string, json) dict"
  ps_returned :: "json option"

definition duplicateNames :: "INodeProperties list \<Rightarrow> string list" where
  "duplicateNames nodePropertiesArray =
     snd (fold (\<lambda>p (parameterNames, duplicates).
         if np_name p \<in> set parameterNames
         then (parameterNames, if np_name p \<in> set duplicates then duplicates else duplicates @ [np_name p])
         else (parameterNames @ [np_name p], duplicates)) nodePropertiesArray ([], []))"

definition setParameter :: "string \<Rightarrow> json \<Rightarrow> ParameterState \<Rightarrow> ParameterState" where
  "setParameter name v s = s\<lparr>ps_nodeParameters := obj_set name v (ps_nodeParameters s)\<rparr>"

definition setBoth :: "string \<Rightarrow> json \<Rightarrow> ParameterState \<Rightarrow> ParameterState" where
  "setBoth name v s =
     s\<lparr>ps_nodeParameters := obj_set name v (ps_nodeParameters s), ps_nodeParametersFull := obj_set name v (ps_nodeParametersFull s)\<rparr>"

definition spread :: "(string, json) dict \<Rightarrow> json option \<Rightarrow> (string, json) dict" where
  "spread base v = fold (\<lambda>(k, x). obj_set k x) (case v of None \<Rightarrow> [] | Some j \<Rightarrow> jsEntries j) base"

text \<open>A filter gets what the user interface would add; one that is an array is left alone.\<close>

fun patchFilter :: "json \<Rightarrow> json" where
  "patchFilter (JObj entries) =
     (let entries1 = (if map_of entries ''combinator'' \<in> {None, Some JNull} then obj_set ''combinator'' (JStr ''and'') entries else entries);
          defaultOptions = [(''caseSensitive'', JBool True), (''leftValue'', JStr []), (''typeValidation'', JStr ''strict''), (''version'', JNum 1)]
      in JObj (obj_set ''options'' (JObj (spread defaultOptions (map_of entries1 ''options''))) entries1))"
| "patchFilter v = v"

definition valueOrDefault :: "INodeProperties \<Rightarrow> json option \<Rightarrow> json" where
  "valueOrDefault p v =
     (if np_type p \<in> {''boolean'', ''number'', ''options''} then (case v of Some j \<Rightarrow> j | None \<Rightarrow> np_default p)
      else if np_type p = ''resourceLocator'' \<and> typeofObject (np_default p)
      then (case v of Some j \<Rightarrow> j | None \<Rightarrow> JObj (spread [(''__rl'', JBool True)] (Some (np_default p))))
      else case v of
          Some j \<Rightarrow> if np_type p = ''filter'' \<and> typeofObject j \<and> j \<noteq> JNull then patchFilter j
            else if j = JNull then np_default p else j
        | None \<Rightarrow> np_default p)"

definition differsFromDefault :: "INodeProperties \<Rightarrow> json option \<Rightarrow> bool" where
  "differsFromDefault p v =
     (case v of None \<Rightarrow> True | Some j \<Rightarrow> if typeofObject j then \<not> isEqual j (np_default p) else j \<noteq> np_default p)"

text \<open>Where only constants are allowed, the sign of an expression is taken off.\<close>

definition stripExpression :: "INodeProperties \<Rightarrow> ParameterState \<Rightarrow> ParameterState" where
  "stripExpression p s =
     (if np_noDataExpression p then
        (case map_of (ps_nodeParameters s) (np_name p) of
           Some (JStr t) \<Rightarrow> if isExpression (JStr t) \<and> \<not> isFromAIOnlyExpression t then setBoth (np_name p) (JStr (tl t)) s else s
         | _ \<Rightarrow> s)
      else s)"

definition simpleParameter :: "bool \<Rightarrow> string option \<Rightarrow> INodeProperties \<Rightarrow> json option \<Rightarrow> ParameterState \<Rightarrow> ParameterState" where
  "simpleParameter returnDefaults parentType p v s =
     (if returnDefaults then stripExpression p (setBoth (np_name p) (valueOrDefault p v) s)
      else if differsFromDefault p v \<or> v \<noteq> None \<and> parentType = Some ''collection''
      then (case v of None \<Rightarrow> s | Some j \<Rightarrow> setBoth (np_name p) j s)
      else stripExpression p s)"

text \<open>
  Collections. \<open>getValues properties values\<close> stands for the recursive call, which gets the type of the parameter as type of the parent.
\<close>

definition collectionParameter ::
    "(INodeProperties list \<Rightarrow> json \<Rightarrow> json result) \<Rightarrow> bool \<Rightarrow> INodeProperties \<Rightarrow> json option \<Rightarrow> ParameterState \<Rightarrow> ParameterState result" where
  "collectionParameter getValues returnDefaults p v s =
     (if np_multipleValues p = Some True then
        Inr (case v of Some j \<Rightarrow> setBoth (np_name p) j s
           | None \<Rightarrow> if returnDefaults
               then setBoth (np_name p) (case np_default p of JArr items \<Rightarrow> JArr items | _ \<Rightarrow> JArr []) s else s)
      else case v of
        Some j \<Rightarrow> res_bind (getValues (np_options p) j) (\<lambda>values. Inr (setBoth (np_name p) values s))
      | None \<Rightarrow> Inr (if returnDefaults then setBoth (np_name p) (np_default p) s else s))"

text \<open>The items of a fixed collection that may have several values; a text is iterated by its characters.\<close>

fun jsIterate :: "json \<Rightarrow> json list result" where
  "jsIterate (JArr items) = Inr items"
| "jsIterate (JStr s) = Inr (map (\<lambda>c. JStr [c]) s)"
| "jsIterate _ = Inl TypeError"

definition manyItems ::
    "(INodeProperties list \<Rightarrow> json \<Rightarrow> json result) \<Rightarrow> INodeProperties \<Rightarrow> json \<Rightarrow> string \<Rightarrow> (string, json) dict \<Rightarrow> (string, json) dict result" where
  "manyItems getValues p propertyValues itemName collectionValues =
     (if \<not> isPlainObject propertyValues then Inr collectionValues
      else case find (\<lambda>c. fst c = itemName) (np_collections p) of None \<Rightarrow> Inr collectionValues
      | Some c \<Rightarrow> (case jsProp propertyValues itemName of None \<Rightarrow> Inl TypeError
          | Some items \<Rightarrow>
              res_bind (jsIterate items) (\<lambda>nodeValues.
              res_bind (res_fold (\<lambda>nodeValue temp. res_bind (getValues (snd c) nodeValue) (\<lambda>t. Inr (temp @ [t]))) nodeValues [])
                (\<lambda>temp. Inr (obj_set itemName (JArr temp) collectionValues)))))"

definition hasNonDefaultValues :: "INodeProperties list \<Rightarrow> json option \<Rightarrow> bool" where
  "hasNonDefaultValues properties itemNodeValues =
     (case itemNodeValues of None \<Rightarrow> False
      | Some item \<Rightarrow> json_truthy item \<and> list_ex (\<lambda>(key, x).
          case find (\<lambda>f. np_name f = key) properties of None \<Rightarrow> False | Some field \<Rightarrow> \<not> isEqual x (np_default field)) (jsEntries item))"

text \<open>
  One item of a fixed collection with single values. The item is read from \<open>nodeValues\<close>, also when \<open>propertyValues\<close> is the default.
\<close>

definition singleItem ::
    "(INodeProperties list \<Rightarrow> json \<Rightarrow> json result) \<Rightarrow> bool \<Rightarrow> INodeProperties \<Rightarrow> json option \<Rightarrow> json \<Rightarrow> string \<Rightarrow>
       (string, json) dict \<times> bool \<Rightarrow> ((string, json) dict \<times> bool) result" where
  "singleItem getValues returnDefaults p v propertyValues itemName state =
     (case state of (collectionValues, hadAnyVisibleFields) \<Rightarrow>
      case find (\<lambda>c. fst c = itemName) (np_collections p) of None \<Rightarrow> Inr state
      | Some c \<Rightarrow> (case v of None \<Rightarrow> Inl TypeError
          | Some j \<Rightarrow>
              let itemNodeValues = jsProp j itemName
              in res_bind (getValues (snd c) (case itemNodeValues of None \<Rightarrow> JNull | Some item \<Rightarrow> item)) (\<lambda>tempValue.
                let hadVisibleFields = (jsEntries tempValue \<noteq> [] \<or> \<not> hasNonDefaultValues (snd c) itemNodeValues)
                in Inr (if jsEntries tempValue \<noteq> [] then obj_set itemName (JObj (jsEntries tempValue)) collectionValues
                        else if \<not> returnDefaults \<and> hadVisibleFields \<and> jsProp propertyValues itemName \<noteq> None
                        then obj_set itemName (JObj []) collectionValues else collectionValues,
                        hadAnyVisibleFields \<or> hadVisibleFields))))"

definition fixedCollectionParameter ::
    "(INodeProperties list \<Rightarrow> json \<Rightarrow> json result) \<Rightarrow> bool \<Rightarrow> INodeProperties \<Rightarrow> json \<Rightarrow> json option \<Rightarrow> ParameterState \<Rightarrow> ParameterState result" where
  "fixedCollectionParameter getValues returnDefaults p nodeValues v s =
     (let propertyValues = (case v of Some j \<Rightarrow> j | None \<Rightarrow> if returnDefaults then np_default p else JNull);
          keys = map fst (jsEntries propertyValues)
      in if \<not> returnDefaults \<and> np_multipleValues p = Some False \<and> json_truthy propertyValues \<and> keys = []
         then Inr (s\<lparr>ps_returned := Some nodeValues\<rparr>)
         else res_bind
           (if np_multipleValues p = Some True
            then res_bind (res_fold (manyItems getValues p propertyValues) keys []) (\<lambda>values. Inr (values, False))
            else res_fold (singleItem getValues returnDefaults p v propertyValues) keys ([], False))
           (\<lambda>(collectionValues, hadAnyVisibleFields).
             let s1 = (if \<not> returnDefaults \<and> hadAnyVisibleFields \<and> np_multipleValues p = Some False \<and> collectionValues = [] \<and>
                          isPlainObject propertyValues \<and> keys \<noteq> []
                       then setParameter (np_name p) (JObj (map (\<lambda>k. (k, JObj [])) keys)) s else s)
             in Inr (if collectionValues \<noteq> [] \<or> returnDefaults then setBoth (np_name p) (JObj collectionValues) s1 else s1)))"

text \<open>One turn of the loop over the parameters. \<open>shown\<close> tells whether the parameter is displayed.\<close>

definition parameterTurn ::
    "(INodeProperties list \<Rightarrow> json \<Rightarrow> json result) \<Rightarrow> bool \<Rightarrow> bool \<Rightarrow> GetNodeParametersOptions \<Rightarrow> string list \<Rightarrow> json \<Rightarrow>
       bool \<Rightarrow> INodeProperties \<Rightarrow> ParameterState \<Rightarrow> ParameterState result" where
  "parameterTurn getValues returnDefaults returnNoneDisplayed options duplicates nodeValues shown p s =
     (let v = jsProp nodeValues (np_name p) in
      if \<not> json_truthy nodeValues \<or> v = None \<and> (\<not> returnDefaults \<or> go_parentType options = Some ''collection'') then Inr s
      else if \<not> returnNoneDisplayed \<and> \<not> shown then Inr s
      else if np_type p \<notin> {''collection'', ''fixedCollection''} then
        Inr (if np_name p \<in> set duplicates \<and> \<not> shown then s else simpleParameter returnDefaults (go_parentType options) p v s)
      else if go_onlySimpleTypes options then Inr s
      else if np_type p = ''collection'' then collectionParameter getValues returnDefaults p v s
      else fixedCollectionParameter getValues returnDefaults p nodeValues v s)"

text \<open>The recursive calls are on the parameters inside of one.\<close>

definition subProperties :: "INodeProperties \<Rightarrow> INodeProperties list \<Rightarrow> bool" where
  "subProperties p properties \<longleftrightarrow> properties = np_options p \<or> properties \<in> snd ` set (np_collections p)"

lemma size_subProperties: "subProperties p properties \<Longrightarrow> size_list size properties < size p"
proof (unfold subProperties_def, elim disjE imageE)
  show "properties = np_options p \<Longrightarrow> size_list size properties < size p" by (cases p) simp
qed (simp add: size_collection)

lemma size_subProperties_nth:
  "i < length props \<Longrightarrow> subProperties (props ! i) properties \<Longrightarrow> size_list size properties < size_list size props"
  using size_subProperties [of "props ! i" properties] size_list_estimation [of "props ! i" props "size_list size properties" size] by simp

lemma find_subProperties: "find (\<lambda>c. fst c = itemName) (np_collections p) = Some c \<Longrightarrow> subProperties p (snd c)"
  by (auto simp: subProperties_def find_Some_iff)

lemma manyItems_cong:
  assumes "\<And>ps w. subProperties p ps \<Longrightarrow> g ps w = g' ps w"
  shows "manyItems g p x k s = manyItems g' p x k s"
proof (cases "find (\<lambda>c. fst c = k) (np_collections p)")
  case (Some c)
  have same: "g (snd c) = g' (snd c)" by (rule ext) (rule assms [OF find_subProperties [OF Some]])
  show ?thesis unfolding manyItems_def Some option.case same ..
qed (simp add: manyItems_def)

lemma singleItem_cong:
  assumes "\<And>ps w. subProperties p ps \<Longrightarrow> g ps w = g' ps w"
  shows "singleItem g rd p v x k s = singleItem g' rd p v x k s"
proof (cases "find (\<lambda>c. fst c = k) (np_collections p)")
  case (Some c)
  have same: "g (snd c) = g' (snd c)" by (rule ext) (rule assms [OF find_subProperties [OF Some]])
  show ?thesis unfolding singleItem_def Some option.case same ..
qed (simp add: singleItem_def)

lemma parameterTurn_cong [fundef_cong]:
  assumes "rd = rd'" "rn = rn'" "o1 = o2" "d = d'" "nv = nv'" "sh = sh'" "p = p'" "s = s'"
    and sub: "\<And>ps w. subProperties p' ps \<Longrightarrow> g ps w = g' ps w"
  shows "parameterTurn g rd rn o1 d nv sh p s = parameterTurn g' rd' rn' o2 d' nv' sh' p' s'"
proof -
  have options: "g (np_options p') = g' (np_options p')" by (rule ext) (rule sub, simp add: subProperties_def)
  have many: "manyItems g p' = manyItems g' p'" and single: "singleItem g rd p' = singleItem g' rd p'" for rd
    by (intro ext manyItems_cong sub, assumption) (intro ext singleItem_cong sub)
  show ?thesis unfolding assms(1-8) parameterTurn_def collectionParameter_def fixedCollectionParameter_def options many single ..
qed

text \<open>
  The parameters without what is hidden, with the defaults or without what is the default. Whether one is displayed is read from a
  first run, or from the values so far. The indices are within the array; the test shows that the recursion ends.
\<close>

function getNodeParameters ::
    "ParameterEnv \<Rightarrow> INodeProperties list \<Rightarrow> json \<Rightarrow> bool \<Rightarrow> bool \<Rightarrow> int option \<Rightarrow> NodeTypeDescription option \<Rightarrow>
       GetNodeParametersOptions \<Rightarrow> json result" where
  "getNodeParameters env nodePropertiesArray nodeValues returnDefaults returnNoneDisplayed node description options =
     (let dependencies = (case go_parameterDependencies options of
            None \<Rightarrow> getParameterDependencies nodePropertiesArray | Some d \<Rightarrow> d) in
      res_bind
        (if \<not> go_dataIsResolved options \<and> \<not> returnNoneDisplayed then
           res_bind (getNodeParameters env nodePropertiesArray nodeValues True True node description
             \<lparr>go_onlySimpleTypes = True, go_dataIsResolved = True, go_nodeValuesRoot = go_nodeValuesRoot options,
              go_parentType = go_parentType options, go_parameterDependencies = Some dependencies\<rparr>) (\<lambda>d. Inr (Some d))
         else Inr None)
        (\<lambda>resolved. res_bind (getParameterResolveOrder nodePropertiesArray dependencies)
        (\<lambda>order. res_bind
          (res_fold (\<lambda>i s.
             if i < length nodePropertiesArray \<and> ps_returned s = None then
               (let p = nodePropertiesArray ! i;
                    displayCheck = (case resolved of None \<Rightarrow> JObj (ps_nodeParametersFull s) | Some d \<Rightarrow> d);
                    root = orElse (go_nodeValuesRoot options) displayCheck
                in parameterTurn
                  (\<lambda>properties values. getNodeParameters env properties values returnDefaults returnNoneDisplayed node description
                     \<lparr>go_onlySimpleTypes = False, go_dataIsResolved = False, go_nodeValuesRoot = Some root,
                      go_parentType = Some (np_type p), go_parameterDependencies = None\<rparr>)
                  returnDefaults returnNoneDisplayed options (duplicateNames nodePropertiesArray) nodeValues
                  (displayParameter env displayCheck (np_displayOptions p) node description (Some root)) p s)
             else Inr s) order \<lparr>ps_nodeParameters = [], ps_nodeParametersFull = [], ps_returned = None\<rparr>)
          (\<lambda>s. Inr (case ps_returned s of Some v \<Rightarrow> v | None \<Rightarrow> JObj (ps_nodeParameters s))))))"
  by pat_completeness auto
termination
  by (relation "measures [\<lambda>(_, properties, _). size_list size properties,
      \<lambda>(_, _, _, _, returnNoneDisplayed, _, _, options). if \<not> go_dataIsResolved options \<and> \<not> returnNoneDisplayed then 1 else 0]")
    (auto dest: size_subProperties_nth)

declare getNodeParameters.simps [simp del]

section \<open>What is returned\<close>

lemma res_fold_sets:
  assumes "res_fold f xs s = Inr s'" and "P s"
    and "\<And>x s t. x \<in> set xs \<Longrightarrow> P s \<Longrightarrow> f x s = Inr t \<Longrightarrow> P t \<and> val t = val s \<union> V x"
  shows "P s' \<and> val s' = val s \<union> (\<Union>x \<in> set xs. V x)"
  using assms
proof (induction xs arbitrary: s)
  case (Cons x xs)
  from Cons.prems(1) obtain t where t: "f x s = Inr t" "res_fold f xs t = Inr s'" by (auto simp: res_bind_Inr_iff)
  have st: "P t \<and> val t = val s \<union> V x" by (rule Cons.prems(3) [OF _ Cons.prems(2) t(1)]) simp
  have "P s' \<and> val s' = val t \<union> (\<Union>x \<in> set xs. V x)"
    by (rule Cons.IH [OF t(2)]) (simp add: st, rule Cons.prems(3), simp_all)
  with st show ?case by auto
qed simp

lemma getParameterResolveOrder_set: "getParameterResolveOrder props deps = Inr order \<Longrightarrow> set order = {..<length props}"
  using resolveLoop_order [of "map np_name props" deps "startResolve (length props)" order]
  by (simp add: getParameterResolveOrder_def orderInv_def startResolve_def lessThan_atLeast0)

definition parameterKeys :: "ParameterState \<Rightarrow> string set" where
  "parameterKeys s = fst ` set (ps_nodeParameters s)"

lemma parameterKeys_simps [simp]:
  "parameterKeys (setBoth k v s) = insert k (parameterKeys s)" "parameterKeys (setParameter k v s) = insert k (parameterKeys s)"
  "ps_returned (setBoth k v s) = ps_returned s" "ps_returned (setParameter k v s) = ps_returned s"
  "parameterKeys (s\<lparr>ps_returned := r\<rparr>) = parameterKeys s"
  by (simp_all add: parameterKeys_def setBoth_def setParameter_def keys_obj_set)

lemma stripExpression_keys [simp]:
  "parameterKeys (stripExpression p s) = parameterKeys s" "ps_returned (stripExpression p s) = ps_returned s"
proof -
  have "np_name p \<in> parameterKeys s" if "map_of (ps_nodeParameters s) (np_name p) = Some v" for v
    using map_of_SomeD [OF that] by (force simp: parameterKeys_def)
  then show "parameterKeys (stripExpression p s) = parameterKeys s"
    by (auto simp: stripExpression_def split: option.split json.split)
  show "ps_returned (stripExpression p s) = ps_returned s"
    by (simp add: stripExpression_def split: option.split json.split)
qed

text \<open>With defaults a turn adds the parameter if it is displayed.\<close>

lemma turn_with_defaults:
  assumes "parameterTurn g True False options duplicates nodeValues shown p s = Inr t" and "json_truthy nodeValues"
    and "go_parentType options \<noteq> Some ''collection''" and "\<not> go_onlySimpleTypes options"
  shows "ps_returned t = ps_returned s \<and> parameterKeys t = parameterKeys s \<union> (if shown then {np_name p} else {})"
proof (cases shown)
  case False
  with assms show ?thesis by (simp add: parameterTurn_def Let_def)
next
  case True
  show ?thesis
  proof (cases "np_type p \<notin> {''collection'', ''fixedCollection''}")
    case simple: True
    with assms True show ?thesis by (auto simp: parameterTurn_def simpleParameter_def Let_def)
  next
    case False
    then show ?thesis
    proof (cases "np_type p = ''collection''")
      case col: True
      then have "collectionParameter g True p (jsProp nodeValues (np_name p)) s = Inr t"
        using assms True by (simp add: parameterTurn_def Let_def)
      with True show ?thesis
        by (auto simp: collectionParameter_def res_bind_Inr_iff split: if_splits option.splits)
    next
      case fixed: False
      then have "fixedCollectionParameter g True p nodeValues (jsProp nodeValues (np_name p)) s = Inr t"
        using assms True False by (simp add: parameterTurn_def Let_def)
      with True show ?thesis
        by (auto simp: fixedCollectionParameter_def res_bind_Inr_iff Let_def split: if_splits)
    qed
  qed
qed

text \<open>Without defaults it adds at most a displayed parameter that has a value, or the loop returns what it was given.\<close>

lemma turn_without_defaults:
  assumes "parameterTurn g False False options duplicates nodeValues shown p s = Inr t"
  shows "ps_returned t \<in> {ps_returned s, Some nodeValues} \<and>
    parameterKeys t \<subseteq> parameterKeys s \<union> (if shown \<and> jsProp nodeValues (np_name p) \<noteq> None then {np_name p} else {})"
proof (cases "json_truthy nodeValues \<and> shown \<and> jsProp nodeValues (np_name p) \<noteq> None")
  case False
  with assms have "t = s" by (auto simp: parameterTurn_def Let_def split: if_splits)
  then show ?thesis by simp
next
  case True
  show ?thesis
  proof (cases "np_type p \<notin> {''collection'', ''fixedCollection''} \<or> go_onlySimpleTypes options")
    case simple: True
    with assms True show ?thesis
      by (auto simp: parameterTurn_def simpleParameter_def Let_def split: if_splits option.splits)
  next
    case False
    then show ?thesis
    proof (cases "np_type p = ''collection''")
      case col: True
      then have "collectionParameter g False p (jsProp nodeValues (np_name p)) s = Inr t"
        using assms True False by (simp add: parameterTurn_def Let_def)
      with True show ?thesis
        by (auto simp: collectionParameter_def res_bind_Inr_iff split: if_splits option.splits)
    next
      case fixed: False
      then have "fixedCollectionParameter g False p nodeValues (jsProp nodeValues (np_name p)) s = Inr t"
        using assms True False by (simp add: parameterTurn_def Let_def)
      with True show ?thesis
        by (auto simp: fixedCollectionParameter_def res_bind_Inr_iff Let_def split: if_splits)
    qed
  qed
qed

text \<open>Where the values come from that decide what is displayed, and which parameters they let through.\<close>

definition displayValues ::
    "ParameterEnv \<Rightarrow> INodeProperties list \<Rightarrow> json \<Rightarrow> int option \<Rightarrow> NodeTypeDescription option \<Rightarrow> GetNodeParametersOptions \<Rightarrow> json result" where
  "displayValues env props values node description options =
     getNodeParameters env props values True True node description
       \<lparr>go_onlySimpleTypes = True, go_dataIsResolved = True, go_nodeValuesRoot = go_nodeValuesRoot options,
        go_parentType = go_parentType options,
        go_parameterDependencies = Some (case go_parameterDependencies options of None \<Rightarrow> getParameterDependencies props | Some d \<Rightarrow> d)\<rparr>"

definition displayedNames ::
    "ParameterEnv \<Rightarrow> INodeProperties list \<Rightarrow> int option \<Rightarrow> NodeTypeDescription option \<Rightarrow> GetNodeParametersOptions \<Rightarrow> json \<Rightarrow> string list" where
  "displayedNames env props node description options d =
     map np_name (filter (\<lambda>p. displayParameter env d (np_displayOptions p) node description (Some (orElse (go_nodeValuesRoot options) d))) props)"

definition turnFor ::
    "ParameterEnv \<Rightarrow> INodeProperties list \<Rightarrow> json \<Rightarrow> bool \<Rightarrow> int option \<Rightarrow> NodeTypeDescription option \<Rightarrow> GetNodeParametersOptions \<Rightarrow>
       json \<Rightarrow> nat \<Rightarrow> ParameterState \<Rightarrow> ParameterState result" where
  "turnFor env props values rd node description options d i s =
     (if i < length props \<and> ps_returned s = None then
       parameterTurn (\<lambda>properties v. getNodeParameters env properties v rd False node description
           \<lparr>go_onlySimpleTypes = False, go_dataIsResolved = False, go_nodeValuesRoot = Some (orElse (go_nodeValuesRoot options) d),
            go_parentType = Some (np_type (props ! i)), go_parameterDependencies = None\<rparr>)
         rd False options (duplicateNames props) values
         (displayParameter env d (np_displayOptions (props ! i)) node description (Some (orElse (go_nodeValuesRoot options) d))) (props ! i) s
      else Inr s)"

lemma getNodeParameters_loop:
  assumes run: "getNodeParameters env props values rd False node description options = Inr result" and res: "\<not> go_dataIsResolved options"
  obtains d order s where "displayValues env props values node description options = Inr d" "set order = {..<length props}"
    "res_fold (turnFor env props values rd node description options d) order
       \<lparr>ps_nodeParameters = [], ps_nodeParametersFull = [], ps_returned = None\<rparr> = Inr s"
    "result = (case ps_returned s of Some v \<Rightarrow> v | None \<Rightarrow> JObj (ps_nodeParameters s))"
proof -
  let ?deps = "case go_parameterDependencies options of None \<Rightarrow> getParameterDependencies props | Some d \<Rightarrow> d"
  have "\<exists>d order s. displayValues env props values node description options = Inr d \<and> getParameterResolveOrder props ?deps = Inr order \<and>
      res_fold (turnFor env props values rd node description options d) order
        \<lparr>ps_nodeParameters = [], ps_nodeParametersFull = [], ps_returned = None\<rparr> = Inr s \<and>
      result = (case ps_returned s of Some v \<Rightarrow> v | None \<Rightarrow> JObj (ps_nodeParameters s))"
    using run res
    by (subst (asm) getNodeParameters.simps)
      (auto simp: res_bind_Inr_iff displayValues_def Let_def turnFor_def [abs_def] cong: if_cong)
  then obtain d order s where "displayValues env props values node description options = Inr d"
    and order: "getParameterResolveOrder props ?deps = Inr order"
    and rest: "res_fold (turnFor env props values rd node description options d) order
        \<lparr>ps_nodeParameters = [], ps_nodeParametersFull = [], ps_returned = None\<rparr> = Inr s"
      "result = (case ps_returned s of Some v \<Rightarrow> v | None \<Rightarrow> JObj (ps_nodeParameters s))"
    by (elim exE conjE) (rule that)
  from that [OF this(1) getParameterResolveOrder_set [OF order] rest] show thesis .
qed

lemma displayed_union:
  assumes "set order = {..<length props}"
  shows "(\<Union>i \<in> set order. if Q (props ! i) then {np_name (props ! i)} else {}) = np_name ` {p \<in> set props. Q p}"
  using assms by (auto simp: in_set_conv_nth split: if_splits)

lemma getNodeParameters_defaults:
  assumes run: "getNodeParameters env props values True False node description options = Inr result"
    and o: "\<not> go_dataIsResolved options" "\<not> go_onlySimpleTypes options" "go_parentType options \<noteq> Some ''collection''"
    and v: "json_truthy values"
  shows "\<exists>d entries. displayValues env props values node description options = Inr d \<and> result = JObj entries \<and>
    fst ` set entries = set (displayedNames env props node description options d)"
proof -
  from run o(1) obtain d order s where d: "displayValues env props values node description options = Inr d" "set order = {..<length props}"
    and f: "res_fold (turnFor env props values True node description options d) order
       \<lparr>ps_nodeParameters = [], ps_nodeParametersFull = [], ps_returned = None\<rparr> = Inr s"
    and r: "result = (case ps_returned s of Some v \<Rightarrow> v | None \<Rightarrow> JObj (ps_nodeParameters s))" by (rule getNodeParameters_loop)
  let ?shown = "\<lambda>p. displayParameter env d (np_displayOptions p) node description (Some (orElse (go_nodeValuesRoot options) d))"
  have "ps_returned s = None \<and> parameterKeys s =
      parameterKeys \<lparr>ps_nodeParameters = [], ps_nodeParametersFull = [], ps_returned = None\<rparr> \<union>
      (\<Union>i \<in> set order. if ?shown (props ! i) then {np_name (props ! i)} else {})"
  proof (rule res_fold_sets [where P = "\<lambda>s. ps_returned s = None", OF f])
    fix i s t
    assume "i \<in> set order" and s: "ps_returned s = None" and t: "turnFor env props values True node description options d i s = Inr t"
    then have i: "i < length props" using d(2) by simp
    show "ps_returned t = None \<and> parameterKeys t = parameterKeys s \<union> (if ?shown (props ! i) then {np_name (props ! i)} else {})"
      using turn_with_defaults [OF _ v o(3,2)] t [unfolded turnFor_def] s i by (simp only: simp_thms if_True)
  qed simp
  then have s: "ps_returned s = None" and keys: "fst ` set (ps_nodeParameters s) = np_name ` {p \<in> set props. ?shown p}"
    unfolding displayed_union [OF d(2), of ?shown] by (simp_all add: parameterKeys_def)
  from d(1) r s keys show ?thesis by (simp add: displayedNames_def)
qed


text \<open>Without defaults, what a turn adds for a parameter that is not a fixed collection.\<close>

definition keptWithoutDefaults :: "json \<Rightarrow> INodeProperties \<Rightarrow> bool" where
  "keptWithoutDefaults values p \<longleftrightarrow>
     (case jsProp values (np_name p) of None \<Rightarrow> False
      | Some v \<Rightarrow> np_type p = ''collection'' \<or> differsFromDefault p (Some v))"

lemma turn_without_defaults_exact:
  assumes turn: "parameterTurn g False False options duplicates nodeValues shown p s = Inr t"
    and v: "json_truthy nodeValues" and o: "go_parentType options \<noteq> Some ''collection''" "\<not> go_onlySimpleTypes options"
    and p: "np_type p \<noteq> ''fixedCollection''"
  shows "ps_returned t = ps_returned s \<and>
    parameterKeys t = parameterKeys s \<union> (if shown \<and> keptWithoutDefaults nodeValues p then {np_name p} else {})"
proof (cases "shown \<and> jsProp nodeValues (np_name p) \<noteq> None")
  case False
  with turn v have "t = s" by (auto simp: parameterTurn_def Let_def split: if_splits)
  with False show ?thesis by (auto simp: keptWithoutDefaults_def)
next
  case True
  show ?thesis
  proof (cases "np_type p = ''collection''")
    case col: True
    then have "collectionParameter g False p (jsProp nodeValues (np_name p)) s = Inr t"
      using turn v o True by (simp add: parameterTurn_def Let_def)
    with True col show ?thesis
      by (auto simp: collectionParameter_def keptWithoutDefaults_def res_bind_Inr_iff split: if_splits option.splits)
  next
    case False
    with turn v o p True show ?thesis
      by (auto simp: parameterTurn_def simpleParameter_def keptWithoutDefaults_def Let_def split: if_splits option.splits)
  qed
qed

lemma getNodeParameters_without_defaults:
  assumes run: "getNodeParameters env props values False False node description options = Inr result"
    and o: "\<not> go_dataIsResolved options" "\<not> go_onlySimpleTypes options" "go_parentType options \<noteq> Some ''collection''"
    and v: "json_truthy values"
  shows "\<exists>d. displayValues env props values node description options = Inr d \<and>
    (result = values \<or> (\<exists>entries. result = JObj entries \<and>
       fst ` set entries \<subseteq> {n \<in> set (displayedNames env props node description options d). jsProp values n \<noteq> None})) \<and>
    ((\<forall>p \<in> set props. np_type p \<noteq> ''fixedCollection'') \<longrightarrow> (\<exists>entries. result = JObj entries \<and>
       fst ` set entries = set (displayedNames env (filter (keptWithoutDefaults values) props) node description options d)))"
proof -
  from run o(1) obtain d order s where d: "displayValues env props values node description options = Inr d" "set order = {..<length props}"
    and f: "res_fold (turnFor env props values False node description options d) order
       \<lparr>ps_nodeParameters = [], ps_nodeParametersFull = [], ps_returned = None\<rparr> = Inr s"
    and r: "result = (case ps_returned s of Some v \<Rightarrow> v | None \<Rightarrow> JObj (ps_nodeParameters s))" by (rule getNodeParameters_loop)
  let ?shown = "\<lambda>p. displayParameter env d (np_displayOptions p) node description (Some (orElse (go_nodeValuesRoot options) d))"
  let ?names = "{n \<in> set (displayedNames env props node description options d). jsProp values n \<noteq> None}"
  have "ps_returned s \<in> {None, Some values} \<and> parameterKeys s \<subseteq> ?names"
  proof (rule res_fold_invariant [where P = "\<lambda>s. ps_returned s \<in> {None, Some values} \<and> parameterKeys s \<subseteq> ?names", OF f])
    fix i s t
    assume "i \<in> set order" and s: "ps_returned s \<in> {None, Some values} \<and> parameterKeys s \<subseteq> ?names"
      and t: "turnFor env props values False node description options d i s = Inr t"
    then have i: "i < length props" using d(2) by simp
    show "ps_returned t \<in> {None, Some values} \<and> parameterKeys t \<subseteq> ?names"
    proof (cases "ps_returned s = None")
      case True
      with t i have "ps_returned t \<in> {ps_returned s, Some values} \<and>
        parameterKeys t \<subseteq> parameterKeys s \<union> (if ?shown (props ! i) \<and> jsProp values (np_name (props ! i)) \<noteq> None then {np_name (props ! i)} else {})"
        by (intro turn_without_defaults) (simp add: turnFor_def)
      moreover have "np_name (props ! i) \<in> ?names" if "?shown (props ! i)" "jsProp values (np_name (props ! i)) \<noteq> None"
        using that i by (auto simp: displayedNames_def)
      ultimately show ?thesis using s True by (fastforce split: if_splits)
    next
      case False
      with t have "t = s" by (auto simp: turnFor_def)
      with s show ?thesis by simp
    qed
  qed (simp add: parameterKeys_def)
  then have some: "result = values \<or> (\<exists>entries. result = JObj entries \<and> fst ` set entries \<subseteq> ?names)"
    using r by (auto simp: parameterKeys_def)
  have all: "\<exists>entries. result = JObj entries \<and>
       fst ` set entries = set (displayedNames env (filter (keptWithoutDefaults values) props) node description options d)"
    if plain: "\<forall>p \<in> set props. np_type p \<noteq> ''fixedCollection''"
  proof -
    let ?kept = "\<lambda>p. ?shown p \<and> keptWithoutDefaults values p"
    have "ps_returned s = None \<and> parameterKeys s =
        parameterKeys \<lparr>ps_nodeParameters = [], ps_nodeParametersFull = [], ps_returned = None\<rparr> \<union>
        (\<Union>i \<in> set order. if ?kept (props ! i) then {np_name (props ! i)} else {})"
    proof (rule res_fold_sets [where P = "\<lambda>s. ps_returned s = None", OF f])
      fix i s t
      assume "i \<in> set order" and s: "ps_returned s = None" and t: "turnFor env props values False node description options d i s = Inr t"
      then have i: "i < length props" using d(2) by simp
      have p: "np_type (props ! i) \<noteq> ''fixedCollection''" by (rule plain [rule_format]) (rule nth_mem [OF i])
      show "ps_returned t = None \<and> parameterKeys t = parameterKeys s \<union> (if ?kept (props ! i) then {np_name (props ! i)} else {})"
        using turn_without_defaults_exact [OF _ v o(3,2) p] t [unfolded turnFor_def] s i by (simp only: simp_thms if_True)
    qed simp
    then have "ps_returned s = None" and "fst ` set (ps_nodeParameters s) = np_name ` {p \<in> set props. ?kept p}"
      unfolding displayed_union [OF d(2), of ?kept] by (simp_all add: parameterKeys_def)
    with r show ?thesis by (auto simp: displayedNames_def)
  qed
  from d(1) some all show ?thesis by blast
qed




text \<open>A node with a resource, a parameter for users and one for groups.\<close>

definition exampleEnv :: ParameterEnv where
  "exampleEnv = \<lparr>pe_get = jsProp, pe_regexTest = (\<lambda>_ _. False), pe_stringToNumber = (\<lambda>_. None)\<rparr>"

definition exampleOptions :: GetNodeParametersOptions where
  "exampleOptions = \<lparr>go_onlySimpleTypes = False, go_dataIsResolved = False, go_nodeValuesRoot = None, go_parentType = None,
     go_parameterDependencies = None\<rparr>"

definition exampleProperties :: "INodeProperties list" where
  "exampleProperties =
     [INodeProperties ''user'' ''string'' (JStr []) None (Some [(''show'', [(''resource'', [Value (JStr ''u'')])])]) False [] [],
      INodeProperties ''resource'' ''options'' (JStr ''u'') None None False [] [],
      INodeProperties ''group'' ''string'' (JStr []) None (Some [(''show'', [(''resource'', [Value (JStr ''g'')])])]) False [] []]"

definition exampleValues :: json where
  "exampleValues = JObj [(''group'', JStr ''a''), (''user'', JStr ''b'')]"

lemma example_dependencies:
  "getParameterDependencies exampleProperties = [(''user'', [''resource'']), (''resource'', []), (''group'', [''resource''])]"
  by code_simp

lemma example_order: "getParameterResolveOrder exampleProperties (getParameterDependencies exampleProperties) = Inr [0, 1, 2, 0]"
  by code_simp


lemmas parameter_run = parameterTurn_def simpleParameter_def valueOrDefault_def differsFromDefault_def stripExpression_def
  setBoth_def setParameter_def jsProp_def duplicateNames_def Let_def exampleOptions_def exampleValues_def exampleProperties_def

lemma example_values:
  "displayValues exampleEnv exampleProperties exampleValues (Some 1) None exampleOptions =
     Inr (JObj [(''user'', JStr ''b''), (''resource'', JStr ''u''), (''group'', JStr ''a'')])"
proof -
  have order: "getParameterResolveOrder exampleProperties
      [(''user'', [''resource'']), (''resource'', []), (''group'', [''resource''])] = Inr [0, 1, 2, 0]"
    using example_order unfolding example_dependencies .
  show ?thesis
    unfolding displayValues_def exampleOptions_def GetNodeParametersOptions.simps option.case example_dependencies
    by (subst getNodeParameters.simps) (simp add: order, simp add: parameter_run, code_simp)
qed

lemma example_displayed:
  "displayParameter exampleEnv (JObj [(''user'', JStr ''b''), (''resource'', JStr ''u''), (''group'', JStr ''a'')])
     (np_displayOptions (exampleProperties ! i)) (Some 1) None
     (Some (JObj [(''user'', JStr ''b''), (''resource'', JStr ''u''), (''group'', JStr ''a'')])) \<longleftrightarrow> i \<noteq> 2" if "i < 3"
proof -
  have "i \<in> {0, 1, 2}" using that by auto
  then show ?thesis by (elim insertE emptyE; hypsubst; code_simp)
qed


lemma example_result:
  "getNodeParameters exampleEnv exampleProperties exampleValues rd False (Some 1) None exampleOptions =
     Inr (JObj (if rd then [(''user'', JStr ''b''), (''resource'', JStr ''u'')] else [(''user'', JStr ''b'')]))"
proof -
  have order: "getParameterResolveOrder exampleProperties
      [(''user'', [''resource'']), (''resource'', []), (''group'', [''resource''])] = Inr [0, 1, 2, 0]"
    using example_order unfolding example_dependencies .
  have first: "getNodeParameters exampleEnv exampleProperties exampleValues True True (Some 1) None
      \<lparr>go_onlySimpleTypes = True, go_dataIsResolved = True, go_nodeValuesRoot = None, go_parentType = None,
       go_parameterDependencies = Some [(''user'', [''resource'']), (''resource'', []), (''group'', [''resource''])]\<rparr> =
    Inr (JObj [(''user'', JStr ''b''), (''resource'', JStr ''u''), (''group'', JStr ''a'')])"
    using example_values unfolding displayValues_def exampleOptions_def GetNodeParametersOptions.simps option.case example_dependencies .
  have shown: "displayParameter exampleEnv (JObj [(''user'', JStr ''b''), (''resource'', JStr ''u''), (''group'', JStr ''a'')])
     (np_displayOptions (exampleProperties ! i)) (Some 1) None
     (Some (JObj [(''user'', JStr ''b''), (''resource'', JStr ''u''), (''group'', JStr ''a'')])) = (i \<noteq> 2)" if "i \<in> {0, 1, 2}" for i
    using example_displayed that by auto
  have keys: "orElse None d = d" for d by (simp add: orElse_def)
  show ?thesis
    unfolding exampleOptions_def
    by (subst getNodeParameters.simps)
      (simp add: order first example_dependencies keys shown Let_def, simp add: parameter_run, code_simp)
qed



text \<open>
  An empty fixed collection with a single value ends the loop with everything that was given, also what is hidden.
\<close>

lemma res_fold_returned:
  "ps_returned s \<noteq> None \<Longrightarrow> res_fold (turnFor env props values rd node description options d) order s = Inr s"
  by (induction order) (auto simp: turnFor_def)

lemma getNodeParameters_run:
  assumes "displayValues env props values node description options = Inr d"
    and "getParameterResolveOrder props (case go_parameterDependencies options of None \<Rightarrow> getParameterDependencies props | Some d \<Rightarrow> d) =
      Inr order"
    and "\<not> go_dataIsResolved options"
  shows "getNodeParameters env props values rd False node description options =
    res_bind (res_fold (turnFor env props values rd node description options d) order
       \<lparr>ps_nodeParameters = [], ps_nodeParametersFull = [], ps_returned = None\<rparr>)
     (\<lambda>s. Inr (case ps_returned s of Some v \<Rightarrow> v | None \<Rightarrow> JObj (ps_nodeParameters s)))"
  using assms unfolding displayValues_def
  by (subst getNodeParameters.simps) (simp add: Let_def turnFor_def [abs_def] cong: if_cong)

lemma getNodeParameters_returns:
  assumes d: "displayValues env props values node description options = Inr d"
    and order: "getParameterResolveOrder props (case go_parameterDependencies options of None \<Rightarrow> getParameterDependencies props | Some d \<Rightarrow> d) =
      Inr (i # rest)"
    and res: "\<not> go_dataIsResolved options"
    and turn: "turnFor env props values rd node description options d i
      \<lparr>ps_nodeParameters = [], ps_nodeParametersFull = [], ps_returned = None\<rparr> = Inr s" and s: "ps_returned s = Some v"
  shows "getNodeParameters env props values rd False node description options = Inr v"
  by (simp add: getNodeParameters_run [OF d order res] turn res_fold_returned s)

lemma empty_collection_keeps_hidden:
  "getNodeParameters exampleEnv (INodeProperties ''filter'' ''fixedCollection'' (JObj []) (Some False) None False [] [] # exampleProperties)
     (JObj [(''group'', JStr ''a''), (''filter'', JObj [])]) False False (Some 1) None exampleOptions =
   Inr (JObj [(''group'', JStr ''a''), (''filter'', JObj [])])"
proof -
  let ?props = "INodeProperties ''filter'' ''fixedCollection'' (JObj []) (Some False) None False [] [] # exampleProperties"
  let ?deps = "[(''filter'', []), (''user'', [''resource'']), (''resource'', []), (''group'', [''resource''])]"
  have deps: "getParameterDependencies ?props = ?deps" by code_simp
  have order: "getParameterResolveOrder ?props ?deps = Inr [0, 1, 2, 3, 1]" by code_simp
  have "\<exists>d. displayValues exampleEnv ?props (JObj [(''group'', JStr ''a''), (''filter'', JObj [])]) (Some 1) None exampleOptions = Inr d"
    unfolding displayValues_def exampleOptions_def GetNodeParametersOptions.simps option.case deps
    by (subst getNodeParameters.simps) (simp add: order, simp add: parameter_run)
  then obtain d where d: "displayValues exampleEnv ?props (JObj [(''group'', JStr ''a''), (''filter'', JObj [])])
    (Some 1) None exampleOptions = Inr d" ..
  show ?thesis
  proof (rule getNodeParameters_returns [OF d])
    show "getParameterResolveOrder ?props (case go_parameterDependencies exampleOptions of
        None \<Rightarrow> getParameterDependencies ?props | Some d \<Rightarrow> d) = Inr (0 # [1, 2, 3, 1])"
      using order by (simp add: exampleOptions_def deps)
    show "ps_returned \<lparr>ps_nodeParameters = [], ps_nodeParametersFull = [],
        ps_returned = Some (JObj [(''group'', JStr ''a''), (''filter'', JObj [])])\<rparr> = Some (JObj [(''group'', JStr ''a''), (''filter'', JObj [])])"
      by simp
  qed (simp_all add: exampleOptions_def turnFor_def parameterTurn_def displayParameter_def fixedCollectionParameter_def jsProp_def)
qed

end
