(* ===== verification/Workflow_Diff.thy ===== *)
theory Workflow_Diff
  imports Connections Node_Parameters "HOL-Library.Sublist"
begin

text \<open>
  What changes between two versions of a workflow: \<open>packages/workflow/src/connections-diff.ts\<close>, and of \<open>workflow-diff.ts\<close> the
  comparison of nodes, the change set and the test whether a version keeps all the data of an earlier one. A node is the object with
  its fields; it has an id, a name and parameters, as its type says. \<open>JSON.stringify\<close> on a connection is an argument.
\<close>

section \<open>Connections\<close>

text \<open>The connections of a node with an input name and a source index are \<open>conn_group\<close>.\<close>

record ConnectionEntry =
  ce_sourceIndex :: nat
  ce_index :: nat
  ce_connection :: IConnection

type_synonym INodeConnectionsDiff = "(string, ConnectionEntry list) dict"

definition allKeys :: "('k, 'v) dict \<Rightarrow> ('k, 'v) dict \<Rightarrow> 'k list" where
  "allKeys prev nxt = remdups (map fst prev) @ filter (\<lambda>k. k \<notin> fst ` set prev) (remdups (map fst nxt))"

text \<open>The turns of the three loops.\<close>

definition allBuckets :: "IConnections \<Rightarrow> IConnections \<Rightarrow> (string \<times> string \<times> nat) list" where
  "allBuckets prev nxt =
     concat (map (\<lambda>nodeName. concat (map (\<lambda>inputName.
         map (\<lambda>sourceIndex. (nodeName, inputName, sourceIndex))
           [0..<max (length (or_empty (map_of (or_empty (map_of prev nodeName)) inputName)))
                    (length (or_empty (map_of (or_empty (map_of nxt nodeName)) inputName)))])
       (allKeys (or_empty (map_of prev nodeName)) (or_empty (map_of nxt nodeName))))) (allKeys prev nxt))"

definition connectionMap :: "(IConnection \<Rightarrow> string) \<Rightarrow> IConnection list \<Rightarrow> (string, nat \<times> IConnection) dict" where
  "connectionMap stringify connections =
     fold (\<lambda>(idx, conn). AList.update (stringify conn) (idx, conn)) (enumerate 0 connections) []"

definition pushEntry ::
    "string \<Rightarrow> string \<Rightarrow> ConnectionEntry \<Rightarrow> (string, INodeConnectionsDiff) dict \<Rightarrow> (string, INodeConnectionsDiff) dict" where
  "pushEntry nodeName inputName entry changes =
     (let inputs = or_empty (map_of changes nodeName)
      in obj_set nodeName (obj_set inputName (or_empty (map_of inputs inputName) @ [entry]) inputs) changes)"

text \<open>The connections of the first bucket that the second does not have.\<close>

definition bucketChanges ::
    "(IConnection \<Rightarrow> string) \<Rightarrow> IConnections \<Rightarrow> IConnections \<Rightarrow> string \<times> string \<times> nat \<Rightarrow>
       (string, INodeConnectionsDiff) dict \<Rightarrow> (string, INodeConnectionsDiff) dict" where
  "bucketChanges stringify conns others = (\<lambda>(nodeName, inputName, sourceIndex) changes.
     let otherMap = connectionMap stringify (conn_group others nodeName inputName sourceIndex) in
     fold (\<lambda>(key, index, connection) changes.
         if key \<in> fst ` set otherMap then changes
         else pushEntry nodeName inputName
           \<lparr>ce_sourceIndex = sourceIndex, ce_index = index, ce_connection = connection\<rparr> changes)
       (connectionMap stringify (conn_group conns nodeName inputName sourceIndex)) changes)"

text \<open>The loops fill \<open>added\<close> and \<open>removed\<close> side by side; neither reads the other.\<close>

definition compareConnections ::
    "(IConnection \<Rightarrow> string) \<Rightarrow> IConnections \<Rightarrow> IConnections \<Rightarrow>
       (string, INodeConnectionsDiff) dict \<times> (string, INodeConnectionsDiff) dict" where
  "compareConnections stringify prev nxt =
     (fold (bucketChanges stringify nxt prev) (allBuckets prev nxt) [],
      fold (bucketChanges stringify prev nxt) (allBuckets prev nxt) [])"

section \<open>Nodes\<close>

type_synonym DiffableNode = "(string, json) dict"

datatype NodeDiffStatus = Eq | Modified | Added | Deleted

definition node_id :: "DiffableNode \<Rightarrow> string" where
  "node_id n = (case map_of n ''id'' of Some (JStr s) \<Rightarrow> s | _ \<Rightarrow> [])"

definition node_parameters :: "DiffableNode \<Rightarrow> json" where
  "node_parameters n = (case map_of n ''parameters'' of Some v \<Rightarrow> v | None \<Rightarrow> JNull)"

definition propsToCompare :: "string list" where
  "propsToCompare = [''name'', ''type'', ''typeVersion'', ''webhookId'', ''credentials'', ''parameters'']"

definition pick :: "DiffableNode option \<Rightarrow> string list \<Rightarrow> json" where
  "pick n props =
     (case n of None \<Rightarrow> JObj []
      | Some obj \<Rightarrow> JObj (concat (map (\<lambda>k. case map_of obj k of None \<Rightarrow> [] | Some v \<Rightarrow> [(k, v)]) props)))"

definition compareNodes :: "DiffableNode option \<Rightarrow> DiffableNode option \<Rightarrow> bool" where
  "compareNodes base target = isEqual (pick base propsToCompare) (pick target propsToCompare)"

definition nodesById :: "DiffableNode list \<Rightarrow> (string, DiffableNode) dict" where
  "nodesById nodes = fold (\<lambda>n. AList.update (node_id n) n) nodes []"

definition compareWorkflowsNodes ::
    "DiffableNode list \<Rightarrow> DiffableNode list \<Rightarrow> (DiffableNode option \<Rightarrow> DiffableNode option \<Rightarrow> bool) \<Rightarrow>
       (string, NodeDiffStatus \<times> DiffableNode) dict" where
  "compareWorkflowsNodes base target nodesEqual =
     (let baseNodes = nodesById base; targetNodes = nodesById target in
      map (\<lambda>(i, n). (i,
          (if i \<notin> fst ` set targetNodes then Deleted
           else if \<not> nodesEqual (map_of baseNodes i) (map_of targetNodes i) then Modified else Eq), n)) baseNodes @
      map (\<lambda>(i, n). (i, Added, n)) (filter (\<lambda>(i, n). i \<notin> fst ` set baseNodes) targetNodes))"

section \<open>Versions\<close>

text \<open>A version, with the fields of \<open>WorkflowHistory\<close>; \<open>wh_ref\<close> is the identity of the object.\<close>

record WorkflowHistory =
  wh_ref :: nat
  wh_versionId :: string
  wh_workflowId :: string
  wh_nodes :: "DiffableNode list"
  wh_connections :: IConnections
  wh_authors :: string
  wh_createdAt :: int
  wh_name :: "string option"
  wh_description :: "string option"

record WorkflowChangeSet =
  wc_nodes :: "(string, NodeDiffStatus \<times> DiffableNode) dict"
  wc_added :: "(string, INodeConnectionsDiff) dict"
  wc_removed :: "(string, INodeConnectionsDiff) dict"

definition changeSet :: "(IConnection \<Rightarrow> string) \<Rightarrow> WorkflowHistory \<Rightarrow> WorkflowHistory \<Rightarrow> WorkflowChangeSet" where
  "changeSet stringify older newer =
     (if wh_ref older = wh_ref newer
      then \<lparr>wc_nodes = fold (\<lambda>n. AList.update (node_id n) (Eq, n)) (wh_nodes older) [], wc_added = [], wc_removed = []\<rparr>
      else \<lparr>wc_nodes = compareWorkflowsNodes (wh_nodes older) (wh_nodes newer) compareNodes,
        wc_added = fst (compareConnections stringify (wh_connections older) (wh_connections newer)),
        wc_removed = snd (compareConnections stringify (wh_connections older) (wh_connections newer))\<rparr>)"

section \<open>Supersets\<close>

text \<open>The loop of \<open>stringContainsParts\<close>: the characters left, the index of the current one and of the next to find.\<close>

fun containsLoop :: "string \<Rightarrow> int \<Rightarrow> string \<Rightarrow> nat \<Rightarrow> nat \<Rightarrow> bool" where
  "containsLoop substr diffSize [] i marker \<longleftrightarrow> marker \<ge> length substr"
| "containsLoop substr diffSize (c # cs) i marker \<longleftrightarrow>
     (let marker' = (if marker < length substr \<and> substr ! marker = c then Suc marker else marker)
      in if int i - int marker' > diffSize then False else containsLoop substr diffSize cs (Suc i) marker')"

definition stringContainsParts :: "string \<Rightarrow> string \<Rightarrow> bool" where
  "stringContainsParts s substr \<longleftrightarrow>
     (if length substr > length s then False
      else containsLoop substr (int (length s) - int (length substr)) s 0 0)"

text \<open>A property that \<open>hasOwnProperty\<close> finds; arrays have a length.\<close>

definition ownProp :: "json \<Rightarrow> string \<Rightarrow> json option" where
  "ownProp v k = (case v of JArr items \<Rightarrow> if k = ''length'' then Some (JNum (int (length items))) else jsProp v k | _ \<Rightarrow> jsProp v k)"

lemma size_own: "map_of entries k = Some (x :: json) \<Longrightarrow> size x < Suc (size_list (size_prod (\<lambda>_. 0) size) entries)"
  by (rule size_in_entries [OF map_of_SomeD])

function parametersAreSuperset :: "json \<Rightarrow> json \<Rightarrow> bool" where
  "parametersAreSuperset (JStr s) nxt = (case nxt of JStr t \<Rightarrow> stringContainsParts t s | _ \<Rightarrow> False)"
| "parametersAreSuperset JNull nxt = (nxt = JNull)"
| "parametersAreSuperset (JBool b) nxt = (nxt = JBool b)"
| "parametersAreSuperset (JNum n) nxt = (nxt = JNum n)"
| "parametersAreSuperset (JArr xs) nxt =
     (case nxt of JArr ys \<Rightarrow> length xs = length ys \<and> list_all (\<lambda>(x, y). parametersAreSuperset x y) (zip xs ys) | _ \<Rightarrow> False)"
| "parametersAreSuperset (JObj entries) nxt \<longleftrightarrow>
     (case nxt of JObj _ \<Rightarrow> True | JArr _ \<Rightarrow> True | _ \<Rightarrow> False) \<and>
     length entries = length (jsEntries nxt) \<and>
     list_all (\<lambda>k. ownProp nxt k \<noteq> None) (map fst entries) \<and>
     list_all (\<lambda>(k, _). case (map_of entries k, ownProp nxt k) of (Some x, Some y) \<Rightarrow> parametersAreSuperset x y | _ \<Rightarrow> False) entries"
  by pat_completeness auto

termination
  by (relation "measure (\<lambda>(prev, _). size prev)") (simp, (auto dest!: set_zip_leftD dest: size_in_list)[1], (auto dest: size_own [OF sym])[1])

text \<open>A copy of a node in which \<open>parameters\<close> is empty; the field is last.\<close>

definition withoutParameters :: "DiffableNode \<Rightarrow> DiffableNode" where
  "withoutParameters n = AList.delete ''parameters'' n @ [(''parameters'', JObj [])]"

definition nodeIsSuperset :: "DiffableNode \<Rightarrow> DiffableNode \<Rightarrow> bool" where
  "nodeIsSuperset prevNode nextNode \<longleftrightarrow>
     (if \<not> compareNodes (Some (withoutParameters prevNode)) (Some (withoutParameters nextNode)) then False
      else parametersAreSuperset (node_parameters prevNode) (node_parameters nextNode))"

text \<open>The loop over the changed nodes, up to an early return.\<close>

fun additiveNodes :: "DiffableNode list \<Rightarrow> (string, NodeDiffStatus \<times> DiffableNode) dict \<Rightarrow> bool result" where
  "additiveNodes nextNodes [] = Inr True"
| "additiveNodes nextNodes ((i, status, n) # ds) =
     (if status = Deleted then Inr False
      else if status = Added then additiveNodes nextNodes ds
      else case find (\<lambda>x. node_id x = node_id n) nextNodes of
          None \<Rightarrow> Inl (UnexpectedError ''invariant broken - no next node'')
        | Some nextNode \<Rightarrow> if status = Modified \<and> \<not> nodeIsSuperset n nextNode then Inr False else additiveNodes nextNodes ds)"

definition mergeAdditiveChanges :: "WorkflowHistory \<Rightarrow> WorkflowHistory \<Rightarrow> WorkflowChangeSet \<Rightarrow> int option \<Rightarrow> bool result" where
  "mergeAdditiveChanges prev nxt diff metaData =
     res_bind (additiveNodes (wh_nodes nxt) (wc_nodes diff)) (\<lambda>additive.
       Inr (if \<not> additive then False else wc_removed diff = []))"

section \<open>Other comparisons\<close>

text \<open>\<open>isEqual\<close> on objects with values of other types, and on connections.\<close>

definition dictEqual :: "('v \<Rightarrow> 'v \<Rightarrow> bool) \<Rightarrow> ('k, 'v) dict \<Rightarrow> ('k, 'v) dict \<Rightarrow> bool" where
  "dictEqual eq xs ys \<longleftrightarrow>
     length xs = length ys \<and> list_all (\<lambda>(k, x). case map_of ys k of None \<Rightarrow> False | Some y \<Rightarrow> eq x y) xs"

definition connectionsEqual :: "IConnections \<Rightarrow> IConnections \<Rightarrow> bool" where
  "connectionsEqual = dictEqual (dictEqual (=))"

definition hasNonPositionalChanges :: "DiffableNode list \<Rightarrow> DiffableNode list \<Rightarrow> IConnections \<Rightarrow> IConnections \<Rightarrow> bool" where
  "hasNonPositionalChanges oldNodes newNodes oldConnections newConnections \<longleftrightarrow>
     (if list_ex (\<lambda>(i, status, n). status \<noteq> Eq) (compareWorkflowsNodes oldNodes newNodes compareNodes) then True
      else \<not> connectionsEqual oldConnections newConnections)"

definition credentialsOf :: "DiffableNode \<Rightarrow> (string, json) dict" where
  "credentialsOf n = (case map_of n ''credentials'' of Some (JObj entries) \<Rightarrow> entries | _ \<Rightarrow> [])"

definition credentialId :: "(string, json) dict \<Rightarrow> string \<Rightarrow> json option" where
  "credentialId creds credType = (case map_of creds credType of None \<Rightarrow> None | Some c \<Rightarrow> jsProp c ''id'')"

definition hasCredentialChanges :: "DiffableNode list \<Rightarrow> DiffableNode list \<Rightarrow> bool" where
  "hasCredentialChanges oldNodes newNodes \<longleftrightarrow>
     list_ex (\<lambda>oldNode. case map_of (nodesById newNodes) (node_id oldNode) of None \<Rightarrow> False
       | Some newNode \<Rightarrow>
           list_ex (\<lambda>credType. credType \<notin> fst ` set (credentialsOf newNode) \<or>
               credentialId (credentialsOf oldNode) credType \<noteq> credentialId (credentialsOf newNode) credType)
             (map fst (credentialsOf oldNode)) \<or>
           list_ex (\<lambda>credType. credType \<notin> fst ` set (credentialsOf oldNode)) (map fst (credentialsOf newNode))) oldNodes"


section \<open>What a superset keeps\<close>

lemma containsLoop_subseq:
  assumes "marker \<le> length substr" and "diffSize = int i + int (length cs) - int (length substr)"
  shows "containsLoop substr diffSize cs i marker \<longleftrightarrow> subseq (drop marker substr) cs"
  using assms
proof (induction substr diffSize cs i marker rule: containsLoop.induct)
  case (2 substr diffSize c cs i marker)
  let ?m = "if marker < length substr \<and> substr ! marker = c then Suc marker else marker"
  have m: "?m \<le> length substr" using 2(2) by auto
  have step: "subseq (drop marker substr) (c # cs) \<longleftrightarrow> subseq (drop ?m substr) cs"
  proof (cases "marker < length substr")
    case True
    then have "drop marker substr = substr ! marker # drop (Suc marker) substr" by (rule Cons_nth_drop_Suc [symmetric])
    with True show ?thesis by (auto simp: subseq_Cons2_iff)
  qed simp
  show ?case
  proof (cases "int i - int ?m > diffSize")
    case True
    with 2(3) have "length (drop ?m substr) > length cs" by simp
    then have "\<not> subseq (drop ?m substr) cs" by (auto dest: list_emb_length)
    with True show ?thesis unfolding containsLoop.simps(2) Let_def step by simp
  next
    case False
    have "containsLoop substr diffSize cs (Suc i) ?m \<longleftrightarrow> subseq (drop ?m substr) cs"
      by (rule 2(1) [OF refl False m]) (use 2(3) in simp)
    with False show ?thesis unfolding containsLoop.simps(2) Let_def step by simp
  qed
qed (auto dest: list_emb_length)

lemma stringContainsParts_subseq: "stringContainsParts s substr \<longleftrightarrow> subseq substr s"
  using containsLoop_subseq [of 0 substr "int (length s) - int (length substr)" 0 s]
  by (auto simp: stringContainsParts_def dest: list_emb_length)

text \<open>The comment gives the second of these as an example for \<open>false\<close>.\<close>

lemma contains_examples:
  "stringContainsParts ''abcde'' ''abde''" "stringContainsParts ''abcde'' ''abcd''" "\<not> stringContainsParts ''abcde'' ''abced''"
  by code_simp+

inductive keepsData :: "json \<Rightarrow> json \<Rightarrow> bool" where
  same: "\<not> typeofObject v \<or> v = JNull \<Longrightarrow> keepsData v v"
| parts: "subseq s t \<Longrightarrow> keepsData (JStr s) (JStr t)"
| array: "list_all2 keepsData xs ys \<Longrightarrow> keepsData (JArr xs) (JArr ys)"
| object: "typeofObject v \<Longrightarrow> v \<noteq> JNull \<Longrightarrow> length entries = length (jsEntries v) \<Longrightarrow>
    (\<And>k x. map_of entries k = Some x \<Longrightarrow> \<exists>y. ownProp v k = Some y \<and> keepsData x y) \<Longrightarrow> keepsData (JObj entries) v"

inductive_simps keepsData_simps: "keepsData (JStr s) v" "keepsData JNull v" "keepsData (JBool b) v" "keepsData (JNum n) v"
  "keepsData (JArr xs) v" "keepsData (JObj entries) v"

lemma parametersAreSuperset_keepsData: "parametersAreSuperset prev nxt \<longleftrightarrow> keepsData prev nxt"
proof (induction prev nxt rule: parametersAreSuperset.induct)
  case (5 xs nxt)
  then show ?case
    by (cases nxt) (auto simp: keepsData_simps list_all2_iff list_all_iff)
next
  case (6 entries nxt)
  have IH: "parametersAreSuperset x y \<longleftrightarrow> keepsData x y"
    if "(k, z) \<in> set entries" "map_of entries k = Some x" "ownProp nxt k = Some y" for k z x y
    by (rule 6 [OF that(1) refl]) (simp_all add: that)
  have obj: "(case nxt of JObj _ \<Rightarrow> True | JArr _ \<Rightarrow> True | _ \<Rightarrow> False) \<longleftrightarrow> typeofObject nxt \<and> nxt \<noteq> JNull" by (cases nxt) auto
  have "(list_all (\<lambda>k. ownProp nxt k \<noteq> None) (map fst entries) \<and>
      list_all (\<lambda>(k, _). case (map_of entries k, ownProp nxt k) of (Some x, Some y) \<Rightarrow> parametersAreSuperset x y | _ \<Rightarrow> False) entries) \<longleftrightarrow>
    (\<forall>k x. map_of entries k = Some x \<longrightarrow> (\<exists>y. ownProp nxt k = Some y \<and> keepsData x y))" (is "?l \<longleftrightarrow> ?r")
  proof
    assume l: ?l
    show ?r
    proof (intro allI impI)
      fix k x assume x: "map_of entries k = Some x"
      from map_of_SomeD [OF x] have k: "(k, x) \<in> set entries" .
      with l obtain y where y: "ownProp nxt k = Some y" by (auto simp: list_all_iff)
      with l k x have "parametersAreSuperset x y" by (force simp: list_all_iff)
      with IH [OF k x y] y show "\<exists>y. ownProp nxt k = Some y \<and> keepsData x y" by blast
    qed
  next
    assume r: ?r
    have "ownProp nxt k \<noteq> None \<and> (case (map_of entries k, ownProp nxt k) of (Some x, Some y) \<Rightarrow> parametersAreSuperset x y | _ \<Rightarrow> False)"
      if k: "(k, z) \<in> set entries" for k z
    proof -
      from weak_map_of_SomeI [OF k] obtain x where x: "map_of entries k = Some x" ..
      with r obtain y where y: "ownProp nxt k = Some y" "keepsData x y" by blast
      with IH [OF k x y(1)] x show ?thesis by simp
    qed
    then show ?l by (fastforce simp: list_all_iff)
  qed
  then show ?case unfolding parametersAreSuperset.simps(6) obj keepsData_simps(6) by blast
qed (auto simp: keepsData_simps stringContainsParts_subseq split: json.split)

lemma isEqual_keepsData: "isEqual x y \<Longrightarrow> keepsData x y"
proof (induction x y rule: isEqual.induct)
  case (1 xs ys)
  then show ?case by (auto simp: keepsData_simps list_all2_iff list_all_iff)
next
  case (2 xs ys)
  have "\<exists>y. ownProp (JObj ys) k = Some y \<and> keepsData x y" if x: "map_of xs k = Some x" for k x
  proof -
    from map_of_SomeD [OF x] have k: "(k, x) \<in> set xs" .
    with 2(2) obtain y where "map_of ys k = Some y" "isEqual x y" by (auto simp: list_all_iff split: option.splits)
    with 2(1) [OF k refl] show ?thesis by (auto simp: ownProp_def jsProp_def)
  qed
  with 2(2) show ?case by (simp add: keepsData_simps)
qed (auto simp: keepsData_simps)


section \<open>What the comparisons tell\<close>

definition optEqual :: "json option \<Rightarrow> json option \<Rightarrow> bool" where
  "optEqual x y = (case (x, y) of (None, None) \<Rightarrow> True | (Some a, Some b) \<Rightarrow> isEqual a b | _ \<Rightarrow> False)"

abbreviation picked :: "DiffableNode \<Rightarrow> string list \<Rightarrow> (string, json) dict" where
  "picked n props \<equiv> concat (map (\<lambda>k. case map_of n k of None \<Rightarrow> [] | Some v \<Rightarrow> [(k, v)]) props)"

lemma length_picked: "length (picked n props) = length (filter (\<lambda>k. map_of n k \<noteq> None) props)"
  by (induction props) (simp_all split: option.split)

lemma in_picked: "(k, x) \<in> set (picked n props) \<longleftrightarrow> k \<in> set props \<and> map_of n k = Some x"
  by (induction props) (auto split: option.split)

lemma map_of_picked: "map_of (picked n props) k = (if k \<in> set props then map_of n k else None)"
  by (induction props) (auto simp: map_add_def split: option.split)

lemma filter_eqI:
  "\<forall>k \<in> set ps. P k \<longrightarrow> Q k \<Longrightarrow> length (filter P ps) = length (filter Q ps) \<Longrightarrow> \<forall>k \<in> set ps. P k = Q k"
proof (induction ps)
  case (Cons p ps)
  have le: "length (filter P ps) \<le> length (filter Q ps)"
    using Cons.prems(1) by (induction ps) auto
  have imp: "P p \<Longrightarrow> Q p" and rest: "\<forall>k \<in> set ps. P k \<longrightarrow> Q k" using Cons.prems(1) by simp_all
  from Cons.prems(2) le imp have "P p = Q p" "length (filter P ps) = length (filter Q ps)"
    by (cases "P p"; cases "Q p"; simp)+
  with Cons.IH [OF rest] show ?case by simp
qed simp

lemma isEqual_pick:
  "isEqual (pick (Some b) props) (pick (Some t) props) \<longleftrightarrow> (\<forall>k \<in> set props. optEqual (map_of b k) (map_of t k))"
proof -
  have "isEqual (pick (Some b) props) (pick (Some t) props) \<longleftrightarrow>
      length (filter (\<lambda>k. map_of b k \<noteq> None) props) = length (filter (\<lambda>k. map_of t k \<noteq> None) props) \<and>
      (\<forall>k \<in> set props. \<forall>x. map_of b k = Some x \<longrightarrow> (\<exists>y. map_of t k = Some y \<and> isEqual x y))" (is "_ \<longleftrightarrow> ?len \<and> ?all")
  proof -
    have some: "(case v of None \<Rightarrow> False | Some y \<Rightarrow> isEqual x y) \<longleftrightarrow> (\<exists>y. v = Some y \<and> isEqual x y)" for v x
      by (cases v) simp_all
    have "list_all (\<lambda>(k, x). \<exists>y. map_of (picked t props) k = Some y \<and> isEqual x y) (picked b props) \<longleftrightarrow>
      (\<forall>k x. (k, x) \<in> set (picked b props) \<longrightarrow> (\<exists>y. map_of (picked t props) k = Some y \<and> isEqual x y))"
      unfolding list_all_iff by blast
    also have "\<dots> \<longleftrightarrow> ?all" unfolding in_picked map_of_picked by auto
    finally show ?thesis unfolding pick_def option.case isEqual.simps(2) length_picked some by simp
  qed
  also have "\<dots> \<longleftrightarrow> (\<forall>k \<in> set props. optEqual (map_of b k) (map_of t k))" (is "_ \<longleftrightarrow> ?r")
  proof
    assume a: "?len \<and> ?all"
    then have "\<forall>k \<in> set props. map_of b k \<noteq> None \<longrightarrow> map_of t k \<noteq> None" by fastforce
    from filter_eqI [OF this] a have "\<forall>k \<in> set props. (map_of b k \<noteq> None) = (map_of t k \<noteq> None)" by blast
    with a show ?r by (fastforce simp: optEqual_def split: option.splits)
  next
    assume r: ?r
    then have "map_of b k \<noteq> None \<longleftrightarrow> map_of t k \<noteq> None" if "k \<in> set props" for k
      using that by (fastforce simp: optEqual_def split: option.splits)
    then have ?len by (intro arg_cong [of _ _ length] filter_cong) simp_all
    with r show "?len \<and> ?all" by (fastforce simp: optEqual_def split: option.splits)
  qed
  finally show ?thesis .
qed

lemma compareNodes_iff:
  "compareNodes (Some b) (Some t) \<longleftrightarrow> (\<forall>k \<in> set propsToCompare. optEqual (map_of b k) (map_of t k))"
  unfolding compareNodes_def by (rule isEqual_pick)

lemma compareNodes_withoutParameters:
  "compareNodes (Some (withoutParameters b)) (Some (withoutParameters t)) \<longleftrightarrow>
     (\<forall>k \<in> set propsToCompare - {''parameters''}. optEqual (map_of b k) (map_of t k))"
proof -
  have "map_of (withoutParameters n) k = (if k = ''parameters'' then Some (JObj []) else map_of n k)" for n k
    by (simp add: withoutParameters_def map_of_delete map_add_def split: option.split)
  then show ?thesis unfolding compareNodes_iff by (auto simp: optEqual_def)
qed

lemma nodesById_map_of: "distinct (map node_id ns) \<Longrightarrow> map_of (nodesById ns) i = find (\<lambda>n. node_id n = i) ns"
proof -
  have "map_of (fold (\<lambda>n. AList.update (node_id n) n) ns m) i =
      (case find (\<lambda>n. node_id n = i) ns of None \<Rightarrow> map_of m i | Some n \<Rightarrow> Some n)" if "distinct (map node_id ns)" for m
    using that
  proof (induction ns arbitrary: m)
    case (Cons n ns)
    have "find (\<lambda>x. node_id x = i) ns = None" if "node_id n = i"
      unfolding find_None_iff using Cons.prems that by (simp add: image_iff) metis
    with Cons show ?case by (auto simp: update_conv' split: option.split)
  qed simp
  then show "distinct (map node_id ns) \<Longrightarrow> ?thesis" by (simp add: nodesById_def split: option.split)
qed


text \<open>A change set lists exactly the connections that one version has in a bucket and the other does not.\<close>

lemma connectionMap_keys: "fst ` set (connectionMap stringify cs) = stringify ` set cs"
proof -
  have "fst ` set (fold (\<lambda>(idx, conn). AList.update (stringify conn) (idx, conn)) (enumerate n cs) m) = fst ` set m \<union> stringify ` set cs" for n m
    by (induction cs arbitrary: n m) (auto simp: keys_update)
  from this [of 0 "[]"] show ?thesis by (simp add: connectionMap_def)
qed

definition entriesAt :: "(string, INodeConnectionsDiff) dict \<Rightarrow> string \<Rightarrow> string \<Rightarrow> ConnectionEntry list" where
  "entriesAt changes nodeName inputName = or_empty (map_of (or_empty (map_of changes nodeName)) inputName)"

lemma entriesAt_push:
  "entriesAt (pushEntry n t e d) n' t' = entriesAt d n' t' @ (if n' = n \<and> t' = t then [e] else [])"
  by (auto simp: entriesAt_def pushEntry_def map_of_obj_set Let_def)

lemma entriesAt_Nil [simp]: "entriesAt [] n t = []"
  by (simp add: entriesAt_def)

lemma pushEntry_nonempty: "pushEntry n t e d \<noteq> []"
proof
  assume "pushEntry n t e d = []"
  then have "fst ` set (pushEntry n t e d) = {}" by simp
  then show False by (simp add: pushEntry_def Let_def keys_obj_set)
qed

lemma connectionMap_key: "(key, idx, c) \<in> set (connectionMap stringify cs) \<Longrightarrow> key = stringify c"
proof -
  have "\<forall>(key, idx, c) \<in> set (fold (\<lambda>(idx, conn). AList.update (stringify conn) (idx, conn)) ics m). key = stringify c"
    if "\<forall>(key, idx, c) \<in> set m. key = stringify c" for ics and m :: "(string, nat \<times> IConnection) dict"
    using that
  proof (induction ics arbitrary: m)
    case (Cons ic ics)
    have "\<forall>(key, idx, c) \<in> set (AList.update (stringify (snd ic)) ic m). key = stringify c"
      using Cons.prems by (induction m) auto
    from Cons.IH [OF this] show ?case by (simp add: case_prod_beta)
  qed simp
  from this [of "[]" "enumerate 0 cs"] show "(key, idx, c) \<in> set (connectionMap stringify cs) \<Longrightarrow> ?thesis"
    unfolding connectionMap_def by fastforce
qed

text \<open>What one bucket, and then what all of them add to the changes.\<close>

definition changed :: "(IConnection \<Rightarrow> string) \<Rightarrow> IConnections \<Rightarrow> IConnections \<Rightarrow> string \<Rightarrow> string \<Rightarrow> ConnectionEntry \<Rightarrow> bool" where
  "changed stringify conns others n t e \<longleftrightarrow>
     (stringify (ce_connection e), ce_index e, ce_connection e)
       \<in> set (connectionMap stringify (conn_group conns n t (ce_sourceIndex e))) \<and>
     stringify (ce_connection e) \<notin> stringify ` set (conn_group others n t (ce_sourceIndex e))"

lemma bucketChanges_entries:
  "set (entriesAt (bucketChanges stringify conns others (n, t, i) d) n' t') = set (entriesAt d n' t') \<union>
     {e. n' = n \<and> t' = t \<and> ce_sourceIndex e = i \<and> changed stringify conns others n t e}"
proof -
  have "set (entriesAt (fold (\<lambda>(key, index, connection) changes. if key \<in> K then changes
        else pushEntry n t \<lparr>ce_sourceIndex = i, ce_index = index, ce_connection = connection\<rparr> changes) m d) n' t') =
      set (entriesAt d n' t') \<union> {e. n' = n \<and> t' = t \<and> ce_sourceIndex e = i \<and> (\<exists>key. (key, ce_index e, ce_connection e) \<in> set m \<and> key \<notin> K)}"
    for K and m :: "(string, nat \<times> IConnection) dict" and d
  proof (induction m arbitrary: d)
    case (Cons x m)
    obtain key a b where x: "x = (key, a, b)" by (cases x)
    have entry: "e = \<lparr>ce_sourceIndex = i, ce_index = a, ce_connection = b\<rparr> \<longleftrightarrow>
      ce_sourceIndex e = i \<and> ce_index e = a \<and> ce_connection e = b" for e by (cases e) auto
    show ?case by (cases "key \<in> K") (auto simp: x Cons.IH entriesAt_push entry)
  qed simp
  moreover have "(\<exists>key. (key, ce_index e, ce_connection e) \<in> set (connectionMap stringify cs) \<and> key \<notin> K) \<longleftrightarrow>
      (stringify (ce_connection e), ce_index e, ce_connection e) \<in> set (connectionMap stringify cs) \<and> stringify (ce_connection e) \<notin> K"
    for e :: ConnectionEntry and cs K
    using connectionMap_key [of _ "ce_index e" "ce_connection e" stringify cs] by blast
  ultimately have "set (entriesAt (bucketChanges stringify conns others (n, t, i) d) n' t') = set (entriesAt d n' t') \<union>
     {e. n' = n \<and> t' = t \<and> ce_sourceIndex e = i \<and>
       (stringify (ce_connection e), ce_index e, ce_connection e) \<in> set (connectionMap stringify (conn_group conns n t i)) \<and>
       stringify (ce_connection e) \<notin> stringify ` set (conn_group others n t i)}"
    unfolding bucketChanges_def Let_def prod.case connectionMap_keys by simp
  then show ?thesis unfolding changed_def by blast
qed

lemma bucketChanges_Nil:
  "bucketChanges stringify conns others (n, t, i) d = [] \<longleftrightarrow>
     d = [] \<and> stringify ` set (conn_group conns n t i) \<subseteq> stringify ` set (conn_group others n t i)"
proof -
  have "fold (\<lambda>(key, index, connection) changes. if key \<in> K then changes
        else pushEntry n t \<lparr>ce_sourceIndex = i, ce_index = index, ce_connection = connection\<rparr> changes) m d = [] \<longleftrightarrow>
      d = [] \<and> fst ` set m \<subseteq> K" for K and m :: "(string, nat \<times> IConnection) dict" and d
  proof (induction m arbitrary: d)
    case (Cons x m)
    then show ?case by (cases x, cases "fst x \<in> K") (auto simp: pushEntry_nonempty)
  qed simp
  then show ?thesis unfolding bucketChanges_def Let_def prod.case by (simp only: connectionMap_keys)
qed

lemma conn_group_allBuckets:
  assumes "conn_group prev n t i \<noteq> [] \<or> conn_group nxt n t i \<noteq> []"
  shows "(n, t, i) \<in> set (allBuckets prev nxt)"
proof -
  have keys: "set (allKeys p q) = fst ` set p \<union> fst ` set q" for p q :: "('k, 'v) dict"
    by (auto simp: allKeys_def)
  have some: "m \<noteq> [] \<Longrightarrow> or_empty (map_of c k) = m \<Longrightarrow> k \<in> fst ` set c" for m :: "'v list" and c :: "('k, 'v list) dict" and k
    by (cases "map_of c k") (auto dest: map_of_SomeD intro: rev_image_eqI)
  have grp: "conn_group c n t i = (if i < length (or_empty (map_of (or_empty (map_of c n)) t))
      then or_empty (or_empty (map_of (or_empty (map_of c n)) t) ! i) else [])" for c
    by (simp add: conn_group_def split: option.split)
  have "n \<in> fst ` set c \<and> t \<in> fst ` set (or_empty (map_of c n)) \<and> i < length (or_empty (map_of (or_empty (map_of c n)) t))"
    if "conn_group c n t i \<noteq> []" for c
  proof -
    have i: "i < length (or_empty (map_of (or_empty (map_of c n)) t))" using that unfolding grp by (simp split: if_splits)
    then have t: "t \<in> fst ` set (or_empty (map_of c n))" by (intro some [OF _ refl]) auto
    then have "n \<in> fst ` set c" by (intro some [OF _ refl]) auto
    with i t show ?thesis by simp
  qed
  with assms have in_keys: "n \<in> set (allKeys prev nxt)" "t \<in> set (allKeys (or_empty (map_of prev n)) (or_empty (map_of nxt n)))"
    "i < max (length (or_empty (map_of (or_empty (map_of prev n)) t))) (length (or_empty (map_of (or_empty (map_of nxt n)) t)))"
    unfolding keys by fastforce+
  have mem: "x \<in> set xs \<Longrightarrow> y \<in> set (f x) \<Longrightarrow> y \<in> set (concat (map f xs))" for x xs and y :: "string \<times> string \<times> nat" and f by auto
  show ?thesis unfolding allBuckets_def by (rule mem [OF in_keys(1)], rule mem [OF in_keys(2)]) (use in_keys(3) in simp)
qed

text \<open>Both sides of \<open>compareConnections\<close>.\<close>

lemma fold_bucketChanges:
  "set (entriesAt (fold (bucketChanges stringify conns others) bs d) n t) =
     set (entriesAt d n t) \<union> {e. (n, t, ce_sourceIndex e) \<in> set bs \<and> changed stringify conns others n t e}"
proof (induction bs arbitrary: d)
  case (Cons b bs)
  obtain n' t' i where "b = (n', t', i)" by (cases b)
  then show ?case by (auto simp: Cons.IH bucketChanges_entries)
qed simp

lemma fold_bucketChanges_Nil:
  "fold (bucketChanges stringify conns others) bs d = [] \<longleftrightarrow>
     d = [] \<and> (\<forall>(n, t, i) \<in> set bs. stringify ` set (conn_group conns n t i) \<subseteq> stringify ` set (conn_group others n t i))"
proof (induction bs arbitrary: d)
  case (Cons b bs)
  obtain n t i where "b = (n, t, i)" by (cases b)
  then show ?case by (simp add: Cons.IH bucketChanges_Nil conj_ac)
qed simp

lemma changed_bucket: "changed stringify conns others n t e \<Longrightarrow> conn_group conns n t (ce_sourceIndex e) \<noteq> []"
  by (auto simp: changed_def connectionMap_def)

lemma compareConnections_exact:
  "set (entriesAt (fst (compareConnections stringify prev nxt)) n t) = {e. changed stringify nxt prev n t e}"
  "set (entriesAt (snd (compareConnections stringify prev nxt)) n t) = {e. changed stringify prev nxt n t e}"
  using conn_group_allBuckets [of prev n t _ nxt] changed_bucket [of stringify nxt prev n t] changed_bucket [of stringify prev nxt n t]
  by (auto simp: compareConnections_def fold_bucketChanges)

lemma removed_Nil:
  "snd (compareConnections stringify prev nxt) = [] \<longleftrightarrow>
     (\<forall>n t i. stringify ` set (conn_group prev n t i) \<subseteq> stringify ` set (conn_group nxt n t i))"
proof -
  have "(n, t, i) \<in> set (allBuckets prev nxt)" if "conn_group prev n t i \<noteq> []" for n t i
    using conn_group_allBuckets that by blast
  then have "stringify ` set (conn_group prev n t i) \<subseteq> stringify ` set (conn_group nxt n t i)"
    if "\<forall>(n, t, i) \<in> set (allBuckets prev nxt). stringify ` set (conn_group prev n t i) \<subseteq> stringify ` set (conn_group nxt n t i)" for n t i
    using that by (cases "conn_group prev n t i = []") fastforce+
  then show ?thesis unfolding compareConnections_def snd_conv fold_bucketChanges_Nil by blast
qed


lemma nodesById_distinct: "distinct (map node_id ns) \<Longrightarrow> nodesById ns = map (\<lambda>n. (node_id n, n)) ns"
proof -
  have "distinct (map node_id ns) \<Longrightarrow> fst ` set m \<inter> node_id ` set ns = {} \<Longrightarrow>
      fold (\<lambda>n. AList.update (node_id n) n) ns m = m @ map (\<lambda>n. (node_id n, n)) ns" for m
  proof (induction ns arbitrary: m)
    case (Cons n ns)
    then have "AList.update (node_id n) n m = m @ [(node_id n, n)]" by (intro update_fresh) auto
    with Cons show ?case by auto
  qed simp
  from this [of "[]"] show "distinct (map node_id ns) \<Longrightarrow> ?thesis" by (simp add: nodesById_def)
qed

text \<open>What replacing one version by the other loses nothing of.\<close>

definition keepsNode :: "DiffableNode \<Rightarrow> DiffableNode \<Rightarrow> bool" where
  "keepsNode p q \<longleftrightarrow> (\<forall>k \<in> set propsToCompare - {''parameters''}. optEqual (map_of p k) (map_of q k)) \<and>
     keepsData (node_parameters p) (node_parameters q)"

definition keepsVersion :: "(IConnection \<Rightarrow> string) \<Rightarrow> WorkflowHistory \<Rightarrow> WorkflowHistory \<Rightarrow> bool" where
  "keepsVersion stringify prev nxt \<longleftrightarrow>
     (\<forall>p \<in> set (wh_nodes prev). \<exists>q \<in> set (wh_nodes nxt). node_id q = node_id p \<and> keepsNode p q) \<and>
     (\<forall>n t i. stringify ` set (conn_group (wh_connections prev) n t i) \<subseteq> stringify ` set (conn_group (wh_connections nxt) n t i))"

lemma nodeIsSuperset_iff: "nodeIsSuperset p q \<longleftrightarrow> keepsNode p q"
  by (simp add: nodeIsSuperset_def keepsNode_def compareNodes_withoutParameters parametersAreSuperset_keepsData)

lemma compareNodes_keeps: "compareNodes (Some p) (Some q) \<Longrightarrow> keepsNode p q"
proof -
  assume c: "compareNodes (Some p) (Some q)"
  have "''parameters'' \<in> set propsToCompare" by (simp add: propsToCompare_def)
  with c have "optEqual (map_of p ''parameters'') (map_of q ''parameters'')" unfolding compareNodes_iff by blast
  then have "keepsData (node_parameters p) (node_parameters q)"
    by (auto simp: optEqual_def node_parameters_def keepsData_simps isEqual_keepsData split: option.splits)
  with c show ?thesis by (simp add: keepsNode_def compareNodes_iff)
qed

lemma find_by_id: "distinct (map node_id ns) \<Longrightarrow> q \<in> set ns \<Longrightarrow> find (\<lambda>n. node_id n = node_id q) ns = Some q"
  by (induction ns) (auto simp: image_iff)

lemma additive_changes:
  assumes ids: "distinct (map node_id ns)"
  shows "additiveNodes ns (map (\<lambda>p. (node_id p, (if node_id p \<notin> node_id ` set ns then Deleted
      else if \<not> compareNodes (Some p) (map_of (nodesById ns) (node_id p)) then Modified else Eq), p)) ps @ map (\<lambda>n. (node_id n, Added, n)) qs) =
    Inr (\<forall>p \<in> set ps. \<exists>q \<in> set ns. node_id q = node_id p \<and> keepsNode p q)"
proof (induction ps)
  case Nil
  show ?case by (induction qs) simp_all
next
  case (Cons p ps)
  show ?case
  proof (cases "\<exists>q \<in> set ns. node_id q = node_id p")
    case False
    then have "node_id p \<notin> node_id ` set ns" by (metis imageE)
    with False show ?thesis by auto
  next
    case True
    then obtain q where q: "q \<in> set ns" "node_id q = node_id p" by blast
    from find_by_id [OF ids q(1)] have f: "find (\<lambda>n. node_id n = node_id p) ns = Some q" by (simp only: q(2))
    then have m: "map_of (nodesById ns) (node_id p) = Some q" by (simp add: nodesById_map_of [OF ids])
    have in_ids: "node_id p \<in> node_id ` set ns" using q by (metis imageI)
    have only: "(\<exists>r \<in> set ns. node_id r = node_id p \<and> keepsNode p r) \<longleftrightarrow> keepsNode p q"
      using q ids by (metis distinct_map inj_on_def)
    show ?thesis
      using compareNodes_keeps [of p q]
      by (simp add: Cons.IH m f in_ids nodeIsSuperset_iff only)
  qed
qed


lemma compareWorkflowsNodes_distinct:
  assumes "distinct (map node_id ps)" "distinct (map node_id ns)"
  shows "compareWorkflowsNodes ps ns compareNodes =
    map (\<lambda>p. (node_id p, (if node_id p \<notin> node_id ` set ns then Deleted
      else if \<not> compareNodes (Some p) (map_of (nodesById ns) (node_id p)) then Modified else Eq), p)) ps @
    map (\<lambda>n. (node_id n, Added, n)) (filter (\<lambda>n. node_id n \<notin> node_id ` set ps) ns)"
proof -
  have m: "map_of (nodesById ps) (node_id p) = Some p" if "p \<in> set ps" for p
    by (simp add: nodesById_map_of [OF assms(1)] find_by_id [OF assms(1) that])
  have k: "fst ` set (nodesById xs) = node_id ` set xs" if "distinct (map node_id xs)" for xs
    by (simp add: nodesById_distinct [OF that] image_image)
  show ?thesis
    unfolding compareWorkflowsNodes_def Let_def k [OF assms(1)] k [OF assms(2)]
    by (subst (2 3) nodesById_distinct) (simp_all add: assms nodesById_distinct [OF assms(1)] filter_map comp_def m [unfolded nodesById_distinct [OF assms(1)]] cong: map_cong)
qed

text \<open>
  A version is merged into a later one exactly when the later one keeps all of it: each node is there with the same name, type,
  version, webhook and credentials, its parameters have the same shape and values, where texts may have grown, and every
  connection is there. The invariant that a node that was not deleted is found never breaks.
\<close>

lemma mergeAdditiveChanges_keeps:
  assumes "distinct (map node_id (wh_nodes prev))" "distinct (map node_id (wh_nodes nxt))" and "wh_ref prev \<noteq> wh_ref nxt"
  shows "mergeAdditiveChanges prev nxt (changeSet stringify prev nxt) metaData = Inr (keepsVersion stringify prev nxt)"
  by (simp add: mergeAdditiveChanges_def changeSet_def assms compareWorkflowsNodes_distinct additive_changes removed_Nil keepsVersion_def)

text \<open>Changes that are not of the position, and what is not seen as one.\<close>

lemma hasNonPositionalChanges_iff:
  assumes "distinct (map node_id ps)" "distinct (map node_id ns)"
  shows "\<not> hasNonPositionalChanges ps ns oldConnections newConnections \<longleftrightarrow>
    node_id ` set ps = node_id ` set ns \<and>
    (\<forall>p \<in> set ps. \<forall>q \<in> set ns. node_id p = node_id q \<longrightarrow> (\<forall>k \<in> set propsToCompare. optEqual (map_of p k) (map_of q k))) \<and>
    connectionsEqual oldConnections newConnections"
proof -
  have at: "map_of (nodesById ns) (node_id p) = Some q" if "q \<in> set ns" "node_id p = node_id q" for p q
    by (simp add: nodesById_map_of [OF assms(2)] find_by_id [OF assms(2) that(1)] that(2))
  have same: "node_id p \<in> node_id ` set ns \<and> compareNodes (Some p) (map_of (nodesById ns) (node_id p)) \<longleftrightarrow>
      node_id p \<in> node_id ` set ns \<and> (\<forall>q \<in> set ns. node_id p = node_id q \<longrightarrow> compareNodes (Some p) (Some q))" for p
  proof (cases "\<exists>q \<in> set ns. node_id p = node_id q")
    case True
    then obtain q where q: "q \<in> set ns" "node_id p = node_id q" by blast
    have "r = q" if "r \<in> set ns" "node_id p = node_id r" for r using at [OF q] at [OF that] by simp
    moreover have "node_id p \<in> node_id ` set ns" unfolding q(2) using q(1) by (rule imageI)
    ultimately show ?thesis unfolding at [OF q] using q by metis
  next
    case False
    then have "node_id p \<notin> node_id ` set ns" by (metis imageE)
    then show ?thesis by simp
  qed
  have "(if a \<notin> A then Deleted else if \<not> b then Modified else Eq) \<noteq> Eq \<longleftrightarrow> \<not> (a \<in> A \<and> b)" for a :: string and A b by simp
  then have "\<not> list_ex (\<lambda>(i, status, n). status \<noteq> Eq) (compareWorkflowsNodes ps ns compareNodes) \<longleftrightarrow>
      (\<forall>p \<in> set ps. node_id p \<in> node_id ` set ns \<and> compareNodes (Some p) (map_of (nodesById ns) (node_id p))) \<and>
      (\<forall>n \<in> set ns. node_id n \<in> node_id ` set ps)"
    unfolding compareWorkflowsNodes_distinct [OF assms] by (simp add: list_ex_iff ball_Un) blast
  also have "\<dots> \<longleftrightarrow> node_id ` set ps = node_id ` set ns \<and>
      (\<forall>p \<in> set ps. \<forall>q \<in> set ns. node_id p = node_id q \<longrightarrow> compareNodes (Some p) (Some q))"
    unfolding same by (simp add: set_eq_subset image_subset_iff) blast
  finally have unchanged: "\<not> list_ex (\<lambda>(i, status, n). status \<noteq> Eq) (compareWorkflowsNodes ps ns compareNodes) \<longleftrightarrow>
      node_id ` set ps = node_id ` set ns \<and> (\<forall>p \<in> set ps. \<forall>q \<in> set ns. node_id p = node_id q \<longrightarrow> compareNodes (Some p) (Some q))" .
  have "\<not> hasNonPositionalChanges ps ns oldConnections newConnections \<longleftrightarrow>
      \<not> list_ex (\<lambda>(i, status, n). status \<noteq> Eq) (compareWorkflowsNodes ps ns compareNodes) \<and> connectionsEqual oldConnections newConnections"
    by (simp add: hasNonPositionalChanges_def)
  then show ?thesis unfolding unchanged compareNodes_iff by (simp only: conj_assoc)
qed

definition exNode :: "string \<Rightarrow> string \<Rightarrow> DiffableNode" where
  "exNode i code =
     [(''id'', JStr i), (''name'', JStr i), (''type'', JStr ''code''), (''typeVersion'', JNum 1),
      (''parameters'', JObj [(''jsCode'', JStr code)])]"

definition exVersion :: "nat \<Rightarrow> DiffableNode list \<Rightarrow> WorkflowHistory" where
  "exVersion r nodes =
     \<lparr>wh_ref = r, wh_versionId = nat_str r, wh_workflowId = ''w'', wh_nodes = nodes,
      wh_connections = [(''1'', [(Main, [Some [\<lparr>c_node = ''2'', c_type = Main, c_index = 0\<rparr>]])])],
      wh_authors = ''u'', wh_createdAt = int r, wh_name = None, wh_description = None\<rparr>"

text \<open>Switching a node off is neither a change that is not of the position nor one that is kept.\<close>

lemma disabled_not_seen:
  "\<not> hasNonPositionalChanges [exNode ''1'' ''x''] [exNode ''1'' ''x'' @ [(''disabled'', JBool True)]] [] []"
  "mergeAdditiveChanges (exVersion 1 [exNode ''1'' ''x'' @ [(''disabled'', JBool True)]]) (exVersion 2 [exNode ''1'' ''x''])
     (changeSet c_node (exVersion 1 [exNode ''1'' ''x'' @ [(''disabled'', JBool True)]]) (exVersion 2 [exNode ''1'' ''x''])) None = Inr True"
  by code_simp+

lemma mergeAdditiveChanges_keeps_witness:
  "keepsVersion c_node (exVersion 1 [exNode ''1'' ''x'']) (exVersion 2 [exNode ''1'' ''x+y'', exNode ''2'' ''z'']) \<and>
   \<not> keepsVersion c_node (exVersion 2 [exNode ''1'' ''x+y'']) (exVersion 3 [exNode ''1'' ''x''])"
proof -
  have "mergeAdditiveChanges p q (changeSet c_node p q) None = Inr (keepsVersion c_node p q)"
    if "p = exVersion 1 [exNode ''1'' ''x''] \<and> q = exVersion 2 [exNode ''1'' ''x+y'', exNode ''2'' ''z''] \<or>
      p = exVersion 2 [exNode ''1'' ''x+y''] \<and> q = exVersion 3 [exNode ''1'' ''x'']" for p q
    by (rule mergeAdditiveChanges_keeps) (use that in \<open>auto simp: exVersion_def exNode_def node_id_def\<close>)
  moreover have
    "mergeAdditiveChanges (exVersion 1 [exNode ''1'' ''x'']) (exVersion 2 [exNode ''1'' ''x+y'', exNode ''2'' ''z''])
       (changeSet c_node (exVersion 1 [exNode ''1'' ''x'']) (exVersion 2 [exNode ''1'' ''x+y'', exNode ''2'' ''z''])) None = Inr True"
    "mergeAdditiveChanges (exVersion 2 [exNode ''1'' ''x+y'']) (exVersion 3 [exNode ''1'' ''x''])
       (changeSet c_node (exVersion 2 [exNode ''1'' ''x+y'']) (exVersion 3 [exNode ''1'' ''x''])) None = Inr False"
    by code_simp+
  ultimately show ?thesis by (metis sum.inject(2))
qed

end
