(* ===== verification/Workflow_History.thy ===== *)
theory Workflow_History
  imports Workflow_Diff
begin

text \<open>
  Thinning out the history of a workflow: the rules and \<open>groupWorkflows\<close> of \<open>packages/workflow/src/workflow-diff.ts\<close>, the
  deletions of \<open>workflow-history.repository.ts\<close> and the two calls of the compaction service. The table is a list of rows; the
  order of rows with the same time of creation is an argument.
\<close>

section \<open>Rules\<close>

text \<open>A rule gets two versions, what changed and the size score, and may fail.\<close>

type_synonym DiffRule = "WorkflowHistory \<Rightarrow> WorkflowHistory \<Rightarrow> WorkflowChangeSet \<Rightarrow> int option \<Rightarrow> bool result"

definition makeSkipTimeDifference :: "int \<Rightarrow> DiffRule" where
  "makeSkipTimeDifference timeDiffMs prev nxt diff metaData =
     (let timeDifference = wh_createdAt nxt - wh_createdAt prev in Inr (\<bar>timeDifference\<bar> > timeDiffMs))"

definition makeMergeShortTimeSpan :: "int \<Rightarrow> WorkflowHistory \<Rightarrow> WorkflowHistory \<Rightarrow> bool" where
  "makeMergeShortTimeSpan timeDiffMs prev nxt =
     (let timeDifference = wh_createdAt nxt - wh_createdAt prev in \<bar>timeDifference\<bar> < timeDiffMs)"

fun firstApplicable :: "int \<Rightarrow> (int \<times> int) list \<Rightarrow> int option" where
  "firstApplicable score [] = None"
| "firstApplicable score ((minSize, time) # pairs) = (if score > minSize then Some time else firstApplicable score pairs)"

definition makeMergeDependingOnSizeRule :: "(int \<times> int) list \<Rightarrow> DiffRule" where
  "makeMergeDependingOnSizeRule mapping prev nxt diff metaData =
     (let pairs = sort_key (\<lambda>(minSize, _). - minSize) mapping in
      case metaData of None \<Rightarrow> Inr False
      | Some workflowSizeScore \<Rightarrow> (case firstApplicable workflowSizeScore pairs of None \<Rightarrow> Inr False
          | Some time \<Rightarrow> Inr (makeMergeShortTimeSpan time prev nxt)))"

definition skipDifferentUsers :: DiffRule where
  "skipDifferentUsers prev nxt diff metaData = Inr (wh_authors nxt \<noteq> wh_authors prev)"

function determineNodeSize :: "json \<Rightarrow> int" where
  "determineNodeSize JNull = 1"
| "determineNodeSize (JStr s) = (if s = [] then 1 else int (length s))"
| "determineNodeSize (JBool b) = 1"
| "determineNodeSize (JNum n) = 1"
| "determineNodeSize (JArr items) = 1 + sum_list (map (\<lambda>v. determineNodeSize v) items)"
| "determineNodeSize (JObj entries) = 1 + sum_list (map (\<lambda>(_, v). determineNodeSize v) entries)"
  by pat_completeness auto
termination
  by (relation "measure size") (simp, (auto dest: size_in_list)[1], (auto dest: size_in_entries)[1])

definition determineNodeParametersSize :: "WorkflowHistory \<Rightarrow> int" where
  "determineNodeParametersSize workflow = sum_list (map (\<lambda>x. determineNodeSize (node_parameters x)) (wh_nodes workflow))"

section \<open>Grouping\<close>

text \<open>The rules in order, up to the first that answers yes.\<close>

fun anyRule :: "DiffRule list \<Rightarrow> DiffRule" where
  "anyRule [] prev nxt diff metaData = Inr False"
| "anyRule (rule # rules) prev nxt diff metaData =
     res_bind (rule prev nxt diff metaData) (\<lambda>yes. if yes then Inr True else anyRule rules prev nxt diff metaData)"

text \<open>The loop \<open>diffLoop\<close> with the index \<open>i\<close>, from the end to the front.\<close>

fun diffLoop ::
    "(IConnection \<Rightarrow> string) \<Rightarrow> DiffRule list \<Rightarrow> DiffRule list \<Rightarrow> int option \<Rightarrow> nat \<Rightarrow> WorkflowHistory list \<Rightarrow> WorkflowHistory list
       \<Rightarrow> (WorkflowHistory list \<times> WorkflowHistory list) result" where
  "diffLoop stringify rules skipRules metaData 0 remaining removed = Inr (removed, remaining)"
| "diffLoop stringify rules skipRules metaData (Suc i) remaining removed =
     (let prev = remaining ! i; nxt = remaining ! Suc i; wcs = changeSet stringify prev nxt in
      res_bind (anyRule skipRules prev nxt wcs metaData) (\<lambda>skip.
        if skip then diffLoop stringify rules skipRules metaData i remaining removed
        else res_bind (anyRule rules prev nxt wcs metaData) (\<lambda>shouldMerge.
          if shouldMerge
          then diffLoop stringify rules skipRules metaData i (take i remaining @ drop (Suc i) remaining) (removed @ [prev])
          else diffLoop stringify rules skipRules metaData i remaining removed)))"

definition groupWorkflows ::
    "(IConnection \<Rightarrow> string) \<Rightarrow> WorkflowHistory list \<Rightarrow> DiffRule list \<Rightarrow> DiffRule list \<Rightarrow> bool
       \<Rightarrow> (WorkflowHistory list \<times> WorkflowHistory list) result" where
  "groupWorkflows stringify workflows rules skipRules wantsSize =
     (if workflows = [] then Inr ([], [])
      else if length workflows = 1 then Inr ([], workflows)
      else
        let metaData = (if wantsSize
              then Some (max (determineNodeParametersSize (workflows ! (length workflows div 2)))
                             (determineNodeParametersSize (workflows ! (length workflows - 1)))) else None)
        in diffLoop stringify rules skipRules metaData (length workflows - 1) workflows [])"

section \<open>The table of versions\<close>

definition makeSkipActiveAndNamedVersionsRule :: "string list \<Rightarrow> DiffRule" where
  "makeSkipActiveAndNamedVersionsRule activeVersions prev nxt diff metaData =
     Inr (wh_name prev \<noteq> None \<or> wh_description prev \<noteq> None \<or> wh_versionId prev \<in> set activeVersions)"

text \<open>The rows of the history of publishing: a workflow and a version, which may be \<open>null\<close>.\<close>

definition getPublishedVersions :: "string \<Rightarrow> (string \<times> string option) list \<Rightarrow> string list" where
  "getPublishedVersions workflowId published =
     concat (map (\<lambda>(w, v). case v of Some versionId \<Rightarrow> if w = workflowId then [versionId] else [] | None \<Rightarrow> []) published)"

text \<open>\<open>sortRows\<close> orders the rows that are found by the time of their creation.\<close>

definition versionsInRange ::
    "(WorkflowHistory list \<Rightarrow> WorkflowHistory list) \<Rightarrow> string \<Rightarrow> int \<Rightarrow> int \<Rightarrow> WorkflowHistory list \<Rightarrow> WorkflowHistory list" where
  "versionsInRange sortRows workflowId startDate endDate rows =
     sortRows (filter (\<lambda>wh. wh_workflowId wh = workflowId \<and> wh_createdAt wh \<le> endDate \<and> wh_createdAt wh \<ge> startDate) rows)"

definition pruneHistory ::
    "(IConnection \<Rightarrow> string) \<Rightarrow> (WorkflowHistory list \<Rightarrow> WorkflowHistory list) \<Rightarrow> (string \<times> string option) list \<Rightarrow> string \<Rightarrow> int \<Rightarrow> int
       \<Rightarrow> DiffRule list \<Rightarrow> DiffRule list \<Rightarrow> bool \<Rightarrow> WorkflowHistory list \<Rightarrow> (WorkflowHistory list \<times> nat \<times> nat) result" where
  "pruneHistory stringify sortRows published workflowId startDate endDate rules skipRules wantsSize rows =
     (let workflows = versionsInRange sortRows workflowId startDate endDate rows;
          publishedVersions = getPublishedVersions workflowId published
      in res_bind (groupWorkflows stringify workflows rules
          ([makeSkipActiveAndNamedVersionsRule publishedVersions, skipDifferentUsers] @ skipRules) wantsSize)
        (\<lambda>(removed, _). Inr (filter (\<lambda>wh. wh_versionId wh \<notin> wh_versionId ` set removed) rows, length workflows, length removed)))"

definition getWorkflowIdsInRange :: "int \<Rightarrow> int \<Rightarrow> WorkflowHistory list \<Rightarrow> string list" where
  "getWorkflowIdsInRange startDate endDate rows =
     remdups (map wh_workflowId (filter (\<lambda>wh. wh_createdAt wh \<le> endDate \<and> wh_createdAt wh \<ge> startDate) rows))"

definition deleteEarlierThan :: "int \<Rightarrow> WorkflowHistory list \<Rightarrow> WorkflowHistory list" where
  "deleteEarlierThan date rows = filter (\<lambda>wh. \<not> wh_createdAt wh < date) rows"

text \<open>The workflows, with their current version and the active one.\<close>

definition deleteEarlierThanExceptCurrentAndActive ::
    "(string \<times> string option) list \<Rightarrow> int \<Rightarrow> bool \<Rightarrow> WorkflowHistory list \<Rightarrow> WorkflowHistory list" where
  "deleteEarlierThanExceptCurrentAndActive workflows date preserveNamedVersions rows =
     filter (\<lambda>wh. \<not> (wh_createdAt wh < date \<and> wh_versionId wh \<notin> fst ` set workflows \<and>
         Some (wh_versionId wh) \<notin> snd ` set workflows \<and> (preserveNamedVersions \<longrightarrow> wh_name wh = None))) rows"

text \<open>One workflow of \<open>compactHistories\<close>; an error is logged and the rows stay.\<close>

definition compactWorkflow ::
    "(IConnection \<Rightarrow> string) \<Rightarrow> (WorkflowHistory list \<Rightarrow> WorkflowHistory list) \<Rightarrow> (string \<times> string option) list \<Rightarrow> int \<Rightarrow> int
       \<Rightarrow> DiffRule list \<Rightarrow> DiffRule list \<Rightarrow> bool \<Rightarrow> string \<Rightarrow> WorkflowHistory list \<Rightarrow> WorkflowHistory list" where
  "compactWorkflow stringify sortRows published startDate endDate rules skipRules wantsSize workflowId rows =
     (case pruneHistory stringify sortRows published workflowId startDate endDate rules skipRules wantsSize rows of
        Inl _ \<Rightarrow> rows | Inr (rows', _, _) \<Rightarrow> rows')"

definition compactHistories ::
    "(IConnection \<Rightarrow> string) \<Rightarrow> (WorkflowHistory list \<Rightarrow> WorkflowHistory list) \<Rightarrow> (string \<times> string option) list \<Rightarrow> int \<Rightarrow> int \<Rightarrow> int
       \<Rightarrow> DiffRule list \<Rightarrow> DiffRule list \<Rightarrow> bool \<Rightarrow> WorkflowHistory list \<Rightarrow> WorkflowHistory list" where
  "compactHistories stringify sortRows published now startDeltaMs endDeltaMs rules skipRules wantsSize rows =
     fold (compactWorkflow stringify sortRows published (now - startDeltaMs) (now - endDeltaMs) rules skipRules wantsSize)
       (getWorkflowIdsInRange (now - startDeltaMs) (now - endDeltaMs) rows) rows"

definition optimizeHistories ::
    "(IConnection \<Rightarrow> string) \<Rightarrow> (WorkflowHistory list \<Rightarrow> WorkflowHistory list) \<Rightarrow> (string \<times> string option) list \<Rightarrow> int \<Rightarrow> int \<Rightarrow> int
       \<Rightarrow> WorkflowHistory list \<Rightarrow> WorkflowHistory list" where
  "optimizeHistories stringify sortRows published now minimumAgeHours timeWindowHours =
     compactHistories stringify sortRows published now ((minimumAgeHours + timeWindowHours) * 3600000) (minimumAgeHours * 3600000)
       [mergeAdditiveChanges] [makeSkipTimeDifference (20 * 60 * 1000)] False"

definition trimLongRunningHistories ::
    "(IConnection \<Rightarrow> string) \<Rightarrow> (WorkflowHistory list \<Rightarrow> WorkflowHistory list) \<Rightarrow> (string \<times> string option) list \<Rightarrow> int \<Rightarrow> int \<Rightarrow> int
       \<Rightarrow> WorkflowHistory list \<Rightarrow> WorkflowHistory list" where
  "trimLongRunningHistories stringify sortRows published now minimumAgeDays timeWindowDays =
     compactHistories stringify sortRows published now ((minimumAgeDays + timeWindowDays) * 86400000) (minimumAgeDays * 86400000)
       [makeMergeDependingOnSizeRule [(0, 60 * 1000), (100, 10 * 60 * 1000), (1000, 2 * 60 * 60 * 1000),
          (5000, 5 * 60 * 60 * 1000), (10000, 10 * 60 * 60 * 1000)]] [] True"


section \<open>What the thinning keeps\<close>

definition mergedInto ::
    "(IConnection \<Rightarrow> string) \<Rightarrow> DiffRule list \<Rightarrow> DiffRule list \<Rightarrow> int option \<Rightarrow> WorkflowHistory \<Rightarrow> WorkflowHistory \<Rightarrow> bool" where
  "mergedInto stringify rules skipRules metaData w r \<longleftrightarrow>
     anyRule skipRules w r (changeSet stringify w r) metaData = Inr False \<and>
     anyRule rules w r (changeSet stringify w r) metaData = Inr True"

text \<open>One version stands before the other, whatever the versions are ordered by.\<close>

definition before :: "'a list \<Rightarrow> 'a \<Rightarrow> 'a \<Rightarrow> bool" where
  "before xs w r \<longleftrightarrow> (\<forall>P. sorted_wrt P xs \<longrightarrow> P w r)"

lemma before_mono: "(\<And>P. sorted_wrt P ys \<Longrightarrow> sorted_wrt P xs) \<Longrightarrow> before xs w r \<Longrightarrow> before ys w r"
  unfolding before_def by blast

lemma beforeI:
  "before (xs @ [prev]) w r \<Longrightarrow> before ((xs @ [prev]) @ [n]) w r"
  "before (xs @ [n]) w r \<Longrightarrow> before ((xs @ [prev]) @ [n]) w r"
  "before ((xs @ [prev]) @ [n]) prev n"
  by (erule before_mono [rotated], simp add: sorted_wrt_append)+ (simp add: before_def sorted_wrt_append)

text \<open>A version that is removed has been merged into a later one, and that one stays.\<close>

lemma diffLoop_merges:
  assumes "diffLoop stringify rules skipRules metaData (length xs) (xs @ n # ys) removed = Inr (removed', remaining')"
  shows "\<exists>zs ds. remaining' = zs @ n # ys \<and> removed' = removed @ ds \<and> mset xs = mset zs + mset ds \<and>
    (\<forall>w \<in> set ds. \<exists>r \<in> set (zs @ [n]). mergedInto stringify rules skipRules metaData w r \<and>
      before (xs @ [n]) w r)"
  using assms
proof (induction xs arbitrary: n ys removed rule: rev_induct)
  case (snoc prev xs)
  let ?wcs = "changeSet stringify prev n"
  have nth: "(xs @ prev # n # ys) ! length xs = prev" "(xs @ prev # n # ys) ! Suc (length xs) = n"
    "take (length xs) (xs @ prev # n # ys) @ drop (Suc (length xs)) (xs @ prev # n # ys) = xs @ n # ys"
    by (simp_all add: nth_append)
  have loop: "diffLoop stringify rules skipRules metaData (Suc (length xs)) (xs @ prev # n # ys) removed = Inr (removed', remaining')"
    using snoc.prems by simp
  have cases: "diffLoop stringify rules skipRules metaData (length xs) (xs @ prev # n # ys) removed = Inr (removed', remaining') \<or>
      mergedInto stringify rules skipRules metaData prev n \<and>
        diffLoop stringify rules skipRules metaData (length xs) (xs @ n # ys) (removed @ [prev]) = Inr (removed', remaining')"
    using loop unfolding diffLoop.simps Let_def nth mergedInto_def by (auto simp: res_bind_Inr_iff split: if_splits)
  from cases show ?case
  proof (elim disjE conjE)
    assume stay: "diffLoop stringify rules skipRules metaData (length xs) (xs @ prev # n # ys) removed = Inr (removed', remaining')"
    from snoc.IH [OF this] obtain zs ds where "remaining' = zs @ prev # n # ys" "removed' = removed @ ds" "mset xs = mset zs + mset ds"
      and old: "\<forall>w \<in> set ds. \<exists>r \<in> set (zs @ [prev]). mergedInto stringify rules skipRules metaData w r \<and> before (xs @ [prev]) w r"
      by blast
    moreover have "\<forall>w \<in> set ds. \<exists>r \<in> set ((zs @ [prev]) @ [n]). mergedInto stringify rules skipRules metaData w r \<and>
        before ((xs @ [prev]) @ [n]) w r"
      using old beforeI(1) [of xs prev _ _ n] unfolding set_append by blast
    ultimately show ?thesis by (intro exI [of _ "zs @ [prev]"] exI [of _ ds]) simp
  next
    assume merge: "mergedInto stringify rules skipRules metaData prev n"
      "diffLoop stringify rules skipRules metaData (length xs) (xs @ n # ys) (removed @ [prev]) = Inr (removed', remaining')"
    from snoc.IH [OF merge(2)] obtain zs ds where "remaining' = zs @ n # ys" "removed' = (removed @ [prev]) @ ds" "mset xs = mset zs + mset ds"
      and old: "\<forall>w \<in> set ds. \<exists>r \<in> set (zs @ [n]). mergedInto stringify rules skipRules metaData w r \<and> before (xs @ [n]) w r"
      by blast
    moreover have "\<forall>w \<in> set (prev # ds). \<exists>r \<in> set (zs @ [n]). mergedInto stringify rules skipRules metaData w r \<and>
        before ((xs @ [prev]) @ [n]) w r"
      using old merge(1) beforeI(2) [of xs n _ _ prev] beforeI(3) [of xs prev n] by auto
    ultimately show ?thesis by (intro exI [of _ zs] exI [of _ "prev # ds"]) simp
  qed
qed auto

lemma groupWorkflows_merges:
  assumes "groupWorkflows stringify workflows rules skipRules wantsSize = Inr (removed, remaining)"
  shows "mset workflows = mset removed + mset remaining \<and>
    (\<forall>w \<in> set removed. \<exists>r \<in> set remaining. (\<exists>metaData. mergedInto stringify rules skipRules metaData w r) \<and>
      before workflows w r)"
proof (cases "length workflows \<le> 1")
  case True
  with assms show ?thesis by (cases workflows) (auto simp: groupWorkflows_def)
next
  case False
  then have w: "workflows \<noteq> []" "length workflows \<noteq> 1" and l: "length workflows - 1 = length (butlast workflows)" by auto
  from assms obtain m where "diffLoop stringify rules skipRules m (length workflows - 1) workflows [] = Inr (removed, remaining)"
    unfolding groupWorkflows_def Let_def if_not_P [OF w(1)] if_not_P [OF w(2)] by (rule that)
  then have "diffLoop stringify rules skipRules m (length (butlast workflows)) (butlast workflows @ last workflows # []) [] = Inr (removed, remaining)"
    unfolding l append_butlast_last_id [OF w(1)] .
  from diffLoop_merges [OF this] obtain zs where "remaining = zs @ [last workflows]" "mset (butlast workflows) = mset zs + mset removed"
    and merged: "\<forall>w \<in> set removed. \<exists>r \<in> set (zs @ [last workflows]). mergedInto stringify rules skipRules m w r \<and>
      before (butlast workflows @ [last workflows]) w r" by auto
  moreover have "mset workflows = mset (butlast workflows @ [last workflows])" using w(1) by simp
  ultimately have "mset workflows = mset removed + mset remaining" by simp
  moreover have "\<forall>w \<in> set removed. \<exists>r \<in> set remaining. (\<exists>metaData. mergedInto stringify rules skipRules metaData w r) \<and>
      before workflows w r"
    using merged unfolding \<open>remaining = zs @ [last workflows]\<close> append_butlast_last_id [OF w(1)] by blast
  ultimately show ?thesis by (rule conjI)
qed


text \<open>The version \<open>r\<close> is why \<open>w\<close> may go.\<close>

definition replacedBy ::
    "(IConnection \<Rightarrow> string) \<Rightarrow> (string \<times> string option) list \<Rightarrow> int \<Rightarrow> int \<Rightarrow> DiffRule list \<Rightarrow> DiffRule list \<Rightarrow>
       WorkflowHistory \<Rightarrow> WorkflowHistory \<Rightarrow> bool" where
  "replacedBy stringify published startDate endDate rules skipRules w r \<longleftrightarrow>
     wh_workflowId r = wh_workflowId w \<and> startDate \<le> wh_createdAt w \<and> wh_createdAt w \<le> wh_createdAt r \<and> wh_createdAt r \<le> endDate \<and>
     w \<noteq> r \<and> (\<exists>metaData. mergedInto stringify rules
       ([makeSkipActiveAndNamedVersionsRule (getPublishedVersions (wh_workflowId w) published), skipDifferentUsers] @ skipRules) metaData w r)"

definition sorts_versions :: "(WorkflowHistory list \<Rightarrow> WorkflowHistory list) \<Rightarrow> bool" where
  "sorts_versions sortRows \<longleftrightarrow> (\<forall>xs. mset (sortRows xs) = mset xs \<and> sorted (map wh_createdAt (sortRows xs)))"

lemma pruneHistory_keeps:
  assumes prune: "pruneHistory stringify sortRows published workflowId startDate endDate rules skipRules wantsSize rows = Inr (rows', seen, deleted)"
    and ids: "distinct (map wh_versionId rows)" and sort: "sorts_versions sortRows"
  shows "set rows' \<subseteq> set rows \<and> distinct (map wh_versionId rows') \<and>
    (\<forall>w \<in> set rows. w \<in> set rows' \<or> wh_workflowId w = workflowId \<and>
      (\<exists>r \<in> set rows'. replacedBy stringify published startDate endDate rules skipRules w r))"
proof -
  let ?vs = "versionsInRange sortRows workflowId startDate endDate rows"
  let ?skip = "[makeSkipActiveAndNamedVersionsRule (getPublishedVersions workflowId published), skipDifferentUsers] @ skipRules"
  let ?found = "filter (\<lambda>wh. wh_workflowId wh = workflowId \<and> wh_createdAt wh \<le> endDate \<and> wh_createdAt wh \<ge> startDate) rows"
  from prune obtain removed remaining where g: "groupWorkflows stringify ?vs rules ?skip wantsSize = Inr (removed, remaining)"
    and rows': "rows' = filter (\<lambda>wh. wh_versionId wh \<notin> wh_versionId ` set removed) rows"
    unfolding pruneHistory_def Let_def by (auto simp: res_bind_Inr_iff)
  from groupWorkflows_merges [OF g] have parts: "mset ?vs = mset removed + mset remaining"
    and merged: "\<And>w. w \<in> set removed \<Longrightarrow> \<exists>r \<in> set remaining. (\<exists>m. mergedInto stringify rules ?skip m w r) \<and> before ?vs w r" by blast+
  have found: "mset ?vs = mset ?found" and times: "sorted_wrt (\<lambda>a b. wh_createdAt a \<le> wh_createdAt b) ?vs"
    using sort by (simp_all add: sorts_versions_def versionsInRange_def sorted_map)
  have in_found: "x \<in> set removed \<union> set remaining \<longleftrightarrow> x \<in> set ?found" for x
  proof -
    from parts found have "set_mset (mset removed + mset remaining) = set_mset (mset ?found)" by (simp only:)
    then have "set removed \<union> set remaining = set ?found" by (simp only: set_mset_union set_mset_mset)
    then show ?thesis by (simp only:)
  qed
  have "distinct (map wh_versionId ?found)" using ids by (rule distinct_map_filter)
  moreover have "mset (map wh_versionId ?found) = mset (map wh_versionId (removed @ remaining))" using parts found by simp
  ultimately have apart: "distinct (map wh_versionId (removed @ remaining))" by (metis mset_eq_imp_distinct_iff)
  have gone: "w \<in> set removed" if "w \<in> set rows" "w \<notin> set rows'" for w
  proof -
    from that obtain v where v: "v \<in> set removed" "wh_versionId w = wh_versionId v" by (auto simp: rows')
    with in_found have "v \<in> set rows" by auto
    with ids that(1) v(2) have "w = v" by (simp add: distinct_map inj_on_def)
    with v show ?thesis by simp
  qed
  have "w \<in> set rows' \<or> wh_workflowId w = workflowId \<and> (\<exists>r \<in> set rows'. replacedBy stringify published startDate endDate rules skipRules w r)"
    if w: "w \<in> set rows" for w
  proof (cases "w \<in> set rows'")
    case False
    from gone [OF w False] have rem: "w \<in> set removed" .
    from merged [OF this] obtain r m where r: "r \<in> set remaining" "mergedInto stringify rules ?skip m w r" "before ?vs w r" by blast
    from r(3) have "sorted_wrt (\<lambda>a b. wh_createdAt a \<le> wh_createdAt b) ?vs \<longrightarrow> wh_createdAt w \<le> wh_createdAt r"
      unfolding before_def by (rule spec [of _ "\<lambda>a b. wh_createdAt a \<le> wh_createdAt b"])
    from this times have "wh_createdAt w \<le> wh_createdAt r" by (rule mp)
    moreover have "w \<in> set ?found" "r \<in> set ?found" using in_found rem r(1) by auto
    moreover have "wh_versionId r \<notin> wh_versionId ` set removed" using apart r(1) by (auto simp: image_iff)
    moreover from this rem have "w \<noteq> r" by blast
    ultimately show ?thesis using r(2) by (auto simp: rows' replacedBy_def)
  qed simp
  moreover have "distinct (map wh_versionId rows')" unfolding rows' using ids by (rule distinct_map_filter)
  ultimately show ?thesis by (auto simp: rows')
qed

lemma compactHistories_keeps:
  assumes sort: "sorts_versions sortRows" and ids: "distinct (map wh_versionId rows)"
  shows "set (compactHistories stringify sortRows published now startDelta endDelta rules skipRules wantsSize rows) \<subseteq> set rows \<and>
    (\<forall>w \<in> set rows. w \<in> set (compactHistories stringify sortRows published now startDelta endDelta rules skipRules wantsSize rows) \<or>
      (\<exists>r \<in> set (compactHistories stringify sortRows published now startDelta endDelta rules skipRules wantsSize rows).
        replacedBy stringify published (now - startDelta) (now - endDelta) rules skipRules w r))"
proof -
  let ?R = "replacedBy stringify published (now - startDelta) (now - endDelta) rules skipRules"
  let ?step = "compactWorkflow stringify sortRows published (now - startDelta) (now - endDelta) rules skipRules wantsSize"
  have one: "set (?step i rs) \<subseteq> set rs \<and> distinct (map wh_versionId (?step i rs)) \<and>
      (\<forall>w \<in> set rs. w \<in> set (?step i rs) \<or> wh_workflowId w = i \<and> (\<exists>r \<in> set (?step i rs). ?R w r))"
    if d: "distinct (map wh_versionId rs)" for i rs
  proof (cases "pruneHistory stringify sortRows published i (now - startDelta) (now - endDelta) rules skipRules wantsSize rs")
    case (Inr result)
    obtain rs' seen deleted where "result = (rs', seen, deleted)" by (cases result)
    with Inr pruneHistory_keeps [OF _ d sort, of stringify published i] show ?thesis by (simp add: compactWorkflow_def)
  qed (simp add: compactWorkflow_def d)
  have "set (fold ?step is rs) \<subseteq> set rs \<and> (\<forall>w \<in> set rs. w \<in> set (fold ?step is rs) \<or>
      wh_workflowId w \<in> set is \<and> (\<exists>r \<in> set (fold ?step is rs). ?R w r))"
    if "distinct (map wh_versionId rs)" "distinct is" for "is" rs
    using that
  proof (induction "is" arbitrary: rs)
    case (Cons i "is")
    let ?rs = "?step i rs"
    from one [OF Cons.prems(1)] have step: "set ?rs \<subseteq> set rs" "distinct (map wh_versionId ?rs)"
      "\<And>w. w \<in> set rs \<Longrightarrow> w \<in> set ?rs \<or> wh_workflowId w = i \<and> (\<exists>r \<in> set ?rs. ?R w r)" by blast+
    from Cons.IH [OF step(2)] Cons.prems(2) have rest: "set (fold ?step is ?rs) \<subseteq> set ?rs"
      "\<And>w. w \<in> set ?rs \<Longrightarrow> w \<in> set (fold ?step is ?rs) \<or> wh_workflowId w \<in> set is \<and> (\<exists>r \<in> set (fold ?step is ?rs). ?R w r)" by simp_all
    have "r \<in> set (fold ?step is ?rs)" if "r \<in> set ?rs" "wh_workflowId r = i" for r
      using rest(2) [OF that(1)] that(2) Cons.prems(2) by auto
    then have "w \<in> set (fold ?step is ?rs) \<or> wh_workflowId w \<in> set (i # is) \<and> (\<exists>r \<in> set (fold ?step is ?rs). ?R w r)" if "w \<in> set rs" for w
      using step(3) [OF that] rest(2) [of w] by (auto simp: replacedBy_def)
    with step(1) rest(1) show ?case by auto
  qed simp
  from this [OF ids distinct_remdups] show ?thesis unfolding compactHistories_def getWorkflowIdsInRange_def by blast
qed


lemma in_getPublishedVersions: "v \<in> set (getPublishedVersions w published) \<longleftrightarrow> (w, Some v) \<in> set published"
  by (auto simp: getPublishedVersions_def split: option.splits if_splits)

lemma replacedBy_spared:
  assumes "replacedBy stringify published startDate endDate rules skipRules w r"
  shows "wh_name w = None \<and> wh_description w = None \<and> (wh_workflowId w, Some (wh_versionId w)) \<notin> set published \<and>
    wh_workflowId r = wh_workflowId w \<and> wh_authors r = wh_authors w \<and> wh_createdAt w \<le> wh_createdAt r \<and> w \<noteq> r"
    and "\<exists>metaData. anyRule skipRules w r (changeSet stringify w r) metaData = Inr False \<and>
      anyRule rules w r (changeSet stringify w r) metaData = Inr True"
  using assms
  by (auto simp: replacedBy_def mergedInto_def makeSkipActiveAndNamedVersionsRule_def skipDifferentUsers_def in_getPublishedVersions
      split: if_splits)

lemma firstApplicable_time: "firstApplicable score pairs = Some time \<Longrightarrow> time \<in> snd ` set pairs"
  by (induction pairs) (auto split: if_splits)

lemma sizeRule_span:
  assumes "makeMergeDependingOnSizeRule mapping w r diff metaData = Inr True"
  shows "\<exists>time \<in> snd ` set mapping. \<bar>wh_createdAt r - wh_createdAt w\<bar> < time"
proof -
  from assms obtain score time where time: "firstApplicable score (sort_key (\<lambda>(minSize, _). - minSize) mapping) = Some time"
    "makeMergeShortTimeSpan time w r"
    by (auto simp: makeMergeDependingOnSizeRule_def Let_def split: option.splits)
  from firstApplicable_time [OF time(1)] time(2) show ?thesis by (auto simp: makeMergeShortTimeSpan_def Let_def)
qed

lemma optimize_keeps:
  assumes "sorts_versions sortRows" and "distinct (map wh_versionId rows)" and "distinct (map wh_ref rows)"
    and "\<forall>w \<in> set rows. distinct (map node_id (wh_nodes w))"
    and "w \<in> set rows"
  shows "w \<in> set (optimizeHistories stringify sortRows published now age window rows) \<or>
      (wh_name w = None \<and> wh_description w = None \<and> (wh_workflowId w, Some (wh_versionId w)) \<notin> set published \<and>
       (\<exists>r \<in> set (optimizeHistories stringify sortRows published now age window rows).
          wh_workflowId r = wh_workflowId w \<and> wh_authors r = wh_authors w \<and> keepsVersion stringify w r \<and>
          wh_createdAt w \<le> wh_createdAt r \<and> wh_createdAt r \<le> wh_createdAt w + 20 * 60 * 1000))"
proof -
  let ?opt = "optimizeHistories stringify sortRows published now age window rows"
  let ?rules = "[mergeAdditiveChanges]" and ?skip = "[makeSkipTimeDifference (20 * 60 * 1000)]"
  from compactHistories_keeps [OF assms(1,2)] assms(5)
  have sub: "set ?opt \<subseteq> set rows" and gone: "w \<in> set ?opt \<or> (\<exists>r \<in> set ?opt. replacedBy stringify published
      (now - (age + window) * 3600000) (now - age * 3600000) ?rules ?skip w r)"
    unfolding optimizeHistories_def by blast+
  have "keepsVersion stringify w r \<and> wh_createdAt r \<le> wh_createdAt w + 20 * 60 * 1000"
    if r: "r \<in> set ?opt" "replacedBy stringify published (now - (age + window) * 3600000) (now - age * 3600000) ?rules ?skip w r" for r
  proof -
    from r(1) sub have "r \<in> set rows" by blast
    moreover from this replacedBy_spared(1) [OF r(2)] assms(3,5) have "wh_ref w \<noteq> wh_ref r" by (auto simp: distinct_map inj_on_def)
    ultimately have keeps: "mergeAdditiveChanges w r (changeSet stringify w r) m = Inr (keepsVersion stringify w r)" for m
      using assms(4,5) by (intro mergeAdditiveChanges_keeps) simp_all
    from replacedBy_spared(2) [OF r(2)] show ?thesis by (auto simp: keeps makeSkipTimeDifference_def Let_def split: if_splits)
  qed
  with gone replacedBy_spared(1) show ?thesis by meson
qed

lemma trim_keeps:
  assumes "sorts_versions sortRows" and "distinct (map wh_versionId rows)"
    and "w \<in> set rows"
  shows "w \<in> set (trimLongRunningHistories stringify sortRows published now age window rows) \<or>
      (wh_name w = None \<and> wh_description w = None \<and> (wh_workflowId w, Some (wh_versionId w)) \<notin> set published \<and>
       (\<exists>r \<in> set (trimLongRunningHistories stringify sortRows published now age window rows).
          wh_workflowId r = wh_workflowId w \<and> wh_authors r = wh_authors w \<and>
          wh_createdAt w \<le> wh_createdAt r \<and> wh_createdAt r < wh_createdAt w + 10 * 60 * 60 * 1000))"
proof -
  let ?trim = "trimLongRunningHistories stringify sortRows published now age window rows"
  let ?rules = "[makeMergeDependingOnSizeRule [(0, 60 * 1000), (100, 10 * 60 * 1000), (1000, 2 * 60 * 60 * 1000),
          (5000, 5 * 60 * 60 * 1000), (10000, 10 * 60 * 60 * 1000)]]"
  from compactHistories_keeps [OF assms(1,2)] assms(3)
  have gone: "w \<in> set ?trim \<or> (\<exists>r \<in> set ?trim. replacedBy stringify published
      (now - (age + window) * 86400000) (now - age * 86400000) ?rules [] w r)"
    unfolding trimLongRunningHistories_def by blast
  have "wh_createdAt r < wh_createdAt w + 10 * 60 * 60 * 1000"
    if r: "replacedBy stringify published (now - (age + window) * 86400000) (now - age * 86400000) ?rules [] w r" for r
  proof -
    from replacedBy_spared(2) [OF r] obtain m where "makeMergeDependingOnSizeRule [(0, 60 * 1000), (100, 10 * 60 * 1000),
        (1000, 2 * 60 * 60 * 1000), (5000, 5 * 60 * 60 * 1000), (10000, 10 * 60 * 60 * 1000)] w r (changeSet stringify w r) m = Inr True"
      by (auto simp: res_bind_Inr_iff split: if_splits)
    from sizeRule_span [OF this] show ?thesis by auto
  qed
  with gone replacedBy_spared(1) show ?thesis by meson
qed

text \<open>
  C16: the two compactions of the history delete only versions that a later version of the same workflow in the time window stands
  for, and that one stays in the table. What goes has neither a name nor a description, was never published, and has the author of
  its replacement. When recent histories are optimized the replacement is at most twenty minutes younger and keeps all nodes,
  connections and parameters; when old ones are trimmed it is less than ten hours younger.
\<close>

theorem compaction_keeps:
  assumes "sorts_versions sortRows" and "distinct (map wh_versionId rows)" and "distinct (map wh_ref rows)"
    and "\<forall>w \<in> set rows. distinct (map node_id (wh_nodes w))"
    and "w \<in> set rows"
  shows "(w \<in> set (optimizeHistories stringify sortRows published now age window rows) \<or>
      (wh_name w = None \<and> wh_description w = None \<and> (wh_workflowId w, Some (wh_versionId w)) \<notin> set published \<and>
       (\<exists>r \<in> set (optimizeHistories stringify sortRows published now age window rows).
          wh_workflowId r = wh_workflowId w \<and> wh_authors r = wh_authors w \<and> keepsVersion stringify w r \<and>
          wh_createdAt w \<le> wh_createdAt r \<and> wh_createdAt r \<le> wh_createdAt w + 20 * 60 * 1000))) \<and>
    (w \<in> set (trimLongRunningHistories stringify sortRows published now age window rows) \<or>
      (wh_name w = None \<and> wh_description w = None \<and> (wh_workflowId w, Some (wh_versionId w)) \<notin> set published \<and>
       (\<exists>r \<in> set (trimLongRunningHistories stringify sortRows published now age window rows).
          wh_workflowId r = wh_workflowId w \<and> wh_authors r = wh_authors w \<and>
          wh_createdAt w \<le> wh_createdAt r \<and> wh_createdAt r < wh_createdAt w + 10 * 60 * 60 * 1000)))"
  using optimize_keeps [OF assms] trim_keeps [OF assms(1,2,5)] by (rule conjI)

definition exRows :: "WorkflowHistory list" where
  "exRows =
     [(exVersion 3 [exNode ''1'' ''x+y'', exNode ''2'' ''z''])\<lparr>wh_createdAt := 7000000\<rparr>,
      (exVersion 1 [exNode ''1'' ''x''])\<lparr>wh_createdAt := 6000000\<rparr>,
      (exVersion 2 [exNode ''1'' ''y''])\<lparr>wh_createdAt := 6500000\<rparr>]"

text \<open>
  The second version does not keep the text of the first. It is merged into the third, and that one keeps the first as well.
\<close>

lemma exRows_optimized:
  "map wh_versionId (optimizeHistories c_node (sort_key wh_createdAt) [] 10800000 0 24 exRows) = [''3'']"
  by code_simp

theorem compaction_keeps_witness:
  "\<exists>r \<in> set (optimizeHistories c_node (sort_key wh_createdAt) [] 10800000 0 24 exRows).
     keepsVersion c_node ((exVersion 1 [exNode ''1'' ''x''])\<lparr>wh_createdAt := 6000000\<rparr>) r"
proof -
  let ?w = "(exVersion 1 [exNode ''1'' ''x''])\<lparr>wh_createdAt := 6000000\<rparr>"
  have sort: "sorts_versions (sort_key wh_createdAt)" by (simp add: sorts_versions_def)
  have ids: "distinct (map wh_versionId exRows)" "distinct (map wh_ref exRows)"
    "\<forall>w \<in> set exRows. distinct (map node_id (wh_nodes w))" "?w \<in> set exRows"
    by (simp_all add: exRows_def exVersion_def exNode_def node_id_def nat_str.simps)
  have "wh_versionId ?w \<notin> set (map wh_versionId (optimizeHistories c_node (sort_key wh_createdAt) [] 10800000 0 24 exRows))"
    unfolding exRows_optimized by code_simp
  then have "?w \<notin> set (optimizeHistories c_node (sort_key wh_createdAt) [] 10800000 0 24 exRows)"
    unfolding set_map by (metis imageI)
  with compaction_keeps [OF sort ids, of c_node "[]" 10800000 0 24] show ?thesis by blast
qed

end
