(* ===== verification/Wait_Tracker.thy ===== *)
theory Wait_Tracker
  imports N8n_Types
begin

text \<open>
  Executions that wait for a time or for a child: \<open>WaitTracker\<close> of \<open>packages/cli/src/wait-tracker.ts\<close>. Timers have numbers; those
  that have not been cleared and not run are part of the state, and so are the queries that the database has not answered. What
  the database and the runner answer are arguments.
\<close>

section \<open>The tracker\<close>

record WaitTracker =
  wt_waitingExecutions :: "(string, nat) dict"
  wt_mainTimer :: "nat option"
  wt_timeouts :: "(nat, string) dict"
  wt_intervals :: "nat list"
  wt_nextTimer :: nat
  wt_queries :: nat
  wt_resumed :: "string list"

definition newWaitTracker :: WaitTracker where
  "newWaitTracker =
     \<lparr>wt_waitingExecutions = [], wt_mainTimer = None, wt_timeouts = [], wt_intervals = [], wt_nextTimer = 0, wt_queries = 0,
      wt_resumed = []\<rparr>"

definition hasWaiting :: "string \<Rightarrow> WaitTracker \<Rightarrow> bool" where
  "hasWaiting executionId s \<longleftrightarrow> map_of (wt_waitingExecutions s) executionId \<noteq> None"

text \<open>\<open>getWaitingExecutions\<close> asks the database, and goes on when it answers.\<close>

definition askWaitingExecutions :: "WaitTracker \<Rightarrow> WaitTracker" where
  "askWaitingExecutions s = s\<lparr>wt_queries := wt_queries s + 1\<rparr>"

definition setTimer :: "string \<Rightarrow> WaitTracker \<Rightarrow> WaitTracker" where
  "setTimer executionId s =
     (if hasWaiting executionId s then s
      else s\<lparr>wt_waitingExecutions := AList.update executionId (wt_nextTimer s) (wt_waitingExecutions s),
        wt_timeouts := wt_timeouts s @ [(wt_nextTimer s, executionId)], wt_nextTimer := wt_nextTimer s + 1\<rparr>)"

definition getWaitingExecutions :: "string list \<Rightarrow> WaitTracker \<Rightarrow> WaitTracker" where
  "getWaitingExecutions executions s = fold setTimer executions (s\<lparr>wt_queries := wt_queries s - 1\<rparr>)"

definition startTracking :: "WaitTracker \<Rightarrow> WaitTracker" where
  "startTracking s =
     askWaitingExecutions (s\<lparr>wt_mainTimer := Some (wt_nextTimer s), wt_intervals := wt_intervals s @ [wt_nextTimer s],
       wt_nextTimer := wt_nextTimer s + 1\<rparr>)"

definition initTracker :: "bool \<Rightarrow> WaitTracker \<Rightarrow> WaitTracker" where
  "initTracker isLeader s = (if isLeader then startTracking s else s)"

definition clearTimer :: "nat \<Rightarrow> WaitTracker \<Rightarrow> WaitTracker" where
  "clearTimer t s = s\<lparr>wt_timeouts := AList.delete t (wt_timeouts s)\<rparr>"

definition stopWaiting :: "string \<Rightarrow> WaitTracker \<Rightarrow> WaitTracker" where
  "stopWaiting executionId s =
     (case map_of (wt_waitingExecutions s) executionId of None \<Rightarrow> s
      | Some t \<Rightarrow> (clearTimer t s)\<lparr>wt_waitingExecutions := AList.delete executionId (wt_waitingExecutions s)\<rparr>)"

text \<open>What \<open>startExecution\<close> does before its first \<open>await\<close>.\<close>

definition startWaiting :: "string \<Rightarrow> WaitTracker \<Rightarrow> WaitTracker" where
  "startWaiting executionId s =
     s\<lparr>wt_waitingExecutions := AList.delete executionId (wt_waitingExecutions s), wt_resumed := wt_resumed s @ [executionId]\<rparr>"

definition stopTracking :: "WaitTracker \<Rightarrow> WaitTracker" where
  "stopTracking s =
     (case wt_mainTimer s of None \<Rightarrow> s
      | Some m \<Rightarrow> fold (\<lambda>(_, t). clearTimer t) (wt_waitingExecutions s) (s\<lparr>wt_intervals := removeAll m (wt_intervals s)\<rparr>))"

text \<open>What happens to a tracker. A timer can only run while it is set.\<close>

datatype WaitEvent =
    Takeover
  | Stepdown
  | Tick nat
  | Answered "string list"
  | Fires nat
  | StopWaiting string
  | Resume string

fun waitStep :: "WaitEvent \<Rightarrow> WaitTracker \<Rightarrow> WaitTracker" where
  "waitStep Takeover s = startTracking s"
| "waitStep Stepdown s = stopTracking s"
| "waitStep (Tick i) s = (if i \<in> set (wt_intervals s) then askWaitingExecutions s else s)"
| "waitStep (Answered executions) s = (if wt_queries s > 0 then getWaitingExecutions executions s else s)"
| "waitStep (Fires t) s = (case map_of (wt_timeouts s) t of None \<Rightarrow> s | Some e \<Rightarrow> startWaiting e (clearTimer t s))"
| "waitStep (StopWaiting e) s = stopWaiting e s"
| "waitStep (Resume e) s = startWaiting e s"

section \<open>Resuming\<close>

record RelatedExecution =
  re_executionId :: string
  re_shouldResume :: "bool option"

record FullExecution =
  fe_finished :: bool
  fe_workflowId :: string
  fe_parentExecution :: "RelatedExecution option"

datatype resume_error = AlreadyResuming | UserFailure string | UnexpectedFailure string | OtherFailure string

definition shouldRestartParentExecution :: "RelatedExecution option \<Rightarrow> bool" where
  "shouldRestartParentExecution parentExecution =
     (case parentExecution of None \<Rightarrow> False
      | Some p \<Rightarrow> (case re_shouldResume p of None \<Rightarrow> True | Some b \<Rightarrow> b))"

text \<open>The rest of \<open>startExecution\<close>: the parent that is resumed when the execution has ended.\<close>

definition startExecution ::
    "FullExecution option \<Rightarrow> (resume_error + unit) \<Rightarrow> (resume_error + unit) \<Rightarrow> resume_error + RelatedExecution option" where
  "startExecution found project run =
     (case found of None \<Rightarrow> Inl (UnexpectedFailure ''Execution does not exist.'')
      | Some full \<Rightarrow>
          if fe_finished full then Inl (UnexpectedFailure ''The execution did succeed and can so not be started again.'')
          else if fe_workflowId full = [] then Inl (UnexpectedFailure ''Only saved workflows can be resumed.'')
          else case project of Inl e \<Rightarrow> Inl e
          | Inr _ \<Rightarrow> (case run of
              Inl e \<Rightarrow> if e = AlreadyResuming then Inr None else Inl e
            | Inr _ \<Rightarrow> Inr (if shouldRestartParentExecution (fe_parentExecution full) then fe_parentExecution full else None)))"

definition isRetryableResumeError :: "resume_error \<Rightarrow> bool" where
  "isRetryableResumeError e = (case e of UserFailure _ \<Rightarrow> False | UnexpectedFailure _ \<Rightarrow> False | _ \<Rightarrow> True)"

definition MAX_PARENT_RESUME_ATTEMPTS :: nat where "MAX_PARENT_RESUME_ATTEMPTS = 3"

text \<open>An operation changes the state and may fail. The result has the times of the sleeps, in milliseconds.\<close>

function withRetry ::
    "('s \<Rightarrow> (resume_error + unit) \<times> 's) \<Rightarrow> nat \<Rightarrow> (resume_error \<Rightarrow> bool) \<Rightarrow> nat \<Rightarrow> 's \<Rightarrow> (resume_error + unit) \<times> nat list \<times> 's" where
  "withRetry operation maxAttempts shouldRetry attempt s =
     (case operation s of
        (Inr _, s') \<Rightarrow> (Inr (), [], s')
      | (Inl e, s') \<Rightarrow>
          if attempt \<ge> maxAttempts \<or> \<not> shouldRetry e then (Inl e, [], s')
          else (case withRetry operation maxAttempts shouldRetry (attempt + 1) s' of
              (r, sleeps, s'') \<Rightarrow> (r, 100 * 2 ^ (attempt - 1) # sleeps, s'')))"
  by pat_completeness auto
termination
  by (relation "measure (\<lambda>(_, maxAttempts, _, attempt, _). maxAttempts - attempt)") auto

declare withRetry.simps [simp del]

text \<open>
  \<open>resumeParentExecution\<close>, with the outcome of the child: its status, if it has a result. The first component is the error that is
  logged; nothing is thrown.
\<close>

definition resumeParentExecution ::
    "('s \<Rightarrow> (resume_error + unit) \<times> 's) \<Rightarrow> ('s \<Rightarrow> (resume_error + unit) \<times> 's) \<Rightarrow> (resume_error + string option) \<Rightarrow> 's
       \<Rightarrow> resume_error option \<times> nat list \<times> 's" where
  "resumeParentExecution updateParent startParent child s =
     (case child of Inl e \<Rightarrow> (Some e, [], s)
      | Inr None \<Rightarrow> (None, [], s)
      | Inr (Some status) \<Rightarrow>
          if status = ''waiting'' then (None, [], s)
          else case withRetry updateParent MAX_PARENT_RESUME_ATTEMPTS isRetryableResumeError 1 s of
            (Inl e, sleeps, s') \<Rightarrow> (Some e, sleeps, s')
          | (Inr _, sleeps, s') \<Rightarrow>
              (case withRetry startParent MAX_PARENT_RESUME_ATTEMPTS isRetryableResumeError 1 s' of
                 (Inl e, sleeps', s'') \<Rightarrow> (Some e, sleeps @ sleeps', s'')
               | (Inr _, sleeps', s'') \<Rightarrow> (None, sleeps @ sleeps', s'')))"


section \<open>Every execution that waits has its timer\<close>

definition tracked :: "WaitTracker \<Rightarrow> bool" where
  "tracked s \<longleftrightarrow> (\<forall>e t. map_of (wt_waitingExecutions s) e = Some t \<longrightarrow> map_of (wt_timeouts s) t = Some e) \<and>
     (\<forall>t \<in> fst ` set (wt_timeouts s). t < wt_nextTimer s)"

lemma tracked_change:
  assumes "tracked s" and "wt_waitingExecutions s' = wt_waitingExecutions s" "wt_timeouts s' = wt_timeouts s" "wt_nextTimer s \<le> wt_nextTimer s'"
  shows "tracked s'"
  using assms by (fastforce simp: tracked_def)

lemma fresh_timer: "tracked s \<Longrightarrow> map_of (wt_timeouts s) (wt_nextTimer s) = None"
  by (force simp: tracked_def map_of_eq_None_iff)

lemma tracked_setTimer: "tracked s \<Longrightarrow> tracked (setTimer e s)"
  using fresh_timer [of s]
  by (fastforce simp: tracked_def setTimer_def hasWaiting_def update_conv' map_add_def split: option.split)

lemma tracked_fold: "tracked s \<Longrightarrow> tracked (fold setTimer es s)"
  by (induction es arbitrary: s) (simp_all add: tracked_setTimer)

lemma tracked_forget:
  assumes "tracked s"
  shows "tracked (s\<lparr>wt_waitingExecutions := AList.delete e (wt_waitingExecutions s)\<rparr>)"
    and "map_of (wt_timeouts s) t = Some e \<Longrightarrow>
      tracked (s\<lparr>wt_waitingExecutions := AList.delete e (wt_waitingExecutions s), wt_timeouts := AList.delete t (wt_timeouts s)\<rparr>)"
  using assms by (auto simp: tracked_def map_of_delete delete_fst_iff split: if_splits)

lemma tracked_step: "tracked s \<Longrightarrow> ev \<noteq> Stepdown \<Longrightarrow> tracked (waitStep ev s)"
proof (cases ev)
  assume s: "tracked s"
  case Takeover
  with s show ?thesis by (auto intro!: tracked_change [OF s] simp: startTracking_def askWaitingExecutions_def)
next
  assume s: "tracked s"
  case (Tick i)
  with s show ?thesis by (auto intro!: tracked_change [OF s] simp: askWaitingExecutions_def)
next
  assume s: "tracked s"
  case (Answered es)
  have "tracked (s\<lparr>wt_queries := wt_queries s - 1\<rparr>)" by (rule tracked_change [OF s]) simp_all
  with Answered s show ?thesis by (simp add: getWaitingExecutions_def tracked_fold)
next
  assume s: "tracked s"
  case (Fires t)
  with s show ?thesis
    by (auto intro!: tracked_change [OF tracked_forget(2) [OF s]] simp: startWaiting_def clearTimer_def split: option.split)
next
  assume s: "tracked s"
  case (StopWaiting e)
  show ?thesis
  proof (cases "map_of (wt_waitingExecutions s) e")
    case (Some t)
    with s have "map_of (wt_timeouts s) t = Some e" by (simp add: tracked_def)
    with StopWaiting Some show ?thesis
      by (auto intro!: tracked_change [OF tracked_forget(2) [OF s]] simp: stopWaiting_def clearTimer_def)
  qed (simp add: StopWaiting stopWaiting_def s)
next
  assume s: "tracked s"
  case (Resume e)
  then show ?thesis by (auto intro!: tracked_change [OF tracked_forget(1) [OF s]] simp: startWaiting_def)
qed simp

lemma tracked_history: "Stepdown \<notin> set evs \<Longrightarrow> tracked s \<Longrightarrow> tracked (fold waitStep evs s)"
  by (induction evs arbitrary: s) (auto simp: tracked_step)

lemma tracked_new: "tracked newWaitTracker"
  by (simp add: tracked_def newWaitTracker_def)

lemma hasWaiting_setTimer: "hasWaiting e (setTimer e' s) \<longleftrightarrow> e = e' \<or> hasWaiting e s"
  by (auto simp: hasWaiting_def setTimer_def update_conv')

lemma hasWaiting_fold: "hasWaiting e (fold setTimer es s) \<longleftrightarrow> e \<in> set es \<or> hasWaiting e s"
  by (induction es arbitrary: s) (auto simp: hasWaiting_setTimer)

lemma resumed_fold [simp]: "wt_resumed (fold setTimer es s) = wt_resumed s"
  by (induction es arbitrary: s) (simp_all add: setTimer_def)

text \<open>
  C17: as long as the instance has not stepped down as leader, every execution that a query of the database finds has a timer that is
  set, and when it runs the execution is resumed.
\<close>

theorem found_execution_has_timer:
  assumes "Stepdown \<notin> set evs" and "wt_queries (fold waitStep evs newWaitTracker) > 0" and "e \<in> set executions"
  shows "\<exists>t. map_of (wt_timeouts (fold waitStep (evs @ [Answered executions]) newWaitTracker)) t = Some e \<and>
    wt_resumed (fold waitStep (evs @ [Answered executions, Fires t]) newWaitTracker) =
      wt_resumed (fold waitStep evs newWaitTracker) @ [e]"
proof -
  let ?s = "fold waitStep evs newWaitTracker"
  let ?s' = "waitStep (Answered executions) ?s"
  have "hasWaiting e ?s'" using assms(2,3) by (simp add: getWaitingExecutions_def hasWaiting_fold)
  moreover have "tracked ?s'" by (rule tracked_step [OF tracked_history [OF assms(1) tracked_new]]) simp
  ultimately obtain t where "map_of (wt_timeouts ?s') t = Some e" by (auto simp: hasWaiting_def tracked_def)
  moreover have "wt_resumed ?s' = wt_resumed ?s" by (simp add: getWaitingExecutions_def)
  ultimately show ?thesis by (intro exI [of _ t]) (simp add: startWaiting_def clearTimer_def)
qed

theorem found_execution_has_timer_witness:
  "\<exists>t. map_of (wt_timeouts (fold waitStep ([Takeover] @ [Answered [''7'']]) newWaitTracker)) t = Some ''7''"
proof -
  have "Stepdown \<notin> set [Takeover]" "wt_queries (fold waitStep [Takeover] newWaitTracker) > 0" "''7'' \<in> set [''7'']" by code_simp+
  from found_execution_has_timer [OF this] show ?thesis by blast
qed


section \<open>Executions that are left behind\<close>

definition stranded :: "string \<Rightarrow> WaitTracker \<Rightarrow> bool" where
  "stranded e s \<longleftrightarrow> hasWaiting e s \<and> (\<forall>t. map_of (wt_timeouts s) t \<noteq> Some e)"

lemma stranded_change:
  assumes "stranded e s" and "map_of (wt_waitingExecutions s') e = map_of (wt_waitingExecutions s) e"
    and "\<And>t. map_of (wt_timeouts s') t = Some e \<Longrightarrow> map_of (wt_timeouts s) t = Some e"
  shows "stranded e s'"
  using assms by (auto simp: stranded_def hasWaiting_def)

lemma stranded_setTimers: "stranded e s \<Longrightarrow> stranded e (fold setTimer es s)"
proof (induction es arbitrary: s)
  case (Cons e' es)
  then have "stranded e (setTimer e' s)"
    by (auto simp: stranded_def setTimer_def hasWaiting_def update_conv' map_add_def split: option.splits if_splits)
  with Cons.IH show ?case by simp
qed simp

lemma clearTimers:
  "map_of (wt_timeouts (fold (\<lambda>(_, t). clearTimer t) ets s)) t = (if t \<in> snd ` set ets then None else map_of (wt_timeouts s) t)"
  "wt_waitingExecutions (fold (\<lambda>(_, t). clearTimer t) ets s) = wt_waitingExecutions s"
  "wt_resumed (fold (\<lambda>(_, t). clearTimer t) ets s) = wt_resumed s"
  by (induction ets arbitrary: s) (auto simp: clearTimer_def map_of_delete)

lemma stranded_step:
  assumes s: "stranded e s" and ev: "ev \<noteq> StopWaiting e" "ev \<noteq> Resume e"
  shows "stranded e (waitStep ev s) \<and> count_list (wt_resumed (waitStep ev s)) e = count_list (wt_resumed s) e"
proof (cases ev)
  case Takeover
  then show ?thesis by (auto intro: stranded_change [OF s] simp: startTracking_def askWaitingExecutions_def)
next
  case Stepdown
  then show ?thesis
    by (auto intro: stranded_change [OF s] simp: stopTracking_def clearTimers split: option.split if_splits)
next
  case (Tick i)
  then show ?thesis using s by (auto intro: stranded_change [OF s] simp: askWaitingExecutions_def)
next
  case (Answered es)
  have "stranded e (s\<lparr>wt_queries := wt_queries s - 1\<rparr>)" by (rule stranded_change [OF s]) simp_all
  with Answered s show ?thesis by (simp add: getWaitingExecutions_def stranded_setTimers)
next
  case (Fires t)
  then show ?thesis using s
    by (auto intro!: stranded_change [OF s] simp: startWaiting_def clearTimer_def stranded_def hasWaiting_def map_of_delete delete_conv'
        split: option.split if_splits)
next
  case (StopWaiting e')
  then show ?thesis using s ev
    by (auto intro!: stranded_change [OF s] simp: stopWaiting_def clearTimer_def map_of_delete delete_conv' split: option.split if_splits)
next
  case (Resume e')
  then show ?thesis using s ev by (auto intro!: stranded_change [OF s] simp: startWaiting_def delete_conv')
qed

text \<open>
  C30: stepping down clears the timers and keeps the entries. An execution that has an entry then, whose timer is its only one, is
  never resumed by this instance again, also when it is leader again and its queries find the execution: only stopping it or resuming
  it in another way helps.
\<close>

theorem stepdown_strands_execution:
  assumes "wt_mainTimer s \<noteq> None" and "map_of (wt_waitingExecutions s) e = Some t"
    and "\<forall>t'. map_of (wt_timeouts s) t' = Some e \<longrightarrow> t' = t"
    and "StopWaiting e \<notin> set evs" and "Resume e \<notin> set evs"
  shows "hasWaiting e (fold waitStep (Stepdown # evs) s) \<and>
    count_list (wt_resumed (fold waitStep (Stepdown # evs) s)) e = count_list (wt_resumed s) e"
proof -
  have mem: "t \<in> snd ` set (wt_waitingExecutions s)" using map_of_SomeD [OF assms(2)] by force
  obtain m where "wt_mainTimer s = Some m" using assms(1) by blast
  then have clear: "map_of (wt_timeouts (stopTracking s)) t' = (if t' \<in> snd ` set (wt_waitingExecutions s) then None else map_of (wt_timeouts s) t')"
    for t' by (simp add: stopTracking_def clearTimers)
  have "map_of (wt_timeouts (stopTracking s)) t' \<noteq> Some e" for t'
    using assms(3) mem clear [of t'] by (metis option.distinct(1))
  moreover have "hasWaiting e (stopTracking s)"
    using assms(2) by (simp add: stopTracking_def hasWaiting_def clearTimers split: option.split)
  ultimately have "stranded e (stopTracking s)" by (simp add: stranded_def)
  moreover have "wt_resumed (stopTracking s) = wt_resumed s" by (simp add: stopTracking_def clearTimers split: option.split)
  moreover have "stranded e s \<Longrightarrow> stranded e (fold waitStep evs s) \<and> count_list (wt_resumed (fold waitStep evs s)) e = count_list (wt_resumed s) e"
    for s using assms(4,5)
  proof (induction evs arbitrary: s)
    case (Cons ev evs)
    from stranded_step [OF Cons.prems(1), of ev] Cons.prems(2,3) have
      "stranded e (waitStep ev s) \<and> count_list (wt_resumed (waitStep ev s)) e = count_list (wt_resumed s) e" by auto
    with Cons.IH [of "waitStep ev s"] Cons.prems(2,3) show ?case by simp
  qed simp
  ultimately show ?thesis by (simp add: stranded_def)
qed

text \<open>The instance steps down and takes over again; the query finds execution 7, but nothing will resume it.\<close>

theorem stepdown_strands_execution_witness:
  "count_list (wt_resumed (fold waitStep (Stepdown # [Takeover, Answered [''7''], Fires 1, Fires 2, Fires 3])
     (fold waitStep [Takeover, Answered [''7'']] newWaitTracker))) ''7'' = 0"
proof -
  let ?s = "fold waitStep [Takeover, Answered [''7'']] newWaitTracker"
  have s: "wt_waitingExecutions ?s = [(''7'', 1)]" "wt_mainTimer ?s = Some 0" "wt_timeouts ?s = [(1, ''7'')]" "wt_resumed ?s = []"
    by code_simp+
  have "wt_mainTimer ?s \<noteq> None" "map_of (wt_waitingExecutions ?s) ''7'' = Some 1"
    "\<forall>t'. map_of (wt_timeouts ?s) t' = Some ''7'' \<longrightarrow> t' = 1"
    unfolding s by simp_all
  from stepdown_strands_execution [OF this, of "[Takeover, Answered [''7''], Fires 1, Fires 2, Fires 3]"] s(4) show ?thesis by simp
qed

text \<open>
  A query that is answered after the instance has stepped down sets timers, and an execution that is resumed by its child keeps its
  timer, which resumes it once more.
\<close>

lemma follower_sets_timers:
  "wt_resumed (fold waitStep [Takeover, Stepdown, Answered [''7''], Fires 1] newWaitTracker) = [''7'']"
  "wt_resumed (fold waitStep [Takeover, Answered [''7''], Resume ''7'', Fires 1] newWaitTracker) = [''7'', ''7'']"
  by code_simp+

section \<open>Retries\<close>

text \<open>The state after a call, and a number of calls in a row.\<close>

definition called :: "('s \<Rightarrow> 'r \<times> 's) \<Rightarrow> 's \<Rightarrow> 's" where
  "called operation s = snd (operation s)"

lemma withRetry_calls:
  assumes "withRetry operation maxAttempts shouldRetry attempt s = (r, sleeps, s')" and "attempt \<ge> 1"
  shows "s' = (called operation ^^ Suc (length sleeps)) s \<and> r = fst (operation ((called operation ^^ length sleeps) s)) \<and>
    (sleeps \<noteq> [] \<longrightarrow> attempt + length sleeps \<le> maxAttempts) \<and>
    sum_list sleeps = 100 * 2 ^ (attempt - 1) * (2 ^ length sleeps - 1) \<and>
    (\<forall>e. r = Inl e \<longrightarrow> \<not> shouldRetry e \<or> attempt + length sleeps \<ge> maxAttempts)"
  using assms
proof (induction operation maxAttempts shouldRetry attempt s arbitrary: r sleeps s' rule: withRetry.induct)
  case (1 operation maxAttempts shouldRetry attempt s)
  obtain r1 s1 where op: "operation s = (r1, s1)" by (cases "operation s")
  show ?case
  proof (cases r1)
    case (Inr u)
    with 1(2) op show ?thesis by (auto simp: withRetry.simps [of operation _ _ _ s] called_def)
  next
    case (Inl e)
    show ?thesis
    proof (cases "attempt \<ge> maxAttempts \<or> \<not> shouldRetry e")
      case True
      with 1(2) op Inl show ?thesis by (auto simp: withRetry.simps [of operation _ _ _ s] called_def)
    next
      case False
      obtain sl where rest: "withRetry operation maxAttempts shouldRetry (attempt + 1) s1 = (r, sl, s')"
        and sleeps: "sleeps = 100 * 2 ^ (attempt - 1) # sl"
        using 1(2) op Inl False by (auto simp: withRetry.simps [of operation _ _ _ s] split: prod.splits)
      have IH: "s' = (called operation ^^ Suc (length sl)) s1 \<and> r = fst (operation ((called operation ^^ length sl) s1)) \<and>
          (sl \<noteq> [] \<longrightarrow> (attempt + 1) + length sl \<le> maxAttempts) \<and>
          sum_list sl = 100 * 2 ^ (attempt + 1 - 1) * (2 ^ length sl - 1) \<and>
          (\<forall>e. r = Inl e \<longrightarrow> \<not> shouldRetry e \<or> (attempt + 1) + length sl \<ge> maxAttempts)"
        by (rule 1(1) [OF op [symmetric] Inl False rest]) simp
      have pow: "(2::nat) ^ attempt = 2 * 2 ^ (attempt - 1)" using 1(3) by (cases attempt) simp_all
      have one: "(1::nat) \<le> 2 ^ length sl" by simp
      have "sum_list sleeps = 100 * 2 ^ (attempt - 1) * (2 ^ length sleeps - 1)"
        using IH one by (simp add: sleeps pow algebra_simps)
      moreover have "attempt + length sleeps \<le> maxAttempts" using IH False by (cases sl) (auto simp: sleeps)
      moreover have "(called operation ^^ Suc n) s = (called operation ^^ n) s1" for n
        unfolding funpow_Suc_right by (simp add: called_def op)
      ultimately show ?thesis using IH by (simp add: sleeps del: funpow.simps)
    qed
  qed
qed


lemma withRetry_bounds:
  assumes "withRetry operation (Suc n) shouldRetry 1 s = (r, sleeps, s')"
  shows "s' = (called operation ^^ Suc (length sleeps)) s \<and> r = fst (operation ((called operation ^^ length sleeps) s)) \<and>
    length sleeps \<le> n \<and> sum_list sleeps = 100 * (2 ^ length sleeps - 1) \<and>
    (\<forall>e. r = Inl e \<longrightarrow> \<not> shouldRetry e \<or> length sleeps = n)"
  using withRetry_calls [OF assms] by (cases sleeps) auto



end
