(* ===== verification/Scheduled_Tasks.thy ===== *)
theory Scheduled_Tasks
  imports N8n_Types
begin

text \<open>
  The crons of active workflows: \<open>ScheduledTaskManager\<close> of \<open>packages/core/src/execution-engine/scheduled-task-manager.ts\<close>. Jobs have
  numbers, and those that run are part of the state. \<open>JSON.stringify\<close> and the next time of an expression are arguments.
\<close>

section \<open>State\<close>

datatype CronRecurrence = Inactive | Activated nat nat string

record CronContext =
  cx_workflowId :: string
  cx_timezone :: string
  cx_nodeId :: string
  cx_expression :: string
  cx_recurrence :: "CronRecurrence option"

record Cron =
  cn_job :: nat
  cn_summary :: string
  cn_ctx :: CronContext

text \<open>\<open>tm_scheduled\<close> has the variable \<open>scheduledTime\<close> of each job.\<close>

record ScheduledTaskManager =
  tm_cronsByWorkflow :: "(string, (string, Cron) dict) dict"
  tm_jobs :: "nat list"
  tm_scheduled :: "(nat, int) dict"
  tm_nextJob :: nat
  tm_duplicates :: "CronContext list"
  tm_logs :: bool

definition newTaskManager :: "nat \<Rightarrow> ScheduledTaskManager" where
  "newTaskManager activeInterval =
     \<lparr>tm_cronsByWorkflow = [], tm_jobs = [], tm_scheduled = [], tm_nextJob = 0, tm_duplicates = [], tm_logs = (activeInterval \<noteq> 0)\<rparr>"

section \<open>Operations\<close>

text \<open>The fields of the key in the order of their names.\<close>

definition toCronKey :: "(json \<Rightarrow> string) \<Rightarrow> CronContext \<Rightarrow> string" where
  "toCronKey stringify ctx =
     stringify (JObj ([(''expression'', JStr (cx_expression ctx)), (''nodeId'', JStr (cx_nodeId ctx))] @
       (case cx_recurrence ctx of None \<Rightarrow> []
        | Some Inactive \<Rightarrow> [(''recurrenceActivated'', JBool False)]
        | Some (Activated index intervalSize typeInterval) \<Rightarrow>
            [(''recurrenceActivated'', JBool True), (''recurrenceIndex'', JNum (int index)),
             (''recurrenceIntervalSize'', JNum (int intervalSize)), (''recurrenceTypeInterval'', JStr typeInterval)]) @
       [(''timezone'', JStr (cx_timezone ctx)), (''workflowId'', JStr (cx_workflowId ctx))]))"

definition cronSummary :: "CronContext \<Rightarrow> string" where
  "cronSummary ctx =
     (case cx_recurrence ctx of
        Some (Activated _ intervalSize typeInterval) \<Rightarrow>
          cx_expression ctx @ '' (every '' @ nat_str intervalSize @ '' '' @ typeInterval @ '')''
      | _ \<Rightarrow> cx_expression ctx)"

text \<open>
  \<open>computeNext expression timezone\<close> is the next time of the expression after now, or \<open>None\<close> where the cron library throws. The
  result is \<open>None\<close> when it throws.
\<close>

definition registerCron ::
    "(json \<Rightarrow> string) \<Rightarrow> (string \<Rightarrow> string \<Rightarrow> int option) \<Rightarrow> CronContext \<Rightarrow> ScheduledTaskManager \<Rightarrow> ScheduledTaskManager option" where
  "registerCron stringify computeNext ctx s =
     (let workflowCrons = map_of (tm_cronsByWorkflow s) (cx_workflowId ctx);
          key = toCronKey stringify ctx;
          job = tm_nextJob s;
          cron = \<lparr>cn_job = job, cn_summary = cronSummary ctx, cn_ctx = ctx\<rparr>
      in if (case workflowCrons of None \<Rightarrow> False | Some crons \<Rightarrow> key \<in> fst ` set crons)
         then Some (s\<lparr>tm_duplicates := tm_duplicates s @ [ctx]\<rparr>)
         else case computeNext (cx_expression ctx) (cx_timezone ctx) of None \<Rightarrow> None
         | Some scheduledTime \<Rightarrow> Some (s\<lparr>tm_jobs := tm_jobs s @ [job], tm_nextJob := job + 1,
           tm_scheduled := AList.update job scheduledTime (tm_scheduled s),
           tm_cronsByWorkflow := AList.update (cx_workflowId ctx)
             (case workflowCrons of None \<Rightarrow> [(key, cron)] | Some crons \<Rightarrow> AList.update key cron crons) (tm_cronsByWorkflow s)\<rparr>))"

text \<open>The callback of a job. The result is the time it was scheduled for, which the trigger gets.\<close>

definition handleTick ::
    "(string \<Rightarrow> string \<Rightarrow> int option) \<Rightarrow> bool \<Rightarrow> Cron \<Rightarrow> ScheduledTaskManager \<Rightarrow> int option \<times> ScheduledTaskManager" where
  "handleTick computeNext isLeader cron s =
     (if \<not> isLeader then (None, s)
      else case computeNext (cx_expression (cn_ctx cron)) (cx_timezone (cn_ctx cron)) of None \<Rightarrow> (None, s)
      | Some following \<Rightarrow> (map_of (tm_scheduled s) (cn_job cron), s\<lparr>tm_scheduled := AList.update (cn_job cron) following (tm_scheduled s)\<rparr>))"

definition stopJob :: "Cron \<Rightarrow> ScheduledTaskManager \<Rightarrow> ScheduledTaskManager" where
  "stopJob cron s = s\<lparr>tm_jobs := removeAll (cn_job cron) (tm_jobs s)\<rparr>"

definition deregisterCrons :: "string \<Rightarrow> ScheduledTaskManager \<Rightarrow> bool \<times> ScheduledTaskManager" where
  "deregisterCrons workflowId s =
     (case map_of (tm_cronsByWorkflow s) workflowId of None \<Rightarrow> (False, s)
      | Some workflowCrons \<Rightarrow>
          if workflowCrons = [] then (False, s)
          else (True, (fold (\<lambda>(_, cron). stopJob cron) workflowCrons s)
            \<lparr>tm_cronsByWorkflow := AList.delete workflowId (tm_cronsByWorkflow s)\<rparr>))"

definition getWorkflowIdsWithCrons :: "ScheduledTaskManager \<Rightarrow> string list" where
  "getWorkflowIdsWithCrons s = map fst (tm_cronsByWorkflow s)"

definition getCronNodeIds :: "string \<Rightarrow> ScheduledTaskManager \<Rightarrow> string list" where
  "getCronNodeIds workflowId s =
     (case map_of (tm_cronsByWorkflow s) workflowId of None \<Rightarrow> []
      | Some workflowCrons \<Rightarrow> set_of_list (map (\<lambda>(_, cron). cx_nodeId (cn_ctx cron)) workflowCrons))"

definition deregisterCron :: "string \<Rightarrow> string \<Rightarrow> ScheduledTaskManager \<Rightarrow> ScheduledTaskManager" where
  "deregisterCron workflowId nodeId s =
     (case map_of (tm_cronsByWorkflow s) workflowId of None \<Rightarrow> s
      | Some workflowCrons \<Rightarrow>
          if workflowCrons = [] then s
          else
            let stopped = filter (\<lambda>(_, cron). cx_nodeId (cn_ctx cron) = nodeId) workflowCrons;
                left = filter (\<lambda>(_, cron). cx_nodeId (cn_ctx cron) \<noteq> nodeId) workflowCrons
            in (fold (\<lambda>(_, cron). stopJob cron) stopped s)
              \<lparr>tm_cronsByWorkflow := (if left = [] then AList.delete workflowId (tm_cronsByWorkflow s)
                 else AList.update workflowId left (tm_cronsByWorkflow s))\<rparr>)"

definition hasCrons :: "string \<Rightarrow> ScheduledTaskManager \<Rightarrow> bool" where
  "hasCrons workflowId s \<longleftrightarrow>
     (case map_of (tm_cronsByWorkflow s) workflowId of None \<Rightarrow> False | Some workflowCrons \<Rightarrow> workflowCrons \<noteq> [])"

definition deregisterAllCrons :: "ScheduledTaskManager \<Rightarrow> ScheduledTaskManager" where
  "deregisterAllCrons s =
     (fold (\<lambda>workflowId s. snd (deregisterCrons workflowId s)) (map fst (tm_cronsByWorkflow s)) s)\<lparr>tm_logs := False\<rparr>"


section \<open>Jobs and registrations\<close>

inductive cron_reaches :: "(json \<Rightarrow> string) \<Rightarrow> ScheduledTaskManager \<Rightarrow> bool" for stringify :: "json \<Rightarrow> string" where
  start: "cron_reaches stringify (newTaskManager activeInterval)"
| register: "cron_reaches stringify s \<Longrightarrow> registerCron stringify computeNext ctx s = Some s' \<Longrightarrow> cron_reaches stringify s'"
| tick: "cron_reaches stringify s \<Longrightarrow> cron_reaches stringify (snd (handleTick computeNext isLeader cron s))"
| workflow: "cron_reaches stringify s \<Longrightarrow> cron_reaches stringify (snd (deregisterCrons workflowId s))"
| node: "cron_reaches stringify s \<Longrightarrow> cron_reaches stringify (deregisterCron workflowId nodeId s)"
| all: "cron_reaches stringify s \<Longrightarrow> cron_reaches stringify (deregisterAllCrons s)"

definition registered :: "ScheduledTaskManager \<Rightarrow> string \<Rightarrow> string \<Rightarrow> Cron \<Rightarrow> bool" where
  "registered s workflowId key cron \<longleftrightarrow>
     (\<exists>crons. map_of (tm_cronsByWorkflow s) workflowId = Some crons \<and> map_of crons key = Some cron)"

definition crons_ok :: "(json \<Rightarrow> string) \<Rightarrow> ScheduledTaskManager \<Rightarrow> bool" where
  "crons_ok stringify s \<longleftrightarrow>
     (\<forall>w crons. map_of (tm_cronsByWorkflow s) w = Some crons \<longrightarrow> crons \<noteq> [] \<and> distinct (map fst crons)) \<and>
     (\<forall>w k c. registered s w k c \<longrightarrow> cx_workflowId (cn_ctx c) = w \<and> toCronKey stringify (cn_ctx c) = k \<and> cn_job c < tm_nextJob s) \<and>
     (\<forall>w k c w' k' c'. registered s w k c \<longrightarrow> registered s w' k' c' \<longrightarrow> cn_job c = cn_job c' \<longrightarrow> w = w' \<and> k = k') \<and>
     (\<forall>j. j \<in> set (tm_jobs s) \<longleftrightarrow> (\<exists>w k c. registered s w k c \<and> cn_job c = j)) \<and> distinct (tm_jobs s)"

lemma crons_okD:
  assumes "crons_ok stringify s"
  shows "map_of (tm_cronsByWorkflow s) w = Some crons \<Longrightarrow> crons \<noteq> [] \<and> distinct (map fst crons)"
    and "registered s w k c \<Longrightarrow> cx_workflowId (cn_ctx c) = w \<and> toCronKey stringify (cn_ctx c) = k \<and> cn_job c < tm_nextJob s"
    and "registered s w k c \<Longrightarrow> registered s w' k' c' \<Longrightarrow> cn_job c = cn_job c' \<Longrightarrow> w = w' \<and> k = k'"
    and "j \<in> set (tm_jobs s) \<longleftrightarrow> (\<exists>w k c. registered s w k c \<and> cn_job c = j)" and "distinct (tm_jobs s)"
  using assms unfolding crons_ok_def by blast+

lemma stopJob_simps:
  "tm_cronsByWorkflow (stopJob cron s) = tm_cronsByWorkflow s" "tm_nextJob (stopJob cron s) = tm_nextJob s"
  "tm_jobs (stopJob cron s) = filter (\<lambda>j. j \<noteq> cn_job cron) (tm_jobs s)"
  by (auto simp: stopJob_def removeAll_filter_not_eq intro: filter_cong)

lemma fold_stopJob:
  "tm_cronsByWorkflow (fold (\<lambda>(_, cron). stopJob cron) kcs s) = tm_cronsByWorkflow s"
  "tm_nextJob (fold (\<lambda>(_, cron). stopJob cron) kcs s) = tm_nextJob s"
  "tm_jobs (fold (\<lambda>(_, cron). stopJob cron) kcs s) = filter (\<lambda>j. j \<notin> cn_job ` snd ` set kcs) (tm_jobs s)"
proof (induction kcs arbitrary: s)
  case (Cons kc kcs)
  obtain k c where kc: "kc = (k, c)" by (cases kc)
  { case 1 show ?case by (simp add: kc Cons.IH(1) stopJob_simps) }
  { case 2 show ?case by (simp add: kc Cons.IH(2) stopJob_simps) }
  { case 3 show ?case by (simp add: kc Cons.IH(3) stopJob_simps conj_commute) }
qed simp_all

text \<open>Taking away some registrations with their jobs keeps the invariant.\<close>

lemma crons_ok_fewer:
  assumes ok: "crons_ok stringify s"
    and reg: "\<And>w k c. registered s' w k c \<longleftrightarrow> registered s w k c \<and> \<not> gone w k c"
    and shape: "\<And>w crons. map_of (tm_cronsByWorkflow s') w = Some crons \<Longrightarrow> crons \<noteq> [] \<and> distinct (map fst crons)"
    and jobs: "tm_jobs s' = filter (\<lambda>j. j \<notin> J) (tm_jobs s)" and J: "\<And>w k c. registered s w k c \<Longrightarrow> cn_job c \<in> J \<longleftrightarrow> gone w k c"
    and job: "tm_nextJob s' = tm_nextJob s"
  shows "crons_ok stringify s'"
proof -
  note D = crons_okD [OF ok]
  have "j \<in> set (tm_jobs s') \<longleftrightarrow> (\<exists>w k c. registered s' w k c \<and> cn_job c = j)" for j
  proof
    assume "j \<in> set (tm_jobs s')"
    then have j: "j \<in> set (tm_jobs s)" "j \<notin> J" by (simp_all add: jobs)
    then obtain w k c where "registered s w k c" "cn_job c = j" using D(4) [of j] by blast
    with j(2) J show "\<exists>w k c. registered s' w k c \<and> cn_job c = j" unfolding reg by blast
  next
    assume "\<exists>w k c. registered s' w k c \<and> cn_job c = j"
    then obtain w k c where r: "registered s w k c" "\<not> gone w k c" "cn_job c = j" unfolding reg by blast
    then have "j \<in> set (tm_jobs s)" using D(4) [of j] by blast
    moreover have "j \<notin> J" using J [OF r(1)] r(2,3) by simp
    ultimately show "j \<in> set (tm_jobs s')" by (simp add: jobs)
  qed
  moreover have "distinct (tm_jobs s')" using D(5) by (simp add: jobs)
  moreover have "cx_workflowId (cn_ctx c) = w \<and> toCronKey stringify (cn_ctx c) = k \<and> cn_job c < tm_nextJob s'"
    if "registered s' w k c" for w k c using that D(2) [of w k c] by (simp add: reg job)
  moreover have "w = w' \<and> k = k'" if "registered s' w k c" "registered s' w' k' c'" "cn_job c = cn_job c'" for w k c w' k' c'
    using that D(3) [of w k c w' k' c'] by (simp add: reg)
  ultimately show ?thesis unfolding crons_ok_def using shape by blast
qed

lemma deregisterCrons_ok: "crons_ok stringify s \<Longrightarrow> crons_ok stringify (snd (deregisterCrons w s))"
proof -
  assume ok: "crons_ok stringify s"
  show ?thesis
  proof (cases "map_of (tm_cronsByWorkflow s) w")
    case (Some crons)
    let ?s = "snd (deregisterCrons w s)"
    from crons_okD(1) [OF ok Some] have c: "crons \<noteq> []" "distinct (map fst crons)" by simp_all
    have s': "?s = (fold (\<lambda>(_, cron). stopJob cron) crons s)\<lparr>tm_cronsByWorkflow := AList.delete w (tm_cronsByWorkflow s)\<rparr>"
      using Some c by (simp add: deregisterCrons_def)
    have "cn_job c \<in> cn_job ` snd ` set crons \<longleftrightarrow> w' = w" if r: "registered s w' k c" for w' k c
    proof
      assume "cn_job c \<in> cn_job ` snd ` set crons"
      then obtain k' c' where "(k', c') \<in> set crons" "cn_job c = cn_job c'" by auto
      moreover from this c(2) Some have "registered s w k' c'" by (simp add: registered_def)
      ultimately show "w' = w" using crons_okD(3) [OF ok r] by blast
    next
      assume "w' = w"
      with r Some have "(k, c) \<in> set crons" by (auto simp: registered_def dest: map_of_SomeD)
      then show "cn_job c \<in> cn_job ` snd ` set crons" by force
    qed
    then show ?thesis
      by (intro crons_ok_fewer [OF ok, where gone = "\<lambda>w' _ _. w' = w" and J = "cn_job ` snd ` set crons"])
        (auto simp: s' registered_def map_of_delete fold_stopJob crons_okD(1) [OF ok] split: if_splits)
  qed (simp add: deregisterCrons_def ok)
qed


lemma map_of_filter_snd:
  "distinct (map fst kcs) \<Longrightarrow> map_of (filter (\<lambda>(_, c). P c) kcs) k = Some c \<longleftrightarrow> map_of kcs k = Some c \<and> P c"
proof (induction kcs)
  case (Cons kc kcs)
  obtain k' c' where kc: "kc = (k', c')" by (cases kc)
  have "map_of (filter (\<lambda>(_, c). P c) kcs) k' = None \<and> map_of kcs k' = None"
    using Cons.prems by (auto simp: kc map_of_eq_None_iff)
  with Cons show ?case by (auto simp: kc)
qed simp

lemma distinct_filter_fst: "distinct (map fst kcs) \<Longrightarrow> distinct (map fst (filter P kcs))"
  by (simp add: distinct_map inj_on_def)

lemma deregisterCron_registered:
  assumes ok: "crons_ok stringify s"
  shows "registered (deregisterCron w n s) w' k c \<longleftrightarrow> registered s w' k c \<and> \<not> (w' = w \<and> cx_nodeId (cn_ctx c) = n)"
proof (cases "map_of (tm_cronsByWorkflow s) w")
  case (Some crons)
  let ?left = "filter (\<lambda>(_, cron). cx_nodeId (cn_ctx cron) \<noteq> n) crons"
  note c = crons_okD(1) [OF ok Some]
  have k: "map_of ?left k = Some c \<longleftrightarrow> map_of crons k = Some c \<and> cx_nodeId (cn_ctx c) \<noteq> n"
    using map_of_filter_snd [of crons "\<lambda>cron. cx_nodeId (cn_ctx cron) \<noteq> n" k c] c by simp
  show ?thesis
  proof (cases "?left = []")
    case True
    with k have "\<not> (map_of crons k = Some c \<and> cx_nodeId (cn_ctx c) \<noteq> n)" by simp
    with Some c True show ?thesis by (auto simp: deregisterCron_def registered_def Let_def map_of_delete)
  next
    case False
    with Some c k show ?thesis
      by (cases "w' = w") (simp_all add: deregisterCron_def registered_def Let_def update_conv')
  qed
qed (auto simp: deregisterCron_def registered_def)

lemma deregisterCron_ok: "crons_ok stringify s \<Longrightarrow> crons_ok stringify (deregisterCron w n s)"
proof -
  assume ok: "crons_ok stringify s"
  show ?thesis
  proof (cases "map_of (tm_cronsByWorkflow s) w")
    case (Some crons)
    let ?st = "filter (\<lambda>(_, cron). cx_nodeId (cn_ctx cron) = n) crons"
      and ?left = "filter (\<lambda>(_, cron). cx_nodeId (cn_ctx cron) \<noteq> n) crons"
    from crons_okD(1) [OF ok Some] have c: "crons \<noteq> []" "distinct (map fst crons)" by simp_all
    have fields: "tm_jobs (deregisterCron w n s) = filter (\<lambda>j. j \<notin> cn_job ` snd ` set ?st) (tm_jobs s)"
      "tm_nextJob (deregisterCron w n s) = tm_nextJob s"
      "map_of (tm_cronsByWorkflow (deregisterCron w n s)) =
        (map_of (tm_cronsByWorkflow s))(w := (if ?left = [] then None else Some ?left))"
      using Some c by (simp_all add: deregisterCron_def Let_def fold_stopJob map_of_delete update_conv' fun_eq_iff)
    have "cn_job c \<in> cn_job ` snd ` set ?st \<longleftrightarrow> w' = w \<and> cx_nodeId (cn_ctx c) = n" if r: "registered s w' k c" for w' k c
    proof
      assume "cn_job c \<in> cn_job ` snd ` set ?st"
      then obtain k' c' where m: "(k', c') \<in> set crons" "cx_nodeId (cn_ctx c') = n" "cn_job c = cn_job c'" by auto
      from m(1) c(2) Some have r': "registered s w k' c'" by (simp add: registered_def)
      from crons_okD(3) [OF ok r r' m(3)] have "w' = w" "k = k'" by simp_all
      with r r' have "c = c'" by (auto simp: registered_def)
      with m \<open>w' = w\<close> show "w' = w \<and> cx_nodeId (cn_ctx c) = n" by simp
    next
      assume "w' = w \<and> cx_nodeId (cn_ctx c) = n"
      moreover from this r Some have "(k, c) \<in> set crons" by (auto simp: registered_def dest: map_of_SomeD)
      ultimately have "(k, c) \<in> set ?st" by simp
      then show "cn_job c \<in> cn_job ` snd ` set ?st" by force
    qed
    moreover have "crons' \<noteq> [] \<and> distinct (map fst crons')"
      if "map_of (tm_cronsByWorkflow (deregisterCron w n s)) w' = Some crons'" for w' crons'
      using that crons_okD(1) [OF ok, of w' crons'] distinct_filter_fst [OF c(2)] by (auto simp: fields split: if_splits)
    ultimately show ?thesis
      by (intro crons_ok_fewer [OF ok deregisterCron_registered [OF ok] _ fields(1) _ fields(2)])
  qed (simp add: deregisterCron_def ok)
qed


lemma registerCron_cases:
  assumes "registerCron stringify computeNext ctx s = Some s'"
  shows "(\<exists>crons. map_of (tm_cronsByWorkflow s) (cx_workflowId ctx) = Some crons \<and> toCronKey stringify ctx \<in> fst ` set crons \<and>
      s' = s\<lparr>tm_duplicates := tm_duplicates s @ [ctx]\<rparr>) \<or>
    (\<exists>crons cron. (\<forall>c. \<not> registered s (cx_workflowId ctx) (toCronKey stringify ctx) c) \<and>
      (map_of (tm_cronsByWorkflow s) (cx_workflowId ctx) = Some crons \<or> map_of (tm_cronsByWorkflow s) (cx_workflowId ctx) = None \<and> crons = []) \<and>
      cn_job cron = tm_nextJob s \<and> cn_ctx cron = ctx \<and>
      map_of (tm_cronsByWorkflow s') =
        (map_of (tm_cronsByWorkflow s))(cx_workflowId ctx \<mapsto> AList.update (toCronKey stringify ctx) cron crons) \<and>
      tm_jobs s' = tm_jobs s @ [tm_nextJob s] \<and> tm_nextJob s' = tm_nextJob s + 1)"
proof (cases "map_of (tm_cronsByWorkflow s) (cx_workflowId ctx)")
  case None
  with assms show ?thesis
    by (intro disjI2 exI [of _ "[]"] exI [of _ "\<lparr>cn_job = tm_nextJob s, cn_summary = cronSummary ctx, cn_ctx = ctx\<rparr>"])
      (auto simp: registerCron_def registered_def Let_def update_conv' split: option.splits)
next
  case (Some crons)
  show ?thesis
  proof (cases "toCronKey stringify ctx \<in> fst ` set crons")
    case True
    with assms Some show ?thesis by (intro disjI1 exI [of _ crons]) (auto simp: registerCron_def Let_def)
  next
    case False
    then have "map_of crons (toCronKey stringify ctx) = None" by (simp add: map_of_eq_None_iff)
    with False assms Some show ?thesis
      by (intro disjI2 exI [of _ crons] exI [of _ "\<lparr>cn_job = tm_nextJob s, cn_summary = cronSummary ctx, cn_ctx = ctx\<rparr>"])
        (auto simp: registerCron_def registered_def Let_def update_conv' split: option.splits)
  qed
qed

lemma registerCron_ok:
  assumes ok: "crons_ok stringify s" and r: "registerCron stringify computeNext ctx s = Some s'"
  shows "crons_ok stringify s'"
  using registerCron_cases [OF r]
proof (rule disjE)
  assume "\<exists>crons. map_of (tm_cronsByWorkflow s) (cx_workflowId ctx) = Some crons \<and> toCronKey stringify ctx \<in> fst ` set crons \<and>
      s' = s\<lparr>tm_duplicates := tm_duplicates s @ [ctx]\<rparr>"
  then have "s' = s\<lparr>tm_duplicates := tm_duplicates s @ [ctx]\<rparr>" by blast
  with ok show ?thesis by (simp add: crons_ok_def registered_def)
next
  assume "\<exists>crons cron. (\<forall>c. \<not> registered s (cx_workflowId ctx) (toCronKey stringify ctx) c) \<and>
      (map_of (tm_cronsByWorkflow s) (cx_workflowId ctx) = Some crons \<or> map_of (tm_cronsByWorkflow s) (cx_workflowId ctx) = None \<and> crons = []) \<and>
      cn_job cron = tm_nextJob s \<and> cn_ctx cron = ctx \<and>
      map_of (tm_cronsByWorkflow s') =
        (map_of (tm_cronsByWorkflow s))(cx_workflowId ctx \<mapsto> AList.update (toCronKey stringify ctx) cron crons) \<and>
      tm_jobs s' = tm_jobs s @ [tm_nextJob s] \<and> tm_nextJob s' = tm_nextJob s + 1"
  then obtain crons cron where new: "\<forall>c. \<not> registered s (cx_workflowId ctx) (toCronKey stringify ctx) c"
    and old: "map_of (tm_cronsByWorkflow s) (cx_workflowId ctx) = Some crons \<or> map_of (tm_cronsByWorkflow s) (cx_workflowId ctx) = None \<and> crons = []"
    and cron: "cn_job cron = tm_nextJob s" "cn_ctx cron = ctx"
    and m: "map_of (tm_cronsByWorkflow s') =
        (map_of (tm_cronsByWorkflow s))(cx_workflowId ctx \<mapsto> AList.update (toCronKey stringify ctx) cron crons)"
    and jobs: "tm_jobs s' = tm_jobs s @ [tm_nextJob s]" and job: "tm_nextJob s' = tm_nextJob s + 1" by (elim exE conjE)
  have reg: "registered s' w k c \<longleftrightarrow>
      (if w = cx_workflowId ctx \<and> k = toCronKey stringify ctx then c = cron else registered s w k c)" for w k c
    using old by (auto simp: registered_def m update_conv')
  note D = crons_okD [OF ok]
  have fresh: "registered s w k c \<Longrightarrow> cn_job c \<noteq> tm_nextJob s" for w k c using D(2) [of w k c] by simp
  have "crons' \<noteq> [] \<and> distinct (map fst crons')" if "map_of (tm_cronsByWorkflow s') w = Some crons'" for w crons'
    using that D(1) [of w crons'] D(1) [of "cx_workflowId ctx" crons] old
    by (auto simp: m distinct_update split: if_splits)
  moreover have "cx_workflowId (cn_ctx c) = w \<and> toCronKey stringify (cn_ctx c) = k \<and> cn_job c < tm_nextJob s'"
    if "registered s' w k c" for w k c using that D(2) [of w k c] by (auto simp: reg job cron split: if_splits)
  moreover have "w = w' \<and> k = k'" if "registered s' w k c" "registered s' w' k' c'" "cn_job c = cn_job c'" for w k c w' k' c'
    using that D(3) [of w k c w' k' c'] fresh by (auto simp: reg cron split: if_splits)
  moreover have "j \<in> set (tm_jobs s') \<longleftrightarrow> (\<exists>w k c. registered s' w k c \<and> cn_job c = j)" for j
  proof
    assume "j \<in> set (tm_jobs s')"
    then consider "j = tm_nextJob s" | "j \<in> set (tm_jobs s)" by (auto simp: jobs)
    then show "\<exists>w k c. registered s' w k c \<and> cn_job c = j"
    proof cases
      case 1
      have "registered s' (cx_workflowId ctx) (toCronKey stringify ctx) cron" by (simp add: reg)
      with 1 cron show ?thesis by blast
    next
      case 2
      then obtain w k c where r: "registered s w k c" "cn_job c = j" using D(4) [of j] by blast
      with new have "\<not> (w = cx_workflowId ctx \<and> k = toCronKey stringify ctx)" by blast
      with r have "registered s' w k c" by (auto simp: reg)
      with r show ?thesis by blast
    qed
  next
    assume "\<exists>w k c. registered s' w k c \<and> cn_job c = j"
    then obtain w k c where r: "registered s' w k c" "cn_job c = j" by blast
    then have "j = tm_nextJob s \<or> registered s w k c" by (auto simp: reg cron split: if_splits)
    with r D(4) [of j] show "j \<in> set (tm_jobs s')" by (auto simp: jobs)
  qed
  moreover have "distinct (tm_jobs s')" using D(5) D(4) [of "tm_nextJob s"] fresh by (auto simp: jobs)
  ultimately show ?thesis unfolding crons_ok_def by blast
qed

lemma handleTick_ok: "crons_ok stringify s \<Longrightarrow> crons_ok stringify (snd (handleTick computeNext isLeader cron s))"
  by (simp add: handleTick_def crons_ok_def registered_def split: option.split)

lemma fold_deregister_ok:
  "crons_ok stringify s \<Longrightarrow> crons_ok stringify (fold (\<lambda>w s. snd (deregisterCrons w s)) ws s)"
  by (induction ws arbitrary: s) (simp_all add: deregisterCrons_ok)

lemma cron_reaches_ok: "cron_reaches stringify s \<Longrightarrow> crons_ok stringify s"
proof (induction rule: cron_reaches.induct)
  case (start activeInterval)
  show ?case by (simp add: crons_ok_def registered_def newTaskManager_def)
next
  case (all s)
  then have "crons_ok stringify (fold (\<lambda>w s. snd (deregisterCrons w s)) (map fst (tm_cronsByWorkflow s)) s)"
    by (intro fold_deregister_ok)
  then show ?case by (simp add: deregisterAllCrons_def crons_ok_def registered_def)
qed (simp_all add: registerCron_ok handleTick_ok deregisterCrons_ok deregisterCron_ok)


lemma deregisterCrons_registered:
  "crons_ok stringify s \<Longrightarrow> registered (snd (deregisterCrons w s)) w' k c \<longleftrightarrow> registered s w' k c \<and> w' \<noteq> w"
  by (auto simp: deregisterCrons_def registered_def map_of_delete split: option.split dest: crons_okD(1))

lemma fold_deregister_registered:
  "crons_ok stringify s \<Longrightarrow>
    registered (fold (\<lambda>w s. snd (deregisterCrons w s)) ws s) w' k c \<longleftrightarrow> registered s w' k c \<and> w' \<notin> set ws"
proof (induction ws arbitrary: s)
  case (Cons w ws)
  then have "crons_ok stringify (snd (deregisterCrons w s))" by (simp add: deregisterCrons_ok)
  from Cons.IH [OF this] Cons.prems show ?case by (auto simp: deregisterCrons_registered)
qed simp

lemma hasCrons_registered: "crons_ok stringify s \<Longrightarrow> hasCrons w s \<longleftrightarrow> (\<exists>k c. registered s w k c)"
proof -
  assume ok: "crons_ok stringify s"
  show ?thesis
  proof (cases "map_of (tm_cronsByWorkflow s) w")
    case (Some crons)
    from crons_okD(1) [OF ok Some] have n: "crons \<noteq> []" by simp
    then have "\<exists>k c. map_of crons k = Some c" by (cases crons) auto
    with Some n show ?thesis by (simp add: hasCrons_def registered_def)
  qed (simp add: hasCrons_def registered_def)
qed

text \<open>When the manager is emptied no job runs any more.\<close>

lemma deregisterAllCrons_stops:
  assumes "cron_reaches stringify s"
  shows "tm_jobs (deregisterAllCrons s) = []" and "\<not> hasCrons w (deregisterAllCrons s)"
proof -
  let ?s = "deregisterAllCrons s"
  from assms have ok: "crons_ok stringify s" by (rule cron_reaches_ok)
  from assms have ok': "crons_ok stringify ?s" by (intro cron_reaches_ok cron_reaches.all)
  have none: "\<not> registered ?s w' k c" for w' k c
  proof
    assume "registered ?s w' k c"
    then have "registered (fold (\<lambda>w s. snd (deregisterCrons w s)) (map fst (tm_cronsByWorkflow s)) s) w' k c"
      by (simp add: deregisterAllCrons_def registered_def)
    then have "registered s w' k c \<and> w' \<notin> fst ` set (tm_cronsByWorkflow s)"
      by (simp add: fold_deregister_registered [OF ok])
    then show False by (force simp: registered_def dest: map_of_SomeD)
  qed
  then have "j \<notin> set (tm_jobs ?s)" for j using crons_okD(4) [OF ok'] by simp
  then show "tm_jobs ?s = []" by (cases "tm_jobs ?s") auto
  from none show "\<not> hasCrons w ?s" by (simp add: hasCrons_registered [OF ok'])
qed

text \<open>
  A tick on an instance that is not the leader leaves the scheduled time as it is. The first tick after a takeover reports
  that time to the trigger.
\<close>

lemma follower_tick_stale:
  assumes "map_of (tm_scheduled s) (cn_job cron) = Some t" and "computeNext (cx_expression (cn_ctx cron)) (cx_timezone (cn_ctx cron)) = Some u"
  shows "fst (handleTick computeNext True cron (snd (handleTick earlier False cron s))) = Some t"
  using assms by (simp add: handleTick_def)

lemma registerCron_again:
  assumes "registerCron stringify computeNext ctx s = Some s'"
  shows "registerCron stringify later ctx s' = Some (s'\<lparr>tm_duplicates := tm_duplicates s' @ [ctx]\<rparr>)"
proof -
  obtain crons where "map_of (tm_cronsByWorkflow s') (cx_workflowId ctx) = Some crons" "toCronKey stringify ctx \<in> fst ` set crons"
    using registerCron_cases [OF assms] by (force simp: dom_update)
  then show ?thesis by (simp add: registerCron_def)
qed

text \<open>Two crons of an example.\<close>

definition minutely :: "string \<Rightarrow> CronContext" where
  "minutely n = \<lparr>cx_workflowId = ''w'', cx_timezone = ''UTC'', cx_nodeId = n, cx_expression = ''0 * * * * *'', cx_recurrence = None\<rparr>"

definition nodeKey :: "json \<Rightarrow> string" where
  "nodeKey j = (case j of JObj kvs \<Rightarrow> (case map_of kvs ''nodeId'' of Some (JStr n) \<Rightarrow> n | _ \<Rightarrow> []) | _ \<Rightarrow> [])"

text \<open>
  C18: after any sequence of registrations, ticks and deregistrations the jobs that run are exactly those of the registered
  crons, each once, so no job is left running without a registration that could stop it; two registered crons never share a
  job, and \<open>hasCrons\<close> is true exactly of the workflows for which a job runs.
\<close>

theorem running_jobs_registered:
  assumes "cron_reaches stringify s"
  shows "distinct (tm_jobs s) \<and>
    (\<forall>j. j \<in> set (tm_jobs s) \<longleftrightarrow> (\<exists>w k c. registered s w k c \<and> cn_job c = j)) \<and>
    (\<forall>w k c w' k' c'. registered s w k c \<and> registered s w' k' c' \<and> cn_job c = cn_job c' \<longrightarrow> w = w' \<and> k = k') \<and>
    (\<forall>w. hasCrons w s \<longleftrightarrow> (\<exists>k c. registered s w k c \<and> cn_job c \<in> set (tm_jobs s)))"
proof -
  from assms have ok: "crons_ok stringify s" by (rule cron_reaches_ok)
  have "registered s w k c \<Longrightarrow> cn_job c \<in> set (tm_jobs s)" for w k c using crons_okD(4) [OF ok] by blast
  then have "hasCrons w s \<longleftrightarrow> (\<exists>k c. registered s w k c \<and> cn_job c \<in> set (tm_jobs s))" for w
    using hasCrons_registered [OF ok] by blast
  with crons_okD(3-5) [OF ok] show ?thesis by blast
qed

lemma running_jobs_registered_witness:
  "\<exists>s. cron_reaches nodeKey s \<and> tm_jobs s = [1] \<and> hasCrons ''w'' s \<and>
    (\<exists>w k c. registered s w k c \<and> cn_job c = 1) \<and> \<not> (\<exists>w k c. registered s w k c \<and> cn_job c = 0)"
proof -
  let ?next = "\<lambda>_ _. Some 60"
  obtain s1 where s1: "registerCron nodeKey ?next (minutely ''a'') (newTaskManager 0) = Some s1"
    by (simp add: registerCron_def newTaskManager_def Let_def)
  have d1: "s1 = \<lparr>tm_cronsByWorkflow = [(''w'', [(''a'', \<lparr>cn_job = 0, cn_summary = ''0 * * * * *'', cn_ctx = minutely ''a''\<rparr>)])], tm_jobs = [0],
      tm_scheduled = [(0, 60)], tm_nextJob = 1, tm_duplicates = [], tm_logs = False\<rparr>"
    using s1 by (simp add: registerCron_def newTaskManager_def Let_def minutely_def nodeKey_def toCronKey_def cronSummary_def)
  obtain s2 where s2: "registerCron nodeKey ?next (minutely ''b'') s1 = Some s2"
    by (simp add: registerCron_def Let_def d1 minutely_def nodeKey_def toCronKey_def)
  let ?s = "deregisterCron ''w'' ''a'' s2"
  have r: "cron_reaches nodeKey ?s"
    by (rule cron_reaches.node [OF cron_reaches.register [OF cron_reaches.register [OF cron_reaches.start s1] s2]])
  have d: "tm_jobs ?s = [1]" "hasCrons ''w'' ?s"
    using s2 by (auto simp: d1 registerCron_def Let_def minutely_def nodeKey_def toCronKey_def cronSummary_def deregisterCron_def stopJob_def hasCrons_def)
  have "1 \<in> set (tm_jobs ?s)" "0 \<notin> set (tm_jobs ?s)" by (simp_all add: d(1))
  with running_jobs_registered [OF r]
  have "(\<exists>w k c. registered ?s w k c \<and> cn_job c = 1) \<and> \<not> (\<exists>w k c. registered ?s w k c \<and> cn_job c = 0)" by blast
  with r d show ?thesis by blast
qed

end
