(* ===== verification/Spec2Isabelle.thy ===== *)
theory Spec2Isabelle
  imports Connected_Nodes Concurrency Broker_Matching Partial_Run Engine_Requests Engine_Setup Node_Grouping Api_Keys Structure_Validation Active_Executions Node_Parameters Workflow_History
    Wait_Tracker Scheduled_Tasks
begin

text \<open>
  A verification library for n8n, a workflow automation server. A workflow is a set of nodes and of connections
  between their inputs and outputs. The engine runs it: it takes a node and its items from a stack, calls the code of
  the node, records the run, and hands the items to the nodes behind it; a node with several inputs waits until they
  have arrived. In the editor a user may run a part of a workflow; then the way from a trigger to the chosen node is cut
  out of the graph, stale results are dropped and the stack is rebuilt from what earlier runs left. On the server, a
  list holds the active executions, a queue limits how many of them run at once, a broker brings requests for running user code together with
  the processes that offer to run it, and roles decide what a user or an API key may do.

  \<^bold>\<open>Theories and sources.\<close>
  \<^item> \<open>N8n_Prelude\<close>: errors as a sum with the fold and bind of fallible loops, JavaScript objects as
    association lists in insertion order (integer-like keys first), generic search locales and list lemmas.
    \<open>N8n_Types\<close>: the records of \<open>workflow/src/interfaces.ts\<close>.
  \<^item> \<open>Connections\<close>, \<open>Connected_Nodes\<close>: \<open>workflow/src/common\<close>, the inversion of the connections and the
    nodes connected to a node.
  \<^item> \<open>Directed_Graph\<close>, \<open>Graph_Edit\<close>, \<open>Graph_Search\<close>, \<open>Graph_Convert\<close>, \<open>Strong_Components\<close>:
    \<open>partial-execution-utils/directed-graph.ts\<close> and \<open>filter-disabled-nodes.ts\<close>. The state is a map from names to nodes
    and a map from keys to connections; \<open>wf_graph\<close> is its invariant.
  \<^item> \<open>Start_Nodes\<close> (\<open>find-start-nodes.ts\<close>, \<open>get-incoming-data.ts\<close>), \<open>Subgraph\<close> (\<open>find-subgraph.ts\<close>),
    \<open>Run_Data\<close> (\<open>clean-run-data.ts\<close>, \<open>handle-cycles.ts\<close>, \<open>run-data-utils.ts\<close>), \<open>Source_Groups\<close>
    (\<open>get-source-data-groups.ts\<close>), \<open>Execution_Stack\<close> (\<open>recreate-node-execution-stack.ts\<close>): the steps of a partial
    execution.
  \<^item> \<open>Workflow\<close>, \<open>Workflow_Search\<close>, \<open>Workflow_Start\<close>: the class \<open>Workflow\<close> of \<open>workflow/src/workflow.ts\<close>.
  \<^item> \<open>Engine_Queue\<close>, \<open>Engine_Waiting\<close>, \<open>Engine_Drain\<close>, \<open>Engine_Items\<close>, \<open>Engine_Frame\<close>, \<open>Engine_Run\<close>,
    \<open>Engine_Safety\<close>: \<open>core/src/execution-engine/workflow-execute.ts\<close>: handing items on, nodes that wait, the search of
    the waiting nodes at the end, the items of one run with its retries, error outputs and pairing, one turn of the
    execution loop as \<open>engineStep\<close>, and its runs as \<open>engine_reaches\<close>.
  \<^item> \<open>Engine_Requests\<close>: \<open>requests-response.ts\<close> and \<open>handleEngineRequest\<close>: a node that asks the engine to run tools and is
    resumed with their results. Marking a tool changes its node, so the workflow is part of the state of \<open>engine_runs\<close>.
  \<^item> \<open>Engine_Setup\<close>: what the same file does around the loop: the checks before an execution, taking up an execution that a
    node has put into waiting, a start that fails and the metadata of the runs.
  \<^item> \<open>Rewire_Graph\<close>: \<open>rewire-graph.ts\<close>, \<open>isTool\<close> of \<open>workflow/src/node-helpers.ts\<close> and \<open>DirectedGraph.toWorkflow\<close>, for tools
    as destination of a partial execution.
  \<^item> \<open>Partial_Run\<close>: \<open>run\<close> and \<open>runPartialWorkflow2\<close> of the same file with
    \<open>find-trigger-for-partial-execution.ts\<close>; it composes all of the above.
  \<^item> \<open>Graph_Utils\<close> (\<open>workflow/src/graph/graph-utils.ts\<close>), \<open>Node_Grouping\<close>
    (\<open>workflow/src/node-grouping-validation.ts\<close>): which selections of nodes may become a sub-workflow or a group.
  \<^item> \<open>Concurrency\<close>: \<open>cli/src/concurrency\<close> and \<open>evaluation-concurrency.helper.ts\<close>. A promise that is resolved is
    the execution that is let through, so every operation returns the executions that start. \<open>Active_Executions\<close>:
    \<open>cli/src/active-executions.ts\<close> on top of it; the entries are objects in a list, since callbacks keep hold of them, and a
    call of \<open>add\<close> that waits for capacity or the database is part of the state.
  \<^item> \<open>Structure_Validation\<close>: \<open>workflow/src/workflow-structure-validation.ts\<close>, the shape a workflow must have, its issues with
    their places and texts.
  \<^item> \<open>Parameter_Order\<close>, \<open>Node_Parameters\<close>: of \<open>workflow/src/node-helpers.ts\<close> the dependencies and the order of parameters,
    the conditions under which they are displayed, and \<open>getNodeParameters\<close> with collections. \<open>From_AI\<close>:
    \<open>workflow/src/from-ai-parse-utils.ts\<close> and \<open>expression-helpers.ts\<close>, the expressions that a chat user may give to a tool.
  \<^item> \<open>Workflow_Diff\<close> (\<open>connections-diff.ts\<close> and \<open>workflow-diff.ts\<close> of \<open>workflow/src\<close>), \<open>Workflow_History\<close>: the comparison of
    versions of a workflow, their grouping and what \<open>workflow-history.repository.ts\<close> and
    \<open>workflow-history-compaction.service.ts\<close> delete from the history. Nodes are objects there, the history is a list of rows.
  \<^item> \<open>Wait_Tracker\<close> (\<open>cli/src/wait-tracker.ts\<close>), \<open>Scheduled_Tasks\<close>
    (\<open>core/src/execution-engine/scheduled-task-manager.ts\<close>): timers for waiting executions and for crons. A timer or job is a number
    that is in the state while it runs; takeovers, queries that are answered and timers that end are events in any order.
  \<^item> \<open>Task_Broker\<close>, \<open>Broker_Matching\<close>: \<open>cli/src/task-runners/task-broker/task-broker.service.ts\<close>. Every handler is
    a function on the state of the broker; promises and timers that are pending are part of the state and settle by
    events of their own, in any order, in \<open>broker_reaches\<close>.
  \<^item> \<open>Permissions\<close> (\<open>@n8n/permissions\<close>), \<open>Access_Control\<close> (\<open>check-access.ts\<close>, \<open>role.service.ts\<close> and
    \<open>role-cache.service.ts\<close> of \<open>cli/src\<close>), \<open>Api_Keys\<close> (\<open>api-keys.controller.ts\<close>, \<open>public-api-key.service.ts\<close> and
    \<open>changeUserRole\<close> of \<open>user.service.ts\<close>): who may do what. The tables of the database are lists of rows, and the keys, users
    and project roles change by the steps of \<open>key_step\<close>.

  \<^bold>\<open>What is shown.\<close>
  \<^item> Graphs: the searches return exactly the reachable nodes or connections and always end; editing keeps
    \<open>wf_graph\<close>; removing disabled nodes keeps who reaches whom; export and import are inverse; the components
    that are returned are disjoint and strongly connected.
  \<^item> Partial executions: the subgraph is sound and complete; the start nodes are exactly the dirty ones that are
    reached first; cleaning deletes exactly what depends on a change; the groups partition the incoming connections;
    the rebuilt stack satisfies the invariant of the engine. Composed: every run that a partial execution records
    belongs to a node that leads to its destination.
  \<^item> Scheduling: handing items to a node refines an abstract delivery to the first waiting run whose input is free;
    no items are lost; the search of the waiting nodes ends, and finds something to execute unless the nodes wait for
    each other.
  \<^item> Engine: a step changes the recorded runs of one node only; execution indices are never used twice; a state over
    nodes of the workflow stays one, also when nodes ask for tools; a waiting
    execution is taken up where it stopped; every tool gets a run of its own and the node its
    results in order; tries, pairings and error outputs are bounded and complete.
  \<^item> Selections: a selection is accepted exactly when it has one entry and one exit at most, joined by a path
    inside it, hangs together, and holds no trigger and no grouped node.
  \<^item> Server: the limit of running executions holds while executions arrive and finish, in every history of the
    active executions, except that one stopped while it begins to wait keeps its share; a shutdown ends; the broker answers every
    request at most once and leaves no request and offer unmatched.
  \<^item> Parameters: an order is found exactly when no dependency is missing and respects the dependencies; the parameters
    that are returned are exactly those displayed; an accepted workflow has a graph that can be built; a
    chat user's expression is accepted exactly when it is a default or one call with literal arguments.
  \<^item> History and timers: a version is deleted only if a later one stands for it; an execution that a query finds is resumed,
    unless the instance steps down as leader; resuming a parent is tried at most three times; a cron job runs exactly while its cron
    is registered.
  \<^item> Access: the scopes shown for a workflow or credential are those that are enforced; chat users never hold
    API keys; the scopes taken from the keys of a demoted administrator are too few.
  \<^item> Defects: lemmas that exhibit where the code does not do what it means to, listed in the manifest.

  \<^bold>\<open>Interfaces.\<close> The locales \<open>graph_search\<close> and those of \<open>N8n_Prelude\<close> state what a search or an object store
  promises and are interpreted on the functions of the model; \<open>queue_invariant\<close> of \<open>Engine_Frame\<close> states when an
  invariant survives all scheduling operations and is interpreted for the run data and for the nodes of the stack;
  \<open>capacity_queue\<close> of \<open>Concurrency\<close> states the contract of a queue with a capacity.

  \<^bold>\<open>Loops.\<close> Every recursion is proved terminating, with the nodes or connections that are left, the waiting runs or
  the remaining tries as measure; there is no fuel. The execution loop itself need not end, since a workflow may have
  cycles, so it is a relation over single steps.

  \<^bold>\<open>Limits.\<close> Names of properties of \<open>Object.prototype\<close> are not used as node names. The identity of a node object is
  the field \<open>n_ref\<close>. \<open>localeCompare\<close>, \<open>Array.prototype.sort\<close>, the node types with their code, the evaluation of
  expressions, the lookup of paired items, \<open>nanoid\<close>, the clock, the configuration and the license are parameters.
  So are \<open>get\<close> of lodash, regular expressions, the numbers in texts and the issues that the schema library reports,
  \<open>JSON.stringify\<close>, the order of the rows of a table, the times of the cron library and what the database answers; numbers
  are integers. The histories of \<open>active_reaches\<close> have no other user of the concurrency control than the active executions, and end
  where a shutdown begins. Reading where JavaScript yields \<open>undefined\<close> and the code goes on with it is marked by \<open>UndefinedValue\<close>. Arrays with
  holes in the waiting data are left out. An error while a request is handled, which the loop treats like an error of the
  node, is where \<open>engine_runs\<close> ends.

  \<^bold>\<open>Not modelled.\<close> Node code and its connectors, expressions and the data proxy, the editor, the REST interface apart from its access checks,
  persistence, queue mode over Redis, the task runner process and the AI features: they are dominated by
  third-party services and user interface, and the engine takes from them only what the parameters above stand for.
\<close>

end
